(* ===== verification/Goc_Prelude.thy ===== *)
theory Goc_Prelude
  imports Main "HOL-Library.Word" "HOL-Library.State_Monad"
begin

text \<open>
  Shared vocabulary of the development: the machine integers of the Go sources, the
  conversions between Go strings and byte slices, decimal printing, little-endian fields, and
  the lemma collections the component theories extend.
\<close>

unbundle bit_operations_syntax

section \<open>Machine integers, bytes and strings\<close>

text \<open>Go's unsigned and signed 64-bit integers are the same words; a signed one is read with
  \<^term>\<open>sint\<close>. Go strings and byte slices are both sequences of bytes.\<close>

type_synonym byte = "8 word"
type_synonym u8 = "8 word"
type_synonym u16 = "16 word"
type_synonym u32 = "32 word"
type_synonym u64 = "64 word"
type_synonym i64 = "64 word"

named_theorems codec_simps \<open>equations that run a decoder on encoded bytes\<close>
named_theorems layout_simps \<open>equations that unfold the argument layout\<close>
named_theorems exec_simps \<open>equations that run thunk instructions\<close>

definition byte_of_char :: "char \<Rightarrow> byte" where
  "byte_of_char c = word_of_nat (of_char c)"

definition char_of_byte :: "byte \<Rightarrow> char" where
  "char_of_byte b = char_of (unat b)"

definition bytes_of :: "string \<Rightarrow> byte list" where
  "bytes_of = map byte_of_char"

definition string_of :: "byte list \<Rightarrow> string" where
  "string_of = map char_of_byte"

lemma unat_lt_exp: "unat (w :: 'a :: len word) < 2 ^ LENGTH('a)"
  by simp

lemma unat_mod_256: "unat (b :: byte) mod 256 = unat b"
  using unat_lt_exp [of b] by simp

lemma char_of_byte_of_char [simp]: "char_of_byte (byte_of_char c) = c"
  by (simp add: char_of_byte_def byte_of_char_def unat_of_nat)

lemma byte_of_char_of_byte [simp]: "byte_of_char (char_of_byte b) = b"
  by (simp add: char_of_byte_def byte_of_char_def unat_mod_256)

lemma string_of_bytes_of [simp]: "string_of (bytes_of s) = s"
  by (simp add: string_of_def bytes_of_def comp_def map_idI)

lemma bytes_of_string_of [simp]: "bytes_of (string_of b) = b"
  by (simp add: string_of_def bytes_of_def comp_def map_idI)

lemma length_bytes_of [simp]: "length (bytes_of s) = length s"
  by (simp add: bytes_of_def)

lemma bytes_of_append [simp]: "bytes_of (s @ t) = bytes_of s @ bytes_of t"
  by (simp add: bytes_of_def)

lemma bytes_of_inj [simp]: "bytes_of s = bytes_of t \<longleftrightarrow> s = t"
  by (metis string_of_bytes_of)

text \<open>A C string: no NUL byte inside.\<close>

definition nul_free :: "string \<Rightarrow> bool" where
  "nul_free s \<longleftrightarrow> 0 \<notin> set (bytes_of s)"

section \<open>Decimal printing (fmt's %d)\<close>

fun dec_nat :: "nat \<Rightarrow> string" where
  "dec_nat n = (if n < 10 then [char_of (48 + n)]
     else dec_nat (n div 10) @ [char_of (48 + n mod 10)])"

declare dec_nat.simps [simp del]

definition dec_int :: "int \<Rightarrow> string" where
  "dec_int i = (if i < 0 then CHR 0x2D # dec_nat (nat (- i)) else dec_nat (nat i))"

section \<open>Little-endian fields (encoding/binary.LittleEndian)\<close>

fun le_n :: "nat \<Rightarrow> nat \<Rightarrow> byte list" where
  "le_n 0 x = []"
| "le_n (Suc n) x = word_of_nat x # le_n n (x div 256)"

definition le16 :: "u16 \<Rightarrow> byte list" where
  "le16 v = le_n 2 (unat v)"

definition le32 :: "u32 \<Rightarrow> byte list" where
  "le32 v = le_n 4 (unat v)"

definition le64 :: "u64 \<Rightarrow> byte list" where
  "le64 v = le_n 8 (unat v)"

fun un_le :: "byte list \<Rightarrow> nat" where
  "un_le [] = 0"
| "un_le (b # bs) = unat b + 256 * un_le bs"

definition un_le16 :: "byte list \<Rightarrow> u16" where
  "un_le16 bs = word_of_nat (un_le (take 2 bs))"

definition un_le32 :: "byte list \<Rightarrow> u32" where
  "un_le32 bs = word_of_nat (un_le (take 4 bs))"

definition un_le64 :: "byte list \<Rightarrow> u64" where
  "un_le64 bs = word_of_nat (un_le (take 8 bs))"

lemma length_le_n [simp]: "length (le_n n x) = n"
  by (induction n arbitrary: x) auto

lemma length_le [simp]: "length (le16 v) = 2" "length (le32 w) = 4" "length (le64 x) = 8"
  by (simp_all add: le16_def le32_def le64_def)

lemma un_le_le_n: "un_le (le_n n x) = x mod 256 ^ n"
proof (induction n arbitrary: x)
  case 0
  then show ?case by simp
next
  case (Suc n)
  have "unat (word_of_nat x :: byte) = x mod 256" by (simp add: unat_of_nat)
  then show ?case using Suc mod_mult2_eq [of x 256 "256 ^ n"] by simp
qed

lemma un_le16_le16 [simp]: "un_le16 (le16 v @ bs) = v"
  using unat_lt_exp [of v]
  by (simp add: un_le16_def le16_def un_le_le_n)

lemma un_le32_le32 [simp]: "un_le32 (le32 v @ bs) = v"
  using unat_lt_exp [of v]
  by (simp add: un_le32_def le32_def un_le_le_n)

lemma un_le64_le64 [simp]: "un_le64 (le64 v @ bs) = v"
  using unat_lt_exp [of v]
  by (simp add: un_le64_def le64_def un_le_le_n)

section \<open>Bits of LEB128 groups\<close>

lemma bit_7f: "bit (127 :: 'a::len word) n \<longleftrightarrow> n < 7 \<and> n < LENGTH('a)"
proof -
  have "(127 :: 'a word) = mask 7" by (simp add: mask_eq_exp_minus_1)
  then show ?thesis by (metis bit_mask_iff possible_bit_word)
qed

lemma bit_80: "bit (128 :: 'a::len word) n \<longleftrightarrow> n = 7 \<and> n < LENGTH('a)"
proof -
  have "(128 :: 'a word) = 2 ^ 7" by simp
  then show ?thesis by (metis bit_exp_iff possible_bit_word)
qed

lemma bit_40: "bit (64 :: 'a::len word) n \<longleftrightarrow> n = 6 \<and> n < LENGTH('a)"
proof -
  have "(64 :: 'a word) = 2 ^ 6" by simp
  then show ?thesis by (metis bit_exp_iff possible_bit_word)
qed

lemma byte_less_80: "(b :: 8 word) < 0x80 \<longleftrightarrow> \<not> bit b 7"
proof -
  have lt: "unat b < 256" using unsigned_less [of b] by simp
  have "bit b 7 \<longleftrightarrow> bit (unat b) 7" by (simp add: bit_unsigned_iff)
  also have "\<dots> \<longleftrightarrow> odd (unat b div 128)" by (simp add: bit_iff_odd)
  also have "\<dots> \<longleftrightarrow> \<not> unat b < 128" 
    using lt by (cases "unat b < 128") (auto simp: le_div_geq)
  finally show ?thesis by (simp add: word_less_nat_alt)
qed

lemmas word_bits = bit_7f bit_80 bit_40 bit_and_iff bit_or_iff bit_unsigned_iff bit_push_bit_iff bit_drop_bit_eq

lemma push_bit_split7: "push_bit s (v AND 127) OR push_bit (s + 7) (drop_bit 7 v) = push_bit s (v :: 64 word)"
proof (rule bit_word_eqI)
  fix n assume "n < LENGTH(64)"
  show "bit (push_bit s (v AND 127) OR push_bit (s + 7) (drop_bit 7 v)) n = bit (push_bit s v) n"
    by (cases "n < s + 7") (auto simp: word_bits simp del: bit_numeral_word_iff)
qed

lemma push_bit_64: "64 \<le> s \<Longrightarrow> push_bit s (x :: u64) = 0"
  by (rule bit_word_eqI) (simp add: bit_push_bit_iff)

lemma low7_of_cont: "ucast ((ucast v OR 0x80 :: 8 word) AND 0x7f) = (v :: 64 word) AND 127"
  by (rule bit_word_eqI) (auto simp: word_bits simp del: bit_numeral_word_iff)

lemma cont_not_less_80: "\<not> (ucast (v :: 64 word) OR 0x80 :: 8 word) < 0x80"
  by (simp add: byte_less_80 word_bits del: bit_numeral_word_iff)

lemma ucast_small: "(v :: u64) < 0x80 \<Longrightarrow> ucast (ucast v :: byte) = v \<and> (ucast v :: byte) < 0x80"
  by (simp add: word_less_nat_alt word_unat_eq_iff unsigned_ucast_eq take_bit_eq_mod unat_mod)

end
