(* ===== verification/Gocobj_Format.thy ===== *)
theory Gocobj_Format
  imports Goc_Prelude
begin

text \<open>
  The data of a \<open>.gocobj\<close> file: constants and structs of \<open>internal/gocobj/format.go\<close>, the
  ABI profiles of \<open>internal/gocobj/abi.go\<close>, the errors the reader can return, and the view of
  an ELF object that the sources take from Go's \<open>debug/elf\<close> (sections, symbols, machine).
  Struct fields keep the Go names behind a short prefix that names the struct.
\<close>

section \<open>Constants\<close>

definition Magic :: "byte list" where
  "Magic = bytes_of ''GOCOBJ'' @ [0, 0]"

abbreviation (input) Major :: u16 where "Major \<equiv> 1"
abbreviation (input) Minor :: u16 where "Minor \<equiv> 4"
abbreviation (input) HeaderSize :: nat where "HeaderSize \<equiv> 28"

abbreviation SecHeader :: string where "SecHeader \<equiv> ''.goc.header''"
abbreviation SecStrtab :: string where "SecStrtab \<equiv> ''.goc.strtab''"
abbreviation SecFiles :: string where "SecFiles \<equiv> ''.goc.files''"
abbreviation SecFuncs :: string where "SecFuncs \<equiv> ''.goc.funcs''"
abbreviation SecRelocs :: string where "SecRelocs \<equiv> ''.goc.relocs''"
abbreviation SecStackmaps :: string where "SecStackmaps \<equiv> ''.goc.stackmaps''"
abbreviation SecWrappers :: string where "SecWrappers \<equiv> ''.goc.wrappers''"
abbreviation SecPCValue :: string where "SecPCValue \<equiv> ''.goc.pcvalue''"
abbreviation SecGCMaps :: string where "SecGCMaps \<equiv> ''.goc.gcmaps''"
abbreviation SecData :: string where "SecData \<equiv> ''.goc.data''"
abbreviation SecInlTree :: string where "SecInlTree \<equiv> ''.goc.inltree''"

abbreviation (input) ArchAMD64 :: u8 where "ArchAMD64 \<equiv> 1"
abbreviation (input) ArchARM64 :: u8 where "ArchARM64 \<equiv> 2"
abbreviation (input) HeaderStackChecksInCode :: u8 where "HeaderStackChecksInCode \<equiv> 1"
abbreviation (input) ABI0 :: u8 where "ABI0 \<equiv> 0"
abbreviation (input) ABIInternal :: u8 where "ABIInternal \<equiv> 1"

abbreviation (input) FuncNeedsStackCheck :: u64 where "FuncNeedsStackCheck \<equiv> 1"
abbreviation (input) FuncNosplit :: u64 where "FuncNosplit \<equiv> 4"
abbreviation (input) FuncInternal :: u64 where "FuncInternal \<equiv> 32"

abbreviation (input) RCall :: u8 where "RCall \<equiv> 1"
abbreviation (input) RCallIndirectMark :: u8 where "RCallIndirectMark \<equiv> 2"
abbreviation (input) rLast :: u8 where "rLast \<equiv> 12"
abbreviation (input) RelocSafepoint :: u8 where "RelocSafepoint \<equiv> 1"

abbreviation (input) PCSPDelta :: u8 where "PCSPDelta \<equiv> 1"
abbreviation (input) PCFile :: u8 where "PCFile \<equiv> 2"
abbreviation (input) PCLine :: u8 where "PCLine \<equiv> 3"
abbreviation (input) PCUnsafePoint :: u8 where "PCUnsafePoint \<equiv> 4"
abbreviation (input) PCInlIndex :: u8 where "PCInlIndex \<equiv> 5"
abbreviation (input) PCStackMapIndex :: u8 where "PCStackMapIndex \<equiv> 6"
abbreviation (input) pcLast :: u8 where "pcLast \<equiv> 7"

definition relocNames :: "string list" where
  "relocNames = ['''', ''CALL'', ''CALL_INDIRECT_MARK'', ''PCREL'', ''ADDR_ABS'', ''FUNC_ADDR'',
     ''DATA_ADDR'', ''TLS_G'', ''GOT_PCREL'', ''JMP_TAILCALL'', ''ARM64_ADRP_ADD'', ''ARM64_CALL26'']"

definition reloc_kind_String :: "u8 \<Rightarrow> string" where
  "reloc_kind_String k = (if k > 0 \<and> k < rLast then relocNames ! unat k else ''?'')"

definition pcNames :: "string list" where
  "pcNames = ['''', ''SP_DELTA'', ''FILE'', ''LINE'', ''UNSAFE_POINT'', ''INL_INDEX'', ''STACKMAP_INDEX'']"

definition pc_kind_String :: "u8 \<Rightarrow> string" where
  "pc_kind_String k = (if k > 0 \<and> k < pcLast then pcNames ! unat k else ''?'')"

text \<open>The kinds whose rows come from debug locations.\<close>

definition lineKind :: "u8 \<Rightarrow> bool" where
  "lineKind k \<longleftrightarrow> k = PCFile \<or> k = PCLine \<or> k = PCInlIndex"

section \<open>Structs\<close>

record header =
  h_Major :: u16
  h_Minor :: u16
  h_Arch :: u8
  h_Flags :: u8
  h_Profile :: string
  h_Producer :: string

record pcentry =
  pc_PC :: u64
  pc_Value :: i64

record pctable =
  pt_Kind :: u8
  pt_Entries :: "pcentry list"

record inlnode =
  in_Parent :: i64
  in_File :: u64
  in_Line :: u64
  in_Func :: string
  in_ParentPC :: u64
  in_StartLine :: u64

record safepoint =
  sp_PC :: u64
  sp_Args :: "byte list"
  sp_Locals :: "byte list"
  sp_Color :: "byte list"

record gcmap =
  gc_NArgs :: u64
  gc_NLocals :: u64
  gc_Safepoints :: "safepoint list"

text \<open>The slices \<open>PCValue\<close> and \<open>Inl\<close> and the pointer \<open>GC\<close> may be nil, which is \<^term>\<open>None\<close>.\<close>

record func =
  fn_Name :: string
  fn_TextSize :: u64
  fn_FrameSize :: u64
  fn_ArgSize :: u64
  fn_ABI :: u8
  fn_Kind :: u8
  fn_Flags :: u64
  fn_FuncID :: u8
  fn_File :: u64
  fn_StartLine :: u64
  fn_SysvPtrRegs :: u64
  fn_SptrSlots :: "u64 list"
  fn_PCValue :: "pctable list option"
  fn_Inl :: "inlnode list option"
  fn_GC :: "gcmap option"
  fn_pcvOff :: u64
  fn_gcOff :: u64
  fn_inlOff :: u64

record stackmaploc =
  sl_Type :: u8
  sl_Size :: u64
  sl_Reg :: u64
  sl_Off :: i64

record stackmap =
  sm_Func :: string
  sm_InsnOff :: u64
  sm_ID :: u64
  sm_Locs :: "stackmaploc list"

record argspill =
  as_Reg :: string
  as_Off :: u64
  as_Size :: u64
  as_Ptr :: bool

record wrapper =
  wr_Sym :: string
  wr_Target :: string
  wr_FromABI :: u8
  wr_ToABI :: u8
  wr_ArgSpills :: "argspill list"
  wr_StackPtrArgs :: "u64 list"

record reloc =
  rl_Func :: string
  rl_Offset :: u64
  rl_Width :: u8
  rl_Kind :: u8
  rl_Target :: string
  rl_Addend :: i64
  rl_Flags :: u8

record gdata =
  da_Name :: string
  da_Size :: u64
  da_Log2Align :: u8
  da_Flags :: u64
  da_NBits :: u64
  da_Bitmap :: "byte list"

record gsymbol =
  gs_Func :: bool
  gs_Defined :: bool
  gs_Size :: u64
  gs_Section :: string
  gs_Value :: u64
  gs_Count :: nat

record gfile =
  gf_Header :: header
  gf_Files :: "string list"
  gf_Funcs :: "func list"
  gf_Relocs :: "reloc list"
  gf_Stackmaps :: "stackmap list"
  gf_Wrappers :: "wrapper list"
  gf_Data :: "gdata list"
  gf_Symbols :: "string \<rightharpoonup> gsymbol"
  gf_Text :: "string \<rightharpoonup> byte list"
  gf_ELFRelocs :: "string \<rightharpoonup> string"
  gf_pcvStarts :: "u64 \<Rightarrow> bool"
  gf_gcStarts :: "u64 \<Rightarrow> bool"

section \<open>ABI profiles (abi.go)\<close>

record profile =
  pr_Name :: string
  pr_Arch :: string
  pr_PtrSize :: nat
  pr_GReg :: string
  pr_StackGuard0Off :: nat
  pr_StackSmall :: nat
  pr_StackBig :: nat
  pr_Morestack :: string
  pr_IntRegs :: "string list"
  pr_FPRegs :: "string list"

definition numbered :: "string \<Rightarrow> nat \<Rightarrow> string list" where
  "numbered p n = map (\<lambda>i. p @ dec_nat i) [0..<n]"

definition amd64_profile :: "string \<Rightarrow> profile" where
  "amd64_profile nm = \<lparr>pr_Name = nm, pr_Arch = ''amd64'', pr_PtrSize = 8, pr_GReg = ''R14'',
     pr_StackGuard0Off = 16, pr_StackSmall = 128, pr_StackBig = 4096,
     pr_Morestack = ''runtime.morestack_noctxt'',
     pr_IntRegs = [''RAX'', ''RBX'', ''RCX'', ''RDI'', ''RSI'', ''R8'', ''R9'', ''R10'', ''R11''],
     pr_FPRegs = numbered ''X'' 15\<rparr>"

definition arm64_profile :: "string \<Rightarrow> profile" where
  "arm64_profile nm = \<lparr>pr_Name = nm, pr_Arch = ''arm64'', pr_PtrSize = 8, pr_GReg = ''R28'',
     pr_StackGuard0Off = 16, pr_StackSmall = 128, pr_StackBig = 4096,
     pr_Morestack = ''runtime.morestack_noctxt'',
     pr_IntRegs = numbered ''R'' 16, pr_FPRegs = numbered ''F'' 16\<rparr>"

definition profiles :: "profile list" where
  "profiles = [amd64_profile ''goabi1-amd64'', arm64_profile ''goabi1-arm64'',
     amd64_profile ''go1.24-amd64'', arm64_profile ''go1.24-arm64'']"

definition LookupProfile :: "string \<Rightarrow> profile option" where
  "LookupProfile nm = find (\<lambda>p. pr_Name p = nm) profiles"

text \<open>\<open>strings.Join(xs, ",")\<close>; \<open>SameFacts\<close> compares register lists through it.\<close>

fun join :: "string \<Rightarrow> string list \<Rightarrow> string" where
  "join sep [] = []"
| "join sep [x] = x"
| "join sep (x # y # ys) = x @ sep @ join sep (y # ys)"

definition SameFacts :: "profile \<Rightarrow> profile \<Rightarrow> bool" where
  "SameFacts a b \<longleftrightarrow> pr_Arch a = pr_Arch b \<and> pr_PtrSize a = pr_PtrSize b \<and> pr_GReg a = pr_GReg b \<and>
     pr_StackGuard0Off a = pr_StackGuard0Off b \<and> pr_StackSmall a = pr_StackSmall b \<and>
     pr_StackBig a = pr_StackBig b \<and> pr_Morestack a = pr_Morestack b \<and>
     join '','' (pr_IntRegs a) = join '','' (pr_IntRegs b) \<and>
     join '','' (pr_FPRegs a) = join '','' (pr_FPRegs b)"

section \<open>Reader errors\<close>

datatype gerr =
    ErrShort
  | SlebOverflow
  | BadLength string u64
  | RecErr string u64 gerr
  | NotGocobj
  | BadMagic
  | BadMajor u16
  | StrrefRange u64
  | StrrefUnterminated u64
  | StrtabErr gerr
  | SectionErr string
  | SymbolsErr
  | SlicePanic

section \<open>The ELF object as debug/elf presents it\<close>

text \<open>A section's \<open>Data()\<close> may fail (\<^term>\<open>None\<close>); \<open>Symbols()\<close> may report that there is no
  symbol table, which the reader tolerates, or another error.\<close>

record elf_section =
  es_Name :: string
  es_Type :: u32
  es_Flags :: u64
  es_Size :: u64
  es_Data :: "byte list option"

record elf_symbol =
  sy_Name :: string
  sy_Info :: u8
  sy_Section :: nat
  sy_Value :: u64
  sy_Size :: u64

datatype elf_symtab = Syms "elf_symbol list" | ErrNoSymbols | SymtabErr

record elf_file =
  ef_Machine :: u16
  ef_Sections :: "elf_section list"
  ef_Symtab :: elf_symtab

definition elf_Section :: "elf_file \<Rightarrow> string \<Rightarrow> elf_section option" where
  "elf_Section ef nm = find (\<lambda>s. es_Name s = nm) (ef_Sections ef)"

definition ST_TYPE :: "u8 \<Rightarrow> u8" where
  "ST_TYPE info = info AND 0xF"

definition ST_BIND :: "u8 \<Rightarrow> u8" where
  "ST_BIND info = drop_bit 4 info"

abbreviation (input) STT_NOTYPE :: u8 where "STT_NOTYPE \<equiv> 0"
abbreviation (input) STT_OBJECT :: u8 where "STT_OBJECT \<equiv> 1"
abbreviation (input) STT_FUNC :: u8 where "STT_FUNC \<equiv> 2"
abbreviation (input) STT_SECTION :: u8 where "STT_SECTION \<equiv> 3"
abbreviation (input) STT_FILE :: u8 where "STT_FILE \<equiv> 4"
abbreviation (input) STB_GLOBAL :: u8 where "STB_GLOBAL \<equiv> 1"
abbreviation (input) STB_WEAK :: u8 where "STB_WEAK \<equiv> 2"
abbreviation (input) SHN_UNDEF :: nat where "SHN_UNDEF \<equiv> 0"
abbreviation (input) SHN_LORESERVE :: nat where "SHN_LORESERVE \<equiv> 0xff00"
abbreviation (input) SHT_PROGBITS :: u32 where "SHT_PROGBITS \<equiv> 1"
abbreviation (input) SHT_NOBITS :: u32 where "SHT_NOBITS \<equiv> 8"
abbreviation (input) SHF_WRITE :: u64 where "SHF_WRITE \<equiv> 1"
abbreviation (input) SHF_ALLOC :: u64 where "SHF_ALLOC \<equiv> 2"
abbreviation (input) SHF_EXECINSTR :: u64 where "SHF_EXECINSTR \<equiv> 4"
abbreviation (input) EM_X86_64 :: u16 where "EM_X86_64 \<equiv> 62"
abbreviation (input) EM_AARCH64 :: u16 where "EM_AARCH64 \<equiv> 183"

end
