(* ===== verification/Gocobj_Codec.thy ===== *)
theory Gocobj_Codec
  imports Gocobj_Format "HOL-Library.Monad_Syntax"
begin

text \<open>
  Record encoding of \<open>internal/gocobj/codec.go\<close>: the reader \<open>buf\<close> with its sticky error, LEB128
  integers, the record splitter \<open>records\<close>, and the encoder \<open>enc\<close>. A reader method is a state
  monad over \<open>buf\<close>. The law that ties the two sides is \<open>reads p bs v\<close>: run on \<open>bs\<close>
  followed by anything, \<open>p\<close> returns \<open>v\<close> and leaves exactly the rest; the interface locale
  \<open>codec\<close> states it for an encoder and a decoder, and lists of encoded elements inherit it.
\<close>

section \<open>The reader\<close>

record buf =
  b_b :: "byte list"
  b_err :: "gerr option"

definition fail :: "gerr \<Rightarrow> 'z buf_scheme \<Rightarrow> 'z buf_scheme" where
  "fail e r = (case b_err r of None \<Rightarrow> r\<lparr>b_err := Some e\<rparr> | Some _ \<Rightarrow> r)"

definition r_u8 :: "('z buf_scheme, u8) state" where
  "r_u8 = State (\<lambda>r. case b_b r of [] \<Rightarrow> (0, fail ErrShort r) | c # cs \<Rightarrow> (c, r\<lparr>b_b := cs\<rparr>))"

text \<open>\<open>binary.Uvarint\<close>: the value and the number of bytes read, which is 0 when the buffer ends
  too early and negative on overflow.\<close>

fun uvarint_loop :: "nat \<Rightarrow> u64 \<Rightarrow> nat \<Rightarrow> byte list \<Rightarrow> u64 \<times> int" where
  "uvarint_loop i x s [] = (0, 0)"
| "uvarint_loop i x s (b # bs) =
     (if i = 10 then (0, - (int i + 1))
      else if b < 0x80 then
        (if i = 9 \<and> b > 1 then (0, - (int i + 1)) else (x OR push_bit s (ucast b), int i + 1))
      else uvarint_loop (i + 1) (x OR push_bit s (ucast (b AND 0x7f))) (s + 7) bs)"

definition Uvarint :: "byte list \<Rightarrow> u64 \<times> int" where
  "Uvarint bs = uvarint_loop 0 0 0 bs"

definition r_uleb :: "('z buf_scheme, u64) state" where
  "r_uleb = State (\<lambda>r. let (v, n) = Uvarint (b_b r) in
     if n \<le> 0 then (0, (fail ErrShort r)\<lparr>b_b := []\<rparr>) else (v, r\<lparr>b_b := drop (nat n) (b_b r)\<rparr>))"

text \<open>The loop of \<open>sleb\<close>: value, error and remaining bytes.\<close>

fun sleb_loop :: "i64 \<Rightarrow> nat \<Rightarrow> byte list \<Rightarrow> i64 \<times> gerr option \<times> byte list" where
  "sleb_loop v s [] = (0, Some ErrShort, [])"
| "sleb_loop v s (c # cs) =
     (let v1 = v OR push_bit s (ucast (c AND 0x7f)); s1 = s + 7 in
      if c AND 0x80 = 0 then
        (if s1 < 64 \<and> c AND 0x40 \<noteq> 0 then v1 OR push_bit s1 (- 1) else v1, None, cs)
      else if s1 \<ge> 64 then (0, Some SlebOverflow, cs)
      else sleb_loop v1 s1 cs)"

definition r_sleb :: "('z buf_scheme, i64) state" where
  "r_sleb = State (\<lambda>r. case sleb_loop 0 0 (b_b r) of
       (v, None, rest) \<Rightarrow> (v, r\<lparr>b_b := rest\<rparr>)
     | (v, Some e, rest) \<Rightarrow> (v, (fail e r)\<lparr>b_b := rest\<rparr>))"

text \<open>A Go slice is shorter than \<open>2^63\<close>, so \<open>uint64(len(r.b))\<close> is the length itself.\<close>

definition r_bytes :: "u64 \<Rightarrow> ('z buf_scheme, byte list) state" where
  "r_bytes n = State (\<lambda>r. if length (b_b r) < unat n then ([], (fail ErrShort r)\<lparr>b_b := []\<rparr>)
     else (take (unat n) (b_b r), r\<lparr>b_b := drop (unat n) (b_b r)\<rparr>))"

text \<open>\<open>for i < n && r.err == nil\<close>: at most \<open>n\<close> elements, none after an error.\<close>

fun r_loop :: "nat \<Rightarrow> ('z buf_scheme, 'a) state \<Rightarrow> 'a list \<Rightarrow> ('z buf_scheme, 'a list) state" where
  "r_loop 0 p acc = State_Monad.return acc"
| "r_loop (Suc n) p acc = State (\<lambda>r. case b_err r of
       Some e \<Rightarrow> (acc, r)
     | None \<Rightarrow> run_state (do { x \<leftarrow> p; r_loop n p (acc @ [x]) }) r)"

section \<open>The record splitter\<close>

text \<open>Reader state inside a record: the record's bytes and error, and the reader's string error,
  which outlives the record.\<close>

record rstate = buf +
  s_strErr :: "gerr option"

text \<open>\<open>records\<close> calls \<open>f\<close> on every length-prefixed record with its start offset. The callback
  updates what it collects (\<open>'a\<close>) or reports an error.\<close>

definition rec_split :: "byte list \<Rightarrow> (u64 \<times> byte list) option" where
  "rec_split b = (let (n, r) = run_state r_uleb \<lparr>b_b = b, b_err = None\<rparr> in
     if b_err r \<noteq> None \<or> length (b_b r) < unat n then None else Some (n, b_b r))"

lemma uvarint_consumed: "snd (uvarint_loop i x s bs) \<le> int i + int (length bs)"
  by (induction i x s bs rule: uvarint_loop.induct) auto

lemma uvarint_pos: "snd (uvarint_loop i x s bs) > 0 \<Longrightarrow> snd (uvarint_loop i x s bs) > int i"
proof (induction i x s bs rule: uvarint_loop.induct)
  case (1 i x s)
  then show ?case by simp
next
  case (2 i x s b bs)
  show ?case
  proof (cases "i = 10 \<or> b < 0x80")
    case True
    with 2 show ?thesis by (auto split: if_splits)
  next
    case False
    with 2 show ?thesis by simp
  qed
qed

lemma rec_split_shorter:
  assumes "rec_split b = Some (n, rest)"
  shows "length rest < length b"
proof -
  obtain v k where vk: "Uvarint b = (v, k)" by (cases "Uvarint b")
  with assms have "k > 0" and rest: "rest = drop (nat k) b"
    by (auto simp: rec_split_def r_uleb_def fail_def Let_def split: if_splits)
  moreover have "k \<le> int (length b)"
    using uvarint_consumed [of 0 0 0 b] vk by (simp add: Uvarint_def)
  ultimately show ?thesis by simp
qed

function records :: "string \<Rightarrow> (u64 \<Rightarrow> 'a \<Rightarrow> (rstate, gerr + 'a) state) \<Rightarrow> byte list \<Rightarrow> u64 \<Rightarrow> 'a \<Rightarrow>
    gerr option \<Rightarrow> (gerr + 'a) \<times> gerr option" where
  "records sec f b off acc se =
    (if b = [] then (Inr acc, se) else
     case rec_split b of
       None \<Rightarrow> (Inl (BadLength sec off), se)
     | Some (n, rest) \<Rightarrow>
        (let hdr = word_of_nat (length b - length rest) in
         case run_state (f off acc) \<lparr>b_b = take (unat n) rest, b_err = None, s_strErr = se\<rparr> of
           (Inl e, r) \<Rightarrow> (Inl (RecErr sec off e), s_strErr r)
         | (Inr acc', r) \<Rightarrow>
            (case b_err r of
               Some e \<Rightarrow> (Inl (RecErr sec off e), s_strErr r)
             | None \<Rightarrow> records sec f (drop (unat n) rest) (off + (hdr + n)) acc' (s_strErr r))))"
  by pat_completeness auto
termination
proof (relation "measure (\<lambda>(sec, f, b, off, acc, se). length b)", goal_cases)
  case 1
  show ?case by simp
next
  case (2 sec f b off acc se p n rest)
  then have "length rest < length b" by (auto dest: rec_split_shorter)
  then show ?case by simp
qed

declare records.simps [simp del]

section \<open>The encoder\<close>

text \<open>\<open>binary.AppendUvarint\<close> and \<open>enc.sleb\<close>.\<close>

lemma unat_drop_bit7: "unat (drop_bit 7 v :: u64) = unat v div 128"
  unfolding unat_drop_bit_eq by (simp add: drop_bit_eq_div)

function enc_uleb :: "u64 \<Rightarrow> byte list" where
  "enc_uleb v = (if v \<ge> 0x80 then (ucast v OR 0x80) # enc_uleb (drop_bit 7 v) else [ucast v])"
  by pat_completeness auto
termination
  by (relation "measure unat") (auto simp: unat_drop_bit7 word_le_nat_alt)

declare enc_uleb.simps [simp del]

text \<open>The test that ends \<open>enc.sleb\<close>'s loop holds exactly for the values of one group.\<close>

abbreviation sleb_last :: "i64 \<Rightarrow> bool" where
  "sleb_last v \<equiv> (signed_drop_bit 7 v = 0 \<and> ucast (v AND 0x7f) AND (0x40 :: byte) = 0) \<or>
     (signed_drop_bit 7 v = - 1 \<and> ucast (v AND 0x7f) AND (0x40 :: byte) \<noteq> 0)"

lemma and_40: "ucast ((v :: i64) AND 0x7f) AND (0x40 :: byte) = 0 \<longleftrightarrow> \<not> bit v 6"
proof -
  have "(ucast (v AND 0x7f) AND (0x40 :: byte)) = (if bit v 6 then 0x40 else 0)"
    by (rule bit_word_eqI) (auto simp: word_bits simp del: bit_numeral_word_iff)
  then show ?thesis by auto
qed

lemma bit6_sint: "bit (v :: i64) 6 \<longleftrightarrow> odd (sint v div 64)"
proof -
  have "bit v 6 \<longleftrightarrow> bit (sint v) 6" by (simp add: bit_sint_iff)
  then show ?thesis by (simp add: bit_iff_odd)
qed

lemma sint_asr7: "sint (signed_drop_bit 7 (v :: i64)) = sint v div 128"
  by (simp add: sint_signed_drop_bit_eq drop_bit_eq_div)

lemma asr7_0: "signed_drop_bit 7 (v :: i64) = 0 \<longleftrightarrow> sint v div 128 = 0"
  by (metis sint_asr7 signed_0 signed_word_eqI)

lemma asr7_m1: "signed_drop_bit 7 (v :: i64) = - 1 \<longleftrightarrow> sint v div 128 = - 1"
  by (metis sint_asr7 sint_n1 signed_word_eqI)

lemma one_group_int: "(s :: int) div 128 = 0 \<and> even (s div 64) \<or> s div 128 = - 1 \<and> odd (s div 64) \<longleftrightarrow>
  - 64 \<le> s \<and> s < 64"
proof -
  have "s div 128 = (s div 64) div 2" by (simp add: zdiv_zmult2_eq [symmetric])
  moreover have "q div 2 = 0 \<and> even q \<or> q div 2 = - 1 \<and> odd q \<longleftrightarrow> q = 0 \<or> q = - 1" for q :: int
    by presburger
  moreover have "s div 64 = 0 \<or> s div 64 = - 1 \<longleftrightarrow> - 64 \<le> s \<and> s < 64" by linarith
  ultimately show ?thesis by simp
qed

lemma sleb_last_iff: "sleb_last v \<longleftrightarrow> - 64 \<le> sint v \<and> sint v < 64"
  unfolding and_40 bit6_sint asr7_0 asr7_m1 not_not by (rule one_group_int)

lemma sleb_shrinks: "\<not> sleb_last v \<Longrightarrow> nat \<bar>sint (signed_drop_bit 7 v)\<bar> < nat \<bar>sint (v :: i64)\<bar>"
  unfolding sleb_last_iff sint_asr7 by linarith

function enc_sleb :: "i64 \<Rightarrow> byte list" where
  "enc_sleb v = (let c = ucast (v AND 0x7f); v1 = signed_drop_bit 7 v in
     if (v1 = 0 \<and> c AND 0x40 = 0) \<or> (v1 = - 1 \<and> c AND 0x40 \<noteq> 0) then [c]
     else (c OR 0x80) # enc_sleb v1)"
  by pat_completeness auto
termination
proof (relation "measure (\<lambda>v. nat \<bar>sint v\<bar>)", goal_cases)
  case 1
  show ?case by simp
next
  case (2 v c v1)
  then show ?case using sleb_shrinks [of v] by simp
qed

declare enc_sleb.simps [simp del]

text \<open>\<open>enc.record\<close>: the offset of the record and the extended section.\<close>

definition enc_record :: "byte list \<Rightarrow> byte list \<Rightarrow> u64 \<times> byte list" where
  "enc_record sec body =
     (word_of_nat (length sec), sec @ enc_uleb (word_of_nat (length body)) @ body)"

section \<open>The law between the two sides\<close>

definition reads :: "('z buf_scheme, 'a) state \<Rightarrow> byte list \<Rightarrow> 'a \<Rightarrow> bool" where
  "reads p bs v \<longleftrightarrow> (\<forall>r rest. b_b r = bs @ rest \<longrightarrow> b_err r = None \<longrightarrow>
     run_state p r = (v, r\<lparr>b_b := rest\<rparr>))"

lemma readsI: "(\<And>r rest. b_b r = bs @ rest \<Longrightarrow> b_err r = None \<Longrightarrow> run_state p r = (v, r\<lparr>b_b := rest\<rparr>)) \<Longrightarrow> reads p bs v"
  by (simp add: reads_def)

lemma readsD: "reads p bs v \<Longrightarrow> b_b r = bs @ rest \<Longrightarrow> b_err r = None \<Longrightarrow> run_state p r = (v, r\<lparr>b_b := rest\<rparr>)"
  by (simp add: reads_def)

lemma reads_return [codec_simps]: "reads (State_Monad.return v) [] v"
  by (simp add: reads_def)

lemma reads_bind:
  assumes "reads p bs v" and "reads (f v) cs w"
  shows "reads (p \<bind> f) (bs @ cs) w"
proof (rule readsI)
  fix r :: "'a buf_scheme" and rest
  assume r: "b_b r = (bs @ cs) @ rest" "b_err r = None"
  then have "run_state p r = (v, r\<lparr>b_b := cs @ rest\<rparr>)"
    using assms(1) by (intro readsD) auto
  moreover have "run_state (f v) (r\<lparr>b_b := cs @ rest\<rparr>) = (w, r\<lparr>b_b := rest\<rparr>)"
    using readsD [OF assms(2), of "r\<lparr>b_b := cs @ rest\<rparr>" rest] r by simp
  ultimately show "run_state (p \<bind> f) r = (w, r\<lparr>b_b := rest\<rparr>)" by simp
qed

lemma reads_u8 [codec_simps]: "reads r_u8 [c] c"
  by (simp add: reads_def r_u8_def)

lemma reads_bytes: "unat n = length bs \<Longrightarrow> reads (r_bytes n) bs bs"
  by (simp add: reads_def r_bytes_def)

lemma enc_uleb_uvarint:
  assumes "i \<le> 9" and "unat v < 2 ^ (64 - 7 * i)"
  shows "uvarint_loop i x (7 * i) (enc_uleb v @ rest) =
    (x OR push_bit (7 * i) v, int (i + length (enc_uleb v)))"
  using assms
proof (induction v arbitrary: i x rule: enc_uleb.induct)
  case (1 v)
  show ?case
  proof (cases "v \<ge> 0x80")
    case True
    then have big: "128 \<le> unat v" by (simp add: word_le_nat_alt)
    with 1(3) have "(2 :: nat) ^ 7 < 2 ^ (64 - 7 * i)" by simp
    then have i: "i \<le> 8" using power_less_imp_less_exp [of "2 :: nat" 7 "64 - 7 * i"] by simp
    have "unat v < 128 * 2 ^ (64 - 7 * Suc i)"
      using 1(3) i power_add [of "2 :: nat" 7 "64 - 7 * Suc i"] by (simp add: algebra_simps)
    then have "unat (drop_bit 7 v) < 2 ^ (64 - 7 * Suc i)"
      by (simp add: unat_drop_bit7 less_mult_imp_div_less mult.commute)
    then have "uvarint_loop (Suc i) (x OR push_bit (7 * i) (v AND 127)) (7 * Suc i)
        (enc_uleb (drop_bit 7 v) @ rest) =
      ((x OR push_bit (7 * i) (v AND 127)) OR push_bit (7 * Suc i) (drop_bit 7 v),
        int (Suc i + length (enc_uleb (drop_bit 7 v))))"
      using 1(1) [of "Suc i" "x OR push_bit (7 * i) (v AND 127)"] True i by simp
    moreover have "(x OR push_bit (7 * i) (v AND 127)) OR push_bit (7 * Suc i) (drop_bit 7 v) =
        x OR push_bit (7 * i) v"
      using push_bit_split7 [of "7 * i" v] by (simp add: or.assoc add.commute)
    ultimately show ?thesis
      using True i by (simp add: enc_uleb.simps [of v] low7_of_cont cont_not_less_80 add.commute)
  next
    case False
    then have small: "v < 0x80" by simp
    have "\<not> (i = 9 \<and> (ucast v :: byte) > 1)"
      using 1(3) small by (auto simp: word_less_nat_alt unsigned_ucast_eq take_bit_eq_mod)
    with False 1(2) show ?thesis
      using ucast_small [OF small] by (auto simp: enc_uleb.simps [of v])
  qed
qed

lemma reads_uleb [codec_simps]: "reads r_uleb (enc_uleb v) v"
proof (rule readsI)
  fix r :: "'z buf_scheme" and rest
  assume r: "b_b r = enc_uleb v @ rest" "b_err r = None"
  have "unat v < 2 ^ 64" using unat_lt_exp [of v] by simp
  then have "Uvarint (b_b r) = (v, int (length (enc_uleb v)))"
    using enc_uleb_uvarint [of 0 v 0 rest] r by (simp add: Uvarint_def)
  moreover have "enc_uleb v \<noteq> []" by (subst enc_uleb.simps) simp
  ultimately show "run_state r_uleb r = (v, r\<lparr>b_b := rest\<rparr>)"
    using r by (simp add: r_uleb_def)
qed

lemma asr7_split: "push_bit s (v AND 127) OR push_bit (s + 7) (signed_drop_bit 7 v) = push_bit s (v :: i64)"
proof (rule bit_word_eqI)
  fix n assume n: "n < LENGTH(64)"
  show "bit (push_bit s (v AND 127) OR push_bit (s + 7) (signed_drop_bit 7 v)) n = bit (push_bit s v) n"
  proof (cases "n < s + 7")
    case True
    then show ?thesis by (auto simp: word_bits simp del: bit_numeral_word_iff)
  next
    case False
    then have "\<not> 57 \<le> n - (s + 7)" "7 + (n - (s + 7)) = n - s" using n by auto
    then have "bit (signed_drop_bit 7 v) (n - (s + 7)) = bit v (n - s)"
      by (simp add: bit_signed_drop_bit_iff)
    with False show ?thesis by (auto simp: word_bits simp del: bit_numeral_word_iff)
  qed
qed

lemma last_group:
  assumes "sleb_last v"
  shows "(if s + 7 < 64 \<and> bit v 6 then push_bit s (v AND 127) OR push_bit (s + 7) (- 1)
    else push_bit s (v AND 127)) = push_bit s (v :: i64)" (is "?l = _")
proof -
  from assms consider "signed_drop_bit 7 v = 0" "\<not> bit v 6" | "signed_drop_bit 7 v = - 1" "bit v 6"
    by (auto simp: and_40)
  then show ?thesis
  proof cases
    case 1
    then show ?thesis using asr7_split [of s v] by simp
  next
    case 2
    have "push_bit (s + 7) (- 1) = (0 :: i64)" if "\<not> s + 7 < 64"
      using that by (intro push_bit_64) simp
    with 2 show ?thesis using asr7_split [of s v] by (cases "s + 7 < 64") auto
  qed
qed

lemma group_bits:
  fixes v :: i64
  shows "ucast (v AND 0x7f) AND (0x80 :: byte) = 0"
    and "ucast ((ucast (v AND 0x7f) :: byte) AND 0x7f) = v AND 127"
    and "(ucast (v AND 0x7f) OR 0x80 :: byte) AND 0x80 \<noteq> 0"
    and "ucast ((ucast (v AND 0x7f) OR 0x80 :: byte) AND 0x7f) = v AND 127"
proof -
  show "ucast (v AND 0x7f) AND (0x80 :: byte) = 0"
    by (rule bit_word_eqI) (auto simp: word_bits simp del: bit_numeral_word_iff)
  show "ucast ((ucast (v AND 0x7f) :: byte) AND 0x7f) = v AND 127"
    by (rule bit_word_eqI) (auto simp: word_bits simp del: bit_numeral_word_iff)
  have "bit ((ucast (v AND 0x7f) OR 0x80 :: byte) AND 0x80) 7"
    by (simp add: word_bits del: bit_numeral_word_iff)
  then show "(ucast (v AND 0x7f) OR 0x80 :: byte) AND 0x80 \<noteq> 0" by auto
  show "ucast ((ucast (v AND 0x7f) OR 0x80 :: byte) AND 0x7f) = v AND 127"
    by (rule bit_word_eqI) (auto simp: word_bits simp del: bit_numeral_word_iff)
qed

lemma enc_sleb_loop:
  assumes "s \<le> 63" and "- (2 ^ (63 - s)) \<le> sint v" and "sint v < 2 ^ (63 - s)"
  shows "sleb_loop acc s (enc_sleb v @ rest) = (acc OR push_bit s v, None, rest)"
  using assms
proof (induction v arbitrary: s acc rule: enc_sleb.induct)
  case (1 v)
  show ?case
  proof (cases "sleb_last v")
    case True
    then show ?thesis
      using last_group [OF True, of s]
      by (auto simp: enc_sleb.simps [of v] group_bits and_40 Let_def or.assoc split: if_splits)
  next
    case False
    then have far: "sint v < - 64 \<or> 64 \<le> sint v" by (auto simp: sleb_last_iff)
    have s: "s + 7 \<le> 63"
    proof (rule ccontr)
      assume "\<not> s + 7 \<le> 63"
      then have "(2 :: int) ^ (63 - s) \<le> 2 ^ 6" by (intro power_increasing) auto
      with far 1(3,4) show False by simp
    qed
    then have "(2 :: int) ^ (63 - s) = 128 * 2 ^ (63 - (s + 7))"
      using power_add [of "2 :: int" 7 "63 - (s + 7)"] by simp
    then have "- (2 ^ (63 - (s + 7))) \<le> sint v div 128" "sint v div 128 < 2 ^ (63 - (s + 7))"
      using 1(3,4) by linarith+
    then have "sleb_loop (acc OR push_bit s (v AND 127)) (s + 7) (enc_sleb (signed_drop_bit 7 v) @ rest) =
        ((acc OR push_bit s (v AND 127)) OR push_bit (s + 7) (signed_drop_bit 7 v), None, rest)"
      using 1(1) [OF refl refl False s] by (simp add: sint_asr7)
    with False s show ?thesis
      using asr7_split [of s v]
      by (auto simp: enc_sleb.simps [of v] group_bits Let_def or.assoc)
  qed
qed

lemma reads_sleb [codec_simps]: "reads r_sleb (enc_sleb v) v"
proof (rule readsI)
  fix r :: "'z buf_scheme" and rest
  assume "b_b r = enc_sleb v @ rest" "b_err r = None"
  moreover have "- (2 ^ 63) \<le> sint v" "sint v < 2 ^ 63"
    using sint_ge [of v] sint_lt [of v] by simp_all
  ultimately show "run_state r_sleb r = (v, r\<lparr>b_b := rest\<rparr>)"
    using enc_sleb_loop [of 0 v 0 rest] by (simp add: r_sleb_def)
qed

section \<open>Codecs as an interface\<close>

text \<open>An encoder and a decoder of one kind of value; \<open>ok\<close> names the values the encoding can
  carry. Lists of encoded values, with or without their count, follow from the element law.\<close>

locale codec =
  fixes enc :: "'a \<Rightarrow> byte list" and dec :: "('z buf_scheme, 'a) state" and ok :: "'a \<Rightarrow> bool"
  assumes dec_enc: "ok x \<Longrightarrow> reads dec (enc x) x"
    and enc_nonempty: "enc x \<noteq> []"
begin

lemma loop_enc: "\<forall>x\<in>set xs. ok x \<Longrightarrow> reads (r_loop (length xs) dec acc) (concat (map enc xs)) (acc @ xs)"
proof (induction xs arbitrary: acc)
  case Nil
  then show ?case by (simp add: reads_return)
next
  case (Cons x xs)
  have "reads (dec \<bind> (\<lambda>x. r_loop (length xs) dec (acc @ [x]))) (enc x @ concat (map enc xs)) (acc @ x # xs)"
    using Cons.IH [of "acc @ [x]"] Cons.prems by (intro reads_bind [where v = x]) (simp_all add: dec_enc)
  then show ?case by (simp add: reads_def)
qed

lemma length_enc_list: "length xs \<le> length (concat (map enc xs))"
proof (induction xs)
  case (Cons x xs)
  have "1 \<le> length (enc x)" using enc_nonempty [of x] by (cases "enc x") auto
  with Cons show ?case by simp
qed simp

lemma counted_enc:
  assumes "\<forall>x\<in>set xs. ok x" and "length xs < 2 ^ 64"
  shows "reads (do { n \<leftarrow> r_uleb; r_loop (unat n) dec [] })
    (enc_uleb (word_of_nat (length xs)) @ concat (map enc xs)) xs"
  using assms loop_enc [of xs "[]"]
  by (intro reads_bind [where v = "word_of_nat (length xs)"] reads_uleb) (simp add: unat_of_nat)

end

lemma enc_uleb_nonempty [simp]: "enc_uleb v \<noteq> []"
  by (subst enc_uleb.simps) simp

lemma enc_sleb_nonempty [simp]: "enc_sleb v \<noteq> []"
  by (subst enc_sleb.simps) (simp add: Let_def)

interpretation uleb: codec enc_uleb r_uleb "\<lambda>_. True"
  by unfold_locales (simp_all add: reads_uleb)

text \<open>A whole section: \<open>body\<close> is the payload of one record and \<open>step\<close> the callback that reads
  it. The law says what one payload does to the collected value; the section law follows for any
  sequence of records, each callback called with the offset of its own record.\<close>

definition enc_rec :: "byte list \<Rightarrow> byte list" where
  "enc_rec body = enc_uleb (word_of_nat (length body)) @ body"

locale section_codec =
  fixes body :: "'x \<Rightarrow> byte list" and step :: "u64 \<Rightarrow> 'a \<Rightarrow> (rstate, gerr + 'a) state"
    and collect :: "u64 \<Rightarrow> 'a \<Rightarrow> 'x \<Rightarrow> 'a" and okx :: "'x \<Rightarrow> bool"
  assumes step_body: "okx x \<Longrightarrow> \<exists>rest. run_state (step off acc) \<lparr>b_b = body x, b_err = None, s_strErr = se\<rparr> =
      (Inr (collect off acc x), \<lparr>b_b = rest, b_err = None, s_strErr = se\<rparr>)"
    and body_fits: "okx x \<Longrightarrow> length (body x) < 2 ^ 64"
begin

primrec collect_all :: "u64 \<Rightarrow> 'a \<Rightarrow> 'x list \<Rightarrow> 'a" where
  "collect_all off acc [] = acc"
| "collect_all off acc (x # xs) =
     collect_all (off + word_of_nat (length (enc_rec (body x)))) (collect off acc x) xs"

lemma rec_split_enc: "okx x \<Longrightarrow> rec_split (enc_rec (body x) @ bs) =
    Some (word_of_nat (length (body x)), body x @ bs)"
  using readsD [OF reads_uleb, of "\<lparr>b_b = enc_rec (body x) @ bs, b_err = None\<rparr>"
      "word_of_nat (length (body x))" "body x @ bs"] body_fits [of x]
  by (simp add: rec_split_def enc_rec_def unat_of_nat)

lemma records_step:
  assumes x: "okx x"
  shows "records sec step (enc_rec (body x) @ bs) off acc se =
    records sec step bs (off + word_of_nat (length (enc_rec (body x)))) (collect off acc x) se"
proof -
  let ?n = "word_of_nat (length (body x)) :: u64"
  obtain rest where st: "run_state (step off acc) \<lparr>b_b = body x, b_err = None, s_strErr = se\<rparr> =
      (Inr (collect off acc x), \<lparr>b_b = rest, b_err = None, s_strErr = se\<rparr>)"
    using step_body [OF x] by blast
  have n: "unat ?n = length (body x)" using body_fits [OF x] by (simp add: unat_of_nat)
  have ne: "enc_rec (body x) \<noteq> []" by (simp add: enc_rec_def)
  have hdr: "word_of_nat (length (enc_rec (body x) @ bs) - length (body x @ bs)) + ?n =
      (word_of_nat (length (enc_rec (body x))) :: u64)"
    by (simp add: enc_rec_def)
  show ?thesis
    using st hdr by (subst records.simps) (simp add: ne rec_split_enc [OF x] n)
qed

lemma records_all:
  "\<forall>x\<in>set xs. okx x \<Longrightarrow> records sec step (concat (map (\<lambda>x. enc_rec (body x)) xs)) off acc se =
    (Inr (collect_all off acc xs), se)"
proof (induction xs arbitrary: off acc)
  case Nil
  then show ?case by (simp add: records.simps)
next
  case (Cons x xs)
  then show ?case using records_step [of x] by simp
qed

end

end
