(* ===== verification/Gocobj_Read.thy ===== *)
theory Gocobj_Read
  imports Gocobj_Codec
begin

text \<open>
  \<open>internal/gocobj/read.go\<close>: \<open>Parse\<close> over the ELF view of \<open>Gocobj_Format\<close>, one callback per
  \<open>.goc.*\<close> section, the symbol table walk and the index of ELF call relocations. A Go closure
  that collects into the result file is a step of type \<open>u64 \<Rightarrow> 'a \<Rightarrow> (rstate, gerr + 'a) state\<close>.
\<close>

section \<open>String references\<close>

definition str_ref :: "byte list \<Rightarrow> u64 \<Rightarrow> gerr option \<Rightarrow> string \<times> gerr option" where
  "str_ref strtab off se =
     (if unat off \<ge> length strtab then
        ('''', if off \<noteq> 0 \<and> se = None then Some (StrrefRange off) else se)
      else let rest = drop (unat off) strtab in
        if 0 \<notin> set rest then ('''', Some (StrrefUnterminated off))
        else (string_of (takeWhile (\<lambda>b. b \<noteq> 0) rest), se))"

definition r_str :: "byte list \<Rightarrow> (rstate, string) state" where
  "r_str strtab = do { off \<leftarrow> r_uleb;
     State (\<lambda>r. let (s, se) = str_ref strtab off (s_strErr r) in (s, r\<lparr>s_strErr := se\<rparr>)) }"

section \<open>One callback per section\<close>

text \<open>\<open>if n > uint64(len(r.b))\<close>\<close>

definition r_fits :: "u64 \<Rightarrow> ('z buf_scheme, bool) state" where
  "r_fits n = State (\<lambda>r. (unat n \<le> length (b_b r), r))"

definition r_more :: "('z buf_scheme, bool) state" where
  "r_more = State (\<lambda>r. (b_b r \<noteq> [], r))"

definition step_file :: "byte list \<Rightarrow> u64 \<Rightarrow> string list \<Rightarrow> (rstate, gerr + string list) state" where
  "step_file strtab off acc = do { s \<leftarrow> r_str strtab; State_Monad.return (Inr (acc @ [s])) }"

definition r_entry :: "('z buf_scheme, pcentry) state" where
  "r_entry = do { pc \<leftarrow> r_uleb; v \<leftarrow> r_sleb; State_Monad.return \<lparr>pc_PC = pc, pc_Value = v\<rparr> }"

text \<open>A FILE/LINE/INL_INDEX row on an instruction that emits no bytes shares its pc with the next
  row, which wins.\<close>

definition add_row :: "u8 \<Rightarrow> pcentry list \<Rightarrow> pcentry \<Rightarrow> pcentry list" where
  "add_row kind es e =
     (if es \<noteq> [] \<and> pc_PC (last es) = pc_PC e \<and> lineKind kind then butlast es @ [e] else es @ [e])"

fun r_tables :: "nat \<Rightarrow> pctable list \<Rightarrow> ('z buf_scheme, gerr + pctable list) state" where
  "r_tables 0 ts = State_Monad.return (Inr ts)"
| "r_tables (Suc n) ts = State (\<lambda>r. case b_err r of
       Some e \<Rightarrow> (Inr ts, r)
     | None \<Rightarrow> run_state (do { k \<leftarrow> r_u8; c \<leftarrow> r_uleb; ok \<leftarrow> r_fits c;
         if \<not> ok then State_Monad.return (Inl ErrShort)
         else do { es \<leftarrow> r_loop (unat c) r_entry [];
           r_tables n (ts @ [\<lparr>pt_Kind = k, pt_Entries = foldl (add_row k) [] es\<rparr>]) } }) r)"

type_synonym 'a at_offset = "(u64 \<Rightarrow> bool) \<times> (u64 \<rightharpoonup> 'a)"

definition step_pcv :: "u64 \<Rightarrow> pctable list at_offset \<Rightarrow> (rstate, gerr + pctable list at_offset) state" where
  "step_pcv off acc = do { n \<leftarrow> r_uleb; ts \<leftarrow> r_tables (unat n) [];
     State_Monad.return (map_sum id (\<lambda>ts. ((fst acc)(off := True), (snd acc)(off \<mapsto> ts))) ts) }"

definition r_safepoint :: "u64 \<Rightarrow> u64 \<Rightarrow> ('z buf_scheme, safepoint) state" where
  "r_safepoint nargs nlocals = do { pc \<leftarrow> r_uleb; a \<leftarrow> r_bytes ((nargs + 7) div 8);
     l \<leftarrow> r_bytes ((nlocals + 7) div 8); nc \<leftarrow> r_uleb; c \<leftarrow> r_bytes nc;
     State_Monad.return \<lparr>sp_PC = pc, sp_Args = a, sp_Locals = l, sp_Color = c\<rparr> }"

definition step_gc :: "u64 \<Rightarrow> gcmap at_offset \<Rightarrow> (rstate, gerr + gcmap at_offset) state" where
  "step_gc off acc = do { na \<leftarrow> r_uleb; nl \<leftarrow> r_uleb; n \<leftarrow> r_uleb; ok \<leftarrow> r_fits n;
     if \<not> ok then State_Monad.return (Inl ErrShort)
     else do { sps \<leftarrow> r_loop (unat n) (r_safepoint na nl) [];
       State_Monad.return (Inr ((fst acc)(off := True),
         (snd acc)(off \<mapsto> \<lparr>gc_NArgs = na, gc_NLocals = nl, gc_Safepoints = sps\<rparr>))) } }"

definition r_inlnode :: "byte list \<Rightarrow> (rstate, inlnode) state" where
  "r_inlnode strtab = do { p \<leftarrow> r_sleb; f \<leftarrow> r_uleb; l \<leftarrow> r_uleb; fn \<leftarrow> r_str strtab; pp \<leftarrow> r_uleb; sl \<leftarrow> r_uleb;
     State_Monad.return \<lparr>in_Parent = p, in_File = f, in_Line = l, in_Func = fn, in_ParentPC = pp, in_StartLine = sl\<rparr> }"

definition step_inl :: "byte list \<Rightarrow> u64 \<Rightarrow> (u64 \<rightharpoonup> inlnode list) \<Rightarrow> (rstate, gerr + (u64 \<rightharpoonup> inlnode list)) state" where
  "step_inl strtab off acc = do { n \<leftarrow> r_uleb; ok \<leftarrow> r_fits n;
     if \<not> ok then State_Monad.return (Inl ErrShort)
     else do { ns \<leftarrow> r_loop (unat n) (r_inlnode strtab) []; State_Monad.return (Inr (acc(off \<mapsto> ns))) } }"

text \<open>A nil slice in Go is an empty one that was never built: \<^term>\<open>None\<close>.\<close>

definition nil_slice :: "'a list option \<Rightarrow> 'a list option" where
  "nil_slice x = (case x of Some (y # ys) \<Rightarrow> Some (y # ys) | _ \<Rightarrow> None)"

definition deref :: "u64 \<Rightarrow> (u64 \<rightharpoonup> 'a) \<Rightarrow> 'a option" where
  "deref off m = (if off \<noteq> 0 then m (off - 1) else None)"

definition step_func :: "byte list \<Rightarrow> (u64 \<rightharpoonup> pctable list) \<Rightarrow> (u64 \<rightharpoonup> gcmap) \<Rightarrow> (u64 \<rightharpoonup> inlnode list) \<Rightarrow>
    u64 \<Rightarrow> func list \<Rightarrow> (rstate, gerr + func list) state" where
  "step_func strtab pcv gcs inls off acc = do {
     nm \<leftarrow> r_str strtab; ts \<leftarrow> r_uleb; fs \<leftarrow> r_uleb; ags \<leftarrow> r_uleb; abi \<leftarrow> r_u8; kind \<leftarrow> r_u8;
     flags \<leftarrow> r_uleb; fid \<leftarrow> r_u8; file \<leftarrow> r_uleb; line \<leftarrow> r_uleb;
     po \<leftarrow> r_uleb; go \<leftarrow> r_uleb; io \<leftarrow> r_uleb;
     m1 \<leftarrow> r_more; regs \<leftarrow> (if m1 then r_uleb else State_Monad.return 0);
     m2 \<leftarrow> r_more; slots \<leftarrow> (if m2 then do { n \<leftarrow> r_uleb; r_loop (unat n) r_uleb [] } else State_Monad.return []);
     State_Monad.return (Inr (acc @ [\<lparr>fn_Name = nm, fn_TextSize = ts, fn_FrameSize = fs, fn_ArgSize = ags,
       fn_ABI = abi, fn_Kind = kind, fn_Flags = flags, fn_FuncID = fid, fn_File = file, fn_StartLine = line,
       fn_SysvPtrRegs = regs, fn_SptrSlots = slots,
       fn_PCValue = nil_slice (deref po pcv), fn_Inl = nil_slice (deref io inls), fn_GC = deref go gcs,
       fn_pcvOff = po, fn_gcOff = go, fn_inlOff = io\<rparr>])) }"

definition r_loc :: "('z buf_scheme, stackmaploc) state" where
  "r_loc = do { t \<leftarrow> r_u8; sz \<leftarrow> r_uleb; rg \<leftarrow> r_uleb; o' \<leftarrow> r_sleb;
     State_Monad.return \<lparr>sl_Type = t, sl_Size = sz, sl_Reg = rg, sl_Off = o'\<rparr> }"

definition step_stackmap :: "byte list \<Rightarrow> u64 \<Rightarrow> stackmap list \<Rightarrow> (rstate, gerr + stackmap list) state" where
  "step_stackmap strtab off acc = do { f \<leftarrow> r_str strtab; io \<leftarrow> r_uleb; i \<leftarrow> r_uleb;
     n \<leftarrow> r_uleb; ls \<leftarrow> r_loop (unat n) r_loc [];
     State_Monad.return (Inr (acc @ [\<lparr>sm_Func = f, sm_InsnOff = io, sm_ID = i, sm_Locs = ls\<rparr>])) }"

definition r_spill :: "byte list \<Rightarrow> (rstate, argspill) state" where
  "r_spill strtab = do { rg \<leftarrow> r_str strtab; o' \<leftarrow> r_uleb; sz \<leftarrow> r_uleb; p \<leftarrow> r_u8;
     State_Monad.return \<lparr>as_Reg = rg, as_Off = o', as_Size = sz, as_Ptr = (p \<noteq> 0)\<rparr> }"

definition step_wrapper :: "byte list \<Rightarrow> u64 \<Rightarrow> wrapper list \<Rightarrow> (rstate, gerr + wrapper list) state" where
  "step_wrapper strtab off acc = do { s \<leftarrow> r_str strtab; t \<leftarrow> r_str strtab; fa \<leftarrow> r_u8; ta \<leftarrow> r_u8;
     n \<leftarrow> r_uleb; sps \<leftarrow> r_loop (unat n) (r_spill strtab) [];
     m \<leftarrow> r_uleb; ps \<leftarrow> r_loop (unat m) r_uleb [];
     State_Monad.return (Inr (acc @ [\<lparr>wr_Sym = s, wr_Target = t, wr_FromABI = fa, wr_ToABI = ta,
       wr_ArgSpills = sps, wr_StackPtrArgs = ps\<rparr>])) }"

definition step_reloc :: "byte list \<Rightarrow> u64 \<Rightarrow> reloc list \<Rightarrow> (rstate, gerr + reloc list) state" where
  "step_reloc strtab off acc = do { f \<leftarrow> r_str strtab; o' \<leftarrow> r_uleb; w \<leftarrow> r_u8; k \<leftarrow> r_u8;
     t \<leftarrow> r_str strtab; a \<leftarrow> r_sleb; fl \<leftarrow> r_u8;
     State_Monad.return (Inr (acc @ [\<lparr>rl_Func = f, rl_Offset = o', rl_Width = w, rl_Kind = k,
       rl_Target = t, rl_Addend = a, rl_Flags = fl\<rparr>])) }"

definition step_data :: "byte list \<Rightarrow> u64 \<Rightarrow> gdata list \<Rightarrow> (rstate, gerr + gdata list) state" where
  "step_data strtab off acc = do { nm \<leftarrow> r_str strtab; sz \<leftarrow> r_uleb; al \<leftarrow> r_u8; fl \<leftarrow> r_uleb; nb \<leftarrow> r_uleb;
     bm \<leftarrow> r_bytes ((nb + 7) div 8);
     State_Monad.return (Inr (acc @ [\<lparr>da_Name = nm, da_Size = sz, da_Log2Align = al, da_Flags = fl,
       da_NBits = nb, da_Bitmap = bm\<rparr>])) }"

section \<open>Symbols and text\<close>

text \<open>The slice expression \<open>d[lo:hi]\<close>: \<^term>\<open>None\<close> is the run-time panic.\<close>

definition go_slice :: "byte list \<Rightarrow> u64 \<Rightarrow> u64 \<Rightarrow> byte list option" where
  "go_slice d lo hi = (if lo \<le> hi \<and> unat hi \<le> length d then Some (take (unat hi - unat lo) (drop (unat lo) d)) else None)"

definition skip_symbol :: "elf_symbol \<Rightarrow> bool" where
  "skip_symbol s \<longleftrightarrow> sy_Name s = [] \<or> ST_TYPE (sy_Info s) = STT_SECTION \<or> ST_TYPE (sy_Info s) = STT_FILE"

text \<open>One turn of the symbol loop: the symbol's entry, which a later symbol of the same name
  overwrites except for \<open>Count\<close> and (when undefined) \<open>Section\<close>, and the function's bytes.\<close>

type_synonym symtab = "(string \<rightharpoonup> gsymbol) \<times> (string \<rightharpoonup> byte list)"

definition add_symbol :: "elf_section list \<Rightarrow> elf_symbol \<Rightarrow> symtab \<Rightarrow> symtab option" where
  "add_symbol secs s = (\<lambda>(syms, text).
     if skip_symbol s then Some (syms, text) else
     let old = (case syms (sy_Name s) of Some e \<Rightarrow> e
                | None \<Rightarrow> \<lparr>gs_Func = False, gs_Defined = False, gs_Size = 0, gs_Section = [], gs_Value = 0, gs_Count = 0\<rparr>);
         fn = (ST_TYPE (sy_Info s) = STT_FUNC);
         defd = (sy_Section s \<noteq> SHN_UNDEF \<and> sy_Section s < length secs);
         sec = secs ! sy_Section s;
         e = \<lparr>gs_Func = fn, gs_Defined = defd, gs_Size = sy_Size s,
              gs_Section = (if defd then es_Name sec else gs_Section old),
              gs_Value = sy_Value s, gs_Count = gs_Count old + 1\<rparr>;
         syms' = syms(sy_Name s \<mapsto> e)
     in if defd \<and> fn \<and> es_Type sec = SHT_PROGBITS then
          (case es_Data sec of
             None \<Rightarrow> Some (syms', text)
           | Some d \<Rightarrow> if unat (sy_Value s + sy_Size s) \<le> length d then
               map_option (\<lambda>t. (syms', text(sy_Name s \<mapsto> t))) (go_slice d (sy_Value s) (sy_Value s + sy_Size s))
             else Some (syms', text))
        else Some (syms', text))"

fun add_symbols :: "elf_section list \<Rightarrow> elf_symbol list \<Rightarrow> symtab \<Rightarrow> symtab option" where
  "add_symbols secs [] st = Some st"
| "add_symbols secs (s # ss) st = add_symbol secs s st \<bind> add_symbols secs ss"

section \<open>The index of ELF call relocations\<close>

text \<open>The complete 24-byte entries of a \<open>.rela\<close> section: offset, info, addend.\<close>

function rela_entries :: "byte list \<Rightarrow> (u64 \<times> u64 \<times> u64) list" where
  "rela_entries d = (if 24 \<le> length d then
     (un_le64 d, un_le64 (drop 8 d), un_le64 (drop 16 d)) # rela_entries (drop 24 d) else [])"
  by pat_completeness auto
termination by (relation "measure length") auto

declare rela_entries.simps [simp del]

definition fn_key :: "string \<Rightarrow> u64 \<Rightarrow> string" where
  "fn_key nm off = nm @ ''+'' @ dec_nat (unat off)"

text \<open>The name a call relocation refers to; \<^term>\<open>None\<close> when the entry is skipped.\<close>

definition call_target :: "bool \<Rightarrow> elf_symbol list \<Rightarrow> u64 \<Rightarrow> u64 \<Rightarrow> string option" where
  "call_target a64 syms info addend =
     (let idx = unat (drop_bit 32 info); typ = info AND 0xffffffff; bias = (if a64 then 0 else 4) in
      if a64 \<and> typ \<noteq> 283 \<and> typ \<noteq> 282 \<or> \<not> a64 \<and> typ \<noteq> 4 \<and> typ \<noteq> 2 then None
      else if idx = 0 \<or> idx > length syms then None
      else let target = syms ! (idx - 1) in
        if ST_TYPE (sy_Info target) = STT_SECTION then
          let at = sy_Value target + (addend + bias) in
          Some (foldl (\<lambda>nm y. if sy_Section y = sy_Section target \<and> ST_TYPE (sy_Info y) = STT_FUNC \<and> sy_Value y = at
                              then sy_Name y else nm) [] syms)
        else Some (sy_Name target))"

definition add_call :: "bool \<Rightarrow> elf_symbol list \<Rightarrow> elf_symbol list \<Rightarrow> (string \<rightharpoonup> string) \<Rightarrow> u64 \<times> u64 \<times> u64 \<Rightarrow> (string \<rightharpoonup> string)" where
  "add_call a64 syms funcs m = (\<lambda>(off, info, addend). case call_target a64 syms info addend of
     None \<Rightarrow> m
   | Some nm \<Rightarrow> foldl (\<lambda>m f. if sy_Value f \<le> off \<and> off < sy_Value f + sy_Size f
                            then m(fn_key (sy_Name f) (off - sy_Value f) \<mapsto> nm) else m) m funcs)"

definition section_calls :: "elf_file \<Rightarrow> elf_symbol list \<Rightarrow> (string \<rightharpoonup> string) \<Rightarrow> nat \<times> elf_section \<Rightarrow> (string \<rightharpoonup> string)" where
  "section_calls ef syms m = (\<lambda>(si, s).
     if es_Flags s AND SHF_EXECINSTR = 0 then m
     else case elf_Section ef (''.rela'' @ es_Name s) of
       None \<Rightarrow> m
     | Some rs \<Rightarrow> (case es_Data rs of
         None \<Rightarrow> m
       | Some data \<Rightarrow>
           let funcs = filter (\<lambda>y. sy_Section y = si \<and> ST_TYPE (sy_Info y) = STT_FUNC) syms in
           foldl (add_call (ef_Machine ef = EM_AARCH64) syms funcs) m (rela_entries data)))"

definition elfCallRelocs :: "elf_file \<Rightarrow> elf_symbol list \<Rightarrow> (string \<rightharpoonup> string)" where
  "elfCallRelocs ef syms =
     (if ef_Machine ef \<noteq> EM_X86_64 \<and> ef_Machine ef \<noteq> EM_AARCH64 then Map.empty
      else foldl (section_calls ef syms) Map.empty (enumerate 0 (ef_Sections ef)))"

section \<open>Parse\<close>

text \<open>Fallible steps that share the string error: the state is \<open>strErr\<close>.\<close>

definition ebind :: "(gerr + 'a) \<times> gerr option \<Rightarrow> ('a \<Rightarrow> gerr option \<Rightarrow> (gerr + 'b) \<times> gerr option) \<Rightarrow> (gerr + 'b) \<times> gerr option" where
  "ebind m k = (case m of (Inl e, se) \<Rightarrow> (Inl e, se) | (Inr x, se) \<Rightarrow> k x se)"

lemma ebind_simps [simp]: "ebind (Inl e, se) k = (Inl e, se)" "ebind (Inr x, se) k = k x se"
  by (simp_all add: ebind_def)

text \<open>\<open>b, _ := sec(name)\<close>: a missing or unreadable section reads as an empty one.\<close>

definition sec_bytes :: "elf_file \<Rightarrow> string \<Rightarrow> byte list" where
  "sec_bytes ef nm = (case elf_Section ef nm of None \<Rightarrow> [] | Some s \<Rightarrow> (case es_Data s of None \<Rightarrow> [] | Some d \<Rightarrow> d))"

definition parse_section :: "elf_file \<Rightarrow> string \<Rightarrow> (u64 \<Rightarrow> 'a \<Rightarrow> (rstate, gerr + 'a) state) \<Rightarrow> 'a \<Rightarrow>
    gerr option \<Rightarrow> (gerr + 'a) \<times> gerr option" where
  "parse_section ef nm step ini se = records nm step (sec_bytes ef nm) 0 ini se"

text \<open>The nine tables in the order \<open>Parse\<close> reads them.\<close>

definition parse_tables :: "elf_file \<Rightarrow> byte list \<Rightarrow> gfile \<Rightarrow> gerr option \<Rightarrow> (gerr + gfile) \<times> gerr option" where
  "parse_tables ef strtab out se =
     ebind (parse_section ef SecFiles (step_file strtab) [] se) (\<lambda>files se.
     ebind (parse_section ef SecPCValue step_pcv (\<lambda>_. False, Map.empty) se) (\<lambda>pcv se.
     ebind (parse_section ef SecGCMaps step_gc (\<lambda>_. False, Map.empty) se) (\<lambda>gcs se.
     ebind (parse_section ef SecInlTree (step_inl strtab) Map.empty se) (\<lambda>inls se.
     ebind (parse_section ef SecFuncs (step_func strtab (snd pcv) (snd gcs) inls) [] se) (\<lambda>funcs se.
     ebind (parse_section ef SecStackmaps (step_stackmap strtab) [] se) (\<lambda>sms se.
     ebind (parse_section ef SecWrappers (step_wrapper strtab) [] se) (\<lambda>wrs se.
     ebind (parse_section ef SecRelocs (step_reloc strtab) [] se) (\<lambda>rls se.
     ebind (parse_section ef SecData (step_data strtab) [] se) (\<lambda>das se.
       (Inr (out\<lparr>gf_Files := files, gf_Funcs := funcs, gf_Relocs := rls, gf_Stackmaps := sms,
          gf_Wrappers := wrs, gf_Data := das, gf_pcvStarts := fst pcv, gf_gcStarts := fst gcs\<rparr>), se))))))))))"

definition empty_file :: "header \<Rightarrow> gfile" where
  "empty_file h = \<lparr>gf_Header = h, gf_Files = [], gf_Funcs = [], gf_Relocs = [], gf_Stackmaps = [],
     gf_Wrappers = [], gf_Data = [], gf_Symbols = Map.empty, gf_Text = Map.empty, gf_ELFRelocs = Map.empty,
     gf_pcvStarts = (\<lambda>_. False), gf_gcStarts = (\<lambda>_. False)\<rparr>"

definition parse_header :: "byte list \<Rightarrow> byte list \<Rightarrow> header \<times> gerr option" where
  "parse_header hdr strtab =
     (let (prof, se) = str_ref strtab (ucast (un_le32 (drop 16 hdr))) None;
          (prod, se) = str_ref strtab (ucast (un_le32 (drop 20 hdr))) se
      in (\<lparr>h_Major = un_le16 (drop 8 hdr), h_Minor = un_le16 (drop 10 hdr), h_Arch = hdr ! 12,
           h_Flags = hdr ! 13, h_Profile = prof, h_Producer = prod\<rparr>, se))"

text \<open>The checks on the header section, and the sections that must be readable.\<close>

definition header_bytes :: "elf_file \<Rightarrow> gerr + byte list" where
  "header_bytes ef = (case elf_Section ef SecHeader of
     None \<Rightarrow> Inl NotGocobj
   | Some s \<Rightarrow> (case es_Data s of
       None \<Rightarrow> Inl (SectionErr SecHeader)
     | Some hdr \<Rightarrow>
         if length hdr < HeaderSize \<or> take 8 hdr \<noteq> Magic then Inl BadMagic
         else if un_le16 (drop 8 hdr) \<noteq> Major then Inl (BadMajor (un_le16 (drop 8 hdr)))
         else Inr hdr))"

definition strtab_bytes :: "elf_file \<Rightarrow> gerr + byte list" where
  "strtab_bytes ef = (case elf_Section ef SecStrtab of
     None \<Rightarrow> Inr []
   | Some s \<Rightarrow> (case es_Data s of None \<Rightarrow> Inl (SectionErr SecStrtab) | Some d \<Rightarrow> Inr d))"

definition symbols_of :: "elf_file \<Rightarrow> gerr + elf_symbol list" where
  "symbols_of ef = (case ef_Symtab ef of Syms ss \<Rightarrow> Inr ss | ErrNoSymbols \<Rightarrow> Inr [] | SymtabErr \<Rightarrow> Inl SymbolsErr)"

definition Parse :: "elf_file \<Rightarrow> gerr + gfile" where
  "Parse ef = (case header_bytes ef of
     Inl e \<Rightarrow> Inl e
   | Inr hdr \<Rightarrow> (case strtab_bytes ef of
       Inl e \<Rightarrow> Inl e
     | Inr strtab \<Rightarrow> (case symbols_of ef of
         Inl e \<Rightarrow> Inl e
       | Inr syms \<Rightarrow> (case add_symbols (ef_Sections ef) syms (Map.empty, Map.empty) of
           None \<Rightarrow> Inl SlicePanic
         | Some (symm, text) \<Rightarrow>
             (let (h, se) = parse_header hdr strtab;
                  out = (empty_file h)\<lparr>gf_Symbols := symm, gf_Text := text, gf_ELFRelocs := elfCallRelocs ef syms\<rparr>
              in case parse_tables ef strtab out se of
                   (Inl e, _) \<Rightarrow> Inl e
                 | (Inr f, Some e) \<Rightarrow> Inl (StrtabErr e)
                 | (Inr f, None) \<Rightarrow> Inr f)))))"

end
