(* ===== verification/Gocobj_Write.thy ===== *)
theory Gocobj_Write
  imports Gocobj_Read "HOL-Library.List_Lexorder" "HOL-Library.Char_ord"
begin

text \<open>
  \<open>internal/gocobj/write.go\<close>: the \<open>Builder\<close> with its string interning, one encoder per record
  and the assembler rendering. The closure \<open>s\<close> of the source is \<open>intern\<close>, a state operation on
  the string table; the encoders run in the order in which the Go code calls it.
\<close>

record builder =
  bd_Header :: header
  bd_Files :: "string list"
  bd_Funcs :: "func list"
  bd_Relocs :: "reloc list"
  bd_Stackmaps :: "stackmap list"
  bd_Data :: "gdata list"

section \<open>String interning\<close>

record itab =
  it_strs :: "byte list"
  it_idx :: "string \<rightharpoonup> u64"

definition intern :: "string \<Rightarrow> ('z itab_scheme, u64) state" where
  "intern v = State (\<lambda>t. case it_idx t v of
       Some o' \<Rightarrow> (o', t)
     | None \<Rightarrow> let o' = word_of_nat (length (it_strs t)) in
         (o', t\<lparr>it_strs := it_strs t @ bytes_of v @ [0], it_idx := (it_idx t)(v \<mapsto> o')\<rparr>))"

section \<open>Record encoders\<close>

definition enc_file :: "string \<Rightarrow> ('z itab_scheme, byte list) state" where
  "enc_file f = do { o' \<leftarrow> intern f; State_Monad.return (enc_uleb o') }"

definition enc_count :: "'a list \<Rightarrow> byte list" where
  "enc_count xs = enc_uleb (word_of_nat (length xs))"

definition enc_entry :: "pcentry \<Rightarrow> byte list" where
  "enc_entry e = enc_uleb (pc_PC e) @ enc_sleb (pc_Value e)"

definition enc_table :: "pctable \<Rightarrow> byte list" where
  "enc_table t = [pt_Kind t] @ enc_count (pt_Entries t) @ concat (map enc_entry (pt_Entries t))"

definition enc_pcv :: "pctable list \<Rightarrow> byte list" where
  "enc_pcv ts = enc_count ts @ concat (map enc_table ts)"

definition enc_safepoint :: "safepoint \<Rightarrow> byte list" where
  "enc_safepoint sp = enc_uleb (sp_PC sp) @ sp_Args sp @ sp_Locals sp @ enc_count (sp_Color sp) @ sp_Color sp"

definition enc_gc :: "gcmap \<Rightarrow> byte list" where
  "enc_gc g = enc_uleb (gc_NArgs g) @ enc_uleb (gc_NLocals g) @ enc_count (gc_Safepoints g) @
     concat (map enc_safepoint (gc_Safepoints g))"

definition enc_inlnode :: "inlnode \<Rightarrow> ('z itab_scheme, byte list) state" where
  "enc_inlnode n = do { o' \<leftarrow> intern (in_Func n);
     State_Monad.return (enc_sleb (in_Parent n) @ enc_uleb (in_File n) @ enc_uleb (in_Line n) @ enc_uleb o' @
       enc_uleb (in_ParentPC n) @ enc_uleb (in_StartLine n)) }"

definition enc_inl :: "inlnode list \<Rightarrow> ('z itab_scheme, byte list) state" where
  "enc_inl ns = do { bs \<leftarrow> traverse_list enc_inlnode ns; State_Monad.return (enc_count ns @ concat bs) }"

definition enc_func :: "u16 \<Rightarrow> func \<Rightarrow> u64 \<Rightarrow> u64 \<Rightarrow> u64 \<Rightarrow> ('z itab_scheme, byte list) state" where
  "enc_func minor fn pcvOff gcOff inlOff = do { o' \<leftarrow> intern (fn_Name fn);
     State_Monad.return (enc_uleb o' @ enc_uleb (fn_TextSize fn) @ enc_uleb (fn_FrameSize fn) @
       enc_uleb (fn_ArgSize fn) @ [fn_ABI fn] @ [fn_Kind fn] @ enc_uleb (fn_Flags fn) @ [fn_FuncID fn] @
       enc_uleb (fn_File fn) @ enc_uleb (fn_StartLine fn) @
       enc_uleb pcvOff @ enc_uleb gcOff @ enc_uleb inlOff @
       (if minor \<ge> 1 then enc_uleb (fn_SysvPtrRegs fn) else []) @
       (if minor \<ge> 2 then enc_count (fn_SptrSlots fn) @ concat (map enc_uleb (fn_SptrSlots fn)) else [])) }"

definition enc_reloc :: "reloc \<Rightarrow> ('z itab_scheme, byte list) state" where
  "enc_reloc rl = do { f \<leftarrow> intern (rl_Func rl); t \<leftarrow> intern (rl_Target rl);
     State_Monad.return (enc_uleb f @ enc_uleb (rl_Offset rl) @ [rl_Width rl] @ [rl_Kind rl] @ enc_uleb t @
       enc_sleb (rl_Addend rl) @ [rl_Flags rl]) }"

definition enc_loc :: "stackmaploc \<Rightarrow> byte list" where
  "enc_loc l = [sl_Type l] @ enc_uleb (sl_Size l) @ enc_uleb (sl_Reg l) @ enc_sleb (sl_Off l)"

definition enc_stackmap :: "stackmap \<Rightarrow> ('z itab_scheme, byte list) state" where
  "enc_stackmap sm = do { f \<leftarrow> intern (sm_Func sm);
     State_Monad.return (enc_uleb f @ enc_uleb (sm_InsnOff sm) @ enc_uleb (sm_ID sm) @
       enc_count (sm_Locs sm) @ concat (map enc_loc (sm_Locs sm))) }"

definition enc_data :: "gdata \<Rightarrow> ('z itab_scheme, byte list) state" where
  "enc_data d = do { n \<leftarrow> intern (da_Name d);
     State_Monad.return (enc_uleb n @ enc_uleb (da_Size d) @ [da_Log2Align d] @ enc_uleb (da_Flags d) @
       enc_uleb (da_NBits d) @ da_Bitmap d) }"

section \<open>The loops of Sections\<close>

text \<open>A loop that appends one record per element to a section of its own.\<close>

definition enc_records :: "('a \<Rightarrow> ('s, byte list) state) \<Rightarrow> 'a list \<Rightarrow> ('s, byte list) state" where
  "enc_records f xs = do { bs \<leftarrow> traverse_list f xs;
     State_Monad.return (foldl (\<lambda>sec b. snd (enc_record sec b)) [] bs) }"

text \<open>The loop over functions fills four sections; the offset of a record written, plus one, is
  what the function record carries, and zero stands for nil.\<close>

record wsecs =
  w_funcs :: "byte list"
  w_pcv :: "byte list"
  w_gcm :: "byte list"
  w_inl :: "byte list"

definition opt_record :: "('a \<Rightarrow> ('s, byte list) state) \<Rightarrow> 'a option \<Rightarrow> byte list \<Rightarrow> ('s, u64 \<times> byte list) state" where
  "opt_record f x sec = (case x of
     None \<Rightarrow> State_Monad.return (0, sec)
   | Some y \<Rightarrow> do { b \<leftarrow> f y; State_Monad.return (fst (enc_record sec b) + 1, snd (enc_record sec b)) })"

definition write_func :: "u16 \<Rightarrow> func \<Rightarrow> wsecs \<Rightarrow> ('z itab_scheme, wsecs) state" where
  "write_func minor fn w = do {
     (pcvOff, pcv) \<leftarrow> opt_record (\<lambda>ts. State_Monad.return (enc_pcv ts)) (fn_PCValue fn) (w_pcv w);
     (gcOff, gcm) \<leftarrow> opt_record (\<lambda>g. State_Monad.return (enc_gc g)) (fn_GC fn) (w_gcm w);
     (inlOff, inl) \<leftarrow> opt_record enc_inl (fn_Inl fn) (w_inl w);
     b \<leftarrow> enc_func minor fn pcvOff gcOff inlOff;
     State_Monad.return \<lparr>w_funcs = snd (enc_record (w_funcs w) b), w_pcv = pcv, w_gcm = gcm, w_inl = inl\<rparr> }"

primrec write_funcs :: "u16 \<Rightarrow> func list \<Rightarrow> wsecs \<Rightarrow> ('z itab_scheme, wsecs) state" where
  "write_funcs minor [] w = State_Monad.return w"
| "write_funcs minor (fn # fns) w = do { w' \<leftarrow> write_func minor fn w; write_funcs minor fns w' }"

definition enc_header :: "header \<Rightarrow> ('z itab_scheme, byte list) state" where
  "enc_header h = do { p \<leftarrow> intern (h_Profile h); q \<leftarrow> intern (h_Producer h);
     State_Monad.return (Magic @ le16 Major @ le16 (h_Minor h) @ [h_Arch h, h_Flags h, 0, 0] @
       le32 (ucast p) @ le32 (ucast q) @ [0, 0, 0, 0]) }"

definition nonempty_sec :: "string \<Rightarrow> byte list \<Rightarrow> (string \<times> byte list) list" where
  "nonempty_sec nm b = (if b \<noteq> [] then [(nm, b)] else [])"

definition write_sections :: "builder \<Rightarrow> (itab, (string \<times> byte list) list) state" where
  "write_sections bd = do {
     h \<leftarrow> enc_header (bd_Header bd);
     files \<leftarrow> enc_records enc_file (bd_Files bd);
     w \<leftarrow> write_funcs (h_Minor (bd_Header bd)) (bd_Funcs bd) \<lparr>w_funcs = [], w_pcv = [], w_gcm = [], w_inl = []\<rparr>;
     relocs \<leftarrow> enc_records enc_reloc (bd_Relocs bd);
     stackmaps \<leftarrow> enc_records enc_stackmap (bd_Stackmaps bd);
     data \<leftarrow> enc_records enc_data (bd_Data bd);
     State_Monad.return ((SecHeader, h) # nonempty_sec SecFiles files @ nonempty_sec SecFuncs (w_funcs w) @
       nonempty_sec SecRelocs relocs @ nonempty_sec SecStackmaps stackmaps @ nonempty_sec SecPCValue (w_pcv w) @
       nonempty_sec SecGCMaps (w_gcm w) @ nonempty_sec SecData data @ nonempty_sec SecInlTree (w_inl w)) }"

definition itab0 :: itab where
  "itab0 = \<lparr>it_strs = [0], it_idx = [[] \<mapsto> 0]\<rparr>"

definition Sections :: "builder \<Rightarrow> (string \<times> byte list) list" where
  "Sections bd = (let (out, t) = run_state (write_sections bd) itab0 in out @ [(SecStrtab, it_strs t)])"

section \<open>WriteAsm\<close>

definition hex_digit :: "nat \<Rightarrow> char" where
  "hex_digit n = (if n < 10 then char_of (48 + n) else char_of (87 + n))"

definition hex_byte :: "byte \<Rightarrow> string" where
  "hex_byte b = ''0x'' @ [hex_digit (unat b div 16), hex_digit (unat b mod 16)]"

definition c_tab :: char where "c_tab = char_of (9 :: nat)"
definition c_nl :: char where "c_nl = char_of (10 :: nat)"
definition c_quot :: char where "c_quot = char_of (34 :: nat)"

function byte_lines :: "byte list \<Rightarrow> string" where
  "byte_lines b = (if b = [] then [] else
     c_tab # ''.byte '' @ join '','' (map hex_byte (take 16 b)) @ [c_nl] @ byte_lines (drop 16 b))"
  by pat_completeness auto
termination by (relation "measure length") auto

declare byte_lines.simps [simp del]

definition WriteAsm :: "builder \<Rightarrow> string" where
  "WriteAsm bd = (let secs = Sections bd in
     concat (map (\<lambda>n. c_tab # ''.section '' @ n @ [CHR '','', c_quot, c_quot] @ '',@progbits'' @ [c_nl] @
       byte_lines (the (map_of secs n))) (sort (map fst secs))))"

end
