(* ===== verification/Gocobj_Roundtrip.thy ===== *)
theory Gocobj_Roundtrip
  imports Gocobj_Write "HOL-Library.Sublist"
begin

text \<open>
  Reading back what the \<open>Builder\<close> writes. Strings first: \<open>writes m Q\<close> says that the interning
  computation \<open>m\<close> keeps the string table consistent, only extends it, and that its result
  satisfies \<open>Q\<close> for every later state of the table. Then one law per record, and the sections.
\<close>

section \<open>The string table\<close>

definition resolves :: "byte list \<Rightarrow> u64 \<Rightarrow> string \<Rightarrow> bool" where
  "resolves strs o' v \<longleftrightarrow> (\<exists>pre post. strs = pre @ bytes_of v @ 0 # post \<and> o' = word_of_nat (length pre))"

definition it_ok :: "'z itab_scheme \<Rightarrow> bool" where
  "it_ok t \<longleftrightarrow> (\<forall>v o'. it_idx t v = Some o' \<longrightarrow> resolves (it_strs t) o' v)"

definition strref_ok :: "byte list \<Rightarrow> u64 \<Rightarrow> string \<Rightarrow> bool" where
  "strref_ok strtab o' v \<longleftrightarrow> (\<forall>se. str_ref strtab o' se = (v, se)) \<and> unat o' < length strtab"

definition writes :: "('z itab_scheme, 'a) state \<Rightarrow> (byte list \<Rightarrow> 'a \<Rightarrow> bool) \<Rightarrow> bool" where
  "writes m Q \<longleftrightarrow> (\<forall>t x t'. run_state m t = (x, t') \<longrightarrow> it_ok t \<longrightarrow>
     it_ok t' \<and> prefix (it_strs t) (it_strs t') \<and>
     (\<forall>strtab. prefix (it_strs t') strtab \<longrightarrow> length strtab < 2 ^ 64 \<longrightarrow> Q strtab x))"

lemma resolves_prefix: "resolves s o' v \<Longrightarrow> prefix s s' \<Longrightarrow> resolves s' o' v"
  by (fastforce simp: resolves_def prefix_def)

lemma takeWhile_bytes_of: "nul_free v \<Longrightarrow> takeWhile (\<lambda>b. b \<noteq> 0) (bytes_of v @ 0 # post) = bytes_of v"
  by (subst takeWhile_append2) (auto simp: nul_free_def)

lemma resolves_strref:
  assumes "resolves strtab o' v" "nul_free v" "length strtab < 2 ^ 64"
  shows "strref_ok strtab o' v"
proof -
  from assms(1) obtain pre post where s: "strtab = pre @ bytes_of v @ 0 # post" "o' = word_of_nat (length pre)"
    by (auto simp: resolves_def)
  have "unat o' = length pre" using assms(3) s by (simp add: unat_of_nat)
  then show ?thesis
    using takeWhile_bytes_of [OF assms(2)] by (simp add: strref_ok_def str_ref_def s)
qed

lemma writesD: "writes m Q \<Longrightarrow> run_state m t = (x, t') \<Longrightarrow> it_ok t \<Longrightarrow>
    it_ok t' \<and> prefix (it_strs t) (it_strs t') \<and> (\<forall>strtab. prefix (it_strs t') strtab \<longrightarrow> length strtab < 2 ^ 64 \<longrightarrow> Q strtab x)"
  by (simp add: writes_def)

lemma writes_return: "(\<And>strtab. length strtab < 2 ^ 64 \<Longrightarrow> Q strtab x) \<Longrightarrow> writes (State_Monad.return x) Q"
  by (simp add: writes_def)

lemma writes_bind:
  assumes m: "writes m Q" and f: "\<And>x. writes (f x) (\<lambda>strtab y. Q strtab x \<longrightarrow> R strtab y)"
  shows "writes (m \<bind> f) R"
  unfolding writes_def
proof (intro allI impI)
  fix t y t'
  assume run: "run_state (m \<bind> f) t = (y, t')" and ok: "it_ok t"
  obtain x t1 where m1: "run_state m t = (x, t1)" by (cases "run_state m t")
  with run have f1: "run_state (f x) t1 = (y, t')" by simp
  note a = writesD [OF m m1 ok]
  note b = writesD [OF f f1] a
  then show "it_ok t' \<and> prefix (it_strs t) (it_strs t') \<and>
      (\<forall>strtab. prefix (it_strs t') strtab \<longrightarrow> length strtab < 2 ^ 64 \<longrightarrow> R strtab y)"
    by (meson prefix_order.trans)
qed

lemma writes_mono: "writes m Q \<Longrightarrow> (\<And>strtab x. length strtab < 2 ^ 64 \<Longrightarrow> Q strtab x \<Longrightarrow> R strtab x) \<Longrightarrow> writes m R"
  by (fastforce simp: writes_def)

lemma writes_intern: "nul_free v \<Longrightarrow> writes (intern v) (\<lambda>strtab o'. strref_ok strtab o' v)"
proof -
  assume v: "nul_free v"
  have "it_ok t' \<and> prefix (it_strs t) (it_strs t') \<and> resolves (it_strs t') o' v"
    if run: "run_state (intern v) t = (o', t')" and ok: "it_ok t" for t :: "'a itab_scheme" and o' t'
  proof (cases "it_idx t v")
    case (Some p)
    with run ok show ?thesis by (auto simp: intern_def it_ok_def)
  next
    case None
    with run have t': "t' = t\<lparr>it_strs := it_strs t @ bytes_of v @ [0], it_idx := (it_idx t)(v \<mapsto> o')\<rparr>"
      and o: "o' = word_of_nat (length (it_strs t))"
      by (auto simp: intern_def Let_def)
    have "resolves (it_strs t') o' v" by (auto simp: resolves_def t' o)
    moreover have "prefix (it_strs t) (it_strs t')" by (simp add: t')
    ultimately show ?thesis
      using ok by (auto simp: it_ok_def t' intro: resolves_prefix [OF _ prefixI])
  qed
  then show ?thesis
    using v by (fastforce simp: writes_def intro: resolves_strref resolves_prefix)
qed

lemma writes_traverse:
  assumes "\<And>x. x \<in> set xs \<Longrightarrow> writes (f x) (\<lambda>strtab b. P strtab b x)"
  shows "writes (traverse_list f xs) (\<lambda>strtab bs. list_all2 (P strtab) bs xs)"
  using assms
proof (induction xs)
  case Nil
  then show ?case by (simp add: writes_return)
next
  case (Cons x xs)
  have f: "writes (f x) (\<lambda>strtab b. P strtab b x)" by (rule Cons.prems) simp
  have r: "writes (traverse_list f xs) (\<lambda>strtab bs. list_all2 (P strtab) bs xs)"
    using Cons by simp
  show ?case
    by (simp, rule writes_bind [OF f], rule writes_bind [OF r])
       (rule writes_return, simp)
qed

section \<open>Payloads\<close>

text \<open>A record's callback sees exactly the payload, so optional trailing fields are decided by
  what is left.\<close>

definition reads_all :: "('z buf_scheme, 'a) state \<Rightarrow> byte list \<Rightarrow> 'a \<Rightarrow> bool" where
  "reads_all p bs v \<longleftrightarrow> (\<forall>r. b_b r = bs \<longrightarrow> b_err r = None \<longrightarrow> run_state p r = (v, r\<lparr>b_b := []\<rparr>))"

lemma reads_all: "reads p bs v \<Longrightarrow> reads_all p bs v"
  by (simp add: reads_all_def reads_def)

lemma reads_all_bind: "reads p bs v \<Longrightarrow> reads_all (f v) cs w \<Longrightarrow> reads_all (p \<bind> f) (bs @ cs) w"
  by (fastforce simp: reads_all_def dest: readsD)

lemma reads_all_return: "reads_all (State_Monad.return v) [] v"
  by (simp add: reads_all_def)

lemma reads_bind_return: "reads p bs v \<Longrightarrow> reads (f v) [] w \<Longrightarrow> reads (p \<bind> f) bs w"
  using reads_bind [of p bs v f "[]" w] by simp

lemma reads_return_eq: "reads (State_Monad.return v) [] w \<longleftrightarrow> v = w"
proof
  assume "reads (State_Monad.return v) [] w"
  then show "v = w" using readsD [of "State_Monad.return v" "[]" w "\<lparr>b_b = [], b_err = None, \<dots> = z\<rparr>" "[]" for z] by simp
qed (simp add: reads_return)

lemma reads_str: "strref_ok strtab o' v \<Longrightarrow> reads (r_str strtab) (enc_uleb o') v"
proof -
  assume v: "strref_ok strtab o' v"
  have "reads (State (\<lambda>r. let (s, se) = str_ref strtab o' (s_strErr r) in (s, r\<lparr>s_strErr := se\<rparr>))) [] v"
    using v by (auto simp: reads_def strref_ok_def)
  then show ?thesis unfolding r_str_def by (intro reads_bind_return [OF reads_uleb])
qed

text \<open>What a payload must satisfy for its section: the callback turns it into the collected value.\<close>

definition payload_ok :: "(u64 \<Rightarrow> 'a \<Rightarrow> (rstate, gerr + 'a) state) \<Rightarrow> (u64 \<Rightarrow> 'a \<Rightarrow> 'x \<Rightarrow> 'a) \<Rightarrow> byte list \<times> 'x \<Rightarrow> bool" where
  "payload_ok step collect p \<longleftrightarrow> length (fst p) < 2 ^ 64 \<and>
     (\<forall>off acc. reads_all (step off acc) (fst p) (Inr (collect off acc (snd p))))"

interpretation sec: section_codec fst step "\<lambda>off acc p. collect off acc (snd p)" "payload_ok step collect"
  for step :: "u64 \<Rightarrow> 'a \<Rightarrow> (rstate, gerr + 'a) state" and collect :: "u64 \<Rightarrow> 'a \<Rightarrow> 'x \<Rightarrow> 'a"
proof
  fix x :: "byte list \<times> 'x" and off :: u64 and acc :: 'a and se
  assume "payload_ok step collect x"
  then show "\<exists>rest. run_state (step off acc) \<lparr>b_b = fst x, b_err = None, s_strErr = se\<rparr> =
      (Inr (collect off acc (snd x)), \<lparr>b_b = rest, b_err = None, s_strErr = se\<rparr>)"
    by (auto simp: payload_ok_def reads_all_def)
qed (simp add: payload_ok_def)

text \<open>Sections that append: the collected list is the list of values.\<close>

abbreviation append_item :: "u64 \<Rightarrow> 'x list \<Rightarrow> 'x \<Rightarrow> 'x list" where
  "append_item off acc x \<equiv> acc @ [x]"

lemma collect_append: "sec.collect_all append_item off acc ps = acc @ map snd ps"
  by (induction ps arbitrary: off acc) (simp_all add: sec.collect_all.simps [where collect = append_item])

definition recs :: "byte list list \<Rightarrow> byte list" where
  "recs bs = concat (map enc_rec bs)"

lemma recs_simps [simp]: "recs [] = []" "recs (b # bs) = enc_rec b @ recs bs" "recs (bs @ cs) = recs bs @ recs cs"
  by (simp_all add: recs_def)

lemma enc_record_enc_rec: "enc_record s b = (word_of_nat (length s), s @ enc_rec b)"
  by (simp add: enc_record_def enc_rec_def)

lemma foldl_enc_record: "foldl (\<lambda>s b. snd (enc_record s b)) s bs = s @ recs bs"
  by (induction bs arbitrary: s) (simp_all add: enc_record_enc_rec)

lemma length_recs: "b \<in> set bs \<Longrightarrow> length b < length (recs bs)"
  by (induction bs) (auto simp: enc_rec_def)

lemma records_append:
  assumes "\<forall>p\<in>set ps. payload_ok step append_item p"
  shows "records nm step (recs (map fst ps)) off acc se = (Inr (acc @ map snd ps), se)"
  using sec.records_all [OF assms, of nm off acc se]
  by (simp add: collect_append recs_def comp_def)

section \<open>One law per record\<close>

lemmas atoms = reads_uleb reads_sleb reads_u8

interpretation entry: codec enc_entry r_entry "\<lambda>_. True"
proof
  fix x
  show "reads r_entry (enc_entry x) x"
    unfolding r_entry_def enc_entry_def
    by (rule reads_bind, rule atoms, rule reads_bind_return, rule atoms) (cases x, simp add: reads_return)
qed (simp add: enc_entry_def)

interpretation loc: codec enc_loc r_loc "\<lambda>_. True"
proof
  fix x
  show "reads r_loc (enc_loc x) x"
    unfolding r_loc_def enc_loc_def
    by (rule reads_bind, rule atoms, rule reads_bind, rule atoms, rule reads_bind, rule atoms,
        rule reads_bind_return, rule atoms) (cases x, simp add: reads_return)
qed (simp add: enc_loc_def)

definition sp_fits :: "u64 \<Rightarrow> u64 \<Rightarrow> safepoint \<Rightarrow> bool" where
  "sp_fits na nl sp \<longleftrightarrow> length (sp_Args sp) = unat ((na + 7) div 8) \<and> length (sp_Locals sp) = unat ((nl + 7) div 8) \<and>
     length (sp_Color sp) < 2 ^ 64"

interpretation spt: codec enc_safepoint "r_safepoint na nl" "sp_fits na nl" for na nl
proof
  fix x
  assume "sp_fits na nl x"
  then show "reads (r_safepoint na nl) (enc_safepoint x) x"
    unfolding r_safepoint_def enc_safepoint_def sp_fits_def enc_count_def
    by (intro reads_bind [OF reads_uleb] reads_bind [OF reads_bytes] reads_bind_return [OF reads_bytes])
       (auto simp: unat_of_nat reads_return_eq intro: safepoint.equality)
qed (simp add: enc_safepoint_def)

lemma reads_loop: "list_all2 (reads dec) bs xs \<Longrightarrow> reads (r_loop (length xs) dec acc) (concat bs) (acc @ xs)"
proof (induction arbitrary: acc rule: list_all2_induct)
  case Nil
  then show ?case by (simp add: reads_return)
next
  case (Cons b bs x xs)
  have "reads (dec \<bind> (\<lambda>x. r_loop (length xs) dec (acc @ [x]))) (b @ concat bs) (acc @ x # xs)"
    using Cons.IH [of "acc @ [x]"] Cons.hyps by (intro reads_bind [where v = x]) simp_all
  then show ?case by (simp add: reads_def)
qed

text \<open>Every string of a builder has no NUL byte, and bitmaps have the length their count implies.\<close>

lemma step_file_ok: "strref_ok strtab o' f \<Longrightarrow>
    reads (step_file strtab off acc) (enc_uleb o') (Inr (acc @ [f]))"
  unfolding step_file_def by (rule reads_bind_return [OF reads_str reads_return])

lemma writes_file:
  assumes "nul_free f"
  shows "writes (enc_file f) (\<lambda>strtab b. length b < 2 ^ 64 \<longrightarrow> payload_ok (step_file strtab) append_item (b, f))"
  unfolding enc_file_def
  by (rule writes_bind [OF writes_intern [OF assms]], rule writes_return)
     (auto simp: payload_ok_def intro!: reads_all step_file_ok)

lemma step_reloc_ok:
  assumes "strref_ok strtab f (rl_Func rl)" "strref_ok strtab t (rl_Target rl)"
  shows "reads (step_reloc strtab off acc) (enc_uleb f @ enc_uleb (rl_Offset rl) @ [rl_Width rl] @ [rl_Kind rl] @
     enc_uleb t @ enc_sleb (rl_Addend rl) @ [rl_Flags rl]) (Inr (acc @ [rl]))"
  unfolding step_reloc_def
  by (intro reads_bind [OF reads_str [OF assms(1)]] reads_bind [OF reads_str [OF assms(2)]]
      reads_bind [OF reads_uleb] reads_bind [OF reads_sleb] reads_bind [OF reads_u8] reads_bind_return [OF reads_u8])
     (auto simp: reads_return_eq intro: reloc.equality)

lemma writes_reloc:
  assumes "nul_free (rl_Func rl)" "nul_free (rl_Target rl)"
  shows "writes (enc_reloc rl) (\<lambda>strtab b. length b < 2 ^ 64 \<longrightarrow> payload_ok (step_reloc strtab) append_item (b, rl))"
  unfolding enc_reloc_def
  by (rule writes_bind [OF writes_intern [OF assms(1)]], rule writes_bind [OF writes_intern [OF assms(2)]], rule writes_return)
     (auto simp: payload_ok_def simp del: append.simps intro!: reads_all step_reloc_ok)

lemma step_data_ok:
  assumes "strref_ok strtab n (da_Name d)" "length (da_Bitmap d) = unat ((da_NBits d + 7) div 8)"
  shows "reads (step_data strtab off acc) (enc_uleb n @ enc_uleb (da_Size d) @ [da_Log2Align d] @
     enc_uleb (da_Flags d) @ enc_uleb (da_NBits d) @ da_Bitmap d) (Inr (acc @ [d]))"
  unfolding step_data_def
  by (intro reads_bind [OF reads_str [OF assms(1)]] reads_bind [OF reads_uleb] reads_bind [OF reads_u8]
      reads_bind_return [OF reads_bytes])
     (auto simp: reads_return_eq assms intro: gdata.equality)

lemma writes_data:
  assumes "nul_free (da_Name d)" "length (da_Bitmap d) = unat ((da_NBits d + 7) div 8)"
  shows "writes (enc_data d) (\<lambda>strtab b. length b < 2 ^ 64 \<longrightarrow> payload_ok (step_data strtab) append_item (b, d))"
  unfolding enc_data_def
  by (rule writes_bind [OF writes_intern [OF assms(1)]], rule writes_return)
     (auto simp: payload_ok_def simp del: append.simps intro!: reads_all step_data_ok assms)

lemma step_stackmap_ok:
  assumes "strref_ok strtab f (sm_Func sm)" "length (sm_Locs sm) < 2 ^ 64"
  shows "reads (step_stackmap strtab off acc) (enc_uleb f @ enc_uleb (sm_InsnOff sm) @ enc_uleb (sm_ID sm) @
     enc_count (sm_Locs sm) @ concat (map enc_loc (sm_Locs sm))) (Inr (acc @ [sm]))"
  unfolding step_stackmap_def enc_count_def
  using loc.loop_enc [of "sm_Locs sm" "[]"] assms(2)
  by (intro reads_bind [OF reads_str [OF assms(1)]] reads_bind [OF reads_uleb] reads_bind_return [where v = "sm_Locs sm"])
     (auto simp: reads_return_eq unat_of_nat intro: stackmap.equality)

lemma writes_stackmap:
  assumes "nul_free (sm_Func sm)"
  shows "writes (enc_stackmap sm) (\<lambda>strtab b. length b < 2 ^ 64 \<longrightarrow> payload_ok (step_stackmap strtab) append_item (b, sm))"
  unfolding enc_stackmap_def
proof (rule writes_bind [OF writes_intern [OF assms]], rule writes_return, intro impI)
  fix f :: u64 and strtab
  let ?b = "enc_uleb f @ enc_uleb (sm_InsnOff sm) @ enc_uleb (sm_ID sm) @ enc_count (sm_Locs sm) @ concat (map enc_loc (sm_Locs sm))"
  assume f: "strref_ok strtab f (sm_Func sm)" and b: "length ?b < 2 ^ 64"
  then have "length (sm_Locs sm) < 2 ^ 64" using loc.length_enc_list [of "sm_Locs sm"] by simp
  with f b show "payload_ok (step_stackmap strtab) append_item (?b, sm)"
    unfolding payload_ok_def by (simp add: reads_all step_stackmap_ok)
qed

text \<open>Sections that other records point into: the collected value is a map from record offset.\<close>

definition put_at :: "('x \<Rightarrow> 'y) \<Rightarrow> u64 \<Rightarrow> 'y at_offset \<Rightarrow> 'x \<Rightarrow> 'y at_offset" where
  "put_at g off acc x = ((fst acc)(off := True), (snd acc)(off \<mapsto> g x))"

definition put_map :: "u64 \<Rightarrow> (u64 \<rightharpoonup> 'x) \<Rightarrow> 'x \<Rightarrow> (u64 \<rightharpoonup> 'x)" where
  "put_map off acc x = acc(off \<mapsto> x)"

text \<open>The reader drops all but the last of adjacent line rows that share a pc.\<close>

definition table_read :: "pctable \<Rightarrow> pctable" where
  "table_read t = t\<lparr>pt_Entries := foldl (add_row (pt_Kind t)) [] (pt_Entries t)\<rparr>"

lemma reads_fits: "unat n \<le> length bs \<Longrightarrow> reads (f True) bs v \<Longrightarrow> reads (r_fits n \<bind> f) bs v"
  by (auto simp: reads_def r_fits_def)

lemma tables_ok:
  assumes "\<forall>t\<in>set ts. length (pt_Entries t) < 2 ^ 64"
  shows "reads (r_tables (length ts) acc :: ('z buf_scheme, gerr + pctable list) state) (concat (map enc_table ts))
    (Inr (acc @ map table_read ts))"
  using assms
proof (induction ts arbitrary: acc)
  case Nil
  then show ?case by (simp add: reads_return_eq)
next
  case (Cons t ts)
  let ?es = "pt_Entries t"
  let ?k = "\<lambda>es. r_tables (length ts) (acc @ [\<lparr>pt_Kind = pt_Kind t, pt_Entries = foldl (add_row (pt_Kind t)) [] es\<rparr>])
    :: ('z buf_scheme, gerr + pctable list) state"
  have rest: "reads (?k ?es) (concat (map enc_table ts)) (Inr ((acc @ [table_read t]) @ map table_read ts))"
    using Cons.IH [of "acc @ [table_read t]"] Cons.prems table_read_def [of t] by (cases t) simp
  have es: "reads (r_loop (length ?es) r_entry [] \<bind> ?k) (concat (map enc_entry ?es) @ concat (map enc_table ts))
      (Inr (acc @ map table_read (t # ts)))"
    using entry.loop_enc [of ?es "[]"] rest by (intro reads_bind [where v = ?es]) simp_all
  have n: "unat (word_of_nat (length ?es) :: u64) = length ?es" using Cons.prems by (simp add: unat_of_nat)
  have "reads (do { k \<leftarrow> r_u8; c \<leftarrow> r_uleb; ok \<leftarrow> r_fits c;
         if \<not> ok then State_Monad.return (Inl ErrShort)
         else do { es \<leftarrow> r_loop (unat c) r_entry [];
           r_tables (length ts) (acc @ [\<lparr>pt_Kind = k, pt_Entries = foldl (add_row k) [] es\<rparr>]) } } :: ('z buf_scheme, gerr + pctable list) state)
      ([pt_Kind t] @ enc_count ?es @ concat (map enc_entry ?es) @ concat (map enc_table ts)) (Inr (acc @ map table_read (t # ts)))"
    unfolding enc_count_def
    using es entry.length_enc_list [of ?es]
    by (intro reads_bind [OF reads_u8] reads_bind [OF reads_uleb] reads_fits) (simp_all add: n)
  then show ?case by (simp add: reads_def enc_table_def [of t])
qed

lemma length_enc_table: "length (pt_Entries t) < length (enc_table t)"
  using entry.length_enc_list [of "pt_Entries t"] by (simp add: enc_table_def)

lemma length_concat_ge: "x \<in> set xs \<Longrightarrow> length (f x) \<le> length (concat (map f xs))"
  by (induction xs) auto

lemma length_concat_count: "(\<And>x. f x \<noteq> []) \<Longrightarrow> length xs \<le> length (concat (map f xs))"
proof (induction xs)
  case (Cons x xs)
  then have "f x \<noteq> []" by simp
  then have "1 \<le> length (f x)" by (cases "f x") auto
  with Cons show ?case by simp
qed simp

lemma pcv_ok:
  assumes "length (enc_pcv ts) < 2 ^ 64"
  shows "payload_ok step_pcv (put_at (map table_read)) (enc_pcv ts, ts)"
proof -
  have "length (pt_Entries t) < 2 ^ 64" if "t \<in> set ts" for t
    using that assms length_enc_table [of t] length_concat_ge [of t ts enc_table] by (simp add: enc_pcv_def)
  moreover have "length ts < 2 ^ 64"
    using assms length_concat_count [of enc_table ts] by (simp add: enc_pcv_def enc_table_def)
  ultimately have "reads (step_pcv off acc) (enc_pcv ts) (Inr (put_at (map table_read) off acc ts))" for off acc
    unfolding step_pcv_def enc_pcv_def enc_count_def
    using tables_ok [of ts "[]"]
    by (intro reads_bind [OF reads_uleb] reads_bind_return [where v = "Inr (map table_read ts)"])
       (simp_all add: unat_of_nat reads_return_eq put_at_def)
  then show ?thesis using assms by (simp add: payload_ok_def reads_all)
qed

definition gc_fits :: "gcmap \<Rightarrow> bool" where
  "gc_fits g \<longleftrightarrow> (\<forall>sp\<in>set (gc_Safepoints g). length (sp_Args sp) = unat ((gc_NArgs g + 7) div 8) \<and>
     length (sp_Locals sp) = unat ((gc_NLocals g + 7) div 8))"

lemma gc_ok:
  assumes "length (enc_gc g) < 2 ^ 64" and "gc_fits g"
  shows "payload_ok step_gc (put_at id) (enc_gc g, g)"
proof -
  let ?sps = "gc_Safepoints g"
  have "length (sp_Color sp) < 2 ^ 64" if "sp \<in> set ?sps" for sp
    using that assms(1) length_concat_ge [of sp ?sps enc_safepoint] by (simp add: enc_gc_def enc_safepoint_def)
  then have fits: "\<forall>sp\<in>set ?sps. sp_fits (gc_NArgs g) (gc_NLocals g) sp"
    using assms(2) by (simp add: gc_fits_def sp_fits_def)
  have n: "length ?sps \<le> length (concat (map enc_safepoint ?sps))" by (rule spt.length_enc_list)
  with assms(1) have u: "unat (word_of_nat (length ?sps) :: u64) = length ?sps"
    by (simp add: enc_gc_def unat_of_nat)
  have "reads (step_gc off acc) (enc_gc g) (Inr (put_at id off acc g))" for off acc
    unfolding step_gc_def enc_gc_def enc_count_def
    using spt.loop_enc [OF fits, of "[]"] n
    by (intro reads_bind [OF reads_uleb] reads_fits)
       (auto simp: u reads_return_eq put_at_def intro!: reads_bind_return [where v = ?sps] gcmap.equality arg_cong [where f = "fun_upd (snd acc) off"])
  then show ?thesis using assms(1) by (simp add: payload_ok_def reads_all)
qed

lemma writes_inlnode:
  assumes "nul_free (in_Func n)"
  shows "writes (enc_inlnode n) (\<lambda>strtab b. reads (r_inlnode strtab) b n \<and> b \<noteq> [])"
  unfolding enc_inlnode_def
proof (rule writes_bind [OF writes_intern [OF assms]], rule writes_return, intro impI conjI)
  fix f :: u64 and strtab
  assume f: "strref_ok strtab f (in_Func n)"
  show "reads (r_inlnode strtab) (enc_sleb (in_Parent n) @ enc_uleb (in_File n) @ enc_uleb (in_Line n) @ enc_uleb f @
       enc_uleb (in_ParentPC n) @ enc_uleb (in_StartLine n)) n"
    unfolding r_inlnode_def
    by (intro reads_bind [OF reads_sleb] reads_bind [OF reads_str [OF f]] reads_bind [OF reads_uleb] reads_bind_return [OF reads_uleb])
       (auto simp: reads_return_eq intro: inlnode.equality)
qed simp

lemma length_list_all2: "list_all2 (\<lambda>b x. P b x \<and> b \<noteq> []) bs xs \<Longrightarrow> length xs \<le> length (concat bs)"
proof (induction rule: list_all2_induct)
  case (Cons b bs x xs)
  then show ?case by (cases b) auto
qed simp

lemma writes_inl:
  assumes "\<forall>n\<in>set ns. nul_free (in_Func n)"
  shows "writes (enc_inl ns) (\<lambda>strtab b. length b < 2 ^ 64 \<longrightarrow> payload_ok (step_inl strtab) put_map (b, ns))"
  unfolding enc_inl_def
proof (rule writes_bind [OF writes_traverse [OF writes_inlnode]], use assms in simp, rule writes_return, intro impI)
  fix bs :: "byte list list" and strtab
  assume bs: "list_all2 (\<lambda>b n. reads (r_inlnode strtab) b n \<and> b \<noteq> []) bs ns" and b: "length (enc_count ns @ concat bs) < 2 ^ 64"
  have n: "length ns \<le> length (concat bs)" by (rule length_list_all2 [OF bs])
  then have u: "unat (word_of_nat (length ns) :: u64) = length ns" using b by (simp add: unat_of_nat)
  have "list_all2 (reads (r_inlnode strtab)) bs ns" using bs by (rule list_all2_mono) simp
  from reads_loop [OF this, of "[]"]
  have "reads (step_inl strtab off acc) (enc_count ns @ concat bs) (Inr (put_map off acc ns))" for off acc
    unfolding step_inl_def enc_count_def
    using n by (intro reads_bind [OF reads_uleb] reads_fits)
       (auto simp: u reads_return_eq put_map_def intro!: reads_bind_return [where v = ns])
  then show "payload_ok (step_inl strtab) put_map (enc_count ns @ concat bs, ns)"
    using b by (simp add: payload_ok_def reads_all)
qed

section \<open>Offsets into other sections\<close>

text \<open>\<open>at_rec ps o x\<close>: the record of \<open>x\<close> starts at offset \<open>o\<close> of the section built from \<open>ps\<close>.\<close>

definition at_rec :: "(byte list \<times> 'x) list \<Rightarrow> u64 \<Rightarrow> 'x \<Rightarrow> bool" where
  "at_rec ps o' x \<longleftrightarrow> (\<exists>ys b zs. ps = ys @ (b, x) # zs \<and> o' = word_of_nat (length (recs (map fst ys))))"

lemma at_rec_append: "at_rec ps o' x \<Longrightarrow> at_rec (ps @ qs) o' x"
  by (fastforce simp: at_rec_def)

lemma collect_app: "sec.collect_all c off acc (ys @ zs) =
    sec.collect_all c (off + word_of_nat (length (recs (map fst ys)))) (sec.collect_all c off acc ys) zs"
  by (induction ys arbitrary: off acc) (simp_all add: add.assoc)

lemma enc_rec_nonempty [simp]: "enc_rec b \<noteq> []"
  by (simp add: enc_rec_def)

lemma put_map_apply [simp]: "put_map off acc x k = (if k = off then Some x else acc k)"
  by (simp add: put_map_def)

lemma put_at_apply [simp]: "snd (put_at g off acc x) = put_map off (snd acc) (g x)"
  by (simp add: put_at_def put_map_def)

text \<open>A later record does not touch the entry of an earlier one, as long as offsets do not wrap.\<close>

lemma collect_keeps:
  assumes "n + length (recs (map fst zs)) < 2 ^ 64" "k < n"
  shows "sec.collect_all put_map (word_of_nat n) acc zs (word_of_nat k) = acc (word_of_nat k)"
  using assms
proof (induction zs arbitrary: n acc)
  case (Cons z zs)
  have ne: "word_of_nat k \<noteq> (word_of_nat n :: u64)" using Cons.prems by (simp add: word_of_nat_eq_iff take_bit_eq_mod)
  have "sec.collect_all put_map (word_of_nat n) acc (z # zs) (word_of_nat k) =
      sec.collect_all put_map (word_of_nat (n + length (enc_rec (fst z)))) (put_map (word_of_nat n) acc (snd z)) zs (word_of_nat k)"
    by simp
  also have "\<dots> = (put_map (word_of_nat n) acc (snd z)) (word_of_nat k)"
    using Cons.prems by (intro Cons.IH) auto
  also have "\<dots> = acc (word_of_nat k)" using ne by simp
  finally show ?case .
qed simp

lemma collect_at:
  assumes "at_rec ps o' x" "length (recs (map fst ps)) < 2 ^ 64"
  shows "sec.collect_all put_map 0 acc ps o' = Some x"
proof -
  obtain ys b zs where ps: "ps = ys @ (b, x) # zs" and o: "o' = word_of_nat (length (recs (map fst ys)))"
    using assms(1) by (auto simp: at_rec_def)
  let ?n = "length (recs (map fst ys))"
  have "sec.collect_all put_map 0 acc ps o' =
      sec.collect_all put_map (word_of_nat (?n + length (enc_rec b))) (put_map o' (sec.collect_all put_map 0 acc ys) x) zs (word_of_nat ?n)"
    by (simp add: ps collect_app [where c = put_map] o)
  also have "\<dots> = Some x"
    using assms(2) by (subst collect_keeps) (auto simp: ps o)
  finally show ?thesis .
qed

lemma collect_put_at_map: "snd (sec.collect_all (put_at g) off acc ps) =
    sec.collect_all put_map off (snd acc) (map (\<lambda>p. (fst p, g (snd p))) ps)"
  by (induction ps arbitrary: off acc) simp_all

text \<open>An offset field of a function record: zero for nil, else one more than a record's start.\<close>

definition off_ok :: "(byte list \<times> 'x) list \<Rightarrow> u64 \<Rightarrow> 'x option \<Rightarrow> bool" where
  "off_ok ps o' v \<longleftrightarrow> (case v of None \<Rightarrow> o' = 0 | Some x \<Rightarrow> at_rec ps (o' - 1) x)"

lemma off_ok_append: "off_ok ps o' v \<Longrightarrow> off_ok (ps @ qs) o' v"
  by (auto simp: off_ok_def at_rec_append split: option.splits)

lemma at_rec_nonzero:
  assumes "at_rec ps (o' - 1) x" "length (recs (map fst ps)) < 2 ^ 64"
  shows "o' \<noteq> 0"
proof
  assume "o' = 0"
  obtain ys b zs where ps: "ps = ys @ (b, x) # zs" and o: "o' - 1 = word_of_nat (length (recs (map fst ys)))"
    using assms(1) by (auto simp: at_rec_def)
  let ?n = "length (recs (map fst ys))"
  have "0 < length (enc_rec b)" by simp
  then have "Suc ?n < 2 ^ 64" using assms(2) by (simp add: ps del: length_greater_0_conv)
  then have "unat (word_of_nat (Suc ?n) :: u64) = Suc ?n" by (simp add: unat_of_nat del: of_nat_Suc)
  moreover have "word_of_nat (Suc ?n) = (0 :: u64)" using o \<open>o' = 0\<close> by (simp add: algebra_simps flip: o)
  ultimately show False by simp
qed

lemma deref_collect:
  assumes "off_ok ps o' v" "length (recs (map fst ps)) < 2 ^ 64"
  shows "deref o' (sec.collect_all put_map 0 acc ps) = v"
  using assms collect_at [of ps "o' - 1" _ acc] at_rec_nonzero [of ps o']
  by (cases v) (auto simp: off_ok_def deref_def)

lemma at_rec_map: "at_rec ps o' x \<Longrightarrow> at_rec (map (\<lambda>p. (fst p, g (snd p))) ps) o' (g x)"
  by (fastforce simp: at_rec_def comp_def)

lemma off_ok_map: "off_ok ps o' v \<Longrightarrow> off_ok (map (\<lambda>p. (fst p, g (snd p))) ps) o' (map_option g v)"
  by (cases v) (auto simp: off_ok_def at_rec_map)

lemma deref_collect_at:
  assumes "off_ok ps o' v" "length (recs (map fst ps)) < 2 ^ 64"
  shows "deref o' (snd (sec.collect_all (put_at g) 0 acc ps)) = map_option g v"
  using deref_collect [OF off_ok_map [OF assms(1), of g], of "snd acc"] assms(2)
  by (simp add: collect_put_at_map comp_def)

lemma writes_opt_record:
  assumes "\<And>x. v = Some x \<Longrightarrow> writes (f x) (\<lambda>strtab b. P strtab (b, x))"
  shows "writes (opt_record f v sec) (\<lambda>strtab (o', sec'). \<forall>ps. sec = recs (map fst ps) \<longrightarrow>
     (\<exists>qs. sec' = recs (map fst (ps @ qs)) \<and> off_ok (ps @ qs) o' v \<and> (\<forall>q\<in>set qs. P strtab q)))"
proof (cases v)
  case None
  then show ?thesis
    by (auto simp: opt_record_def off_ok_def intro!: writes_return exI [of _ "[]"])
next
  case (Some x)
  have "\<exists>qs. sec @ enc_rec b = recs (map fst (ps @ qs)) \<and> off_ok (ps @ qs) (word_of_nat (length sec) + 1) (Some x) \<and>
      (\<forall>q\<in>set qs. P strtab q)" if "P strtab (b, x)" "sec = recs (map fst ps)" for strtab b ps
    using that by (intro exI [of _ "[(b, x)]"]) (auto simp: off_ok_def at_rec_def)
  then have fin: "writes (State_Monad.return (fst (enc_record sec b) + 1, snd (enc_record sec b)))
      (\<lambda>strtab y. P strtab (b, x) \<longrightarrow> (\<lambda>(o', sec'). \<forall>ps. sec = recs (map fst ps) \<longrightarrow>
     (\<exists>qs. sec' = recs (map fst (ps @ qs)) \<and> off_ok (ps @ qs) o' v \<and> (\<forall>q\<in>set qs. P strtab q))) y)" for b
    by (intro writes_return) (auto simp: enc_record_enc_rec Some)
  show ?thesis
    using writes_bind [OF assms [OF Some] fin] by (simp add: opt_record_def Some)
qed

section \<open>Function records\<close>

text \<open>What the reader makes of a function: fields newer than the file's minor version are zero, an
  empty slice is nil, and the offsets are those of the file.\<close>

definition fn_read :: "u16 \<Rightarrow> func \<Rightarrow> u64 \<Rightarrow> u64 \<Rightarrow> u64 \<Rightarrow> func" where
  "fn_read minor fn po go io = fn\<lparr>fn_SysvPtrRegs := (if minor \<ge> 1 then fn_SysvPtrRegs fn else 0),
     fn_SptrSlots := (if minor \<ge> 2 then fn_SptrSlots fn else []),
     fn_PCValue := nil_slice (map_option (map table_read) (fn_PCValue fn)),
     fn_Inl := nil_slice (fn_Inl fn), fn_pcvOff := po, fn_gcOff := go, fn_inlOff := io\<rparr>"

lemma reads_all_more: "bs \<noteq> [] \<Longrightarrow> reads_all (f True) bs v \<Longrightarrow> reads_all (r_more \<bind> f) bs v"
  "reads_all (f False) [] v \<Longrightarrow> reads_all (r_more \<bind> f) [] v"
  by (simp_all add: reads_all_def r_more_def)

lemma reads_all_bind_return: "reads p bs v \<Longrightarrow> reads_all (f v) [] w \<Longrightarrow> reads_all (p \<bind> f) bs w"
  using reads_all_bind [of p bs v f "[]" w] by simp

lemma tail_fields_ok:
  assumes "minor \<ge> 2 \<Longrightarrow> length slots < 2 ^ 64"
  shows "reads_all (do { m1 \<leftarrow> r_more; regs \<leftarrow> (if m1 then r_uleb else State_Monad.return 0);
      m2 \<leftarrow> r_more; sl \<leftarrow> (if m2 then do { n \<leftarrow> r_uleb; r_loop (unat n) r_uleb [] } else State_Monad.return []);
      State_Monad.return (g regs sl) } :: (rstate, 'c) state)
    ((if minor \<ge> (1 :: u16) then enc_uleb regs else []) @
     (if minor \<ge> 2 then enc_count slots @ concat (map enc_uleb slots) else []))
    (g (if minor \<ge> 1 then regs else 0) (if minor \<ge> 2 then slots else []))"
proof -
  consider "minor \<ge> 2" | "minor \<ge> 1" "\<not> minor \<ge> 2" | "\<not> minor \<ge> 1" "\<not> minor \<ge> 2"
    by blast
  then show ?thesis
  proof cases
    case 1
    have cnt: "reads (do { n \<leftarrow> r_uleb; r_loop (unat n) r_uleb [] } :: (rstate, u64 list) state) (enc_count slots @ concat (map enc_uleb slots)) slots"
      unfolding enc_count_def using uleb.counted_enc [of slots] assms [OF 1] by simp
    have ne: "enc_count slots @ concat (map enc_uleb slots) \<noteq> []" by (simp add: enc_count_def)
    have fin: "reads_all (do { x \<leftarrow> r_uleb; sl \<leftarrow> r_loop (unat x) r_uleb []; State_Monad.return (g regs sl) } :: (rstate, 'c) state)
        (enc_count slots @ concat (map enc_uleb slots)) (g regs slots)"
      using reads_all_bind_return [OF cnt, of "\<lambda>sl. State_Monad.return (g regs sl)"] by (simp add: reads_all_return)
    have "minor \<ge> 1" using 1 by (simp add: word_le_nat_alt)
    with 1 show ?thesis
      using ne fin by (auto intro!: reads_all_more reads_all_bind [OF reads_uleb])
  next
    case 2
    then show ?thesis
      by (auto intro!: reads_all_more(1) reads_all_bind_return [OF reads_uleb] reads_all_more(2) reads_all_return)
  next
    case 3
    then show ?thesis by (auto intro!: reads_all_more(2) reads_all_return)
  qed
qed

lemma step_func_ok:
  assumes nm: "strref_ok strtab o' (fn_Name fn)" and sl: "minor \<ge> 2 \<Longrightarrow> length (fn_SptrSlots fn) < 2 ^ 64"
    and "deref po pcv = map_option (map table_read) (fn_PCValue fn)" "deref go gcs = fn_GC fn" "deref io inls = fn_Inl fn"
  shows "reads_all (step_func strtab pcv gcs inls off acc)
    (enc_uleb o' @ enc_uleb (fn_TextSize fn) @ enc_uleb (fn_FrameSize fn) @
       enc_uleb (fn_ArgSize fn) @ [fn_ABI fn] @ [fn_Kind fn] @ enc_uleb (fn_Flags fn) @ [fn_FuncID fn] @
       enc_uleb (fn_File fn) @ enc_uleb (fn_StartLine fn) @
       enc_uleb po @ enc_uleb go @ enc_uleb io @
       (if minor \<ge> 1 then enc_uleb (fn_SysvPtrRegs fn) else []) @
       (if minor \<ge> 2 then enc_count (fn_SptrSlots fn) @ concat (map enc_uleb (fn_SptrSlots fn)) else []))
    (Inr (acc @ [fn_read minor fn po go io]))"
proof -
  let ?g = "\<lambda>regs slots. Inr (acc @ [\<lparr>fn_Name = fn_Name fn, fn_TextSize = fn_TextSize fn, fn_FrameSize = fn_FrameSize fn,
       fn_ArgSize = fn_ArgSize fn, fn_ABI = fn_ABI fn, fn_Kind = fn_Kind fn, fn_Flags = fn_Flags fn, fn_FuncID = fn_FuncID fn,
       fn_File = fn_File fn, fn_StartLine = fn_StartLine fn, fn_SysvPtrRegs = regs, fn_SptrSlots = slots,
       fn_PCValue = nil_slice (deref po pcv), fn_Inl = nil_slice (deref io inls), fn_GC = deref go gcs,
       fn_pcvOff = po, fn_gcOff = go, fn_inlOff = io\<rparr>]) :: gerr + func list"
  have g: "?g (if minor \<ge> 1 then fn_SysvPtrRegs fn else 0) (if minor \<ge> 2 then fn_SptrSlots fn else []) =
      Inr (acc @ [fn_read minor fn po go io])"
    by (cases fn) (simp add: fn_read_def assms)
  show ?thesis
    unfolding step_func_def g [symmetric]
    by (intro reads_all_bind [OF reads_str [OF nm]] reads_all_bind [OF reads_uleb] reads_all_bind [OF reads_u8]
        tail_fields_ok [OF sl, where g = ?g])
qed

definition func_ok :: "byte list \<Rightarrow> u16 \<Rightarrow> (byte list \<times> pctable list) list \<Rightarrow> (byte list \<times> gcmap) list \<Rightarrow>
    (byte list \<times> inlnode list) list \<Rightarrow> byte list \<times> func \<Rightarrow> func \<Rightarrow> bool" where
  "func_ok strtab minor pcs gcs ils p fn \<longleftrightarrow> (\<exists>po go io. snd p = fn_read minor fn po go io \<and>
     off_ok pcs po (fn_PCValue fn) \<and> off_ok gcs go (fn_GC fn) \<and> off_ok ils io (fn_Inl fn) \<and>
     (length (fst p) < 2 ^ 64 \<longrightarrow> (\<forall>pcv gcm inls. deref po pcv = map_option (map table_read) (fn_PCValue fn) \<longrightarrow>
        deref go gcm = fn_GC fn \<longrightarrow> deref io inls = fn_Inl fn \<longrightarrow>
        payload_ok (step_func strtab pcv gcm inls) append_item p)))"

lemma func_ok_append:
  "func_ok strtab minor pcs gcs ils p fn \<Longrightarrow> func_ok strtab minor (pcs @ pcs') (gcs @ gcs') (ils @ ils') p fn"
  unfolding func_ok_def by (meson off_ok_append)

lemma writes_func:
  assumes "nul_free (fn_Name fn)"
  shows "writes (enc_func minor fn po go io) (\<lambda>strtab b. off_ok pcs po (fn_PCValue fn) \<longrightarrow> off_ok gcs go (fn_GC fn) \<longrightarrow>
    off_ok ils io (fn_Inl fn) \<longrightarrow>
    func_ok strtab minor pcs gcs ils (b, fn_read minor fn po go io) fn)"
  unfolding enc_func_def
proof (rule writes_bind [OF writes_intern [OF assms]], rule writes_return, intro impI)
  fix o' :: u64 and strtab
  let ?b = "enc_uleb o' @ enc_uleb (fn_TextSize fn) @ enc_uleb (fn_FrameSize fn) @
       enc_uleb (fn_ArgSize fn) @ [fn_ABI fn] @ [fn_Kind fn] @ enc_uleb (fn_Flags fn) @ [fn_FuncID fn] @
       enc_uleb (fn_File fn) @ enc_uleb (fn_StartLine fn) @
       enc_uleb po @ enc_uleb go @ enc_uleb io @
       (if minor \<ge> 1 then enc_uleb (fn_SysvPtrRegs fn) else []) @
       (if minor \<ge> 2 then enc_count (fn_SptrSlots fn) @ concat (map enc_uleb (fn_SptrSlots fn)) else [])"
  assume nm: "strref_ok strtab o' (fn_Name fn)" and offs: "off_ok pcs po (fn_PCValue fn)" "off_ok gcs go (fn_GC fn)"
    "off_ok ils io (fn_Inl fn)"
  have "length (fn_SptrSlots fn) < 2 ^ 64" if "minor \<ge> 2" "length ?b < 2 ^ 64"
    using that uleb.length_enc_list [of "fn_SptrSlots fn"] by (auto split: if_splits)
  then have "payload_ok (step_func strtab pcv gcm inls) append_item (?b, fn_read minor fn po go io)"
    if "length ?b < 2 ^ 64" "deref po pcv = map_option (map table_read) (fn_PCValue fn)" "deref go gcm = fn_GC fn"
      "deref io inls = fn_Inl fn" for pcv gcm inls
    unfolding payload_ok_def fst_conv snd_conv using that by (intro conjI allI step_func_ok [OF nm])
  then show "func_ok strtab minor pcs gcs ils (?b, fn_read minor fn po go io) fn"
    unfolding func_ok_def fst_conv snd_conv using offs by blast
qed

text \<open>The four sections of the function loop, as lists of payloads with what they encode.\<close>

definition funcs_ok :: "byte list \<Rightarrow> u16 \<Rightarrow> wsecs \<Rightarrow> func list \<Rightarrow> bool" where
  "funcs_ok strtab minor w fns \<longleftrightarrow> (\<exists>pcs gcs ils fps. w_pcv w = recs (map fst pcs) \<and> w_gcm w = recs (map fst gcs) \<and>
     w_inl w = recs (map fst ils) \<and> w_funcs w = recs (map fst fps) \<and>
     (\<forall>p\<in>set pcs. fst p = enc_pcv (snd p)) \<and> (\<forall>p\<in>set gcs. fst p = enc_gc (snd p) \<and> gc_fits (snd p)) \<and>
     (\<forall>p\<in>set ils. length (fst p) < 2 ^ 64 \<longrightarrow> payload_ok (step_inl strtab) put_map p) \<and>
     list_all2 (func_ok strtab minor pcs gcs ils) fps fns)"

definition fn_wf :: "func \<Rightarrow> bool" where
  "fn_wf fn \<longleftrightarrow> nul_free (fn_Name fn) \<and> pred_option gc_fits (fn_GC fn) \<and>
     pred_option (list_all (\<lambda>n. nul_free (in_Func n))) (fn_Inl fn)"

lemma funcs_ok_step:
  assumes "funcs_ok strtab minor w fns"
    and "\<forall>ps. w_pcv w = recs (map fst ps) \<longrightarrow> (\<exists>qs. pcv = recs (map fst (ps @ qs)) \<and> off_ok (ps @ qs) po (fn_PCValue fn) \<and>
       (\<forall>q\<in>set qs. fst q = enc_pcv (snd q)))"
    and "\<forall>ps. w_gcm w = recs (map fst ps) \<longrightarrow> (\<exists>qs. gcm = recs (map fst (ps @ qs)) \<and> off_ok (ps @ qs) go (fn_GC fn) \<and>
       (\<forall>q\<in>set qs. fst q = enc_gc (snd q) \<and> gc_fits (snd q)))"
    and "\<forall>ps. w_inl w = recs (map fst ps) \<longrightarrow> (\<exists>qs. inl = recs (map fst (ps @ qs)) \<and> off_ok (ps @ qs) io (fn_Inl fn) \<and>
       (\<forall>q\<in>set qs. length (fst q) < 2 ^ 64 \<longrightarrow> payload_ok (step_inl strtab) put_map q))"
    and b: "\<forall>pcs gcs ils. off_ok pcs po (fn_PCValue fn) \<longrightarrow> off_ok gcs go (fn_GC fn) \<longrightarrow> off_ok ils io (fn_Inl fn) \<longrightarrow>
       func_ok strtab minor pcs gcs ils (b, fn_read minor fn po go io) fn"
  shows "funcs_ok strtab minor \<lparr>w_funcs = snd (enc_record (w_funcs w) b), w_pcv = pcv, w_gcm = gcm, w_inl = inl\<rparr> (fns @ [fn])"
proof -
  obtain pcs gcs ils fps where w: "w_pcv w = recs (map fst pcs)" "w_gcm w = recs (map fst gcs)" "w_inl w = recs (map fst ils)"
      "w_funcs w = recs (map fst fps)" and oks: "\<forall>p\<in>set pcs. fst p = enc_pcv (snd p)" "\<forall>p\<in>set gcs. fst p = enc_gc (snd p) \<and> gc_fits (snd p)"
      "\<forall>p\<in>set ils. length (fst p) < 2 ^ 64 \<longrightarrow> payload_ok (step_inl strtab) put_map p"
      and fps: "list_all2 (func_ok strtab minor pcs gcs ils) fps fns"
    using assms(1) unfolding funcs_ok_def by blast
  obtain pcs' where p: "pcv = recs (map fst (pcs @ pcs'))" "off_ok (pcs @ pcs') po (fn_PCValue fn)" "\<forall>q\<in>set pcs'. fst q = enc_pcv (snd q)"
    using assms(2) w(1) by blast
  obtain gcs' where g: "gcm = recs (map fst (gcs @ gcs'))" "off_ok (gcs @ gcs') go (fn_GC fn)" "\<forall>q\<in>set gcs'. fst q = enc_gc (snd q) \<and> gc_fits (snd q)"
    using assms(3) w(2) by blast
  obtain ils' where i: "inl = recs (map fst (ils @ ils'))" "off_ok (ils @ ils') io (fn_Inl fn)"
      "\<forall>q\<in>set ils'. length (fst q) < 2 ^ 64 \<longrightarrow> payload_ok (step_inl strtab) put_map q"
    using assms(4) w(3) by blast
  have "list_all2 (func_ok strtab minor (pcs @ pcs') (gcs @ gcs') (ils @ ils')) (fps @ [(b, fn_read minor fn po go io)]) (fns @ [fn])"
    using fps b p(2) g(2) i(2) by (auto intro: list_all2_appendI list_all2_mono func_ok_append)
  moreover have "snd (enc_record (w_funcs w) b) = recs (map fst (fps @ [(b, fn_read minor fn po go io)]))"
    by (simp add: enc_record_enc_rec w)
  ultimately show ?thesis
    unfolding funcs_ok_def using oks p g i
    by (intro exI [of _ "pcs @ pcs'"] exI [of _ "gcs @ gcs'"] exI [of _ "ils @ ils'"] exI [of _ "fps @ [(b, fn_read minor fn po go io)]"]) auto
qed

lemma writes_all: "(\<And>a. writes m (\<lambda>strtab x. Q a strtab x)) \<Longrightarrow> writes m (\<lambda>strtab x. \<forall>a. Q a strtab x)"
  unfolding writes_def by metis

lemma writes_write_func:
  assumes "fn_wf fn"
  shows "writes (write_func minor fn w) (\<lambda>strtab w'. \<forall>fns. funcs_ok strtab minor w fns \<longrightarrow> funcs_ok strtab minor w' (fns @ [fn]))"
  unfolding write_func_def
proof (rule writes_bind [OF writes_opt_record [where P = "\<lambda>_ q. fst q = enc_pcv (snd q)"]], goal_cases)
  case 1
  then show ?case by (simp add: writes_return)
next
  case (2 p)
  show ?case
    unfolding case_prod_unfold
  proof (rule writes_bind [OF writes_opt_record [where P = "\<lambda>_ q. fst q = enc_gc (snd q) \<and> gc_fits (snd q)"]], goal_cases)
    case 1
    then show ?case using assms by (simp add: writes_return fn_wf_def)
  next
    case (2 g)
    show ?case
      unfolding case_prod_unfold
    proof (rule writes_bind [OF writes_opt_record [where P = "\<lambda>strtab q. length (fst q) < 2 ^ 64 \<longrightarrow> payload_ok (step_inl strtab) put_map q"]], goal_cases)
      case (1 ns)
      then show ?case using assms writes_inl [of ns] by (simp add: fn_wf_def list_all_iff)
    next
      case (2 i)
      have nm: "nul_free (fn_Name fn)" using assms by (simp add: fn_wf_def)
      show ?case
        unfolding case_prod_unfold
        by (rule writes_bind [OF writes_all [OF writes_all [OF writes_all [OF writes_func [OF nm]]]]], rule writes_return, intro impI allI)
           (erule (4) funcs_ok_step [rotated 4, rotated 1])
    qed
  qed
qed

lemma writes_write_funcs:
  assumes "\<forall>fn\<in>set fns. fn_wf fn"
  shows "writes (write_funcs minor fns w) (\<lambda>strtab w'. \<forall>done. funcs_ok strtab minor w done \<longrightarrow> funcs_ok strtab minor w' (done @ fns))"
  using assms
proof (induction fns arbitrary: w)
  case Nil
  then show ?case by (simp add: writes_return)
next
  case (Cons fn fns)
  have fn: "fn_wf fn" and fns: "\<forall>fn\<in>set fns. fn_wf fn" using Cons.prems by simp_all
  show ?case
    unfolding write_funcs.simps
    by (rule writes_bind [OF writes_write_func [OF fn]], rule writes_mono [OF Cons.IH [OF fns]]) fastforce
qed

section \<open>Whole sections\<close>

lemma writes_enc_records:
  assumes "\<And>x. x \<in> set xs \<Longrightarrow> writes (f x) (\<lambda>strtab b. Q strtab b x)"
  shows "writes (enc_records f xs) (\<lambda>strtab s. \<exists>bs. s = recs bs \<and> list_all2 (Q strtab) bs xs)"
  unfolding enc_records_def
  by (rule writes_bind [OF writes_traverse [OF assms]], assumption, rule writes_return) (auto simp: foldl_enc_record)

lemma list_all2_zip_ball: "list_all2 P bs xs \<Longrightarrow> p \<in> set (zip bs xs) \<Longrightarrow> P (fst p) (snd p)"
  by (auto simp: list_all2_iff)

lemma list_all2_in1: "list_all2 P xs ys \<Longrightarrow> x \<in> set xs \<Longrightarrow> \<exists>y. P x y"
  by (induction rule: list_all2_induct) auto

lemma section_reads:
  assumes "list_all2 (\<lambda>b x. length b < 2 ^ 64 \<longrightarrow> payload_ok step append_item (b, x)) bs xs" "length (recs bs) < 2 ^ 64"
  shows "records nm step (recs bs) 0 [] se = (Inr xs, se)"
proof -
  have len: "length bs = length xs" using assms(1) by (rule list_all2_lengthD)
  have "payload_ok step append_item p" if "p \<in> set (zip bs xs)" for p
  proof -
    have "fst p \<in> set bs" using that set_zip_leftD [of "fst p" "snd p"] by simp
    then have "length (fst p) < 2 ^ 64" using length_recs assms(2) by fastforce
    then show ?thesis using list_all2_zip_ball [OF assms(1) that] by simp
  qed
  then show ?thesis using records_append [of "zip bs xs" step nm 0 "[]" se] len by simp
qed

lemma funcs_read:
  assumes ok: "funcs_ok strtab minor w fns"
    and len: "length (w_pcv w) < 2 ^ 64" "length (w_gcm w) < 2 ^ 64" "length (w_inl w) < 2 ^ 64" "length (w_funcs w) < 2 ^ 64"
  shows "\<exists>pcv gcs inls out. (\<forall>se. records SecPCValue step_pcv (w_pcv w) 0 (\<lambda>_. False, Map.empty) se = (Inr pcv, se)) \<and>
    (\<forall>se. records SecGCMaps step_gc (w_gcm w) 0 (\<lambda>_. False, Map.empty) se = (Inr gcs, se)) \<and>
    (\<forall>se. records SecInlTree (step_inl strtab) (w_inl w) 0 Map.empty se = (Inr inls, se)) \<and>
    (\<forall>se. records SecFuncs (step_func strtab (snd pcv) (snd gcs) inls) (w_funcs w) 0 [] se = (Inr out, se)) \<and>
    list_all2 (\<lambda>r fn. \<exists>po go io. r = fn_read minor fn po go io) out fns"
proof -
  obtain pcs gcs ils fps where w: "w_pcv w = recs (map fst pcs)" "w_gcm w = recs (map fst gcs)" "w_inl w = recs (map fst ils)"
      "w_funcs w = recs (map fst fps)" and oks: "\<forall>p\<in>set pcs. fst p = enc_pcv (snd p)" "\<forall>p\<in>set gcs. fst p = enc_gc (snd p) \<and> gc_fits (snd p)"
      "\<forall>p\<in>set ils. length (fst p) < 2 ^ 64 \<longrightarrow> payload_ok (step_inl strtab) put_map p"
      and fps: "list_all2 (func_ok strtab minor pcs gcs ils) fps fns"
    using ok unfolding funcs_ok_def by blast
  have small: "length (fst p) < 2 ^ 64" if "p \<in> set ps" "length (recs (map fst ps)) < 2 ^ 64" for p :: "byte list \<times> 'q" and ps
    using that length_recs [of "fst p" "map fst ps"] by simp
  let ?pcv = "sec.collect_all (put_at (map table_read)) 0 (\<lambda>_. False, Map.empty) pcs"
  let ?gcs = "sec.collect_all (put_at id) 0 (\<lambda>_. False, Map.empty) gcs"
  let ?inls = "sec.collect_all put_map 0 Map.empty ils"
  have pok: "\<forall>p\<in>set pcs. payload_ok step_pcv (put_at (map table_read)) p"
    using pcv_ok oks(1) len(1) small [of _ pcs] by (metis prod.collapse w(1))
  have gok: "\<forall>p\<in>set gcs. payload_ok step_gc (put_at id) p"
    using gc_ok oks(2) len(2) small [of _ gcs] by (metis prod.collapse w(2))
  have iok: "\<forall>p\<in>set ils. payload_ok (step_inl strtab) put_map p"
    using oks(3) len(3) small [of _ ils] by (metis w(3))
  have p: "records SecPCValue step_pcv (w_pcv w) 0 (\<lambda>_. False, Map.empty) se = (Inr ?pcv, se)" for se
    using sec.records_all [OF pok] unfolding w recs_def map_map comp_def .
  have g: "records SecGCMaps step_gc (w_gcm w) 0 (\<lambda>_. False, Map.empty) se = (Inr ?gcs, se)" for se
    using sec.records_all [OF gok] unfolding w recs_def map_map comp_def .
  have i: "records SecInlTree (step_inl strtab) (w_inl w) 0 Map.empty se = (Inr ?inls, se)" for se
    using sec.records_all [OF iok] unfolding w recs_def map_map comp_def .
  have "payload_ok (step_func strtab (snd ?pcv) (snd ?gcs) ?inls) append_item f"
    if mem: "f \<in> set fps" for f
  proof -
    obtain fn where "func_ok strtab minor pcs gcs ils f fn"
      using list_all2_in1 [OF fps mem] by blast
    then obtain po go io where offs: "off_ok pcs po (fn_PCValue fn)" "off_ok gcs go (fn_GC fn)" "off_ok ils io (fn_Inl fn)"
      and pay: "length (fst f) < 2 ^ 64 \<Longrightarrow> deref po (snd ?pcv) = map_option (map table_read) (fn_PCValue fn) \<Longrightarrow>
        deref go (snd ?gcs) = fn_GC fn \<Longrightarrow> deref io ?inls = fn_Inl fn \<Longrightarrow> ?thesis"
      unfolding func_ok_def by blast
    show ?thesis
      using deref_collect_at [OF offs(1)] deref_collect_at [OF offs(2), of id] deref_collect [OF offs(3)] len small [OF mem]
      by (intro pay) (simp_all add: w option.map_id)
  qed
  then have f: "records SecFuncs (step_func strtab (snd ?pcv) (snd ?gcs) ?inls) (w_funcs w) 0 [] se = (Inr (map snd fps), se)" for se
    using records_append [of fps _ SecFuncs 0 "[]" se] by (simp add: w)
  have "list_all2 (\<lambda>r fn. \<exists>po go io. r = fn_read minor fn po go io) (map snd fps) fns"
    using fps unfolding list_all2_map1 by (rule list_all2_mono) (auto simp: func_ok_def)
  then show ?thesis using p g i f by blast
qed

section \<open>Reading a whole file back\<close>

lemma writes_header:
  assumes "nul_free (h_Profile h)" "nul_free (h_Producer h)"
  shows "writes (enc_header h) (\<lambda>strtab b. length strtab < 2 ^ 32 \<longrightarrow>
    28 \<le> length b \<and> take 8 b = Magic \<and> un_le16 (drop 8 b) = Major \<and> parse_header b strtab = (h\<lparr>h_Major := Major\<rparr>, None))"
  unfolding enc_header_def
proof (rule writes_bind [OF writes_intern [OF assms(1)]], rule writes_bind [OF writes_intern [OF assms(2)]], rule writes_return, intro impI)
  fix p q :: u64 and strtab
  let ?b = "Magic @ le16 Major @ le16 (h_Minor h) @ [h_Arch h, h_Flags h, 0, 0] @ le32 (ucast p) @ le32 (ucast q) @ [0, 0, 0, 0]"
  assume p: "strref_ok strtab p (h_Profile h)" and q: "strref_ok strtab q (h_Producer h)" and s: "length strtab < 2 ^ 32"
  have m: "length Magic = 8" by (simp add: Magic_def)
  have u: "ucast (ucast x :: u32) = x" if "unat x < length strtab" for x :: u64
    using that s by (simp add: word_unat_eq_iff unsigned_ucast_eq take_bit_eq_mod unat_mod)
  have d: "drop 8 ?b = le16 Major @ le16 (h_Minor h) @ [h_Arch h, h_Flags h, 0, 0] @ le32 (ucast p) @ le32 (ucast q) @ [0, 0, 0, 0]"
    "drop 10 ?b = le16 (h_Minor h) @ [h_Arch h, h_Flags h, 0, 0] @ le32 (ucast p) @ le32 (ucast q) @ [0, 0, 0, 0]"
    "drop 16 ?b = le32 (ucast p) @ le32 (ucast q) @ [0, 0, 0, 0]" "drop 20 ?b = le32 (ucast q) @ [0, 0, 0, 0]"
    "?b ! 12 = h_Arch h" "?b ! 13 = h_Flags h"
    by (simp_all add: m nth_append)
  have "parse_header ?b strtab = (h\<lparr>h_Major := Major\<rparr>, None)"
    unfolding parse_header_def d un_le16_le16 un_le32_le32
    using p q u [of p] u [of q] by (auto simp: strref_ok_def intro: header.equality)
  then show "28 \<le> length ?b \<and> take 8 ?b = Magic \<and> un_le16 (drop 8 ?b) = Major \<and> parse_header ?b strtab = (h\<lparr>h_Major := Major\<rparr>, None)"
    unfolding d un_le16_le16 by (simp add: m)
qed

text \<open>A builder that the format can carry: no NUL inside a string, bitmaps of the declared length.\<close>

definition builder_wf :: "builder \<Rightarrow> bool" where
  "builder_wf bd \<longleftrightarrow> nul_free (h_Profile (bd_Header bd)) \<and> nul_free (h_Producer (bd_Header bd)) \<and>
     list_all nul_free (bd_Files bd) \<and> list_all fn_wf (bd_Funcs bd) \<and>
     list_all (\<lambda>r. nul_free (rl_Func r) \<and> nul_free (rl_Target r)) (bd_Relocs bd) \<and>
     list_all (\<lambda>s. nul_free (sm_Func s)) (bd_Stackmaps bd) \<and>
     list_all (\<lambda>d. nul_free (da_Name d) \<and> length (da_Bitmap d) = unat ((da_NBits d + 7) div 8)) (bd_Data bd)"

lemma writes_sections:
  assumes "builder_wf bd"
  shows "writes (write_sections bd) (\<lambda>strtab out. \<exists>h files w relocs stackmaps data.
     out = (SecHeader, h) # nonempty_sec SecFiles (recs files) @ nonempty_sec SecFuncs (w_funcs w) @
       nonempty_sec SecRelocs (recs relocs) @ nonempty_sec SecStackmaps (recs stackmaps) @ nonempty_sec SecPCValue (w_pcv w) @
       nonempty_sec SecGCMaps (w_gcm w) @ nonempty_sec SecData (recs data) @ nonempty_sec SecInlTree (w_inl w) \<and>
     (length strtab < 2 ^ 32 \<longrightarrow> 28 \<le> length h \<and> take 8 h = Magic \<and> un_le16 (drop 8 h) = Major \<and>
        parse_header h strtab = ((bd_Header bd)\<lparr>h_Major := Major\<rparr>, None)) \<and>
     list_all2 (\<lambda>b x. length b < 2 ^ 64 \<longrightarrow> payload_ok (step_file strtab) append_item (b, x)) files (bd_Files bd) \<and>
     funcs_ok strtab (h_Minor (bd_Header bd)) w (bd_Funcs bd) \<and>
     list_all2 (\<lambda>b x. length b < 2 ^ 64 \<longrightarrow> payload_ok (step_reloc strtab) append_item (b, x)) relocs (bd_Relocs bd) \<and>
     list_all2 (\<lambda>b x. length b < 2 ^ 64 \<longrightarrow> payload_ok (step_stackmap strtab) append_item (b, x)) stackmaps (bd_Stackmaps bd) \<and>
     list_all2 (\<lambda>b x. length b < 2 ^ 64 \<longrightarrow> payload_ok (step_data strtab) append_item (b, x)) data (bd_Data bd))"
proof -
  note wf = assms [unfolded builder_wf_def list_all_iff]
  have ini: "funcs_ok strtab m \<lparr>w_funcs = [], w_pcv = [], w_gcm = [], w_inl = []\<rparr> []" for strtab m
    unfolding funcs_ok_def by (intro exI [of _ "[]"]) simp
  have h: "nul_free (h_Profile (bd_Header bd))" "nul_free (h_Producer (bd_Header bd))" and fns: "\<forall>fn\<in>set (bd_Funcs bd). fn_wf fn"
    using wf by simp_all
  have fw: "writes (write_funcs m (bd_Funcs bd) \<lparr>w_funcs = [], w_pcv = [], w_gcm = [], w_inl = []\<rparr>)
      (\<lambda>strtab w'. funcs_ok strtab m w' (bd_Funcs bd))" for m
    using ini by (intro writes_mono [OF writes_write_funcs [OF fns]]) fastforce
  show ?thesis
    unfolding write_sections_def
    apply (rule writes_bind [OF writes_header [OF h]])
    apply (rule writes_bind [OF writes_enc_records [OF writes_file]], use wf in simp)
    apply (rule writes_bind [OF fw])
    apply (rule writes_bind [OF writes_enc_records [OF writes_reloc]], use wf in simp, use wf in simp)
    apply (rule writes_bind [OF writes_enc_records [OF writes_stackmap]], use wf in simp)
    apply (rule writes_bind [OF writes_enc_records [OF writes_data]], use wf in simp, use wf in simp)
    apply (rule writes_return)
    apply (intro impI, elim exE conjE, hypsubst)
    apply ((rule exI)+, intro conjI, rule refl)
         apply assumption+
    done
qed

text \<open>An ELF object that carries the builder's sections under the \<open>.goc\<close> names.\<close>

definition goc_sections :: "string list" where
  "goc_sections = [SecHeader, SecStrtab, SecFiles, SecFuncs, SecRelocs, SecStackmaps, SecWrappers,
     SecPCValue, SecGCMaps, SecData, SecInlTree]"

definition carries :: "elf_file \<Rightarrow> (string \<times> byte list) list \<Rightarrow> bool" where
  "carries ef secs \<longleftrightarrow> (\<forall>nm\<in>set goc_sections.
     (case elf_Section ef nm of None \<Rightarrow> None | Some s \<Rightarrow> es_Data s) = map_of secs nm \<and>
     (elf_Section ef nm = None \<longleftrightarrow> map_of secs nm = None))"

definition sections_fit :: "(string \<times> byte list) list \<Rightarrow> bool" where
  "sections_fit secs \<longleftrightarrow> (\<forall>(nm, d)\<in>set secs. length d < (if nm = SecStrtab then 2 ^ 32 else 2 ^ 64))"

lemma sec_bytes_carries: "carries ef secs \<Longrightarrow> nm \<in> set goc_sections \<Longrightarrow>
    sec_bytes ef nm = (case map_of secs nm of None \<Rightarrow> [] | Some d \<Rightarrow> d)"
  by (auto simp: carries_def sec_bytes_def split: option.splits)

lemma carries_Some: "carries ef secs \<Longrightarrow> nm \<in> set goc_sections \<Longrightarrow> map_of secs nm = Some d \<Longrightarrow>
    \<exists>s. elf_Section ef nm = Some s \<and> es_Data s = Some d"
  unfolding carries_def by (cases "elf_Section ef nm") (drule (1) bspec, simp)+

lemma map_of_nonempty: "map_of (nonempty_sec n b @ xs) m = (if m = n \<and> b \<noteq> [] then Some b else map_of xs m)"
  by (simp add: nonempty_sec_def)

lemma itab0_ok: "it_ok itab0"
  by (auto simp: it_ok_def itab0_def resolves_def bytes_of_def split: if_splits intro!: exI [of _ "[]"])

lemma sec_bytes_fit:
  assumes "carries ef secs" "sections_fit secs" "nm \<in> set goc_sections"
  shows "length (sec_bytes ef nm) < 2 ^ 64"
proof (cases "map_of secs nm")
  case None
  then show ?thesis by (simp add: sec_bytes_carries [OF assms(1,3)])
next
  case (Some d)
  then have "length d < (if nm = SecStrtab then 2 ^ 32 else 2 ^ 64)"
    using assms(2) by (fastforce simp only: sections_fit_def dest!: map_of_SomeD)
  then show ?thesis using Some by (simp add: sec_bytes_carries [OF assms(1,3)] split: if_splits)
qed

lemma records_nil [simp]: "records nm step [] off acc se = (Inr acc, se)"
  by (simp add: records.simps)

lemma Parse_written:
  assumes wf: "builder_wf bd" and fit: "sections_fit (Sections bd)" and ef: "carries ef (Sections bd)"
    and syms: "symbols_of ef = Inr syms" and tab: "add_symbols (ef_Sections ef) syms (Map.empty, Map.empty) = Some (symm, text)"
  shows "\<exists>f. Parse ef = Inr f \<and> gf_Header f = (bd_Header bd)\<lparr>h_Major := Major\<rparr> \<and> gf_Files f = bd_Files bd \<and>
    list_all2 (\<lambda>r fn. \<exists>po go io. r = fn_read (h_Minor (bd_Header bd)) fn po go io) (gf_Funcs f) (bd_Funcs bd) \<and>
    gf_Relocs f = bd_Relocs bd \<and> gf_Stackmaps f = bd_Stackmaps bd \<and> gf_Data f = bd_Data bd \<and>
    gf_Wrappers f = [] \<and> gf_Symbols f = symm \<and> gf_Text f = text \<and> gf_ELFRelocs f = elfCallRelocs ef syms"
proof -
  obtain out t where run: "run_state (write_sections bd) itab0 = (out, t)" by (cases "run_state (write_sections bd) itab0")
  let ?str = "it_strs t"
  have secs: "Sections bd = out @ [(SecStrtab, ?str)]" by (simp add: Sections_def run)
  have str: "length ?str < 2 ^ 32" using fit by (auto simp: secs sections_fit_def)
  then have "length ?str < 2 ^ 64" by simp
  with writesD [OF writes_sections [OF wf] run itab0_ok] str
  obtain h files w relocs stackmaps data where
    out: "out = (SecHeader, h) # nonempty_sec SecFiles (recs files) @ nonempty_sec SecFuncs (w_funcs w) @
       nonempty_sec SecRelocs (recs relocs) @ nonempty_sec SecStackmaps (recs stackmaps) @ nonempty_sec SecPCValue (w_pcv w) @
       nonempty_sec SecGCMaps (w_gcm w) @ nonempty_sec SecData (recs data) @ nonempty_sec SecInlTree (w_inl w)"
    and h: "28 \<le> length h" "take 8 h = Magic" "un_le16 (drop 8 h) = Major" "parse_header h ?str = ((bd_Header bd)\<lparr>h_Major := Major\<rparr>, None)"
    and fs: "list_all2 (\<lambda>b x. length b < 2 ^ 64 \<longrightarrow> payload_ok (step_file ?str) append_item (b, x)) files (bd_Files bd)"
    and fn: "funcs_ok ?str (h_Minor (bd_Header bd)) w (bd_Funcs bd)"
    and rl: "list_all2 (\<lambda>b x. length b < 2 ^ 64 \<longrightarrow> payload_ok (step_reloc ?str) append_item (b, x)) relocs (bd_Relocs bd)"
    and sm: "list_all2 (\<lambda>b x. length b < 2 ^ 64 \<longrightarrow> payload_ok (step_stackmap ?str) append_item (b, x)) stackmaps (bd_Stackmaps bd)"
    and da: "list_all2 (\<lambda>b x. length b < 2 ^ 64 \<longrightarrow> payload_ok (step_data ?str) append_item (b, x)) data (bd_Data bd)"
    by auto
  note secs' = secs [unfolded out append_Cons append_assoc]
  have look: "map_of (Sections bd) SecHeader = Some h" "map_of (Sections bd) SecStrtab = Some ?str" "map_of (Sections bd) SecWrappers = None"
    by (simp_all add: secs' map_of_nonempty del: map_of_append)
  have bytes: "sec_bytes ef SecFiles = recs files" "sec_bytes ef SecPCValue = w_pcv w" "sec_bytes ef SecGCMaps = w_gcm w"
    "sec_bytes ef SecInlTree = w_inl w" "sec_bytes ef SecFuncs = w_funcs w" "sec_bytes ef SecStackmaps = recs stackmaps"
    "sec_bytes ef SecWrappers = []" "sec_bytes ef SecRelocs = recs relocs" "sec_bytes ef SecData = recs data"
    by (simp_all add: sec_bytes_carries [OF ef] goc_sections_def secs' map_of_nonempty del: map_of_append)
  note fits = sec_bytes_fit [OF ef fit]
  have small: "length (recs files) < 2 ^ 64" "length (w_pcv w) < 2 ^ 64" "length (w_gcm w) < 2 ^ 64" "length (w_inl w) < 2 ^ 64"
    "length (w_funcs w) < 2 ^ 64" "length (recs stackmaps) < 2 ^ 64" "length (recs relocs) < 2 ^ 64" "length (recs data) < 2 ^ 64"
    using fits [of SecFiles] fits [of SecPCValue] fits [of SecGCMaps] fits [of SecInlTree] fits [of SecFuncs]
      fits [of SecStackmaps] fits [of SecRelocs] fits [of SecData] by (simp_all add: goc_sections_def bytes)
  have hd: "header_bytes ef = Inr h" "strtab_bytes ef = Inr ?str"
    using carries_Some [OF ef _ look(1)] carries_Some [OF ef _ look(2)] h
    by (auto simp: goc_sections_def header_bytes_def strtab_bytes_def)
  obtain pcv gcs inls fns where f4: "\<forall>se. records SecPCValue step_pcv (w_pcv w) 0 (\<lambda>_. False, Map.empty) se = (Inr pcv, se)"
    "\<forall>se. records SecGCMaps step_gc (w_gcm w) 0 (\<lambda>_. False, Map.empty) se = (Inr gcs, se)"
    "\<forall>se. records SecInlTree (step_inl ?str) (w_inl w) 0 Map.empty se = (Inr inls, se)"
    "\<forall>se. records SecFuncs (step_func ?str (snd pcv) (snd gcs) inls) (w_funcs w) 0 [] se = (Inr fns, se)"
    and fns: "list_all2 (\<lambda>r fn. \<exists>po go io. r = fn_read (h_Minor (bd_Header bd)) fn po go io) fns (bd_Funcs bd)"
    using funcs_read [OF fn] small by blast
  note runs = section_reads [OF fs small(1)] section_reads [OF rl small(7)] section_reads [OF sm small(6)] section_reads [OF da small(8)]
  have "Parse ef = Inr ((empty_file ((bd_Header bd)\<lparr>h_Major := Major\<rparr>))\<lparr>gf_Symbols := symm, gf_Text := text,
      gf_ELFRelocs := elfCallRelocs ef syms, gf_Files := bd_Files bd, gf_Funcs := fns, gf_Relocs := bd_Relocs bd,
      gf_Stackmaps := bd_Stackmaps bd, gf_Wrappers := [], gf_Data := bd_Data bd, gf_pcvStarts := fst pcv, gf_gcStarts := fst gcs\<rparr>)"
    by (simp add: Parse_def hd syms tab h parse_tables_def parse_section_def bytes runs f4)
  then show ?thesis using fns by (simp add: empty_file_def)
qed

text \<open>The object file around the sections, as the assembler makes it from \<open>WriteAsm\<close>'s output.\<close>

definition elf_of :: "(string \<times> byte list) list \<Rightarrow> elf_file" where
  "elf_of secs = \<lparr>ef_Machine = EM_X86_64, ef_Sections = map (\<lambda>(n, d). \<lparr>es_Name = n, es_Type = SHT_PROGBITS, es_Flags = 0,
     es_Size = word_of_nat (length d), es_Data = Some d\<rparr>) secs, ef_Symtab = ErrNoSymbols\<rparr>"

lemma elf_of_carries: "carries (elf_of secs) secs"
proof -
  have "elf_Section (elf_of secs) nm = map_option (\<lambda>d. \<lparr>es_Name = nm, es_Type = SHT_PROGBITS, es_Flags = 0,
      es_Size = word_of_nat (length d), es_Data = Some d\<rparr>) (map_of secs nm)" for nm
    unfolding elf_Section_def elf_of_def by (induction secs) auto
  then show ?thesis by (auto simp: carries_def split: option.splits)
qed

definition demo_fn :: func where
  "demo_fn = \<lparr>fn_Name = ''f'', fn_TextSize = 300, fn_FrameSize = 16, fn_ArgSize = 8, fn_ABI = 0, fn_Kind = 1, fn_Flags = 1,
     fn_FuncID = 0, fn_File = 0, fn_StartLine = 3, fn_SysvPtrRegs = 5, fn_SptrSlots = [8],
     fn_PCValue = Some [\<lparr>pt_Kind = PCSPDelta, pt_Entries = [\<lparr>pc_PC = 0, pc_Value = 0\<rparr>, \<lparr>pc_PC = 4, pc_Value = 200\<rparr>]\<rparr>],
     fn_Inl = None, fn_GC = Some \<lparr>gc_NArgs = 1, gc_NLocals = 0, gc_Safepoints = [\<lparr>sp_PC = 9, sp_Args = [1], sp_Locals = [], sp_Color = []\<rparr>]\<rparr>,
     fn_pcvOff = 0, fn_gcOff = 0, fn_inlOff = 0\<rparr>"

definition demo_builder :: builder where
  "demo_builder = \<lparr>bd_Header = \<lparr>h_Major = 1, h_Minor = 4, h_Arch = 1, h_Flags = 0, h_Profile = ''goabi1-amd64'', h_Producer = ''t''\<rparr>,
     bd_Files = [''a.c''], bd_Funcs = [demo_fn],
     bd_Relocs = [\<lparr>rl_Func = ''f'', rl_Offset = 5, rl_Width = 4, rl_Kind = 1, rl_Target = ''g'', rl_Addend = - 4, rl_Flags = 0\<rparr>],
     bd_Stackmaps = [], bd_Data = []\<rparr>"

lemma demo_wf: "builder_wf demo_builder"
  by (simp add: builder_wf_def demo_builder_def demo_fn_def fn_wf_def gc_fits_def nul_free_def bytes_of_def byte_of_char_def)

lemma sections_fit_lengths: "sections_fit secs \<longleftrightarrow>
    list_all (\<lambda>(nm, n). n < (if nm = SecStrtab then 2 ^ 32 else 2 ^ 64)) (map (map_prod id length) secs)"
  by (auto simp: sections_fit_def list_all_iff)

lemma demo_lengths: "map (map_prod id length) (Sections demo_builder) =
   [(SecHeader, 28), (SecFiles, 2), (SecFuncs, 18), (SecRelocs, 8), (SecPCValue, 9), (SecGCMaps, 7), (SecStrtab, 24)]"
  by code_simp

lemma demo_fit: "sections_fit (Sections demo_builder)"
  unfolding sections_fit_lengths demo_lengths by simp

text \<open>C1: Reading back what the builder writes. For every builder whose strings have no NUL byte and
  whose bitmaps have the declared length, and every object file that carries the builder's
  sections, \<open>Parse\<close> succeeds and returns the header, the files, every function (with its pc-value
  tables, GC map and inline tree resolved through the offsets in its record), the relocations, the
  stack maps and the data records that were written.\<close>

theorem Parse_Sections:
  assumes "builder_wf bd" and "sections_fit (Sections bd)" and "carries ef (Sections bd)"
    and "symbols_of ef = Inr syms" and "add_symbols (ef_Sections ef) syms (Map.empty, Map.empty) = Some (symm, text)"
  shows "\<exists>f. Parse ef = Inr f \<and> gf_Header f = (bd_Header bd)\<lparr>h_Major := Major\<rparr> \<and> gf_Files f = bd_Files bd \<and>
    list_all2 (\<lambda>r fn. \<exists>po go io. r = fn_read (h_Minor (bd_Header bd)) fn po go io) (gf_Funcs f) (bd_Funcs bd) \<and>
    gf_Relocs f = bd_Relocs bd \<and> gf_Stackmaps f = bd_Stackmaps bd \<and> gf_Data f = bd_Data bd \<and>
    gf_Wrappers f = [] \<and> gf_Symbols f = symm \<and> gf_Text f = text \<and> gf_ELFRelocs f = elfCallRelocs ef syms"
  by (rule Parse_written [OF assms])

theorem Parse_Sections_witness: "\<exists>f. Parse (elf_of (Sections demo_builder)) = Inr f \<and> gf_Files f = [''a.c''] \<and>
    gf_Relocs f = [\<lparr>rl_Func = ''f'', rl_Offset = 5, rl_Width = 4, rl_Kind = 1, rl_Target = ''g'', rl_Addend = - 4, rl_Flags = 0\<rparr>] \<and>
    map fn_GC (gf_Funcs f) = [fn_GC demo_fn] \<and> map fn_PCValue (gf_Funcs f) = [fn_PCValue demo_fn]"
proof -
  have "symbols_of (elf_of (Sections demo_builder)) = Inr []" by (simp add: symbols_of_def elf_of_def)
  moreover have "add_symbols (ef_Sections (elf_of (Sections demo_builder))) [] (Map.empty, Map.empty) = Some (Map.empty, Map.empty)"
    by simp
  ultimately obtain f where "Parse (elf_of (Sections demo_builder)) = Inr f" "gf_Files f = bd_Files demo_builder"
    "list_all2 (\<lambda>r fn. \<exists>po go io. r = fn_read (h_Minor (bd_Header demo_builder)) fn po go io) (gf_Funcs f) (bd_Funcs demo_builder)"
    "gf_Relocs f = bd_Relocs demo_builder"
    using Parse_Sections [OF demo_wf demo_fit elf_of_carries] by blast
  then show ?thesis
    by (intro exI [of _ f]) (auto simp: demo_builder_def demo_fn_def list_all2_Cons2 fn_read_def table_read_def nil_slice_def add_row_def lineKind_def)
qed

text \<open>C7: Signed LEB128 integers round-trip. Whatever follows it, the encoding of a 64-bit value is
  read back as that value with no error, and exactly its bytes are consumed; the ten-byte
  encodings of the extreme values included.\<close>

theorem sleb_roundtrip: "run_state r_sleb \<lparr>b_b = enc_sleb v @ rest, b_err = None\<rparr> = (v, \<lparr>b_b = rest, b_err = None\<rparr>)"
  by (simp add: readsD [OF reads_sleb])

text \<open>C8: Unsigned LEB128 integers round-trip, for every 64-bit value and whatever follows.\<close>

theorem uleb_roundtrip: "run_state r_uleb \<lparr>b_b = enc_uleb v @ rest, b_err = None\<rparr> = (v, \<lparr>b_b = rest, b_err = None\<rparr>)"
  by (simp add: readsD [OF reads_uleb])

end
