(* ===== verification/Gocobj_Verify.thy ===== *)
theory Gocobj_Verify
  imports Gocobj_Read
begin

text \<open>
  \<open>internal/gocobj/verify.go\<close>: \<open>Verify\<close> returns every violation of the format's invariants. The
  list of errors is a list of values, in the order in which the source appends them; \<open>valid\<close> says what the
  code checks, as a predicate. What the format document requires is in \<open>Gocobj_Doc\<close>.
\<close>

section \<open>Verify\<close>

text \<open>An error is the call \<open>fmt.Errorf(format, a...)\<close> that makes it: the format string of the source
  and its arguments.\<close>

datatype varg = ArgS string | ArgU nat | ArgI int

datatype verr = Errorf string "varg list"

text \<open>\<open>if c { bad(e) }\<close>\<close>

definition bad_if :: "bool \<Rightarrow> verr \<Rightarrow> verr list" where
  "bad_if c e = (if c then [e] else [])"

lemma bad_if_nil [simp]: "bad_if c e = [] \<longleftrightarrow> \<not> c"
  by (simp add: bad_if_def)

definition arch_name :: "u8 \<Rightarrow> string" where
  "arch_name a = (if a = ArchAMD64 then ''amd64'' else if a = ArchARM64 then ''arm64'' else [])"

definition verify_header :: "header \<Rightarrow> verr list" where
  "verify_header h =
     bad_if (LookupProfile (h_Profile h) = None) (Errorf ''header: unknown ABI profile %q'' [ArgS (h_Profile h)]) @
     (if arch_name (h_Arch h) = [] then [Errorf ''header: unknown arch %d'' [ArgU (unat (h_Arch h))]]
      else case LookupProfile (h_Profile h) of
          None \<Rightarrow> []
        | Some p \<Rightarrow> bad_if (pr_Arch p \<noteq> arch_name (h_Arch h)) (Errorf ''header: arch %s does not match profile %s'' [ArgS (arch_name (h_Arch h)), ArgS (pr_Name p)]))"

definition verify_ptr :: "header \<Rightarrow> u64" where
  "verify_ptr h = (case LookupProfile (h_Profile h) of None \<Rightarrow> 8 | Some p \<Rightarrow> word_of_nat (pr_PtrSize p))"

definition verify_sym :: "gfile \<Rightarrow> string \<Rightarrow> string \<Rightarrow> verr list" where
  "verify_sym f w nm =
     (if nm = [] then [Errorf ''%s: empty symbol name'' [ArgS w]]
      else case gf_Symbols f nm of
          None \<Rightarrow> [Errorf ''%s: no ELF symbol %q'' [ArgS w, ArgS nm]]
        | Some s \<Rightarrow> bad_if (gs_Count s > 1) (Errorf ''%s: ELF symbol %q is not unique (%d)'' [ArgS w, ArgS nm, ArgU (gs_Count s)]))"

definition verify_text :: "gfile \<Rightarrow> string \<Rightarrow> func \<Rightarrow> verr list" where
  "verify_text f w fn = (case gf_Symbols f (fn_Name fn) of
     None \<Rightarrow> []
   | Some s \<Rightarrow> if \<not> gs_Func s \<or> \<not> gs_Defined s then [Errorf ''%s: ELF symbol is not a defined function'' [ArgS w]]
       else bad_if (gs_Size s \<noteq> fn_TextSize fn) (Errorf ''%s: text_size %d, ELF symbol size %d'' [ArgS w, ArgU (unat (fn_TextSize fn)), ArgU (unat (gs_Size s))]))"

definition slice :: "'a list option \<Rightarrow> 'a list" where
  "slice x = (case x of None \<Rightarrow> [] | Some ys \<Rightarrow> ys)"

definition verify_inl :: "gfile \<Rightarrow> string \<Rightarrow> func \<Rightarrow> nat \<times> inlnode \<Rightarrow> verr list" where
  "verify_inl f w fn = (\<lambda>(j, n).
     bad_if (sint (in_Parent n) < - 1 \<or> sint (in_Parent n) \<ge> int j) (Errorf ''%s: inltree %d: parent %d'' [ArgS w, ArgU j, ArgI (sint (in_Parent n))]) @
     bad_if (unat (in_File n) \<ge> length (gf_Files f)) (Errorf ''%s: inltree %d: file %d out of range'' [ArgS w, ArgU j, ArgU (unat (in_File n))]) @
     bad_if (fn_TextSize fn > 0 \<and> in_ParentPC n \<ge> fn_TextSize fn) (Errorf ''%s: inltree %d: parent pc %d outside function'' [ArgS w, ArgU j, ArgU (unat (in_ParentPC n))]))"

definition verify_value :: "gfile \<Rightarrow> string \<Rightarrow> func \<Rightarrow> u8 \<Rightarrow> pcentry \<Rightarrow> verr list" where
  "verify_value f w fn k e =
     bad_if (k = PCFile \<and> (sint (pc_Value e) < 0 \<or> sint (pc_Value e) \<ge> int (length (gf_Files f)))) (Errorf ''%s: FILE %d out of range'' [ArgS w, ArgI (sint (pc_Value e))]) @
     bad_if (k = PCInlIndex \<and> (sint (pc_Value e) < - 1 \<or> sint (pc_Value e) \<ge> int (length (slice (fn_Inl fn))))) (Errorf ''%s: INL_INDEX %d out of range'' [ArgS w, ArgI (sint (pc_Value e))])"

definition verify_pc :: "string \<Rightarrow> func \<Rightarrow> pctable \<Rightarrow> nat \<times> pcentry \<Rightarrow> verr list" where
  "verify_pc w fn t = (\<lambda>(j, e).
     (if j = 0 \<and> pc_PC e \<noteq> 0 then [Errorf ''%s: %s table starts at pc %d, not 0'' [ArgS w, ArgS (pc_kind_String (pt_Kind t)), ArgU (unat (pc_PC e))]]
      else if j > 0 \<and> pc_PC e \<le> pc_PC (pt_Entries t ! (j - 1)) then [Errorf ''%s: %s table not increasing at entry %d'' [ArgS w, ArgS (pc_kind_String (pt_Kind t)), ArgU j]] else []) @
     bad_if (fn_TextSize fn > 0 \<and> pc_PC e \<ge> fn_TextSize fn) (Errorf ''%s: %s pc %d outside function (%d bytes)'' [ArgS w, ArgS (pc_kind_String (pt_Kind t)), ArgU (unat (pc_PC e)), ArgU (unat (fn_TextSize fn))]))"

definition verify_table :: "gfile \<Rightarrow> string \<Rightarrow> func \<Rightarrow> pctable \<Rightarrow> verr list" where
  "verify_table f w fn t =
     concat (map (verify_value f w fn (pt_Kind t)) (pt_Entries t)) @
     bad_if (pt_Kind t = 0 \<or> pt_Kind t \<ge> pcLast) (Errorf ''%s: unknown pcvalue kind %d'' [ArgS w, ArgU (unat (pt_Kind t))]) @
     concat (map (verify_pc w fn t) (enumerate 0 (pt_Entries t)))"

text \<open>The largest stack depth that the frame size and the SP_DELTA rows record.\<close>

definition max_sp :: "func \<Rightarrow> u64" where
  "max_sp fn = foldl (\<lambda>m t. if pt_Kind t = PCSPDelta
       then foldl (\<lambda>m e. if sint (pc_Value e) > 0 \<and> pc_Value e > m then pc_Value e else m) m (pt_Entries t) else m)
     (fn_FrameSize fn) (slice (fn_PCValue fn))"

definition verify_safepoint :: "string \<Rightarrow> func \<Rightarrow> gcmap \<Rightarrow> nat \<times> safepoint \<Rightarrow> verr list" where
  "verify_safepoint w fn g = (\<lambda>(j, sp).
     bad_if (sp_PC sp = 0 \<or> sp_PC sp > fn_TextSize fn) (Errorf ''%s: safepoint pc %d outside function'' [ArgS w, ArgU (unat (sp_PC sp))]) @
     bad_if (j > 0 \<and> sp_PC sp \<le> sp_PC (gc_Safepoints g ! (j - 1))) (Errorf ''%s: safepoints not sorted at %d'' [ArgS w, ArgU j]))"

definition verify_gc :: "string \<Rightarrow> u64 \<Rightarrow> func \<Rightarrow> gcmap \<Rightarrow> verr list" where
  "verify_gc w ptr fn g =
     bad_if (gc_NLocals g * ptr > max_sp fn) (Errorf ''%s: %d locals bits do not fit frame of %d bytes'' [ArgS w, ArgU (unat (gc_NLocals g)), ArgU (unat (fn_FrameSize fn))]) @
     concat (map (verify_safepoint w fn g) (enumerate 0 (gc_Safepoints g)))"

definition hasStackCheck :: "func \<Rightarrow> bool" where
  "hasStackCheck fn = (let (sp, up) = foldl (\<lambda>(sp, up) t.
       case pt_Entries t of
         [] \<Rightarrow> (sp, up)
       | e # _ \<Rightarrow> if pc_PC e \<noteq> 0 then (sp, up)
           else if pt_Kind t = PCSPDelta then (pc_Value e = 0, up)
           else if pt_Kind t = PCUnsafePoint then (sp, pc_Value e = - 2)
           else (sp, up)) (False, False) (slice (fn_PCValue fn))
     in sp \<and> up)"

definition verify_func :: "gfile \<Rightarrow> string set \<Rightarrow> func \<Rightarrow> verr list" where
  "verify_func f seen fn = (let w = ''func '' @ fn_Name fn; h = gf_Header f in
     bad_if (fn_Name fn \<in> seen) (Errorf ''%s: listed twice'' [ArgS w]) @
     verify_sym f w (fn_Name fn) @
     verify_text f w fn @
     bad_if (unat (fn_File fn) \<ge> length (gf_Files f) \<and> length (gf_Files f) > 0 \<or> length (gf_Files f) = 0 \<and> fn_File fn \<noteq> 0) (Errorf ''%s: file index %d out of range'' [ArgS w, ArgU (unat (fn_File fn))]) @
     bad_if (fn_ABI fn > ABIInternal) (Errorf ''%s: bad abi %d'' [ArgS w, ArgU (unat (fn_ABI fn))]) @
     bad_if (fn_pcvOff fn \<noteq> 0 \<and> \<not> gf_pcvStarts f (fn_pcvOff fn - 1)) (Errorf ''%s: pcv offset %d is not a record start'' [ArgS w, ArgU (unat (fn_pcvOff fn - 1))]) @
     bad_if (fn_gcOff fn \<noteq> 0 \<and> \<not> gf_gcStarts f (fn_gcOff fn - 1)) (Errorf ''%s: gc offset %d is not a record start'' [ArgS w, ArgU (unat (fn_gcOff fn - 1))]) @
     concat (map (verify_inl f w fn) (enumerate 0 (slice (fn_Inl fn)))) @
     concat (map (verify_table f w fn) (slice (fn_PCValue fn))) @
     (case fn_GC fn of None \<Rightarrow> [] | Some g \<Rightarrow> verify_gc w (verify_ptr h) fn g) @
     (case LookupProfile (h_Profile h) of
        None \<Rightarrow> []
      | Some p \<Rightarrow> bad_if (h_Flags h AND HeaderStackChecksInCode \<noteq> 0 \<and> fn_Flags fn AND FuncNeedsStackCheck \<noteq> 0 \<and>
            \<not> hasStackCheck fn) (Errorf ''%s: needs_stack_check but the tables show no %s entry check'' [ArgS w, ArgS (pr_Name p)])))"

fun verify_funcs :: "gfile \<Rightarrow> string set \<Rightarrow> func list \<Rightarrow> verr list" where
  "verify_funcs f seen [] = []"
| "verify_funcs f seen (fn # fns) = verify_func f seen fn @ verify_funcs f (insert (fn_Name fn) seen) fns"

text \<open>The map from names to functions: a later entry of the same name replaces an earlier one.\<close>

definition funcs_map :: "gfile \<Rightarrow> string \<rightharpoonup> func" where
  "funcs_map f = foldl (\<lambda>m fn. m(fn_Name fn \<mapsto> fn)) Map.empty (gf_Funcs f)"

definition verify_wrapper :: "gfile \<Rightarrow> wrapper \<Rightarrow> verr list" where
  "verify_wrapper f wr = (let w = ''wrapper '' @ wr_Sym wr in
     (case funcs_map f (wr_Sym wr) of
        None \<Rightarrow> [Errorf ''%s: function not in %s'' [ArgS w, ArgS SecFuncs]]
      | Some fn \<Rightarrow> bad_if (fn_Kind fn \<noteq> 1) (Errorf ''%s: function kind %d, want 1'' [ArgS w, ArgU (unat (fn_Kind fn))])) @
     verify_sym f w (wr_Target wr) @
     bad_if (wr_FromABI wr > 2 \<or> wr_ToABI wr > 2) (Errorf ''%s: bad abi %d -> %d'' [ArgS w, ArgU (unat (wr_FromABI wr)), ArgU (unat (wr_ToABI wr))]))"

definition verify_stackmap :: "gfile \<Rightarrow> nat \<times> stackmap \<Rightarrow> verr list" where
  "verify_stackmap f = (\<lambda>(i, sm).
     let w = ''stackmap '' @ dec_nat i @ '' ('' @ fn_key (sm_Func sm) (sm_InsnOff sm) @ '')'' in
     case funcs_map f (sm_Func sm) of
       None \<Rightarrow> [Errorf ''%s: function not in %s'' [ArgS w, ArgS SecFuncs]]
     | Some fn \<Rightarrow> bad_if (sm_InsnOff sm \<ge> fn_TextSize fn) (Errorf ''%s: past function end %d'' [ArgS w, ArgU (unat (fn_TextSize fn))]))"

definition verify_reloc :: "gfile \<Rightarrow> nat \<times> reloc \<Rightarrow> verr list" where
  "verify_reloc f = (\<lambda>(i, r).
     let w = ''reloc '' @ dec_nat i @ '' ('' @ fn_key (rl_Func r) (rl_Offset r) @ '')'';
         fn = funcs_map f (rl_Func r) in
     (case fn of
        None \<Rightarrow> [Errorf ''%s: function not in %s'' [ArgS w, ArgS SecFuncs]]
      | Some fn \<Rightarrow> bad_if (rl_Offset r + ucast (rl_Width r) > fn_TextSize fn) (Errorf ''%s: width %d runs past function end %d'' [ArgS w, ArgU (unat (rl_Width r)), ArgU (unat (fn_TextSize fn))])) @
     (if rl_Kind r = RCallIndirectMark then bad_if (rl_Width r = 0 \<or> rl_Width r > 15) (Errorf ''%s: bad call length %d'' [ArgS w, ArgU (unat (rl_Width r))])
      else bad_if (\<not> (rl_Width r = 1 \<or> rl_Width r = 2 \<or> rl_Width r = 4 \<or> rl_Width r = 8)) (Errorf ''%s: bad width %d'' [ArgS w, ArgU (unat (rl_Width r))])) @
     bad_if (rl_Kind r = 0 \<or> rl_Kind r \<ge> rLast) (Errorf ''%s: unknown kind %d'' [ArgS w, ArgU (unat (rl_Kind r))]) @
     (if rl_Kind r \<noteq> RCallIndirectMark then verify_sym f w (rl_Target r) else []) @
     (case gf_ELFRelocs f (fn_key (rl_Func r) (rl_Offset r)) of
        None \<Rightarrow> []
      | Some t \<Rightarrow> bad_if (t \<noteq> rl_Target r) (Errorf ''%s: ELF relocation there targets %q, table says %q'' [ArgS w, ArgS t, ArgS (rl_Target r)])) @
     (case fn of
        None \<Rightarrow> []
      | Some fn \<Rightarrow>
          let pc = rl_Offset r + ucast (rl_Width r);
              found = (case fn_GC fn of None \<Rightarrow> False | Some g \<Rightarrow> list_ex (\<lambda>sp. sp_PC sp = pc) (gc_Safepoints g))
          in bad_if (rl_Flags r AND RelocSafepoint \<noteq> 0 \<and> \<not> found) (Errorf ''%s: safepoint call without gc record at pc %d'' [ArgS w, ArgU (unat pc)])))"

definition verify_data :: "gfile \<Rightarrow> gdata \<Rightarrow> verr list" where
  "verify_data f d = (let w = ''data '' @ da_Name d; ptr = verify_ptr (gf_Header f) in
     verify_sym f w (da_Name d) @
     bad_if (da_NBits d * ptr > da_Size d + ptr - 1) (Errorf ''%s: %d pointer bits do not fit %d bytes'' [ArgS w, ArgU (unat (da_NBits d)), ArgU (unat (da_Size d))]))"

definition Verify :: "gfile \<Rightarrow> verr list" where
  "Verify f = verify_header (gf_Header f) @ verify_funcs f {} (gf_Funcs f) @
     concat (map (verify_wrapper f) (gf_Wrappers f)) @
     concat (map (verify_stackmap f) (enumerate 0 (gf_Stackmaps f))) @
     concat (map (verify_reloc f) (enumerate 0 (gf_Relocs f))) @
     concat (map (verify_data f) (gf_Data f))"

section \<open>What a verified file satisfies\<close>

definition sym_ok :: "gfile \<Rightarrow> string \<Rightarrow> bool" where
  "sym_ok f nm \<longleftrightarrow> nm \<noteq> [] \<and> (\<exists>s. gf_Symbols f nm = Some s \<and> gs_Count s \<le> 1)"

definition rows_ok :: "u64 \<Rightarrow> pcentry list \<Rightarrow> bool" where
  "rows_ok text es \<longleftrightarrow> (es \<noteq> [] \<longrightarrow> pc_PC (hd es) = 0) \<and> sorted_wrt (<) (map pc_PC es) \<and>
     (text > 0 \<longrightarrow> (\<forall>e\<in>set es. pc_PC e < text))"

definition table_ok :: "gfile \<Rightarrow> func \<Rightarrow> pctable \<Rightarrow> bool" where
  "table_ok f fn t \<longleftrightarrow> pt_Kind t \<in> {PCSPDelta, PCFile, PCLine, PCUnsafePoint, PCInlIndex, PCStackMapIndex} \<and>
     rows_ok (fn_TextSize fn) (pt_Entries t) \<and>
     (pt_Kind t = PCFile \<longrightarrow> (\<forall>e\<in>set (pt_Entries t). 0 \<le> sint (pc_Value e) \<and> sint (pc_Value e) < int (length (gf_Files f)))) \<and>
     (pt_Kind t = PCInlIndex \<longrightarrow> (\<forall>e\<in>set (pt_Entries t). - 1 \<le> sint (pc_Value e) \<and> sint (pc_Value e) < int (length (slice (fn_Inl fn)))))"

text \<open>An inline tree: every parent comes before its child, so walking the parents ends.\<close>

definition inl_ok :: "gfile \<Rightarrow> func \<Rightarrow> bool" where
  "inl_ok f fn \<longleftrightarrow> (\<forall>j<length (slice (fn_Inl fn)). let n = slice (fn_Inl fn) ! j in
     - 1 \<le> sint (in_Parent n) \<and> sint (in_Parent n) < int j \<and> unat (in_File n) < length (gf_Files f) \<and>
     (fn_TextSize fn > 0 \<longrightarrow> in_ParentPC n < fn_TextSize fn))"

definition gc_valid :: "gfile \<Rightarrow> func \<Rightarrow> gcmap \<Rightarrow> bool" where
  "gc_valid f fn g \<longleftrightarrow> gc_NLocals g * verify_ptr (gf_Header f) \<le> max_sp fn \<and>
     sorted_wrt (<) (map sp_PC (gc_Safepoints g)) \<and> (\<forall>sp\<in>set (gc_Safepoints g). 0 < sp_PC sp \<and> sp_PC sp \<le> fn_TextSize fn)"

definition func_valid :: "gfile \<Rightarrow> func \<Rightarrow> bool" where
  "func_valid f fn \<longleftrightarrow> sym_ok f (fn_Name fn) \<and>
     (\<exists>s. gf_Symbols f (fn_Name fn) = Some s \<and> gs_Func s \<and> gs_Defined s \<and> gs_Size s = fn_TextSize fn) \<and>
     (if gf_Files f = [] then fn_File fn = 0 else unat (fn_File fn) < length (gf_Files f)) \<and>
     fn_ABI fn \<in> {ABI0, ABIInternal} \<and>
     (fn_pcvOff fn \<noteq> 0 \<longrightarrow> gf_pcvStarts f (fn_pcvOff fn - 1)) \<and> (fn_gcOff fn \<noteq> 0 \<longrightarrow> gf_gcStarts f (fn_gcOff fn - 1)) \<and>
     inl_ok f fn \<and> (\<forall>t\<in>set (slice (fn_PCValue fn)). table_ok f fn t) \<and> pred_option (gc_valid f fn) (fn_GC fn) \<and>
     (h_Flags (gf_Header f) AND HeaderStackChecksInCode \<noteq> 0 \<and> fn_Flags fn AND FuncNeedsStackCheck \<noteq> 0 \<longrightarrow> hasStackCheck fn)"

definition header_valid :: "header \<Rightarrow> bool" where
  "header_valid h \<longleftrightarrow> (\<exists>p. LookupProfile (h_Profile h) = Some p \<and>
     (h_Arch h = ArchAMD64 \<and> pr_Arch p = ''amd64'' \<or> h_Arch h = ArchARM64 \<and> pr_Arch p = ''arm64''))"

definition wrapper_valid :: "gfile \<Rightarrow> wrapper \<Rightarrow> bool" where
  "wrapper_valid f wr \<longleftrightarrow> (\<exists>fn\<in>set (gf_Funcs f). fn_Name fn = wr_Sym wr \<and> fn_Kind fn = 1) \<and>
     sym_ok f (wr_Target wr) \<and> wr_FromABI wr \<le> 2 \<and> wr_ToABI wr \<le> 2"

definition stackmap_valid :: "gfile \<Rightarrow> stackmap \<Rightarrow> bool" where
  "stackmap_valid f sm \<longleftrightarrow> (\<exists>fn\<in>set (gf_Funcs f). fn_Name fn = sm_Func sm \<and> sm_InsnOff sm < fn_TextSize fn)"

definition reloc_valid :: "gfile \<Rightarrow> reloc \<Rightarrow> bool" where
  "reloc_valid f r \<longleftrightarrow> (\<exists>fn\<in>set (gf_Funcs f). fn_Name fn = rl_Func r \<and> rl_Offset r + ucast (rl_Width r) \<le> fn_TextSize fn \<and>
       (rl_Flags r AND RelocSafepoint \<noteq> 0 \<longrightarrow>
          (\<exists>g sp. fn_GC fn = Some g \<and> sp \<in> set (gc_Safepoints g) \<and> sp_PC sp = rl_Offset r + ucast (rl_Width r)))) \<and>
     (if rl_Kind r = RCallIndirectMark then 0 < rl_Width r \<and> rl_Width r \<le> 15
      else rl_Width r \<in> {1, 2, 4, 8} \<and> sym_ok f (rl_Target r)) \<and>
     0 < rl_Kind r \<and> rl_Kind r < rLast \<and>
     (\<forall>t. gf_ELFRelocs f (fn_key (rl_Func r) (rl_Offset r)) = Some t \<longrightarrow> t = rl_Target r)"

definition data_valid :: "gfile \<Rightarrow> gdata \<Rightarrow> bool" where
  "data_valid f d \<longleftrightarrow> sym_ok f (da_Name d) \<and>
     da_NBits d * verify_ptr (gf_Header f) \<le> da_Size d + verify_ptr (gf_Header f) - 1"

definition valid :: "gfile \<Rightarrow> bool" where
  "valid f \<longleftrightarrow> header_valid (gf_Header f) \<and> distinct (map fn_Name (gf_Funcs f)) \<and>
     (\<forall>fn\<in>set (gf_Funcs f). func_valid f fn) \<and> (\<forall>wr\<in>set (gf_Wrappers f). wrapper_valid f wr) \<and>
     (\<forall>sm\<in>set (gf_Stackmaps f). stackmap_valid f sm) \<and> (\<forall>r\<in>set (gf_Relocs f). reloc_valid f r) \<and>
     (\<forall>d\<in>set (gf_Data f). data_valid f d)"

section \<open>Verify decides validity\<close>

lemma concat_enumerate_nil: "concat (map g (enumerate n xs)) = [] \<longleftrightarrow> (\<forall>j<length xs. g (n + j, xs ! j) = [])"
  by (induction xs arbitrary: n) (auto simp: All_less_Suc2)

lemma sorted_by_steps: "sorted_wrt (<) (map g xs) \<longleftrightarrow> (\<forall>j<length xs. j > 0 \<longrightarrow> g (xs ! (j - 1)) < (g (xs ! j) :: 'a :: linorder))"
proof -
  have "(\<forall>j<length xs. j > 0 \<longrightarrow> g (xs ! (j - 1)) < g (xs ! j)) \<longleftrightarrow> (\<forall>i. Suc i < length xs \<longrightarrow> g (xs ! i) < g (xs ! Suc i))"
    by (auto simp: gr0_conv_Suc)
  then show ?thesis by (simp add: sorted_wrt_iff_nth_Suc_transp)
qed

lemma sym_nil: "verify_sym f w nm = [] \<longleftrightarrow> sym_ok f nm"
  by (auto simp: verify_sym_def sym_ok_def not_less split: option.splits)

lemma verify_pc_nil: "verify_pc w fn t (j, e) = [] \<longleftrightarrow> (j = 0 \<longrightarrow> pc_PC e = 0) \<and>
    (j > 0 \<longrightarrow> pc_PC (pt_Entries t ! (j - 1)) < pc_PC e) \<and> (fn_TextSize fn > 0 \<longrightarrow> pc_PC e < fn_TextSize fn)"
  by (cases "j = 0") (auto simp: verify_pc_def not_le)

lemma rows_nil: "concat (map (verify_pc w fn t) (enumerate 0 (pt_Entries t))) = [] \<longleftrightarrow> rows_ok (fn_TextSize fn) (pt_Entries t)"
proof -
  let ?es = "pt_Entries t"
  have "concat (map (verify_pc w fn t) (enumerate 0 ?es)) = [] \<longleftrightarrow>
    (\<forall>j<length ?es. (j = 0 \<longrightarrow> pc_PC (?es ! j) = 0) \<and> (j > 0 \<longrightarrow> pc_PC (?es ! (j - 1)) < pc_PC (?es ! j)) \<and>
      (fn_TextSize fn > 0 \<longrightarrow> pc_PC (?es ! j) < fn_TextSize fn))"
    unfolding concat_enumerate_nil add_0 verify_pc_nil ..
  also have "\<dots> \<longleftrightarrow> rows_ok (fn_TextSize fn) ?es"
    unfolding rows_ok_def sorted_by_steps all_set_conv_all_nth by (auto simp: hd_conv_nth)
  finally show ?thesis .
qed

lemma pc_kinds: "\<not> (k = 0 \<or> k \<ge> pcLast) \<longleftrightarrow> k \<in> {PCSPDelta, PCFile, PCLine, PCUnsafePoint, PCInlIndex, PCStackMapIndex}"
proof -
  have "unat k < 7 \<longleftrightarrow> unat k \<in> {0, 1, 2, 3, 4, 5, 6}" by auto
  then show ?thesis by (auto simp: word_le_nat_alt word_unat_eq_iff)
qed

lemma table_nil: "verify_table f w fn t = [] \<longleftrightarrow> table_ok f fn t"
  unfolding verify_table_def table_ok_def append_is_Nil_conv rows_nil bad_if_nil pc_kinds
  by (auto simp: verify_value_def not_less not_le)

lemma inl_nil: "concat (map (verify_inl f w fn) (enumerate 0 (slice (fn_Inl fn)))) = [] \<longleftrightarrow> inl_ok f fn"
  unfolding concat_enumerate_nil inl_ok_def by (auto simp: verify_inl_def Let_def not_le not_less)

lemma gc_nil: "verify_gc w (verify_ptr (gf_Header f)) fn g = [] \<longleftrightarrow> gc_valid f fn g"
proof -
  let ?sps = "gc_Safepoints g"
  have "concat (map (verify_safepoint w fn g) (enumerate 0 ?sps)) = [] \<longleftrightarrow>
    (\<forall>j<length ?sps. (j > 0 \<longrightarrow> sp_PC (?sps ! (j - 1)) < sp_PC (?sps ! j))) \<and>
    (\<forall>j<length ?sps. 0 < sp_PC (?sps ! j) \<and> sp_PC (?sps ! j) \<le> fn_TextSize fn)"
    unfolding concat_enumerate_nil by (auto simp: verify_safepoint_def not_le not_less word_neq_0_conv)
  then show ?thesis
    unfolding verify_gc_def gc_valid_def append_is_Nil_conv bad_if_nil sorted_by_steps by (auto simp: all_set_conv_all_nth not_less)
qed

lemma profile_ptr: "header_valid h \<Longrightarrow> verify_ptr h = 8"
  by (auto simp: header_valid_def LookupProfile_def verify_ptr_def profiles_def amd64_profile_def arm64_profile_def split: if_splits)

lemma abi_kinds: "\<not> (a > ABIInternal) \<longleftrightarrow> a \<in> {ABI0, ABIInternal}"
proof -
  have "unat a \<le> 1 \<longleftrightarrow> unat a \<in> {0, 1}" by auto
  then show ?thesis by (auto simp: not_less word_le_nat_alt word_unat_eq_iff)
qed

lemma func_nil:
  assumes "header_valid (gf_Header f)"
  shows "verify_func f seen fn = [] \<longleftrightarrow> fn_Name fn \<notin> seen \<and> func_valid f fn"
proof -
  obtain p where p: "LookupProfile (h_Profile (gf_Header f)) = Some p" using assms by (auto simp: header_valid_def)
  have named: "verify_sym f w (fn_Name fn) = [] \<and> verify_text f w fn = [] \<longleftrightarrow> sym_ok f (fn_Name fn) \<and>
     (\<exists>s. gf_Symbols f (fn_Name fn) = Some s \<and> gs_Func s \<and> gs_Defined s \<and> gs_Size s = fn_TextSize fn)" for w
    unfolding sym_nil by (auto simp: sym_ok_def verify_text_def split: option.splits if_splits)
  have gc: "(case fn_GC fn of None \<Rightarrow> [] | Some g \<Rightarrow> verify_gc w (verify_ptr (gf_Header f)) fn g) = [] \<longleftrightarrow> pred_option (gc_valid f fn) (fn_GC fn)" for w
    by (cases "fn_GC fn") (simp_all add: gc_nil)
  have fidx: "\<not> (unat (fn_File fn) \<ge> length (gf_Files f) \<and> length (gf_Files f) > 0 \<or> length (gf_Files f) = 0 \<and> fn_File fn \<noteq> 0) \<longleftrightarrow>
     (if gf_Files f = [] then fn_File fn = 0 else unat (fn_File fn) < length (gf_Files f))"
    by auto
  have tabs: "concat (map (verify_table f w fn) (slice (fn_PCValue fn))) = [] \<longleftrightarrow> (\<forall>t\<in>set (slice (fn_PCValue fn)). table_ok f fn t)" for w
    by (auto simp: table_nil)
  show ?thesis
    unfolding verify_func_def func_valid_def Let_def p append_is_Nil_conv option.case bad_if_nil gc fidx tabs inl_nil abi_kinds
    using named [of "''func '' @ fn_Name fn"] by blast
qed

lemma funcs_nil:
  assumes "header_valid (gf_Header f)"
  shows "verify_funcs f seen fns = [] \<longleftrightarrow> distinct (map fn_Name fns) \<and> (\<forall>fn\<in>set fns. fn_Name fn \<notin> seen \<and> func_valid f fn)"
  proof (induction fns arbitrary: seen)
  case (Cons fn fns)
  then show ?case by (auto simp: func_nil [OF assms] image_iff) (metis+)?
qed simp

lemma header_nil: "verify_header h = [] \<longleftrightarrow> header_valid h"
  by (auto simp: verify_header_def header_valid_def arch_name_def split: option.splits if_splits)

text \<open>With distinct names the map of functions is the list.\<close>

lemma funcs_map_append: "foldl (\<lambda>m fn. m(fn_Name fn \<mapsto> fn)) m fns nm =
    (case filter (\<lambda>fn. fn_Name fn = nm) fns of [] \<Rightarrow> m nm | gs \<Rightarrow> Some (last gs))"
  by (induction fns arbitrary: m) (auto split: list.splits)

lemma filter_distinct_name: "distinct (map g xs) \<Longrightarrow> x \<in> set xs \<Longrightarrow> filter (\<lambda>y. g y = g x) xs = [x]"
  by (induction xs) (auto simp: filter_empty_conv image_iff)

lemma case_last_Some: "(case gs of [] \<Rightarrow> None | a # l \<Rightarrow> Some (last (a # l))) = Some x \<Longrightarrow> x \<in> set gs"
  by (cases gs) (auto split: if_splits)

lemma case_last_None: "(case gs of [] \<Rightarrow> None | a # l \<Rightarrow> Some (last (a # l))) = None \<longleftrightarrow> gs = []"
  by (cases gs) auto

lemma funcs_map_Some:
  assumes "distinct (map fn_Name (gf_Funcs f))"
  shows "funcs_map f nm = Some fn \<longleftrightarrow> fn \<in> set (gf_Funcs f) \<and> fn_Name fn = nm"
proof
  assume a: "funcs_map f nm = Some fn"
  then have "fn \<in> set (filter (\<lambda>fn. fn_Name fn = nm) (gf_Funcs f))"
    unfolding funcs_map_def funcs_map_append by (rule case_last_Some)
  then show "fn \<in> set (gf_Funcs f) \<and> fn_Name fn = nm" by simp
next
  assume "fn \<in> set (gf_Funcs f) \<and> fn_Name fn = nm"
  then show "funcs_map f nm = Some fn"
    using filter_distinct_name [OF assms, of fn] by (simp add: funcs_map_def funcs_map_append)
qed

lemma ex_func:
  assumes "distinct (map fn_Name (gf_Funcs f))" "funcs_map f nm = Some fn"
  shows "(\<exists>g\<in>set (gf_Funcs f). fn_Name g = nm \<and> P g) \<longleftrightarrow> P fn"
proof -
  have "g \<in> set (gf_Funcs f) \<and> fn_Name g = nm \<longleftrightarrow> g = fn" for g
    using assms(2) unfolding funcs_map_Some [OF assms(1), symmetric] by auto
  then show ?thesis unfolding Bex_def conj_assoc [symmetric] by simp
qed

lemma funcs_map_None: "funcs_map f nm = None \<longleftrightarrow> (\<forall>fn\<in>set (gf_Funcs f). fn_Name fn \<noteq> nm)"
  unfolding funcs_map_def funcs_map_append case_last_None by (simp add: filter_empty_conv)

text \<open>Per-item checks of the remaining tables, once the function names are distinct.\<close>

lemma wrapper_nil:
  assumes "distinct (map fn_Name (gf_Funcs f))"
  shows "verify_wrapper f wr = [] \<longleftrightarrow> wrapper_valid f wr"
proof (cases "funcs_map f (wr_Sym wr)")
  case None
  then show ?thesis using funcs_map_None [of f "wr_Sym wr"] by (auto simp: verify_wrapper_def wrapper_valid_def Let_def)
next
  case (Some fn)
  then have "(\<exists>g\<in>set (gf_Funcs f). fn_Name g = wr_Sym wr \<and> fn_Kind g = 1) \<longleftrightarrow> fn_Kind fn = 1"
    by (rule ex_func [OF assms])
  with Some show ?thesis by (auto simp: verify_wrapper_def wrapper_valid_def Let_def sym_nil not_less)
qed

lemma stackmap_nil:
  assumes "distinct (map fn_Name (gf_Funcs f))"
  shows "verify_stackmap f (i, sm) = [] \<longleftrightarrow> stackmap_valid f sm"
proof (cases "funcs_map f (sm_Func sm)")
  case None
  then show ?thesis using funcs_map_None [of f "sm_Func sm"] by (auto simp: verify_stackmap_def stackmap_valid_def Let_def)
next
  case (Some fn)
  then have "(\<exists>g\<in>set (gf_Funcs f). fn_Name g = sm_Func sm \<and> sm_InsnOff sm < fn_TextSize g) \<longleftrightarrow> sm_InsnOff sm < fn_TextSize fn"
    by (rule ex_func [OF assms])
  with Some show ?thesis by (simp add: verify_stackmap_def stackmap_valid_def Let_def not_le)
qed

lemma reloc_nil:
  assumes "distinct (map fn_Name (gf_Funcs f))"
  shows "verify_reloc f (i, r) = [] \<longleftrightarrow> reloc_valid f r"
proof (cases "funcs_map f (rl_Func r)")
  case None
  then show ?thesis using funcs_map_None [of f "rl_Func r"] by (auto simp: verify_reloc_def reloc_valid_def Let_def)
next
  case (Some fn)
  let ?pc = "rl_Offset r + ucast (rl_Width r)"
  let ?sp = "\<lambda>g. rl_Flags r AND RelocSafepoint \<noteq> 0 \<longrightarrow>
    (\<exists>m sp. fn_GC g = Some m \<and> sp \<in> set (gc_Safepoints m) \<and> sp_PC sp = ?pc)"
  have ex: "(\<exists>g\<in>set (gf_Funcs f). fn_Name g = rl_Func r \<and> ?pc \<le> fn_TextSize g \<and> ?sp g) \<longleftrightarrow> ?pc \<le> fn_TextSize fn \<and> ?sp fn"
    by (rule ex_func [OF assms Some])
  have found: "(case fn_GC fn of None \<Rightarrow> False | Some g \<Rightarrow> list_ex (\<lambda>sp. sp_PC sp = ?pc) (gc_Safepoints g)) \<longleftrightarrow>
      (\<exists>m sp. fn_GC fn = Some m \<and> sp \<in> set (gc_Safepoints m) \<and> sp_PC sp = ?pc)"
    by (cases "fn_GC fn") (auto simp: list_ex_iff)
  have elf: "(case gf_ELFRelocs f k of None \<Rightarrow> [] | Some t \<Rightarrow> bad_if (t \<noteq> tgt) (e t)) = [] \<longleftrightarrow>
      (\<forall>t. gf_ELFRelocs f k = Some t \<longrightarrow> t = tgt)" for k tgt e
    by (cases "gf_ELFRelocs f k") auto
  have kind: "\<not> (rl_Kind r = 0 \<or> rl_Kind r \<ge> rLast) \<longleftrightarrow> 0 < rl_Kind r \<and> rl_Kind r < rLast"
    by (auto simp: word_neq_0_conv not_le)
  show ?thesis
    unfolding verify_reloc_def reloc_valid_def ex Let_def case_prod_conv Some option.case append_is_Nil_conv bad_if_nil found elf kind
    by (auto simp: sym_nil not_less word_neq_0_conv)
qed

lemma data_nil: "verify_data f d = [] \<longleftrightarrow> data_valid f d"
  by (auto simp: verify_data_def data_valid_def sym_nil Let_def not_less)

lemma Verify_nil: "Verify f = [] \<longleftrightarrow> valid f"
proof (cases "header_valid (gf_Header f)")
  case False
  then show ?thesis by (auto simp: Verify_def valid_def header_nil)
next
  case h: True
  have fns: "verify_funcs f {} (gf_Funcs f) = [] \<longleftrightarrow> distinct (map fn_Name (gf_Funcs f)) \<and> (\<forall>fn\<in>set (gf_Funcs f). func_valid f fn)"
    by (simp add: funcs_nil [OF h])
  show ?thesis
  proof (cases "distinct (map fn_Name (gf_Funcs f))")
    case False
    then show ?thesis by (simp add: Verify_def valid_def fns)
  next
    case d: True
    show ?thesis
      unfolding Verify_def valid_def append_is_Nil_conv fns header_nil concat_enumerate_nil stackmap_nil [OF d] reloc_nil [OF d]
      by (auto simp: wrapper_nil [OF d] data_nil all_set_conv_all_nth)
  qed
qed

section \<open>The end-of-function check wraps\<close>

definition wrap_func :: func where
  "wrap_func = \<lparr>fn_Name = ''f'', fn_TextSize = 8, fn_FrameSize = 0, fn_ArgSize = 0, fn_ABI = 0, fn_Kind = 0, fn_Flags = 0,
     fn_FuncID = 0, fn_File = 0, fn_StartLine = 0, fn_SysvPtrRegs = 0, fn_SptrSlots = [], fn_PCValue = None, fn_Inl = None,
     fn_GC = None, fn_pcvOff = 0, fn_gcOff = 0, fn_inlOff = 0\<rparr>"

definition wrap_reloc :: reloc where
  "wrap_reloc = \<lparr>rl_Func = ''f'', rl_Offset = 1, rl_Width = 4, rl_Kind = RCall, rl_Target = ''f'', rl_Addend = 0, rl_Flags = 0\<rparr>"

definition wrap_file :: gfile where
  "wrap_file = (empty_file \<lparr>h_Major = 1, h_Minor = 4, h_Arch = ArchAMD64, h_Flags = 0, h_Profile = ''goabi1-amd64'', h_Producer = []\<rparr>)
     \<lparr>gf_Funcs := [wrap_func], gf_Relocs := [wrap_reloc],
      gf_Symbols := [''f'' \<mapsto> \<lparr>gs_Func = True, gs_Defined = True, gs_Size = 8, gs_Section = ''.text'', gs_Value = 0, gs_Count = 1\<rparr>]\<rparr>"

text \<open>The checks look at the relocations one by one.\<close>

lemma valid_relocs:
  "func_valid (f\<lparr>gf_Relocs := rs\<rparr>) fn = func_valid f fn" "wrapper_valid (f\<lparr>gf_Relocs := rs\<rparr>) wr = wrapper_valid f wr"
  "stackmap_valid (f\<lparr>gf_Relocs := rs\<rparr>) sm = stackmap_valid f sm" "reloc_valid (f\<lparr>gf_Relocs := rs\<rparr>) r = reloc_valid f r" "data_valid (f\<lparr>gf_Relocs := rs\<rparr>) d = data_valid f d"
proof -
  have s: "sym_ok (f\<lparr>gf_Relocs := rs\<rparr>) nm = sym_ok f nm" for nm by (simp add: sym_ok_def)
  have g: "gc_valid (f\<lparr>gf_Relocs := rs\<rparr>) fn = gc_valid f fn" by (rule ext) (simp add: gc_valid_def)
  show "func_valid (f\<lparr>gf_Relocs := rs\<rparr>) fn = func_valid f fn" by (simp add: func_valid_def s g inl_ok_def table_ok_def)
  show "wrapper_valid (f\<lparr>gf_Relocs := rs\<rparr>) wr = wrapper_valid f wr" "stackmap_valid (f\<lparr>gf_Relocs := rs\<rparr>) sm = stackmap_valid f sm"
    "reloc_valid (f\<lparr>gf_Relocs := rs\<rparr>) r = reloc_valid f r" "data_valid (f\<lparr>gf_Relocs := rs\<rparr>) d = data_valid f d"
    by (simp_all add: wrapper_valid_def stackmap_valid_def reloc_valid_def data_valid_def s)
qed

lemma Verify_relocs: "Verify (f\<lparr>gf_Relocs := rs\<rparr>) = [] \<longleftrightarrow> Verify (f\<lparr>gf_Relocs := []\<rparr>) = [] \<and> (\<forall>r\<in>set rs. reloc_valid f r)"
  unfolding Verify_nil by (auto simp: valid_def valid_relocs)

text \<open>C9: Offset and width of a relocation are added in 64 bits, so the check against the end of the function can be
  passed from outside. Take any file that \<open>Verify\<close> accepts and move any of its relocations, not a safepoint call, to
  the offset at which its field ends at \<open>2^64\<close>, beyond every function: unless there is an ELF relocation at that place,
  \<open>Verify\<close> accepts the file again.\<close>

theorem Verify_accepts_wrapped_reloc:
  assumes "Verify f = []" "gf_Relocs f = rs1 @ r # rs2" "rl_Flags r AND RelocSafepoint = 0"
    and "gf_ELFRelocs f (fn_key (rl_Func r) (- ucast (rl_Width r))) = None"
  shows "Verify (f\<lparr>gf_Relocs := rs1 @ r\<lparr>rl_Offset := - ucast (rl_Width r)\<rparr> # rs2\<rparr>) = [] \<and>
    uint (- ucast (rl_Width r) :: u64) + uint (rl_Width r) = 2 ^ 64"
proof -
  have "f = f\<lparr>gf_Relocs := rs1 @ r # rs2\<rparr>" using assms(2) by (cases f) simp
  then have v: "Verify (f\<lparr>gf_Relocs := []\<rparr>) = []" "\<forall>q\<in>set (rs1 @ r # rs2). reloc_valid f q"
    using assms(1) Verify_relocs [of "rs1 @ r # rs2" f] by simp_all
  then have r: "reloc_valid f r" by simp
  then have "reloc_valid f (r\<lparr>rl_Offset := - ucast (rl_Width r)\<rparr>)" using assms(3,4) by (auto simp: reloc_valid_def split: if_splits)
  then have "Verify (f\<lparr>gf_Relocs := rs1 @ r\<lparr>rl_Offset := - ucast (rl_Width r)\<rparr> # rs2\<rparr>) = []" using v by (subst Verify_relocs) auto
  moreover have "uint (- ucast (rl_Width r) :: u64) + uint (rl_Width r) = 2 ^ 64"
  proof -
    have w: "uint (ucast (rl_Width r) :: u64) = uint (rl_Width r)"
      using uint_lt2p [of "rl_Width r"] by (simp add: unsigned_ucast_eq take_bit_int_eq_self)
    have "rl_Width r \<noteq> 0" using r by (auto simp: reloc_valid_def split: if_splits)
    then have "0 < uint (rl_Width r)" by (simp add: word_neq_0_conv word_less_def)
    moreover have "uint (- ucast (rl_Width r) :: u64) = (- uint (rl_Width r)) mod 2 ^ 64" by (simp add: uint_word_ariths w)
    ultimately show ?thesis using uint_lt2p [of "rl_Width r"] by (simp add: zmod_zminus1_eq_if mod_pos_pos_trivial)
  qed
  ultimately show ?thesis ..
qed

theorem Verify_accepts_wrapped_reloc_witness:
  "Verify wrap_file = [] \<and> Verify (wrap_file\<lparr>gf_Relocs := [wrap_reloc\<lparr>rl_Offset := - 4\<rparr>]\<rparr>) = []"
proof -
  have "Verify (wrap_file\<lparr>gf_Relocs := []\<rparr>) = []"
    unfolding Verify_nil
    by (simp add: valid_def wrap_file_def empty_file_def wrap_func_def func_valid_def sym_ok_def
        inl_ok_def slice_def header_valid_def LookupProfile_def profiles_def amd64_profile_def)
  moreover have "reloc_valid wrap_file wrap_reloc"
    by (simp add: reloc_valid_def wrap_file_def wrap_reloc_def empty_file_def wrap_func_def sym_ok_def)
  moreover have "wrap_file = wrap_file\<lparr>gf_Relocs := [wrap_reloc]\<rparr>" by (simp add: wrap_file_def)
  ultimately have v: "Verify wrap_file = []" using Verify_relocs [of "[wrap_reloc]" wrap_file] by simp
  have w: "rl_Width wrap_reloc = 4" by (simp add: wrap_reloc_def)
  have "gf_Relocs wrap_file = [] @ wrap_reloc # []" "rl_Flags wrap_reloc AND RelocSafepoint = 0" "gf_ELFRelocs wrap_file k = None" for k
    by (simp_all add: wrap_file_def wrap_reloc_def empty_file_def)
  from Verify_accepts_wrapped_reloc [OF v this] have "Verify (wrap_file\<lparr>gf_Relocs := [wrap_reloc\<lparr>rl_Offset := - ucast (4 :: u8)\<rparr>]\<rparr>) = []" unfolding w by simp
  then show ?thesis using v by simp
qed

end
