(* ===== verification/Gocobj_Doc.thy ===== *)
theory Gocobj_Doc
  imports Gocobj_Verify
begin

text \<open>
  What \<open>docs/design/gocobj-format.md\<close> requires of a file (``What \<open>goc tool objdump verify\<close> checks'', and the tables of
  the sections), written from that document: natural numbers instead of 64-bit sums, the frame size instead of the
  stack depth that \<open>Verify\<close> computes from the tables, and the stack check of the machine code as a parameter. \<open>Verify\<close>
  decides it for the files on which the differences do not show; the differences are the hypotheses.
\<close>

section \<open>The document\<close>

text \<open>``Every name a record uses exists in the ELF symbol table exactly once.''\<close>

definition doc_name :: "gfile \<Rightarrow> string \<Rightarrow> bool" where
  "doc_name f nm \<longleftrightarrow> nm \<noteq> [] \<and> (\<exists>s. gf_Symbols f nm = Some s \<and> gs_Count s = 1)"

text \<open>``Header magic, major, known arch and ABI profile''; the magic and the major version are for the reader.\<close>

definition doc_header :: "header \<Rightarrow> bool" where
  "doc_header h \<longleftrightarrow> (\<exists>p. LookupProfile (h_Profile h) = Some p \<and>
     ((h_Arch h = ArchAMD64 \<and> pr_Arch p = ''amd64'') \<or> (h_Arch h = ArchARM64 \<and> pr_Arch p = ''arm64'')))"

text \<open>``Known kinds, first start 0, strictly increasing, inside the function; FILE values index \<open>.goc.files\<close>,
  INL_INDEX values the function's inline tree'', with -1 outside inlined code.\<close>

definition doc_table :: "gfile \<Rightarrow> func \<Rightarrow> pctable \<Rightarrow> bool" where
  "doc_table f fn t \<longleftrightarrow> (let starts = map (\<lambda>e. unat (pc_PC e)) (pt_Entries t) in
     1 \<le> unat (pt_Kind t) \<and> unat (pt_Kind t) \<le> 6 \<and>
     (starts \<noteq> [] \<longrightarrow> starts ! 0 = 0) \<and> (\<forall>i j. i < j \<longrightarrow> j < length starts \<longrightarrow> starts ! i < starts ! j) \<and>
     (\<forall>s\<in>set starts. s < unat (fn_TextSize fn)) \<and>
     (\<forall>e\<in>set (pt_Entries t). (pt_Kind t = PCFile \<longrightarrow> sint (pc_Value e) \<in> {0..<int (length (gf_Files f))}) \<and>
        (pt_Kind t = PCInlIndex \<longrightarrow> sint (pc_Value e) \<in> {- 1..<int (length (slice (fn_Inl fn)))})))"

text \<open>``Parents precede children, files in range, \<open>parent_pc\<close> inside the function.''\<close>

definition doc_inltree :: "gfile \<Rightarrow> func \<Rightarrow> bool" where
  "doc_inltree f fn \<longleftrightarrow> (\<forall>j<length (slice (fn_Inl fn)). let n = slice (fn_Inl fn) ! j in
     (sint (in_Parent n) = - 1 \<or> (0 \<le> sint (in_Parent n) \<and> nat (sint (in_Parent n)) < j)) \<and>
     unat (in_File n) < length (gf_Files f) \<and> unat (in_ParentPC n) < unat (fn_TextSize fn))"

text \<open>``Pcs sorted and inside \<open>(0, text_size]\<close>; the locals bitmap fits the frame
  (\<open>nlocals_bits * ptr_size <= frame_size\<close>)'', with the pointer size of 8 that both architectures have.\<close>

definition doc_gcmap :: "func \<Rightarrow> gcmap \<Rightarrow> bool" where
  "doc_gcmap fn g \<longleftrightarrow> (let pcs = map (\<lambda>sp. unat (sp_PC sp)) (gc_Safepoints g) in
     (\<forall>i j. i < j \<longrightarrow> j < length pcs \<longrightarrow> pcs ! i < pcs ! j) \<and> (\<forall>pc\<in>set pcs. 0 < pc \<and> pc \<le> unat (fn_TextSize fn)) \<and>
     unat (gc_NLocals g) * 8 \<le> unat (fn_FrameSize fn))"

text \<open>``Symbol is a defined STT_FUNC whose size equals \<open>text_size\<close>; \<open>file\<close> is in range; \<open>pcv\<close>/\<open>gc\<close> offsets point at a
  record start''; ``with \<open>stack_checks_in_code\<close>, every \<open>needs_stack_check\<close> function starts with the profile's stack
  check'', for which \<open>checked\<close> stands.\<close>

definition doc_func :: "(func \<Rightarrow> bool) \<Rightarrow> gfile \<Rightarrow> func \<Rightarrow> bool" where
  "doc_func checked f fn \<longleftrightarrow> doc_name f (fn_Name fn) \<and>
     (\<exists>s. gf_Symbols f (fn_Name fn) = Some s \<and> gs_Func s \<and> gs_Defined s \<and> gs_Size s = fn_TextSize fn) \<and>
     unat (fn_File fn) < length (gf_Files f) \<and> unat (fn_ABI fn) \<le> 1 \<and>
     (fn_pcvOff fn = 0 \<or> gf_pcvStarts f (fn_pcvOff fn - 1)) \<and> (fn_gcOff fn = 0 \<or> gf_gcStarts f (fn_gcOff fn - 1)) \<and>
     (\<forall>t\<in>set (slice (fn_PCValue fn)). doc_table f fn t) \<and> doc_inltree f fn \<and> (\<forall>g. fn_GC fn = Some g \<longrightarrow> doc_gcmap fn g) \<and>
     (bit (h_Flags (gf_Header f)) 0 \<and> bit (fn_Flags fn) 0 \<longrightarrow> checked fn)"

text \<open>``Function known, \<open>offset + width <= text_size\<close>, width and kind valid''; ``every safepoint_call reloc has a gc
  record at \<open>offset + width\<close>''; and the agreement with the ELF relocation at the same place.\<close>

definition doc_reloc :: "gfile \<Rightarrow> reloc \<Rightarrow> bool" where
  "doc_reloc f r \<longleftrightarrow> (let e = unat (rl_Offset r) + unat (rl_Width r) in
     (\<exists>fn\<in>set (gf_Funcs f). fn_Name fn = rl_Func r \<and> e \<le> unat (fn_TextSize fn) \<and>
        (bit (rl_Flags r) 0 \<longrightarrow> (\<exists>g. fn_GC fn = Some g \<and> (\<exists>sp\<in>set (gc_Safepoints g). unat (sp_PC sp) = e)))) \<and>
     1 \<le> unat (rl_Kind r) \<and> unat (rl_Kind r) \<le> 11 \<and>
     (if rl_Kind r = RCallIndirectMark then 1 \<le> unat (rl_Width r) \<and> unat (rl_Width r) \<le> 15
      else unat (rl_Width r) \<in> {1, 2, 4, 8} \<and> doc_name f (rl_Target r)) \<and>
     (\<forall>t. gf_ELFRelocs f (fn_key (rl_Func r) (rl_Offset r)) = Some t \<longrightarrow> t = rl_Target r))"

definition doc_wrapper :: "gfile \<Rightarrow> wrapper \<Rightarrow> bool" where
  "doc_wrapper f wr \<longleftrightarrow> (\<exists>fn\<in>set (gf_Funcs f). fn_Name fn = wr_Sym wr \<and> fn_Kind fn = 1) \<and> doc_name f (wr_Target wr) \<and>
     unat (wr_FromABI wr) \<le> 2 \<and> unat (wr_ToABI wr) \<le> 2"

definition doc_stackmap :: "gfile \<Rightarrow> stackmap \<Rightarrow> bool" where
  "doc_stackmap f sm \<longleftrightarrow> (\<exists>fn\<in>set (gf_Funcs f). fn_Name fn = sm_Func sm \<and> unat (sm_InsnOff sm) < unat (fn_TextSize fn))"

text \<open>``Symbol exists, bitmap fits \<open>size\<close>'': a bit for every word that the symbol reaches into.\<close>

definition doc_data :: "gfile \<Rightarrow> gdata \<Rightarrow> bool" where
  "doc_data f d \<longleftrightarrow> doc_name f (da_Name d) \<and> unat (da_NBits d) \<le> (unat (da_Size d) + 7) div 8"

definition documented :: "(func \<Rightarrow> bool) \<Rightarrow> gfile \<Rightarrow> bool" where
  "documented checked f \<longleftrightarrow> doc_header (gf_Header f) \<and> distinct (map fn_Name (gf_Funcs f)) \<and>
     (\<forall>fn\<in>set (gf_Funcs f). doc_func checked f fn) \<and> (\<forall>wr\<in>set (gf_Wrappers f). doc_wrapper f wr) \<and>
     (\<forall>sm\<in>set (gf_Stackmaps f). doc_stackmap f sm) \<and> (\<forall>r\<in>set (gf_Relocs f). doc_reloc f r) \<and> (\<forall>d\<in>set (gf_Data f). doc_data f d)"

section \<open>Where the code differs\<close>

text \<open>The files on which \<open>Verify\<close> is as strict as the document: there is a source file, no function is empty, a
  symbol that is listed was counted, no row of SP_DELTA is deeper than the frame size, and no sum or product of the
  checks reaches \<open>2^64\<close>.\<close>

definition plain_func :: "func \<Rightarrow> bool" where
  "plain_func fn \<longleftrightarrow> 0 < fn_TextSize fn \<and> (\<forall>g. fn_GC fn = Some g \<longrightarrow> unat (gc_NLocals g) * 8 < 2 ^ 64) \<and>
     (\<forall>t\<in>set (slice (fn_PCValue fn)). pt_Kind t = PCSPDelta \<longrightarrow> (\<forall>e\<in>set (pt_Entries t). sint (pc_Value e) \<le> uint (fn_FrameSize fn)))"

definition plain_file :: "gfile \<Rightarrow> bool" where
  "plain_file f \<longleftrightarrow> gf_Files f \<noteq> [] \<and> (\<forall>nm s. gf_Symbols f nm = Some s \<longrightarrow> 1 \<le> gs_Count s) \<and> (\<forall>fn\<in>set (gf_Funcs f). plain_func fn) \<and>
     (\<forall>r\<in>set (gf_Relocs f). unat (rl_Offset r) + unat (rl_Width r) < 2 ^ 64) \<and>
     (\<forall>d\<in>set (gf_Data f). unat (da_NBits d) * 8 < 2 ^ 64 \<and> unat (da_Size d) + 7 < 2 ^ 64)"

lemma doc_name_ok: "plain_file f \<Longrightarrow> doc_name f nm \<longleftrightarrow> sym_ok f nm"
  unfolding plain_file_def doc_name_def sym_ok_def by (metis le_antisym order_refl)

lemma flag_bit: "bit (w :: 'a :: len word) 0 \<longleftrightarrow> w AND 1 \<noteq> 0"
  by (simp add: and_one_eq odd_iff_mod_2_eq_one bit_0)

lemma max_sp_flat: "plain_func fn \<Longrightarrow> max_sp fn = fn_FrameSize fn"
proof -
  assume p: "plain_func fn"
  have row: "\<not> (sint v > 0 \<and> v > (m :: u64))" if "sint v \<le> uint m" for v m
  proof (cases "sint v > 0")
    case True
    then have "uint v = sint v" using sint_lt [of v] by (simp add: uint_sint [of v] take_bit_int_eq_self)
    then show ?thesis using that by (simp add: word_less_def)
  qed simp
  have rows: "foldl (\<lambda>m e. if sint (pc_Value e) > 0 \<and> pc_Value e > m then pc_Value e else m) m es = m"
    if "\<forall>e\<in>set es. sint (pc_Value e) \<le> uint m" for m es
    using that by (induction es) (simp_all add: row)
  have "foldl (\<lambda>m t. if pt_Kind t = PCSPDelta
       then foldl (\<lambda>m e. if sint (pc_Value e) > 0 \<and> pc_Value e > m then pc_Value e else m) m (pt_Entries t) else m) m ts = m"
    if "\<forall>t\<in>set ts. pt_Kind t = PCSPDelta \<longrightarrow> (\<forall>e\<in>set (pt_Entries t). sint (pc_Value e) \<le> uint m)" for m ts
    using that by (induction ts) (simp_all add: rows)
  then show ?thesis using p unfolding plain_func_def max_sp_def by blast
qed

text \<open>Lists of words that increase.\<close>

lemma increasing: "sorted_wrt (<) (map g xs) \<longleftrightarrow>
    (\<forall>i j. i < j \<longrightarrow> j < length (map (\<lambda>x. unat (g x)) xs) \<longrightarrow> map (\<lambda>x. unat (g x)) xs ! i < map (\<lambda>x. unat (g x)) xs ! j)"
  for g :: "'x \<Rightarrow> 'a :: len word"
  by (auto simp: sorted_wrt_iff_nth_less word_less_nat_alt)

lemma small_word: "unat (w :: u8) \<le> 6 \<and> 1 \<le> unat w \<longleftrightarrow> w \<in> {1, 2, 3, 4, 5, 6}"
proof -
  have "unat w \<le> 6 \<and> 1 \<le> unat w \<longleftrightarrow> unat w \<in> {1, 2, 3, 4, 5, 6}" by auto
  then show ?thesis by (auto simp: word_unat_eq_iff)
qed

lemma doc_table_ok: "plain_func fn \<Longrightarrow> doc_table f fn t \<longleftrightarrow> table_ok f fn t"
proof -
  assume "plain_func fn"
  then have pos: "0 < fn_TextSize fn" by (simp add: plain_func_def)
  have hd: "(pt_Entries t \<noteq> [] \<longrightarrow> pc_PC (hd (pt_Entries t)) = 0) \<longleftrightarrow>
      (map (\<lambda>e. unat (pc_PC e)) (pt_Entries t) \<noteq> [] \<longrightarrow> map (\<lambda>e. unat (pc_PC e)) (pt_Entries t) ! 0 = 0)"
    by (cases "pt_Entries t") (auto simp: unat_eq_zero)
  show ?thesis
    unfolding doc_table_def table_ok_def rows_ok_def Let_def increasing hd using pos small_word [of "pt_Kind t"] by (auto simp: word_less_nat_alt)
qed

lemma doc_inltree_ok: "plain_func fn \<Longrightarrow> doc_inltree f fn \<longleftrightarrow> inl_ok f fn"
proof -
  assume "plain_func fn"
  then have pos: "0 < fn_TextSize fn" by (simp add: plain_func_def)
  have "(p = - 1 \<or> (0 \<le> p \<and> nat p < j)) \<longleftrightarrow> - 1 \<le> p \<and> p < int j" for p j by auto
  then show ?thesis using pos by (simp add: doc_inltree_def inl_ok_def Let_def word_less_nat_alt)
qed

lemma words_fit: "unat n * 8 < 2 ^ 64 \<Longrightarrow> unat ((n :: u64) * 8) = unat n * 8"
  by (simp add: unat_word_ariths)

lemma doc_gcmap_ok:
  assumes "plain_func fn" "header_valid (gf_Header f)" "fn_GC fn = Some g"
  shows "doc_gcmap fn g \<longleftrightarrow> gc_valid f fn g"
proof -
  have n: "unat (gc_NLocals g) * 8 < 2 ^ 64" using assms by (simp add: plain_func_def)
  show ?thesis
    unfolding doc_gcmap_def gc_valid_def Let_def increasing profile_ptr [OF assms(2)] max_sp_flat [OF assms(1)]
    by (auto simp: word_le_nat_alt words_fit [OF n] word_less_nat_alt)
qed

lemma doc_func_ok:
  assumes "plain_file f" "plain_func fn" "header_valid (gf_Header f)" "checked fn = hasStackCheck fn"
  shows "doc_func checked f fn \<longleftrightarrow> func_valid f fn"
proof -
  have abi: "unat (fn_ABI fn) \<le> 1 \<longleftrightarrow> fn_ABI fn \<in> {ABI0, ABIInternal}"
    unfolding abi_kinds [symmetric] by (simp add: not_less word_le_nat_alt)
  have gc: "(\<forall>g. fn_GC fn = Some g \<longrightarrow> doc_gcmap fn g) \<longleftrightarrow> pred_option (gc_valid f fn) (fn_GC fn)"
    using doc_gcmap_ok [OF assms(2,3)] by (cases "fn_GC fn") auto
  have files: "gf_Files f \<noteq> []" using assms(1) by (simp add: plain_file_def)
  show ?thesis
    unfolding doc_func_def func_valid_def abi gc doc_name_ok [OF assms(1)] doc_inltree_ok [OF assms(2)] doc_table_ok [OF assms(2)] flag_bit assms(4)
    using files by auto
qed

lemma doc_reloc_ok:
  assumes "plain_file f" "unat (rl_Offset r) + unat (rl_Width r) < 2 ^ 64"
  shows "doc_reloc f r \<longleftrightarrow> reloc_valid f r"
proof -
  have e: "unat (rl_Offset r + ucast (rl_Width r)) = unat (rl_Offset r) + unat (rl_Width r)"
  proof -
    have "unat (ucast (rl_Width r) :: u64) = unat (rl_Width r)" using unat_lt_exp [of "rl_Width r"] by (simp add: unsigned_ucast_eq take_bit_nat_eq_self)
    then show ?thesis using assms(2) by (simp add: unat_word_ariths)
  qed
  have w: "unat (rl_Width r) \<in> {1, 2, 4, 8} \<longleftrightarrow> rl_Width r \<in> {1, 2, 4, 8}" by (auto simp: word_unat_eq_iff)
  have k: "1 \<le> unat (rl_Kind r) \<and> unat (rl_Kind r) \<le> 11 \<longleftrightarrow> 0 < rl_Kind r \<and> rl_Kind r < rLast" by (auto simp: word_less_nat_alt)
  have pc: "unat (sp_PC sp) = unat (rl_Offset r) + unat (rl_Width r) \<longleftrightarrow> sp_PC sp = rl_Offset r + ucast (rl_Width r)" for sp
    unfolding e [symmetric] by (simp add: word_unat_eq_iff)
  have le: "unat (rl_Offset r) + unat (rl_Width r) \<le> unat (fn_TextSize fn) \<longleftrightarrow> rl_Offset r + ucast (rl_Width r) \<le> fn_TextSize fn" for fn
    unfolding e [symmetric] by (simp add: word_le_nat_alt)
  have m: "1 \<le> unat (rl_Width r) \<and> unat (rl_Width r) \<le> 15 \<longleftrightarrow> 0 < rl_Width r \<and> rl_Width r \<le> 15" by (auto simp: word_less_nat_alt word_le_nat_alt)
  show ?thesis
    unfolding doc_reloc_def reloc_valid_def Let_def le pc w m doc_name_ok [OF assms(1)] flag_bit using k by auto
qed

lemma doc_data_ok:
  assumes "plain_file f" "header_valid (gf_Header f)" "unat (da_NBits d) * 8 < 2 ^ 64" "unat (da_Size d) + 7 < 2 ^ 64"
  shows "doc_data f d \<longleftrightarrow> data_valid f d"
proof -
  have "unat (da_Size d + 8 - 1) = unat (da_Size d) + 7"
    using assms(4) by (simp add: unat_word_ariths)
  then have "da_NBits d * 8 \<le> da_Size d + 8 - 1 \<longleftrightarrow> unat (da_NBits d) \<le> (unat (da_Size d) + 7) div 8"
    by (simp only: word_le_nat_alt words_fit [OF assms(3)]) linarith
  then show ?thesis by (simp add: doc_data_def data_valid_def doc_name_ok [OF assms(1)] profile_ptr [OF assms(2)])
qed

lemma doc_wrapper_ok: "plain_file f \<Longrightarrow> doc_wrapper f wr \<longleftrightarrow> wrapper_valid f wr"
  by (simp add: doc_wrapper_def wrapper_valid_def doc_name_ok word_le_nat_alt)

lemma doc_stackmap_ok: "doc_stackmap f sm \<longleftrightarrow> stackmap_valid f sm"
  by (simp add: doc_stackmap_def stackmap_valid_def word_less_nat_alt)

lemma documented_valid:
  assumes "plain_file f" "\<forall>fn\<in>set (gf_Funcs f). checked fn = hasStackCheck fn"
  shows "documented checked f \<longleftrightarrow> valid f"
proof (cases "header_valid (gf_Header f)")
  case h: True
  have "doc_func checked f fn \<longleftrightarrow> func_valid f fn" if "fn \<in> set (gf_Funcs f)" for fn
    using assms that by (intro doc_func_ok [OF assms(1) _ h]) (auto simp: plain_file_def)
  moreover have "doc_reloc f r \<longleftrightarrow> reloc_valid f r" if "r \<in> set (gf_Relocs f)" for r
    using assms(1) that by (intro doc_reloc_ok [OF assms(1)]) (auto simp: plain_file_def)
  moreover have "doc_data f d \<longleftrightarrow> data_valid f d" if "d \<in> set (gf_Data f)" for d
    using assms(1) that by (intro doc_data_ok [OF assms(1) h]) (auto simp: plain_file_def)
  moreover have "doc_header (gf_Header f) \<longleftrightarrow> header_valid (gf_Header f)" by (simp add: doc_header_def header_valid_def)
  ultimately show ?thesis
    unfolding documented_def valid_def using doc_wrapper_ok [OF assms(1)] doc_stackmap_ok by blast
next
  case False
  then have "\<not> doc_header (gf_Header f)" by (simp add: doc_header_def header_valid_def)
  with False show ?thesis by (simp add: documented_def valid_def)
qed


definition doc_func_ex :: func where
  "doc_func_ex = wrap_func\<lparr>fn_FrameSize := 16, fn_Flags := 1,
     fn_PCValue := Some [\<lparr>pt_Kind = PCSPDelta, pt_Entries = [\<lparr>pc_PC = 0, pc_Value = 0\<rparr>, \<lparr>pc_PC = 4, pc_Value = 16\<rparr>]\<rparr>, \<lparr>pt_Kind = PCUnsafePoint, pt_Entries = [\<lparr>pc_PC = 0, pc_Value = - 2\<rparr>]\<rparr>],
     fn_GC := Some \<lparr>gc_NArgs = 1, gc_NLocals = 2, gc_Safepoints = [\<lparr>sp_PC = 6, sp_Args = [1], sp_Locals = [2], sp_Color = []\<rparr>]\<rparr>\<rparr>"

definition doc_file_ex :: "u64 \<Rightarrow> gfile" where
  "doc_file_ex off = wrap_file\<lparr>gf_Funcs := [doc_func_ex], gf_Files := [''a.c''],
     gf_Relocs := [wrap_reloc\<lparr>rl_Offset := off, rl_Flags := 1\<rparr>]\<rparr>"


end
