(* ===== verification/Pcvalue.thy ===== *)
theory Pcvalue
  imports Gocobj_Verify
begin

text \<open>
  Go pc-value tables: \<open>internal/convert/pctab.go\<close> encodes the (pc, value) rows of a \<open>.gocobj\<close> as
  alternating value and pc deltas, \<open>diffPCValue\<close> of \<open>internal/goobj/diff.go\<close> decodes them the
  way the runtime does. The two are inverse on tables that \<open>Verify\<close> accepts, and the stack map
  blobs index the bitmap pairs of the safepoints.
\<close>

section \<open>pcbytes\<close>

type_synonym seg = "i64 \<times> int"

text \<open>One row: \<open>segs\<close> holds the value and start of every span so far.\<close>

definition add_seg :: "int \<Rightarrow> seg list \<Rightarrow> pcentry \<Rightarrow> seg list" where
  "add_seg sz segs e = (let pc = sint (pc_PC e); (v, st) = last segs in
     if pc < 0 \<or> pc \<ge> sz then segs
     else if pc = st then butlast segs @ [(pc_Value e, st)]
     else if pc_Value e = v then segs
     else segs @ [(pc_Value e, pc)])"

definition segs_of :: "int \<Rightarrow> pcentry list \<Rightarrow> seg list" where
  "segs_of sz ents = foldl (add_seg sz) [(- 1, 0)] ents"

text \<open>\<open>binary.AppendVarint\<close>\<close>

definition zigzag :: "i64 \<Rightarrow> u64" where
  "zigzag x = (if sint x < 0 then NOT (push_bit 1 x) else push_bit 1 x)"

definition append_varint :: "i64 \<Rightarrow> byte list" where
  "append_varint x = enc_uleb (zigzag x)"

definition seg_end :: "int \<Rightarrow> seg list \<Rightarrow> int" where
  "seg_end sz rest = (case rest of [] \<Rightarrow> sz | s # _ \<Rightarrow> snd s)"

fun enc_segs :: "int \<Rightarrow> int \<Rightarrow> i64 \<Rightarrow> seg list \<Rightarrow> byte list" where
  "enc_segs minLC sz prev [] = []"
| "enc_segs minLC sz prev ((v, st) # rest) =
     (let e = seg_end sz rest in
      if e \<le> st then enc_segs minLC sz prev rest
      else append_varint (v - prev) @ enc_uleb (word_of_int ((e - st) div minLC)) @ enc_segs minLC sz v rest)"

definition pcbytes :: "int \<Rightarrow> int \<Rightarrow> pcentry list \<Rightarrow> byte list" where
  "pcbytes minLC sz ents = (if sz \<le> 0 then [] else enc_segs minLC sz (- 1) (segs_of sz ents) @ [0])"

definition pcTable :: "func \<Rightarrow> u8 \<Rightarrow> pcentry list" where
  "pcTable t k = (case find (\<lambda>p. pt_Kind p = k) (slice (fn_PCValue t)) of None \<Rightarrow> [] | Some p \<Rightarrow> pt_Entries p)"

section \<open>diffPCValue\<close>

definition unzigzag :: "u64 \<Rightarrow> i64" where
  "unzigzag uv = drop_bit 1 uv XOR (- (uv AND 1))"

lemma Uvarint_shorter: "Uvarint b = (v, n) \<Longrightarrow> n > 0 \<Longrightarrow> length (drop (nat n) b) < length b"
  using uvarint_consumed [of 0 0 0 b] by (simp add: Uvarint_def)

text \<open>The spans \<open>[start, end) = value\<close> of a table; \<^term>\<open>None\<close> for a malformed one.\<close>

function pc_spans :: "u64 \<Rightarrow> byte list \<Rightarrow> i64 \<Rightarrow> u64 \<Rightarrow> bool \<Rightarrow> (u64 \<times> u64 \<times> i64) list option" where
  "pc_spans quantum b val pc first =
    (if b = [] then Some [] else
     let (uv, n) = Uvarint b in
     if n \<le> 0 then None else
     let b1 = drop (nat n) b in
     if uv = 0 \<and> \<not> first then Some [] else
     let val' = val + unzigzag uv; (d, n') = Uvarint b1 in
     if n' \<le> 0 then None else
     let e = pc + d * quantum in
     map_option (\<lambda>ss. (pc, e, val') # ss) (pc_spans quantum (drop (nat n') b1) val' e False))"
  by pat_completeness auto
termination
proof (relation "measure (\<lambda>(q, b, val, pc, first). length b)", goal_cases)
  case (2 q b val pc first p uv n b1 val' p' d n')
  then have "length b1 < length b" "length (drop (nat n') b1) < length b1"
    using Uvarint_shorter by (metis not_le)+
  then show ?case by simp
qed simp

declare pc_spans.simps [simp del]

definition show_span :: "u64 \<times> u64 \<times> i64 \<Rightarrow> string" where
  "show_span = (\<lambda>(s, e, v). ''['' @ dec_nat (unat s) @ '','' @ dec_nat (unat e) @ '')='' @ dec_int (sint v))"

definition diffPCValue :: "byte list option \<Rightarrow> u64 \<Rightarrow> string" where
  "diffPCValue b quantum = (case b of
     None \<Rightarrow> ''<none>''
   | Some b \<Rightarrow> (case pc_spans quantum b (- 1) 0 True of None \<Rightarrow> ''<bad>'' | Some ss \<Rightarrow> join '' '' (map show_span ss)))"

section \<open>stackmaps\<close>

text \<open>The distinct (args, locals) pairs in order of first use, and the index of each safepoint's
  pair at the byte before its return address.\<close>

fun index_of :: "'a \<Rightarrow> 'a list \<Rightarrow> nat" where
  "index_of x [] = 0"
| "index_of x (y # ys) = (if x = y then 0 else Suc (index_of x ys))"

type_synonym bitmaps = "byte list \<times> byte list"

definition add_map :: "bitmaps list \<times> pcentry list \<Rightarrow> safepoint \<Rightarrow> bitmaps list \<times> pcentry list" where
  "add_map = (\<lambda>(ms, idx) sp. let k = (sp_Args sp, sp_Locals sp); ms' = (if k \<in> set ms then ms else ms @ [k]) in
     (ms', idx @ [\<lparr>pc_PC = sp_PC sp - 1, pc_Value = word_of_nat (index_of k ms')\<rparr>]))"

definition map_blob :: "u64 \<Rightarrow> byte list list \<Rightarrow> byte list" where
  "map_blob nbit maps = le32 (word_of_nat (if maps = [] then 1 else length maps)) @ le32 (ucast nbit) @ concat maps @
     (if maps = [] then replicate (unat ((nbit + 7) div 8)) 0 else [])"

definition stackmaps :: "gcmap \<Rightarrow> byte list \<times> byte list \<times> pcentry list" where
  "stackmaps g = (let (ms, idx) = foldl add_map ([], []) (gc_Safepoints g) in
     (map_blob (gc_NArgs g) (map fst ms), map_blob (gc_NLocals g) (map snd ms), idx))"

section \<open>Zigzag and varints\<close>

lemma bit_sign: "sint (x :: i64) < 0 \<longleftrightarrow> bit x 63"
  using bit_last_iff [of x] by simp

lemma bit_twice: "bit (push_bit 1 (x :: i64)) n \<longleftrightarrow> 0 < n \<and> n < 64 \<and> bit x (n - 1)"
  unfolding bit_push_bit_iff by (auto dest: bit_imp_le_length)

lemma unzigzag_zigzag [simp]: "unzigzag (zigzag x) = x"
proof (cases "sint x < 0")
  case True
  let ?y = "push_bit 1 x"
  have y: "bit ?y n \<longleftrightarrow> 0 < n \<and> n < 64 \<and> bit x (n - 1)" for n by (rule bit_twice)
  have b: "bit x 63" using True by (simp add: bit_sign)
  have "NOT ?y AND 1 = 1"
    by (rule bit_word_eqI) (use y [of 0] in \<open>auto simp: bit_and_iff bit_not_iff bit_1_iff simp del: push_bit_Suc\<close>)
  moreover have "bit (drop_bit 1 (NOT ?y) XOR - 1) n = bit x n" if "n < 64" for n
    using that b y [of "Suc n"] by (cases "n = 63") (simp_all only: bit_xor_iff bit_drop_bit_eq bit_not_iff bit_minus_1_iff, auto simp: bit_not_iff)
  ultimately show ?thesis
    unfolding unzigzag_def zigzag_def if_P [OF True] by (intro bit_word_eqI) simp
next
  case False
  let ?y = "push_bit 1 x"
  have y: "bit ?y n \<longleftrightarrow> 0 < n \<and> n < 64 \<and> bit x (n - 1)" for n by (rule bit_twice)
  have b: "\<not> bit x 63" using False by (simp add: bit_sign)
  have "?y AND 1 = 0"
    by (rule bit_word_eqI) (use y [of 0] in \<open>auto simp: bit_and_iff bit_1_iff intro!: gr0I\<close>)
  moreover have "bit (drop_bit 1 ?y XOR 0) n = bit x n" if "n < 64" for n
    using that b y [of "Suc n"] by (cases "n = 63") (simp_all only: bit_xor_iff bit_drop_bit_eq, auto)
  ultimately show ?thesis
    unfolding unzigzag_def zigzag_def if_not_P [OF False] by (intro bit_word_eqI) simp
qed

lemma zigzag_zero: "zigzag x = 0 \<longleftrightarrow> x = 0"
proof
  assume "zigzag x = 0"
  then have "unzigzag (zigzag x) = 0" by (simp add: unzigzag_def)
  then show "x = 0" by simp
qed (simp add: zigzag_def)

lemma Uvarint_enc: "Uvarint (enc_uleb v @ rest) = (v, int (length (enc_uleb v)))"
proof -
  have "unat v < 2 ^ (64 - 7 * 0)" using unat_lt_exp [of v] by simp
  from enc_uleb_uvarint [OF _ this, of 0 rest] show ?thesis by (simp add: Uvarint_def)
qed

section \<open>Decoding the encoded segments\<close>

lemma pc_spans_step:
  assumes "uv \<noteq> 0 \<or> first"
  shows "pc_spans q (enc_uleb uv @ enc_uleb d @ rest) val pc first =
    map_option (\<lambda>ss. (pc, pc + d * q, val + unzigzag uv) # ss) (pc_spans q rest (val + unzigzag uv) (pc + d * q) False)"
  using assms by (subst pc_spans.simps) (auto simp: Uvarint_enc Let_def)

lemma pc_spans_end: "pc_spans q [0] val pc False = Some []"
  using Uvarint_enc [of 0 "[]"] by (subst pc_spans.simps) (simp add: Let_def enc_uleb.simps)

text \<open>Well-formed segments: starts increase from the first and stay below the size, in steps of the
  instruction quantum, and neighbours differ in value.\<close>

fun segs_ok :: "int \<Rightarrow> int \<Rightarrow> seg list \<Rightarrow> bool" where
  "segs_ok q sz [] \<longleftrightarrow> True"
| "segs_ok q sz ((v, st) # rest) \<longleftrightarrow> st < seg_end sz rest \<and> 0 \<le> st \<and> q dvd seg_end sz rest - st \<and>
     (case rest of [] \<Rightarrow> True | s # _ \<Rightarrow> fst s \<noteq> v) \<and> segs_ok q sz rest"

fun spans_of :: "int \<Rightarrow> seg list \<Rightarrow> (u64 \<times> u64 \<times> i64) list" where
  "spans_of sz [] = []"
| "spans_of sz ((v, st) # rest) = (word_of_int st, word_of_int (seg_end sz rest), v) # spans_of sz rest"

lemma decode_segs:
  assumes "segs_ok q sz segs" "0 < q" "segs = [] \<longrightarrow> \<not> first" "segs \<noteq> [] \<longrightarrow> first \<or> fst (hd segs) \<noteq> prev"
    and "pc = word_of_int (seg_end sz segs)"
  shows "pc_spans (word_of_int q) (enc_segs q sz prev segs @ [0]) prev pc first = Some (spans_of sz segs)"
  using assms
proof (induction q sz segs arbitrary: prev pc first rule: segs_ok.induct)
  case (1 q sz)
  then show ?case by (simp add: pc_spans_end)
next
  case (2 q sz v st rest)
  let ?e = "seg_end sz rest"
  let ?d = "word_of_int ((?e - st) div q) :: u64"
  have e: "st < ?e" and dv: "q dvd ?e - st" and ok: "segs_ok q sz rest" using 2(2) by simp_all
  have pc: "pc = word_of_int st" using 2(6) by (simp add: seg_end_def)
  have "zigzag (v - prev) \<noteq> 0 \<or> first" using 2(5) by (auto simp: zigzag_zero)
  then have st: "pc_spans (word_of_int q) (enc_segs q sz prev ((v, st) # rest) @ [0]) prev pc first =
      map_option (\<lambda>ss. (pc, pc + ?d * word_of_int q, v) # ss)
        (pc_spans (word_of_int q) (enc_segs q sz v rest @ [0]) v (pc + ?d * word_of_int q) False)"
    using e by (simp add: append_varint_def pc_spans_step Let_def)
  have "?d * word_of_int q = word_of_int (?e - st)"
    by (simp only: wi_hom_mult dvd_div_mult_self [OF dv])
  then have nxt: "pc + ?d * word_of_int q = word_of_int ?e" by (simp add: pc wi_hom_syms)
  have "pc_spans (word_of_int q) (enc_segs q sz v rest @ [0]) v (word_of_int ?e) False = Some (spans_of sz rest)"
    using 2(2,3) ok by (intro 2(1)) (auto split: list.splits)
  then show ?case by (simp only: st nxt) (simp add: pc)
qed

section \<open>The segments of a table\<close>

text \<open>The value at a pc: that of the last row at or before it, and \<open>-1\<close> before the first.\<close>

definition val_at :: "pcentry list \<Rightarrow> u64 \<Rightarrow> i64" where
  "val_at es pc = foldl (\<lambda>v e. if pc_PC e \<le> pc then pc_Value e else v) (- 1) es"

definition seg_at :: "seg list \<Rightarrow> int \<Rightarrow> i64" where
  "seg_at segs pc = foldl (\<lambda>v s. if snd s \<le> pc then fst s else v) (- 1) segs"

text \<open>What the loop over the rows maintains.\<close>

definition segs_inv :: "int \<Rightarrow> int \<Rightarrow> seg list \<Rightarrow> bool" where
  "segs_inv q sz segs \<longleftrightarrow> segs \<noteq> [] \<and> snd (hd segs) = 0 \<and> sorted_wrt (<) (map snd segs) \<and>
     (\<forall>s\<in>set segs. 0 \<le> snd s \<and> snd s < sz \<and> q dvd snd s) \<and> (\<forall>i. Suc i < length segs \<longrightarrow> fst (segs ! i) \<noteq> fst (segs ! Suc i))"

lemma segs_inv_ok: "segs_inv q sz segs \<Longrightarrow> q dvd sz \<Longrightarrow> segs_ok q sz segs"
proof -
  have "\<lbrakk>sorted_wrt (<) (map snd segs); \<forall>s\<in>set segs. 0 \<le> snd s \<and> snd s < sz \<and> q dvd snd s;
      \<forall>i. Suc i < length segs \<longrightarrow> fst (segs ! i) \<noteq> fst (segs ! Suc i); q dvd sz\<rbrakk> \<Longrightarrow> segs_ok q sz segs"
  proof (induction q sz segs rule: segs_ok.induct)
    case (2 q sz v st rest)
    have ok: "segs_ok q sz rest"
    proof (rule 2(1))
      show "\<forall>i. Suc i < length rest \<longrightarrow> fst (rest ! i) \<noteq> fst (rest ! Suc i)"
      proof (intro allI impI)
        fix i assume "Suc i < length rest"
        then show "fst (rest ! i) \<noteq> fst (rest ! Suc i)" using 2(4) [rule_format, of "Suc i"] by simp
      qed
    qed (use 2 in auto)
    show ?case
    proof (cases rest)
      case Nil
      then show ?thesis using 2 by (simp add: seg_end_def)
    next
      case (Cons s ss)
      then show ?thesis using 2(2,3,5) 2(4) [rule_format, of 0] ok by (auto simp: seg_end_def dvd_diff)
    qed
  qed simp
  then show "segs_inv q sz segs \<Longrightarrow> q dvd sz \<Longrightarrow> segs_ok q sz segs" by (simp add: segs_inv_def)
qed

lemma sint_cases64: "sint (w :: u64) = (if uint w < 2 ^ 63 then uint w else uint w - 2 ^ 64)"
proof -
  have s: "sint w = (uint w + 2 ^ 63) mod 2 ^ 64 - 2 ^ 63"
    by (simp add: sint_uint signed_take_bit_eq_take_bit_shift take_bit_eq_mod)
  have u: "0 \<le> uint w" "uint w < 2 ^ 64" using uint_lt2p [of w] by simp_all
  show ?thesis
  proof (cases "uint w < 2 ^ 63")
    case True
    then show ?thesis using u unfolding s by (simp add: mod_pos_pos_trivial)
  next
    case False
    have "(uint w + 2 ^ 63) mod 2 ^ 64 = (uint w + 2 ^ 63 - 2 ^ 64) mod 2 ^ 64" by (rule minus_mod_self2 [symmetric])
    also have "\<dots> = uint w + 2 ^ 63 - 2 ^ 64" using False u by (intro mod_pos_pos_trivial) simp_all
    finally show ?thesis using False unfolding s by simp
  qed
qed

lemma seg_at_last: "segs \<noteq> [] \<Longrightarrow> snd (last segs) \<le> pc \<Longrightarrow> seg_at segs pc = fst (last segs)"
  by (cases segs rule: rev_cases) (auto simp: seg_at_def)

lemma seg_at_append: "seg_at (segs @ [s]) pc = (if snd s \<le> pc then fst s else seg_at segs pc)"
  by (simp add: seg_at_def)

lemma val_at_append: "val_at (es @ [e]) pc = (if pc_PC e \<le> pc then pc_Value e else val_at es pc)"
  by (simp add: val_at_def)

definition table_inv :: "int \<Rightarrow> int \<Rightarrow> pcentry list \<Rightarrow> seg list \<Rightarrow> bool" where
  "table_inv q sz es segs \<longleftrightarrow> segs_inv q sz segs \<and> (es = [] \<longrightarrow> segs = [(- 1, 0)]) \<and>
     (snd (last segs) = 0 \<or> (\<exists>d\<in>set es. sint (pc_PC d) = snd (last segs))) \<and>
     (\<forall>w. 0 \<le> sint w \<and> sint w < sz \<longrightarrow> seg_at segs (sint w) = val_at es w)"

lemma le_sint: "0 \<le> sint v \<Longrightarrow> 0 \<le> sint (w :: u64) \<Longrightarrow> v \<le> w \<longleftrightarrow> sint v \<le> sint w"
  using uint_lt2p [of v] uint_lt2p [of w] by (simp add: word_le_def sint_cases64 split: if_splits)

lemma less_imp_sint: "v < w \<Longrightarrow> 0 \<le> sint (w :: u64) \<Longrightarrow> sint v < sint w"
  using uint_lt2p [of v] uint_lt2p [of w] by (simp add: word_less_def sint_cases64 split: if_splits)

lemma neg_sint: "sint v < 0 \<Longrightarrow> 0 \<le> sint (w :: u64) \<Longrightarrow> \<not> v \<le> w"
  using uint_lt2p [of v] uint_lt2p [of w] by (simp add: word_le_def sint_cases64 split: if_splits)

lemma segs_inv_snoc:
  assumes "segs_inv q sz segs" "snd (last segs) < pc" "0 \<le> pc" "pc < sz" "q dvd pc" "fst (last segs) \<noteq> v"
  shows "segs_inv q sz (segs @ [(v, pc)])"
proof -
  have ne: "segs \<noteq> []" using assms by (simp add: segs_inv_def)
  have "sorted_wrt (<) (map snd segs)" using assms by (simp add: segs_inv_def)
  then have "\<forall>s\<in>set segs. snd s \<le> snd (last segs)"
    using ne by (cases segs rule: rev_cases) (auto simp: sorted_wrt_append less_imp_le)
  then have "\<forall>s\<in>set segs. snd s < pc" using assms(2) by fastforce
  moreover have "fst ((segs @ [(v, pc)]) ! i) \<noteq> fst ((segs @ [(v, pc)]) ! Suc i)" if "Suc i < Suc (length segs)" for i
  proof (cases "Suc i < length segs")
    case True
    then show ?thesis using assms(1) by (simp add: segs_inv_def nth_append)
  next
    case False
    then have "i = length segs - 1" "Suc i = length segs" using that by auto
    then show ?thesis using assms(6) ne by (simp add: nth_append last_conv_nth)
  qed
  ultimately show ?thesis using assms ne by (auto simp: segs_inv_def sorted_wrt_append)
qed

lemma table_step:
  assumes J: "table_inv q sz es segs" and inc: "\<forall>d\<in>set es. pc_PC d < pc_PC e" and q: "q dvd sint (pc_PC e)"
  shows "table_inv q sz (es @ [e]) (add_seg sz segs e)"
proof -
  obtain v st where l: "last segs = (v, st)" by (cases "last segs")
  have ne: "segs \<noteq> []" and S: "segs_inv q sz segs" using J by (auto simp: table_inv_def segs_inv_def)
  let ?pc = "sint (pc_PC e)"
  have agree: "seg_at segs (sint w) = val_at es w" if "0 \<le> sint w" "sint w < sz" for w using J that by (simp add: table_inv_def)
  show ?thesis
  proof (cases "?pc < 0 \<or> ?pc \<ge> sz")
    case True
    have "\<not> pc_PC e \<le> w" if "0 \<le> sint w" "sint w < sz" for w
      using True that le_sint [of "pc_PC e" w] neg_sint [of "pc_PC e" w] by (cases "?pc < 0") auto
    with True show ?thesis using J by (auto simp: table_inv_def add_seg_def l val_at_append)
  next
    case False
    then have pc: "0 \<le> ?pc" "?pc < sz" by auto
    have lt: "sint (pc_PC d) < ?pc" if "d \<in> set es" for d using inc that pc less_imp_sint by blast
    have st: "st = 0 \<or> st < ?pc" using J lt by (auto simp: table_inv_def l)
    show ?thesis
    proof (cases "?pc = st")
      case True
      then have z: "?pc = 0" using st by auto
      then have e0: "pc_PC e = 0" using uint_lt2p [of "pc_PC e"] by (simp add: sint_cases64 uint_0_iff split: if_splits)
      then have "es = []" using inc by (cases es) auto
      then show ?thesis
        using J e0 by (auto simp: table_inv_def add_seg_def segs_inv_def seg_at_def val_at_def)
    next
      case ne_st: False
      then have stlt: "st < ?pc" using st pc by auto
      have upd: "val_at (es @ [e]) w = (if ?pc \<le> sint w then pc_Value e else val_at es w)" if "0 \<le> sint w" for w
        using that pc by (simp add: val_at_append le_sint)
      show ?thesis
      proof (cases "pc_Value e = v")
        case True
        have "seg_at segs (sint w) = val_at (es @ [e]) w" if "0 \<le> sint w" "sint w < sz" for w
          using that stlt seg_at_last [OF ne, of "sint w"] True agree [OF that] upd by (simp add: l)
        moreover have "add_seg sz segs e = segs" using False ne_st True by (simp add: add_seg_def l)
        ultimately show ?thesis using J by (auto simp: table_inv_def)
      next
        case ne_v: False
        then have "segs_inv q sz (segs @ [(pc_Value e, ?pc)])"
          using S stlt pc q by (intro segs_inv_snoc) (simp_all add: l)
        then show ?thesis using False ne_st ne_v agree upd by (auto simp: table_inv_def add_seg_def l seg_at_append)
      qed
    qed
  qed
qed

lemma table_segs:
  assumes "sorted_wrt (<) (map pc_PC es)" "\<forall>e\<in>set es. q dvd sint (pc_PC e)" "0 < sz"
  shows "table_inv q sz es (segs_of sz es)"
  using assms
proof (induction es rule: rev_induct)
  case Nil
  then show ?case by (auto simp: table_inv_def segs_inv_def segs_of_def seg_at_def val_at_def)
next
  case (snoc e es)
  then show ?case
    using table_step [of q sz es "segs_of sz es" e] by (simp add: sorted_wrt_append segs_of_def)
qed

text \<open>The value that the decoded spans give a pc.\<close>

definition span_at :: "(u64 \<times> u64 \<times> i64) list \<Rightarrow> u64 \<Rightarrow> i64 option" where
  "span_at ss pc = map_option (\<lambda>(s, e, v). v) (find (\<lambda>(s, e, v). s \<le> pc \<and> pc < e) ss)"

lemma segs_ok_end: "segs_ok q sz segs \<Longrightarrow> seg_end sz segs \<le> sz"
  by (induction q sz segs rule: segs_ok.induct) (auto simp: seg_end_def)

lemma segs_ok_after: "segs_ok q sz segs \<Longrightarrow> pc < seg_end sz segs \<Longrightarrow> foldl (\<lambda>v s. if snd s \<le> pc then fst s else v) v0 segs = v0"
proof (induction q sz segs arbitrary: v0 rule: segs_ok.induct)
  case (2 q sz v st rest)
  then show ?case by (simp add: seg_end_def [of sz "(v, st) # rest"])
qed simp

lemma word_of_int_le: "0 \<le> i \<Longrightarrow> i < 2 ^ 63 \<Longrightarrow> 0 \<le> sint w \<Longrightarrow> word_of_int i \<le> (w :: u64) \<longleftrightarrow> i \<le> sint w"
  "0 \<le> i \<Longrightarrow> i < 2 ^ 63 \<Longrightarrow> 0 \<le> sint w \<Longrightarrow> (w :: u64) < word_of_int i \<longleftrightarrow> sint w < i"
  using uint_lt2p [of w] by (simp_all add: word_le_def word_less_def sint_cases64 uint_word_of_int split: if_splits)

lemma span_at_segs:
  assumes "segs_ok q sz segs" "segs \<noteq> []" "snd (hd segs) \<le> sint w" "sint w < sz" "sz < 2 ^ 63"
  shows "span_at (spans_of sz segs) w = Some (foldl (\<lambda>v s. if snd s \<le> sint w then fst s else v) v0 segs)"
  using assms
proof (induction q sz segs arbitrary: v0 rule: segs_ok.induct)
  case (2 q sz v st rest)
  have st: "0 \<le> st" "st < seg_end sz rest" and ok: "segs_ok q sz rest" and le: "st \<le> sint w" using 2 by simp_all
  have e: "seg_end sz rest \<le> sz" using segs_ok_end [OF ok] .
  have a: "word_of_int st \<le> w" "w < word_of_int (seg_end sz rest) \<longleftrightarrow> sint w < seg_end sz rest"
    using st e le 2(6) by (simp_all add: word_of_int_le)
  show ?case
  proof (cases "sint w < seg_end sz rest")
    case True
    then show ?thesis using a le segs_ok_after [OF ok True, of v] by (simp add: span_at_def)
  next
    case False
    then have "rest \<noteq> []" "snd (hd rest) \<le> sint w" using 2(5) by (auto simp: seg_end_def split: list.splits)
    with False show ?thesis using a le 2(1) [OF ok, of v] 2(5,6) by (simp add: span_at_def)
  qed
qed simp

lemma pcbytes_decodes:
  assumes "sorted_wrt (<) (map pc_PC es)" "\<forall>e\<in>set es. q dvd sint (pc_PC e)" "0 < q" "q dvd sz" "0 < sz" "sz < 2 ^ 63"
  shows "\<exists>ss. pc_spans (word_of_int q) (pcbytes q sz es) (- 1) 0 True = Some ss \<and>
    (\<forall>w. uint w < sz \<longrightarrow> span_at ss w = Some (val_at es w))"
proof -
  let ?segs = "segs_of sz es"
  have J: "table_inv q sz es ?segs" using assms by (intro table_segs)
  then have inv: "segs_inv q sz ?segs" by (simp add: table_inv_def)
  then have ok: "segs_ok q sz ?segs" using assms by (intro segs_inv_ok)
  have hd: "?segs \<noteq> []" "snd (hd ?segs) = 0" using inv by (simp_all add: segs_inv_def)
  then have "seg_end sz ?segs = 0" by (cases ?segs) (simp_all add: seg_end_def)
  then have "pc_spans (word_of_int q) (pcbytes q sz es) (- 1) 0 True = Some (spans_of sz ?segs)"
    using decode_segs [OF ok assms(3), of True] hd assms(5) by (simp add: pcbytes_def)
  moreover have "span_at (spans_of sz ?segs) w = Some (val_at es w)" if "uint w < sz" for w
  proof -
    have w: "sint w = uint w" "0 \<le> sint w" using that assms(6) by (simp_all add: sint_cases64)
    then have "span_at (spans_of sz ?segs) w = Some (seg_at ?segs (sint w))"
      using span_at_segs [OF ok hd(1), of w "- 1"] hd that assms(6) by (simp add: seg_at_def)
    then show ?thesis using J w that unfolding table_inv_def by metis
  qed
  ultimately show ?thesis by blast
qed

section \<open>Rows off the quantum\<close>

text \<open>When the rows are not on the quantum the pc deltas are rounded down, each on its own: \<open>spans_fl\<close> is what is
  read back in general.\<close>

fun spans_fl :: "int \<Rightarrow> int \<Rightarrow> int \<Rightarrow> seg list \<Rightarrow> (u64 \<times> u64 \<times> i64) list" where
  "spans_fl q sz p [] = []"
| "spans_fl q sz p ((v, st) # rest) = (let e = p + (seg_end sz rest - st) div q * q in
     (word_of_int p, word_of_int e, v) # spans_fl q sz e rest)"

lemma decode_fl:
  assumes "segs_ok 1 sz segs" "segs = [] \<longrightarrow> \<not> first" "segs \<noteq> [] \<longrightarrow> first \<or> fst (hd segs) \<noteq> prev"
  shows "pc_spans (word_of_int q) (enc_segs q sz prev segs @ [0]) prev (word_of_int p) first = Some (spans_fl q sz p segs)"
  using assms
proof (induction q sz p segs arbitrary: prev first rule: spans_fl.induct)
  case (1 q sz p)
  then show ?case by (simp add: pc_spans_end)
next
  case (2 q sz p v st rest)
  let ?d = "word_of_int ((seg_end sz rest - st) div q) :: u64"
  let ?e = "p + (seg_end sz rest - st) div q * q"
  have "zigzag (v - prev) \<noteq> 0 \<or> first" using 2(4) by (auto simp: zigzag_zero)
  then have st: "pc_spans (word_of_int q) (enc_segs q sz prev ((v, st) # rest) @ [0]) prev (word_of_int p) first =
      map_option (\<lambda>ss. (word_of_int p, word_of_int p + ?d * word_of_int q, v) # ss)
        (pc_spans (word_of_int q) (enc_segs q sz v rest @ [0]) v (word_of_int p + ?d * word_of_int q) False)"
    using 2(2) by (simp add: append_varint_def pc_spans_step Let_def)
  have nxt: "word_of_int p + ?d * word_of_int q = word_of_int ?e" by (simp only: wi_hom_mult wi_hom_add)
  have "pc_spans (word_of_int q) (enc_segs q sz v rest @ [0]) v (word_of_int ?e) False = Some (spans_fl q sz ?e rest)"
    using 2(2) by (intro 2(1)) (auto split: list.splits)
  then show ?case by (simp only: st nxt) (simp add: Let_def)
qed

text \<open>Starts that are all \<open>3\<close> above the quantum come back \<open>3\<close> lower, and the end comes back \<open>4\<close> lower.\<close>

abbreviation lower :: "seg list \<Rightarrow> seg list" where
  "lower \<equiv> map (\<lambda>(v, st). (v, st - 3))"

lemma spans_fl_lower:
  assumes "segs \<noteq> []" "\<forall>s\<in>set segs. snd s mod 4 = 3" "4 dvd sz"
  shows "spans_fl 4 sz (snd (hd segs) - 3) segs = spans_of (sz - 4) (lower segs)"
  using assms
proof (induction segs)
  case (Cons s rest)
  obtain v st where s: "s = (v, st)" by (cases s)
  have st: "st mod 4 = 3" using Cons.prems(2) by (simp add: s)
  have e: "(st - 3) + (seg_end sz rest - st) div 4 * 4 = seg_end (sz - 4) (lower rest)"
  proof (cases rest)
    case Nil
    then show ?thesis using st Cons.prems(3) by (simp add: seg_end_def) presburger
  next
    case (Cons r rs)
    have "snd r mod 4 = 3" using Cons.prems(2) Cons by simp
    then have "st - 3 + (snd r - st) div 4 * 4 = snd r - 3" using st by presburger
    then show ?thesis using Cons by (simp add: seg_end_def case_prod_beta)
  qed
  show ?case
  proof (cases rest)
    case Nil
    then show ?thesis using e by (simp add: s)
  next
    case (Cons r rs)
    then have h: "seg_end (sz - 4) (lower rest) = snd (hd rest) - 3" by (cases r) (simp add: seg_end_def)
    have IH: "spans_fl 4 sz (seg_end (sz - 4) (lower rest)) rest = spans_of (sz - 4) (lower rest)"
      unfolding h by (rule Cons.IH) (use Cons Cons.prems in simp_all)
    show ?thesis by (simp only: s list.map list.sel snd_conv prod.case spans_fl.simps spans_of.simps Let_def e IH)
  qed
qed simp

lemma sorted_after: "sorted_wrt (\<le>) (map snd segs) \<Longrightarrow> segs = [] \<or> pc < snd (hd segs) \<Longrightarrow>
    foldl (\<lambda>v s. if snd s \<le> pc then fst s else v) v0 segs = v0" for pc :: int
proof (induction segs arbitrary: v0)
  case (Cons s segs)
  then show ?case by (cases segs) auto
qed simp

lemma span_at_sorted:
  assumes "sorted_wrt (\<le>) (map snd segs)" "\<forall>s\<in>set segs. 0 \<le> snd s \<and> snd s \<le> sz" "sz < 2 ^ 63" "segs \<noteq> []" "snd (hd segs) \<le> sint w"
  shows "span_at (spans_of sz segs) w = (if sint w < sz then Some (foldl (\<lambda>v s. if snd s \<le> sint w then fst s else v) v0 segs) else None)"
  using assms
proof (induction segs arbitrary: v0)
  case (Cons s rest)
  obtain v st where s: "s = (v, st)" by (cases s)
  let ?e = "seg_end sz rest"
  have st: "0 \<le> st" "st \<le> sz" "st \<le> sint w" using Cons.prems by (simp_all add: s)
  have e: "0 \<le> ?e" "?e \<le> sz" using Cons.prems st by (cases rest; simp add: seg_end_def)+
  have a: "word_of_int st \<le> w" "w < word_of_int ?e \<longleftrightarrow> sint w < ?e"
    using st e Cons.prems(3) by (simp_all add: word_of_int_le)
  show ?case
  proof (cases "sint w < ?e")
    case True
    then have "rest = [] \<or> sint w < snd (hd rest)" by (cases rest) (simp_all add: seg_end_def)
    then have "foldl (\<lambda>v s. if snd s \<le> sint w then fst s else v) v rest = v" using Cons.prems(1) by (intro sorted_after) simp_all
    then show ?thesis using True a st e by (simp add: s span_at_def)
  next
    case False
    show ?thesis
    proof (cases rest)
      case Nil
      then show ?thesis using False a by (simp add: s span_at_def seg_end_def)
    next
      case (Cons r rs)
      then have "snd (hd rest) \<le> sint w" using False by (simp add: seg_end_def)
      then have "span_at (spans_of sz rest) w = (if sint w < sz then Some (foldl (\<lambda>v s. if snd s \<le> sint w then fst s else v) v rest) else None)"
        using Cons.prems Cons by (intro Cons.IH) simp_all
      then show ?thesis using False a st by (simp add: s span_at_def)
    qed
  qed
qed simp

lemma segs_of_off:
  assumes "\<forall>e\<in>set es. sint (pc_PC e) mod 4 = 3"
  shows "\<exists>rest. segs_of sz es = (- 1, 0) # rest \<and> (\<forall>s\<in>set rest. snd s mod 4 = 3)"
  using assms
proof (induction es rule: rev_induct)
  case (snoc e es)
  then obtain rest where r: "segs_of sz es = (- 1, 0) # rest" "\<forall>s\<in>set rest. snd s mod 4 = 3" by auto
  obtain v st where l: "last (segs_of sz es) = (v, st)" by (cases "last (segs_of sz es)")
  have st: "segs_of sz (es @ [e]) = add_seg sz (segs_of sz es) e" by (simp add: segs_of_def)
  have m: "sint (pc_PC e) mod 4 = 3" using snoc.prems by simp
  show ?case
  proof (cases "sint (pc_PC e) = st")
    case True
    then have "rest \<noteq> []" using l m r by auto
    then show ?thesis using True m r l by (auto simp: st add_seg_def dest: in_set_butlastD)
  next
    case False
    then have "segs_of sz (es @ [e]) \<in> {(- 1, 0) # rest, (- 1, 0) # (rest @ [(pc_Value e, sint (pc_PC e))])}"
      using l by (simp add: st add_seg_def r(1) Let_def)
    then show ?thesis using m r(2) by auto
  qed
qed (simp add: segs_of_def)

lemma pcbytes_decodes_off:
  assumes "sorted_wrt (<) (map pc_PC es)" "\<forall>e\<in>set es. sint (pc_PC e) mod 4 = 3" "4 dvd sz" "0 < sz" "sz < 2 ^ 63"
    and d: "0 \<le> sint d" "sint d < sz" "val_at es d \<noteq> - 1"
  shows "\<exists>ss. pc_spans 4 (pcbytes 4 sz es) (- 1) 0 True = Some ss \<and>
    (\<forall>w. 0 \<le> sint w \<and> sint w < sz \<and> sint w mod 4 = 3 \<longrightarrow> span_at ss w = (if sint w < sz - 4 then Some (val_at es w) else None))"
proof -
  have J: "table_inv 1 sz es (segs_of sz es)" using assms by (intro table_segs) simp_all
  then have inv: "segs_inv 1 sz (segs_of sz es)" and agree: "\<And>w. 0 \<le> sint w \<Longrightarrow> sint w < sz \<Longrightarrow> seg_at (segs_of sz es) (sint w) = val_at es w"
    by (simp_all add: table_inv_def)
  obtain rest where r: "segs_of sz es = (- 1, 0) # rest" and m: "\<forall>s\<in>set rest. snd s mod 4 = 3" using segs_of_off [OF assms(2)] by auto
  have ne: "rest \<noteq> []" using agree [OF d(1,2)] d by (auto simp: r seg_at_def)
  have ok: "segs_ok 1 sz ((- 1, 0) # rest)" using segs_inv_ok [OF inv] by (simp add: r)
  have "pc_spans (word_of_int 4) (enc_segs 4 sz (- 1) ((- 1, 0) # rest) @ [0]) (- 1) (word_of_int 0) True = Some (spans_fl 4 sz 0 ((- 1, 0) # rest))"
    by (rule decode_fl [OF ok]) simp_all
  moreover have "spans_fl 4 sz 0 ((- 1, 0) # rest) = spans_of (sz - 4) ((- 1, 0) # lower rest)"
  proof -
    have e: "seg_end sz rest = snd (hd rest)" "seg_end (sz - 4) (lower rest) = snd (hd rest) - 3" using ne by (cases rest; auto simp: seg_end_def)+
    have "snd (hd rest) mod 4 = 3" using ne m by simp
    then have "seg_end sz rest div 4 * 4 = snd (hd rest) - 3" unfolding e by presburger
    then show ?thesis using spans_fl_lower [OF ne m assms(3)] by (simp add: e Let_def)
  qed
  ultimately have dec: "pc_spans 4 (pcbytes 4 sz es) (- 1) 0 True = Some (spans_of (sz - 4) ((- 1, 0) # lower rest))"
    using assms(4) by (simp add: pcbytes_def r)
  have srt: "sorted_wrt (<) (map snd rest)" "\<forall>s\<in>set rest. 0 \<le> snd s \<and> snd s < sz" using inv by (auto simp: segs_inv_def r)
  have bnd: "0 \<le> snd s - 3 \<and> snd s - 3 \<le> sz - 4" if "s \<in> set rest" for s
  proof -
    have "0 \<le> snd s" "snd s < sz" "snd s mod 4 = 3" using that srt m by auto
    then show ?thesis using assms(3) by presburger
  qed
  have sorted: "sorted_wrt (\<le>) (map snd ((- 1, 0) # lower rest))"
    using srt(1) bnd by (force simp: sorted_wrt_map case_prod_beta elim!: sorted_wrt_mono_rel [rotated])
  have "span_at (spans_of (sz - 4) ((- 1, 0) # lower rest)) w = (if sint w < sz - 4 then Some (val_at es w) else None)"
    if w: "0 \<le> sint w" "sint w < sz" "sint w mod 4 = 3" for w
  proof -
    have low: "snd s - 3 \<le> sint w \<longleftrightarrow> snd s \<le> sint w" if "s \<in> set rest" for s
    proof -
      have "snd s mod 4 = 3" using that m by auto
      then show ?thesis using w(3) by presburger
    qed
    have "foldl (\<lambda>v s. if snd s \<le> sint w then fst s else v) v0 (lower rest) = foldl (\<lambda>v s. if snd s \<le> sint w then fst s else v) v0 rest" for v0
      unfolding foldl_map using low by (intro foldl_cong) (auto simp: case_prod_beta)
    then have "foldl (\<lambda>v s. if snd s \<le> sint w then fst s else v) v0 ((- 1, 0) # lower rest) = val_at es w" for v0
      using agree [OF w(1,2)] w(1) by (simp add: r seg_at_def)
    moreover have "\<forall>s\<in>set ((- 1, 0) # lower rest). 0 \<le> snd s \<and> snd s \<le> sz - 4"
      using bnd assms(3,4) by (auto simp: case_prod_beta zdvd_imp_le)
    ultimately show ?thesis using span_at_sorted [OF sorted, of "sz - 4" w "- 1"] assms(5) w(1) by simp
  qed
  with dec show ?thesis by blast
qed

section \<open>Stack maps\<close>

lemma index_of_nth: "x \<in> set xs \<Longrightarrow> index_of x xs < length xs \<and> xs ! index_of x xs = x"
  by (induction xs) auto

lemma index_of_append: "x \<in> set xs \<Longrightarrow> index_of x (xs @ ys) = index_of x xs"
  by (induction xs) auto

text \<open>After the loop: no pair is stored twice, and every safepoint has its row, whose value is the
  position of its pair.\<close>

definition maps_ok :: "safepoint list \<Rightarrow> bitmaps list \<times> pcentry list \<Rightarrow> bool" where
  "maps_ok sps st \<longleftrightarrow> distinct (fst st) \<and> set (fst st) = (\<lambda>sp. (sp_Args sp, sp_Locals sp)) ` set sps \<and>
     snd st = map (\<lambda>sp. \<lparr>pc_PC = sp_PC sp - 1, pc_Value = word_of_nat (index_of (sp_Args sp, sp_Locals sp) (fst st))\<rparr>) sps"

lemma maps_ok_foldl: "maps_ok sps (foldl add_map ([], []) sps)"
proof (induction sps rule: rev_induct)
  case Nil
  then show ?case by (simp add: maps_ok_def)
next
  case (snoc sp sps)
  obtain ms idx where st: "foldl add_map ([], []) sps = (ms, idx)" by (cases "foldl add_map ([], []) sps")
  let ?k = "(sp_Args sp, sp_Locals sp)"
  have IH: "maps_ok sps (ms, idx)" using snoc by (simp add: st)
  have step: "add_map (ms, idx) sp = (let ms' = (if ?k \<in> set ms then ms else ms @ [?k]) in
      (ms', idx @ [\<lparr>pc_PC = sp_PC sp - 1, pc_Value = word_of_nat (index_of ?k ms')\<rparr>]))"
    by (simp add: add_map_def Let_def)
  have "index_of (sp_Args s, sp_Locals s) (ms @ [?k]) = index_of (sp_Args s, sp_Locals s) ms" if "s \<in> set sps" for s
    using IH that by (intro index_of_append) (auto simp: maps_ok_def)
  then have "maps_ok (sps @ [sp]) (add_map (ms, idx) sp)"
    unfolding step Let_def using IH by (cases "?k \<in> set ms") (auto simp: maps_ok_def)
  then show ?case by (simp add: st)
qed

lemma concat_stride: "\<forall>x\<in>set xs. length x = n \<Longrightarrow> k < length xs \<Longrightarrow> take n (drop (k * n) (concat xs)) = xs ! k"
proof (induction xs arbitrary: k)
  case (Cons x xs)
  then show ?case by (cases k) (auto simp: add.commute)
qed simp

text \<open>What the runtime reads from a stack map blob: the bitmap at an index.\<close>

definition blob_bitmap :: "u64 \<Rightarrow> byte list \<Rightarrow> nat \<Rightarrow> byte list" where
  "blob_bitmap nbit b k = (let stride = unat ((nbit + 7) div 8) in take stride (drop (8 + k * stride) b))"

lemma blob_bitmap_nth:
  assumes "\<forall>m\<in>set maps. length m = unat ((nbit + 7) div 8)" "k < length maps"
  shows "blob_bitmap nbit (map_blob nbit maps) k = maps ! k"
proof -
  let ?n = "unat ((nbit + 7) div 8)"
  have "maps \<noteq> []" using assms by auto
  then have "drop (8 + k * ?n) (map_blob nbit maps) = drop (k * ?n) (concat maps)"
    by (simp add: map_blob_def)
  then show ?thesis using concat_stride [OF assms] by (simp add: blob_bitmap_def Let_def)
qed

lemma val_at_row:
  assumes "sorted_wrt (<) (map pc_PC es)" "e \<in> set es"
  shows "val_at es (pc_PC e) = pc_Value e"
  using assms
proof (induction es rule: rev_induct)
  case (snoc d es)
  show ?case
  proof (cases "e = d")
    case True
    then show ?thesis by (simp add: val_at_append)
  next
    case False
    then have "pc_PC e < pc_PC d" "val_at es (pc_PC e) = pc_Value e" using snoc by (auto simp: sorted_wrt_append)
    then show ?thesis by (auto simp: val_at_append dest: leD)
  qed
qed simp

lemma pred_mono: "0 < a \<Longrightarrow> a < b \<Longrightarrow> a - 1 < (b :: u64) - 1"
  by (simp add: word_less_nat_alt unat_sub word_le_nat_alt)

lemma sorted_pred:
  assumes "sorted_wrt (<) (map sp_PC sps)" "\<forall>sp\<in>set sps. 0 < sp_PC sp"
  shows "sorted_wrt (<) (map (\<lambda>sp. sp_PC sp - 1) sps)"
  using assms by (induction sps) (auto intro!: pred_mono)

lemma stackmap_rows:
  assumes gc: "gc_valid f fn g" and fit: "\<forall>sp\<in>set (gc_Safepoints g). length (sp_Args sp) = unat ((gc_NArgs g + 7) div 8) \<and>
      length (sp_Locals sp) = unat ((gc_NLocals g + 7) div 8)"
    and maps: "stackmaps g = (args, locals, idx)" and sp: "sp \<in> set (gc_Safepoints g)"
  obtains k where "map pc_PC idx = map (\<lambda>sp. sp_PC sp - 1) (gc_Safepoints g)" "sorted_wrt (<) (map pc_PC idx)"
    "val_at idx (sp_PC sp - 1) = word_of_nat k" "word_of_nat k \<noteq> (- 1 :: i64)"
    "blob_bitmap (gc_NArgs g) args k = sp_Args sp" "blob_bitmap (gc_NLocals g) locals k = sp_Locals sp"
proof -
  let ?sps = "gc_Safepoints g"
  obtain ms ix where st: "foldl add_map ([], []) ?sps = (ms, ix)" by (cases "foldl add_map ([], []) ?sps")
  have ok: "maps_ok ?sps (ms, ix)" using maps_ok_foldl [of ?sps] by (simp add: st)
  have out: "args = map_blob (gc_NArgs g) (map fst ms)" "locals = map_blob (gc_NLocals g) (map snd ms)" "idx = ix"
    using maps by (auto simp: stackmaps_def st)
  let ?k = "index_of (sp_Args sp, sp_Locals sp) ms"
  have k: "?k < length ms" "ms ! ?k = (sp_Args sp, sp_Locals sp)"
    using ok sp index_of_nth [of "(sp_Args sp, sp_Locals sp)" ms] by (auto simp: maps_ok_def)
  have pos: "\<forall>sp\<in>set ?sps. 0 < sp_PC sp" and srt: "sorted_wrt (<) (map sp_PC ?sps)"
    using gc by (simp_all add: gc_valid_def)
  have ix: "idx = map (\<lambda>sp. \<lparr>pc_PC = sp_PC sp - 1, pc_Value = word_of_nat (index_of (sp_Args sp, sp_Locals sp) ms)\<rparr>) ?sps"
    using ok by (simp add: maps_ok_def out)
  have sidx: "sorted_wrt (<) (map pc_PC idx)" using sorted_pred [OF srt pos] by (simp add: ix comp_def)
  have "length ms = card (set ms)" using ok distinct_card [of ms] by (simp add: maps_ok_def)
  also have "\<dots> \<le> length ?sps" 
    using ok card_image_le [OF List.finite_set, of "\<lambda>sp. (sp_Args sp, sp_Locals sp)" ?sps] card_length [of ?sps] by (simp add: maps_ok_def)
  also have "\<dots> = card (set (map sp_PC ?sps))" using srt by (metis distinct_card length_map strict_sorted_iff)
  also have "\<dots> \<le> card (UNIV - {0 :: u64})" using pos by (intro card_mono) auto
  also have "\<dots> = 2 ^ 64 - 1" by (simp add: card_word card_Diff_subset)
  finally have small: "?k < 2 ^ 64 - 1" using k(1) by linarith
  have top: "word_of_nat ?k \<noteq> (- 1 :: i64)"
  proof
    assume "word_of_nat ?k = (- 1 :: i64)"
    then have "unat (word_of_nat ?k :: i64) = 2 ^ 64 - 1" by (simp only: unsigned_minus_1_eq_mask mask_eq_exp_minus_1, simp)
    then show False using small by (simp add: unat_of_nat)
  qed
  have row: "val_at idx (sp_PC sp - 1) = word_of_nat ?k"
    using val_at_row [OF sidx, of "\<lparr>pc_PC = sp_PC sp - 1, pc_Value = word_of_nat ?k\<rparr>"] sp by (auto simp: ix)
  have pcs: "map pc_PC idx = map (\<lambda>sp. sp_PC sp - 1) ?sps" by (simp add: ix comp_def)
  have "blob_bitmap (gc_NArgs g) args ?k = sp_Args sp" "blob_bitmap (gc_NLocals g) locals ?k = sp_Locals sp"
    using k ok fit by (auto simp: out blob_bitmap_nth maps_ok_def)
  with pcs sidx row top show thesis by (rule that)
qed

text \<open>The byte before a return address.\<close>

lemma before_return:
  assumes "0 < pc" "pc \<le> (n :: u64)" "uint n < 2 ^ 63"
  shows "sint (pc - 1) = uint pc - 1" "uint (pc - 1) = uint pc - 1" "uint (pc - 1) < uint n" "0 < uint n"
proof -
  have "0 < uint pc" "uint pc \<le> uint n" using assms by (simp_all add: word_le_def word_less_def)
  moreover show u: "uint (pc - 1) = uint pc - 1" using \<open>0 < uint pc\<close> uint_lt2p [of pc] by (simp add: uint_word_ariths mod_pos_pos_trivial)
  ultimately show "sint (pc - 1) = uint pc - 1" "uint (pc - 1) < uint n" "0 < uint n" using assms(3) by (simp_all add: sint_cases64)
qed

lemma stackmap_at_safepoint:
  assumes gc: "gc_valid f fn g" and fit: "\<forall>sp\<in>set (gc_Safepoints g). length (sp_Args sp) = unat ((gc_NArgs g + 7) div 8) \<and>
      length (sp_Locals sp) = unat ((gc_NLocals g + 7) div 8)"
    and small: "uint (fn_TextSize fn) < 2 ^ 63"
    and maps: "stackmaps g = (args, locals, idx)" and sp: "sp \<in> set (gc_Safepoints g)"
  shows "\<exists>ss k. pc_spans 1 (pcbytes 1 (uint (fn_TextSize fn)) idx) (- 1) 0 True = Some ss \<and>
    span_at ss (sp_PC sp - 1) = Some (word_of_nat k) \<and>
    blob_bitmap (gc_NArgs g) args k = sp_Args sp \<and> blob_bitmap (gc_NLocals g) locals k = sp_Locals sp"
proof -
  obtain k where k: "sorted_wrt (<) (map pc_PC idx)" "val_at idx (sp_PC sp - 1) = word_of_nat k"
    "blob_bitmap (gc_NArgs g) args k = sp_Args sp" "blob_bitmap (gc_NLocals g) locals k = sp_Locals sp"
    using stackmap_rows [OF gc fit maps sp] by metis
  have one: "0 < sp_PC sp" "sp_PC sp \<le> fn_TextSize fn" using gc sp by (auto simp: gc_valid_def)
  note b = before_return [OF one small]
  obtain ss where "pc_spans 1 (pcbytes 1 (uint (fn_TextSize fn)) idx) (- 1) 0 True = Some ss"
    "\<forall>w. uint w < uint (fn_TextSize fn) \<longrightarrow> span_at ss w = Some (val_at idx w)"
    using pcbytes_decodes [OF k(1), of 1 "uint (fn_TextSize fn)"] b small by auto
  then show ?thesis using b k by metis
qed

text \<open>With the quantum \<open>4\<close> a safepoint finds its maps unless it is the end of the function.\<close>

lemma stackmap_at_safepoint4:
  assumes gc: "gc_valid f fn g" and fit: "\<forall>sp\<in>set (gc_Safepoints g). length (sp_Args sp) = unat ((gc_NArgs g + 7) div 8) \<and>
      length (sp_Locals sp) = unat ((gc_NLocals g + 7) div 8)"
    and small: "uint (fn_TextSize fn) < 2 ^ 63"
    and maps: "stackmaps g = (args, locals, idx)" and sp: "sp \<in> set (gc_Safepoints g)"
    and four: "4 dvd uint (fn_TextSize fn)" "\<forall>sp\<in>set (gc_Safepoints g). 4 dvd uint (sp_PC sp)"
  shows "\<exists>ss k. pc_spans 4 (pcbytes 4 (uint (fn_TextSize fn)) idx) (- 1) 0 True = Some ss \<and>
    span_at ss (sp_PC sp - 1) = (if sp_PC sp < fn_TextSize fn then Some (word_of_nat k) else None) \<and>
    blob_bitmap (gc_NArgs g) args k = sp_Args sp \<and> blob_bitmap (gc_NLocals g) locals k = sp_Locals sp"
proof -
  let ?n = "uint (fn_TextSize fn)"
  obtain k where k: "map pc_PC idx = map (\<lambda>sp. sp_PC sp - 1) (gc_Safepoints g)" "sorted_wrt (<) (map pc_PC idx)"
    "val_at idx (sp_PC sp - 1) = word_of_nat k" "word_of_nat k \<noteq> (- 1 :: i64)"
    "blob_bitmap (gc_NArgs g) args k = sp_Args sp" "blob_bitmap (gc_NLocals g) locals k = sp_Locals sp"
    using stackmap_rows [OF gc fit maps sp] .
  have b: "sint (s - 1) = uint s - 1" "uint (s - 1) < ?n" "0 < ?n" "(uint s - 1) mod 4 = 3"
    if "s \<in> sp_PC ` set (gc_Safepoints g)" for s
  proof -
    have one: "0 < s" "s \<le> fn_TextSize fn" using gc that by (auto simp: gc_valid_def)
    show "sint (s - 1) = uint s - 1" "uint (s - 1) < ?n" "0 < ?n" using before_return [OF one small] by simp_all
    have "4 dvd uint s" using four(2) that by auto
    then show "(uint s - 1) mod 4 = 3" by presburger
  qed
  have s: "sp_PC sp \<in> sp_PC ` set (gc_Safepoints g)" using sp by simp
  have off: "\<forall>e\<in>set idx. sint (pc_PC e) mod 4 = 3"
  proof
    fix e assume "e \<in> set idx"
    then have "pc_PC e \<in> set (map (\<lambda>sp. sp_PC sp - 1) (gc_Safepoints g))" by (simp flip: k(1))
    then show "sint (pc_PC e) mod 4 = 3" using b by auto
  qed
  have in_range: "0 \<le> sint (sp_PC sp - 1)" "sint (sp_PC sp - 1) < ?n" "sint (sp_PC sp - 1) mod 4 = 3"
    using b [OF s] before_return(2) [of "sp_PC sp" "fn_TextSize fn"] gc sp small by (auto simp: gc_valid_def word_less_def)
  obtain ss where ss: "pc_spans 4 (pcbytes 4 ?n idx) (- 1) 0 True = Some ss"
    "span_at ss (sp_PC sp - 1) = (if sint (sp_PC sp - 1) < ?n - 4 then Some (val_at idx (sp_PC sp - 1)) else None)"
    using pcbytes_decodes_off [OF k(2) off four(1) b(3) [OF s] small in_range(1,2)] in_range k(3,4) by auto
  have d: "4 dvd uint (sp_PC sp)" using four(2) sp by simp
  have "sint (sp_PC sp - 1) < ?n - 4 \<longleftrightarrow> uint (sp_PC sp) < ?n" unfolding b(1) [OF s] using d four(1) by presburger
  then have "span_at ss (sp_PC sp - 1) = (if sp_PC sp < fn_TextSize fn then Some (word_of_nat k) else None)"
    using ss(2) k(3) by (simp add: word_less_def)
  then show ?thesis using ss(1) k(5,6) by blast
qed

section \<open>Properties\<close>

definition pc_func :: func where
  "pc_func = wrap_func\<lparr>fn_FrameSize := 16,
     fn_PCValue := Some [\<lparr>pt_Kind = PCSPDelta, pt_Entries = [\<lparr>pc_PC = 0, pc_Value = 0\<rparr>, \<lparr>pc_PC = 4, pc_Value = 16\<rparr>]\<rparr>],
     fn_GC := Some \<lparr>gc_NArgs = 1, gc_NLocals = 2, gc_Safepoints = [\<lparr>sp_PC = 4, sp_Args = [1], sp_Locals = [2], sp_Color = []\<rparr>,
       \<lparr>sp_PC = 8, sp_Args = [0], sp_Locals = [2], sp_Color = []\<rparr>]\<rparr>\<rparr>"

definition pc_file :: gfile where
  "pc_file = wrap_file\<lparr>gf_Funcs := [pc_func], gf_Relocs := []\<rparr>"

lemma pc_file_valid: "Verify pc_file = []"
  unfolding Verify_nil
  by (simp add: valid_def pc_file_def pc_func_def wrap_file_def empty_file_def wrap_func_def func_valid_def sym_ok_def
      inl_ok_def slice_def header_valid_def LookupProfile_def profiles_def amd64_profile_def table_ok_def rows_ok_def
      gc_valid_def max_sp_def verify_ptr_def)



text \<open>C11: Safepoints find their stack maps. For a verified function with a GC map whose bitmaps have the declared
  length (as \<open>Parse\<close> makes them), looking up the byte before a safepoint's return address in the encoded
  StackMapIndex table gives an index at which the two stack map blobs hold that safepoint's argument and local bitmaps.
  This holds of every safepoint with the amd64 quantum \<open>1\<close>; with the arm64 quantum \<open>4\<close>, where the size and the
  return addresses are multiples of \<open>4\<close>, it holds of every safepoint whose return address is inside the function.\<close>

theorem safepoint_stackmap:
  assumes "Verify f = []" and "fn \<in> set (gf_Funcs f)" and "fn_GC fn = Some g"
    and "\<forall>sp\<in>set (gc_Safepoints g). length (sp_Args sp) = unat ((gc_NArgs g + 7) div 8) \<and> length (sp_Locals sp) = unat ((gc_NLocals g + 7) div 8)"
    and "uint (fn_TextSize fn) < 2 ^ 63" and "stackmaps g = (args, locals, idx)" and "sp \<in> set (gc_Safepoints g)"
    and "minLC = 1 \<or> minLC = 4 \<and> 4 dvd uint (fn_TextSize fn) \<and> (\<forall>s\<in>set (gc_Safepoints g). 4 dvd uint (sp_PC s)) \<and> sp_PC sp < fn_TextSize fn"
  shows "\<exists>ss k. pc_spans (word_of_int minLC) (pcbytes minLC (uint (fn_TextSize fn)) idx) (- 1) 0 True = Some ss \<and>
    span_at ss (sp_PC sp - 1) = Some (word_of_nat k) \<and>
    blob_bitmap (gc_NArgs g) args k = sp_Args sp \<and> blob_bitmap (gc_NLocals g) locals k = sp_Locals sp"
proof -
  have gc: "gc_valid f fn g" using assms(1-3) by (auto simp: Verify_nil valid_def func_valid_def)
  show ?thesis
  proof (cases "minLC = 1")
    case True
    then show ?thesis using stackmap_at_safepoint [OF gc assms(4-7)] by simp
  next
    case False
    then show ?thesis using stackmap_at_safepoint4 [OF gc assms(4-7)] assms(8) by simp
  qed
qed

theorem safepoint_stackmap_witness: "\<exists>args locals idx ss k ss' k'. stackmaps (the (fn_GC pc_func)) = (args, locals, idx) \<and>
    pc_spans 1 (pcbytes 1 8 idx) (- 1) 0 True = Some ss \<and> span_at ss 7 = Some (word_of_nat k) \<and> blob_bitmap 1 args k = [0] \<and> blob_bitmap 2 locals k = [2] \<and>
    pc_spans 4 (pcbytes 4 8 idx) (- 1) 0 True = Some ss' \<and> span_at ss' 3 = Some (word_of_nat k') \<and> blob_bitmap 1 args k' = [1] \<and> blob_bitmap 2 locals k' = [2]"
proof -
  obtain args locals idx where st: "stackmaps (the (fn_GC pc_func)) = (args, locals, idx)" by (cases "stackmaps (the (fn_GC pc_func))")
  have fn: "pc_func \<in> set (gf_Funcs pc_file)" "fn_GC pc_func = Some (the (fn_GC pc_func))" by (simp_all add: pc_file_def pc_func_def)
  note s = safepoint_stackmap [OF pc_file_valid fn _ _ st]
  have "\<exists>ss k. pc_spans 1 (pcbytes 1 8 idx) (- 1) 0 True = Some ss \<and> span_at ss 7 = Some (word_of_nat k) \<and> blob_bitmap 1 args k = [0] \<and> blob_bitmap 2 locals k = [2]"
    using s [of "\<lparr>sp_PC = 8, sp_Args = [0], sp_Locals = [2], sp_Color = []\<rparr>" 1] by (simp add: pc_func_def wrap_func_def)
  moreover have "\<exists>ss k. pc_spans 4 (pcbytes 4 8 idx) (- 1) 0 True = Some ss \<and> span_at ss 3 = Some (word_of_nat k) \<and> blob_bitmap 1 args k = [1] \<and> blob_bitmap 2 locals k = [2]"
    using s [of "\<lparr>sp_PC = 4, sp_Args = [1], sp_Locals = [2], sp_Color = []\<rparr>" 4] by (simp add: pc_func_def wrap_func_def)
  ultimately show ?thesis using st by blast
qed

text \<open>C12: With the arm64 quantum a function that ends in a call loses the stack map of that call. The rows start one byte
  before the return addresses, off the quantum, and the pc deltas are rounded down, so the table of any verified
  function stops one instruction short: a safepoint whose return address is the end of the function has no entry.\<close>

theorem arm64_last_call_uncovered:
  assumes "Verify f = []" and "fn \<in> set (gf_Funcs f)" and "fn_GC fn = Some g"
    and "\<forall>sp\<in>set (gc_Safepoints g). length (sp_Args sp) = unat ((gc_NArgs g + 7) div 8) \<and> length (sp_Locals sp) = unat ((gc_NLocals g + 7) div 8)"
    and "uint (fn_TextSize fn) < 2 ^ 63" and "stackmaps g = (args, locals, idx)" and "sp \<in> set (gc_Safepoints g)"
    and "4 dvd uint (fn_TextSize fn)" and "\<forall>s\<in>set (gc_Safepoints g). 4 dvd uint (sp_PC s)" and "sp_PC sp = fn_TextSize fn"
  shows "\<exists>ss. pc_spans 4 (pcbytes 4 (uint (fn_TextSize fn)) idx) (- 1) 0 True = Some ss \<and> span_at ss (sp_PC sp - 1) = None"
proof -
  have gc: "gc_valid f fn g" using assms(1-3) by (auto simp: Verify_nil valid_def func_valid_def)
  show ?thesis using stackmap_at_safepoint4 [OF gc assms(4-9)] assms(10) by auto
qed

theorem arm64_last_call_uncovered_witness: "\<exists>args locals idx ss. stackmaps (the (fn_GC pc_func)) = (args, locals, idx) \<and>
    pc_spans 4 (pcbytes 4 8 idx) (- 1) 0 True = Some ss \<and> span_at ss 7 = None"
proof -
  obtain args locals idx where st: "stackmaps (the (fn_GC pc_func)) = (args, locals, idx)" by (cases "stackmaps (the (fn_GC pc_func))")
  have fn: "pc_func \<in> set (gf_Funcs pc_file)" "fn_GC pc_func = Some (the (fn_GC pc_func))" by (simp_all add: pc_file_def pc_func_def)
  have "\<exists>ss. pc_spans 4 (pcbytes 4 8 idx) (- 1) 0 True = Some ss \<and> span_at ss 7 = None"
    using arm64_last_call_uncovered [OF pc_file_valid fn _ _ st, of "\<lparr>sp_PC = 8, sp_Args = [0], sp_Locals = [2], sp_Color = []\<rparr>"]
    by (simp add: pc_func_def wrap_func_def)
  with st show ?thesis by blast
qed

end
