(* ===== verification/Ll_Parse.thy ===== *)
theory Ll_Parse
  imports Goc_Prelude
begin

text \<open>
  Text helpers of \<open>internal/lower/goabi_parse.go\<close> and \<open>goabi.go\<close>: trimming, splitting an LLVM
  parameter list at its top level, matching parentheses, renaming symbols, reading a decimal. The
  sources scan byte strings; white space is the ASCII white space that LLVM prints.
\<close>

section \<open>Strings\<close>

definition c_space :: "char \<Rightarrow> bool" where
  "c_space c \<longleftrightarrow> of_char c \<in> {9, 10, 11, 12, 13, 32 :: nat}"

definition TrimLeft :: "string \<Rightarrow> string" where
  "TrimLeft s = dropWhile c_space s"

definition TrimSpace :: "string \<Rightarrow> string" where
  "TrimSpace s = rev (TrimLeft (rev (TrimLeft s)))"

definition HasPrefix :: "string \<Rightarrow> string \<Rightarrow> bool" where
  "HasPrefix s p \<longleftrightarrow> take (length p) s = p"

definition HasSuffix :: "string \<Rightarrow> string \<Rightarrow> bool" where
  "HasSuffix s p \<longleftrightarrow> HasPrefix (rev s) (rev p)"

definition TrimSuffix :: "string \<Rightarrow> string \<Rightarrow> string" where
  "TrimSuffix s p = (if HasSuffix s p then take (length s - length p) s else s)"

definition TrimPrefix :: "string \<Rightarrow> string \<Rightarrow> string" where
  "TrimPrefix s p = (if HasPrefix s p then drop (length p) s else s)"

definition c_digit :: "char \<Rightarrow> bool" where
  "c_digit c \<longleftrightarrow> 48 \<le> (of_char c :: nat) \<and> (of_char c :: nat) \<le> 57"

text \<open>\<open>atoi\<close> works in Go's 64-bit \<open>int\<close>.\<close>

definition atoi :: "string \<Rightarrow> i64" where
  "atoi s = foldl (\<lambda>n c. n * 10 + (word_of_nat (of_char c) - 48)) 0 s"

section \<open>splitTopLevel\<close>

definition c_open :: "char \<Rightarrow> bool" where
  "c_open c \<longleftrightarrow> c \<in> {CHR ''('', CHR ''['', CHR ''{'', CHR ''<''}"

definition c_pair :: "char \<Rightarrow> char option" where
  "c_pair c = (if c = CHR '')'' then Some (CHR ''('') else if c = CHR '']'' then Some (CHR ''['')
     else if c = CHR ''}'' then Some (CHR ''{'') else if c = CHR ''>'' then Some (CHR ''<'') else None)"

text \<open>The loop: the current part (reversed), the open brackets (innermost first) and the parts.\<close>

fun split_loop :: "string \<Rightarrow> char list \<Rightarrow> string list \<Rightarrow> string \<Rightarrow> string list \<times> string" where
  "split_loop cur stack parts [] = (parts, cur)"
| "split_loop cur stack parts (ch # rest) =
     (if c_open ch then split_loop (ch # cur) (ch # stack) parts rest
      else case c_pair ch of
        Some op \<Rightarrow> split_loop (ch # cur) (case stack of x # xs \<Rightarrow> (if x = op then xs else stack) | [] \<Rightarrow> []) parts rest
      | None \<Rightarrow> if ch = CHR '','' \<and> stack = [] then split_loop [] stack (parts @ [TrimSpace (rev cur)]) rest
          else split_loop (ch # cur) stack parts rest)"

definition splitTopLevel :: "string \<Rightarrow> string list" where
  "splitTopLevel text = (let (parts, cur) = split_loop [] [] [] text; tail = TrimSpace (rev cur) in
     if tail \<noteq> [] then parts @ [tail] else parts)"

section \<open>matchingParen\<close>

fun paren_loop :: "int \<Rightarrow> nat \<Rightarrow> string \<Rightarrow> nat option" where
  "paren_loop depth i [] = None"
| "paren_loop depth i (c # cs) =
     (if c = CHR ''('' then paren_loop (depth + 1) (i + 1) cs
      else if c = CHR '')'' then (if depth - 1 = 0 then Some i else paren_loop (depth - 1) (i + 1) cs)
      else paren_loop depth (i + 1) cs)"

definition matchingParen :: "string \<Rightarrow> nat \<Rightarrow> nat option" where
  "matchingParen text opening = paren_loop 0 opening (drop opening text)"

section \<open>Renaming\<close>

definition symCont :: "char \<Rightarrow> bool" where
  "symCont c \<longleftrightarrow> (let n = of_char c :: nat in 65 \<le> n \<and> n \<le> 90 \<or> 97 \<le> n \<and> n \<le> 122 \<or> 48 \<le> n \<and> n \<le> 57) \<or>
     c = CHR ''_'' \<or> c = CHR ''.'' \<or> c = CHR ''$''"

text \<open>\<open>replaceAtName\<close> walks from one occurrence of \<open>@name\<close> to the next; the characters between
  them are copied one by one here.\<close>

function replaceAtName :: "string \<Rightarrow> string \<Rightarrow> string \<Rightarrow> string" where
  "replaceAtName text name repl =
    (case text of
       [] \<Rightarrow> []
     | c # cs \<Rightarrow>
         let needle = CHR ''@'' # name; rest = drop (length needle) text in
         if HasPrefix text needle then
           (if rest \<noteq> [] \<and> symCont (hd rest) then needle @ replaceAtName rest name repl
            else CHR ''@'' # repl @ replaceAtName rest name repl)
         else c # replaceAtName cs name repl)"
  by pat_completeness auto
termination by (relation "measure (\<lambda>(t, n, r). length t)") auto

declare replaceAtName.simps [simp del]

end
