(* ===== verification/Abi_Layout.thy ===== *)
theory Abi_Layout
  imports Ll_Parse Gocobj_Format
begin

text \<open>
  Argument layout: \<open>internal/lower/goabi_layout.go\<close>, \<open>abiFor\<close> of \<open>goabi_parse.go\<close> and
  \<open>goargs.go\<close>. A C signature is laid out twice, for Go's ABIInternal and for the C ABI; every
  scalar leaf of the parameters gets one location on each side. A Go function that returns a
  value and a reason string is a sum: \<^term>\<open>Inl\<close> carries the reason.
\<close>

section \<open>Scalars\<close>

datatype bank = BInt | BFloat

record scalarInfo =
  sc_bank :: bank
  sc_size :: int
  sc_align :: int

definition intWidths :: "i64 \<Rightarrow> bool" where
  "intWidths b \<longleftrightarrow> b = 1 \<or> b = 8 \<or> b = 16 \<or> b = 32 \<or> b = 64"

text \<open>\<open>intTypeRE\<close> is \<open>^i([0-9]+)$\<close>.\<close>

definition intType :: "string \<Rightarrow> string option" where
  "intType ty = (case ty of CHR ''i'' # ds \<Rightarrow> if ds \<noteq> [] \<and> list_all c_digit ds then Some ds else None | _ \<Rightarrow> None)"

definition scalar :: "string \<Rightarrow> scalarInfo option" where
  "scalar ty =
     (if ty = ''ptr'' then Some \<lparr>sc_bank = BInt, sc_size = 8, sc_align = 8\<rparr>
      else if ty = ''float'' then Some \<lparr>sc_bank = BFloat, sc_size = 4, sc_align = 4\<rparr>
      else if ty = ''double'' then Some \<lparr>sc_bank = BFloat, sc_size = 8, sc_align = 8\<rparr>
      else case intType ty of
          None \<Rightarrow> None
        | Some ds \<Rightarrow> let bits = atoi ds in
            if \<not> intWidths bits then None
            else let sz = (if bits = 1 then 1 else sint bits div 8) in
              Some \<lparr>sc_bank = BInt, sc_size = sz, sc_align = sz\<rparr>)"

definition alignUp :: "int \<Rightarrow> int \<Rightarrow> int" where
  "alignUp v a = (v + a - 1) AND (- a)"

section \<open>Aggregates\<close>

record fieldLay =
  fl_Type :: string
  fl_Bank :: bank
  fl_Size :: int
  fl_Offset :: int

record aggLay =
  ag_Fields :: "fieldLay list"
  ag_Size :: int
  ag_Alignment :: int

text \<open>\<open>aggregateLayout\<close> has three outcomes: a reason, no aggregate at all, a layout.\<close>

datatype agg_result = AggErr string | NotAgg | Agg aggLay

text \<open>The loop over the fields: offset and alignment so far, and the fields laid out.\<close>

fun lay_fields :: "string list \<Rightarrow> int \<Rightarrow> int \<Rightarrow> fieldLay list \<Rightarrow> string + (int \<times> int \<times> fieldLay list)" where
  "lay_fields [] offset al laid = Inr (offset, al, laid)"
| "lay_fields (ty # tys) offset al laid = (case scalar ty of
       None \<Rightarrow> Inl (''aggregate field type '' @ ty @ '' is outside the supported scalar subset'')
     | Some info \<Rightarrow> let o' = alignUp offset (sc_align info) in
         lay_fields tys (o' + sc_size info) (if sc_align info > al then sc_align info else al)
           (laid @ [\<lparr>fl_Type = ty, fl_Bank = sc_bank info, fl_Size = sc_size info, fl_Offset = o'\<rparr>]))"

definition aggregateLayout :: "string \<Rightarrow> string \<Rightarrow> bool \<Rightarrow> agg_result" where
  "aggregateLayout ty purpose returnLimit =
     (if HasPrefix ty ''<{'' then AggErr (''packed aggregate '' @ purpose @ '' layouts are unsupported'')
      else if \<not> (HasPrefix ty ''{'' \<and> HasSuffix ty ''}'') then NotAgg
      else let body = TrimSpace (drop 1 (butlast ty));
               fields = (if body \<noteq> [] then splitTopLevel body else []) in
        if fields = [] then AggErr (''empty aggregate '' @ purpose @ '' is unsupported'')
        else case lay_fields fields 0 1 [] of
          Inl reason \<Rightarrow> AggErr reason
        | Inr (offset, al, laid) \<Rightarrow>
            let sz = alignUp offset al in
            if returnLimit \<and> sz > 16 then
              AggErr (''aggregate return is '' @ dec_int sz @ '' bytes; SysV register returns are limited to 16 bytes (larger results require sret)'')
            else if \<exists>f\<in>set laid. fl_Offset f div 8 \<noteq> (fl_Offset f + fl_Size f - 1) div 8 then
              AggErr (''aggregate '' @ purpose @ '' field crosses an eightbyte boundary'')
            else if \<not> distinct (map (\<lambda>f. fl_Offset f div 8) laid) then
              AggErr (''aggregate '' @ purpose @ '' packs several fields into one eightbyte'')
            else Agg \<lparr>ag_Fields = laid, ag_Size = sz, ag_Alignment = al\<rparr>)"

section \<open>Go types\<close>

definition goType :: "string \<Rightarrow> string list \<Rightarrow> bool \<Rightarrow> string" where
  "goType ty attrs aggregateField =
     (if ty = ''ptr'' then ''unsafe.Pointer''
      else if ty = ''float'' then ''float32''
      else if ty = ''double'' then ''float64''
      else case intType ty of
          None \<Rightarrow> []
        | Some ds \<Rightarrow>
            if atoi ds = 1 then ''bool''
            else if aggregateField then ''uint'' @ dec_int (sint (atoi ds))
            else (if ''zeroext'' \<in> set attrs then ''uint'' else ''int'') @ ds)"

definition goParamType :: "string \<Rightarrow> string list \<Rightarrow> string" where
  "goParamType ty attrs =
     (if scalar ty \<noteq> None then goType ty attrs False
      else case aggregateLayout ty ''parameter'' False of
          Agg ag \<Rightarrow>
            let fts = map (\<lambda>f. goType (fl_Type f) [] True) (ag_Fields ag) in
            if [] \<in> set fts then []
            else ''struct { '' @ join ''; '' (map (\<lambda>(i, ft). ''F'' @ dec_nat i @ '' '' @ ft) (enumerate 0 fts)) @ '' }''
        | _ \<Rightarrow> [])"

section \<open>Register files\<close>

record abiSet =
  ab_arch :: string
  ab_goInt :: "string list"
  ab_goFloat :: "string list"
  ab_sysvInt :: "string list"
  ab_sysvFloat :: "string list"
  ab_sysvIntResult :: "string list"
  ab_sysvFloatResult :: "string list"

definition amd64_abi :: abiSet where
  "amd64_abi = \<lparr>ab_arch = ''amd64'',
     ab_goInt = [''rax'', ''rbx'', ''rcx'', ''rdi'', ''rsi'', ''r8'', ''r9'', ''r10'', ''r11''],
     ab_goFloat = map (\<lambda>i. ''xmm'' @ dec_nat i) [0..<15],
     ab_sysvInt = [''rdi'', ''rsi'', ''rdx'', ''rcx'', ''r8'', ''r9''],
     ab_sysvFloat = map (\<lambda>i. ''xmm'' @ dec_nat i) [0..<8],
     ab_sysvIntResult = [''rax'', ''rdx''], ab_sysvFloatResult = [''xmm0'', ''xmm1'']\<rparr>"

definition arm64_abi :: abiSet where
  "arm64_abi = \<lparr>ab_arch = ''arm64'',
     ab_goInt = map (\<lambda>i. ''x'' @ dec_nat i) [0..<16], ab_goFloat = map (\<lambda>i. ''d'' @ dec_nat i) [0..<16],
     ab_sysvInt = map (\<lambda>i. ''x'' @ dec_nat i) [0..<8], ab_sysvFloat = map (\<lambda>i. ''d'' @ dec_nat i) [0..<8],
     ab_sysvIntResult = [''x0'', ''x1''], ab_sysvFloatResult = [''d0'', ''d1'']\<rparr>"

definition abiFor :: "string \<Rightarrow> string + abiSet" where
  "abiFor arch = (let arch = (if arch = [] then ''amd64'' else arch) in
     if arch \<noteq> ''amd64'' \<and> arch \<noteq> ''arm64'' then Inl (''arch must be amd64 or arm64, got '' @ arch)
     else if arch = ''arm64'' then Inr arm64_abi else Inr amd64_abi)"

section \<open>Assigning parameters\<close>

datatype loc = Reg string | Stk int

record asg =
  as_Type :: string
  as_Go :: loc
  as_SysV :: loc

text \<open>One side's cursor: integer and floating-point registers used, bytes of stack used.\<close>

record cursor =
  cu_int :: nat
  cu_float :: nat
  cu_stack :: int

definition cursor0 :: cursor where
  "cursor0 = \<lparr>cu_int = 0, cu_float = 0, cu_stack = 0\<rparr>"

definition need :: "bank \<Rightarrow> fieldLay list \<Rightarrow> nat" where
  "need b fs = length (filter (\<lambda>f. fl_Bank f = b) fs)"

text \<open>All fields in registers, each from its bank.\<close>

fun field_regs :: "string list \<Rightarrow> string list \<Rightarrow> fieldLay list \<Rightarrow> cursor \<Rightarrow> loc list \<times> cursor" where
  "field_regs ir fr [] c = ([], c)"
| "field_regs ir fr (f # fs) c =
     (if fl_Bank f = BInt
      then let (ls, c') = field_regs ir fr fs (c\<lparr>cu_int := cu_int c + 1\<rparr>) in (Reg (ir ! cu_int c) # ls, c')
      else let (ls, c') = field_regs ir fr fs (c\<lparr>cu_float := cu_float c + 1\<rparr>) in (Reg (fr ! cu_float c) # ls, c'))"

definition go_aggregate :: "abiSet \<Rightarrow> aggLay \<Rightarrow> cursor \<Rightarrow> loc list \<times> cursor" where
  "go_aggregate a ag c =
     (if cu_int c + need BInt (ag_Fields ag) \<le> length (ab_goInt a) \<and>
         cu_float c + (length (ag_Fields ag) - need BInt (ag_Fields ag)) \<le> length (ab_goFloat a)
      then field_regs (ab_goInt a) (ab_goFloat a) (ag_Fields ag) c
      else let b = alignUp (cu_stack c) (ag_Alignment ag) in
        (map (\<lambda>f. Stk (b + fl_Offset f)) (ag_Fields ag), c\<lparr>cu_stack := b + ag_Size ag\<rparr>))"

definition sysv_aggregate :: "abiSet \<Rightarrow> aggLay \<Rightarrow> cursor \<Rightarrow> loc list \<times> cursor" where
  "sysv_aggregate a ag c =
     (if ag_Size ag \<le> 16 \<and> cu_int c + need BInt (ag_Fields ag) \<le> length (ab_sysvInt a) \<and>
         cu_float c + (length (ag_Fields ag) - need BInt (ag_Fields ag)) \<le> length (ab_sysvFloat a)
      then field_regs (ab_sysvInt a) (ab_sysvFloat a) (ag_Fields ag) c
      else let b = alignUp (cu_stack c) 8 in
        (map (\<lambda>f. Stk (b + fl_Offset f)) (ag_Fields ag), c\<lparr>cu_stack := b + alignUp (ag_Size ag) 8\<rparr>))"

definition go_scalar :: "abiSet \<Rightarrow> scalarInfo \<Rightarrow> cursor \<Rightarrow> loc \<times> cursor" where
  "go_scalar a info c =
     (if sc_bank info = BInt \<and> cu_int c < length (ab_goInt a) then (Reg (ab_goInt a ! cu_int c), c\<lparr>cu_int := cu_int c + 1\<rparr>)
      else if sc_bank info = BFloat \<and> cu_float c < length (ab_goFloat a) then (Reg (ab_goFloat a ! cu_float c), c\<lparr>cu_float := cu_float c + 1\<rparr>)
      else let b = alignUp (cu_stack c) (min (sc_align info) 8) in (Stk b, c\<lparr>cu_stack := b + sc_size info\<rparr>))"

definition sysv_scalar :: "abiSet \<Rightarrow> scalarInfo \<Rightarrow> cursor \<Rightarrow> loc \<times> cursor" where
  "sysv_scalar a info c =
     (if sc_bank info = BInt \<and> cu_int c < length (ab_sysvInt a) then (Reg (ab_sysvInt a ! cu_int c), c\<lparr>cu_int := cu_int c + 1\<rparr>)
      else if sc_bank info = BFloat \<and> cu_float c < length (ab_sysvFloat a) then (Reg (ab_sysvFloat a ! cu_float c), c\<lparr>cu_float := cu_float c + 1\<rparr>)
      else (Stk (cu_stack c), c\<lparr>cu_stack := cu_stack c + 8\<rparr>))"

text \<open>One turn of the loop over the parameters.\<close>

definition assign_param :: "abiSet \<Rightarrow> string \<Rightarrow> cursor \<Rightarrow> cursor \<Rightarrow> string + (asg list \<times> cursor \<times> cursor)" where
  "assign_param a ty g c = (case scalar ty of
     Some info \<Rightarrow> (let (gl, g') = go_scalar a info g; (cl, c') = sysv_scalar a info c in
       Inr ([\<lparr>as_Type = ty, as_Go = gl, as_SysV = cl\<rparr>], g', c'))
   | None \<Rightarrow> (case aggregateLayout ty ''parameter'' False of
       AggErr reason \<Rightarrow> Inl reason
     | Agg ag \<Rightarrow> (let (gls, g') = go_aggregate a ag g; (cls, c') = sysv_aggregate a ag c in
         Inr (map (\<lambda>(f, gl, cl). \<lparr>as_Type = fl_Type f, as_Go = gl, as_SysV = cl\<rparr>) (zip (ag_Fields ag) (zip gls cls)), g', c'))
     | NotAgg \<Rightarrow> Inl
         (if HasPrefix ty ''%'' then ''identified aggregate parameter type '' @ ty @ '' has no literal field layout and is unsupported''
          else if HasPrefix ty ''{'' \<or> HasPrefix ty ''<{'' then ''aggregate parameter type '' @ ty @ '' is unsupported''
          else ''parameter type '' @ ty @ '' is outside the scalar subset'')))"

fun assign_loop :: "abiSet \<Rightarrow> string list \<Rightarrow> cursor \<Rightarrow> cursor \<Rightarrow> asg list \<Rightarrow> string + (asg list \<times> cursor \<times> cursor)" where
  "assign_loop a [] g c acc = Inr (acc, g, c)"
| "assign_loop a (ty # tys) g c acc = (case assign_param a ty g c of
       Inl reason \<Rightarrow> Inl reason
     | Inr (xs, g', c') \<Rightarrow> assign_loop a tys g' c' (acc @ xs))"

record assignResult =
  ar_Params :: "asg list"
  ar_GoStackSize :: int
  ar_SysVStackSize :: int

definition assignParams :: "abiSet \<Rightarrow> string list \<Rightarrow> string + assignResult" where
  "assignParams a params = (case assign_loop a params cursor0 cursor0 [] of
     Inl reason \<Rightarrow> Inl reason
   | Inr (xs, g, c) \<Rightarrow> Inr \<lparr>ar_Params = xs, ar_GoStackSize = alignUp (cu_stack g) 8, ar_SysVStackSize = cu_stack c\<rparr>)"

section \<open>Results\<close>

type_synonym resLoc = "string \<times> loc"

text \<open>The Go and the C registers of an aggregate's fields.\<close>

fun result_fields :: "abiSet \<Rightarrow> fieldLay list \<Rightarrow> nat \<Rightarrow> nat \<Rightarrow> (resLoc \<times> resLoc) list" where
  "result_fields a [] i j = []"
| "result_fields a (f # fs) i j =
     (if fl_Bank f = BInt
      then ((fl_Type f, Reg (ab_goInt a ! i)), (fl_Type f, Reg (ab_sysvIntResult a ! i))) # result_fields a fs (i + 1) j
      else ((fl_Type f, Reg (ab_goFloat a ! j)), (fl_Type f, Reg (ab_sysvFloatResult a ! j))) # result_fields a fs i (j + 1))"

definition returnAssignment :: "abiSet \<Rightarrow> string \<Rightarrow> string + (resLoc list \<times> resLoc list \<times> string list)" where
  "returnAssignment a ret =
     (if ret = ''void'' then Inr ([], [], [])
      else case scalar ret of
        Some info \<Rightarrow>
          (let reg = (if sc_bank info = BInt then ab_goInt a ! 0 else ab_goFloat a ! 0) in
           Inr ([(ret, Reg reg)], [(ret, Reg reg)], []))
      | None \<Rightarrow> (case aggregateLayout ret ''return'' True of
          AggErr why \<Rightarrow> Inl why
        | Agg ag \<Rightarrow> (let rs = result_fields a (ag_Fields ag) 0 0 in
            Inr (map fst rs, map snd rs, map fl_Type (ag_Fields ag)))
        | NotAgg \<Rightarrow> Inl
            (if HasPrefix ret ''{'' \<or> HasPrefix ret ''<{'' then ''aggregate return type '' @ ret @ '' is unsupported''
             else if HasPrefix ret ''%'' then ''identified aggregate return type '' @ ret @ '' has no literal field layout and is unsupported''
             else ''return type '' @ ret @ '' is outside the supported result subset'')))"

definition outgoingBytes :: "int \<Rightarrow> string + int" where
  "outgoingBytes stackSize =
     (if stackSize < 0 \<or> stackSize mod 8 \<noteq> 0 then Inl (''stack argument area '' @ dec_int stackSize @ '' is not a multiple of 8'')
      else Inr ((stackSize + 15) AND NOT 15))"

section \<open>analyzeSignature\<close>

record llFunc =
  lf_Name :: string
  lf_Ret :: string
  lf_RetAttrs :: "string list"
  lf_RetABI :: "string list"
  lf_Params :: "string list"
  lf_ParamAttrs :: "string list list"
  lf_ParamABI :: "string list list"
  lf_Varargs :: bool
  lf_Internal :: bool
  lf_NonC :: bool

record abiSide =
  sd_Params :: "(string \<times> loc) list"
  sd_Results :: "resLoc list"
  sd_StackArgsSize :: int

record sigPlan =
  pl_Go :: abiSide
  pl_SysV :: abiSide
  pl_GoSignature :: string
  pl_ResultMoves :: "(string \<times> string) list"
  pl_Outgoing :: int

definition reg_of :: "loc \<Rightarrow> string" where
  "reg_of l = (case l of Reg r \<Rightarrow> r | Stk _ \<Rightarrow> [])"

definition result_moves :: "resLoc list \<Rightarrow> resLoc list \<Rightarrow> (string \<times> string) list" where
  "result_moves goR sysvR = filter (\<lambda>(src, dst). src \<noteq> dst) (zip (map (reg_of \<circ> snd) sysvR) (map (reg_of \<circ> snd) goR))"

definition go_result_types :: "llFunc \<Rightarrow> string list \<Rightarrow> string list" where
  "go_result_types d resultTypes =
     (if resultTypes \<noteq> [] then map (\<lambda>ty. goType ty [] True) resultTypes
      else if lf_Ret d \<noteq> ''void'' then [goType (lf_Ret d) (lf_RetAttrs d) False] else [])"

definition go_signature :: "llFunc \<Rightarrow> string list \<Rightarrow> string list \<Rightarrow> string" where
  "go_signature d goParams goResults = ''func '' @ lf_Name d @ ''('' @ join '', '' goParams @ '')'' @
     (case goResults of [] \<Rightarrow> [] | [r] \<Rightarrow> '' '' @ r | _ \<Rightarrow> '' ('' @ join '', '' goResults @ '')'')"

definition analyzeSignature :: "abiSet \<Rightarrow> llFunc \<Rightarrow> string + sigPlan" where
  "analyzeSignature a d =
     (if HasPrefix (lf_Name d) ''llvm.'' then Inl ''LLVM intrinsics are not C entrypoints''
      else if lf_Internal d then Inl ''file-local functions are not Go-callable''
      else if lf_Varargs d then Inl ''variadic functions are unsupported''
      else if lf_NonC d then Inl ''non-C LLVM calling conventions are unsupported''
      else if \<exists>attrs\<in>set (lf_ParamABI d). attrs \<noteq> [] then Inl ''ABI-changing LLVM parameter attributes are unsupported''
      else if lf_RetABI d \<noteq> [] then Inl ''ABI-changing LLVM return attributes are unsupported''
      else if lf_Ret d = [] then Inl ''LLVM return type could not be parsed''
      else case assignParams a (lf_Params d) of
        Inl reason \<Rightarrow> Inl reason
      | Inr assigned \<Rightarrow> (case returnAssignment a (lf_Ret d) of
          Inl reason \<Rightarrow> Inl reason
        | Inr (goR, sysvR, resultTypes) \<Rightarrow>
            let goParams = map (\<lambda>(ty, attrs). goParamType ty attrs) (zip (lf_Params d) (lf_ParamAttrs d));
                goResults = go_result_types d resultTypes in
            if [] \<in> set goParams then Inl ''a parameter has no supported Go-facing type''
            else if [] \<in> set goResults then Inl ''the result has no supported Go-facing type''
            else case outgoingBytes (ar_SysVStackSize assigned) of
              Inl err \<Rightarrow> Inl err
            | Inr out \<Rightarrow> Inr
                \<lparr>pl_Go = \<lparr>sd_Params = map (\<lambda>p. (as_Type p, as_Go p)) (ar_Params assigned), sd_Results = goR,
                           sd_StackArgsSize = ar_GoStackSize assigned\<rparr>,
                 pl_SysV = \<lparr>sd_Params = map (\<lambda>p. (as_Type p, as_SysV p)) (ar_Params assigned), sd_Results = sysvR,
                           sd_StackArgsSize = ar_SysVStackSize assigned\<rparr>,
                 pl_GoSignature = go_signature d goParams goResults,
                 pl_ResultMoves = result_moves goR sysvR, pl_Outgoing = out\<rparr>))"

section \<open>goArgsLayout\<close>

record argSpill =
  sp_Reg :: string
  sp_Off :: int
  sp_Size :: int
  sp_Ptr :: bool

definition spill_sizes :: "string \<rightharpoonup> int" where
  "spill_sizes = [''ptr'' \<mapsto> 8, ''float'' \<mapsto> 4, ''double'' \<mapsto> 8, ''i1'' \<mapsto> 1, ''i8'' \<mapsto> 1, ''i16'' \<mapsto> 2, ''i32'' \<mapsto> 4, ''i64'' \<mapsto> 8]"

fun spill_loop :: "(string \<times> loc) list \<Rightarrow> int \<Rightarrow> argSpill list \<Rightarrow> int list \<Rightarrow> string + (argSpill list \<times> int list \<times> int)" where
  "spill_loop [] off spills ptrs = Inr (spills, ptrs, off)"
| "spill_loop ((ty, Stk o') # ps) off spills ptrs =
     spill_loop ps off spills (if ty = ''ptr'' then ptrs @ [o'] else ptrs)"
| "spill_loop ((ty, Reg r) # ps) off spills ptrs = (case spill_sizes ty of
       None \<Rightarrow> Inl (''realbody: FATAL Go argument type '' @ ty @ '' has no spill size'')
     | Some sz \<Rightarrow> let o' = alignUp off sz in
         spill_loop ps (o' + sz) (spills @ [\<lparr>sp_Reg = r, sp_Off = 8 + o', sp_Size = sz, sp_Ptr = (ty = ''ptr'')\<rparr>]) ptrs)"

definition goArgsLayout :: "abiSide \<Rightarrow> string + (argSpill list \<times> int list \<times> int)" where
  "goArgsLayout info = (case spill_loop (sd_Params info) (sd_StackArgsSize info) [] [] of
     Inl e \<Rightarrow> Inl e
   | Inr (spills, ptrs, off) \<Rightarrow> Inr (spills, ptrs, alignUp off 8))"

end
