(* ===== verification/Abi_Correct.thy ===== *)
theory Abi_Correct
  imports Abi_Layout "HOL-Library.Multiset"
begin

text \<open>
  Correctness of the argument layout. The invariant \<open>side_ok\<close> describes one side of a call: its
  registers are handed out in order, its stack slots do not overlap, are aligned to their size and
  lie inside the used area; every step of \<open>assignParams\<close> keeps it on both sides. The interface
  \<open>reg_file\<close> is a bank of integer and a bank of floating-point registers without repetition; the
  Go and the C register files of both architectures are its instances.
\<close>

section \<open>Alignment and scalars\<close>

lemma and_not_mask: "(x :: int) AND NOT (mask n) = 2 ^ n * (x div 2 ^ n)"
proof -
  have "x AND NOT (mask n) = push_bit n (drop_bit n x)"
    by (rule bit_eqI) (auto simp: bit_and_iff bit_not_iff bit_mask_iff bit_push_bit_iff bit_drop_bit_eq)
  then show ?thesis by (simp add: push_bit_eq_mult drop_bit_eq_div mult.commute)
qed

lemma alignUp_exp: "alignUp v (2 ^ n) = 2 ^ n * ((v + 2 ^ n - 1) div 2 ^ n)"
  unfolding alignUp_def minus_exp_eq_not_mask by (rule and_not_mask)

lemma alignUp_ge_exp: "v \<le> alignUp v (2 ^ n)" "alignUp v (2 ^ n) < v + 2 ^ n" "2 ^ n dvd alignUp v (2 ^ n)"
proof -
  let ?a = "2 ^ n :: int"
  have "?a * ((v + ?a - 1) div ?a) + (v + ?a - 1) mod ?a = v + ?a - 1" by simp
  moreover have "0 \<le> (v + ?a - 1) mod ?a" "(v + ?a - 1) mod ?a < ?a" by simp_all
  ultimately show "v \<le> alignUp v ?a" "alignUp v ?a < v + ?a" by (simp_all only: alignUp_exp)
qed (simp add: alignUp_exp)

definition pow8 :: "int set" where "pow8 = {1, 2, 4, 8}"

lemma pow8_exp: "a \<in> pow8 \<Longrightarrow> \<exists>n. a = 2 ^ n"
proof -
  have "(1 :: int) = 2 ^ 0" "(2 :: int) = 2 ^ 1" "(4 :: int) = 2 ^ 2" "(8 :: int) = 2 ^ 3" by simp_all
  then show "a \<in> pow8 \<Longrightarrow> \<exists>n. a = 2 ^ n" unfolding pow8_def by blast
qed

lemma alignUp_ge: "a \<in> pow8 \<Longrightarrow> v \<le> alignUp v a"
  and alignUp_less: "a \<in> pow8 \<Longrightarrow> alignUp v a < v + a"
  and alignUp_dvd: "a \<in> pow8 \<Longrightarrow> a dvd alignUp v a"
  using pow8_exp [of a] alignUp_ge_exp [where v = v] by auto

lemma alignUp_idem: "a \<in> pow8 \<Longrightarrow> a dvd v \<Longrightarrow> alignUp v a = v"
proof -
  assume a: "a \<in> pow8" and v: "a dvd v"
  have "a dvd alignUp v a - v" using alignUp_dvd [OF a] v by (rule dvd_diff)
  moreover have "0 \<le> alignUp v a - v" "alignUp v a - v < a" using alignUp_ge [OF a, of v] alignUp_less [OF a, of v] by simp_all
  ultimately show "alignUp v a = v" using zdvd_not_zless [of "alignUp v a - v" a] by (cases "alignUp v a = v") auto
qed

lemma pow8_pos: "a \<in> pow8 \<Longrightarrow> 0 < a"
  by (auto simp: pow8_def)

lemma pow8_dvd8: "a \<in> pow8 \<Longrightarrow> a dvd 8"
  by (auto simp: pow8_def)

lemma pow8_dvd: "a \<in> pow8 \<Longrightarrow> b \<in> pow8 \<Longrightarrow> a \<le> b \<Longrightarrow> a dvd b"
  by (auto simp: pow8_def)

lemma scalar_size: "scalar ty = Some info \<Longrightarrow> sc_size info \<in> pow8 \<and> sc_align info = sc_size info"
proof -
  have s: "sint (8 :: i64) = 8" "sint (16 :: i64) = 16" "sint (32 :: i64) = 32" "sint (64 :: i64) = 64" by simp_all
  show "scalar ty = Some info \<Longrightarrow> sc_size info \<in> pow8 \<and> sc_align info = sc_size info"
    by (auto simp: scalar_def Let_def intWidths_def pow8_def s split: if_splits option.splits)
qed

section \<open>Aggregates\<close>

text \<open>Fields in order, one after the other, each aligned to its size and below the end.\<close>

definition slot_before :: "(string \<times> int) \<Rightarrow> (string \<times> int) \<Rightarrow> bool" where
  "slot_before p q \<longleftrightarrow> (\<exists>i. scalar (fst p) = Some i \<and> snd p + sc_size i \<le> snd q)"

definition slots_ok :: "int \<Rightarrow> (string \<times> int) list \<Rightarrow> bool" where
  "slots_ok lim ps \<longleftrightarrow> sorted_wrt slot_before ps \<and>
     (\<forall>p\<in>set ps. \<exists>i. scalar (fst p) = Some i \<and> 0 \<le> snd p \<and> sc_size i dvd snd p \<and> snd p + sc_size i \<le> lim)"

lemma slots_ok_snoc:
  assumes "slots_ok lim ps" "scalar ty = Some i" "lim \<le> off" "0 \<le> off" "sc_size i dvd off" "off + sc_size i \<le> lim'"
  shows "slots_ok lim' (ps @ [(ty, off)])"
proof -
  have "0 < sc_size i" using scalar_size [OF assms(2)] pow8_pos by blast
  then show ?thesis
    using assms unfolding slots_ok_def sorted_wrt_append slot_before_def by fastforce
qed

lemma slots_okD: "slots_ok lim ps \<Longrightarrow> p \<in> set ps \<Longrightarrow>
    \<exists>i. scalar (fst p) = Some i \<and> 0 \<le> snd p \<and> sc_size i dvd snd p \<and> snd p + sc_size i \<le> lim"
  unfolding slots_ok_def by blast

lemma slots_ok_mono: "slots_ok lim ps \<Longrightarrow> lim \<le> lim' \<Longrightarrow> slots_ok lim' ps"
  unfolding slots_ok_def by fastforce

definition field_slots :: "fieldLay list \<Rightarrow> (string \<times> int) list" where
  "field_slots fs = map (\<lambda>f. (fl_Type f, fl_Offset f)) fs"

definition fields_typed :: "fieldLay list \<Rightarrow> bool" where
  "fields_typed fs \<longleftrightarrow> (\<forall>f\<in>set fs. \<exists>i. scalar (fl_Type f) = Some i \<and> fl_Bank f = sc_bank i \<and> fl_Size f = sc_size i)"

definition lay_inv :: "int \<Rightarrow> int \<Rightarrow> fieldLay list \<Rightarrow> bool" where
  "lay_inv offset al laid \<longleftrightarrow> 0 \<le> offset \<and> al \<in> pow8 \<and> slots_ok offset (field_slots laid) \<and> fields_typed laid \<and>
     (\<forall>f\<in>set laid. fl_Size f \<le> al)"

lemma lay_step:
  assumes "lay_inv offset al laid" "scalar ty = Some info"
  shows "lay_inv (alignUp offset (sc_align info) + sc_size info) (if sc_align info > al then sc_align info else al)
    (laid @ [\<lparr>fl_Type = ty, fl_Bank = sc_bank info, fl_Size = sc_size info, fl_Offset = alignUp offset (sc_align info)\<rparr>])"
proof -
  let ?o = "alignUp offset (sc_align info)"
  have s: "sc_size info \<in> pow8" "sc_align info = sc_size info" using scalar_size [OF assms(2)] by auto
  have o: "offset \<le> ?o" "sc_size info dvd ?o" using alignUp_ge alignUp_dvd s by auto
  have "slots_ok (?o + sc_size info) (field_slots laid @ [(ty, ?o)])"
    using assms o by (intro slots_ok_snoc) (auto simp: lay_inv_def)
  then show ?thesis
    using assms s o pow8_pos [OF s(1)] by (auto simp: lay_inv_def field_slots_def fields_typed_def)
qed

lemma lay_fields_inv: "lay_fields tys offset al laid = Inr (offset', al', laid') \<Longrightarrow> lay_inv offset al laid \<Longrightarrow> lay_inv offset' al' laid'"
  by (induction tys offset al laid rule: lay_fields.induct) (auto simp: Let_def lay_step split: option.splits)

definition agg_ok :: "aggLay \<Rightarrow> bool" where
  "agg_ok ag \<longleftrightarrow> ag_Alignment ag \<in> pow8 \<and> slots_ok (ag_Size ag) (field_slots (ag_Fields ag)) \<and> fields_typed (ag_Fields ag) \<and>
     (\<forall>f\<in>set (ag_Fields ag). fl_Size f \<le> ag_Alignment ag) \<and> 0 \<le> ag_Size ag \<and> ag_Alignment ag dvd ag_Size ag \<and>
     distinct (map (\<lambda>f. fl_Offset f div 8) (ag_Fields ag))"

lemma aggregateLayout_cases:
  assumes "aggregateLayout ty purpose rl = Agg ag"
  obtains fields offset where "lay_fields fields 0 1 [] = Inr (offset, ag_Alignment ag, ag_Fields ag)" "ag_Size ag = alignUp offset (ag_Alignment ag)"
    "rl \<longrightarrow> ag_Size ag \<le> 16" "distinct (map (\<lambda>f. fl_Offset f div 8) (ag_Fields ag))"
  using assms unfolding aggregateLayout_def Let_def by (auto split: if_splits sum.splits)

lemma aggregateLayout_ok: "aggregateLayout ty purpose rl = Agg ag \<Longrightarrow> agg_ok ag"
proof (erule aggregateLayout_cases)
  fix fields offset
  assume l: "lay_fields fields 0 1 [] = Inr (offset, ag_Alignment ag, ag_Fields ag)" and sz: "ag_Size ag = alignUp offset (ag_Alignment ag)"
    and d: "distinct (map (\<lambda>f. fl_Offset f div 8) (ag_Fields ag))"
  have "lay_inv 0 1 []" by (simp add: lay_inv_def slots_ok_def field_slots_def fields_typed_def pow8_def)
  then have inv: "lay_inv offset (ag_Alignment ag) (ag_Fields ag)" by (rule lay_fields_inv [OF l])
  then have al: "ag_Alignment ag \<in> pow8" by (simp add: lay_inv_def)
  show "agg_ok ag"
    using inv d al alignUp_ge [OF al, of offset] alignUp_dvd [OF al, of offset]
    by (auto simp: agg_ok_def lay_inv_def sz intro: slots_ok_mono)
qed

text \<open>A result aggregate has at most two fields, so its registers exist.\<close>

lemma return_fields: "aggregateLayout ty purpose True = Agg ag \<Longrightarrow> length (ag_Fields ag) \<le> 2"
proof -
  assume a: "aggregateLayout ty purpose True = Agg ag"
  have ok: "agg_ok ag" by (rule aggregateLayout_ok [OF a])
  have sz: "ag_Size ag \<le> 16" using a by (rule aggregateLayout_cases) simp
  have "fl_Offset f div 8 \<in> {0, 1}" if mem: "f \<in> set (ag_Fields ag)" for f
  proof -
    obtain i where "scalar (fl_Type f) = Some i" "0 \<le> fl_Offset f" "fl_Offset f + sc_size i \<le> ag_Size ag"
      using slots_okD [of "ag_Size ag" "field_slots (ag_Fields ag)" "(fl_Type f, fl_Offset f)"] ok mem
      by (auto simp: agg_ok_def field_slots_def)
    moreover from this have "0 < sc_size i" using scalar_size pow8_pos by blast
    ultimately have "0 \<le> fl_Offset f \<and> fl_Offset f < 16" using sz by linarith
    then have "fl_Offset f div 8 = 0 \<or> fl_Offset f div 8 = 1" by presburger
    then show ?thesis by simp
  qed
  then have "set (map (\<lambda>f. fl_Offset f div 8) (ag_Fields ag)) \<subseteq> {0, 1}" by auto
  then have "card (set (map (\<lambda>f. fl_Offset f div 8) (ag_Fields ag))) \<le> card {0, 1 :: int}"
    by (intro card_mono) simp_all
  moreover have "distinct (map (\<lambda>f. fl_Offset f div 8) (ag_Fields ag))" using ok by (simp add: agg_ok_def)
  from distinct_card [OF this] have "card (set (map (\<lambda>f. fl_Offset f div 8) (ag_Fields ag))) = length (ag_Fields ag)" by simp
  ultimately show ?thesis by simp
qed

section \<open>One side of a call\<close>

type_synonym side = "(string \<times> loc) list"

fun reg_list :: "bank \<Rightarrow> side \<Rightarrow> string list" where
  "reg_list b [] = []"
| "reg_list b ((ty, Reg r) # ps) = (if map_option sc_bank (scalar ty) = Some b then r # reg_list b ps else reg_list b ps)"
| "reg_list b ((ty, Stk _) # ps) = reg_list b ps"

fun stk_list :: "side \<Rightarrow> (string \<times> int) list" where
  "stk_list [] = []"
| "stk_list ((ty, Reg _) # ps) = stk_list ps"
| "stk_list ((ty, Stk o') # ps) = (ty, o') # stk_list ps"

definition side_ok :: "string list \<Rightarrow> string list \<Rightarrow> cursor \<Rightarrow> side \<Rightarrow> bool" where
  "side_ok ir fr c ps \<longleftrightarrow> (\<forall>p\<in>set ps. scalar (fst p) \<noteq> None) \<and>
     cu_int c \<le> length ir \<and> reg_list BInt ps = take (cu_int c) ir \<and>
     cu_float c \<le> length fr \<and> reg_list BFloat ps = take (cu_float c) fr \<and>
     0 \<le> cu_stack c \<and> slots_ok (cu_stack c) (stk_list ps)"

lemma reg_list_append [simp]: "reg_list b (ps @ qs) = reg_list b ps @ reg_list b qs"
  by (induction b ps rule: reg_list.induct) auto

lemma stk_list_append [simp]: "stk_list (ps @ qs) = stk_list ps @ stk_list qs"
  by (induction ps rule: stk_list.induct) auto

lemma side_ok_nil: "side_ok ir fr cursor0 []"
  by (simp add: side_ok_def cursor0_def slots_ok_def)

lemma side_ok_int:
  assumes "side_ok ir fr c ps" "scalar ty = Some i" "sc_bank i = BInt" "cu_int c < length ir"
  shows "side_ok ir fr (c\<lparr>cu_int := cu_int c + 1\<rparr>) (ps @ [(ty, Reg (ir ! cu_int c))])"
  using assms by (auto simp: side_ok_def take_Suc_conv_app_nth)

lemma side_ok_float:
  assumes "side_ok ir fr c ps" "scalar ty = Some i" "sc_bank i = BFloat" "cu_float c < length fr"
  shows "side_ok ir fr (c\<lparr>cu_float := cu_float c + 1\<rparr>) (ps @ [(ty, Reg (fr ! cu_float c))])"
  using assms by (auto simp: side_ok_def take_Suc_conv_app_nth)

lemma side_ok_stk:
  assumes "side_ok ir fr c ps" "scalar ty = Some i" "cu_stack c \<le> off" "sc_size i dvd off" "off + sc_size i \<le> lim"
  shows "side_ok ir fr (c\<lparr>cu_stack := lim\<rparr>) (ps @ [(ty, Stk off)])"
proof -
  have "0 < sc_size i" using scalar_size [OF assms(2)] pow8_pos by blast
  moreover have "slots_ok lim (stk_list ps @ [(ty, off)])"
    using assms by (intro slots_ok_snoc [of "cu_stack c"]) (auto simp: side_ok_def)
  ultimately show ?thesis using assms by (auto simp: side_ok_def)
qed

lemma side_ok_grow: "side_ok ir fr c ps \<Longrightarrow> cu_stack c \<le> lim \<Longrightarrow> side_ok ir fr (c\<lparr>cu_stack := lim\<rparr>) ps"
  by (auto simp: side_ok_def intro: slots_ok_mono)

text \<open>An aggregate in registers.\<close>

lemma field_regs_ok:
  assumes "side_ok ir fr c ps" "fields_typed fs" "cu_int c + need BInt fs \<le> length ir" "cu_float c + need BFloat fs \<le> length fr"
    "field_regs ir fr fs c = (ls, c')"
  shows "length ls = length fs \<and> side_ok ir fr c' (ps @ zip (map fl_Type fs) ls)"
  using assms
proof (induction fs arbitrary: c ps ls)
  case Nil
  then show ?case by simp
next
  case (Cons f fs)
  obtain i where i: "scalar (fl_Type f) = Some i" "fl_Bank f = sc_bank i" using Cons.prems(2) by (auto simp: fields_typed_def)
  have ft: "fields_typed fs" using Cons.prems(2) by (simp add: fields_typed_def)
  show ?case
  proof (cases "fl_Bank f")
    case BInt
    let ?c = "c\<lparr>cu_int := cu_int c + 1\<rparr>"
    obtain ls' where r: "field_regs ir fr fs ?c = (ls', c')" "ls = Reg (ir ! cu_int c) # ls'"
      using Cons.prems(5) BInt by (auto split: prod.splits)
    have "side_ok ir fr ?c (ps @ [(fl_Type f, Reg (ir ! cu_int c))])"
      using Cons.prems i BInt by (intro side_ok_int) (auto simp: need_def)
    from Cons.IH [OF this ft _ _ r(1)] show ?thesis
      using Cons.prems BInt r by (simp add: need_def)
  next
    case BFloat
    let ?c = "c\<lparr>cu_float := cu_float c + 1\<rparr>"
    obtain ls' where r: "field_regs ir fr fs ?c = (ls', c')" "ls = Reg (fr ! cu_float c) # ls'"
      using Cons.prems(5) BFloat by (auto split: prod.splits)
    have "side_ok ir fr ?c (ps @ [(fl_Type f, Reg (fr ! cu_float c))])"
      using Cons.prems i BFloat by (intro side_ok_float) (auto simp: need_def)
    from Cons.IH [OF this ft _ _ r(1)] show ?thesis
      using Cons.prems BFloat r by (simp add: need_def)
  qed
qed

text \<open>An aggregate on the stack: its fields keep their distances from an aligned base.\<close>

lemma field_stack_ok:
  assumes "side_ok ir fr c ps" "slots_ok lim (field_slots fs)" "cu_stack c \<le> b" "a \<in> pow8" "a dvd b"
    "\<forall>f\<in>set fs. \<exists>i. scalar (fl_Type f) = Some i \<and> sc_size i \<le> a" "0 \<le> lim"
  shows "side_ok ir fr (c\<lparr>cu_stack := b + lim\<rparr>) (ps @ zip (map fl_Type fs) (map (\<lambda>f. Stk (b + fl_Offset f)) fs))"
  using assms(2,6,7)
proof (induction fs arbitrary: lim rule: rev_induct)
  case Nil
  then show ?case using assms(1,3) by (auto intro!: side_ok_grow)
next
  case (snoc f fs)
  obtain i where i: "scalar (fl_Type f) = Some i" "sc_size i \<le> a" using snoc.prems by auto
  have sz: "sc_size i \<in> pow8" using scalar_size [OF i(1)] by simp
  have f: "0 \<le> fl_Offset f" "sc_size i dvd fl_Offset f" "fl_Offset f + sc_size i \<le> lim"
    using slots_okD [OF snoc.prems(1), of "(fl_Type f, fl_Offset f)"] i by (auto simp: field_slots_def)
  have "slots_ok (fl_Offset f) (field_slots fs)"
    using snoc.prems(1) unfolding slots_ok_def field_slots_def by (fastforce simp: sorted_wrt_append slot_before_def)
  then have prev: "side_ok ir fr (c\<lparr>cu_stack := b + fl_Offset f\<rparr>) (ps @ zip (map fl_Type fs) (map (\<lambda>f. Stk (b + fl_Offset f)) fs))"
    using snoc.prems f by (intro snoc.IH) auto
  have "sc_size i dvd b + fl_Offset f"
    using f pow8_dvd [OF sz assms(4) i(2)] assms(5) by (meson dvd_add dvd_trans)
  then show ?case
    using side_ok_stk [OF prev i(1), of "b + fl_Offset f" "b + lim"] f by simp
qed

section \<open>Both sides of assignParams\<close>

lemma need_split: "length fs - need BInt fs = need BFloat fs"
proof -
  have "length fs = need BInt fs + need BFloat fs"
    unfolding need_def by (induction fs) (auto, metis bank.exhaust)
  then show ?thesis by simp
qed

lemma agg_sizes: "agg_ok ag \<Longrightarrow> \<forall>f\<in>set (ag_Fields ag). \<exists>i. scalar (fl_Type f) = Some i \<and> sc_size i \<le> ag_Alignment ag"
  by (fastforce simp: agg_ok_def fields_typed_def)

lemma agg_sizes8: "agg_ok ag \<Longrightarrow> \<forall>f\<in>set (ag_Fields ag). \<exists>i. scalar (fl_Type f) = Some i \<and> sc_size i \<le> 8"
proof -
  assume ok: "agg_ok ag"
  then have "ag_Alignment ag \<le> 8" by (auto simp: agg_ok_def pow8_def)
  with agg_sizes [OF ok] show ?thesis by fastforce
qed

lemma go_aggregate_ok:
  assumes "side_ok (ab_goInt a) (ab_goFloat a) c ps" "agg_ok ag" "go_aggregate a ag c = (ls, c')"
  shows "length ls = length (ag_Fields ag) \<and> side_ok (ab_goInt a) (ab_goFloat a) c' (ps @ zip (map fl_Type (ag_Fields ag)) ls)"
proof (cases "cu_int c + need BInt (ag_Fields ag) \<le> length (ab_goInt a) \<and> cu_float c + need BFloat (ag_Fields ag) \<le> length (ab_goFloat a)")
  case True
  then have "field_regs (ab_goInt a) (ab_goFloat a) (ag_Fields ag) c = (ls, c')"
    using assms(3) by (simp add: go_aggregate_def need_split)
  then show ?thesis using field_regs_ok assms True by (auto simp: agg_ok_def)
next
  case False
  let ?b = "alignUp (cu_stack c) (ag_Alignment ag)"
  have al: "ag_Alignment ag \<in> pow8" and sl: "slots_ok (ag_Size ag) (field_slots (ag_Fields ag))" "0 \<le> ag_Size ag" using assms(2) by (simp_all add: agg_ok_def)
  have "ls = map (\<lambda>f. Stk (?b + fl_Offset f)) (ag_Fields ag)" "c' = c\<lparr>cu_stack := ?b + ag_Size ag\<rparr>"
    using assms(3) False by (auto simp: go_aggregate_def need_split Let_def)
  then show ?thesis
    using field_stack_ok [OF assms(1) sl(1) _ al _ agg_sizes [OF assms(2)] sl(2), of ?b] alignUp_ge [OF al] alignUp_dvd [OF al] by simp
qed

lemma sysv_aggregate_ok:
  assumes "side_ok (ab_sysvInt a) (ab_sysvFloat a) c ps" "agg_ok ag" "8 dvd cu_stack c" "sysv_aggregate a ag c = (ls, c')"
  shows "length ls = length (ag_Fields ag) \<and> side_ok (ab_sysvInt a) (ab_sysvFloat a) c' (ps @ zip (map fl_Type (ag_Fields ag)) ls) \<and> 8 dvd cu_stack c'"
proof (cases "ag_Size ag \<le> 16 \<and> cu_int c + need BInt (ag_Fields ag) \<le> length (ab_sysvInt a) \<and> cu_float c + need BFloat (ag_Fields ag) \<le> length (ab_sysvFloat a)")
  case True
  then have f: "field_regs (ab_sysvInt a) (ab_sysvFloat a) (ag_Fields ag) c = (ls, c')"
    using assms(4) by (simp add: sysv_aggregate_def need_split)
  have keep: "field_regs ir fr fs d = (qs, d') \<Longrightarrow> cu_stack d' = cu_stack d" for ir fr fs d qs d'
    by (induction ir fr fs d arbitrary: qs d' rule: field_regs.induct) (auto split: if_splits prod.splits)
  show ?thesis using field_regs_ok [OF assms(1) _ _ _ f] assms True keep [OF f] by (auto simp: agg_ok_def)
next
  case False
  let ?b = "alignUp (cu_stack c) 8"
  have p8: "(8 :: int) \<in> pow8" by (simp add: pow8_def)
  have sl: "slots_ok (alignUp (ag_Size ag) 8) (field_slots (ag_Fields ag))" "0 \<le> alignUp (ag_Size ag) 8"
    using assms(2) alignUp_ge [OF p8, of "ag_Size ag"] by (auto simp: agg_ok_def intro: slots_ok_mono)
  have "ls = map (\<lambda>f. Stk (?b + fl_Offset f)) (ag_Fields ag)" "c' = c\<lparr>cu_stack := ?b + alignUp (ag_Size ag) 8\<rparr>"
    using assms(4) False by (auto simp: sysv_aggregate_def need_split Let_def)
  then show ?thesis
    using field_stack_ok [OF assms(1) sl(1) _ p8 _ agg_sizes8 [OF assms(2)] sl(2), of ?b] alignUp_ge [OF p8] alignUp_dvd [OF p8] by simp
qed

lemma go_scalar_ok:
  assumes "side_ok (ab_goInt a) (ab_goFloat a) c ps" "scalar ty = Some i" "go_scalar a i c = (l, c')"
  shows "side_ok (ab_goInt a) (ab_goFloat a) c' (ps @ [(ty, l)])"
proof -
  have sz: "sc_size i \<in> pow8" "sc_align i = sc_size i" using scalar_size [OF assms(2)] by auto
  then have m: "min (sc_align i) 8 = sc_size i" by (auto simp: pow8_def)
  show ?thesis
    using assms side_ok_int [OF assms(1,2)] side_ok_float [OF assms(1,2)]
      side_ok_stk [OF assms(1,2), of "alignUp (cu_stack c) (sc_size i)" "alignUp (cu_stack c) (sc_size i) + sc_size i"]
      alignUp_ge [OF sz(1), of "cu_stack c"] alignUp_dvd [OF sz(1), of "cu_stack c"]
    by (auto simp: go_scalar_def m Let_def split: if_splits)
qed

lemma sysv_scalar_ok:
  assumes "side_ok (ab_sysvInt a) (ab_sysvFloat a) c ps" "scalar ty = Some i" "8 dvd cu_stack c" "sysv_scalar a i c = (l, c')"
  shows "side_ok (ab_sysvInt a) (ab_sysvFloat a) c' (ps @ [(ty, l)]) \<and> 8 dvd cu_stack c'"
proof -
  have sz: "sc_size i \<in> pow8" using scalar_size [OF assms(2)] by auto
  then have le: "sc_size i \<le> 8" by (auto simp: pow8_def)
  have dv: "sc_size i dvd cu_stack c" using dvd_trans [OF pow8_dvd8 [OF sz] assms(3)] .
  show ?thesis
    using assms side_ok_int [OF assms(1,2)] side_ok_float [OF assms(1,2)]
      side_ok_stk [OF assms(1,2) order.refl dv, of "cu_stack c + 8"] le
    by (auto simp: sysv_scalar_def split: if_splits)
qed

definition go_side :: "asg list \<Rightarrow> side" where
  "go_side xs = map (\<lambda>p. (as_Type p, as_Go p)) xs"

definition sysv_side :: "asg list \<Rightarrow> side" where
  "sysv_side xs = map (\<lambda>p. (as_Type p, as_SysV p)) xs"

definition assign_inv :: "abiSet \<Rightarrow> asg list \<Rightarrow> cursor \<Rightarrow> cursor \<Rightarrow> bool" where
  "assign_inv a xs g c \<longleftrightarrow> side_ok (ab_goInt a) (ab_goFloat a) g (go_side xs) \<and>
     side_ok (ab_sysvInt a) (ab_sysvFloat a) c (sysv_side xs) \<and> 8 dvd cu_stack c"

lemma zip_sides:
  assumes "length gls = length fs" "length cls = length fs"
  shows "go_side (map (\<lambda>(f, gl, cl). \<lparr>as_Type = fl_Type f, as_Go = gl, as_SysV = cl\<rparr>) (zip fs (zip gls cls))) = zip (map fl_Type fs) gls"
    "sysv_side (map (\<lambda>(f, gl, cl). \<lparr>as_Type = fl_Type f, as_Go = gl, as_SysV = cl\<rparr>) (zip fs (zip gls cls))) = zip (map fl_Type fs) cls"
  using assms by (auto simp: go_side_def sysv_side_def intro!: nth_equalityI)

lemma assign_param_ok:
  assumes "assign_inv a acc g c" "assign_param a ty g c = Inr (xs, g', c')"
  shows "assign_inv a (acc @ xs) g' c'"
proof (cases "scalar ty")
  case (Some i)
  then show ?thesis
    using assms go_scalar_ok [of a g "go_side acc" ty i] sysv_scalar_ok [of a c "sysv_side acc" ty i]
    by (auto simp: assign_inv_def assign_param_def go_side_def sysv_side_def split: prod.splits)
next
  case None
  obtain ag gls cls where ag: "aggregateLayout ty ''parameter'' False = Agg ag" "go_aggregate a ag g = (gls, g')" "sysv_aggregate a ag c = (cls, c')"
    and xs: "xs = map (\<lambda>(f, gl, cl). \<lparr>as_Type = fl_Type f, as_Go = gl, as_SysV = cl\<rparr>) (zip (ag_Fields ag) (zip gls cls))"
    using assms(2) None by (auto simp: assign_param_def split: agg_result.splits prod.splits)
  have ok: "agg_ok ag" by (rule aggregateLayout_ok [OF ag(1)])
  have inv: "side_ok (ab_goInt a) (ab_goFloat a) g (go_side acc)" "side_ok (ab_sysvInt a) (ab_sysvFloat a) c (sysv_side acc)" "8 dvd cu_stack c"
    using assms(1) by (simp_all add: assign_inv_def)
  have g: "length gls = length (ag_Fields ag) \<and> side_ok (ab_goInt a) (ab_goFloat a) g' (go_side acc @ zip (map fl_Type (ag_Fields ag)) gls)"
    by (rule go_aggregate_ok [OF inv(1) ok ag(2)])
  have c: "length cls = length (ag_Fields ag) \<and> side_ok (ab_sysvInt a) (ab_sysvFloat a) c' (sysv_side acc @ zip (map fl_Type (ag_Fields ag)) cls) \<and> 8 dvd cu_stack c'"
    by (rule sysv_aggregate_ok [OF inv(2) ok inv(3) ag(3)])
  have "go_side (acc @ xs) = go_side acc @ zip (map fl_Type (ag_Fields ag)) gls" "sysv_side (acc @ xs) = sysv_side acc @ zip (map fl_Type (ag_Fields ag)) cls"
    using zip_sides [of gls "ag_Fields ag" cls] g c by (simp_all add: xs) (simp_all add: go_side_def sysv_side_def)
  then show ?thesis using g c by (simp add: assign_inv_def)
qed

lemma assign_loop_ok: "assign_loop a tys g c acc = Inr (xs, g', c') \<Longrightarrow> assign_inv a acc g c \<Longrightarrow> assign_inv a xs g' c'"
  by (induction a tys g c acc rule: assign_loop.induct) (auto simp: assign_param_ok split: sum.splits)

section \<open>Register files\<close>

fun side_regs :: "side \<Rightarrow> string list" where
  "side_regs [] = []"
| "side_regs ((ty, Reg r) # ps) = r # side_regs ps"
| "side_regs ((ty, Stk _) # ps) = side_regs ps"

lemma side_regs_append [simp]: "side_regs (ps @ qs) = side_regs ps @ side_regs qs"
  by (induction ps rule: side_regs.induct) auto

lemma side_regs_banks: "\<forall>p\<in>set ps. scalar (fst p) \<noteq> None \<Longrightarrow> mset (side_regs ps) = mset (reg_list BInt ps) + mset (reg_list BFloat ps)"
proof (induction ps rule: side_regs.induct)
  case (2 ty r ps)
  then obtain i where "scalar ty = Some i" by auto
  with 2 show ?case by (cases "sc_bank i") auto
qed auto

lemma reg_list_mem: "(ty, Reg r) \<in> set ps \<Longrightarrow> scalar ty = Some i \<Longrightarrow> r \<in> set (reg_list (sc_bank i) ps)"
  by (induction "sc_bank i" ps rule: reg_list.induct) auto

text \<open>What a call relies on: registers of the right bank, used once, and stack slots of the area.\<close>

definition bank_loc :: "string list \<Rightarrow> string list \<Rightarrow> string \<Rightarrow> loc \<Rightarrow> bool" where
  "bank_loc ir fr ty l = (case (scalar ty, l) of (None, _) \<Rightarrow> False | (Some _, Stk _) \<Rightarrow> True
     | (Some i, Reg r) \<Rightarrow> r \<in> set (if sc_bank i = BInt then ir else fr))"

definition call_layout :: "string list \<Rightarrow> string list \<Rightarrow> int \<Rightarrow> side \<Rightarrow> bool" where
  "call_layout ir fr area ps \<longleftrightarrow>
     list_all (\<lambda>(ty, l). bank_loc ir fr ty l) ps \<and> distinct (side_regs ps) \<and> slots_ok area (stk_list ps) \<and> 8 dvd area"

locale reg_file =
  fixes ir fr :: "string list"
  assumes distinct_regs: "distinct (ir @ fr)"
begin

lemma side_distinct: "side_ok ir fr c ps \<Longrightarrow> distinct (side_regs ps)"
proof -
  assume ok: "side_ok ir fr c ps"
  have "mset (side_regs ps) = mset (take (cu_int c) ir @ take (cu_float c) fr)"
    using ok side_regs_banks [of ps] by (simp add: side_ok_def)
  moreover have "distinct (take (cu_int c) ir @ take (cu_float c) fr)"
    using distinct_regs by (auto dest: in_set_takeD)
  ultimately show ?thesis using mset_eq_imp_distinct_iff by blast
qed

lemma side_bank: "side_ok ir fr c ps \<Longrightarrow> (ty, Reg r) \<in> set ps \<Longrightarrow> \<exists>i. scalar ty = Some i \<and> r \<in> set (if sc_bank i = BInt then ir else fr)"
proof -
  assume ok: "side_ok ir fr c ps" and mem: "(ty, Reg r) \<in> set ps"
  then obtain i where i: "scalar ty = Some i" by (auto simp: side_ok_def)
  then show ?thesis using reg_list_mem [OF mem i] ok by (cases "sc_bank i") (auto simp: side_ok_def dest: in_set_takeD)
qed

lemma layout: "side_ok ir fr c ps \<Longrightarrow> cu_stack c \<le> area \<Longrightarrow> 8 dvd area \<Longrightarrow> call_layout ir fr area ps"
proof -
  assume ok: "side_ok ir fr c ps" and area: "cu_stack c \<le> area" "8 dvd area"
  have "bank_loc ir fr ty l" if mem: "(ty, l) \<in> set ps" for ty l
  proof (cases l)
    case (Reg r)
    with side_bank [OF ok] mem show ?thesis by (fastforce simp: bank_loc_def)
  next
    case (Stk o')
    with ok mem show ?thesis by (auto simp: side_ok_def bank_loc_def)
  qed
  moreover have "slots_ok area (stk_list ps)" using ok area(1) by (auto simp: side_ok_def intro: slots_ok_mono)
  ultimately show ?thesis using side_distinct [OF ok] area(2) by (auto simp: call_layout_def list_all_iff)
qed

end

interpretation amd_go: reg_file "ab_goInt amd64_abi" "ab_goFloat amd64_abi"
  by unfold_locales code_simp

interpretation amd_c: reg_file "ab_sysvInt amd64_abi" "ab_sysvFloat amd64_abi"
  by unfold_locales code_simp

interpretation arm_go: reg_file "ab_goInt arm64_abi" "ab_goFloat arm64_abi"
  by unfold_locales code_simp

interpretation arm_c: reg_file "ab_sysvInt arm64_abi" "ab_sysvFloat arm64_abi"
  by unfold_locales code_simp

lemma abiFor_reg_files:
  assumes "abiFor arch = Inr a"
  shows "reg_file (ab_goInt a) (ab_goFloat a)" "reg_file (ab_sysvInt a) (ab_sysvFloat a)"
  using assms amd_go.reg_file_axioms amd_c.reg_file_axioms arm_go.reg_file_axioms arm_c.reg_file_axioms
  by (auto simp: abiFor_def Let_def split: if_splits)

section \<open>assignParams\<close>

text \<open>The scalar leaves of a parameter type.\<close>

definition leaves :: "string \<Rightarrow> string list" where
  "leaves ty = (case scalar ty of Some _ \<Rightarrow> [ty]
     | None \<Rightarrow> (case aggregateLayout ty ''parameter'' False of Agg ag \<Rightarrow> map fl_Type (ag_Fields ag) | _ \<Rightarrow> []))"

lemma assign_inv0: "assign_inv a [] cursor0 cursor0"
  by (simp add: assign_inv_def go_side_def sysv_side_def side_ok_nil) (simp add: cursor0_def)

lemma field_regs_length: "field_regs ir fr fs c = (ls, c') \<Longrightarrow> length ls = length fs"
  by (induction ir fr fs c arbitrary: ls c' rule: field_regs.induct) (auto split: if_splits prod.splits)

lemma assign_param_leaves: "assign_param a ty g c = Inr (xs, g', c') \<Longrightarrow> map as_Type xs = leaves ty"
  unfolding assign_param_def leaves_def go_aggregate_def sysv_aggregate_def
  by (auto simp: Let_def field_regs_length intro!: nth_equalityI split: option.splits agg_result.splits prod.splits if_splits dest!: field_regs_length)

lemma assign_loop_leaves: "assign_loop a tys g c acc = Inr (xs, g', c') \<Longrightarrow> map as_Type xs = map as_Type acc @ concat (map leaves tys)"
  by (induction a tys g c acc rule: assign_loop.induct) (auto simp: assign_param_leaves split: sum.splits)

lemma assignParams_inv:
  assumes "assignParams a params = Inr r"
  obtains g c where "assign_inv a (ar_Params r) g c" "ar_GoStackSize r = alignUp (cu_stack g) 8" "ar_SysVStackSize r = cu_stack c"
proof -
  from assms obtain g c where "assign_loop a params cursor0 cursor0 [] = Inr (ar_Params r, g, c)"
    "ar_GoStackSize r = alignUp (cu_stack g) 8" "ar_SysVStackSize r = cu_stack c"
    by (auto simp: assignParams_def split: sum.splits)
  then show thesis using that assign_loop_ok [OF _ assign_inv0] by blast
qed

lemma pow8_8: "(8 :: int) \<in> pow8"
  by (simp add: pow8_def)

text \<open>C13: Every scalar leaf of the parameters gets, on the Go side and on the C side, a register of
  its bank that no other leaf has or an aligned stack slot inside the argument area that overlaps
  no other; both areas are multiples of 8 bytes.\<close>
theorem assignParams_layout:
  assumes "abiFor arch = Inr a" "assignParams a params = Inr r"
  shows "map as_Type (ar_Params r) = concat (map leaves params) \<and>
    call_layout (ab_goInt a) (ab_goFloat a) (ar_GoStackSize r) (go_side (ar_Params r)) \<and>
    call_layout (ab_sysvInt a) (ab_sysvFloat a) (ar_SysVStackSize r) (sysv_side (ar_Params r))"
proof -
  obtain g c where inv: "assign_inv a (ar_Params r) g c" and sz: "ar_GoStackSize r = alignUp (cu_stack g) 8" "ar_SysVStackSize r = cu_stack c"
    using assms(2) by (rule assignParams_inv)
  have "map as_Type (ar_Params r) = concat (map leaves params)"
    using assms(2) by (auto simp: assignParams_def dest: assign_loop_leaves split: sum.splits)
  moreover have "call_layout (ab_goInt a) (ab_goFloat a) (ar_GoStackSize r) (go_side (ar_Params r))"
    using inv reg_file.layout [OF abiFor_reg_files(1) [OF assms(1)]] alignUp_ge [OF pow8_8] alignUp_dvd [OF pow8_8]
    by (auto simp: assign_inv_def sz)
  moreover have "call_layout (ab_sysvInt a) (ab_sysvFloat a) (ar_SysVStackSize r) (sysv_side (ar_Params r))"
    using inv reg_file.layout [OF abiFor_reg_files(2) [OF assms(1)]] by (auto simp: assign_inv_def sz)
  ultimately show ?thesis by blast
qed

definition example_params :: "string list" where
  "example_params = [''ptr'', ''{ i64, double }'', ''i32'', ''{ i64, i64, i64 }'', ''float'']"

definition example_assigned :: assignResult where
  "example_assigned = (case assignParams amd64_abi example_params of Inr r \<Rightarrow> r | Inl _ \<Rightarrow> \<lparr>ar_Params = [], ar_GoStackSize = 0, ar_SysVStackSize = 0\<rparr>)"

lemma example_assigned: "assignParams amd64_abi example_params = Inr example_assigned"
  by code_simp

theorem assignParams_layout_witness:
  "map as_Type (ar_Params example_assigned) = [''ptr'', ''i64'', ''double'', ''i32'', ''i64'', ''i64'', ''i64'', ''float''] \<and>
   ar_SysVStackSize example_assigned = 24 \<and>
   call_layout (ab_sysvInt amd64_abi) (ab_sysvFloat amd64_abi) (ar_SysVStackSize example_assigned) (sysv_side (ar_Params example_assigned))"
proof -
  have "abiFor ''amd64'' = Inr amd64_abi" by (simp add: abiFor_def)
  note layout = assignParams_layout [OF this example_assigned]
  have "map as_Type (ar_Params example_assigned) = [''ptr'', ''i64'', ''double'', ''i32'', ''i64'', ''i64'', ''i64'', ''float'']"
    "ar_SysVStackSize example_assigned = 24" by code_simp+
  then show ?thesis using layout by blast
qed

section \<open>Scalar signatures\<close>

text \<open>The C ABI in closed form: the \<open>k\<close>-th parameter of a bank is in its \<open>k\<close>-th register, those
  that do not fit take 8-byte stack slots in order.\<close>

definition bank_of :: "string \<Rightarrow> bank" where
  "bank_of ty = (case scalar ty of Some i \<Rightarrow> sc_bank i | None \<Rightarrow> BInt)"

definition rank :: "bank \<Rightarrow> string list \<Rightarrow> nat" where
  "rank b tys = length (filter (\<lambda>ty. bank_of ty = b) tys)"

definition c_loc :: "abiSet \<Rightarrow> string list \<Rightarrow> string \<Rightarrow> loc" where
  "c_loc a before ty = (let regs = (if bank_of ty = BInt then ab_sysvInt a else ab_sysvFloat a); k = rank (bank_of ty) before in
     if k < length regs then Reg (regs ! k)
     else Stk (8 * int ((rank BInt before - length (ab_sysvInt a)) + (rank BFloat before - length (ab_sysvFloat a)))))"

definition c_cursor :: "abiSet \<Rightarrow> string list \<Rightarrow> cursor" where
  "c_cursor a before = \<lparr>cu_int = min (rank BInt before) (length (ab_sysvInt a)), cu_float = min (rank BFloat before) (length (ab_sysvFloat a)),
     cu_stack = 8 * int ((rank BInt before - length (ab_sysvInt a)) + (rank BFloat before - length (ab_sysvFloat a)))\<rparr>"

lemma rank_snoc [simp]: "rank b (tys @ [ty]) = rank b tys + (if bank_of ty = b then 1 else 0)"
  by (simp add: rank_def)

lemma sysv_scalar_step: "scalar ty = Some i \<Longrightarrow> sysv_scalar a i (c_cursor a before) = (c_loc a before ty, c_cursor a (before @ [ty]))"
proof -
  assume i: "scalar ty = Some i"
  have b: "bank_of ty = sc_bank i" by (simp add: bank_of_def i)
  show ?thesis
    by (cases "sc_bank i") (auto simp: sysv_scalar_def c_loc_def c_cursor_def b Let_def min_def)
qed

lemma assign_loop_scalars:
  "list_all (\<lambda>ty. scalar ty \<noteq> None) tys \<Longrightarrow> \<exists>xs g'. assign_loop a tys g (c_cursor a before) acc = Inr (acc @ xs, g', c_cursor a (before @ tys)) \<and>
    map as_SysV xs = map (\<lambda>k. c_loc a (before @ take k tys) (tys ! k)) [0..<length tys]"
proof (induction tys arbitrary: g before acc)
  case (Cons ty tys)
  then obtain i where i: "scalar ty = Some i" by auto
  let ?x = "\<lparr>as_Type = ty, as_Go = fst (go_scalar a i g), as_SysV = c_loc a before ty\<rparr>"
  have p: "assign_param a ty g (c_cursor a before) = Inr ([?x], snd (go_scalar a i g), c_cursor a (before @ [ty]))"
    by (simp add: assign_param_def i sysv_scalar_step [OF i] split: prod.splits)
  obtain xs g' where "assign_loop a tys (snd (go_scalar a i g)) (c_cursor a (before @ [ty])) (acc @ [?x]) = Inr ((acc @ [?x]) @ xs, g', c_cursor a ((before @ [ty]) @ tys))"
    "map as_SysV xs = map (\<lambda>k. c_loc a ((before @ [ty]) @ take k tys) (tys ! k)) [0..<length tys]"
    using Cons.IH [of "snd (go_scalar a i g)" "before @ [ty]" "acc @ [?x]"] Cons.prems by auto
  then show ?case
    by (intro exI [of _ "?x # xs"] exI [of _ g']) (simp add: p map_upt_Suc del: upt_Suc)
qed simp

text \<open>C14: A signature of scalar parameters is always laid out, and its C side is the C ABI's: the
  \<open>k\<close>-th parameter of a bank in the bank's \<open>k\<close>-th register, the overflowing ones in consecutive
  8-byte slots in parameter order.\<close>
theorem assignParams_scalars:
  assumes "list_all (\<lambda>ty. scalar ty \<noteq> None) params"
  shows "\<exists>r. assignParams a params = Inr r \<and>
    map as_SysV (ar_Params r) = map (\<lambda>k. c_loc a (take k params) (params ! k)) [0..<length params] \<and>
    ar_SysVStackSize r = 8 * int ((rank BInt params - length (ab_sysvInt a)) + (rank BFloat params - length (ab_sysvFloat a)))"
proof -
  have "cursor0 = c_cursor a []" by (simp add: cursor0_def c_cursor_def rank_def)
  then show ?thesis
    using assign_loop_scalars [OF assms, of a cursor0 "[]" "[]"] by (auto simp: assignParams_def) (simp add: c_cursor_def)
qed

theorem assignParams_scalars_witness:
  "\<exists>r. assignParams amd64_abi [''i64'', ''i64'', ''i64'', ''i64'', ''i64'', ''i64'', ''i32'', ''double'', ''ptr''] = Inr r \<and>
    map as_SysV (ar_Params r) = [Reg ''rdi'', Reg ''rsi'', Reg ''rdx'', Reg ''rcx'', Reg ''r8'', Reg ''r9'', Stk 0, Reg ''xmm0'', Stk 8] \<and>
    ar_SysVStackSize r = 16"
proof -
  let ?ps = "[''i64'', ''i64'', ''i64'', ''i64'', ''i64'', ''i64'', ''i32'', ''double'', ''ptr'']"
  have "list_all (\<lambda>ty. scalar ty \<noteq> None) ?ps" by code_simp
  from assignParams_scalars [OF this, of amd64_abi]
  obtain r where r: "assignParams amd64_abi ?ps = Inr r"
    "map as_SysV (ar_Params r) = map (\<lambda>k. c_loc amd64_abi (take k ?ps) (?ps ! k)) [0..<length ?ps]"
    "ar_SysVStackSize r = 8 * int ((rank BInt ?ps - length (ab_sysvInt amd64_abi)) + (rank BFloat ?ps - length (ab_sysvFloat amd64_abi)))" by blast
  have "map (\<lambda>k. c_loc amd64_abi (take k ?ps) (?ps ! k)) [0..<length ?ps] = [Reg ''rdi'', Reg ''rsi'', Reg ''rdx'', Reg ''rcx'', Reg ''r8'', Reg ''r9'', Stk 0, Reg ''xmm0'', Stk 8]"
    by code_simp
  moreover have "8 * int ((rank BInt ?ps - length (ab_sysvInt amd64_abi)) + (rank BFloat ?ps - length (ab_sysvFloat amd64_abi))) = 16" by code_simp
  ultimately show ?thesis using r by (intro exI [of _ r]) (simp only:)
qed

end
