(* ===== verification/Abi_Plan.thy ===== *)
theory Abi_Plan
  imports Abi_Correct
begin

text \<open>
  What \<open>analyzeSignature\<close> and \<open>goArgsLayout\<close> promise to the code that emits thunks: the size of the
  outgoing area, the moves of the results, and the spill slots of the Go frame's argument area.
\<close>

section \<open>Results and outgoing area\<close>

lemma outgoing_ok:
  assumes "0 \<le> s" "8 dvd s"
  shows "outgoingBytes s = Inr (alignUp s 16)"
proof -
  have "(NOT 15 :: int) = - 16" by simp
  then show ?thesis using assms by (simp add: outgoingBytes_def alignUp_def dvd_eq_mod_eq_0 add.commute)
qed

lemma alignUp_16: "s \<le> alignUp s 16" "alignUp s 16 < s + 16" "16 dvd alignUp s 16"
  using alignUp_ge_exp [where v = s and n = 4] by simp_all

lemma analyzeSignature_area:
  assumes "analyzeSignature a d = Inr pl"
  shows "0 \<le> sd_StackArgsSize (pl_SysV pl)" "8 dvd sd_StackArgsSize (pl_SysV pl)"
    "outgoingBytes (sd_StackArgsSize (pl_SysV pl)) = Inr (pl_Outgoing pl)" "pl_Outgoing pl = alignUp (sd_StackArgsSize (pl_SysV pl)) 16"
proof -
  obtain r where r: "assignParams a (lf_Params d) = Inr r" "sd_StackArgsSize (pl_SysV pl) = ar_SysVStackSize r" "outgoingBytes (ar_SysVStackSize r) = Inr (pl_Outgoing pl)"
    using assms by (auto simp: analyzeSignature_def Let_def split: if_splits sum.splits)
  have "0 \<le> ar_SysVStackSize r" "8 dvd ar_SysVStackSize r"
    using r(1) by (auto elim!: assignParams_inv simp: assign_inv_def side_ok_def)
  then show "0 \<le> sd_StackArgsSize (pl_SysV pl)" "8 dvd sd_StackArgsSize (pl_SysV pl)"
    "outgoingBytes (sd_StackArgsSize (pl_SysV pl)) = Inr (pl_Outgoing pl)" "pl_Outgoing pl = alignUp (sd_StackArgsSize (pl_SysV pl)) 16"
    using r outgoing_ok by simp_all
qed

definition example_func :: llFunc where
  "example_func = \<lparr>lf_Name = ''f'', lf_Ret = ''{ i64, i64 }'', lf_RetAttrs = [], lf_RetABI = [], lf_Params = [''{ i64, i64, i64 }'', ''ptr'', ''i32''],
     lf_ParamAttrs = [[], [], [''signext'']], lf_ParamABI = [[], [], []], lf_Varargs = False, lf_Internal = False, lf_NonC = False\<rparr>"

definition plan_of :: "abiSet \<Rightarrow> llFunc \<Rightarrow> sigPlan" where
  "plan_of a d = (case analyzeSignature a d of Inr pl \<Rightarrow> pl
     | Inl _ \<Rightarrow> \<lparr>pl_Go = \<lparr>sd_Params = [], sd_Results = [], sd_StackArgsSize = 0\<rparr>, pl_SysV = \<lparr>sd_Params = [], sd_Results = [], sd_StackArgsSize = 0\<rparr>,
         pl_GoSignature = [], pl_ResultMoves = [], pl_Outgoing = 0\<rparr>)"

lemma plan_of: "isl (analyzeSignature a d) = False \<Longrightarrow> analyzeSignature a d = Inr (plan_of a d)"
  by (auto simp: plan_of_def split: sum.splits)

lemma example_plan: "analyzeSignature amd64_abi example_func = Inr (plan_of amd64_abi example_func)"
  by (rule plan_of) code_simp

text \<open>The result registers of both sides.\<close>

definition result_pairs :: "abiSet \<Rightarrow> (string \<times> string) set" where
  "result_pairs a = {(ab_sysvIntResult a ! 0, ab_goInt a ! 0), (ab_sysvIntResult a ! 1, ab_goInt a ! 1),
     (ab_sysvFloatResult a ! 0, ab_goFloat a ! 0), (ab_sysvFloatResult a ! 1, ab_goFloat a ! 1)}"

lemma result_pairs_amd64: "result_pairs amd64_abi = {(''rax'', ''rax''), (''rdx'', ''rbx''), (''xmm0'', ''xmm0''), (''xmm1'', ''xmm1'')}"
  by code_simp

lemma result_pairs_arm64: "result_pairs arm64_abi = {(''x0'', ''x0''), (''x1'', ''x1''), (''d0'', ''d0''), (''d1'', ''d1'')}"
  by code_simp

lemma result_fields_regs:
  assumes "length fs \<le> 2" "i + length fs \<le> 2" "j + length fs \<le> 2"
  shows "set (map (\<lambda>(g, c). (reg_of (snd c), reg_of (snd g))) (result_fields a fs i j)) \<subseteq>
    result_pairs a"
  using assms by (induction a fs i j rule: result_fields.induct) (auto simp: reg_of_def result_pairs_def less_Suc_eq numeral_2_eq_2 le_Suc_eq)

lemma result_moves_pairs:
  "result_moves (map fst rs) (map snd rs) = filter (\<lambda>(s, d). s \<noteq> d) (map (\<lambda>(g, c). (reg_of (snd c), reg_of (snd g))) rs)"
proof -
  have "zip (map (reg_of \<circ> snd) (map snd rs)) (map (reg_of \<circ> snd) (map fst rs)) = map (\<lambda>(g, c). (reg_of (snd c), reg_of (snd g))) rs"
    by (induction rs) auto
  then show ?thesis by (simp add: result_moves_def)
qed

lemma returnAssignment_moves:
  assumes "returnAssignment a ret = Inr (g, c, tys)"
  shows "set (result_moves g c) \<subseteq> result_pairs a"
proof (cases "ret = ''void'' \<or> scalar ret \<noteq> None")
  case True
  then show ?thesis using assms by (auto simp: returnAssignment_def result_moves_def Let_def split: if_splits option.splits)
next
  case False
  then obtain ag where ag: "aggregateLayout ret ''return'' True = Agg ag" "g = map fst (result_fields a (ag_Fields ag) 0 0)" "c = map snd (result_fields a (ag_Fields ag) 0 0)"
    using assms by (auto simp: returnAssignment_def Let_def split: agg_result.splits if_splits)
  then show ?thesis
    using result_fields_regs [of "ag_Fields ag" 0 0 a] return_fields [OF ag(1)] by (auto simp: result_moves_pairs)
qed

lemma analyzeSignature_moves:
  assumes "analyzeSignature a d = Inr pl"
  obtains tys where "returnAssignment a (lf_Ret d) = Inr (sd_Results (pl_Go pl), sd_Results (pl_SysV pl), tys)"
    "pl_ResultMoves pl = result_moves (sd_Results (pl_Go pl)) (sd_Results (pl_SysV pl))"
  using assms by (auto simp: analyzeSignature_def Let_def split: if_splits sum.splits)

text \<open>C15: Moving the results of a call into Go's registers takes at most one register move, from
  \<open>rdx\<close> to \<open>rbx\<close>, on amd64 and none on arm64.\<close>
theorem result_moves_small:
  "(analyzeSignature amd64_abi d = Inr pl \<longrightarrow> set (pl_ResultMoves pl) \<subseteq> {(''rdx'', ''rbx'')}) \<and>
   (analyzeSignature arm64_abi d = Inr pl \<longrightarrow> pl_ResultMoves pl = [])"
proof -
  have sub: "set (pl_ResultMoves pl) \<subseteq> {(s, d). (s, d) \<in> result_pairs a \<and> s \<noteq> d}" if pl: "analyzeSignature a d = Inr pl" for a
    using pl by (rule analyzeSignature_moves) (use returnAssignment_moves in \<open>fastforce simp: result_moves_def\<close>)
  have amd: "{(s, d). (s, d) \<in> result_pairs amd64_abi \<and> s \<noteq> d} = {(''rdx'', ''rbx'')}"
    and arm: "{(s, d). (s, d) \<in> result_pairs arm64_abi \<and> s \<noteq> d} = {}"
    by (auto simp: result_pairs_amd64 result_pairs_arm64)
  show ?thesis using sub [of amd64_abi, unfolded amd] sub [of arm64_abi, unfolded arm] by simp
qed

theorem result_moves_small_witness:
  "analyzeSignature amd64_abi example_func = Inr (plan_of amd64_abi example_func) \<and> pl_ResultMoves (plan_of amd64_abi example_func) = [(''rdx'', ''rbx'')] \<and>
   set (pl_ResultMoves (plan_of amd64_abi example_func)) \<subseteq> {(''rdx'', ''rbx'')}"
proof -
  have "pl_ResultMoves (plan_of amd64_abi example_func) = [(''rdx'', ''rbx'')]" by code_simp
  then show ?thesis using result_moves_small [of example_func "plan_of amd64_abi example_func"] example_plan by blast
qed

section \<open>The argument area of a Go frame\<close>

definition stack_ptrs :: "side \<Rightarrow> int list" where
  "stack_ptrs ps = map snd (filter (\<lambda>(ty, _). ty = ''ptr'') (stk_list ps))"

definition spill_before :: "argSpill \<Rightarrow> argSpill \<Rightarrow> bool" where
  "spill_before s t \<longleftrightarrow> sp_Off s + sp_Size s \<le> sp_Off t"

lemma spill_sizes_pow8: "spill_sizes ty = Some sz \<Longrightarrow> sz \<in> pow8"
  by (auto simp: spill_sizes_def pow8_def split: if_splits)

definition spills_ok :: "int \<Rightarrow> int \<Rightarrow> argSpill list \<Rightarrow> bool" where
  "spills_ok start off ss \<longleftrightarrow> sorted_wrt spill_before ss \<and>
     (\<forall>s\<in>set ss. sp_Size s dvd sp_Off s \<and> 8 + start \<le> sp_Off s \<and> sp_Off s + sp_Size s \<le> 8 + off)"

lemma spills_ok_step:
  assumes "spills_ok start off ss" "sz \<in> pow8" "start \<le> off"
  shows "spills_ok start (alignUp off sz + sz) (ss @ [\<lparr>sp_Reg = r, sp_Off = 8 + alignUp off sz, sp_Size = sz, sp_Ptr = b\<rparr>])"
proof -
  have "sz dvd 8 + alignUp off sz" using pow8_dvd8 [OF assms(2)] alignUp_dvd [OF assms(2)] by simp
  then show ?thesis
    using assms alignUp_ge [OF assms(2), of off] pow8_pos [OF assms(2)]
    by (fastforce simp: spills_ok_def sorted_wrt_append spill_before_def)
qed

lemma spill_loop_ok:
  assumes "\<forall>p\<in>set ps. fst p \<in> dom spill_sizes" "spills_ok start off ss" "start \<le> off"
  shows "\<exists>ss' off'. spill_loop ps off ss ptrs = Inr (ss @ ss', ptrs @ stack_ptrs ps, off') \<and> spills_ok start off' (ss @ ss') \<and> off \<le> off' \<and>
     map (\<lambda>s. (sp_Reg s, sp_Ptr s)) ss' = [(r, ty = ''ptr''). (ty, Reg r) \<leftarrow> ps]"
  using assms
proof (induction ps off ss ptrs rule: spill_loop.induct)
  case (1 off spills ptrs)
  then show ?case by (simp add: stack_ptrs_def)
next
  case (2 ty o' ps off spills ptrs)
  then show ?case by (auto simp: stack_ptrs_def)
next
  case (3 ty r ps off spills ptrs)
  then obtain sz where sz: "spill_sizes ty = Some sz" by auto
  note p = spill_sizes_pow8 [OF sz]
  let ?s = "\<lparr>sp_Reg = r, sp_Off = 8 + alignUp off sz, sp_Size = sz, sp_Ptr = (ty = ''ptr'')\<rparr>"
  have le: "off \<le> alignUp off sz + sz" using alignUp_ge [OF p, of off] pow8_pos [OF p] by simp
  obtain ss' off' where "spill_loop ps (alignUp off sz + sz) (spills @ [?s]) ptrs = Inr ((spills @ [?s]) @ ss', ptrs @ stack_ptrs ps, off')"
    "spills_ok start off' ((spills @ [?s]) @ ss')" "alignUp off sz + sz \<le> off'" "map (\<lambda>s. (sp_Reg s, sp_Ptr s)) ss' = [(r, ty = ''ptr''). (ty, Reg r) \<leftarrow> ps]"
    using "3.IH" [OF sz refl] "3.prems" spills_ok_step [OF "3.prems"(2) p "3.prems"(3)] le by auto
  then show ?case
    using le by (intro exI [of _ "?s # ss'"] exI [of _ off']) (simp add: sz Let_def stack_ptrs_def)
qed

lemma goArgsLayout_total:
  assumes "\<forall>p\<in>set (sd_Params info). fst p \<in> dom spill_sizes"
  shows "\<exists>spills area. goArgsLayout info = Inr (spills, stack_ptrs (sd_Params info), area) \<and>
    map (\<lambda>s. (sp_Reg s, sp_Ptr s)) spills = [(r, ty = ''ptr''). (ty, Reg r) \<leftarrow> sd_Params info] \<and>
    spills_ok (sd_StackArgsSize info) area spills \<and> 8 dvd area \<and> sd_StackArgsSize info \<le> area"
proof -
  let ?n = "sd_StackArgsSize info"
  have "spills_ok ?n ?n []" by (simp add: spills_ok_def)
  from spill_loop_ok [OF assms this, of "[]"] obtain spills off where
    l: "spill_loop (sd_Params info) ?n [] [] = Inr (spills, stack_ptrs (sd_Params info), off)" "spills_ok ?n off spills" "?n \<le> off"
    "map (\<lambda>s. (sp_Reg s, sp_Ptr s)) spills = [(r, ty = ''ptr''). (ty, Reg r) \<leftarrow> sd_Params info]" by auto
  have "off \<le> alignUp off 8" "8 dvd alignUp off 8" using alignUp_ge [OF pow8_8] alignUp_dvd [OF pow8_8] by auto
  moreover from this have "spills_ok ?n (alignUp off 8) spills" using l(2) by (fastforce simp: spills_ok_def)
  ultimately show ?thesis using l by (simp add: goArgsLayout_def)
qed

text \<open>C16: For the Go side of a plan, \<open>goArgsLayout\<close> succeeds and gives every register argument, in
  order and with its pointer flag, an aligned spill slot after the stack arguments that overlaps no other;
  the area is a multiple of 8, and the pointer offsets are those of the pointer stack arguments.\<close>
theorem goArgsLayout_ok:
  assumes "\<forall>p\<in>set (sd_Params info). fst p \<in> dom spill_sizes"
  shows "\<exists>spills area. goArgsLayout info = Inr (spills, stack_ptrs (sd_Params info), area) \<and>
    map (\<lambda>s. (sp_Reg s, sp_Ptr s)) spills = [(r, ty = ''ptr''). (ty, Reg r) \<leftarrow> sd_Params info] \<and>
    spills_ok (sd_StackArgsSize info) area spills \<and> 8 dvd area \<and> sd_StackArgsSize info \<le> area"
  using goArgsLayout_total [OF assms] .

theorem goArgsLayout_ok_witness:
  "\<exists>spills area. goArgsLayout (pl_Go (plan_of amd64_abi example_func)) = Inr (spills, [], area) \<and> length spills = 5 \<and>
     spills_ok 0 area spills \<and> 8 dvd area"
proof -
  have "list_all (\<lambda>p. spill_sizes (fst p) \<noteq> None) (sd_Params (pl_Go (plan_of amd64_abi example_func)))" by code_simp
  then have "\<forall>p\<in>set (sd_Params (pl_Go (plan_of amd64_abi example_func))). fst p \<in> dom spill_sizes" by (auto simp: list_all_iff)
  from goArgsLayout_ok [OF this] obtain spills area where
    g: "goArgsLayout (pl_Go (plan_of amd64_abi example_func)) = Inr (spills, stack_ptrs (sd_Params (pl_Go (plan_of amd64_abi example_func))), area)"
    "map (\<lambda>s. (sp_Reg s, sp_Ptr s)) spills = [(r, ty = ''ptr''). (ty, Reg r) \<leftarrow> sd_Params (pl_Go (plan_of amd64_abi example_func))]"
    "spills_ok (sd_StackArgsSize (pl_Go (plan_of amd64_abi example_func))) area spills" "8 dvd area" by blast
  have "stack_ptrs (sd_Params (pl_Go (plan_of amd64_abi example_func))) = []" "sd_StackArgsSize (pl_Go (plan_of amd64_abi example_func)) = 0"
    "length [(r, ty = ''ptr''). (ty, Reg r) \<leftarrow> sd_Params (pl_Go (plan_of amd64_abi example_func))] = 5" by code_simp+
  moreover from this(3) have "length spills = 5" using arg_cong [OF g(2), of length] by simp
  ultimately show ?thesis using g by (intro exI [of _ spills] exI [of _ area]) simp
qed

end
