(* ===== verification/Parallel_Moves.thy ===== *)
theory Parallel_Moves
  imports Goc_Prelude
begin

text \<open>
  Parallel register moves: \<open>parallelGPR\<close> and \<open>parallelXMM\<close> of \<open>internal/lower/goabi_x86.go\<close>,
  \<open>parallelArm64GPR\<close> and \<open>parallelArm64FPR\<close> of \<open>goabi_a64.go\<close>. The four functions are one loop over
  moves with a source, a destination and an attribute (type or size), which differs only in the
  scratch register and in the instruction it prints; \<open>par_loop\<close> is that loop. It does not end on every
  input (two moves into one destination can block each other for ever), so it is a partial
  function, and \<^term>\<open>None\<close> means that it does not return.

  The interface \<open>move_machine\<close> is what the loop needs of a machine; the two architectures interpret it
  for their integer and their floating-point registers.
\<close>

type_synonym 'x move = "string \<times> string \<times> 'x"

definition src :: "'x move \<Rightarrow> string" where
  "src m = fst m"

definition dst :: "'x move \<Rightarrow> string" where
  "dst m = fst (snd m)"

definition att :: "'x move \<Rightarrow> 'x" where
  "att m = snd (snd m)"

text \<open>The first pending move whose destination is no pending source, taken out of the list.\<close>

fun take_ready :: "string list \<Rightarrow> 'x move list \<Rightarrow> ('x move \<times> 'x move list) option" where
  "take_ready sources [] = None"
| "take_ready sources (m # ms) =
     (if dst m \<notin> set sources then Some (m, ms)
      else case take_ready sources ms of None \<Rightarrow> None | Some (r, rest) \<Rightarrow> Some (r, m # rest))"

definition redirect :: "string \<Rightarrow> string \<Rightarrow> 'x move list \<Rightarrow> 'x move list" where
  "redirect old new ms = map (\<lambda>m. if src m = old then (new, snd m) else m) ms"

partial_function (option) par_loop :: "string \<Rightarrow> ('x \<Rightarrow> string \<Rightarrow> string \<Rightarrow> 'i) \<Rightarrow> 'x move list \<Rightarrow> 'i list option" where
  "par_loop tmp emit pending =
     (case pending of
        [] \<Rightarrow> Some []
      | m0 # _ \<Rightarrow>
          (case take_ready (map src pending) pending of
             Some (m, rest) \<Rightarrow> Option.bind (par_loop tmp emit rest) (\<lambda>out. Some (emit (att m) (src m) (dst m) # out))
           | None \<Rightarrow> Option.bind (par_loop tmp emit (redirect (src m0) tmp pending)) (\<lambda>out. Some (emit (att m0) (src m0) tmp # out))))"

declare par_loop.simps [code]

definition par_moves :: "string \<Rightarrow> ('x \<Rightarrow> string \<Rightarrow> string \<Rightarrow> 'i) \<Rightarrow> 'x move list \<Rightarrow> 'i list option" where
  "par_moves tmp emit moves = par_loop tmp emit (filter (\<lambda>m. src m \<noteq> dst m) moves)"

lemma par_moves_filter: "par_moves tmp emit (filter (\<lambda>m. src m \<noteq> dst m) moves) = par_moves tmp emit moves"
  by (simp add: par_moves_def)

lemma move_collapse [simp]: "(src m, dst m, att m) = m"
  by (simp add: src_def dst_def att_def)

lemma move_sel [simp]: "src (s, d, x) = s" "dst (s, d, x) = d" "att (s, d, x) = x"
  by (simp_all add: src_def dst_def att_def)

lemma src_mem: "m \<in> set ms \<Longrightarrow> src m \<in> set (map src ms)"
  by simp

section \<open>The ready move\<close>

lemma take_ready_Some:
  "take_ready ss ms = Some (m, rest) \<Longrightarrow> \<exists>before after. ms = before @ m # after \<and> rest = before @ after \<and> dst m \<notin> set ss"
proof (induction ms arbitrary: rest)
  case (Cons a ms)
  show ?case
  proof (cases "dst a \<in> set ss")
    case False
    with Cons.prems show ?thesis by (intro exI [of _ "[]"] exI [of _ ms]) auto
  next
    case True
    with Cons.prems obtain rest' where r: "take_ready ss ms = Some (m, rest')" "rest = a # rest'" by (auto split: option.splits)
    from Cons.IH [OF r(1)] obtain before after where "ms = before @ m # after" "rest' = before @ after" "dst m \<notin> set ss" by blast
    with r(2) show ?thesis by (intro exI [of _ "a # before"] exI [of _ after]) auto
  qed
qed simp

lemma take_ready_None: "take_ready ss ms = None \<longleftrightarrow> set (map dst ms) \<subseteq> set ss"
  by (induction ms) (auto split: option.splits)

text \<open>When no move is ready and no destination occurs twice, the moves permute their registers.\<close>

lemma blocked_permutes:
  assumes "take_ready (map src ms) ms = None" "distinct (map dst ms)"
  shows "set (map src ms) = set (map dst ms)"
proof -
  have sub: "set (map dst ms) \<subseteq> set (map src ms)" using assms(1) by (simp only: take_ready_None)
  have "card (set (map src ms)) \<le> length ms" using card_length [of "map src ms"] by simp
  also have "\<dots> = card (set (map dst ms))" using distinct_card [OF assms(2)] by simp
  finally show ?thesis using card_seteq [OF _ sub] by simp
qed

lemma redirect_dst [simp]: "map dst (redirect old new ms) = map dst ms"
  by (induction ms) (auto simp: redirect_def dst_def)

lemma redirect_src: "set (map src (redirect old new ms)) = (if old \<in> set (map src ms) then insert new (set (map src ms) - {old}) else set (map src ms))"
  by (induction ms) (auto simp: redirect_def src_def)

lemma redirect_mem: "m \<in> set ms \<Longrightarrow> ((if src m = old then new else src m), dst m, att m) \<in> set (redirect old new ms)"
  by (auto simp: redirect_def src_def dst_def att_def intro: rev_image_eqI)

lemma redirect_length [simp]: "length (redirect old new ms) = length ms"
  by (simp add: redirect_def)

section \<open>The interface\<close>

definition coherent :: "'x move list \<Rightarrow> bool" where
  "coherent ms \<longleftrightarrow> (\<forall>m\<in>set ms. \<forall>m'\<in>set ms. src m = src m' \<longrightarrow> att m = att m')"

lemma coherent_distinct: "distinct (map src ms) \<Longrightarrow> coherent ms"
  unfolding coherent_def by (auto simp: distinct_map inj_on_def)

lemma coherent_unit: "coherent (ms :: unit move list)"
  by (simp add: coherent_def)

lemma coherent_sub: "coherent ms \<Longrightarrow> set ms' \<subseteq> set ms \<Longrightarrow> coherent ms'"
  unfolding coherent_def by blast

lemma coherent_redirect:
  assumes "coherent ms" "new \<notin> set (map src ms)"
  shows "coherent (redirect old new ms)"
proof -
  have "att m = att m'" if mem: "m \<in> set (redirect old new ms)" "m' \<in> set (redirect old new ms)" and eq: "src m = src m'" for m m'
  proof -
    from mem obtain a where a: "a \<in> set ms" "m = (if src a = old then (new, snd a) else a)"
      unfolding redirect_def set_map by blast
    from mem obtain b where b: "b \<in> set ms" "m' = (if src b = old then (new, snd b) else b)"
      unfolding redirect_def set_map by blast
    have ne: "src a \<noteq> new" "src b \<noteq> new" using src_mem [OF a(1)] src_mem [OF b(1)] assms(2) by metis+
    have at: "att m = att a" "att m' = att b" by (simp_all add: a(2) b(2) att_def)
    have sr: "src m = (if src a = old then new else src a)" "src m' = (if src b = old then new else src b)"
      by (simp_all add: a(2) b(2) src_def)
    have "src a = src b" using eq ne unfolding sr by (cases "src a = old"; cases "src b = old") simp_all
    then show ?thesis using assms(1) a(1) b(1) unfolding coherent_def at by blast
  qed
  then show ?thesis unfolding coherent_def by blast
qed

locale move_machine =
  fixes exec :: "'i \<Rightarrow> 's \<Rightarrow> 's"
    and get :: "string \<Rightarrow> 's \<Rightarrow> 'v"
    and rest :: "'s \<Rightarrow> 'r"
    and view :: "'x \<Rightarrow> 'v \<Rightarrow> 'w"
    and emit :: "'x \<Rightarrow> string \<Rightarrow> string \<Rightarrow> 'i"
  assumes exec_dst: "view x (get d (exec (emit x s d) st)) = view x (get s st)"
    and exec_other: "r \<noteq> d \<Longrightarrow> get r (exec (emit x s d) st) = get r st"
    and exec_rest: "rest (exec (emit x s d) st) = rest st"
begin

definition moved :: "'x move list \<Rightarrow> string set \<Rightarrow> 's \<Rightarrow> 's \<Rightarrow> bool" where
  "moved ms others st st' \<longleftrightarrow>
     (\<forall>m\<in>set ms. view (att m) (get (dst m) st') = view (att m) (get (src m) st)) \<and>
     (\<forall>r. r \<notin> set (map dst ms) \<union> others \<longrightarrow> get r st' = get r st) \<and> rest st' = rest st"

lemma moved_ready:
  assumes "ms = before @ m # after" "distinct (map dst ms)" "dst m \<notin> set (map src ms)" "dst m \<noteq> tmp"
    "moved (before @ after) {tmp} (exec (emit (att m) (src m) (dst m)) st) st'"
  shows "moved ms {tmp} st st'"
proof -
  let ?st = "exec (emit (att m) (src m) (dst m)) st"
  have fresh: "dst m \<notin> set (map dst (before @ after)) \<union> {tmp}" using assms(1,2,4) by auto
  have other: "view (att n) (get (dst n) st') = view (att n) (get (src n) st)" if mem: "n \<in> set (before @ after)" for n
  proof -
    have "n \<in> set ms" using assms(1) mem by auto
    then have "src n \<noteq> dst m" using assms(3) src_mem [of n ms] by metis
    then show ?thesis using assms(5) mem by (simp add: moved_def exec_other)
  qed
  have "view (att m) (get (dst m) st') = view (att m) (get (src m) st)"
    using assms(5) fresh by (simp add: moved_def exec_dst)
  moreover have "get r st' = get r st" if "r \<notin> set (map dst ms) \<union> {tmp}" for r
    using assms(1,5) that by (simp add: moved_def exec_other)
  ultimately show ?thesis using assms(1,5) other unfolding moved_def by (auto simp: exec_rest)
qed

lemma moved_blocked:
  assumes "moved (redirect s tmp ms) {tmp} (exec (emit x s tmp) st) st'" "tmp \<notin> set (map src ms)" "\<forall>m\<in>set ms. src m = s \<longrightarrow> att m = x"
  shows "moved ms {tmp} st st'"
proof -
  let ?st = "exec (emit x s tmp) st"
  have "view (att m) (get (dst m) st') = view (att m) (get (src m) st)" if mem: "m \<in> set ms" for m
  proof -
    have "view (att m) (get (dst m) st') = view (att m) (get (if src m = s then tmp else src m) ?st)"
      using assms(1) redirect_mem [OF mem, of s tmp] unfolding moved_def by force
    also have "\<dots> = view (att m) (get (src m) st)"
    proof (cases "src m = s")
      case True
      then show ?thesis using assms(3) mem by (simp add: exec_dst)
    next
      case False
      have "src m \<noteq> tmp" using src_mem [OF mem] assms(2) by metis
      with False show ?thesis by (simp add: exec_other)
    qed
    finally show ?thesis .
  qed
  moreover have "get r st' = get r st" if out: "r \<notin> set (map dst ms) \<union> {tmp}" for r
  proof -
    have "get r st' = get r ?st" using assms(1) out unfolding moved_def redirect_dst by blast
    then show ?thesis using out by (simp add: exec_other)
  qed
  moreover have "rest st' = rest st" using assms(1) by (simp add: moved_def exec_rest)
  ultimately show ?thesis unfolding moved_def by blast
qed

lemma par_loop_moved:
  assumes "distinct (map dst ms)" "tmp \<notin> set (map dst ms)" "coherent ms"
  shows "\<exists>out. par_loop tmp emit ms = Some out \<and> (\<forall>st. moved ms {tmp} st (fold exec out st))"
  using assms
proof (induction "2 * length ms + (if tmp \<in> set (map src ms) then 0 else 1)" arbitrary: ms rule: less_induct)
  case less
  show ?case
  proof (cases ms)
    case Nil
    then show ?thesis by (subst par_loop.simps) (simp add: moved_def)
  next
    case (Cons m0 ms')
    show ?thesis
    proof (cases "take_ready (map src ms) ms")
      case (Some mr)
      obtain m others where mr: "mr = (m, others)" by (cases mr)
      from take_ready_Some [OF Some [unfolded mr]] obtain before after
        where b: "ms = before @ m # after" "others = before @ after" "dst m \<notin> set (map src ms)" by blast
      have "\<exists>out. par_loop tmp emit others = Some out \<and> (\<forall>st. moved others {tmp} st (fold exec out st))"
        using less.prems b by (intro less.hyps) (auto intro: coherent_sub)
      then obtain out where out: "par_loop tmp emit others = Some out" "\<And>st. moved others {tmp} st (fold exec out st)" by blast
      have "par_loop tmp emit ms = Some (emit (att m) (src m) (dst m) # out)"
        using Some mr out(1) Cons by (subst par_loop.simps) simp
      moreover have "dst m \<noteq> tmp" using less.prems(2) b(1) by auto
      then have "moved ms {tmp} st (fold exec (emit (att m) (src m) (dst m) # out) st)" for st
        using moved_ready [OF b(1) less.prems(1) b(3)] out(2) [unfolded b(2)] by simp
      ultimately show ?thesis by blast
    next
      case None
      note perm = blocked_permutes [OF None less.prems(1)]
      then have fresh: "tmp \<notin> set (map src ms)" using less.prems(2) by simp
      let ?r = "redirect (src m0) tmp ms"
      have "src m0 \<in> set (map src ms)" using Cons by simp
      then have "tmp \<in> set (map src ?r)" by (simp only: redirect_src if_True insertI1)
      then have less': "2 * length ?r + (if tmp \<in> set (map src ?r) then 0 else 1) < 2 * length ms + (if tmp \<in> set (map src ms) then 0 else 1)"
        using fresh by (simp only: if_True if_False redirect_length)
      have "\<exists>out. par_loop tmp emit ?r = Some out \<and> (\<forall>st. moved ?r {tmp} st (fold exec out st))"
        by (rule less.hyps [OF less']) (simp_all only: redirect_dst less.prems coherent_redirect [OF less.prems(3) fresh] not_False_eq_True)
      then obtain out where out: "par_loop tmp emit ?r = Some out" "\<And>st. moved ?r {tmp} st (fold exec out st)" by blast
      have "par_loop tmp emit ms = Some (emit (att m0) (src m0) tmp # out)"
        using None out(1) Cons by (subst par_loop.simps) simp
      moreover have "m0 \<in> set ms" using Cons by simp
      then have "\<forall>m\<in>set ms. src m = src m0 \<longrightarrow> att m = att m0" using less.prems(3) unfolding coherent_def by blast
      then have "moved ms {tmp} st (fold exec (emit (att m0) (src m0) tmp # out) st)" for st
        unfolding fold_simps comp_apply using moved_blocked [OF out(2) fresh] by blast
      ultimately show ?thesis by blast
    qed
  qed
qed

lemma par_moves_moved:
  assumes "distinct (map dst ms)" "tmp \<notin> set (map dst ms)" "coherent ms"
  shows "\<exists>out. par_moves tmp emit ms = Some out \<and> (\<forall>st. moved ms {tmp} st (fold exec out st))"
proof -
  let ?p = "filter (\<lambda>m. src m \<noteq> dst m) ms"
  have dd: "distinct (map dst ?p)" using assms(1) by (rule distinct_map_filter)
  have "\<exists>out. par_loop tmp emit ?p = Some out \<and> (\<forall>st. moved ?p {tmp} st (fold exec out st))"
    using dd assms(2,3) by (intro par_loop_moved) (auto intro: coherent_sub)
  then obtain out where out: "par_loop tmp emit ?p = Some out" "\<And>st. moved ?p {tmp} st (fold exec out st)" by blast
  have "moved ms {tmp} st (fold exec out st)" for st
  proof -
    have self: "get (dst m) (fold exec out st) = get (src m) st" if mem: "m \<in> set ms" and eq: "src m = dst m" for m
    proof -
      have "dst m \<notin> set (map dst ?p)" using assms(1) mem eq by (auto simp: distinct_map inj_on_def)
      moreover have "dst m \<noteq> tmp" using assms(2) mem by auto
      ultimately show ?thesis using out(2) [of st] eq by (simp add: moved_def)
    qed
    have "view (att m) (get (dst m) (fold exec out st)) = view (att m) (get (src m) st)" if mem: "m \<in> set ms" for m
      using out(2) [of st] self [OF mem] mem by (cases "src m = dst m") (simp_all add: moved_def)
    then show ?thesis using out(2) [of st] unfolding moved_def by auto
  qed
  with out(1) show ?thesis unfolding par_moves_def by blast
qed

end

end
