(* ===== verification/Machine.thy ===== *)
theory Machine
  imports Goc_Prelude
begin

text \<open>
  Byte-addressed memory and partial registers, shared by the models of amd64 and arm64 code. An
  address is an integer; a value of \<open>n\<close> bytes is stored little-endian.
\<close>

type_synonym val = "64 word"
type_synonym bytes_mem = "int \<Rightarrow> 8 word"

fun store :: "nat \<Rightarrow> int \<Rightarrow> val \<Rightarrow> bytes_mem \<Rightarrow> bytes_mem" where
  "store 0 a v m = m"
| "store (Suc n) a v m = (store n (a + 1) (drop_bit 8 v) m)(a := ucast v)"

fun fetch :: "nat \<Rightarrow> int \<Rightarrow> bytes_mem \<Rightarrow> val" where
  "fetch 0 a m = 0"
| "fetch (Suc n) a m = ucast (m a) OR push_bit 8 (fetch n (a + 1) m)"

text \<open>The low \<open>n\<close> bytes of a value, and a value with its low \<open>n\<close> bytes replaced.\<close>

definition low :: "nat \<Rightarrow> val \<Rightarrow> val" where
  "low n v = take_bit (8 * n) v"

definition merge_low :: "nat \<Rightarrow> val \<Rightarrow> val \<Rightarrow> val" where
  "merge_low n v old = take_bit (8 * n) v OR (old AND NOT (mask (8 * n)))"

lemma low_merge [simp]: "low n (merge_low n v old) = low n v"
  unfolding low_def merge_low_def
  by (rule bit_eqI) (auto simp: bit_take_bit_iff bit_or_iff bit_and_iff bit_not_iff bit_mask_iff)

lemma low_low [simp]: "low n (low n v) = low n v"
  by (simp add: low_def)

lemma low_8 [simp]: "low 8 v = v"
  by (simp add: low_def take_bit_word_eq_self)

lemma merge_8 [simp]: "merge_low 8 v old = v"
  by (metis low_8 low_merge)

lemma store_other: "x < a \<or> a + int n \<le> x \<Longrightarrow> store n a v m x = m x"
  by (induction n arbitrary: a v) auto

lemma fetch_store_same: "fetch n a (store n a v m) = low n v"
proof (induction n arbitrary: a v)
  case 0
  then show ?case by (simp add: low_def)
next
  case (Suc n)
  have keep: "fetch n (a + 1) (f(a := b)) = fetch n (a + 1) f" for f b
  proof -
    have "fetch n c (f(a := b)) = fetch n c f" if "a < c" for c
      using that by (induction n arbitrary: c) auto
    then show ?thesis by simp
  qed
  have "fetch (Suc n) a (store (Suc n) a v m) = ucast (ucast v :: 8 word) OR push_bit 8 (low n (drop_bit 8 v))"
    by (simp add: keep Suc.IH)
  also have "\<dots> = low (Suc n) v"
    unfolding low_def
    by (rule bit_eqI) (auto simp: bit_or_iff bit_push_bit_iff bit_take_bit_iff bit_drop_bit_eq bit_ucast_iff)
  finally show ?case .
qed

lemma fetch_cong: "(\<And>x. a \<le> x \<Longrightarrow> x < a + int n \<Longrightarrow> m x = m' x) \<Longrightarrow> fetch n a m = fetch n a m'"
proof (induction n arbitrary: a)
  case (Suc n)
  have "fetch n (a + 1) m = fetch n (a + 1) m'" using Suc.prems by (intro Suc.IH) auto
  moreover have "m a = m' a" using Suc.prems by simp
  ultimately show ?case by simp
qed simp

lemma fetch_store_other: "a + int n \<le> b \<or> b + int k \<le> a \<Longrightarrow> fetch n a (store k b v m) = fetch n a m"
  by (rule fetch_cong) (auto intro: store_other)

lemma fetch_bit: "bit (fetch n a m) k \<Longrightarrow> k < 8 * n"
proof (induction n arbitrary: a k)
  case (Suc n)
  show ?case
  proof (cases "k < 8")
    case False
    then have "bit (fetch n (a + 1) m) (k - 8)"
      using Suc.prems bit_imp_le_length [of "m a" k] by (auto simp: bit_or_iff bit_push_bit_iff bit_ucast_iff)
    from Suc.IH [OF this] show ?thesis using False by simp
  qed simp
qed simp

lemma low_fetch [simp]: "low n (fetch n a m) = fetch n a m"
  unfolding low_def by (rule bit_eqI) (auto simp: bit_take_bit_iff dest: fetch_bit)

lemma store_low: "n \<le> k \<Longrightarrow> store n a (low k v) m = store n a v m"
proof (induction n arbitrary: a v k)
  case (Suc n)
  then obtain k' where k: "k = Suc k'" "n \<le> k'" by (cases k) auto
  have "drop_bit 8 (low k v) = low k' (drop_bit 8 v)" unfolding low_def k(1)
    by (rule bit_eqI) (auto simp: bit_take_bit_iff bit_drop_bit_eq)
  moreover have "(ucast (low k v) :: 8 word) = ucast v" unfolding low_def k(1)
    by (rule bit_eqI) (auto simp: bit_take_bit_iff bit_ucast_iff)
  ultimately show ?case using Suc.IH [OF k(2), of _ "drop_bit 8 v"] by simp
qed simp

end
