(* ===== verification/Thunk_Args.thy ===== *)
theory Thunk_Args
  imports Abi_Plan Parallel_Moves Machine
begin

text \<open>
  Moving the arguments of a call from Go's locations to the C locations, for any machine. Both
  thunk emitters (\<open>goabi_x86.go\<close>, \<open>goabi_a64.go\<close>) write the code in the same order: the stack
  arguments, the parallel integer moves, the parallel floating-point moves, the integer loads, the
  floating-point loads. The interface \<open>arg_code\<close> states what each of these pieces does on its own;
  that the whole sequence moves every argument is proved here once, and the two architectures
  interpret the interface with their emitters.
\<close>

section \<open>Arguments\<close>

text \<open>\<open>info, _ := scalar(ty)\<close>: the zero value when the type is no scalar.\<close>

definition scalar_info :: "string \<Rightarrow> bank option \<times> nat" where
  "scalar_info ty = (case scalar ty of Some i \<Rightarrow> (Some (sc_bank i), nat (sc_size i)) | None \<Rightarrow> (None, 0))"

text \<open>An argument: its type, where Go has it and where C wants it.\<close>

type_synonym arg = "string \<times> loc \<times> loc"

definition plan_args :: "sigPlan \<Rightarrow> arg list" where
  "plan_args pl = map (\<lambda>((ty, g), (_, c)). (ty, g, c)) (zip (sd_Params (pl_Go pl)) (sd_Params (pl_SysV pl)))"

definition c_side :: "arg list \<Rightarrow> side" where
  "c_side args = map (\<lambda>(ty, g, c). (ty, c)) args"

definition g_side :: "arg list \<Rightarrow> side" where
  "g_side args = map (\<lambda>(ty, g, c). (ty, g)) args"

definition is_int :: "string \<Rightarrow> bool" where
  "is_int ty \<longleftrightarrow> fst (scalar_info ty) = Some BInt"

lemma sides_simps [simp]:
  "c_side [] = []" "c_side ((ty, g, c) # args) = (ty, c) # c_side args"
  "g_side [] = []" "g_side ((ty, g, c) # args) = (ty, g) # g_side args"
  by (simp_all add: c_side_def g_side_def)

lemma scalar_info_Some: "scalar ty = Some i \<Longrightarrow> scalar_info ty = (Some (sc_bank i), nat (sc_size i))"
  by (simp add: scalar_info_def)

lemma is_int_Some: "scalar ty = Some i \<Longrightarrow> is_int ty \<longleftrightarrow> sc_bank i = BInt"
  by (simp add: is_int_def scalar_info_Some)

lemma scalar_nat_size: "scalar ty = Some i \<Longrightarrow> int (snd (scalar_info ty)) = sc_size i"
  using scalar_size [of ty i] by (auto simp: scalar_info_def pow8_def)

lemma stk_list_mem: "(ty, Stk off) \<in> set ps \<longleftrightarrow> (ty, off) \<in> set (stk_list ps)"
  by (induction ps rule: stk_list.induct) auto

lemma c_side_mem: "(ty, g, c) \<in> set args \<Longrightarrow> (ty, c) \<in> set (c_side args)"
  by (force simp: c_side_def)

lemma g_side_mem: "(ty, g, c) \<in> set args \<Longrightarrow> (ty, g) \<in> set (g_side args)"
  by (force simp: g_side_def)

lemma slots_ok_tail: "slots_ok area (p # ps) \<Longrightarrow> slots_ok area ps"
  by (simp add: slots_ok_def)

lemma side_regs_mem: "(ty, Reg r) \<in> set ps \<Longrightarrow> r \<in> set (side_regs ps)"
  by (induction ps rule: side_regs.induct) auto

lemma side_regs_tail: "distinct (side_regs (p # ps)) \<Longrightarrow> distinct (side_regs ps)"
  by (cases p; cases "snd p") auto

text \<open>A C register belongs to one argument.\<close>

lemma c_reg_unique:
  "distinct (side_regs (c_side args)) \<Longrightarrow> (ty, g, Reg r) \<in> set args \<Longrightarrow> (ty', g', Reg r) \<in> set args \<Longrightarrow> ty' = ty \<and> g' = g"
proof (induction args)
  case (Cons a args)
  obtain t h c where a: "a = (t, h, c)" by (cases a)
  have "r \<in> set (side_regs (c_side args))" if "(t', h', Reg r) \<in> set args" for t' h'
    using side_regs_mem c_side_mem that by blast
  then show ?case using Cons a by (cases c) auto
qed simp

section \<open>What a machine shows\<close>

text \<open>The part of a machine state an argument can be in: the two register files, memory, the
  address of the first C stack argument and of the first Go stack argument; and the rest.\<close>

record 'r mview =
  m_int :: "string \<Rightarrow> val"
  m_flt :: "string \<Rightarrow> val"
  m_mem :: bytes_mem
  m_c :: int
  m_g :: int
  m_rest :: 'r

text \<open>The value of an argument of a type at a location; stack locations count from a base.\<close>

definition arg_val :: "int \<Rightarrow> 'r mview \<Rightarrow> string \<Rightarrow> loc \<Rightarrow> val" where
  "arg_val base v ty l = (let (b, n) = scalar_info ty in case l of
     Reg r \<Rightarrow> low n (if b = Some BInt then m_int v r else m_flt v r)
   | Stk off \<Rightarrow> fetch n (base + off) (m_mem v))"

text \<open>Where an argument may be before the call: in a register other than the scratch registers or
  above the frame.\<close>

definition go_loc :: "string \<Rightarrow> string \<Rightarrow> loc \<Rightarrow> bool" where
  "go_loc it ft l = (case l of Reg r \<Rightarrow> r \<noteq> it \<and> r \<noteq> ft | Stk off \<Rightarrow> 0 \<le> off)"

text \<open>Nothing but the scratch registers and the given memory cells changes.\<close>

definition only_scratch :: "string \<Rightarrow> string \<Rightarrow> int set \<Rightarrow> 'r mview \<Rightarrow> 'r mview \<Rightarrow> bool" where
  "only_scratch it ft cells v v' \<longleftrightarrow> m_c v' = m_c v \<and> m_g v' = m_g v \<and> m_rest v' = m_rest v \<and>
     (\<forall>r. r \<noteq> it \<longrightarrow> m_int v' r = m_int v r) \<and> (\<forall>r. r \<noteq> ft \<longrightarrow> m_flt v' r = m_flt v r) \<and>
     (\<forall>x. x \<notin> cells \<longrightarrow> m_mem v' x = m_mem v x)"

text \<open>Nothing but the given registers of one file changes.\<close>

definition same_but :: "bool \<Rightarrow> string set \<Rightarrow> 'r mview \<Rightarrow> 'r mview \<Rightarrow> bool" where
  "same_but ints R v v' \<longleftrightarrow> m_mem v' = m_mem v \<and> m_c v' = m_c v \<and> m_g v' = m_g v \<and> m_rest v' = m_rest v \<and>
     (\<forall>r. ints \<and> r \<in> R \<or> m_int v' r = m_int v r) \<and> (\<forall>r. \<not> ints \<and> r \<in> R \<or> m_flt v' r = m_flt v r)"

text \<open>The registers one bank's moves write, and what the moves promise.\<close>

definition move_dsts :: "bool \<Rightarrow> arg list \<Rightarrow> string set" where
  "move_dsts b args = {d. \<exists>ty s. (ty, Reg s, Reg d) \<in> set args \<and> is_int ty = b}"

definition regs_moved :: "bool \<Rightarrow> string \<Rightarrow> arg list \<Rightarrow> 'r mview \<Rightarrow> 'r mview \<Rightarrow> bool" where
  "regs_moved b tmp args v v' \<longleftrightarrow> same_but b (insert tmp (move_dsts b args)) v v' \<and>
     (\<forall>ty s d base. (ty, Reg s, Reg d) \<in> set args \<and> is_int ty = b \<longrightarrow> arg_val base v' ty (Reg d) = arg_val base v ty (Reg s))"

definition args_ok :: "string \<Rightarrow> string \<Rightarrow> int \<Rightarrow> arg list \<Rightarrow> bool" where
  "args_ok it ft area args \<longleftrightarrow> (\<forall>(ty, g, c)\<in>set args. scalar ty \<noteq> None \<and> go_loc it ft g) \<and>
     distinct (side_regs (g_side args)) \<and> distinct (side_regs (c_side args)) \<and> slots_ok area (stk_list (c_side args)) \<and>
     it \<notin> set (side_regs (c_side args)) \<and> ft \<notin> set (side_regs (c_side args))"

text \<open>What the argument code promises: every argument at its C location, and nothing else changed
  but the scratch registers, the C argument registers and the outgoing area.\<close>

definition args_moved :: "string \<Rightarrow> string \<Rightarrow> int \<Rightarrow> arg list \<Rightarrow> 'r mview \<Rightarrow> 'r mview \<Rightarrow> bool" where
  "args_moved it ft area args v v' \<longleftrightarrow>
     (\<forall>(ty, g, c)\<in>set args. arg_val (m_c v) v' ty c = arg_val (m_g v) v ty g) \<and>
     m_c v' = m_c v \<and> m_g v' = m_g v \<and> m_rest v' = m_rest v \<and>
     (\<forall>x. x < m_c v \<or> m_c v + area \<le> x \<longrightarrow> m_mem v' x = m_mem v x) \<and>
     (\<forall>r. r \<notin> insert it (set (side_regs (c_side args))) \<longrightarrow> m_int v' r = m_int v r) \<and>
     (\<forall>r. r \<notin> insert ft (set (side_regs (c_side args))) \<longrightarrow> m_flt v' r = m_flt v r)"

lemma args_okD:
  assumes "args_ok it ft area args"
  shows "\<forall>(ty, g, c)\<in>set args. scalar ty \<noteq> None" "distinct (side_regs (g_side args))" "distinct (side_regs (c_side args))"
    "it \<notin> set (side_regs (c_side args))" "ft \<notin> set (side_regs (c_side args))"
    "slots_ok area (stk_list (c_side args))" "\<forall>(ty, g, c)\<in>set args. go_loc it ft g"
  using assms by (auto simp: args_ok_def)

lemma only_scratch_trans: "only_scratch it ft A v v' \<Longrightarrow> only_scratch it ft B v' v'' \<Longrightarrow> only_scratch it ft (A \<union> B) v v''"
  by (simp add: only_scratch_def)

lemma same_but_trans: "same_but b R v v' \<Longrightarrow> same_but b R' v' v'' \<Longrightarrow> same_but b (R \<union> R') v v''"
  unfolding same_but_def by (metis UnI1 UnI2)

lemma same_but_mono: "same_but b R v v' \<Longrightarrow> R \<subseteq> R' \<Longrightarrow> same_but b R' v v'"
  unfolding same_but_def by blast

lemma same_but_refl: "same_but b R v v"
  by (simp add: same_but_def)

lemma arg_val_scratch:
  assumes "only_scratch it ft cells v v'" "go_loc it ft l" "\<forall>x\<in>cells. x < base"
  shows "arg_val base v' ty l = arg_val base v ty l"
proof (cases l)
  case (Reg r)
  then show ?thesis using assms(1,2) by (auto simp: arg_val_def only_scratch_def go_loc_def split: prod.splits)
next
  case (Stk off)
  have "fetch n (base + off) (m_mem v') = fetch n (base + off) (m_mem v)" for n
  proof (rule fetch_cong)
    fix x assume "base + off \<le> x"
    then have "x \<notin> cells" using assms(2,3) Stk by (auto simp: go_loc_def)
    then show "m_mem v' x = m_mem v x" using assms(1) by (simp add: only_scratch_def)
  qed
  then show ?thesis using Stk by (simp add: arg_val_def split: prod.splits)
qed

lemma arg_val_same_but:
  assumes "same_but b R v v'" "is_int ty = b \<longrightarrow> r \<notin> R"
  shows "arg_val base v' ty (Reg r) = arg_val base' v ty (Reg r)"
proof -
  have "is_int ty \<Longrightarrow> m_int v' r = m_int v r" "\<not> is_int ty \<Longrightarrow> m_flt v' r = m_flt v r" using assms unfolding same_but_def by blast+
  then show ?thesis by (cases "is_int ty") (auto simp: arg_val_def is_int_def split: prod.splits)
qed

lemma arg_val_mem: "m_mem v' = m_mem v \<Longrightarrow> arg_val base v' ty (Stk off) = arg_val base v ty (Stk off)"
  by (simp add: arg_val_def)

lemma arg_val_base: "arg_val base v ty (Reg r) = arg_val base' v ty (Reg r)"
  by (simp add: arg_val_def)

section \<open>The cells of the stack arguments\<close>

definition c_slots :: "int \<Rightarrow> arg list \<Rightarrow> int set" where
  "c_slots base args = (\<Union>(ty, g, c)\<in>set args. case c of Reg r \<Rightarrow> {} | Stk off \<Rightarrow> {base + off ..< base + off + int (snd (scalar_info ty))})"

lemma c_slots_simps [simp]:
  "c_slots base [] = {}" "c_slots base ((ty, g, Reg r) # args) = c_slots base args"
  "c_slots base ((ty, g, Stk off) # args) = {base + off ..< base + off + int (snd (scalar_info ty))} \<union> c_slots base args"
  by (simp_all add: c_slots_def)

lemma c_slotsE:
  assumes "x \<in> c_slots base args"
  obtains ty g off where "(ty, g, Stk off) \<in> set args" "base + off \<le> x" "x < base + off + int (snd (scalar_info ty))"
  using assms by (auto simp: c_slots_def split: loc.splits)

lemma c_slots_bound: "slots_ok area (stk_list (c_side args)) \<Longrightarrow> x \<in> c_slots base args \<Longrightarrow> base \<le> x \<and> x < base + area"
proof -
  assume ok: "slots_ok area (stk_list (c_side args))" and "x \<in> c_slots base args"
  then obtain ty g off where a: "(ty, g, Stk off) \<in> set args" "base + off \<le> x" "x < base + off + int (snd (scalar_info ty))"
    by (auto elim: c_slotsE)
  have "(ty, off) \<in> set (stk_list (c_side args))" using c_side_mem [OF a(1)] by (simp only: stk_list_mem)
  from slots_okD [OF ok this] obtain i where "scalar ty = Some i" "0 \<le> off" "off + sc_size i \<le> area" by auto
  then show ?thesis using a scalar_nat_size by fastforce
qed

lemma c_slots_after:
  assumes "slots_ok area ((ty, off) # stk_list (c_side args))" "x \<in> c_slots base args"
  shows "base + off + int (snd (scalar_info ty)) \<le> x"
proof -
  from assms(2) obtain ty' g off' where a: "(ty', g, Stk off') \<in> set args" "base + off' \<le> x" by (rule c_slotsE)
  then have "(ty', off') \<in> set (stk_list (c_side args))" using c_side_mem [OF a(1)] by (simp only: stk_list_mem)
  then have "slot_before (ty, off) (ty', off')" using assms(1) by (auto simp: slots_ok_def)
  then show ?thesis using a(2) scalar_nat_size by (fastforce simp: slot_before_def)
qed

definition loaded :: "arg list \<Rightarrow> string set" where
  "loaded args = {r. \<exists>ty off. (ty, Stk off, Reg r) \<in> set args}"

lemma not_loaded: "args_ok it ft area args \<Longrightarrow> (ty, Reg r', Reg r) \<in> set args \<Longrightarrow> r \<notin> loaded args"
  using c_reg_unique [OF args_okD(3)] unfolding loaded_def by blast

lemma loaded_c: "loaded args \<subseteq> set (side_regs (c_side args))"
  using side_regs_mem c_side_mem unfolding loaded_def by blast

lemma move_dsts_c: "move_dsts b args \<subseteq> set (side_regs (c_side args))"
  using side_regs_mem c_side_mem unfolding move_dsts_def by blast

section \<open>Register moves of one bank\<close>

text \<open>The moves the emitters collect, with the attribute they attach to a type.\<close>

fun bank_moves :: "bool \<Rightarrow> (string \<Rightarrow> 'x) \<Rightarrow> arg list \<Rightarrow> 'x move list" where
  "bank_moves b mk [] = []"
| "bank_moves b mk ((ty, Reg r, Reg r') # args) = (if is_int ty = b then (r, r', mk ty) # bank_moves b mk args else bank_moves b mk args)"
| "bank_moves b mk (_ # args) = bank_moves b mk args"

lemma bank_moves_mem: "m \<in> set (bank_moves b mk args) \<longleftrightarrow> (\<exists>ty s d. m = (s, d, mk ty) \<and> (ty, Reg s, Reg d) \<in> set args \<and> is_int ty = b)"
  by (induction b mk args rule: bank_moves.induct) auto

lemma bank_moves_dst: "set (map dst (bank_moves b mk args)) = move_dsts b args"
  by (force simp: bank_moves_mem move_dsts_def)

lemma bank_moves_src: "set (map src (bank_moves b mk args)) \<subseteq> set (side_regs (g_side args))"
  using side_regs_mem g_side_mem by (fastforce simp: bank_moves_mem)

lemma bank_moves_distinct:
  "distinct (side_regs (c_side args)) \<Longrightarrow> distinct (map dst (bank_moves b mk args))"
  "distinct (side_regs (g_side args)) \<Longrightarrow> distinct (map src (bank_moves b mk args))"
proof -
  show "distinct (side_regs (c_side args)) \<Longrightarrow> distinct (map dst (bank_moves b mk args))"
  proof (induction b mk args rule: bank_moves.induct)
    case (2 b mk ty r r' args)
    then show ?case using bank_moves_dst [of b mk args] move_dsts_c [of b args] by auto
  qed (auto dest: side_regs_tail)
  show "distinct (side_regs (g_side args)) \<Longrightarrow> distinct (map src (bank_moves b mk args))"
  proof (induction b mk args rule: bank_moves.induct)
    case (2 b mk ty r r' args)
    then show ?case using bank_moves_src [of b mk args] by auto
  qed (auto dest: side_regs_tail)
qed

text \<open>A move machine whose registers are one bank of a view.\<close>

locale bank_machine = move_machine exec get rest sel emit
  for exec :: "'i \<Rightarrow> 's \<Rightarrow> 's" and get :: "string \<Rightarrow> 's \<Rightarrow> val" and rest :: "'s \<Rightarrow> 'q" and sel :: "'x \<Rightarrow> val \<Rightarrow> 'w"
    and emit :: "'x \<Rightarrow> string \<Rightarrow> string \<Rightarrow> 'i" +
  fixes view :: "'s \<Rightarrow> 'r mview" and b :: bool and mk :: "string \<Rightarrow> 'x"
  assumes get_view: "get r st = (if b then m_int (view st) r else m_flt (view st) r)"
    and rest_view: "rest st' = rest st \<Longrightarrow> same_but b UNIV (view st) (view st')"
    and sel_low: "scalar ty \<noteq> None \<Longrightarrow> is_int ty = b \<Longrightarrow> sel (mk ty) x = sel (mk ty) y \<Longrightarrow> low (snd (scalar_info ty)) x = low (snd (scalar_info ty)) y"
begin

lemma bank_regs_moved:
  assumes ok: "args_ok it ft area args" and tmp: "tmp \<in> {it, ft}"
  shows "\<exists>out. par_moves tmp emit (bank_moves b mk args) = Some out \<and> (\<forall>st. regs_moved b tmp args (view st) (view (fold exec out st)))"
proof -
  let ?ms = "bank_moves b mk args"
  have "tmp \<notin> set (map dst ?ms)" using tmp args_okD(4,5) [OF ok] move_dsts_c [of b args] unfolding bank_moves_dst by blast
  from par_moves_moved [OF bank_moves_distinct(1) [OF args_okD(3) [OF ok]] this coherent_distinct [OF bank_moves_distinct(2) [OF args_okD(2) [OF ok]]]]
  obtain out where out: "par_moves tmp emit ?ms = Some out" "\<And>st. moved ?ms {tmp} st (fold exec out st)" by blast
  have "regs_moved b tmp args (view st) (view (fold exec out st))" for st
  proof -
    let ?st = "fold exec out st"
    have same: "same_but b UNIV (view st) (view ?st)" using out(2) [of st] by (intro rest_view) (simp add: moved_def)
    have "get r ?st = get r st" if "r \<notin> insert tmp (move_dsts b args)" for r
      using out(2) [of st] that unfolding moved_def bank_moves_dst by blast
    then have but: "same_but b (insert tmp (move_dsts b args)) (view st) (view ?st)"
      using same unfolding same_but_def get_view by (cases b) auto
    have "arg_val base (view ?st) ty (Reg d) = arg_val base (view st) ty (Reg s)"
      if mem: "(ty, Reg s, Reg d) \<in> set args" and bank: "is_int ty = b" for ty s d base
    proof -
      have "(s, d, mk ty) \<in> set ?ms" using mem bank by (auto simp: bank_moves_mem)
      then have "sel (mk ty) (get d ?st) = sel (mk ty) (get s st)" using out(2) [of st] unfolding moved_def by force
      moreover have "scalar ty \<noteq> None" using args_okD(1) [OF ok] mem by auto
      ultimately have "low (snd (scalar_info ty)) (get d ?st) = low (snd (scalar_info ty)) (get s st)" using sel_low bank by blast
      then show ?thesis using bank unfolding get_view arg_val_def is_int_def by (auto split: prod.splits if_splits)
    qed
    then show ?thesis using but unfolding regs_moved_def by blast
  qed
  then show ?thesis using out(1) by blast
qed

end

section \<open>The interface\<close>

text \<open>The code of all stack arguments, and of all loads of one bank.\<close>

definition stack_code :: "(string \<Rightarrow> loc \<Rightarrow> int \<Rightarrow> 'i list) \<Rightarrow> arg list \<Rightarrow> 'i list" where
  "stack_code emit args = concat (map (\<lambda>(ty, g, c). case c of Stk off \<Rightarrow> emit ty g off | Reg _ \<Rightarrow> []) args)"

definition load_code :: "(string \<Rightarrow> int \<Rightarrow> string \<Rightarrow> 'i list) \<Rightarrow> bool \<Rightarrow> arg list \<Rightarrow> 'i list" where
  "load_code emit ints args = concat (map (\<lambda>(ty, g, c). case (g, c) of
     (Stk off, Reg r) \<Rightarrow> if is_int ty = ints then emit ty off r else [] | _ \<Rightarrow> []) args)"

definition arg_moves :: "(string \<Rightarrow> loc \<Rightarrow> int \<Rightarrow> 'i list) \<Rightarrow> (string \<Rightarrow> int \<Rightarrow> string \<Rightarrow> 'i list) \<Rightarrow>
    (arg list \<Rightarrow> 'i list option) \<Rightarrow> (arg list \<Rightarrow> 'i list option) \<Rightarrow> arg list \<Rightarrow> 'i list option" where
  "arg_moves stack_arg reg_arg imoves fmoves args = Option.bind (imoves args) (\<lambda>gs. Option.bind (fmoves args) (\<lambda>xs.
     Some (stack_code stack_arg args @ gs @ xs @ load_code reg_arg True args @ load_code reg_arg False args)))"

locale arg_code =
  fixes exec :: "'i \<Rightarrow> 's \<Rightarrow> 's"
    and view :: "'s \<Rightarrow> 'r mview"
    and it ft :: string
    and stack_arg :: "string \<Rightarrow> loc \<Rightarrow> int \<Rightarrow> 'i list"
    and reg_arg :: "string \<Rightarrow> int \<Rightarrow> string \<Rightarrow> 'i list"
    and imoves fmoves :: "arg list \<Rightarrow> 'i list option"
  assumes stack_arg_value: "go_loc it ft l \<Longrightarrow> scalar ty \<noteq> None \<Longrightarrow>
      fetch (snd (scalar_info ty)) (m_c (view st) + dest) (m_mem (view (fold exec (stack_arg ty l dest) st))) = arg_val (m_g (view st)) (view st) ty l"
    and stack_arg_frame: "scalar ty \<noteq> None \<Longrightarrow> only_scratch it ft {m_c (view st) + dest ..< m_c (view st) + dest + int (snd (scalar_info ty))} (view st) (view (fold exec (stack_arg ty l dest) st))"
    and reg_arg_value: "scalar ty \<noteq> None \<Longrightarrow> arg_val base (view (fold exec (reg_arg ty off r) st)) ty (Reg r) = arg_val (m_g (view st)) (view st) ty (Stk off)"
    and reg_arg_frame: "scalar ty \<noteq> None \<Longrightarrow> same_but (is_int ty) {r} (view st) (view (fold exec (reg_arg ty off r) st))"
    and imoves_moved: "args_ok it ft area args \<Longrightarrow> \<exists>gs. imoves args = Some gs \<and> (\<forall>st. regs_moved True it args (view st) (view (fold exec gs st)))"
    and fmoves_moved: "args_ok it ft area args \<Longrightarrow> \<exists>xs. fmoves args = Some xs \<and> (\<forall>st. regs_moved False ft args (view st) (view (fold exec xs st)))"
begin

definition runs :: "'i list \<Rightarrow> 's \<Rightarrow> 's" where
  "runs is st = fold exec is st"

lemma runs_append: "runs (is @ js) st = runs js (runs is st)"
  by (simp add: runs_def)

lemma stack_args:
  assumes "\<forall>(ty, g, c)\<in>set args. scalar ty \<noteq> None \<and> go_loc it ft g" "slots_ok area (stk_list (c_side args))" "m_c (view st) + area \<le> m_g (view st)"
  shows "only_scratch it ft (c_slots (m_c (view st)) args) (view st) (view (runs (stack_code stack_arg args) st)) \<and>
    (\<forall>ty g off. (ty, g, Stk off) \<in> set args \<longrightarrow>
       arg_val (m_c (view st)) (view (runs (stack_code stack_arg args) st)) ty (Stk off) = arg_val (m_g (view st)) (view st) ty g)"
  using assms
proof (induction args arbitrary: st)
  case Nil
  then show ?case by (simp add: stack_code_def only_scratch_def runs_def)
next
  case (Cons a args)
  obtain ty g c where a: "a = (ty, g, c)" by (cases a)
  show ?case
  proof (cases c)
    case (Reg r)
    then have "stack_code stack_arg (a # args) = stack_code stack_arg args" by (simp add: stack_code_def a)
    then show ?thesis using Cons.IH [of st] Cons.prems Reg by (auto simp: a)
  next
    case (Stk off)
    let ?n = "snd (scalar_info ty)" and ?c = "m_c (view st)" and ?g = "m_g (view st)"
    let ?a = "?c + off"
    let ?st = "runs (stack_arg ty g off) st" and ?st' = "runs (stack_code stack_arg (a # args)) st"
    have step: "?st' = runs (stack_code stack_arg args) ?st" by (simp add: stack_code_def a Stk runs_def)
    have sc: "scalar ty \<noteq> None" "go_loc it ft g" using Cons.prems(1) by (auto simp: a)
    have one: "fetch ?n ?a (m_mem (view ?st)) = arg_val ?g (view st) ty g" "only_scratch it ft {?a ..< ?a + int ?n} (view st) (view ?st)"
      using stack_arg_value [OF sc(2,1)] stack_arg_frame [OF sc(1)] by (auto simp: runs_def)
    have sp: "m_c (view ?st) = ?c" "m_g (view ?st) = ?g" using one(2) by (simp_all add: only_scratch_def)
    have ok: "slots_ok area ((ty, off) # stk_list (c_side args))" using Cons.prems(2) by (simp add: a Stk)
    have IH: "only_scratch it ft (c_slots ?c args) (view ?st) (view ?st')"
        "(ty', g', Stk off') \<in> set args \<Longrightarrow> arg_val ?c (view ?st') ty' (Stk off') = arg_val ?g (view ?st) ty' g'" for ty' g' off'
      using Cons.IH [of ?st] Cons.prems(1,3) slots_ok_tail [OF ok] unfolding step sp by (auto simp: a)
    have "off + int ?n \<le> area" using slots_okD [OF ok, of "(ty, off)"] scalar_nat_size by fastforce
    then have below: "\<forall>x\<in>{?a ..< ?a + int ?n}. x < ?g" using Cons.prems(3) by auto
    have rest: "arg_val ?c (view ?st') ty' (Stk off') = arg_val ?g (view st) ty' g'" if mem: "(ty', g', Stk off') \<in> set args" for ty' g' off'
      using IH(2) [OF mem] arg_val_scratch [OF one(2) _ below] Cons.prems(1) mem by (auto simp: a)
    have "fetch ?n ?a (m_mem (view ?st')) = fetch ?n ?a (m_mem (view ?st))"
    proof (rule fetch_cong)
      fix x assume "x < ?a + int ?n"
      then have "x \<notin> c_slots ?c args" using c_slots_after [OF ok, of x ?c] by auto
      then show "m_mem (view ?st') x = m_mem (view ?st) x" using IH(1) by (simp add: only_scratch_def)
    qed
    then have mine: "arg_val ?c (view ?st') ty (Stk off) = arg_val ?g (view st) ty g"
      using one(1) by (simp add: arg_val_def split: prod.splits)
    have "only_scratch it ft (c_slots ?c (a # args)) (view st) (view ?st')"
      using only_scratch_trans [OF one(2) IH(1)] by (simp add: a Stk)
    then show ?thesis using mine rest by (auto simp: a Stk)
  qed
qed

definition loads_done :: "bool \<Rightarrow> arg list \<Rightarrow> 's \<Rightarrow> 's \<Rightarrow> bool" where
  "loads_done b args st st' \<longleftrightarrow> same_but b (loaded args) (view st) (view st') \<and>
    (\<forall>ty off r base. (ty, Stk off, Reg r) \<in> set args \<and> is_int ty = b \<longrightarrow>
       arg_val base (view st') ty (Reg r) = arg_val (m_g (view st)) (view st) ty (Stk off))"

lemma loads:
  assumes "distinct (side_regs (c_side args))" "\<forall>(ty, g, c)\<in>set args. scalar ty \<noteq> None"
  shows "loads_done b args st (runs (load_code reg_arg b args) st)"
  using assms
proof (induction args arbitrary: st)
  case Nil
  then show ?case by (simp add: load_code_def loads_done_def same_but_refl runs_def)
next
  case (Cons a args)
  obtain ty g c where a: "a = (ty, g, c)" by (cases a)
  have sc: "scalar ty \<noteq> None" using Cons.prems(2) a by auto
  have sub: "loaded args \<subseteq> loaded (a # args)" by (auto simp: loaded_def)
  have ds: "distinct (side_regs (c_side args))" using Cons.prems(1) by (auto simp: a dest: side_regs_tail)
  have IH: "loads_done b args s (runs (load_code reg_arg b args) s)" for s using Cons.IH [OF ds] Cons.prems(2) by simp
  show ?case
  proof (cases "\<exists>off r. g = Stk off \<and> c = Reg r \<and> is_int ty = b")
    case False
    then have "load_code reg_arg b (a # args) = load_code reg_arg b args"
      by (auto simp: a load_code_def split: loc.splits)
    then show ?thesis using IH [of st] False same_but_mono [OF _ sub] by (auto simp: a loads_done_def)
  next
    case True
    then obtain off r where gc: "g = Stk off" "c = Reg r" "is_int ty = b" by blast
    let ?st = "runs (reg_arg ty off r) st" and ?st' = "runs (load_code reg_arg b (a # args)) st"
    have run: "?st' = runs (load_code reg_arg b args) ?st"
      using gc by (auto simp: a load_code_def runs_def)
    have one: "same_but b {r} (view st) (view ?st)" "\<And>base. arg_val base (view ?st) ty (Reg r) = arg_val (m_g (view st)) (view st) ty (Stk off)"
      using reg_arg_frame [OF sc] reg_arg_value [OF sc] gc(3) by (auto simp: runs_def)
    note rec = IH [of ?st, folded run]
    have "r \<notin> set (side_regs (c_side args))" using Cons.prems(1) by (simp add: a gc)
    then have "r \<notin> loaded args" using loaded_c by blast
    then have mine: "arg_val base (view ?st') ty (Reg r) = arg_val (m_g (view st)) (view st) ty (Stk off)" for base
      using rec arg_val_same_but [of b "loaded args" "view ?st" "view ?st'" ty r] one(2) by (simp add: loads_done_def)
    have keep: "arg_val (m_g (view ?st)) (view ?st) ty' (Stk off') = arg_val (m_g (view st)) (view st) ty' (Stk off')" for ty' off'
      using one(1) by (simp add: same_but_def arg_val_def)
    have "{r} \<union> loaded args \<subseteq> loaded (a # args)" using sub by (auto simp: loaded_def a gc)
    moreover have "same_but b ({r} \<union> loaded args) (view st) (view ?st')"
      using rec by (intro same_but_trans [OF one(1)]) (simp add: loads_done_def)
    ultimately have "same_but b (loaded (a # args)) (view st) (view ?st')" by (rule same_but_mono [rotated])
    then show ?thesis using mine rec keep unfolding loads_done_def by (auto simp: a gc)
  qed
qed

text \<open>The four register phases in a row.\<close>

definition phases :: "arg list \<Rightarrow> 's \<Rightarrow> 's \<Rightarrow> 's \<Rightarrow> 's \<Rightarrow> 's \<Rightarrow> bool" where
  "phases args st st1 st2 st3 st4 \<longleftrightarrow> regs_moved True it args (view st) (view st1) \<and> regs_moved False ft args (view st1) (view st2) \<and>
     loads_done True args st2 st3 \<and> loads_done False args st3 st4"

lemma phases_frame:
  assumes "phases args st st1 st2 st3 st4"
  shows "m_mem (view st4) = m_mem (view st)" "m_c (view st4) = m_c (view st)" "m_g (view st4) = m_g (view st)" "m_rest (view st4) = m_rest (view st)"
    "m_mem (view st2) = m_mem (view st)" "m_g (view st2) = m_g (view st)" "m_mem (view st3) = m_mem (view st)" "m_g (view st3) = m_g (view st)"
  using assms by (simp_all add: phases_def regs_moved_def loads_done_def same_but_def)

lemma phases_loaded:
  assumes ph: "phases args st st1 st2 st3 st4" and mem: "(ty, Stk off, Reg r) \<in> set args"
  shows "arg_val base (view st4) ty (Reg r) = arg_val (m_g (view st)) (view st) ty (Stk off)"
proof (cases "is_int ty")
  case True
  have "arg_val base (view st4) ty (Reg r) = arg_val base (view st3) ty (Reg r)"
    using ph True by (intro arg_val_same_but [of False "loaded args"]) (auto simp: phases_def loads_done_def)
  also have "\<dots> = arg_val (m_g (view st2)) (view st2) ty (Stk off)" using ph mem True by (auto simp: phases_def loads_done_def)
  finally show ?thesis using phases_frame(5,6) [OF ph] arg_val_mem [of "view st2" "view st"] by simp
next
  case False
  then have "arg_val base (view st4) ty (Reg r) = arg_val (m_g (view st3)) (view st3) ty (Stk off)" using ph mem by (auto simp: phases_def loads_done_def)
  then show ?thesis using phases_frame(7,8) [OF ph] arg_val_mem [of "view st3" "view st"] by simp
qed

lemma phases_after_moves:
  assumes ph: "phases args st st1 st2 st3 st4" and nl: "r \<notin> loaded args"
  shows "arg_val base (view st4) ty (Reg r) = arg_val base (view st2) ty (Reg r)"
proof -
  have "arg_val base (view st4) ty (Reg r) = arg_val base (view st3) ty (Reg r)"
    using ph nl by (intro arg_val_same_but [of False "loaded args"]) (auto simp: phases_def loads_done_def)
  also have "\<dots> = arg_val base (view st2) ty (Reg r)"
    using ph nl by (intro arg_val_same_but [of True "loaded args"]) (auto simp: phases_def loads_done_def)
  finally show ?thesis .
qed

lemma phases_moved:
  assumes ok: "args_ok it ft area args" and ph: "phases args st st1 st2 st3 st4" and mem: "(ty, Reg r', Reg r) \<in> set args"
  shows "arg_val base (view st4) ty (Reg r) = arg_val base (view st) ty (Reg r')"
proof -
  note last = phases_after_moves [OF ph not_loaded [OF ok mem], of base ty]
  show ?thesis
  proof (cases "is_int ty")
    case True
    have "arg_val base (view st2) ty (Reg r) = arg_val base (view st1) ty (Reg r)"
      using ph True by (intro arg_val_same_but [of False "insert ft (move_dsts False args)"]) (auto simp: phases_def regs_moved_def)
    then show ?thesis using last ph mem True by (auto simp: phases_def regs_moved_def)
  next
    case False
    have "arg_val base (view st1) ty (Reg r') = arg_val base (view st) ty (Reg r')"
      using ph False by (intro arg_val_same_but [of True "insert it (move_dsts True args)"]) (auto simp: phases_def regs_moved_def)
    then show ?thesis using last ph mem False by (auto simp: phases_def regs_moved_def)
  qed
qed

lemma phases_others:
  assumes "phases args st st1 st2 st3 st4"
  shows "r \<notin> insert it (set (side_regs (c_side args))) \<Longrightarrow> m_int (view st4) r = m_int (view st) r"
    "r \<notin> insert ft (set (side_regs (c_side args))) \<Longrightarrow> m_flt (view st4) r = m_flt (view st) r"
proof -
  assume "r \<notin> insert it (set (side_regs (c_side args)))"
  then have "r \<notin> loaded args" "r \<notin> insert it (move_dsts True args)" using loaded_c move_dsts_c by blast+
  then have "m_int (view st4) r = m_int (view st3) r" "m_int (view st3) r = m_int (view st2) r" "m_int (view st2) r = m_int (view st1) r" "m_int (view st1) r = m_int (view st) r"
    using assms unfolding phases_def regs_moved_def loads_done_def same_but_def by blast+
  then show "m_int (view st4) r = m_int (view st) r" by simp
next
  assume "r \<notin> insert ft (set (side_regs (c_side args)))"
  then have "r \<notin> loaded args" "r \<notin> insert ft (move_dsts False args)" using loaded_c move_dsts_c by blast+
  then have "m_flt (view st4) r = m_flt (view st3) r" "m_flt (view st3) r = m_flt (view st2) r" "m_flt (view st2) r = m_flt (view st1) r" "m_flt (view st1) r = m_flt (view st) r"
    using assms unfolding phases_def regs_moved_def loads_done_def same_but_def by blast+
  then show "m_flt (view st4) r = m_flt (view st) r" by simp
qed

lemma phases_args:
  assumes ok: "args_ok it ft area args" and ph: "phases args st0 st1 st2 st3 st4"
    and sa: "only_scratch it ft (c_slots (m_c (view st)) args) (view st) (view st0)"
      "\<And>ty g off. (ty, g, Stk off) \<in> set args \<Longrightarrow> arg_val (m_c (view st)) (view st0) ty (Stk off) = arg_val (m_g (view st)) (view st) ty g"
    and room: "m_c (view st) + area \<le> m_g (view st)"
  shows "args_moved it ft area args (view st) (view st4)"
proof -
  let ?c = "m_c (view st)" and ?g = "m_g (view st)"
  have same: "m_c (view st0) = ?c" "m_g (view st0) = ?g" "m_rest (view st0) = m_rest (view st)" using sa(1) by (simp_all add: only_scratch_def)
  have slots: "x \<in> c_slots ?c args \<Longrightarrow> ?c \<le> x \<and> x < ?c + area" for x by (rule c_slots_bound [OF args_okD(6) [OF ok]])
  then have below: "\<forall>x\<in>c_slots ?c args. x < ?g" using room by fastforce
  have args: "arg_val ?c (view st4) ty c = arg_val ?g (view st) ty g" if mem: "(ty, g, c) \<in> set args" for ty g c
  proof (cases c)
    case (Stk off)
    then show ?thesis using sa(2) mem arg_val_mem [OF phases_frame(1) [OF ph]] by simp
  next
    case (Reg r)
    have "arg_val ?c (view st4) ty (Reg r) = arg_val ?g (view st0) ty g"
      using phases_loaded [OF ph, of ty _ r] phases_moved [OF ok ph, of ty _ r] mem Reg same(2) arg_val_base [of ?c _ ty _ ?g] by (cases g) auto
    also have "\<dots> = arg_val ?g (view st) ty g"
      using arg_val_scratch [OF sa(1) _ below] args_okD(7) [OF ok] mem by auto
    finally show ?thesis by (simp add: Reg)
  qed
  have "m_mem (view st4) x = m_mem (view st) x" if out: "x < ?c \<or> ?c + area \<le> x" for x
  proof -
    have "x \<notin> c_slots ?c args" using slots [of x] out by auto
    then show ?thesis using sa(1) phases_frame(1) [OF ph] by (simp add: only_scratch_def)
  qed
  moreover have "m_int (view st4) r = m_int (view st) r" if "r \<notin> insert it (set (side_regs (c_side args)))" for r
    using phases_others(1) [OF ph that] sa(1) that by (simp add: only_scratch_def)
  moreover have "m_flt (view st4) r = m_flt (view st) r" if "r \<notin> insert ft (set (side_regs (c_side args)))" for r
    using phases_others(2) [OF ph that] sa(1) that by (simp add: only_scratch_def)
  ultimately show ?thesis
    using args phases_frame(2,3,4) [OF ph] same unfolding args_moved_def by auto
qed

lemma arg_moves_moved:
  assumes ok: "args_ok it ft area args"
  shows "\<exists>is. arg_moves stack_arg reg_arg imoves fmoves args = Some is \<and>
    (\<forall>st. m_c (view st) + area \<le> m_g (view st) \<longrightarrow> args_moved it ft area args (view st) (view (fold exec is st)))"
proof -
  obtain gs xs where gx: "imoves args = Some gs" "fmoves args = Some xs"
    "\<And>st. regs_moved True it args (view st) (view (runs gs st))" "\<And>st. regs_moved False ft args (view st) (view (runs xs st))"
    using imoves_moved [OF ok] fmoves_moved [OF ok] unfolding runs_def by blast
  let ?is = "stack_code stack_arg args @ gs @ xs @ load_code reg_arg True args @ load_code reg_arg False args"
  have "args_moved it ft area args (view st) (view (runs ?is st))" if room: "m_c (view st) + area \<le> m_g (view st)" for st
  proof -
    have "phases args s (runs gs s) (runs xs (runs gs s)) (runs (load_code reg_arg True args) (runs xs (runs gs s)))
        (runs (load_code reg_arg False args) (runs (load_code reg_arg True args) (runs xs (runs gs s))))" for s
      unfolding phases_def using gx(3,4) loads [OF args_okD(3,1) [OF ok]] by simp
    moreover have "\<forall>(ty, g, c)\<in>set args. scalar ty \<noteq> None \<and> go_loc it ft g" using ok by (simp add: args_ok_def)
    note stack_args [OF this args_okD(6) [OF ok] room]
    ultimately show ?thesis unfolding runs_append using phases_args [OF ok _ _ _ room] by blast
  qed
  then show ?thesis using gx(1,2) by (auto simp: arg_moves_def runs_def)
qed

end

section \<open>Plans\<close>

lemma analyzeSignature_sides:
  assumes "analyzeSignature a d = Inr pl"
  obtains r where "assignParams a (lf_Params d) = Inr r" "sd_Params (pl_Go pl) = go_side (ar_Params r)" "sd_Params (pl_SysV pl) = sysv_side (ar_Params r)"
    "sd_StackArgsSize (pl_Go pl) = ar_GoStackSize r" "sd_StackArgsSize (pl_SysV pl) = ar_SysVStackSize r"
  using assms by (auto simp: analyzeSignature_def go_side_def sysv_side_def Let_def split: if_splits sum.splits)

lemma plan_args_sides:
  assumes "sd_Params (pl_Go pl) = go_side xs" "sd_Params (pl_SysV pl) = sysv_side xs"
  shows "g_side (plan_args pl) = go_side xs" "c_side (plan_args pl) = sysv_side xs"
  unfolding plan_args_def assms g_side_def c_side_def go_side_def sysv_side_def by (induction xs) auto

lemma bank_locD: "list_all (\<lambda>(ty, l). bank_loc ir fr ty l) ps \<Longrightarrow> (ty, l) \<in> set ps \<Longrightarrow> scalar ty \<noteq> None \<and> (\<forall>r. l = Reg r \<longrightarrow> r \<in> set (ir @ fr))"
  by (fastforce simp: list_all_iff bank_loc_def split: option.splits if_splits)

lemma side_regs_sub: "list_all (\<lambda>(ty, l). bank_loc ir fr ty l) ps \<Longrightarrow> set (side_regs ps) \<subseteq> set (ir @ fr)"
proof
  fix r assume b: "list_all (\<lambda>(ty, l). bank_loc ir fr ty l) ps" and "r \<in> set (side_regs ps)"
  from this(2) obtain ty where "(ty, Reg r) \<in> set ps" by (induction ps rule: side_regs.induct) auto
  from bank_locD [OF b this] show "r \<in> set (ir @ fr)" by simp
qed

text \<open>The arguments of a plan, for scratch registers that are no argument registers.\<close>

lemma plan_args_ok:
  assumes "analyzeSignature a d = Inr pl" "reg_file (ab_goInt a) (ab_goFloat a)" "reg_file (ab_sysvInt a) (ab_sysvFloat a)"
    "{it, ft} \<inter> set (ab_goInt a @ ab_goFloat a) = {}" "{it, ft} \<inter> set (ab_sysvInt a @ ab_sysvFloat a) = {}"
  shows "args_ok it ft (sd_StackArgsSize (pl_SysV pl)) (plan_args pl)"
    "set (side_regs (c_side (plan_args pl))) \<subseteq> set (ab_sysvInt a @ ab_sysvFloat a)"
proof -
  obtain r where r: "assignParams a (lf_Params d) = Inr r" "sd_StackArgsSize (pl_SysV pl) = ar_SysVStackSize r"
      "sd_Params (pl_Go pl) = go_side (ar_Params r)" "sd_Params (pl_SysV pl) = sysv_side (ar_Params r)"
    using assms(1) by (rule analyzeSignature_sides)
  note sides = plan_args_sides [OF r(3,4)]
  obtain g c where inv: "assign_inv a (ar_Params r) g c" and sz: "ar_SysVStackSize r = cu_stack c"
    using r(1) by (rule assignParams_inv)
  have G: "call_layout (ab_goInt a) (ab_goFloat a) (alignUp (cu_stack g) 8) (go_side (ar_Params r))"
    using inv alignUp_ge [OF pow8_8] alignUp_dvd [OF pow8_8] by (intro reg_file.layout [OF assms(2)]) (auto simp: assign_inv_def)
  have C: "call_layout (ab_sysvInt a) (ab_sysvFloat a) (ar_SysVStackSize r) (sysv_side (ar_Params r))"
    using inv by (intro reg_file.layout [OF assms(3)]) (auto simp: assign_inv_def sz)
  have go: "scalar ty \<noteq> None \<and> go_loc it ft l" if mem: "(ty, l) \<in> set (go_side (ar_Params r))" for ty l
  proof (cases l)
    case (Reg x)
    have "scalar ty \<noteq> None" "x \<in> set (ab_goInt a @ ab_goFloat a)" using bank_locD [of _ _ _ ty l] G mem Reg unfolding call_layout_def by blast+
    then show ?thesis using assms(4) unfolding go_loc_def Reg loc.case by blast
  next
    case (Stk off)
    then have "(ty, off) \<in> set (stk_list (go_side (ar_Params r)))" using mem by (simp add: stk_list_mem [symmetric])
    then show ?thesis using G slots_okD by (fastforce simp: call_layout_def go_loc_def Stk)
  qed
  have sub: "set (side_regs (sysv_side (ar_Params r))) \<subseteq> set (ab_sysvInt a @ ab_sysvFloat a)"
    using C by (intro side_regs_sub) (simp add: call_layout_def)
  then show "set (side_regs (c_side (plan_args pl))) \<subseteq> set (ab_sysvInt a @ ab_sysvFloat a)" unfolding sides .
  have "it \<notin> set (side_regs (sysv_side (ar_Params r)))" "ft \<notin> set (side_regs (sysv_side (ar_Params r)))" using sub assms(5) by blast+
  moreover have "scalar ty \<noteq> None \<and> go_loc it ft l" if "(ty, l, k) \<in> set (plan_args pl)" for ty l k
    using g_side_mem [OF that] go unfolding sides by blast
  ultimately show "args_ok it ft (sd_StackArgsSize (pl_SysV pl)) (plan_args pl)"
    using G C unfolding args_ok_def sides call_layout_def r(2) by auto
qed

section \<open>Results\<close>

text \<open>Result registers come in pairs: where the C ABI returns a value and where Go expects it.\<close>

definition result_pair :: "abiSet \<Rightarrow> string \<Rightarrow> loc \<Rightarrow> loc \<Rightarrow> bool" where
  "result_pair a ty g c \<longleftrightarrow> (\<exists>k < 2. if bank_of ty = BInt then g = Reg (ab_goInt a ! k) \<and> c = Reg (ab_sysvIntResult a ! k)
     else g = Reg (ab_goFloat a ! k) \<and> c = Reg (ab_sysvFloatResult a ! k))"

lemma result_pairI:
  "k < 2 \<Longrightarrow> bank_of ty = BInt \<Longrightarrow> result_pair a ty (Reg (ab_goInt a ! k)) (Reg (ab_sysvIntResult a ! k))"
  "k < 2 \<Longrightarrow> bank_of ty \<noteq> BInt \<Longrightarrow> result_pair a ty (Reg (ab_goFloat a ! k)) (Reg (ab_sysvFloatResult a ! k))"
  by (auto simp: result_pair_def)

lemma result_fields_banks:
  assumes "fields_typed fs" "i + length fs \<le> 2" "j + length fs \<le> 2" "((ty, g), (ty', c)) \<in> set (result_fields a fs i j)"
  shows "ty' = ty \<and> scalar ty \<noteq> None \<and> result_pair a ty g c"
  using assms
proof (induction a fs i j rule: result_fields.induct)
  case (2 a f fs i j)
  obtain info where f: "scalar (fl_Type f) = Some info" "fl_Bank f = sc_bank info" using "2.prems"(1) by (auto simp: fields_typed_def)
  then have b: "bank_of (fl_Type f) = fl_Bank f" by (simp add: bank_of_def)
  have ft: "fields_typed fs" using "2.prems"(1) by (simp add: fields_typed_def)
  have "i < 2" "j < 2" using "2.prems"(2,3) by simp_all
  then show ?case using "2.IH" ft "2.prems" f b result_pairI by (cases "fl_Bank f = BInt") auto
qed simp

lemma returnAssignment_banks:
  assumes "returnAssignment a ret = Inr (gr, cr, tys)" "((ty, g), (ty', c)) \<in> set (zip gr cr)"
    "ab_sysvIntResult a ! 0 = ab_goInt a ! 0" "ab_sysvFloatResult a ! 0 = ab_goFloat a ! 0"
  shows "ty' = ty \<and> scalar ty \<noteq> None \<and> result_pair a ty g c"
proof (cases "ret = ''void'' \<or> scalar ret \<noteq> None")
  case True
  then obtain info where r: "scalar ret = Some info" and ty: "ty = ret" "ty' = ret" and
    gc: "g = Reg (if sc_bank info = BInt then ab_goInt a ! 0 else ab_goFloat a ! 0)" "c = g"
    using assms(1,2) by (auto simp: returnAssignment_def Let_def split: if_splits option.splits)
  then show ?thesis using assms(3,4) by (auto simp: result_pair_def bank_of_def intro!: exI [of _ 0])
next
  case False
  then obtain ag where ag: "aggregateLayout ret ''return'' True = Agg ag" "gr = map fst (result_fields a (ag_Fields ag) 0 0)"
      "cr = map snd (result_fields a (ag_Fields ag) 0 0)"
    using assms(1) by (auto simp: returnAssignment_def Let_def split: agg_result.splits if_splits)
  have ft: "fields_typed (ag_Fields ag)" using aggregateLayout_ok [OF ag(1)] by (simp add: agg_ok_def)
  have "((ty, g), (ty', c)) \<in> set (result_fields a (ag_Fields ag) 0 0)"
    using assms(2) unfolding ag(2,3) zip_map_fst_snd .
  then show ?thesis by (rule result_fields_banks [OF ft, rotated 2]) (use return_fields [OF ag(1)] in simp_all)
qed

definition c_results :: "sigPlan \<Rightarrow> arg list" where
  "c_results pl = map (\<lambda>((ty, g), (_, c)). (ty, g, c)) (zip (sd_Results (pl_Go pl)) (sd_Results (pl_SysV pl)))"

section \<open>Functions and assembler text\<close>

text \<open>A function that gets a thunk: its header and its plan. Its C body is called \<open>name.impl\<close>.\<close>

record goFn =
  gf_fn :: llFunc
  gf_plan :: sigPlan

abbreviation gf_name :: "goFn \<Rightarrow> string" where
  "gf_name d \<equiv> lf_Name (gf_fn d)"

definition gf_impl :: "goFn \<Rightarrow> string" where
  "gf_impl d = gf_name d @ ''.impl''"

definition tab :: char where
  "tab = CHR 0x09"

definition quote :: char where
  "quote = CHR 0x22"

text \<open>The em dash of the generated first lines is UTF-8.\<close>

definition em_dash :: string where
  "em_dash = [CHR 0xE2, CHR 0x80, CHR 0x94]"

text \<open>An instruction line with two operands.\<close>

definition op2 :: "string \<Rightarrow> string \<Rightarrow> string \<Rightarrow> string" where
  "op2 m a b = tab # m @ tab # a @ '', '' @ b"

end
