(* ===== verification/Thunks_X86.thy ===== *)
theory Thunks_X86
  imports Thunk_Args
begin

text \<open>
  The amd64 entry thunks of \<open>internal/lower/goabi_x86.go\<close>. The source prints assembler lines; here an
  instruction is a datatype, \<open>xtext\<close> is the line the source prints for it, and \<open>exec\<close> is its effect on
  the machine. A thunk moves the arguments from the locations of Go's ABIInternal to those of the C
  ABI, calls the C body and moves the results back.
\<close>

section \<open>Instructions\<close>

text \<open>\<open>LdG\<close> and \<open>LdX\<close> read relative to \<open>rbp\<close>, \<open>StG\<close> and \<open>StX\<close> write relative to \<open>rsp\<close>. \<open>LdRaw\<close> and
  \<open>StRaw\<close> name the whole register \<open>r12\<close> whatever the size, \<open>Save\<close> and \<open>Restore\<close> move a whole
  register; these four are used by the stubs of \<open>go_extern.go\<close>.\<close>

datatype xins =
    Line string
  | MovQ string string
  | MovX string string string
  | LdG nat int string
  | StG nat string int
  | LdX nat int string
  | StX nat string int
  | LdRaw nat int
  | StRaw nat int
  | Save string int
  | Restore int string
  | PushBP
  | MovBP
  | SubSP int
  | MovSP
  | PopBP
  | Pxor15
  | LdTLS
  | Call string
  | Ret

definition gprViews :: "string \<rightharpoonup> string \<times> string \<times> string \<times> string" where
  "gprViews = map_of
    [(''rax'', ''al'', ''ax'', ''eax'', ''rax''),
     (''rbx'', ''bl'', ''bx'', ''ebx'', ''rbx''),
     (''rcx'', ''cl'', ''cx'', ''ecx'', ''rcx''),
     (''rdx'', ''dl'', ''dx'', ''edx'', ''rdx''),
     (''rsi'', ''sil'', ''si'', ''esi'', ''rsi''),
     (''rdi'', ''dil'', ''di'', ''edi'', ''rdi''),
     (''r8'', ''r8b'', ''r8w'', ''r8d'', ''r8''),
     (''r9'', ''r9b'', ''r9w'', ''r9d'', ''r9''),
     (''r10'', ''r10b'', ''r10w'', ''r10d'', ''r10''),
     (''r11'', ''r11b'', ''r11w'', ''r11d'', ''r11''),
     (''r12'', ''r12b'', ''r12w'', ''r12d'', ''r12'')]"

definition gprView :: "string \<Rightarrow> nat \<Rightarrow> string" where
  "gprView reg sz = (case gprViews reg of None \<Rightarrow> []
     | Some (b, w, l, q) \<Rightarrow> if sz = 1 then b else if sz = 2 then w else if sz = 4 then l else if sz = 8 then q else [])"

definition moveMnemonic :: "nat \<Rightarrow> string" where
  "moveMnemonic sz = (if sz = 1 then ''movb'' else if sz = 2 then ''movw'' else if sz = 4 then ''movl'' else if sz = 8 then ''movq'' else [])"

definition pct :: "string \<Rightarrow> string" where
  "pct r = CHR ''%'' # r"

definition xmem_op :: "int \<Rightarrow> string \<Rightarrow> string" where
  "xmem_op off base = dec_int off @ ''(%'' @ base @ '')''"

definition sse_ty :: "string \<Rightarrow> string" where
  "sse_ty ty = (if ty = ''float'' then ''movss'' else ''movsd'')"

definition sse_size :: "nat \<Rightarrow> string" where
  "sse_size sz = (if sz = 4 then ''movss'' else ''movsd'')"

fun xtext :: "xins \<Rightarrow> string" where
  "xtext (Line s) = s"
| "xtext (MovQ s d) = op2 ''movq'' (pct s) (pct d)"
| "xtext (MovX ty s d) = op2 (sse_ty ty) (pct s) (pct d)"
| "xtext (LdG n off r) = op2 (moveMnemonic n) (xmem_op off ''rbp'') (pct (gprView r n))"
| "xtext (StG n r off) = op2 (moveMnemonic n) (pct (gprView r n)) (xmem_op off ''rsp'')"
| "xtext (LdX n off r) = op2 (sse_size n) (xmem_op off ''rbp'') (pct r)"
| "xtext (StX n r off) = op2 (sse_size n) (pct r) (xmem_op off ''rsp'')"
| "xtext (LdRaw n off) = op2 (moveMnemonic n) (xmem_op off ''rbp'') ''%r12''"
| "xtext (StRaw n off) = op2 (moveMnemonic n) ''%r12'' (xmem_op off ''rsp'')"
| "xtext (Save r off) = op2 ''movq'' (pct r) (xmem_op off ''rsp'')"
| "xtext (Restore off r) = op2 ''movq'' (xmem_op off ''rsp'') (pct r)"
| "xtext PushBP = tab # ''pushq'' @ tab # ''%rbp''"
| "xtext MovBP = op2 ''movq'' ''%rsp'' ''%rbp''"
| "xtext (SubSP n) = op2 ''subq'' (CHR ''$'' # dec_int n) ''%rsp''"
| "xtext MovSP = op2 ''movq'' ''%rbp'' ''%rsp''"
| "xtext PopBP = tab # ''popq'' @ tab # ''%rbp''"
| "xtext Pxor15 = op2 ''pxor'' ''%xmm15'' ''%xmm15''"
| "xtext LdTLS = op2 ''movq'' ''%fs:-8'' ''%r14''"
| "xtext (Call f) = tab # ''call'' @ tab # f"
| "xtext Ret = tab # ''ret''"

section \<open>The machine\<close>

text \<open>\<open>x_xmm\<close> is the low half of a vector register. \<open>x_tls\<close> is the word at \<open>%fs:-8\<close>.\<close>

record xst =
  x_gpr :: "string \<Rightarrow> val"
  x_xmm :: "string \<Rightarrow> val"
  x_mem :: bytes_mem
  x_sp :: int
  x_bp :: int
  x_tls :: val

text \<open>A 4-byte move into a general register clears the upper half, smaller ones keep the rest.\<close>

definition gpr_load :: "nat \<Rightarrow> val \<Rightarrow> val \<Rightarrow> val" where
  "gpr_load n v old = (if n = 4 then low 4 v else merge_low n v old)"

definition set_gpr :: "string \<Rightarrow> val \<Rightarrow> xst \<Rightarrow> xst" where
  "set_gpr r v st = st\<lparr>x_gpr := (x_gpr st)(r := v)\<rparr>"

definition set_xmm :: "string \<Rightarrow> val \<Rightarrow> xst \<Rightarrow> xst" where
  "set_xmm r v st = st\<lparr>x_xmm := (x_xmm st)(r := v)\<rparr>"

definition put_mem :: "nat \<Rightarrow> int \<Rightarrow> val \<Rightarrow> xst \<Rightarrow> xst" where
  "put_mem n a v st = st\<lparr>x_mem := store n a v (x_mem st)\<rparr>"

text \<open>Labels and directives have no effect; a call is not executed here: the lists of instructions
  below are the straight-line code before and after it.\<close>

fun exec :: "xins \<Rightarrow> xst \<Rightarrow> xst" where
  "exec (Line s) st = st"
| "exec (MovQ s d) st = set_gpr d (x_gpr st s) st"
| "exec (MovX ty s d) st = set_xmm d (merge_low (if ty = ''float'' then 4 else 8) (x_xmm st s) (x_xmm st d)) st"
| "exec (LdG n off r) st = set_gpr r (gpr_load n (fetch n (x_bp st + off) (x_mem st)) (x_gpr st r)) st"
| "exec (StG n r off) st = put_mem n (x_sp st + off) (x_gpr st r) st"
| "exec (LdX n off r) st = set_xmm r (fetch n (x_bp st + off) (x_mem st)) st"
| "exec (StX n r off) st = put_mem n (x_sp st + off) (x_xmm st r) st"
| "exec (LdRaw n off) st = set_gpr ''r12'' (gpr_load n (fetch n (x_bp st + off) (x_mem st)) (x_gpr st ''r12'')) st"
| "exec (StRaw n off) st = put_mem n (x_sp st + off) (x_gpr st ''r12'') st"
| "exec (Save r off) st = put_mem 8 (x_sp st + off) (x_gpr st r) st"
| "exec (Restore off r) st = set_gpr r (fetch 8 (x_sp st + off) (x_mem st)) st"
| "exec PushBP st = (put_mem 8 (x_sp st - 8) (word_of_int (x_bp st)) st)\<lparr>x_sp := x_sp st - 8\<rparr>"
| "exec MovBP st = st\<lparr>x_bp := x_sp st\<rparr>"
| "exec (SubSP n) st = st\<lparr>x_sp := x_sp st - n\<rparr>"
| "exec MovSP st = st\<lparr>x_sp := x_bp st\<rparr>"
| "exec PopBP st = st\<lparr>x_bp := uint (fetch 8 (x_sp st) (x_mem st)), x_sp := x_sp st + 8\<rparr>"
| "exec Pxor15 st = set_xmm ''xmm15'' 0 st"
| "exec LdTLS st = set_gpr ''r14'' (x_tls st) st"
| "exec (Call f) st = st"
| "exec Ret st = st\<lparr>x_sp := x_sp st + 8\<rparr>"

definition run :: "xins list \<Rightarrow> xst \<Rightarrow> xst" where
  "run is st = fold exec is st"

text \<open>An instruction whose register and size the assembler accepts.\<close>

fun assembles :: "xins \<Rightarrow> bool" where
  "assembles (LdG n off r) \<longleftrightarrow> moveMnemonic n \<noteq> [] \<and> gprView r n \<noteq> []"
| "assembles (StG n r off) \<longleftrightarrow> moveMnemonic n \<noteq> [] \<and> gprView r n \<noteq> []"
| "assembles (LdRaw n off) \<longleftrightarrow> n = 8"
| "assembles (StRaw n off) \<longleftrightarrow> n = 8"
| "assembles _ \<longleftrightarrow> True"

section \<open>Moves\<close>

text \<open>A move of \<open>parallelGPR\<close> is a source and a destination, an \<open>xmmMove\<close> has the type of the value too.\<close>

definition parallelGPR :: "unit move list \<Rightarrow> xins list option" where
  "parallelGPR moves = par_moves ''r12'' (\<lambda>_ s d. MovQ s d) moves"

definition parallelXMM :: "string move list \<Rightarrow> xins list option" where
  "parallelXMM moves = par_moves ''xmm15'' MovX moves"

definition stackSource :: "int \<Rightarrow> int" where
  "stackSource off = 16 + off"

definition emitStackArgument :: "string \<Rightarrow> loc \<Rightarrow> int \<Rightarrow> xins list" where
  "emitStackArgument ty source dest = (let (b, sz) = scalar_info ty in
     if b = Some BFloat then
       (case source of Reg r \<Rightarrow> [StX sz r dest]
        | Stk off \<Rightarrow> [LdX sz (stackSource off) ''xmm15'', StX sz ''xmm15'' dest])
     else
       (case source of Reg r \<Rightarrow> [StG sz r dest]
        | Stk off \<Rightarrow> [LdG sz (stackSource off) ''r12'', StG sz ''r12'' dest]))"

definition emitRegisterArgument :: "string \<Rightarrow> int \<Rightarrow> string \<Rightarrow> xins list" where
  "emitRegisterArgument ty source dest = (let (b, sz) = scalar_info ty in
     if b = Some BFloat then [LdX sz (stackSource source) dest] else [LdG sz (stackSource source) dest])"

section \<open>Thunks\<close>

definition regMoves :: "arg list \<Rightarrow> unit move list" where
  "regMoves args = bank_moves True (\<lambda>_. ()) args"

definition floatMoves :: "arg list \<Rightarrow> string move list" where
  "floatMoves args = filter (\<lambda>m. src m \<noteq> dst m) (bank_moves False id args)"

definition x_args :: "arg list \<Rightarrow> xins list option" where
  "x_args = arg_moves emitStackArgument emitRegisterArgument (\<lambda>args. parallelGPR (regMoves args)) (\<lambda>args. parallelXMM (floatMoves args))"

definition mark :: "bool \<Rightarrow> string \<Rightarrow> nat \<Rightarrow> xins list" where
  "mark labels l ti = (if labels then [Line (''.Lgocw_'' @ l @ dec_nat ti @ '':'')] else [])"

definition x_header :: "string \<Rightarrow> bool \<Rightarrow> xins list" where
  "x_header name labels =
     (if labels then [Line (tab # ''.section'' @ tab # ''.text.'' @ name @ '','' @ quote # ''ax'' @ quote # '',@progbits'')] else []) @
     [Line (tab # ''.globl'' @ tab # name), Line (tab # ''.type'' @ tab # name @ '',@function''), Line (name @ '':'')]"

definition x_prologue :: "bool \<Rightarrow> nat \<Rightarrow> int \<Rightarrow> xins list" where
  "x_prologue labels ti outgoing =
     [PushBP] @ mark labels ''p'' ti @ [MovBP] @
     (if outgoing > 0 then SubSP outgoing # mark labels ''a'' ti else [])"

definition x_epilogue :: "string \<Rightarrow> bool \<Rightarrow> nat \<Rightarrow> (string \<times> string) list \<Rightarrow> xins list" where
  "x_epilogue name labels ti moves =
     map (\<lambda>(s, d). MovQ s d) moves @ [Pxor15, MovSP] @ mark labels ''m'' ti @ [PopBP] @ mark labels ''o'' ti @ [Ret] @
     mark labels ''e'' ti @ [Line (tab # ''.size'' @ tab # name @ '', .-'' @ name)]"

definition x_thunk :: "bool \<Rightarrow> nat \<Rightarrow> goFn \<Rightarrow> xins list option" where
  "x_thunk labels ti d = Option.bind (x_args (plan_args (gf_plan d))) (\<lambda>moves. Some
     (x_header (gf_name d) labels @ x_prologue labels ti (pl_Outgoing (gf_plan d)) @ moves @
      mark labels ''c'' ti @ [Call (gf_impl d)] @ mark labels ''r'' ti @
      x_epilogue (gf_name d) labels ti (pl_ResultMoves (gf_plan d))))"

fun x_thunks :: "bool \<Rightarrow> nat \<Rightarrow> goFn list \<Rightarrow> xins list option" where
  "x_thunks labels ti [] = Some []"
| "x_thunks labels ti (d # ds) = Option.bind (x_thunk labels ti d) (\<lambda>t.
     Option.bind (x_thunks labels (ti + 1) ds) (\<lambda>ts. Some (t @ ts)))"

definition emitX86Thunks :: "goFn list \<Rightarrow> bool \<Rightarrow> string option" where
  "emitX86Thunks goabi labels = Option.bind (x_thunks labels 0 goabi) (\<lambda>body. Some
     (join [CHR 0x0A] ([''# Go 1.24 ABIInternal -> SysV entry thunks '' @ em_dash @ '' generated'', tab # ''.text''] @
       map xtext body @ [[]])))"

end
