(* ===== verification/Thunks_X86_Correct.thy ===== *)
theory Thunks_X86_Correct
  imports Thunks_X86
begin

text \<open>
  Correctness of the amd64 thunks: at the call of the C body every argument is where the C ABI wants
  it, the stack pointer is a multiple of 16 below the caller's, and the caller's frame is untouched; after the call the results are where
  Go wants them and the caller's stack and frame pointers are restored.
\<close>

section \<open>Register moves\<close>

definition x_rest_gpr :: "xst \<Rightarrow> (string \<Rightarrow> val) \<times> bytes_mem \<times> int \<times> int \<times> val" where
  "x_rest_gpr st = (x_xmm st, x_mem st, x_sp st, x_bp st, x_tls st)"

definition x_rest_xmm :: "xst \<Rightarrow> (string \<Rightarrow> val) \<times> bytes_mem \<times> int \<times> int \<times> val" where
  "x_rest_xmm st = (x_gpr st, x_mem st, x_sp st, x_bp st, x_tls st)"

definition fsz :: "string \<Rightarrow> nat" where
  "fsz ty = (if ty = ''float'' then 4 else 8)"

text \<open>What an argument can see of the machine: C stack arguments start at \<open>rsp\<close> when the body is
  called, Go stack arguments 16 bytes above \<open>rbp\<close>.\<close>

definition x_view :: "xst \<Rightarrow> (int \<times> int \<times> val) mview" where
  "x_view st = \<lparr>m_int = x_gpr st, m_flt = x_xmm st, m_mem = x_mem st, m_c = x_sp st, m_g = x_bp st + 16, m_rest = (x_sp st, x_bp st, x_tls st)\<rparr>"

lemma x_view_simps [simp]:
  "m_int (x_view st) = x_gpr st" "m_flt (x_view st) = x_xmm st" "m_mem (x_view st) = x_mem st" "m_c (x_view st) = x_sp st"
  "m_g (x_view st) = x_bp st + 16" "m_rest (x_view st) = (x_sp st, x_bp st, x_tls st)"
  by (simp_all add: x_view_def)

lemma fsz_scalar: "scalar ty \<noteq> None \<Longrightarrow> \<not> is_int ty \<Longrightarrow> snd (scalar_info ty) = fsz ty"
  by (auto simp: scalar_info_def scalar_def fsz_def is_int_def Let_def split: if_splits option.splits)

interpretation gpr: bank_machine exec "\<lambda>r st. x_gpr st r" x_rest_gpr "\<lambda>_ :: unit. id" "\<lambda>_ s d. MovQ s d" x_view True "\<lambda>_. ()"
  by unfold_locales (auto simp: set_gpr_def x_rest_gpr_def same_but_def)

interpretation xmm: bank_machine exec "\<lambda>r st. x_xmm st r" x_rest_xmm "\<lambda>ty. low (fsz ty)" MovX x_view False id
proof unfold_locales
  fix x s d st
  show "low (fsz x) (x_xmm (exec (MovX x s d) st) d) = low (fsz x) (x_xmm st s)"
    by (cases "x = ''float''") (simp_all add: set_xmm_def fsz_def)
qed (auto simp: set_xmm_def x_rest_xmm_def same_but_def fsz_scalar)

section \<open>The argument code\<close>

lemma gpr_load_low: "low n (gpr_load n v old) = low n v"
  by (simp add: gpr_load_def)

lemma stack_arg:
  fixes st dest ty l
  defines "n \<equiv> snd (scalar_info ty)" and "a \<equiv> x_sp st + dest"
  assumes "scalar ty \<noteq> None"
  shows "fetch n a (x_mem (run (emitStackArgument ty l dest) st)) = arg_val (x_bp st + 16) (x_view st) ty l"
    "only_scratch ''r12'' ''xmm15'' {a ..< a + int n} (x_view st) (x_view (run (emitStackArgument ty l dest) st))"
proof -
  obtain i where i: "scalar ty = Some i" using assms(3) by blast
  have info: "scalar_info ty = (Some (sc_bank i), n)" by (simp add: n_def scalar_info_Some [OF i])
  have sr: "store n a (gpr_load n (fetch n c m) old) m' = store n a (fetch n c m) m'" for c m m' old
    using store_low [of n n a "gpr_load n (fetch n c m) old" m'] gpr_load_low [of n "fetch n c m" old] by simp
  note simps = arg_val_def info put_mem_def set_gpr_def set_xmm_def only_scratch_def stackSource_def fetch_store_same sr add.assoc gpr_load_low run_def
  show "fetch n a (x_mem (run (emitStackArgument ty l dest) st)) = arg_val (x_bp st + 16) (x_view st) ty l"
    unfolding emitStackArgument_def info a_def by (cases "sc_bank i"; cases l) (auto simp: simps)
  show "only_scratch ''r12'' ''xmm15'' {a ..< a + int n} (x_view st) (x_view (run (emitStackArgument ty l dest) st))"
    unfolding emitStackArgument_def info a_def by (cases "sc_bank i"; cases l) (auto simp: simps intro!: store_other)
qed

lemma reg_arg:
  assumes "scalar ty \<noteq> None"
  shows "arg_val base (x_view (run (emitRegisterArgument ty off r) st)) ty (Reg r) = arg_val (x_bp st + 16) (x_view st) ty (Stk off)"
    "same_but (is_int ty) {r} (x_view st) (x_view (run (emitRegisterArgument ty off r) st))"
proof -
  obtain i where i: "scalar ty = Some i" using assms by blast
  note simps = emitRegisterArgument_def scalar_info_Some [OF i] is_int_Some [OF i] same_but_def arg_val_def set_gpr_def set_xmm_def
    gpr_load_low stackSource_def add.assoc run_def
  show "arg_val base (x_view (run (emitRegisterArgument ty off r) st)) ty (Reg r) = arg_val (x_bp st + 16) (x_view st) ty (Stk off)"
    by (cases "sc_bank i") (auto simp: simps)
  show "same_but (is_int ty) {r} (x_view st) (x_view (run (emitRegisterArgument ty off r) st))"
    by (cases "sc_bank i") (auto simp: simps)
qed

interpretation xargs: arg_code exec x_view "''r12''" "''xmm15''" emitStackArgument emitRegisterArgument
  "\<lambda>args. parallelGPR (regMoves args)" "\<lambda>args. parallelXMM (floatMoves args)"
proof unfold_locales
  fix area args assume ok: "args_ok ''r12'' ''xmm15'' area args"
  show "\<exists>gs. parallelGPR (regMoves args) = Some gs \<and> (\<forall>st. regs_moved True ''r12'' args (x_view st) (x_view (fold exec gs st)))"
    using gpr.bank_regs_moved [OF ok, of "''r12''"] by (simp add: parallelGPR_def regMoves_def)
  show "\<exists>xs. parallelXMM (floatMoves args) = Some xs \<and> (\<forall>st. regs_moved False ''xmm15'' args (x_view st) (x_view (fold exec xs st)))"
    using xmm.bank_regs_moved [OF ok, of "''xmm15''"] by (simp add: parallelXMM_def floatMoves_def par_moves_filter)
qed (use stack_arg reg_arg in \<open>simp_all add: run_def\<close>)

section \<open>Plans and results\<close>

lemma run_append [simp]: "run (is @ js) st = run js (run is st)"
  by (simp add: run_def)

lemma run_Nil [simp]: "run [] st = st"
  by (simp add: run_def)

lemma run_Cons [simp]: "run (i # is) st = run is (exec i st)"
  by (simp add: run_def)

lemma amd64_scratch: "{''r12'', ''xmm15''} \<inter> set (ab_goInt amd64_abi @ ab_goFloat amd64_abi) = {}"
    "{''r12'', ''xmm15''} \<inter> set (ab_sysvInt amd64_abi @ ab_sysvFloat amd64_abi) = {}"
    "''r14'' \<notin> set (ab_sysvInt amd64_abi @ ab_sysvFloat amd64_abi)"
  by code_simp+

lemma x_plan_args_ok:
  assumes "analyzeSignature amd64_abi d = Inr pl"
  shows "args_ok ''r12'' ''xmm15'' (sd_StackArgsSize (pl_SysV pl)) (plan_args pl)" "''r14'' \<notin> set (side_regs (c_side (plan_args pl)))"
  using plan_args_ok [OF assms amd_go.reg_file_axioms amd_c.reg_file_axioms amd64_scratch(1,2)] amd64_scratch(3) by blast+

lemma amd64_result_pair:
  "result_pair amd64_abi ty g c \<longleftrightarrow> (if bank_of ty = BInt then (g, c) \<in> {(Reg ''rax'', Reg ''rax''), (Reg ''rbx'', Reg ''rdx'')}
     else (g, c) \<in> {(Reg ''xmm0'', Reg ''xmm0''), (Reg ''xmm1'', Reg ''xmm1'')})"
proof -
  have regs: "ab_goInt amd64_abi ! 0 = ''rax''" "ab_goFloat amd64_abi ! 0 = ''xmm0''" "ab_goInt amd64_abi ! Suc 0 = ''rbx''" "ab_goFloat amd64_abi ! Suc 0 = ''xmm1''"
    "ab_sysvIntResult amd64_abi ! 0 = ''rax''" "ab_sysvIntResult amd64_abi ! Suc 0 = ''rdx''" "ab_sysvFloatResult amd64_abi ! 0 = ''xmm0''" "ab_sysvFloatResult amd64_abi ! Suc 0 = ''xmm1''"
    by code_simp+
  have two: "(\<exists>k < 2. P k) \<longleftrightarrow> P 0 \<or> P (Suc 0)" for P by (auto simp: less_2_cases_iff)
  show ?thesis unfolding result_pair_def two by (auto simp: regs)
qed

lemma run_result_moves:
  assumes "set moves \<subseteq> {(''rdx'', ''rbx'')}"
  shows "run (map (\<lambda>(s, d). MovQ s d) moves) st = (if moves = [] then st else set_gpr ''rbx'' (x_gpr st ''rdx'') st)"
  using assms
proof (induction moves arbitrary: st)
  case (Cons m ms)
  then have m: "m = (''rdx'', ''rbx'')" by auto
  show ?case using Cons by (simp add: m) (simp add: set_gpr_def)
qed simp

lemma run_mark [simp]: "run (mark labels l ti) st = st"
  by (simp add: mark_def)

lemma run_x_header [simp]: "run (x_header name labels) st = st"
  by (simp add: x_header_def)

lemma uint_word_of_int: "0 \<le> x \<Longrightarrow> x < 2 ^ 64 \<Longrightarrow> uint (word_of_int x :: val) = x"
  by (simp add: uint_word_of_int take_bit_int_eq_self)

text \<open>The straight-line code of a thunk before the call and after it.\<close>

definition thunk_pre :: "bool \<Rightarrow> nat \<Rightarrow> goFn \<Rightarrow> xins list \<Rightarrow> xins list" where
  "thunk_pre labels ti d moves = x_header (gf_name d) labels @ x_prologue labels ti (pl_Outgoing (gf_plan d)) @ moves @ mark labels ''c'' ti"

definition thunk_post :: "bool \<Rightarrow> nat \<Rightarrow> goFn \<Rightarrow> xins list" where
  "thunk_post labels ti d = mark labels ''r'' ti @ x_epilogue (gf_name d) labels ti (pl_ResultMoves (gf_plan d))"

text \<open>What the thunk relies on: the C body returns with the stack and frame pointers it was called with and does not
  write the saved frame pointer and the return address of the thunk's own frame. It may write any other memory.\<close>

definition c_returns :: "xst \<Rightarrow> xst \<Rightarrow> bool" where
  "c_returns st st' \<longleftrightarrow> x_sp st' = x_sp st \<and> x_bp st' = x_bp st \<and> (\<forall>x. x_bp st \<le> x \<and> x < x_bp st + 16 \<longrightarrow> x_mem st' x = x_mem st x)"

lemma thunk_pre_ok:
  assumes "analyzeSignature amd64_abi (gf_fn d) = Inr (gf_plan d)" "x_args (plan_args (gf_plan d)) = Some moves"
    "\<And>st. x_sp st + sd_StackArgsSize (pl_SysV (gf_plan d)) \<le> x_bp st + 16 \<Longrightarrow>
       args_moved ''r12'' ''xmm15'' (sd_StackArgsSize (pl_SysV (gf_plan d))) (plan_args (gf_plan d)) (x_view st) (x_view (run moves st))"
  shows "let st' = run (thunk_pre labels ti d moves) st in
    (\<forall>(ty, g, c)\<in>set (plan_args (gf_plan d)). arg_val (x_sp st') (x_view st') ty c = arg_val (x_sp st + 8) (x_view st) ty g) \<and>
    x_bp st' = x_sp st - 8 \<and> x_sp st' = x_sp st - 8 - pl_Outgoing (gf_plan d) \<and>
    fetch 8 (x_sp st - 8) (x_mem st') = word_of_int (x_bp st) \<and> (\<forall>x\<ge>x_sp st. x_mem st' x = x_mem st x) \<and>
    x_gpr st' ''r14'' = x_gpr st ''r14''"
proof -
  let ?pl = "gf_plan d" let ?area = "sd_StackArgsSize (pl_SysV ?pl)" and ?out = "pl_Outgoing ?pl" and ?args = "plan_args ?pl"
  define st1 where s1: "st1 = run (x_prologue labels ti ?out) st"
  have out: "?area \<le> ?out" "0 \<le> ?out"
    using analyzeSignature_area [OF assms(1)] alignUp_16 [of ?area] by auto
  have st1: "x_bp st1 = x_sp st - 8" "x_sp st1 = x_sp st - 8 - ?out" "x_gpr st1 = x_gpr st" "x_xmm st1 = x_xmm st"
      "x_mem st1 = store 8 (x_sp st - 8) (word_of_int (x_bp st)) (x_mem st)"
    using out(2) by (auto simp: s1 x_prologue_def put_mem_def)
  have mv: "args_moved ''r12'' ''xmm15'' ?area ?args (x_view st1) (x_view (run moves st1))" using assms(3) [of st1] out(1) st1 by simp
  have run: "run (thunk_pre labels ti d moves) st = run moves st1" by (simp add: thunk_pre_def s1)
  have up: "x_mem st1 x = x_mem st x" if "x_sp st \<le> x" for x using that by (simp add: st1 store_other)
  have same: "arg_val (x_bp st1 + 16) (x_view st1) ty g = arg_val (x_sp st + 8) (x_view st) ty g" if "(ty, g, c) \<in> set ?args" for ty g c
  proof (cases g)
    case (Stk off)
    then have "0 \<le> off" using args_okD(7) [OF x_plan_args_ok(1) [OF assms(1)]] that by (auto simp: go_loc_def)
    then have "fetch n (x_sp st + 8 + off) (x_mem st1) = fetch n (x_sp st + 8 + off) (x_mem st)" for n
      by (intro fetch_cong up) simp
    then show ?thesis by (simp add: arg_val_def Stk st1(1) add.commute split: prod.splits)
  qed (simp add: arg_val_def st1 split: prod.splits)
  have r14: "x_gpr (run moves st1) ''r14'' = x_gpr st1 ''r14''"
    using mv x_plan_args_ok(2) [OF assms(1)] by (simp add: args_moved_def)
  have hi: "x_mem (run moves st1) x = x_mem st1 x" if "x_sp st - 8 \<le> x" for x
    using mv that out st1(2) by (simp add: args_moved_def)
  have bp: "fetch 8 (x_sp st - 8) (x_mem (run moves st1)) = word_of_int (x_bp st)"
  proof -
    have "fetch 8 (x_sp st - 8) (x_mem (run moves st1)) = fetch 8 (x_sp st - 8) (x_mem st1)" using hi by (intro fetch_cong) simp
    then show ?thesis by (simp only: st1(5) fetch_store_same low_8)
  qed
  have "arg_val (x_sp (run moves st1)) (x_view (run moves st1)) ty c = arg_val (x_sp st + 8) (x_view st) ty g" if mem: "(ty, g, c) \<in> set ?args" for ty g c
    using mv mem same [OF mem] by (auto simp: args_moved_def)
  then show ?thesis
    unfolding Let_def run using mv st1 bp hi up r14 by (auto simp: args_moved_def)
qed

lemma thunk_post_ok:
  assumes "analyzeSignature amd64_abi (gf_fn d) = Inr (gf_plan d)"
  shows "let st' = run (thunk_post labels ti d) st in
    x_sp st' = x_bp st + 16 \<and> x_bp st' = uint (fetch 8 (x_bp st) (x_mem st)) \<and> x_mem st' = x_mem st \<and>
    x_gpr st' ''r14'' = x_gpr st ''r14'' \<and> x_xmm st' ''xmm15'' = 0 \<and>
    (\<forall>(ty, g, c)\<in>set (c_results (gf_plan d)). arg_val 0 (x_view st') ty g = arg_val 0 (x_view st) ty c)"
proof -
  let ?pl = "gf_plan d" let ?mv = "pl_ResultMoves ?pl"
  obtain tys where ra: "returnAssignment amd64_abi (lf_Ret (gf_fn d)) = Inr (sd_Results (pl_Go ?pl), sd_Results (pl_SysV ?pl), tys)"
    and mv: "?mv = result_moves (sd_Results (pl_Go ?pl)) (sd_Results (pl_SysV ?pl))"
    using assms by (rule analyzeSignature_moves)
  have sub: "set ?mv \<subseteq> {(''rdx'', ''rbx'')}"
  proof -
    have "{(s, d). (s, d) \<in> result_pairs amd64_abi \<and> s \<noteq> d} = {(''rdx'', ''rbx'')}" by (auto simp: result_pairs_amd64)
    moreover have "set ?mv \<subseteq> {(s, d). (s, d) \<in> result_pairs amd64_abi \<and> s \<noteq> d}"
      using returnAssignment_moves [OF ra] unfolding mv by (fastforce simp: result_moves_def)
    ultimately show ?thesis by simp
  qed
  define st1 where s1: "st1 = (if ?mv = [] then st else set_gpr ''rbx'' (x_gpr st ''rdx'') st)"
  define st' where s': "st' = run (thunk_post labels ti d) st"
  have st': "st' = (set_xmm ''xmm15'' 0 st1)\<lparr>x_bp := uint (fetch 8 (x_bp st1) (x_mem st1)), x_sp := x_bp st1 + 16\<rparr>"
    by (simp add: s' thunk_post_def x_epilogue_def run_result_moves [OF sub] s1 set_xmm_def)
  have st1: "x_bp st1 = x_bp st" "x_mem st1 = x_mem st" "x_xmm st1 = x_xmm st" "\<And>r. r \<noteq> ''rbx'' \<Longrightarrow> x_gpr st1 r = x_gpr st r"
    by (simp_all add: s1 set_gpr_def)
  have res: "arg_val 0 (x_view st') ty g = arg_val 0 (x_view st) ty c" if mem: "(ty, g, c) \<in> set (c_results ?pl)" for ty g c
  proof -
    obtain ty' where z: "((ty, g), (ty', c)) \<in> set (zip (sd_Results (pl_Go ?pl)) (sd_Results (pl_SysV ?pl)))"
      using mem by (auto simp: c_results_def)
    have "ab_sysvIntResult amd64_abi ! 0 = ab_goInt amd64_abi ! 0" "ab_sysvFloatResult amd64_abi ! 0 = ab_goFloat amd64_abi ! 0" by code_simp+
    from returnAssignment_banks [OF ra z this] obtain i where i: "scalar ty = Some i" and p: "result_pair amd64_abi ty g c" by auto
    have b: "bank_of ty = sc_bank i" by (simp add: bank_of_def i)
    have "?mv \<noteq> []" if "g = Reg ''rbx''" "c = Reg ''rdx''"
    proof -
      obtain n where n: "sd_Results (pl_Go ?pl) ! n = (ty, g)" "sd_Results (pl_SysV ?pl) ! n = (ty', c)"
          "n < length (sd_Results (pl_Go ?pl))" "n < length (sd_Results (pl_SysV ?pl))"
        using z by (auto simp: in_set_zip)
      have "(''rdx'', ''rbx'') \<in> set (zip (map (reg_of \<circ> snd) (sd_Results (pl_SysV ?pl))) (map (reg_of \<circ> snd) (sd_Results (pl_Go ?pl))))"
        unfolding in_set_zip using n that by (intro exI [of _ n]) (simp add: reg_of_def)
      then have "(''rdx'', ''rbx'') \<in> set ?mv" unfolding mv result_moves_def by simp
      then show ?thesis by auto
    qed
    then show ?thesis
      using p b unfolding amd64_result_pair arg_val_def scalar_info_Some [OF i]
      by (cases "sc_bank i") (auto simp: st' s1 set_xmm_def set_gpr_def)
  qed
  show ?thesis
    unfolding Let_def s' [symmetric] using res st1 by (auto simp: st' set_xmm_def)
qed

text \<open>C17: An amd64 thunk exists for every accepted signature. When it calls the C body, every argument
  has at its C location the value it had at its Go location on entry, and the caller's frame is unchanged. The stack
  pointer is then a multiple of 16 below the caller's: it has the alignment the Go caller had, and the thunk does not
  realign it. When the body returns, with the thunk's saved frame pointer and return address intact, every result is at
  its Go location, the return goes to the caller's return address with the caller's stack and frame pointers, \<open>r14\<close>
  (the goroutine) is as the body left it and \<open>xmm15\<close> is zero.\<close>
theorem thunk_correct:
  assumes "analyzeSignature amd64_abi (gf_fn d) = Inr (gf_plan d)" "0 \<le> x_bp st" "x_bp st < 2 ^ 64"
  shows "\<exists>pre post. x_thunk labels ti d = Some (pre @ [Call (gf_impl d)] @ post) \<and>
    (\<forall>(ty, g, c)\<in>set (plan_args (gf_plan d)). arg_val (x_sp (run pre st)) (x_view (run pre st)) ty c = arg_val (x_sp st + 8) (x_view st) ty g) \<and>
    16 dvd x_sp st + 8 - x_sp (run pre st) \<and> (\<forall>x\<ge>x_sp st. x_mem (run pre st) x = x_mem st x) \<and>
    x_gpr (run pre st) ''r14'' = x_gpr st ''r14'' \<and>
    (\<forall>st'. c_returns (run pre st) st' \<longrightarrow>
       (\<forall>(ty, g, c)\<in>set (c_results (gf_plan d)). arg_val 0 (x_view (run post st')) ty g = arg_val 0 (x_view st') ty c) \<and>
       x_sp (run post st') = x_sp st + 8 \<and> fetch 8 (x_sp st) (x_mem st') = fetch 8 (x_sp st) (x_mem st) \<and>
       x_bp (run post st') = x_bp st \<and> x_mem (run post st') = x_mem st' \<and>
       x_gpr (run post st') ''r14'' = x_gpr st' ''r14'' \<and> x_xmm (run post st') ''xmm15'' = 0)"
proof -
  note ok = x_plan_args_ok(1) [OF assms(1)]
  obtain moves where mv: "x_args (plan_args (gf_plan d)) = Some moves"
    "\<And>st. x_sp st + sd_StackArgsSize (pl_SysV (gf_plan d)) \<le> x_bp st + 16 \<Longrightarrow>
       args_moved ''r12'' ''xmm15'' (sd_StackArgsSize (pl_SysV (gf_plan d))) (plan_args (gf_plan d)) (x_view st) (x_view (run moves st))"
    using xargs.arg_moves_moved [OF ok] unfolding x_args_def run_def x_view_simps by blast
  let ?pre = "thunk_pre labels ti d moves" and ?post = "thunk_post labels ti d"
  have th: "x_thunk labels ti d = Some (?pre @ [Call (gf_impl d)] @ ?post)"
    by (simp add: x_thunk_def mv(1) thunk_pre_def thunk_post_def)
  note pre = thunk_pre_ok [OF assms(1) mv, of labels ti st, unfolded Let_def]
  have "16 dvd pl_Outgoing (gf_plan d)" using analyzeSignature_area(4) [OF assms(1)] alignUp_16 by simp
  moreover have "x_sp st + 8 - x_sp (run ?pre st) = 16 + pl_Outgoing (gf_plan d)" using pre by simp
  ultimately have al: "16 dvd x_sp st + 8 - x_sp (run ?pre st)" by (simp only: dvd_add dvd_refl)
  have post: "(\<forall>(ty, g, c)\<in>set (c_results (gf_plan d)). arg_val 0 (x_view (run ?post st')) ty g = arg_val 0 (x_view st') ty c) \<and>
       x_sp (run ?post st') = x_sp st + 8 \<and> fetch 8 (x_sp st) (x_mem st') = fetch 8 (x_sp st) (x_mem st) \<and>
       x_bp (run ?post st') = x_bp st \<and> x_mem (run ?post st') = x_mem st' \<and>
       x_gpr (run ?post st') ''r14'' = x_gpr st' ''r14'' \<and> x_xmm (run ?post st') ''xmm15'' = 0"
    if ret: "c_returns (run ?pre st) st'" for st'
  proof -
    have bp: "x_bp st' = x_sp st - 8" using ret pre by (simp add: c_returns_def)
    have keep: "fetch 8 a (x_mem st') = fetch 8 a (x_mem (run ?pre st))" if "x_bp st' \<le> a" "a \<le> x_bp st' + 8" for a
      using ret that by (intro fetch_cong) (simp add: c_returns_def)
    have "fetch 8 (x_sp st) (x_mem (run ?pre st)) = fetch 8 (x_sp st) (x_mem st)" using pre by (intro fetch_cong) blast
    then have ra: "fetch 8 (x_sp st) (x_mem st') = fetch 8 (x_sp st) (x_mem st)" using keep [of "x_sp st"] bp by simp
    have "fetch 8 (x_bp st') (x_mem st') = fetch 8 (x_bp st') (x_mem (run ?pre st))" by (rule keep) simp_all
    then have "uint (fetch 8 (x_bp st') (x_mem st')) = x_bp st" using pre bp uint_word_of_int [OF assms(2,3)] by simp
    then show ?thesis using thunk_post_ok [OF assms(1), of labels ti st', unfolded Let_def] bp ra by simp
  qed
  have args: "\<forall>(ty, g, c)\<in>set (plan_args (gf_plan d)). arg_val (x_sp (run ?pre st)) (x_view (run ?pre st)) ty c = arg_val (x_sp st + 8) (x_view st) ty g"
    "\<forall>x\<ge>x_sp st. x_mem (run ?pre st) x = x_mem st x" "x_gpr (run ?pre st) ''r14'' = x_gpr st ''r14''" using pre by blast+
  show ?thesis
    by (intro exI [of _ ?pre] exI [of _ ?post] conjI th al args allI impI) (use post in blast)+
qed

definition example_fn :: goFn where
  "example_fn = \<lparr>gf_fn = example_func, gf_plan = plan_of amd64_abi example_func\<rparr>"

definition example_st :: xst where
  "example_st = \<lparr>x_gpr = (\<lambda>_. 0), x_xmm = (\<lambda>_. 0), x_mem = (\<lambda>_. 0), x_sp = 4088, x_bp = 8192, x_tls = 0\<rparr>"

theorem thunk_correct_witness:
  "plan_args (gf_plan example_fn) = [(''i64'', Reg ''rax'', Stk 0), (''i64'', Reg ''rbx'', Stk 8), (''i64'', Reg ''rcx'', Stk 16), (''ptr'', Reg ''rdi'', Reg ''rdi''), (''i32'', Reg ''rsi'', Reg ''rsi'')] \<and>
   (\<exists>pre post. x_thunk True 0 example_fn = Some (pre @ [Call ''f.impl''] @ post) \<and>
     (\<forall>(ty, g, c)\<in>set (plan_args (gf_plan example_fn)). arg_val (x_sp (run pre example_st)) (x_view (run pre example_st)) ty c = arg_val (x_sp example_st + 8) (x_view example_st) ty g))"
proof -
  have a: "analyzeSignature amd64_abi (gf_fn example_fn) = Inr (gf_plan example_fn)"
    using example_plan by (simp add: example_fn_def)
  have bp: "0 \<le> x_bp example_st" "x_bp example_st < 2 ^ 64" by (simp_all add: example_st_def)
  have impl: "gf_impl example_fn = ''f.impl''" by code_simp
  have args: "plan_args (gf_plan example_fn) = [(''i64'', Reg ''rax'', Stk 0), (''i64'', Reg ''rbx'', Stk 8), (''i64'', Reg ''rcx'', Stk 16), (''ptr'', Reg ''rdi'', Reg ''rdi''), (''i32'', Reg ''rsi'', Reg ''rsi'')]"
    by code_simp
  from thunk_correct [OF a bp, of True 0, unfolded impl] show ?thesis using args by blast
qed

text \<open>C19: For moves into distinct registers, none of them the scratch register, \<open>parallelGPR\<close> returns
  and its instructions act as one simultaneous assignment; no register other than the destinations
  and \<open>r12\<close>, no vector register and no memory changes.\<close>
theorem parallelGPR_simultaneous:
  assumes "distinct (map dst ms)" "''r12'' \<notin> set (map dst ms)"
  shows "\<exists>out. parallelGPR ms = Some out \<and> (\<forall>st. (\<forall>m\<in>set ms. x_gpr (run out st) (dst m) = x_gpr st (src m)) \<and>
    (\<forall>r. r \<notin> insert ''r12'' (set (map dst ms)) \<longrightarrow> x_gpr (run out st) r = x_gpr st r) \<and>
    x_xmm (run out st) = x_xmm st \<and> x_mem (run out st) = x_mem st \<and> x_sp (run out st) = x_sp st \<and> x_bp (run out st) = x_bp st)"
proof -
  obtain out where out: "par_moves ''r12'' (\<lambda>_ s d. MovQ s d) ms = Some out" "\<And>st. gpr.moved ms {''r12''} st (run out st)"
    using gpr.par_moves_moved [OF assms coherent_unit] unfolding run_def by blast
  then show ?thesis unfolding parallelGPR_def gpr.moved_def x_rest_gpr_def by (intro exI [of _ out]) simp
qed

theorem parallelGPR_simultaneous_witness:
  "\<exists>out. parallelGPR [(''rax'', ''rdi'', ()), (''rdi'', ''rsi'', ()), (''rsi'', ''rdx'', ()), (''rsi'', ''rax'', ())] = Some out \<and>
    (\<forall>st. x_gpr (run out st) ''rdi'' = x_gpr st ''rax'' \<and> x_gpr (run out st) ''rsi'' = x_gpr st ''rdi'' \<and> x_gpr (run out st) ''rax'' = x_gpr st ''rsi'')"
proof -
  let ?ms = "[(''rax'', ''rdi'', ()), (''rdi'', ''rsi'', ()), (''rsi'', ''rdx'', ()), (''rsi'', ''rax'', ())]"
  have "distinct (map dst ?ms)" "''r12'' \<notin> set (map dst ?ms)" by simp_all
  from parallelGPR_simultaneous [OF this] show ?thesis by auto
qed

end
