(* ===== verification/Thunks_A64.thy ===== *)
theory Thunks_A64
  imports Thunk_Args
begin

text \<open>
  The arm64 entry thunks of \<open>internal/lower/goabi_a64.go\<close>, in the manner of the amd64 ones: \<open>atext\<close> is
  the line the source prints for an instruction, \<open>aexec\<close> its effect. C stack arguments start 16 bytes
  above the stack pointer, because the word at \<open>0(RSP)\<close> is the copy of the return address that Go
  unwinds through.
\<close>

section \<open>Instructions\<close>

datatype ains =
    ALine string
  | AMov nat string string
  | AFmov string string string
  | AStr nat string int
  | ALdr nat int string
  | AStrF string string int
  | ALdrF string int string
  | AResMov string string
  | AResFmov string string
  | ASubSP int
  | AStp
  | AAddFP
  | AStrLR
  | ABl string
  | AMovSP
  | ALdp
  | ARet

definition arm64IntName :: "string \<Rightarrow> nat \<Rightarrow> string" where
  "arm64IntName reg sz = (if sz = 8 then CHR ''x'' # drop 1 reg else CHR ''w'' # drop 1 reg)"

definition arm64FloatName :: "string \<Rightarrow> string \<Rightarrow> string" where
  "arm64FloatName reg ty = (if ty = ''float'' then CHR ''s'' # drop 1 reg else CHR ''d'' # drop 1 reg)"

definition a64LRArea :: int where
  "a64LRArea = 16"

definition outArea :: "bool \<Rightarrow> int \<Rightarrow> int" where
  "outArea a64 outgoing = (if a64 \<and> outgoing > 0 then outgoing + a64LRArea else outgoing)"

definition arm64Mem :: "string \<Rightarrow> int \<Rightarrow> string" where
  "arm64Mem base offset = ''['' @ base @ '', #'' @ dec_int offset @ '']''"

definition store_op :: "nat \<Rightarrow> string" where
  "store_op sz = (if sz = 1 then ''strb'' else if sz = 2 then ''strh'' else ''str'')"

definition load_op :: "nat \<Rightarrow> string" where
  "load_op sz = (if sz = 1 then ''ldrb'' else if sz = 2 then ''ldrh'' else ''ldr'')"

fun atext :: "ains \<Rightarrow> string" where
  "atext (ALine s) = s"
| "atext (AMov n s d) = op2 ''mov'' (arm64IntName d n) (arm64IntName s n)"
| "atext (AFmov ty s d) = op2 ''fmov'' (arm64FloatName d ty) (arm64FloatName s ty)"
| "atext (AStr n r off) = op2 (store_op n) (arm64IntName r n) (arm64Mem ''sp'' off)"
| "atext (ALdr n off r) = op2 (load_op n) (arm64IntName r n) (arm64Mem ''x29'' off)"
| "atext (AStrF ty r off) = op2 ''str'' (arm64FloatName r ty) (arm64Mem ''sp'' off)"
| "atext (ALdrF ty off r) = op2 ''ldr'' (arm64FloatName r ty) (arm64Mem ''x29'' off)"
| "atext (AResMov d s) = op2 ''mov'' d s"
| "atext (AResFmov d s) = op2 ''fmov'' d s"
| "atext (ASubSP n) = op2 ''sub'' ''sp'' (''sp, #'' @ dec_int n)"
| "atext AStp = op2 ''stp'' ''x29'' ''x30, [sp, #16]''"
| "atext AAddFP = op2 ''add'' ''x29'' ''sp, #16''"
| "atext AStrLR = op2 ''str'' ''x30'' ''[sp]''"
| "atext (ABl f) = tab # ''bl'' @ tab # f"
| "atext AMovSP = op2 ''mov'' ''sp'' ''x29''"
| "atext ALdp = op2 ''ldp'' ''x29'' ''x30, [sp], #16''"
| "atext ARet = tab # ''ret''"

section \<open>The machine\<close>

text \<open>Registers have the names of their 64-bit views; \<open>a_d\<close> is the low half of a vector register.\<close>

record ast =
  a_x :: "string \<Rightarrow> val"
  a_d :: "string \<Rightarrow> val"
  a_mem :: bytes_mem
  a_sp :: int
  a_fp :: int
  a_lr :: val

definition set_x :: "string \<Rightarrow> val \<Rightarrow> ast \<Rightarrow> ast" where
  "set_x r v st = st\<lparr>a_x := (a_x st)(r := v)\<rparr>"

definition set_d :: "string \<Rightarrow> val \<Rightarrow> ast \<Rightarrow> ast" where
  "set_d r v st = st\<lparr>a_d := (a_d st)(r := v)\<rparr>"

definition put_a :: "nat \<Rightarrow> int \<Rightarrow> val \<Rightarrow> ast \<Rightarrow> ast" where
  "put_a n a v st = st\<lparr>a_mem := store n a v (a_mem st)\<rparr>"

text \<open>A move or load of a \<open>w\<close> register clears the upper half.\<close>

definition x_width :: "nat \<Rightarrow> nat" where
  "x_width n = (if n = 8 then 8 else 4)"

definition mem_width :: "nat \<Rightarrow> nat" where
  "mem_width n = (if n = 1 then 1 else if n = 2 then 2 else x_width n)"

definition f_width :: "string \<Rightarrow> nat" where
  "f_width ty = (if ty = ''float'' then 4 else 8)"

text \<open>Labels and directives have no effect; the branch to the C body is not executed here.\<close>

fun aexec :: "ains \<Rightarrow> ast \<Rightarrow> ast" where
  "aexec (ALine s) st = st"
| "aexec (AMov n s d) st = set_x d (low (x_width n) (a_x st s)) st"
| "aexec (AFmov ty s d) st = set_d d (low (f_width ty) (a_d st s)) st"
| "aexec (AStr n r off) st = put_a (mem_width n) (a_sp st + off) (a_x st r) st"
| "aexec (ALdr n off r) st = set_x r (fetch (mem_width n) (a_fp st + off) (a_mem st)) st"
| "aexec (AStrF ty r off) st = put_a (f_width ty) (a_sp st + off) (a_d st r) st"
| "aexec (ALdrF ty off r) st = set_d r (fetch (f_width ty) (a_fp st + off) (a_mem st)) st"
| "aexec (AResMov d s) st = set_x d (a_x st s) st"
| "aexec (AResFmov d s) st = set_d d (a_d st s) st"
| "aexec (ASubSP n) st = st\<lparr>a_sp := a_sp st - n\<rparr>"
| "aexec AStp st = put_a 8 (a_sp st + 24) (a_lr st) (put_a 8 (a_sp st + 16) (word_of_int (a_fp st)) st)"
| "aexec AAddFP st = st\<lparr>a_fp := a_sp st + 16\<rparr>"
| "aexec AStrLR st = put_a 8 (a_sp st) (a_lr st) st"
| "aexec (ABl f) st = st"
| "aexec AMovSP st = st\<lparr>a_sp := a_fp st\<rparr>"
| "aexec ALdp st = st\<lparr>a_fp := uint (fetch 8 (a_sp st) (a_mem st)), a_lr := fetch 8 (a_sp st + 8) (a_mem st), a_sp := a_sp st + 16\<rparr>"
| "aexec ARet st = st"

definition arun :: "ains list \<Rightarrow> ast \<Rightarrow> ast" where
  "arun is st = fold aexec is st"

section \<open>Moves\<close>

text \<open>An \<open>a64gpr\<close> has the size of the value, an \<open>a64fpr\<close> its type.\<close>

definition parallelArm64GPR :: "nat move list \<Rightarrow> ains list option" where
  "parallelArm64GPR moves = par_moves ''x16'' AMov moves"

definition parallelArm64FPR :: "string move list \<Rightarrow> ains list option" where
  "parallelArm64FPR moves = par_moves ''d16'' AFmov moves"

definition emitArm64StackArgument :: "string \<Rightarrow> loc \<Rightarrow> int \<Rightarrow> ains list" where
  "emitArm64StackArgument ty source destOff = (let (b, sz) = scalar_info ty in
     if b = Some BFloat then
       (case source of Reg r \<Rightarrow> [AStrF ty r destOff]
        | Stk off \<Rightarrow> [ALdrF ty (24 + off) ''d16'', AStrF ty ''d16'' destOff])
     else
       (case source of Reg r \<Rightarrow> [AStr sz r destOff]
        | Stk off \<Rightarrow> [ALdr sz (24 + off) ''x16'', AStr sz ''x16'' destOff]))"

definition emitArm64RegisterArgument :: "string \<Rightarrow> int \<Rightarrow> string \<Rightarrow> ains list" where
  "emitArm64RegisterArgument ty source dest = (let (b, sz) = scalar_info ty in
     if b = Some BFloat then [ALdrF ty (24 + source) dest] else [ALdr sz (24 + source) dest])"

section \<open>Thunks\<close>

definition a_regMoves :: "arg list \<Rightarrow> nat move list" where
  "a_regMoves args = bank_moves True (\<lambda>ty. snd (scalar_info ty)) args"

definition a_floatMoves :: "arg list \<Rightarrow> string move list" where
  "a_floatMoves args = filter (\<lambda>m. src m \<noteq> dst m) (bank_moves False id args)"

definition a_args :: "arg list \<Rightarrow> ains list option" where
  "a_args = arg_moves (\<lambda>ty l off. emitArm64StackArgument ty l (off + a64LRArea)) emitArm64RegisterArgument
     (\<lambda>args. parallelArm64GPR (a_regMoves args)) (\<lambda>args. parallelArm64FPR (a_floatMoves args))"

definition a_mark :: "bool \<Rightarrow> string \<Rightarrow> nat \<Rightarrow> ains list" where
  "a_mark labels l ti = (if labels then [ALine (''.Lgocw_'' @ l @ dec_nat ti @ '':'')] else [])"

definition a_header :: "string \<Rightarrow> bool \<Rightarrow> ains list" where
  "a_header name labels =
     (if labels then [ALine (tab # ''.section'' @ tab # ''.text.'' @ name @ '','' @ quote # ''ax'' @ quote # '',%progbits'')] else []) @
     [ALine (tab # ''.globl'' @ tab # name), ALine (tab # ''.type'' @ tab # name @ '', %function''), ALine (tab # ''.balign'' @ tab # ''4''), ALine (name @ '':'')]"

definition a_prologue :: "bool \<Rightarrow> nat \<Rightarrow> int \<Rightarrow> ains list" where
  "a_prologue labels ti outgoing =
     [ASubSP 32] @ a_mark labels ''p'' ti @ [AStp, AAddFP, AStrLR] @
     (if outgoing > 0 then [ASubSP (outArea True outgoing)] @ a_mark labels ''a'' ti @ [AStrLR] else [])"

definition a_result :: "string \<times> string \<Rightarrow> ains" where
  "a_result mv = (if take 1 (fst mv) \<in> {''d'', ''s'', ''q'', ''v''} then AResFmov (snd mv) (fst mv) else AResMov (snd mv) (fst mv))"

definition a_epilogue :: "string \<Rightarrow> bool \<Rightarrow> nat \<Rightarrow> (string \<times> string) list \<Rightarrow> ains list" where
  "a_epilogue name labels ti moves =
     map a_result moves @ [AMovSP] @ a_mark labels ''m'' ti @ [ALdp] @ a_mark labels ''o'' ti @ [ARet] @ a_mark labels ''e'' ti @
     [ALine (tab # ''.size'' @ tab # name @ '', .-'' @ name)]"

definition a_thunk :: "bool \<Rightarrow> nat \<Rightarrow> goFn \<Rightarrow> ains list option" where
  "a_thunk labels ti d = Option.bind (a_args (plan_args (gf_plan d))) (\<lambda>moves. Some
     (a_header (gf_name d) labels @ a_prologue labels ti (pl_Outgoing (gf_plan d)) @ moves @
      a_mark labels ''c'' ti @ [ABl (gf_impl d)] @ a_mark labels ''r'' ti @
      a_epilogue (gf_name d) labels ti (pl_ResultMoves (gf_plan d))))"

fun a_thunks :: "bool \<Rightarrow> nat \<Rightarrow> goFn list \<Rightarrow> ains list option" where
  "a_thunks labels ti [] = Some []"
| "a_thunks labels ti (d # ds) = Option.bind (a_thunk labels ti d) (\<lambda>t.
     Option.bind (a_thunks labels (ti + 1) ds) (\<lambda>ts. Some (t @ ts)))"

definition emitArm64Thunks :: "goFn list \<Rightarrow> bool \<Rightarrow> string option" where
  "emitArm64Thunks goabi labels = Option.bind (a_thunks labels 0 goabi) (\<lambda>body. Some
     (join [CHR 0x0A] ([''// Go 1.24 arm64 ABIInternal -> AAPCS64 entry thunks '' @ em_dash @ '' generated'', tab # ''.text''] @
       map atext body @ [[]])))"

end
