(* ===== verification/Thunks_A64_Correct.thy ===== *)
theory Thunks_A64_Correct
  imports Thunks_A64
begin

text \<open>
  Correctness of the arm64 thunks, through the same interfaces as the amd64 ones.
\<close>

section \<open>Register moves\<close>

definition a_rest_x :: "ast \<Rightarrow> (string \<Rightarrow> val) \<times> bytes_mem \<times> int \<times> int \<times> val" where
  "a_rest_x st = (a_d st, a_mem st, a_sp st, a_fp st, a_lr st)"

definition a_rest_d :: "ast \<Rightarrow> (string \<Rightarrow> val) \<times> bytes_mem \<times> int \<times> int \<times> val" where
  "a_rest_d st = (a_x st, a_mem st, a_sp st, a_fp st, a_lr st)"

text \<open>C stack arguments start 16 bytes above \<open>sp\<close>, Go stack arguments 24 bytes above \<open>x29\<close>.\<close>

definition a_view :: "ast \<Rightarrow> (int \<times> int \<times> val) mview" where
  "a_view st = \<lparr>m_int = a_x st, m_flt = a_d st, m_mem = a_mem st, m_c = a_sp st + 16, m_g = a_fp st + 24, m_rest = (a_sp st, a_fp st, a_lr st)\<rparr>"

lemma a_view_simps [simp]:
  "m_int (a_view st) = a_x st" "m_flt (a_view st) = a_d st" "m_mem (a_view st) = a_mem st" "m_c (a_view st) = a_sp st + 16"
  "m_g (a_view st) = a_fp st + 24" "m_rest (a_view st) = (a_sp st, a_fp st, a_lr st)"
  by (simp_all add: a_view_def)

lemma f_width_scalar: "scalar ty \<noteq> None \<Longrightarrow> \<not> is_int ty \<Longrightarrow> snd (scalar_info ty) = f_width ty"
  by (auto simp: scalar_info_def scalar_def f_width_def is_int_def Let_def split: if_splits option.splits)

lemma scalar_sizes: "scalar ty \<noteq> None \<Longrightarrow> snd (scalar_info ty) \<in> {1, 2, 4, 8}"
  using scalar_size [of ty] by (auto simp: scalar_info_def pow8_def)

lemma mem_width_scalar: "scalar ty \<noteq> None \<Longrightarrow> mem_width (snd (scalar_info ty)) = snd (scalar_info ty)"
  using scalar_sizes [of ty] by (auto simp: mem_width_def x_width_def)

lemma low_le: "n \<le> k \<Longrightarrow> low k x = low k y \<Longrightarrow> low n x = low n y"
proof -
  assume "n \<le> k" "low k x = low k y"
  then have "take_bit (8 * n) (take_bit (8 * k) x) = take_bit (8 * n) (take_bit (8 * k) y)" by (simp add: low_def)
  then show "low n x = low n y" using \<open>n \<le> k\<close> by (simp add: low_def)
qed

lemma x_width_low: "scalar ty \<noteq> None \<Longrightarrow> low (x_width (snd (scalar_info ty))) x = low (x_width (snd (scalar_info ty))) y \<Longrightarrow>
    low (snd (scalar_info ty)) x = low (snd (scalar_info ty)) y"
  by (rule low_le) (use scalar_sizes [of ty] in \<open>auto simp: x_width_def\<close>)

interpretation xreg: bank_machine aexec "\<lambda>r st. a_x st r" a_rest_x "\<lambda>n. low (x_width n)" AMov a_view True "\<lambda>ty. snd (scalar_info ty)"
proof unfold_locales
  fix ty x y
  assume "scalar ty \<noteq> None" "low (x_width (snd (scalar_info ty))) x = low (x_width (snd (scalar_info ty))) y"
  then show "low (snd (scalar_info ty)) x = low (snd (scalar_info ty)) y" by (rule x_width_low)
qed (auto simp: set_x_def a_rest_x_def same_but_def)

interpretation dreg: bank_machine aexec "\<lambda>r st. a_d st r" a_rest_d "\<lambda>ty. low (f_width ty)" AFmov a_view False id
  by unfold_locales (auto simp: set_d_def a_rest_d_def same_but_def f_width_scalar)

section \<open>The argument code\<close>

lemma a_stack_arg:
  fixes st dest ty l
  defines "n \<equiv> snd (scalar_info ty)" and "a \<equiv> a_sp st + 16 + dest"
  assumes "scalar ty \<noteq> None"
  shows "fetch n a (a_mem (arun (emitArm64StackArgument ty l (dest + a64LRArea)) st)) = arg_val (a_fp st + 24) (a_view st) ty l"
    "only_scratch ''x16'' ''d16'' {a ..< a + int n} (a_view st) (a_view (arun (emitArm64StackArgument ty l (dest + a64LRArea)) st))"
proof -
  obtain i where i: "scalar ty = Some i" using assms(3) by blast
  have info: "scalar_info ty = (Some (sc_bank i), n)" by (simp add: n_def scalar_info_Some [OF i])
  have w: "mem_width n = n" using mem_width_scalar [OF assms(3)] by (simp add: n_def)
  have f: "sc_bank i = BFloat \<Longrightarrow> f_width ty = n" using f_width_scalar [OF assms(3)] by (simp add: n_def is_int_Some [OF i])
  have a': "a_sp st + (dest + a64LRArea) = a" by (simp add: a_def a64LRArea_def)
  note simps = arg_val_def info put_a_def set_x_def set_d_def only_scratch_def fetch_store_same arun_def w a' add.assoc [of _ 24, symmetric]
  show "fetch n a (a_mem (arun (emitArm64StackArgument ty l (dest + a64LRArea)) st)) = arg_val (a_fp st + 24) (a_view st) ty l"
    unfolding emitArm64StackArgument_def info by (cases "sc_bank i"; cases l) (auto simp: simps f)
  show "only_scratch ''x16'' ''d16'' {a ..< a + int n} (a_view st) (a_view (arun (emitArm64StackArgument ty l (dest + a64LRArea)) st))"
    unfolding emitArm64StackArgument_def info by (cases "sc_bank i"; cases l) (auto simp: simps f intro!: store_other)
qed

lemma a_reg_arg:
  assumes "scalar ty \<noteq> None"
  shows "arg_val base (a_view (arun (emitArm64RegisterArgument ty off r) st)) ty (Reg r) = arg_val (a_fp st + 24) (a_view st) ty (Stk off)"
    "same_but (is_int ty) {r} (a_view st) (a_view (arun (emitArm64RegisterArgument ty off r) st))"
proof -
  obtain i where i: "scalar ty = Some i" using assms by blast
  have w: "mem_width (nat (sc_size i)) = nat (sc_size i)" using mem_width_scalar [OF assms] by (simp add: scalar_info_Some [OF i])
  have f: "sc_bank i = BFloat \<Longrightarrow> f_width ty = nat (sc_size i)" using f_width_scalar [OF assms] by (simp add: is_int_Some [OF i] scalar_info_Some [OF i])
  note simps = emitArm64RegisterArgument_def scalar_info_Some [OF i] is_int_Some [OF i] same_but_def arg_val_def set_x_def set_d_def w add.assoc arun_def
  show "arg_val base (a_view (arun (emitArm64RegisterArgument ty off r) st)) ty (Reg r) = arg_val (a_fp st + 24) (a_view st) ty (Stk off)"
    by (cases "sc_bank i") (auto simp: simps f)
  show "same_but (is_int ty) {r} (a_view st) (a_view (arun (emitArm64RegisterArgument ty off r) st))"
    by (cases "sc_bank i") (auto simp: simps)
qed

interpretation aargs: arg_code aexec a_view "''x16''" "''d16''" "\<lambda>ty l off. emitArm64StackArgument ty l (off + a64LRArea)" emitArm64RegisterArgument
  "\<lambda>args. parallelArm64GPR (a_regMoves args)" "\<lambda>args. parallelArm64FPR (a_floatMoves args)"
proof unfold_locales
  fix area args assume ok: "args_ok ''x16'' ''d16'' area args"
  show "\<exists>gs. parallelArm64GPR (a_regMoves args) = Some gs \<and> (\<forall>st. regs_moved True ''x16'' args (a_view st) (a_view (fold aexec gs st)))"
    using xreg.bank_regs_moved [OF ok, of "''x16''"] by (simp add: parallelArm64GPR_def a_regMoves_def)
  show "\<exists>xs. parallelArm64FPR (a_floatMoves args) = Some xs \<and> (\<forall>st. regs_moved False ''d16'' args (a_view st) (a_view (fold aexec xs st)))"
    using dreg.bank_regs_moved [OF ok, of "''d16''"] by (simp add: parallelArm64FPR_def a_floatMoves_def par_moves_filter)
qed (use a_stack_arg a_reg_arg in \<open>simp_all add: arun_def\<close>)

section \<open>Plans and results\<close>

lemma arun_append [simp]: "arun (is @ js) st = arun js (arun is st)"
  by (simp add: arun_def)

lemma arun_Nil [simp]: "arun [] st = st"
  by (simp add: arun_def)

lemma arun_Cons [simp]: "arun (i # is) st = arun is (aexec i st)"
  by (simp add: arun_def)

lemma arm64_scratch: "{''x16'', ''d16''} \<inter> set (ab_goInt arm64_abi @ ab_goFloat arm64_abi) = {}"
    "{''x16'', ''d16''} \<inter> set (ab_sysvInt arm64_abi @ ab_sysvFloat arm64_abi) = {}"
    "''x28'' \<notin> set (ab_sysvInt arm64_abi @ ab_sysvFloat arm64_abi)"
  by code_simp+

lemma a_plan_args_ok:
  assumes "analyzeSignature arm64_abi d = Inr pl"
  shows "args_ok ''x16'' ''d16'' (sd_StackArgsSize (pl_SysV pl)) (plan_args pl)" "''x28'' \<notin> set (side_regs (c_side (plan_args pl)))"
  using plan_args_ok [OF assms arm_go.reg_file_axioms arm_c.reg_file_axioms arm64_scratch(1,2)] arm64_scratch(3) by blast+

lemma arm64_result_pair: "result_pair arm64_abi ty g c \<Longrightarrow> g = c"
proof -
  have regs: "ab_goInt arm64_abi ! 0 = ab_sysvIntResult arm64_abi ! 0" "ab_goFloat arm64_abi ! 0 = ab_sysvFloatResult arm64_abi ! 0"
    "ab_goInt arm64_abi ! Suc 0 = ab_sysvIntResult arm64_abi ! Suc 0" "ab_goFloat arm64_abi ! Suc 0 = ab_sysvFloatResult arm64_abi ! Suc 0" by code_simp+
  show "result_pair arm64_abi ty g c \<Longrightarrow> g = c"
    unfolding result_pair_def by (auto simp: less_2_cases_iff regs split: if_splits)
qed

lemma a_results:
  assumes "analyzeSignature arm64_abi d = Inr pl"
  shows "pl_ResultMoves pl = []" "(ty, g, c) \<in> set (c_results pl) \<Longrightarrow> g = c"
proof -
  obtain tys where ra: "returnAssignment arm64_abi (lf_Ret d) = Inr (sd_Results (pl_Go pl), sd_Results (pl_SysV pl), tys)"
    and mv: "pl_ResultMoves pl = result_moves (sd_Results (pl_Go pl)) (sd_Results (pl_SysV pl))"
    using assms by (rule analyzeSignature_moves)
  have "set (pl_ResultMoves pl) \<subseteq> {(s, d). (s, d) \<in> result_pairs arm64_abi \<and> s \<noteq> d}"
    using returnAssignment_moves [OF ra] unfolding mv by (fastforce simp: result_moves_def)
  moreover have "{(s, d). (s, d) \<in> result_pairs arm64_abi \<and> s \<noteq> d} = {}" by (auto simp: result_pairs_arm64)
  ultimately show "pl_ResultMoves pl = []" by simp
  assume "(ty, g, c) \<in> set (c_results pl)"
  then obtain ty' where z: "((ty, g), (ty', c)) \<in> set (zip (sd_Results (pl_Go pl)) (sd_Results (pl_SysV pl)))" by (auto simp: c_results_def)
  have "ab_sysvIntResult arm64_abi ! 0 = ab_goInt arm64_abi ! 0" "ab_sysvFloatResult arm64_abi ! 0 = ab_goFloat arm64_abi ! 0" by code_simp+
  then show "g = c" using returnAssignment_banks [OF ra z] arm64_result_pair by blast
qed

lemma arun_mark [simp]: "arun (a_mark labels l ti) st = st"
  by (simp add: a_mark_def)

lemma arun_header [simp]: "arun (a_header name labels) st = st"
  by (simp add: a_header_def)

section \<open>The thunk\<close>

definition a_pre :: "bool \<Rightarrow> nat \<Rightarrow> goFn \<Rightarrow> ains list \<Rightarrow> ains list" where
  "a_pre labels ti d moves = a_header (gf_name d) labels @ a_prologue labels ti (pl_Outgoing (gf_plan d)) @ moves @ a_mark labels ''c'' ti"

definition a_post :: "bool \<Rightarrow> nat \<Rightarrow> goFn \<Rightarrow> ains list" where
  "a_post labels ti d = a_mark labels ''r'' ti @ a_epilogue (gf_name d) labels ti (pl_ResultMoves (gf_plan d))"

text \<open>The C body returns with the stack and frame pointers it was called with and does not write the thunk's frame
  record. It may write any other memory.\<close>

definition a_returns :: "ast \<Rightarrow> ast \<Rightarrow> bool" where
  "a_returns st st' \<longleftrightarrow> a_sp st' = a_sp st \<and> a_fp st' = a_fp st \<and> (\<forall>x. a_fp st \<le> x \<and> x < a_fp st + 16 \<longrightarrow> a_mem st' x = a_mem st x)"

text \<open>The frame after the prologue: the frame record at the top, the copy of the return address at
  the bottom, both outside the outgoing area.\<close>

lemma a_prologue_ok:
  assumes "0 \<le> out" "st1 = arun (a_prologue labels ti out) st"
  shows "a_fp st1 = a_sp st - 16" "a_sp st1 = a_sp st - 32 - outArea True out" "a_x st1 = a_x st" "a_d st1 = a_d st" "a_lr st1 = a_lr st"
    "fetch 8 (a_sp st - 16) (a_mem st1) = word_of_int (a_fp st)" "fetch 8 (a_sp st - 8) (a_mem st1) = a_lr st"
    "fetch 8 (a_sp st1) (a_mem st1) = a_lr st" "\<forall>x\<ge>a_sp st. a_mem st1 x = a_mem st x"
  using assms by (auto simp: a_prologue_def put_a_def outArea_def a64LRArea_def fetch_store_same fetch_store_other store_other)

lemma a_pre_ok:
  assumes "analyzeSignature arm64_abi (gf_fn d) = Inr (gf_plan d)"
    "\<And>st. a_sp st + 16 + sd_StackArgsSize (pl_SysV (gf_plan d)) \<le> a_fp st + 24 \<Longrightarrow>
       args_moved ''x16'' ''d16'' (sd_StackArgsSize (pl_SysV (gf_plan d))) (plan_args (gf_plan d)) (a_view st) (a_view (arun moves st))"
    "st' = arun (a_pre labels ti d moves) st"
  shows "\<forall>(ty, g, c)\<in>set (plan_args (gf_plan d)). arg_val (a_sp st' + 16) (a_view st') ty c = arg_val (a_sp st + 8) (a_view st) ty g"
    "a_fp st' = a_sp st - 16" "16 dvd a_sp st - a_sp st'" "fetch 8 (a_sp st') (a_mem st') = a_lr st"
    "fetch 8 (a_sp st - 16) (a_mem st') = word_of_int (a_fp st)" "fetch 8 (a_sp st - 8) (a_mem st') = a_lr st"
    "\<forall>x\<ge>a_sp st. a_mem st' x = a_mem st x" "a_x st' ''x28'' = a_x st ''x28''"
proof -
  let ?pl = "gf_plan d" let ?area = "sd_StackArgsSize (pl_SysV ?pl)" and ?out = "pl_Outgoing ?pl" and ?args = "plan_args ?pl"
  have out: "?area \<le> ?out" "0 \<le> ?out" "0 \<le> ?area" "16 dvd ?out" "?out = 0 \<Longrightarrow> ?area \<le> 0"
    using analyzeSignature_area [OF assms(1)] alignUp_16 [of ?area] by auto
  define st1 where s1: "st1 = arun (a_prologue labels ti ?out) st"
  note p = a_prologue_ok [OF out(2) s1]
  have st': "st' = arun moves st1" by (simp add: assms(3) a_pre_def s1)
  have oa: "?area \<le> outArea True ?out" "outArea True ?out \<noteq> 0 \<Longrightarrow> outArea True ?out = ?out + 16" "16 dvd outArea True ?out" "0 \<le> outArea True ?out"
    using out by (cases "0 < ?out"; simp add: outArea_def a64LRArea_def)+
  have mv: "args_moved ''x16'' ''d16'' ?area ?args (a_view st1) (a_view st')"
    unfolding st' using assms(2) [of st1] p(1,2) oa out by (cases "outArea True ?out = 0") auto
  have sp: "a_sp st' = a_sp st1" "a_fp st' = a_fp st1" using mv by (auto simp: args_moved_def)
  have hi: "a_mem st' x = a_mem st1 x" if "a_sp st - 16 \<le> x \<or> x < a_sp st1 + 16" for x
    using mv that p(2) oa out by (cases "outArea True ?out = 0") (auto simp: args_moved_def)
  have same: "arg_val (a_fp st1 + 24) (a_view st1) ty g = arg_val (a_sp st + 8) (a_view st) ty g" if mem: "(ty, g, c) \<in> set ?args" for ty g c
  proof (cases g)
    case (Stk off)
    then have "0 \<le> off" using args_okD(7) [OF a_plan_args_ok(1) [OF assms(1)]] mem by (auto simp: go_loc_def)
    then have "fetch n (a_sp st + 8 + off) (a_mem st1) = fetch n (a_sp st + 8 + off) (a_mem st)" for n
      using p(9) by (intro fetch_cong) simp
    then show ?thesis by (simp add: arg_val_def Stk p(1) add.commute split: prod.splits)
  qed (simp add: arg_val_def p split: prod.splits)
  show "\<forall>(ty, g, c)\<in>set ?args. arg_val (a_sp st' + 16) (a_view st') ty c = arg_val (a_sp st + 8) (a_view st) ty g"
    using mv same by (auto simp: args_moved_def sp)
  show "a_fp st' = a_sp st - 16" "\<forall>x\<ge>a_sp st. a_mem st' x = a_mem st x" using p hi by (simp_all add: sp)
  show "16 dvd a_sp st - a_sp st'" using oa(3) p(2) by (simp add: sp)
  have keep: "fetch 8 a (a_mem st') = fetch 8 a (a_mem st1)" if "a_sp st - 16 \<le> a \<or> a + 8 \<le> a_sp st1 + 16" for a
    using that hi by (intro fetch_cong) auto
  show "fetch 8 (a_sp st') (a_mem st') = a_lr st" "fetch 8 (a_sp st - 16) (a_mem st') = word_of_int (a_fp st)" "fetch 8 (a_sp st - 8) (a_mem st') = a_lr st"
    using p(6,7,8) keep by (simp_all add: sp)
  show "a_x st' ''x28'' = a_x st ''x28''"
    using mv a_plan_args_ok(2) [OF assms(1)] p(3) by (simp add: args_moved_def)
qed

lemma a_post_ok:
  assumes "analyzeSignature arm64_abi (gf_fn d) = Inr (gf_plan d)" "st' = arun (a_post labels ti d) st"
  shows "a_sp st' = a_fp st + 16" "a_fp st' = uint (fetch 8 (a_fp st) (a_mem st))" "a_lr st' = fetch 8 (a_fp st + 8) (a_mem st)"
    "a_mem st' = a_mem st" "a_x st' = a_x st" "a_d st' = a_d st"
  using assms(2) by (simp_all add: a_post_def a_epilogue_def a_results(1) [OF assms(1)])

text \<open>C18: An arm64 thunk exists for every accepted signature. When it calls the C body, every argument
  has at its C location the value it had at its Go location on entry (C stack arguments start 16
  bytes above the stack pointer), the word at \<open>0(RSP)\<close> is the return address, the stack pointer is a
  multiple of 16 away from the caller's, and the caller's frame is unchanged; when the body returns,
  every result is at its Go location and the caller's stack pointer, frame pointer and return
  address are restored.\<close>
theorem a_thunk_correct:
  assumes "analyzeSignature arm64_abi (gf_fn d) = Inr (gf_plan d)" "0 \<le> a_fp st" "a_fp st < 2 ^ 64"
  shows "\<exists>pre post. a_thunk labels ti d = Some (pre @ [ABl (gf_impl d)] @ post) \<and>
    (\<forall>(ty, g, c)\<in>set (plan_args (gf_plan d)). arg_val (a_sp (arun pre st) + 16) (a_view (arun pre st)) ty c = arg_val (a_sp st + 8) (a_view st) ty g) \<and>
    16 dvd a_sp st - a_sp (arun pre st) \<and> fetch 8 (a_sp (arun pre st)) (a_mem (arun pre st)) = a_lr st \<and>
    (\<forall>x\<ge>a_sp st. a_mem (arun pre st) x = a_mem st x) \<and> a_x (arun pre st) ''x28'' = a_x st ''x28'' \<and>
    (\<forall>st'. a_returns (arun pre st) st' \<longrightarrow>
       (\<forall>(ty, g, c)\<in>set (c_results (gf_plan d)). arg_val 0 (a_view (arun post st')) ty g = arg_val 0 (a_view st') ty c) \<and>
       a_sp (arun post st') = a_sp st \<and> a_fp (arun post st') = a_fp st \<and> a_lr (arun post st') = a_lr st \<and>
       a_mem (arun post st') = a_mem st' \<and> a_x (arun post st') ''x28'' = a_x st' ''x28'')"
proof -
  note ok = a_plan_args_ok(1) [OF assms(1)]
  obtain moves where mv: "a_args (plan_args (gf_plan d)) = Some moves"
    "\<And>st. a_sp st + 16 + sd_StackArgsSize (pl_SysV (gf_plan d)) \<le> a_fp st + 24 \<Longrightarrow>
       args_moved ''x16'' ''d16'' (sd_StackArgsSize (pl_SysV (gf_plan d))) (plan_args (gf_plan d)) (a_view st) (a_view (arun moves st))"
    using aargs.arg_moves_moved [OF ok] unfolding a_args_def arun_def a_view_simps by blast
  let ?pre = "a_pre labels ti d moves" and ?post = "a_post labels ti d"
  have th: "a_thunk labels ti d = Some (?pre @ [ABl (gf_impl d)] @ ?post)"
    by (simp add: a_thunk_def mv(1) a_pre_def a_post_def)
  note pre = a_pre_ok [OF assms(1) mv(2) refl, where labels = labels and ti = ti and st = st]
  have post: "(\<forall>(ty, g, c)\<in>set (c_results (gf_plan d)). arg_val 0 (a_view (arun ?post st')) ty g = arg_val 0 (a_view st') ty c) \<and>
       a_sp (arun ?post st') = a_sp st \<and> a_fp (arun ?post st') = a_fp st \<and> a_lr (arun ?post st') = a_lr st \<and>
       a_mem (arun ?post st') = a_mem st' \<and> a_x (arun ?post st') ''x28'' = a_x st' ''x28''"
    if ret: "a_returns (arun ?pre st) st'" for st'
  proof -
    have fp: "a_fp st' = a_sp st - 16" using ret pre(2) by (simp add: a_returns_def)
    have keep: "fetch 8 a (a_mem st') = fetch 8 a (a_mem (arun ?pre st))" if "a_fp st' \<le> a" "a \<le> a_fp st' + 8" for a
      using ret that by (intro fetch_cong) (simp add: a_returns_def)
    have "uint (fetch 8 (a_fp st') (a_mem st')) = a_fp st" "fetch 8 (a_fp st' + 8) (a_mem st') = a_lr st"
      using keep [of "a_fp st'"] keep [of "a_fp st' + 8"] pre(5,6) fp assms(2,3) by (simp_all add: uint_word_of_int take_bit_int_eq_self)
    moreover have "arg_val 0 (a_view (arun ?post st')) ty g = arg_val 0 (a_view st') ty c" if "(ty, g, c) \<in> set (c_results (gf_plan d))" for ty g c
      using a_results(2) [OF assms(1) that] a_post_ok(4,5,6) [OF assms(1) refl, where labels = labels and ti = ti and st = st'] by (simp add: arg_val_def split: prod.splits loc.splits)
    ultimately show ?thesis using a_post_ok [OF assms(1) refl, where labels = labels and ti = ti and st = st'] fp by auto
  qed
  show ?thesis
    by (intro exI [of _ ?pre] exI [of _ ?post] conjI th pre allI impI) (use post in blast)+
qed

definition a_example_func :: llFunc where
  "a_example_func = \<lparr>lf_Name = ''g'', lf_Ret = ''double'', lf_RetAttrs = [], lf_RetABI = [],
     lf_Params = replicate 9 ''i64'' @ [''double'', ''i8''], lf_ParamAttrs = replicate 11 [], lf_ParamABI = replicate 11 [],
     lf_Varargs = False, lf_Internal = False, lf_NonC = False\<rparr>"

definition a_example_fn :: goFn where
  "a_example_fn = \<lparr>gf_fn = a_example_func, gf_plan = plan_of arm64_abi a_example_func\<rparr>"

definition a_example_st :: ast where
  "a_example_st = \<lparr>a_x = (\<lambda>_. 0), a_d = (\<lambda>_. 0), a_mem = (\<lambda>_. 0), a_sp = 4096, a_fp = 8192, a_lr = 7\<rparr>"

theorem a_thunk_correct_witness:
  "drop 8 (plan_args (gf_plan a_example_fn)) = [(''i64'', Reg ''x8'', Stk 0), (''double'', Reg ''d0'', Reg ''d0''), (''i8'', Reg ''x9'', Stk 8)] \<and>
   (\<exists>pre post. a_thunk True 0 a_example_fn = Some (pre @ [ABl ''g.impl''] @ post) \<and>
     (\<forall>(ty, g, c)\<in>set (plan_args (gf_plan a_example_fn)).
        arg_val (a_sp (arun pre a_example_st) + 16) (a_view (arun pre a_example_st)) ty c = arg_val (a_sp a_example_st + 8) (a_view a_example_st) ty g))"
proof -
  have "analyzeSignature arm64_abi a_example_func = Inr (plan_of arm64_abi a_example_func)" by (rule plan_of) code_simp
  then have a: "analyzeSignature arm64_abi (gf_fn a_example_fn) = Inr (gf_plan a_example_fn)" by (simp add: a_example_fn_def)
  have fp: "0 \<le> a_fp a_example_st" "a_fp a_example_st < 2 ^ 64" by (simp_all add: a_example_st_def)
  have impl: "gf_impl a_example_fn = ''g.impl''" by code_simp
  have args: "drop 8 (plan_args (gf_plan a_example_fn)) = [(''i64'', Reg ''x8'', Stk 0), (''double'', Reg ''d0'', Reg ''d0''), (''i8'', Reg ''x9'', Stk 8)]"
    by code_simp
  from a_thunk_correct [OF a fp, of True 0, unfolded impl] show ?thesis using args by blast
qed

end
