(* ===== verification/Table_Asm.thy ===== *)
theory Table_Asm
  imports Gocobj_Roundtrip
begin

text \<open>
  The assembler text in which \<open>internal/lower\<close> writes \<open>.goc.*\<close> records (\<open>emitWrapperTables\<close> of
  \<open>goabi.go\<close>, \<open>emitGoExternTables\<close> of \<open>go_extern.go\<close>): a directive is a datatype, \<open>dtext\<close> is the
  line the source prints for it and \<open>dbytes\<close> are the bytes an assembler makes of it once every
  label has an offset in its section. Both emitters number their records and strings in the same way,
  with the letter \<open>w\<close> or \<open>x\<close> in their labels, so the closures they share are here.
\<close>

section \<open>Directives\<close>

text \<open>\<open>Diff a k b c\<close> is the expression \<open>a-k-b+c\<close>, in which a zero \<open>k\<close> or \<open>c\<close> is not printed.\<close>

datatype aexp = Num int | Diff string nat string nat

datatype dir = Section string | Lab string | Uleb aexp | Sleb int | Byte int | Asciz string

definition newline :: char where "newline = CHR 0x0A"
definition htab :: char where "htab = CHR 0x09"
definition dquote :: char where "dquote = CHR 0x22"

fun aexp_text :: "aexp \<Rightarrow> string" where
  "aexp_text (Num i) = dec_int i"
| "aexp_text (Diff a k b c) = a @ (if k = 0 then [] else ''-'' @ dec_nat k) @ ''-'' @ b @ (if c = 0 then [] else ''+'' @ dec_nat c)"

text \<open>Go's \<open>%q\<close> on ASCII text.\<close>

definition hex_digit :: "nat \<Rightarrow> char" where
  "hex_digit n = (if n < 10 then char_of (48 + n) else char_of (87 + n))"

definition quote_char :: "char \<Rightarrow> string" where
  "quote_char c = (let n = of_char c :: nat in
     if c = dquote \<or> c = CHR 0x5C then [CHR 0x5C, c]
     else if n = 7 then [CHR 0x5C, CHR ''a''] else if n = 8 then [CHR 0x5C, CHR ''b'']
     else if n = 12 then [CHR 0x5C, CHR ''f''] else if n = 10 then [CHR 0x5C, CHR ''n'']
     else if n = 13 then [CHR 0x5C, CHR ''r''] else if n = 9 then [CHR 0x5C, CHR ''t'']
     else if n = 11 then [CHR 0x5C, CHR ''v'']
     else if n < 32 \<or> n = 127 then [CHR 0x5C, CHR ''x'', hex_digit (n div 16), hex_digit (n mod 16)]
     else [c])"

definition go_quote :: "string \<Rightarrow> string" where
  "go_quote s = dquote # concat (map quote_char s) @ [dquote]"

fun dtext :: "dir \<Rightarrow> string" where
  "dtext (Section s) = htab # ''.section '' @ s @ '','' @ [dquote, dquote] @ '',%progbits'' @ [newline]"
| "dtext (Lab l) = l @ '':'' @ [newline]"
| "dtext (Uleb e) = htab # ''.uleb128 '' @ aexp_text e @ [newline]"
| "dtext (Sleb i) = htab # ''.sleb128 '' @ dec_int i @ [newline]"
| "dtext (Byte i) = htab # ''.byte '' @ dec_int i @ [newline]"
| "dtext (Asciz s) = htab # ''.asciz '' @ go_quote s @ [newline]"

text \<open>Assembling: \<open>A\<close> gives every label its offset in its section.\<close>

fun aval :: "(string \<Rightarrow> int) \<Rightarrow> aexp \<Rightarrow> int" where
  "aval A (Num i) = i"
| "aval A (Diff a k b c) = A a - int k - A b + int c"

fun dbytes :: "(string \<Rightarrow> int) \<Rightarrow> dir \<Rightarrow> byte list" where
  "dbytes A (Section s) = []"
| "dbytes A (Lab l) = []"
| "dbytes A (Uleb e) = enc_uleb (word_of_int (aval A e))"
| "dbytes A (Sleb i) = enc_sleb (word_of_int i)"
| "dbytes A (Byte i) = [word_of_int i]"
| "dbytes A (Asciz s) = bytes_of s @ [0]"

definition asm :: "(string \<Rightarrow> int) \<Rightarrow> dir list \<Rightarrow> byte list" where
  "asm A ds = concat (map (dbytes A) ds)"

text \<open>The labels of a run of directives that starts at an offset are where they stand.\<close>

fun placed :: "(string \<Rightarrow> int) \<Rightarrow> int \<Rightarrow> dir list \<Rightarrow> bool" where
  "placed A pos [] \<longleftrightarrow> True"
| "placed A pos (d # ds) \<longleftrightarrow> (case d of Lab l \<Rightarrow> A l = pos | _ \<Rightarrow> True) \<and> placed A (pos + int (length (dbytes A d))) ds"

lemma asm_simps [simp]: "asm A [] = []" "asm A (d # ds) = dbytes A d @ asm A ds" "asm A (ds @ es) = asm A ds @ asm A es"
  by (simp_all add: asm_def)

lemma placed_append [simp]: "placed A pos (ds @ es) \<longleftrightarrow> placed A pos ds \<and> placed A (pos + int (length (asm A ds))) es"
  by (induction ds arbitrary: pos) (auto simp: add.assoc)

section \<open>Records\<close>

text \<open>The closures \<open>begin\<close> and \<open>end\<close>: record number \<open>n\<close> is \<open>.Lgocw_q<n>\<close>.\<close>

definition lbl :: "char \<Rightarrow> string \<Rightarrow> nat \<Rightarrow> string" where
  "lbl w l n = ''.Lgoc'' @ [w] @ ''_'' @ l @ dec_nat n"

definition rec_dirs :: "char \<Rightarrow> nat \<Rightarrow> dir list \<Rightarrow> dir list" where
  "rec_dirs w n body = (let l = lbl w ''q'' n in
     [Lab l, Uleb (Diff (l @ ''e'') 0 (l @ ''b'') 0), Lab (l @ ''b'')] @ body @ [Lab (l @ ''e'')])"

lemma asm_rec_dirs:
  assumes "placed A pos (rec_dirs w n body)"
  shows "asm A (rec_dirs w n body) = enc_rec (asm A body)" "A (lbl w ''q'' n) = pos"
  using assms by (auto simp: rec_dirs_def Let_def enc_rec_def algebra_simps)

text \<open>A section of records, numbered from \<open>n\<close>.\<close>

fun rec_list :: "char \<Rightarrow> nat \<Rightarrow> dir list list \<Rightarrow> dir list" where
  "rec_list w n [] = []"
| "rec_list w n (b # bs) = rec_dirs w n b @ rec_list w (n + 1) bs"

lemma asm_rec_list: "placed A pos (rec_list w n bs) \<Longrightarrow> asm A (rec_list w n bs) = recs (map (asm A) bs)"
  by (induction bs arbitrary: pos n) (auto simp: asm_rec_dirs)

lemma rec_list_label:
  "placed A pos (rec_list w n bs) \<Longrightarrow> i < length bs \<Longrightarrow> A (lbl w ''q'' (n + i)) = pos + int (length (recs (map (asm A) (take i bs))))"
proof (induction bs arbitrary: pos n i)
  case (Cons b bs)
  have b: "asm A (rec_dirs w n b) = enc_rec (asm A b)" "A (lbl w ''q'' n) = pos"
    using Cons.prems asm_rec_dirs [of A pos w n b] by auto
  show ?case
  proof (cases i)
    case (Suc j)
    have "A (lbl w ''q'' (n + 1 + j)) = pos + int (length (enc_rec (asm A b))) + int (length (recs (map (asm A) (take j bs))))"
      using Cons.prems Suc b by (intro Cons.IH) simp_all
    then show ?thesis by (simp add: Suc)
  qed (use b in simp)
qed simp

section \<open>Strings\<close>

text \<open>The closure \<open>ref\<close>: the numbers given so far and the list they index.\<close>

type_synonym wstrs = "(string \<rightharpoonup> nat) \<times> string list"

definition wstrs0 :: wstrs where
  "wstrs0 = (Map.empty, [])"

definition sref :: "char \<Rightarrow> nat \<Rightarrow> aexp" where
  "sref w i = Diff (lbl w ''s'' i) 0 ''.Lgoc_strtab'' 0"

definition ref :: "char \<Rightarrow> string \<Rightarrow> (wstrs, aexp) state" where
  "ref w s = State (\<lambda>(strs, xs). case strs s of
     Some i \<Rightarrow> (sref w i, strs, xs)
   | None \<Rightarrow> (sref w (length xs), strs(s \<mapsto> length xs), xs @ [s]))"

definition str_dirs :: "char \<Rightarrow> string list \<Rightarrow> dir list" where
  "str_dirs w xs = concat (map (\<lambda>(i, s). [Lab (lbl w ''s'' i), Asciz s]) (enumerate 0 xs))"

fun mapM :: "('a \<Rightarrow> ('s, 'b) state) \<Rightarrow> 'a list \<Rightarrow> ('s, 'b list) state" where
  "mapM f [] = State_Monad.return []"
| "mapM f (x # xs) = do { y \<leftarrow> f x; ys \<leftarrow> mapM f xs; State_Monad.return (y # ys) }"

definition strs_ok :: "wstrs \<Rightarrow> bool" where
  "strs_ok t \<longleftrightarrow> (\<forall>s i. fst t s = Some i \<longrightarrow> i < length (snd t) \<and> snd t ! i = s)"

text \<open>What code that refers to strings produces, whatever strings are added after it.\<close>

definition emits :: "(wstrs, 'a) state \<Rightarrow> (string list \<Rightarrow> 'a \<Rightarrow> bool) \<Rightarrow> bool" where
  "emits m Q \<longleftrightarrow> (\<forall>t x t'. run_state m t = (x, t') \<longrightarrow> strs_ok t \<longrightarrow>
     strs_ok t' \<and> prefix (snd t) (snd t') \<and> (\<forall>F. prefix (snd t') F \<longrightarrow> Q F x))"

lemma emits_return: "(\<And>F. Q F x) \<Longrightarrow> emits (State_Monad.return x) Q"
  by (simp add: emits_def)

lemma emits_bind:
  assumes "emits m P" "\<And>x. emits (f x) (\<lambda>F y. P F x \<longrightarrow> Q F y)"
  shows "emits (m \<bind> f) Q"
  unfolding emits_def
proof (intro allI impI)
  fix t y t' assume r: "run_state (m \<bind> f) t = (y, t')" and ok: "strs_ok t"
  obtain x t1 where x: "run_state m t = (x, t1)" by (cases "run_state m t")
  have fx: "run_state (f x) t1 = (y, t')" using r x by simp
  have 1: "strs_ok t1" "prefix (snd t) (snd t1)" "\<And>F. prefix (snd t1) F \<Longrightarrow> P F x"
    using assms(1) x ok unfolding emits_def by blast+
  have 2: "strs_ok t'" "prefix (snd t1) (snd t')" "\<And>F. prefix (snd t') F \<Longrightarrow> P F x \<longrightarrow> Q F y"
    using assms(2) [of x] fx 1(1) unfolding emits_def by blast+
  show "strs_ok t' \<and> prefix (snd t) (snd t') \<and> (\<forall>F. prefix (snd t') F \<longrightarrow> Q F y)"
    using 1 2 by (meson prefix_order.trans)
qed

lemma emits_ref: "emits (ref w s) (\<lambda>F e. \<exists>i<length F. F ! i = s \<and> e = sref w i)"
  unfolding emits_def
proof (intro allI impI)
  fix t x t' assume r: "run_state (ref w s) t = (x, t')" and ok: "strs_ok t"
  obtain strs xs where t: "t = (strs, xs)" by (cases t)
  have nth: "i < length F \<and> F ! i = s" if "i < length ys" "ys ! i = s" "prefix ys F" for i ys F
    using that by (auto simp: prefix_def nth_append)
  show "strs_ok t' \<and> prefix (snd t) (snd t') \<and> (\<forall>F. prefix (snd t') F \<longrightarrow> (\<exists>i<length F. F ! i = s \<and> x = sref w i))"
  proof (cases "strs s")
    case None
    then have t': "t' = (strs(s \<mapsto> length xs), xs @ [s])" "x = sref w (length xs)" using r by (auto simp: ref_def t)
    then show ?thesis using ok nth [of "length xs" "xs @ [s]"] by (auto simp: t strs_ok_def nth_append less_Suc_eq)
  next
    case (Some i)
    then have t': "t' = t" "x = sref w i" using r by (auto simp: ref_def t)
    have i: "i < length xs" "xs ! i = s" using ok Some by (auto simp: t strs_ok_def)
    show ?thesis using ok nth [OF i] unfolding t' by (auto simp: t)
  qed
qed

lemma emits_mapM:
  assumes "\<And>x. x \<in> set xs \<Longrightarrow> emits (f x) (\<lambda>F y. Q F x y)"
  shows "emits (mapM f xs) (\<lambda>F ys. list_all2 (Q F) xs ys)"
  using assms
proof (induction xs)
  case Nil
  then show ?case by (auto intro: emits_return)
next
  case (Cons x xs)
  have tl: "emits (mapM f xs) (\<lambda>F ys. list_all2 (Q F) xs ys)" using Cons by simp
  have "emits (mapM f xs \<bind> (\<lambda>ys. State_Monad.return (y # ys))) (\<lambda>F zs. Q F x y \<longrightarrow> list_all2 (Q F) (x # xs) zs)" for y
    by (rule emits_bind [OF tl]) (rule emits_return, simp)
  then show ?case unfolding mapM.simps by (intro emits_bind [of "f x" "\<lambda>F y. Q F x y"] Cons.prems) simp_all
qed

lemma emits_all:
  assumes "\<And>b. P b \<Longrightarrow> emits m (Q b)" "emits m (\<lambda>_ _. True)"
  shows "emits m (\<lambda>F x. \<forall>b. P b \<longrightarrow> Q b F x)"
  using assms unfolding emits_def by blast

lemma emits_mono: "emits m Q \<Longrightarrow> (\<And>F x. Q F x \<Longrightarrow> R F x) \<Longrightarrow> emits m R"
  unfolding emits_def by blast

lemma strs_ok0: "strs_ok wstrs0"
  by (simp add: strs_ok_def wstrs0_def)

lemma emits_run: "emits m Q \<Longrightarrow> run_state m wstrs0 = (x, strs, F) \<Longrightarrow> Q F x"
  using strs_ok0 unfolding emits_def by fastforce

text \<open>The string section: a base text in front, then the strings; a reference resolves to its string.\<close>

lemma asm_str_dirs: "asm A (str_dirs w xs) = concat (map (\<lambda>s. bytes_of s @ [0]) xs)"
proof -
  have "asm A (concat (map (\<lambda>(i, s). [Lab (lbl w ''s'' i), Asciz s]) (enumerate n xs))) = concat (map (\<lambda>s. bytes_of s @ [0]) xs)" for n
    by (induction xs arbitrary: n) auto
  then show ?thesis by (simp add: str_dirs_def)
qed

lemma str_label:
  assumes "placed A pos (str_dirs w xs)" "i < length xs"
  shows "A (lbl w ''s'' i) = pos + int (length (concat (map (\<lambda>s. bytes_of s @ [0]) (take i xs))))"
proof -
  have "placed A pos (concat (map (\<lambda>(i, s). [Lab (lbl w ''s'' i), Asciz s]) (enumerate n xs))) \<Longrightarrow> i < length xs \<Longrightarrow>
     A (lbl w ''s'' (n + i)) = pos + int (length (concat (map (\<lambda>s. bytes_of s @ [0]) (take i xs))))" for n
  proof (induction xs arbitrary: n i pos)
    case (Cons x xs)
    show ?case
    proof (cases i)
      case (Suc j)
      have "A (lbl w ''s'' (Suc n + j)) = pos + int (length (bytes_of x @ [0])) + int (length (concat (map (\<lambda>s. bytes_of s @ [0]) (take j xs))))"
        using Cons.prems Suc by (intro Cons.IH) (auto simp: add.assoc)
      then show ?thesis by (simp add: Suc add.commute add.left_commute)
    qed (use Cons.prems in simp)
  qed simp
  from this [of 0] show ?thesis using assms by (simp add: str_dirs_def)
qed

lemma sref_ok:
  assumes "placed A (int (length base)) (str_dirs w F)" "A ''.Lgoc_strtab'' = 0" "i < length F" "nul_free (F ! i)"
    "length (base @ asm A (str_dirs w F)) < 2 ^ 64"
  shows "strref_ok (base @ asm A (str_dirs w F)) (word_of_int (aval A (sref w i))) (F ! i)"
proof -
  let ?pre = "concat (map (\<lambda>s. bytes_of s @ [0 :: byte]) (take i F))"
  have F: "F = take i F @ F ! i # drop (Suc i) F" using assms(3) by (rule id_take_nth_drop)
  have s: "base @ asm A (str_dirs w F) = (base @ ?pre) @ bytes_of (F ! i) @ 0 # concat (map (\<lambda>s. bytes_of s @ [0]) (drop (Suc i) F))"
    using arg_cong [OF F, of "\<lambda>xs. base @ concat (map (\<lambda>s. bytes_of s @ [0]) xs)"] unfolding asm_str_dirs by simp
  have v: "word_of_int (aval A (sref w i)) = (word_of_nat (length (base @ ?pre)) :: u64)"
    using str_label [OF assms(1,3)] assms(2) by (simp add: sref_def)
  have "resolves (base @ asm A (str_dirs w F)) (word_of_nat (length (base @ ?pre))) (F ! i)"
    unfolding resolves_def s by blast
  then show ?thesis using assms(4,5) unfolding v by (intro resolves_strref)
qed

section \<open>Reading a section that continues another\<close>

lemma uvarint_loop_append:
  "snd (uvarint_loop i x s bs) > 0 \<Longrightarrow> uvarint_loop i x s (bs @ cs) = uvarint_loop i x s bs"
  by (induction i x s bs rule: uvarint_loop.induct) auto

lemma rec_split_append: "rec_split b = Some (n, rest) \<Longrightarrow> rec_split (b @ c) = Some (n, rest @ c)"
proof -
  assume a: "rec_split b = Some (n, rest)"
  obtain v k where vk: "Uvarint b = (v, k)" by (cases "Uvarint b")
  with a have k: "k > 0" and nr: "n = v" "rest = drop (nat k) b" "unat n \<le> length rest"
    by (auto simp: rec_split_def r_uleb_def fail_def Let_def split: if_splits)
  have "k \<le> int (length b)" using uvarint_consumed [of 0 0 0 b] vk by (simp add: Uvarint_def)
  moreover have "Uvarint (b @ c) = (v, k)" using uvarint_loop_append [of 0 0 0 b c] vk k by (simp add: Uvarint_def)
  ultimately show ?thesis using k nr by (simp add: rec_split_def r_uleb_def Let_def)
qed

lemma records_cat:
  "records nm step b off acc se = (Inr acc', se') \<Longrightarrow>
   records nm step (b @ c) off acc se = records nm step c (off + word_of_nat (length b)) acc' se'"
proof (induction nm step b off acc se arbitrary: acc' se' rule: records.induct)
  case (1 nm f b off acc se)
  show ?case
  proof (cases "b = []")
    case True
    then show ?thesis using "1.prems" by (simp add: records.simps [of _ _ "[]"])
  next
    case False
    obtain n rest where sp: "rec_split b = Some (n, rest)"
      using "1.prems" False by (subst (asm) records.simps) (auto split: option.splits)
    obtain acc1 r where st: "run_state (f off acc) \<lparr>b_b = take (unat n) rest, b_err = None, s_strErr = se\<rparr> = (Inr acc1, r)" "b_err r = None"
      and rc: "records nm f (drop (unat n) rest) (off + (word_of_nat (length b - length rest) + n)) acc1 (s_strErr r) = (Inr acc', se')"
      using "1.prems" False sp by (subst (asm) records.simps) (auto simp: Let_def split: sum.splits prod.splits option.splits)
    have le: "length rest < length b" "unat n \<le> length rest" using rec_split_shorter [OF sp] sp
      by (auto simp: rec_split_def Let_def split: prod.splits if_splits)
    have hdr: "off + (word_of_nat (length b - length rest) + n) + word_of_nat (length (drop (unat n) rest)) = off + word_of_nat (length b)"
      using le by (simp add: of_nat_diff algebra_simps)
    have IH: "records nm f (drop (unat n) rest @ c) (off + (word_of_nat (length b - length rest) + n)) acc1 (s_strErr r) =
       records nm f c (off + word_of_nat (length b)) acc' se'"
      using "1.IH" [OF False sp refl refl st(1) [symmetric] refl st(2) rc] unfolding hdr .
    have sp': "rec_split (b @ c) = Some (n, rest @ c)" using rec_split_append [OF sp] .
    have "records nm f (b @ c) off acc se = records nm f (drop (unat n) rest @ c) (off + (word_of_nat (length b - length rest) + n)) acc1 (s_strErr r)"
      using False sp' st le by (subst records.simps) (simp add: Let_def)
    with IH show ?thesis by simp
  qed
qed

section \<open>The records of a stack-depth table and of a stack map\<close>

text \<open>The bit for word \<open>k\<close> of a bitmap.\<close>

definition mark_word :: "nat \<Rightarrow> byte list \<Rightarrow> byte list" where
  "mark_word k bs = bs[k div 8 := bs ! (k div 8) OR push_bit (k mod 8) 1]"

definition has_word :: "byte list \<Rightarrow> nat \<Rightarrow> bool" where
  "has_word bs k \<longleftrightarrow> k div 8 < length bs \<and> bit (bs ! (k div 8)) (k mod 8)"

definition bitmap0 :: "int \<Rightarrow> byte list" where
  "bitmap0 n = replicate (nat ((n + 7) div 8)) 0"

lemma length_mark [simp]: "length (mark_word k bs) = length bs"
  by (simp add: mark_word_def)

lemma has_mark: "has_word (mark_word k bs) j \<longleftrightarrow> has_word bs j \<or> j = k \<and> k div 8 < length bs"
proof (cases "j div 8 = k div 8 \<and> k div 8 < length bs")
  case True
  have "j = k \<longleftrightarrow> j mod 8 = k mod 8" using True by (metis div_mult_mod_eq)
  moreover have "bit (push_bit (k mod 8) (1 :: byte)) (j mod 8) \<longleftrightarrow> j mod 8 = k mod 8"
    by (simp add: bit_exp_iff)
  ultimately show ?thesis using True by (auto simp: has_word_def mark_word_def bit_or_iff)
next
  case False
  then show ?thesis by (auto simp: has_word_def mark_word_def nth_list_update)
qed

lemma has_bitmap0 [simp]: "\<not> has_word (bitmap0 n) k"
  by (auto simp: has_word_def bitmap0_def)

lemma length_bitmap0: "0 \<le> n \<Longrightarrow> n < 2 ^ 63 \<Longrightarrow> length (bitmap0 n) = unat ((word_of_int n + 7 :: u64) div 8)"
proof -
  assume n: "0 \<le> n" "n < 2 ^ 63"
  have "unat (word_of_int n + 7 :: u64) = nat (n + 7)" using n by (simp add: unat_plus_if_size word_size nat_add_distrib unsigned_of_int take_bit_eq_mod)
  then show ?thesis using n by (simp add: bitmap0_def unat_div nat_div_distrib)
qed

definition sp_table :: "(string \<Rightarrow> int) \<Rightarrow> char \<Rightarrow> nat \<Rightarrow> string \<Rightarrow> (string \<times> int) list \<Rightarrow> pctable" where
  "sp_table A w i nm rows = \<lparr>pt_Kind = PCSPDelta, pt_Entries = \<lparr>pc_PC = 0, pc_Value = 0\<rparr> #
     map (\<lambda>(l, v). \<lparr>pc_PC = word_of_int (A (lbl w l i) - A nm), pc_Value = word_of_int v\<rparr>) rows\<rparr>"

definition at_dirs :: "char \<Rightarrow> nat \<Rightarrow> string \<Rightarrow> string \<Rightarrow> int \<Rightarrow> dir list" where
  "at_dirs w i nm l v = [Uleb (Diff (lbl w l i) 0 nm 0), Sleb v]"

definition sp_dirs :: "char \<Rightarrow> nat \<Rightarrow> string \<Rightarrow> (string \<times> int) list \<Rightarrow> dir list" where
  "sp_dirs w i nm rows = [Uleb (Num 1), Byte 1, Uleb (Num (int (length rows) + 1)), Uleb (Num 0), Sleb 0] @
     concat (map (\<lambda>(l, v). at_dirs w i nm l v) rows)"

lemma asm_sp_dirs: "asm A (sp_dirs w i nm rows) = enc_pcv [sp_table A w i nm rows]"
proof -
  have "asm A (concat (map (\<lambda>(l, v). at_dirs w i nm l v) rows)) =
     concat (map enc_entry (map (\<lambda>(l, v). \<lparr>pc_PC = word_of_int (A (lbl w l i) - A nm), pc_Value = word_of_int v\<rparr>) rows))"
    by (induction rows) (auto simp: at_dirs_def enc_entry_def)
  moreover have "word_of_int (int (length rows) + 1) = (word_of_nat (Suc (length rows)) :: u64)" by simp
  ultimately show ?thesis by (simp add: sp_dirs_def enc_pcv_def enc_table_def enc_count_def sp_table_def enc_entry_def add.commute)
qed

lemma sp_table_read [simp]: "table_read (sp_table A w i nm rows) = sp_table A w i nm rows"
proof -
  have "foldl (add_row PCSPDelta) es fs = es @ fs" for es fs
    by (induction fs arbitrary: es) (simp_all add: add_row_def lineKind_def)
  then show ?thesis by (simp add: table_read_def sp_table_def add_row_def)
qed

text \<open>A stack map with one safepoint, at the label \<open>r\<close> after the call.\<close>

type_synonym bits = "int \<times> int \<times> byte list \<times> byte list"

definition call_map :: "(string \<Rightarrow> int) \<Rightarrow> char \<Rightarrow> nat \<Rightarrow> string \<Rightarrow> bits \<Rightarrow> gcmap" where
  "call_map A w i nm = (\<lambda>(nargs, nlocals, args, locals). \<lparr>gc_NArgs = word_of_int nargs, gc_NLocals = word_of_int nlocals,
     gc_Safepoints = [\<lparr>sp_PC = word_of_int (A (lbl w ''r'' i) - A nm), sp_Args = args, sp_Locals = locals, sp_Color = []\<rparr>]\<rparr>)"

definition gc_dirs :: "char \<Rightarrow> nat \<Rightarrow> string \<Rightarrow> bits \<Rightarrow> dir list" where
  "gc_dirs w i nm = (\<lambda>(nargs, nlocals, args, locals).
     [Uleb (Num nargs), Uleb (Num nlocals), Uleb (Num 1), Uleb (Diff (lbl w ''r'' i) 0 nm 0)] @
     map (\<lambda>v. Byte (uint v)) args @ map (\<lambda>v. Byte (uint v)) locals @ [Uleb (Num 0)])"

lemma asm_gc_dirs: "asm A (gc_dirs w i nm b) = enc_gc (call_map A w i nm b)"
proof -
  have "asm A (map (\<lambda>v. Byte (uint v)) bs) = bs" for bs by (induction bs) auto
  then show ?thesis by (cases b) (simp add: gc_dirs_def enc_gc_def enc_count_def call_map_def enc_safepoint_def)
qed

definition bits_fit :: "bits \<Rightarrow> bool" where
  "bits_fit = (\<lambda>(nargs, nlocals, args, locals). 0 \<le> nargs \<and> nargs < 2 ^ 63 \<and> 0 \<le> nlocals \<and> nlocals < 2 ^ 63 \<and>
     length args = length (bitmap0 nargs) \<and> length locals = length (bitmap0 nlocals))"

lemma call_map_fits: "bits_fit b \<Longrightarrow> gc_fits (call_map A w i nm b)"
  by (cases b) (simp add: bits_fit_def gc_fits_def call_map_def length_bitmap0)

section \<open>Sections of numbered records\<close>

definition strings_ok :: "(string \<Rightarrow> int) \<Rightarrow> char \<Rightarrow> byte list \<Rightarrow> string list \<Rightarrow> bool" where
  "strings_ok A w strtab F \<longleftrightarrow> (\<forall>i<length F. nul_free (F ! i) \<longrightarrow> strref_ok strtab (word_of_int (aval A (sref w i))) (F ! i))"

lemma strings_ok:
  assumes "placed A (int (length base)) (str_dirs w F)" "A ''.Lgoc_strtab'' = 0" "length (base @ asm A (str_dirs w F)) < 2 ^ 64"
  shows "strings_ok A w (base @ asm A (str_dirs w F)) F"
  unfolding strings_ok_def using sref_ok [OF assms(1,2)] assms(3) by blast

lemma emits_strref:
  assumes "nul_free s"
  shows "emits (ref w s) (\<lambda>F e. strings_ok A w strtab F \<longrightarrow> strref_ok strtab (word_of_int (aval A e)) s)"
  by (rule emits_mono [OF emits_ref]) (use assms in \<open>auto simp: strings_ok_def\<close>)

definition body_reads :: "(u64 \<Rightarrow> 'a \<Rightarrow> (rstate, gerr + 'a) state) \<Rightarrow> (u64 \<Rightarrow> 'a \<Rightarrow> 'x \<Rightarrow> 'a) \<Rightarrow> (string \<Rightarrow> int) \<Rightarrow> dir list \<Rightarrow> 'x \<Rightarrow> bool" where
  "body_reads step collect A b x \<longleftrightarrow> (\<forall>off acc. reads_all (step off acc) (asm A b) (Inr (collect off acc x)))"

lemma list_all2_nth1: "list_all2 P xs ys \<Longrightarrow> y \<in> set ys \<Longrightarrow> \<exists>x\<in>set xs. P x y"
  by (induction rule: list_all2_induct) auto

lemma section_payloads:
  assumes "list_all2 (body_reads step collect A) bs xs" "placed A pos (rec_list w n bs)" "length (asm A (rec_list w n bs)) < 2 ^ 64"
    "ps = zip (map (asm A) bs) xs"
  shows "\<forall>p\<in>set ps. payload_ok step collect p" "asm A (rec_list w n bs) = recs (map fst ps)" "map snd ps = xs"
proof -
  have l: "length bs = length xs" using assms(1) by (rule list_all2_lengthD)
  show r: "asm A (rec_list w n bs) = recs (map fst ps)" "map snd ps = xs" using asm_rec_list [OF assms(2)] l by (simp_all add: assms(4))
  have "payload_ok step collect (asm A (bs ! i), xs ! i)" if "i < length xs" for i
  proof -
    have "length (asm A (bs ! i)) < length (recs (map fst ps))" using that l by (intro length_recs) (auto simp: assms(4))
    moreover have "body_reads step collect A (bs ! i) (xs ! i)" using assms(1) that l by (simp add: list_all2_conv_all_nth)
    ultimately show ?thesis using assms(3) r by (simp add: payload_ok_def body_reads_def)
  qed
  then show "\<forall>p\<in>set ps. payload_ok step collect p" using l by (auto simp: assms(4) set_zip)
qed

lemma section_appends:
  assumes "list_all2 (body_reads step append_item A) bs xs" "placed A pos (rec_list w n bs)" "length (asm A (rec_list w n bs)) < 2 ^ 64"
  shows "records nm step (asm A (rec_list w n bs)) off acc se = (Inr (acc @ xs), se)"
  using section_payloads [OF assms refl] records_append by metis

lemma section_at:
  assumes "list_all2 (body_reads step (put_at g) A) bs xs" "placed A (int m) (rec_list w n bs)" "m + length (asm A (rec_list w n bs)) < 2 ^ 64"
  shows "\<exists>acc'. records nm step (asm A (rec_list w n bs)) (word_of_nat m) acc se = (Inr acc', se) \<and>
    (\<forall>i<length xs. snd acc' (word_of_int (A (lbl w ''q'' (n + i)))) = Some (g (xs ! i)) \<and> (word_of_int (A (lbl w ''q'' (n + i))) + 1 :: u64) \<noteq> 0)"
proof -
  define ps where "ps = zip (map (asm A) bs) xs"
  have "length (asm A (rec_list w n bs)) < 2 ^ 64" using assms(3) by simp
  note p = section_payloads [OF assms(1,2) this ps_def]
  have l: "length bs = length xs" using assms(1) by (rule list_all2_lengthD)
  define acc' where "acc' = sec.collect_all (put_at g) (word_of_nat m) acc ps"
  have rec: "records nm step (asm A (rec_list w n bs)) (word_of_nat m) acc se = (Inr acc', se)"
    using sec.records_all [OF p(1), of nm "word_of_nat m" acc se] by (simp add: p(2) recs_def comp_def acc'_def)
  have "snd acc' (word_of_int (A (lbl w ''q'' (n + i)))) = Some (g (xs ! i)) \<and> (word_of_int (A (lbl w ''q'' (n + i))) + 1 :: u64) \<noteq> 0" if i: "i < length xs" for i
  proof -
    let ?qs = "map (\<lambda>p. (fst p, g (snd p))) ps"
    let ?k = "m + length (recs (map fst (take i ps)))"
    have tk: "map fst (take i ps) = map (asm A) (take i bs)" using l by (simp add: ps_def take_zip take_map)
    have lab: "A (lbl w ''q'' (n + i)) = int ?k" unfolding tk using rec_list_label [OF assms(2)] i l by simp
    have sp: "?qs = take i ?qs @ (fst (ps ! i), g (xs ! i)) # drop (Suc i) ?qs"
      using id_take_nth_drop [of i ?qs] i l by (simp add: ps_def)
    have len: "m + length (recs (map fst ?qs)) < 2 ^ 64" using assms(3) p(2) by (simp add: comp_def)
    have mq: "map fst (take i ?qs) = map fst (take i ps)" by (simp add: take_map)
    have lens: "length (recs (map fst ?qs)) = length (recs (map fst (take i ps))) + length (enc_rec (fst (ps ! i))) + length (recs (map fst (drop (Suc i) ?qs)))"
      by (subst sp) (simp add: mq del: length_0_conv)
    have "snd acc' (word_of_nat ?k) = sec.collect_all put_map (word_of_nat m) (snd acc) ?qs (word_of_nat ?k)" by (simp add: acc'_def collect_put_at_map)
    also have "\<dots> = sec.collect_all put_map (word_of_nat (?k + length (enc_rec (fst (ps ! i)))))
        (put_map (word_of_nat ?k) (sec.collect_all put_map (word_of_nat m) (snd acc) (take i ?qs)) (g (xs ! i))) (drop (Suc i) ?qs) (word_of_nat ?k)"
      by (subst sp, subst collect_app) (simp add: mq add.assoc)
    also have "\<dots> = put_map (word_of_nat ?k) (sec.collect_all put_map (word_of_nat m) (snd acc) (take i ?qs)) (g (xs ! i)) (word_of_nat ?k)"
    proof (rule collect_keeps)
      show "?k + length (enc_rec (fst (ps ! i))) + length (recs (map fst (drop (Suc i) ?qs))) < 2 ^ 64" using len lens by simp
      show "?k < ?k + length (enc_rec (fst (ps ! i)))" by simp
    qed
    finally have "snd acc' (word_of_nat ?k) = Some (g (xs ! i))" by simp
    moreover have "0 < length (enc_rec (fst (ps ! i)))" by simp
    then have "unat (word_of_nat (Suc ?k) :: u64) = Suc ?k" using len lens unfolding unat_of_nat by (intro mod_less) (simp del: length_greater_0_conv)
    then have "word_of_nat (Suc ?k) \<noteq> (0 :: u64)" by (metis nat.distinct(1) unsigned_0)
    ultimately show ?thesis unfolding lab by (simp add: ac_simps)
  qed
  then show ?thesis using rec by blast
qed

end
