(* ===== verification/Wrapper_Tables.thy ===== *)
theory Wrapper_Tables
  imports Table_Asm Thunks_X86 Thunks_A64
begin

text \<open>
  \<open>emitWrapperTables\<close> of \<open>internal/lower/goabi.go\<close>: the \<open>.goc.*\<close> records of the entry thunks. The
  records of a section are numbered consecutively through all sections, one per thunk, so the
  counter \<open>rec\<close> of the source is \<open>k * n + i\<close> in the k-th section.
\<close>

abbreviation gw :: char where "gw \<equiv> CHR ''w''"

section \<open>Thunk frames\<close>

record wthunk =
  th_spills :: "argSpill list"
  th_stackPtrs :: "int list"
  th_area :: int
  th_slots :: "int list"
  th_mask :: u64

definition th_save :: "bool \<Rightarrow> int" where
  "th_save a64 = (if a64 then 32 else 8)"

definition th_restored :: "bool \<Rightarrow> int" where
  "th_restored a64 = (if a64 then 16 else 8)"

text \<open>Bytes below the frame pointer of the outgoing pointer arguments and, on arm64, of the saved \<open>x29\<close>.\<close>

definition ptr_slots :: "bool \<Rightarrow> sigPlan \<Rightarrow> int list" where
  "ptr_slots a64 pl = sort
     (map (\<lambda>off. pl_Outgoing pl - off + (if a64 then th_save a64 - 8 else 0)) (stack_ptrs (sd_Params (pl_SysV pl))) @
      (if a64 then [8] else []))"

definition thunk_of :: "bool \<Rightarrow> goFn \<Rightarrow> string + wthunk" where
  "thunk_of a64 d = (case goArgsLayout (pl_Go (gf_plan d)) of
     Inl e \<Rightarrow> Inl e
   | Inr (spills, stackPtrs, area) \<Rightarrow> Inr \<lparr>th_spills = spills, th_stackPtrs = stackPtrs, th_area = area,
       th_slots = ptr_slots a64 (gf_plan d), th_mask = 0\<rparr>)"

fun mapE :: "('a \<Rightarrow> 'e + 'b) \<Rightarrow> 'a list \<Rightarrow> 'e + 'b list" where
  "mapE f [] = Inr []"
| "mapE f (x # xs) = (case f x of Inl e \<Rightarrow> Inl e | Inr y \<Rightarrow>
     (case mapE f xs of Inl e \<Rightarrow> Inl e | Inr ys \<Rightarrow> Inr (y # ys)))"

section \<open>Record bodies\<close>

abbreviation th_frame :: "bool \<Rightarrow> goFn \<Rightarrow> int" where
  "th_frame a64 d \<equiv> th_save a64 + outArea a64 (pl_Outgoing (gf_plan d))"

definition pcv_body :: "bool \<Rightarrow> nat \<Rightarrow> goFn \<Rightarrow> dir list" where
  "pcv_body a64 i d = (let nm = gf_name d; out = pl_Outgoing (gf_plan d) in
     [Uleb (Num 1), Byte 1, Uleb (Num (if out > 0 then 5 else 4)), Uleb (Num 0), Sleb 0] @
     at_dirs gw i nm ''p'' (th_save a64) @
     (if out > 0 then at_dirs gw i nm ''a'' (th_frame a64 d) else []) @
     at_dirs gw i nm ''m'' (th_restored a64) @ at_dirs gw i nm ''o'' 0)"

text \<open>A negative pointer offset would make the source shift by a negative count, which panics.\<close>

fun arg_bits :: "string \<Rightarrow> int \<Rightarrow> int \<Rightarrow> int list \<Rightarrow> byte list \<Rightarrow> string + byte list" where
  "arg_bits nm area nargs [] bs = Inr bs"
| "arg_bits nm area nargs (o' # os) bs =
     (if o' mod 8 \<noteq> 0 \<or> o' div 8 \<ge> nargs
      then Inl (''goabi: '' @ nm @ '': stack pointer argument +'' @ dec_int o' @ '' outside the '' @ dec_int area @ ''-byte area'')
      else if o' < 0 then Inl ''panic''
      else arg_bits nm area nargs os (mark_word (nat (o' div 8)) bs))"

fun local_bits :: "string \<Rightarrow> int \<Rightarrow> int list \<Rightarrow> byte list \<Rightarrow> string + byte list" where
  "local_bits nm nlocals [] bs = Inr bs"
| "local_bits nm nlocals (o' # os) bs =
     (if o' < 8 \<or> o' mod 8 \<noteq> 0 \<or> o' div 8 > nlocals
      then Inl (''goabi: '' @ nm @ '': outgoing pointer slot BP-'' @ dec_int o' @ '' outside the frame'')
      else local_bits nm nlocals os (mark_word (nat (nlocals - o' div 8)) bs))"

definition gc_bits :: "bool \<Rightarrow> goFn \<Rightarrow> wthunk \<Rightarrow> string + bits" where
  "gc_bits a64 d t = (let nm = gf_name d; out = pl_Outgoing (gf_plan d); area = th_area t in
     if area mod 8 \<noteq> 0 \<or> out mod 8 \<noteq> 0
     then Inl (''goabi: '' @ nm @ '': Go argument area '' @ dec_int area @ '' or outgoing area '' @ dec_int out @ '' is not word aligned'')
     else let nargs = area div 8; nlocals = (if a64 then (outArea a64 out + th_save a64 - 8) div 8 else out div 8) in
       case arg_bits nm area nargs (th_stackPtrs t) (bitmap0 nargs) of
         Inl e \<Rightarrow> Inl e
       | Inr args \<Rightarrow> (case local_bits nm nlocals (th_slots t) (bitmap0 nlocals) of
           Inl e \<Rightarrow> Inl e
         | Inr locals \<Rightarrow> Inr (nargs, nlocals, args, locals)))"

definition func_body :: "bool \<Rightarrow> nat \<Rightarrow> nat \<times> goFn \<times> wthunk \<Rightarrow> (wstrs, dir list) state" where
  "func_body a64 n = (\<lambda>(i, d, t). do { nm \<leftarrow> ref gw (gf_name d); State_Monad.return (
     [Uleb nm, Uleb (Diff (lbl gw ''e'' i) 0 (gf_name d) 0), Uleb (Num (th_frame a64 d)), Uleb (Num (th_area t)),
      Byte 1, Byte 1, Uleb (Num 12), Byte 0, Uleb (Num 0), Uleb (Num 0),
      Uleb (Diff (lbl gw ''q'' i) 0 ''.Lgoc_pcvbase'' 1), Uleb (Diff (lbl gw ''q'' (n + i)) 0 ''.Lgoc_gcbase'' 1), Uleb (Num 0),
      Uleb (Num (uint (th_mask t))), Uleb (Num (int (length (th_slots t))))] @ map (\<lambda>o'. Uleb (Num o')) (th_slots t)) })"

definition spill_dirs :: "char \<Rightarrow> argSpill \<Rightarrow> (wstrs, dir list) state" where
  "spill_dirs w sp = do { r \<leftarrow> ref w (sp_Reg sp);
     State_Monad.return [Uleb r, Uleb (Num (sp_Off sp)), Uleb (Num (sp_Size sp)), Byte (if sp_Ptr sp then 1 else 0)] }"

definition wrapper_body :: "goFn \<times> wthunk \<Rightarrow> (wstrs, dir list) state" where
  "wrapper_body = (\<lambda>(d, t). do { nm \<leftarrow> ref gw (gf_name d); im \<leftarrow> ref gw (gf_impl d);
     sps \<leftarrow> mapM (spill_dirs gw) (th_spills t);
     State_Monad.return ([Uleb nm, Uleb im, Byte 1, Byte 2, Uleb (Num (int (length (th_spills t))))] @ concat sps @
       [Uleb (Num (int (length (th_stackPtrs t))))] @ map (\<lambda>o'. Uleb (Num o')) (th_stackPtrs t)) })"

definition reloc_body :: "bool \<Rightarrow> nat \<times> goFn \<Rightarrow> (wstrs, dir list) state" where
  "reloc_body a64 = (\<lambda>(i, d). do { nm \<leftarrow> ref gw (gf_name d); im \<leftarrow> ref gw (gf_impl d);
     State_Monad.return ([Uleb nm] @
       (if a64 then [Uleb (Diff (lbl gw ''c'' i) 0 (gf_name d) 0), Byte 4, Byte 11, Uleb im, Sleb 0]
        else [Uleb (Diff (lbl gw ''r'' i) 4 (gf_name d) 0), Byte 4, Byte 1, Uleb im, Sleb (- 4)]) @ [Byte 0]) })"

section \<open>emitWrapperTables\<close>

definition wrapper_strings :: "bool \<Rightarrow> (nat \<times> goFn \<times> wthunk) list \<Rightarrow> (wstrs, dir list list \<times> dir list list \<times> dir list list) state" where
  "wrapper_strings a64 its = do {
     fs \<leftarrow> mapM (func_body a64 (length its)) its;
     ws \<leftarrow> mapM (\<lambda>(i, d, t). wrapper_body (d, t)) its;
     rs \<leftarrow> mapM (\<lambda>(i, d, t). reloc_body a64 (i, d)) its;
     State_Monad.return (fs, ws, rs) }"

definition wrapper_sections :: "abiSet \<Rightarrow> goFn list \<Rightarrow> string + (string \<times> dir list) list" where
  "wrapper_sections a goabi = (let a64 = (ab_arch a = ''arm64''); n = length goabi in
     case mapE (thunk_of a64) goabi of
       Inl e \<Rightarrow> Inl e
     | Inr ts \<Rightarrow> (let its = enumerate 0 (zip goabi ts) in
         case mapE (\<lambda>(i, d, t). map_sum id (gc_dirs gw i (gf_name d)) (gc_bits a64 d t)) its of
           Inl e \<Rightarrow> Inl e
         | Inr gcs \<Rightarrow> (let ((fs, ws, rs), strs) = run_state (wrapper_strings a64 its) wstrs0 in
             Inr [(SecPCValue, rec_list gw 0 (map (\<lambda>(i, d, t). pcv_body a64 i d) its)),
                  (SecGCMaps, rec_list gw n gcs), (SecFuncs, rec_list gw (2 * n) fs),
                  (SecWrappers, rec_list gw (3 * n) ws), (SecRelocs, rec_list gw (4 * n) rs),
                  (SecStrtab, str_dirs gw (snd strs))])))"

definition sections_text :: "string \<Rightarrow> (string \<times> dir list) list \<Rightarrow> string" where
  "sections_text comment secs = comment @ concat (map (\<lambda>(s, ds). dtext (Section s) @ concat (map dtext ds)) secs)"

definition emitWrapperTables :: "abiSet \<Rightarrow> goFn list \<Rightarrow> string + string" where
  "emitWrapperTables a goabi =
     map_sum id (sections_text (''# .goc.* records of the Go ABI thunks (lower goabi)'' @ [newline])) (wrapper_sections a goabi)"

section \<open>Stack maps\<close>

text \<open>Every leaf type has a spill size; other spellings of a width, such as \<open>i064\<close>, have none.\<close>

definition typed_plan :: "sigPlan \<Rightarrow> bool" where
  "typed_plan pl \<longleftrightarrow> (\<forall>p\<in>set (sd_Params (pl_Go pl)). fst p \<in> dom spill_sizes)"

lemma arg_bits_ok:
  assumes "\<forall>o'\<in>set os. 0 \<le> o' \<and> 8 dvd o' \<and> o' div 8 < nargs" "length bs = length (bitmap0 nargs)"
  shows "\<exists>bs'. arg_bits nm area nargs os bs = Inr bs' \<and> length bs' = length bs \<and>
    (\<forall>k. has_word bs' k \<longleftrightarrow> has_word bs k \<or> 8 * int k \<in> set os)"
  using assms
proof (induction nm area nargs os bs rule: arg_bits.induct)
  case (2 nm area nargs o' os bs)
  then have o: "0 \<le> o'" "8 dvd o'" "o' div 8 < nargs" by auto
  then have m: "o' mod 8 = 0" by presburger
  have "nat (o' div 8) div 8 < length bs" using o "2.prems"(2) by (simp add: bitmap0_def)
  moreover have "8 * int k = o' \<longleftrightarrow> k = nat (o' div 8)" for k using o by auto
  ultimately show ?case using "2.IH" m o "2.prems" by (auto simp: has_mark)
qed simp

lemma local_bits_ok:
  assumes "\<forall>o'\<in>set os. 8 \<le> o' \<and> 8 dvd o' \<and> o' div 8 \<le> nl" "length bs = length (bitmap0 nl)"
  shows "\<exists>bs'. local_bits nm nl os bs = Inr bs' \<and> length bs' = length bs \<and>
    (\<forall>k. has_word bs' k \<longleftrightarrow> has_word bs k \<or> 8 * (nl - int k) \<in> set os)"
  using assms
proof (induction nm nl os bs rule: local_bits.induct)
  case (2 nm nl o' os bs)
  then have o: "8 \<le> o'" "8 dvd o'" "o' div 8 \<le> nl" by auto
  then have m: "o' mod 8 = 0" by presburger
  have "nat (nl - o' div 8) div 8 < length bs"
    using o "2.prems"(2) by (simp add: bitmap0_def)
  moreover have "8 * (nl - int k) = o' \<longleftrightarrow> k = nat (nl - o' div 8)" for k using o by auto
  ultimately show ?case using "2.IH" m o "2.prems" by (auto simp: has_mark)
qed simp

lemma scalar_ptr: "scalar ''ptr'' = Some i \<Longrightarrow> sc_size i = 8"
  by (auto simp: scalar_def)

lemma stack_ptrs_slots:
  assumes "slots_ok lim (stk_list ps)" "o' \<in> set (stack_ptrs ps)"
  shows "0 \<le> o'" "8 dvd o'" "o' + 8 \<le> lim"
proof -
  have "(''ptr'', o') \<in> set (stk_list ps)" using assms(2) by (auto simp: stack_ptrs_def)
  then show "0 \<le> o'" "8 dvd o'" "o' + 8 \<le> lim" using slots_okD [OF assms(1)] scalar_ptr by fastforce+
qed

lemma plan_slots:
  assumes "analyzeSignature a d = Inr pl"
  shows "slots_ok (sd_StackArgsSize (pl_Go pl)) (stk_list (sd_Params (pl_Go pl)))"
    "slots_ok (pl_Outgoing pl) (stk_list (sd_Params (pl_SysV pl)))" "0 \<le> sd_StackArgsSize (pl_Go pl)"
proof -
  obtain r where r: "assignParams a (lf_Params d) = Inr r" "sd_StackArgsSize (pl_SysV pl) = ar_SysVStackSize r"
      "sd_Params (pl_Go pl) = go_side (ar_Params r)" "sd_Params (pl_SysV pl) = sysv_side (ar_Params r)" "sd_StackArgsSize (pl_Go pl) = ar_GoStackSize r"
    using assms by (auto simp: analyzeSignature_def go_side_def sysv_side_def Let_def split: if_splits sum.splits)
  obtain g c where inv: "assign_inv a (ar_Params r) g c" "ar_GoStackSize r = alignUp (cu_stack g) 8" "ar_SysVStackSize r = cu_stack c"
    using r(1) by (rule assignParams_inv)
  have le: "sd_StackArgsSize (pl_SysV pl) \<le> pl_Outgoing pl" using analyzeSignature_area [OF assms] alignUp_16 by simp
  then show "slots_ok (pl_Outgoing pl) (stk_list (sd_Params (pl_SysV pl)))"
    using inv r by (auto simp: assign_inv_def side_ok_def intro: slots_ok_mono)
  show "slots_ok (sd_StackArgsSize (pl_Go pl)) (stk_list (sd_Params (pl_Go pl)))" "0 \<le> sd_StackArgsSize (pl_Go pl)"
    using inv r alignUp_ge [OF pow8_8, of "cu_stack g"] by (auto simp: assign_inv_def side_ok_def intro: slots_ok_mono)
qed

text \<open>The word of the frame, counted from the stack pointer at the call, that holds a pointer.\<close>

definition frame_ptr :: "bool \<Rightarrow> sigPlan \<Rightarrow> int \<Rightarrow> bool" where
  "frame_ptr a64 pl x \<longleftrightarrow> x - (if a64 then a64LRArea else 0) \<in> set (stack_ptrs (sd_Params (pl_SysV pl))) \<or>
     a64 \<and> x = outArea True (pl_Outgoing pl) + 16"

lemma ptr_slots_ok:
  assumes "analyzeSignature a d = Inr pl" "nl = (outArea a64 (pl_Outgoing pl) + th_save a64 - 8) div 8"
  shows "\<forall>o'\<in>set (ptr_slots a64 pl). 8 \<le> o' \<and> 8 dvd o' \<and> o' div 8 \<le> nl" "8 * (nl - int k) \<in> set (ptr_slots a64 pl) \<longleftrightarrow> frame_ptr a64 pl (8 * int k)"
    "8 * nl = outArea a64 (pl_Outgoing pl) + th_save a64 - 8" "0 \<le> nl"
proof -
  have out: "16 dvd pl_Outgoing pl" "0 \<le> pl_Outgoing pl" using analyzeSignature_area [OF assms(1)] alignUp_16 [of "sd_StackArgsSize (pl_SysV pl)"] by auto
  note sl = stack_ptrs_slots [OF plan_slots(2) [OF assms(1)]]
  have pos: "0 < pl_Outgoing pl" if "o' \<in> set (stack_ptrs (sd_Params (pl_SysV pl)))" for o' using sl [OF that] by simp
  show n: "8 * nl = outArea a64 (pl_Outgoing pl) + th_save a64 - 8" unfolding assms(2) using out by (auto simp: outArea_def th_save_def a64LRArea_def)
  show n0: "0 \<le> nl" using n out by (auto simp: outArea_def th_save_def a64LRArea_def split: if_splits)
  show "\<forall>o'\<in>set (ptr_slots a64 pl). 8 \<le> o' \<and> 8 dvd o' \<and> o' div 8 \<le> nl"
    using out n sl pos by (fastforce simp: ptr_slots_def outArea_def th_save_def a64LRArea_def split: if_splits)
  show "8 * (nl - int k) \<in> set (ptr_slots a64 pl) \<longleftrightarrow> frame_ptr a64 pl (8 * int k)"
  proof -
    have "8 * (nl - int k) = pl_Outgoing pl - o' + (if a64 then th_save a64 - 8 else 0) \<longleftrightarrow> o' = 8 * int k - (if a64 then a64LRArea else 0)"
      if "o' \<in> set (stack_ptrs (sd_Params (pl_SysV pl)))" for o'
      using n pos [OF that] by (auto simp: outArea_def th_save_def a64LRArea_def)
    then have 1: "8 * (nl - int k) \<in> (\<lambda>o'. pl_Outgoing pl - o' + (if a64 then th_save a64 - 8 else 0)) ` set (stack_ptrs (sd_Params (pl_SysV pl))) \<longleftrightarrow>
       8 * int k - (if a64 then a64LRArea else 0) \<in> set (stack_ptrs (sd_Params (pl_SysV pl)))" unfolding image_iff by blast
    have 2: "8 * (nl - int k) = 8 \<longleftrightarrow> 8 * int k = outArea True (pl_Outgoing pl) + 16" if a64 using n that by (auto simp: th_save_def)
    show ?thesis unfolding ptr_slots_def set_sort set_append set_map frame_ptr_def Un_iff 1 using 2 by auto
  qed
qed

lemma thunk_map_ok:
  assumes "analyzeSignature a (gf_fn d) = Inr (gf_plan d)" "typed_plan (gf_plan d)"
  shows "\<exists>t nargs nlocals args locals. thunk_of a64 d = Inr t \<and> gc_bits a64 d t = Inr (nargs, nlocals, args, locals) \<and>
    8 * nargs = th_area t \<and> 8 * nlocals = th_frame a64 d - 8 \<and> length args = length (bitmap0 nargs) \<and> length locals = length (bitmap0 nlocals) \<and> 0 \<le> nargs \<and> 0 \<le> nlocals \<and>
    (\<forall>k. has_word args k \<longleftrightarrow> 8 * int k \<in> set (stack_ptrs (sd_Params (pl_Go (gf_plan d))))) \<and>
    (\<forall>k. has_word locals k \<longleftrightarrow> frame_ptr a64 (gf_plan d) (8 * int k))"
proof -
  let ?pl = "gf_plan d"
  define nl where nl: "nl = (outArea a64 (pl_Outgoing ?pl) + th_save a64 - 8) div 8"
  obtain spills area where l: "goArgsLayout (pl_Go ?pl) = Inr (spills, stack_ptrs (sd_Params (pl_Go ?pl)), area)" "8 dvd area" "sd_StackArgsSize (pl_Go ?pl) \<le> area"
    using goArgsLayout_total [of "pl_Go ?pl"] assms(2) unfolding typed_plan_def by blast
  define t where t: "t = \<lparr>th_spills = spills, th_stackPtrs = stack_ptrs (sd_Params (pl_Go ?pl)), th_area = area, th_slots = ptr_slots a64 ?pl, th_mask = 0\<rparr>"
  have th: "thunk_of a64 d = Inr t" by (simp add: thunk_of_def l t)
  have out: "pl_Outgoing ?pl mod 8 = 0" using analyzeSignature_area(4) [OF assms(1)] alignUp_16(3) [of "sd_StackArgsSize (pl_SysV ?pl)"] by presburger
  have args: "\<forall>o'\<in>set (th_stackPtrs t). 0 \<le> o' \<and> 8 dvd o' \<and> o' div 8 < area div 8"
    using stack_ptrs_slots [OF plan_slots(1) [OF assms(1)]] l by (fastforce simp: t)
  obtain ab where ab: "arg_bits (gf_name d) area (area div 8) (th_stackPtrs t) (bitmap0 (area div 8)) = Inr ab" "length ab = length (bitmap0 (area div 8))"
    "\<And>k. has_word ab k \<longleftrightarrow> 8 * int k \<in> set (th_stackPtrs t)" using arg_bits_ok [OF args refl, of "gf_name d" area] by auto
  note sl = ptr_slots_ok [OF assms(1) nl]
  obtain lb where lb: "local_bits (gf_name d) nl (th_slots t) (bitmap0 nl) = Inr lb" "length lb = length (bitmap0 nl)"
    "\<And>k. has_word lb k \<longleftrightarrow> 8 * (nl - int k) \<in> set (th_slots t)" using local_bits_ok [of "th_slots t" nl "bitmap0 nl" "gf_name d"] sl(1) by (auto simp: t)
  have "nl = (if a64 then (outArea a64 (pl_Outgoing ?pl) + th_save a64 - 8) div 8 else pl_Outgoing ?pl div 8)"
    by (simp add: nl outArea_def th_save_def)
  then have "gc_bits a64 d t = Inr (area div 8, nl, ab, lb)" using l(2) out ab(1) lb(1) by (auto simp: gc_bits_def Let_def t)
  moreover have "8 * (area div 8) = area" "8 * nl = th_frame a64 d - 8" "0 \<le> area div 8" using l(2,3) sl(3) plan_slots(3) [OF assms(1)] by auto
  ultimately show ?thesis using th ab lb sl(2,4) by (auto simp: t)
qed

text \<open>C21: For every accepted signature the tables of the thunk are written without an error, and the stack map
  of its call is exact: bit \<open>k\<close> of the argument map is set exactly when word \<open>k\<close> of the Go argument area is a
  pointer stack argument, and bit \<open>k\<close> of the locals map exactly when the word at \<open>8 k\<close> above the stack pointer at
  the call is an outgoing pointer argument or, on arm64, the saved frame pointer.\<close>
theorem thunk_stack_map:
  assumes "analyzeSignature a (gf_fn d) = Inr (gf_plan d)" "typed_plan (gf_plan d)"
  shows "\<exists>t nargs nlocals args locals. thunk_of a64 d = Inr t \<and> gc_bits a64 d t = Inr (nargs, nlocals, args, locals) \<and>
    8 * nargs = th_area t \<and> 8 * nlocals = th_frame a64 d - 8 \<and> length args = length (bitmap0 nargs) \<and> length locals = length (bitmap0 nlocals) \<and>
    (\<forall>k. has_word args k \<longleftrightarrow> 8 * int k \<in> set (stack_ptrs (sd_Params (pl_Go (gf_plan d))))) \<and>
    (\<forall>k. has_word locals k \<longleftrightarrow> frame_ptr a64 (gf_plan d) (8 * int k))"
  using thunk_map_ok [OF assms] by blast

section \<open>What the records mean\<close>

definition sp_rows :: "bool \<Rightarrow> goFn \<Rightarrow> (string \<times> int) list" where
  "sp_rows a64 d = [(''p'', th_save a64)] @ (if pl_Outgoing (gf_plan d) > 0 then [(''a'', th_frame a64 d)] else []) @
     [(''m'', th_restored a64), (''o'', 0)]"

lemma pcv_body_rows: "pcv_body a64 i d = sp_dirs gw i (gf_name d) (sp_rows a64 d)"
  by (simp add: pcv_body_def sp_dirs_def sp_rows_def Let_def)

definition thunk_func :: "(string \<Rightarrow> int) \<Rightarrow> bool \<Rightarrow> nat \<Rightarrow> nat \<times> goFn \<times> wthunk \<Rightarrow> bits \<Rightarrow> func" where
  "thunk_func A a64 n = (\<lambda>(i, d, t) b. let off = (\<lambda>l. word_of_int (A l)) in
     \<lparr>fn_Name = gf_name d, fn_TextSize = word_of_int (A (lbl gw ''e'' i) - A (gf_name d)), fn_FrameSize = word_of_int (th_frame a64 d),
      fn_ArgSize = word_of_int (th_area t), fn_ABI = ABIInternal, fn_Kind = 1, fn_Flags = 12, fn_FuncID = 0, fn_File = 0, fn_StartLine = 0,
      fn_SysvPtrRegs = th_mask t, fn_SptrSlots = map word_of_int (th_slots t),
      fn_PCValue = Some [sp_table A gw i (gf_name d) (sp_rows a64 d)], fn_Inl = None, fn_GC = Some (call_map A gw i (gf_name d) b),
      fn_pcvOff = off (lbl gw ''q'' i) + 1, fn_gcOff = off (lbl gw ''q'' (n + i)) + 1, fn_inlOff = 0\<rparr>)"

definition thunk_wrapper :: "goFn \<times> wthunk \<Rightarrow> wrapper" where
  "thunk_wrapper = (\<lambda>(d, t). \<lparr>wr_Sym = gf_name d, wr_Target = gf_impl d, wr_FromABI = 1, wr_ToABI = 2,
     wr_ArgSpills = map (\<lambda>s. \<lparr>as_Reg = sp_Reg s, as_Off = word_of_int (sp_Off s), as_Size = word_of_int (sp_Size s), as_Ptr = sp_Ptr s\<rparr>) (th_spills t),
     wr_StackPtrArgs = map word_of_int (th_stackPtrs t)\<rparr>)"

definition thunk_reloc :: "(string \<Rightarrow> int) \<Rightarrow> bool \<Rightarrow> nat \<times> goFn \<Rightarrow> reloc" where
  "thunk_reloc A a64 = (\<lambda>(i, d). \<lparr>rl_Func = gf_name d,
     rl_Offset = word_of_int (if a64 then A (lbl gw ''c'' i) - A (gf_name d) else A (lbl gw ''r'' i) - 4 - A (gf_name d)),
     rl_Width = 4, rl_Kind = (if a64 then 11 else RCall), rl_Target = gf_impl d, rl_Addend = (if a64 then 0 else - 4), rl_Flags = 0\<rparr>)"

lemma nul_free_append [simp]: "nul_free (s @ t) \<longleftrightarrow> nul_free s \<and> nul_free t"
  by (auto simp: nul_free_def)

lemma nul_free_impl: "nul_free (gf_name d) \<Longrightarrow> nul_free (gf_impl d)"
proof -
  have "nul_free ''.impl''" by code_simp
  then show "nul_free (gf_name d) \<Longrightarrow> nul_free (gf_impl d)" by (simp add: gf_impl_def)
qed

lemma asm_nums: "asm A (map (\<lambda>o'. Uleb (Num o')) os) = concat (map enc_uleb (map word_of_int os))"
  by (induction os) auto

lemma emits_func:
  assumes "nul_free (gf_name d)" "length (th_slots t) < 2 ^ 64" "A ''.Lgoc_pcvbase'' = 0" "A ''.Lgoc_gcbase'' = 0"
    "fn_pcvOff (thunk_func A a64 n (i, d, t) b) \<noteq> 0" "fn_gcOff (thunk_func A a64 n (i, d, t) b) \<noteq> 0"
    "pcv (word_of_int (A (lbl gw ''q'' i))) = Some [sp_table A gw i (gf_name d) (sp_rows a64 d)]"
    "gcs (word_of_int (A (lbl gw ''q'' (n + i)))) = Some (call_map A gw i (gf_name d) b)"
  shows "emits (func_body a64 n (i, d, t)) (\<lambda>F bd. strings_ok A gw strtab F \<longrightarrow>
     body_reads (step_func strtab pcv gcs inls) append_item A bd (thunk_func A a64 n (i, d, t) b))"
proof -
  let ?fn = "thunk_func A a64 n (i, d, t) b"
  have rd: "fn_read 4 ?fn (fn_pcvOff ?fn) (fn_gcOff ?fn) 0 = ?fn"
    by (simp add: fn_read_def thunk_func_def Let_def nil_slice_def)
  have "reads_all (step_func strtab pcv gcs inls off acc) (asm A (
     [Uleb nm, Uleb (Diff (lbl gw ''e'' i) 0 (gf_name d) 0), Uleb (Num (th_frame a64 d)), Uleb (Num (th_area t)),
      Byte 1, Byte 1, Uleb (Num 12), Byte 0, Uleb (Num 0), Uleb (Num 0),
      Uleb (Diff (lbl gw ''q'' i) 0 ''.Lgoc_pcvbase'' 1), Uleb (Diff (lbl gw ''q'' (n + i)) 0 ''.Lgoc_gcbase'' 1), Uleb (Num 0),
      Uleb (Num (uint (th_mask t))), Uleb (Num (int (length (th_slots t))))] @ map (\<lambda>o'. Uleb (Num o')) (th_slots t)))
     (Inr (acc @ [?fn]))" if nm: "strref_ok strtab (word_of_int (aval A nm)) (gf_name d)" for nm off acc
  proof -
    have "deref (fn_pcvOff ?fn) pcv = map_option (map table_read) (fn_PCValue ?fn)" "deref (fn_gcOff ?fn) gcs = fn_GC ?fn" "deref 0 inls = fn_Inl ?fn"
      using assms by (simp_all add: deref_def thunk_func_def Let_def)
    from step_func_ok [where minor = 4 and fn = ?fn and strtab = strtab and off = off and acc = acc and o' = "word_of_int (aval A nm)", OF _ _ this]
    have "reads_all (step_func strtab pcv gcs inls off acc)
      (enc_uleb (word_of_int (aval A nm)) @ enc_uleb (fn_TextSize ?fn) @ enc_uleb (fn_FrameSize ?fn) @
       enc_uleb (fn_ArgSize ?fn) @ [fn_ABI ?fn] @ [fn_Kind ?fn] @ enc_uleb (fn_Flags ?fn) @ [fn_FuncID ?fn] @
       enc_uleb (fn_File ?fn) @ enc_uleb (fn_StartLine ?fn) @
       enc_uleb (fn_pcvOff ?fn) @ enc_uleb (fn_gcOff ?fn) @ enc_uleb 0 @ enc_uleb (fn_SysvPtrRegs ?fn) @
       enc_count (fn_SptrSlots ?fn) @ concat (map enc_uleb (fn_SptrSlots ?fn))) (Inr (acc @ [?fn]))"
      using nm assms(2) unfolding rd by (simp add: thunk_func_def Let_def)
    then show ?thesis by (simp add: thunk_func_def Let_def asm_nums enc_count_def assms(3,4) diff_diff_eq)
  qed
  then show ?thesis
    unfolding func_body_def prod.case body_reads_def
    by (intro emits_bind [OF emits_strref [OF assms(1), of gw A strtab]] emits_return) simp
qed

lemma emits_spill:
  assumes "nul_free (sp_Reg s)"
  shows "emits (spill_dirs gw s) (\<lambda>F bd. strings_ok A gw strtab F \<longrightarrow> reads (r_spill strtab) (asm A bd)
    \<lparr>as_Reg = sp_Reg s, as_Off = word_of_int (sp_Off s), as_Size = word_of_int (sp_Size s), as_Ptr = sp_Ptr s\<rparr>)"
proof -
  have "reads (r_spill strtab) (enc_uleb o' @ enc_uleb a @ enc_uleb b @ [if p then 1 else 0]) \<lparr>as_Reg = sp_Reg s, as_Off = a, as_Size = b, as_Ptr = p\<rparr>"
    if "strref_ok strtab o' (sp_Reg s)" for o' a b p
    unfolding r_spill_def
    by (intro reads_bind [OF reads_str [OF that]] reads_bind [OF reads_uleb] reads_bind_return [OF reads_u8]) (simp add: reads_return_eq)
  from this [of _ "word_of_int (sp_Off s)" "word_of_int (sp_Size s)" "sp_Ptr s"] show ?thesis
    unfolding spill_dirs_def
    by (intro emits_bind [OF emits_strref [OF assms, of gw A strtab]] emits_return) (cases "sp_Ptr s"; simp)
qed

lemma emits_reloc:
  assumes "nul_free (gf_name d)"
  shows "emits (reloc_body a64 (i, d)) (\<lambda>F bd. strings_ok A gw strtab F \<longrightarrow>
     body_reads (step_reloc strtab) append_item A bd (thunk_reloc A a64 (i, d)))"
proof -
  let ?r = "thunk_reloc A a64 (i, d)"
  have "reads_all (step_reloc strtab off acc) (asm A ([Uleb nm] @
       (if a64 then [Uleb (Diff (lbl gw ''c'' i) 0 (gf_name d) 0), Byte 4, Byte 11, Uleb im, Sleb 0]
        else [Uleb (Diff (lbl gw ''r'' i) 4 (gf_name d) 0), Byte 4, Byte 1, Uleb im, Sleb (- 4)]) @ [Byte 0])) (Inr (acc @ [?r]))"
    if "strref_ok strtab (word_of_int (aval A nm)) (gf_name d)" "strref_ok strtab (word_of_int (aval A im)) (gf_impl d)" for nm im off acc
    using reads_all [OF step_reloc_ok [of strtab "word_of_int (aval A nm)" ?r "word_of_int (aval A im)" off acc]] that
    by (cases a64) (simp_all add: thunk_reloc_def)
  then show ?thesis
    unfolding reloc_body_def prod.case body_reads_def
    by (intro emits_bind [OF emits_strref [OF assms, of gw A strtab]] emits_bind [OF emits_strref [OF nul_free_impl [OF assms], of gw A strtab]] emits_return) simp
qed

lemma emits_wrapper:
  assumes "nul_free (gf_name d)" "\<forall>s\<in>set (th_spills t). nul_free (sp_Reg s)" "length (th_spills t) < 2 ^ 64" "length (th_stackPtrs t) < 2 ^ 64"
  shows "emits (wrapper_body (d, t)) (\<lambda>F bd. strings_ok A gw strtab F \<longrightarrow>
     body_reads (step_wrapper strtab) append_item A bd (thunk_wrapper (d, t)))"
proof -
  let ?w = "thunk_wrapper (d, t)"
  let ?Q = "\<lambda>F s bd. strings_ok A gw strtab F \<longrightarrow> reads (r_spill strtab) (asm A bd)
    \<lparr>as_Reg = sp_Reg s, as_Off = word_of_int (sp_Off s), as_Size = word_of_int (sp_Size s), as_Ptr = sp_Ptr s\<rparr>"
  have sps: "emits (mapM (spill_dirs gw) (th_spills t)) (\<lambda>F ys. list_all2 (?Q F) (th_spills t) ys)"
    using assms(2) by (intro emits_mapM emits_spill) simp
  have asmc: "asm A (concat ys) = concat (map (asm A) ys)" for ys by (induction ys) auto
  have "reads_all (step_wrapper strtab off acc) (asm A ([Uleb nm, Uleb im, Byte 1, Byte 2, Uleb (Num (int (length (th_spills t))))] @ concat ys @
       [Uleb (Num (int (length (th_stackPtrs t))))] @ map (\<lambda>o'. Uleb (Num o')) (th_stackPtrs t))) (Inr (acc @ [?w]))"
    if "strref_ok strtab (word_of_int (aval A nm)) (gf_name d)" "strref_ok strtab (word_of_int (aval A im)) (gf_impl d)"
      "list_all2 (reads (r_spill strtab)) (map (asm A) ys) (wr_ArgSpills ?w)" for nm im ys off acc
  proof -
    have sp: "reads (r_loop (length (wr_ArgSpills ?w)) (r_spill strtab) []) (concat (map (asm A) ys)) (wr_ArgSpills ?w)"
      using reads_loop [OF that(3), of "[]"] by simp
    have ps: "reads (do { m \<leftarrow> r_uleb; r_loop (unat m) r_uleb [] } :: (rstate, u64 list) state)
        (enc_uleb (word_of_nat (length (wr_StackPtrArgs ?w))) @ concat (map enc_uleb (wr_StackPtrArgs ?w))) (wr_StackPtrArgs ?w)"
      using uleb.counted_enc [of "wr_StackPtrArgs ?w"] assms(4) by (simp add: thunk_wrapper_def)
    have tl: "reads (do { m \<leftarrow> r_uleb; ps \<leftarrow> r_loop (unat m) r_uleb []; State_Monad.return (Inr (acc @ [\<lparr>wr_Sym = gf_name d, wr_Target = gf_impl d,
        wr_FromABI = 1, wr_ToABI = 2, wr_ArgSpills = wr_ArgSpills ?w, wr_StackPtrArgs = ps\<rparr>])) } :: (rstate, gerr + wrapper list) state)
        (enc_uleb (word_of_nat (length (wr_StackPtrArgs ?w))) @ concat (map enc_uleb (wr_StackPtrArgs ?w))) (Inr (acc @ [?w]))"
      using reads_bind_return [OF ps, of "\<lambda>ps. State_Monad.return (Inr (acc @ [\<lparr>wr_Sym = gf_name d, wr_Target = gf_impl d,
        wr_FromABI = 1, wr_ToABI = 2, wr_ArgSpills = wr_ArgSpills ?w, wr_StackPtrArgs = ps\<rparr>]))" "Inr (acc @ [?w])"]
      by (simp add: reads_return_eq) (simp add: thunk_wrapper_def)
    have n: "unat (word_of_nat (length (th_spills t)) :: u64) = length (wr_ArgSpills ?w)" using assms(3) by (simp add: unat_of_nat thunk_wrapper_def)
    have "reads (step_wrapper strtab off acc) (enc_uleb (word_of_int (aval A nm)) @ enc_uleb (word_of_int (aval A im)) @ [1] @ [2] @
       enc_uleb (word_of_nat (length (th_spills t))) @ concat (map (asm A) ys) @
       enc_uleb (word_of_nat (length (wr_StackPtrArgs ?w))) @ concat (map enc_uleb (wr_StackPtrArgs ?w))) (Inr (acc @ [?w]))"
      unfolding step_wrapper_def
      by (intro reads_bind [OF reads_str [OF that(1)]] reads_bind [OF reads_str [OF that(2)]] reads_bind [OF reads_u8] reads_bind [OF reads_uleb]
          reads_bind [OF sp [folded n]] tl)
    then show ?thesis by (intro reads_all) (simp add: asmc asm_nums thunk_wrapper_def)
  qed
  then show ?thesis
    unfolding wrapper_body_def prod.case body_reads_def
    by (intro emits_bind [OF emits_strref [OF assms(1), of gw A strtab]] emits_bind [OF emits_strref [OF nul_free_impl [OF assms(1)], of gw A strtab]]
        emits_bind [OF sps] emits_return) (auto simp: thunk_wrapper_def list.rel_map list_all2_conv_all_nth)
qed


definition names_ok :: "goFn \<Rightarrow> bool" where
  "names_ok d \<longleftrightarrow> nul_free (gf_name d) \<and> (\<forall>r\<in>set (side_regs (sd_Params (pl_Go (gf_plan d)))). nul_free r)"

text \<open>Every size and count of a thunk is below the 64-bit limits of the format.\<close>

definition thunk_fits :: "bool \<Rightarrow> goFn \<Rightarrow> bool" where
  "thunk_fits a64 d \<longleftrightarrow> th_frame a64 d < 2 ^ 63 \<and> (case thunk_of a64 d of Inl _ \<Rightarrow> True
     | Inr t \<Rightarrow> th_area t < 2 ^ 63 \<and> length (th_spills t) < 2 ^ 64 \<and> length (th_slots t) < 2 ^ 64 \<and> length (th_stackPtrs t) < 2 ^ 64)"

lemma spill_loop_regs:
  "spill_loop ps off ss ptrs = Inr (ss', ptrs', off') \<Longrightarrow> sp_Reg ` set ss' \<subseteq> sp_Reg ` set ss \<union> set (side_regs ps)"
proof (induction ps off ss ptrs rule: spill_loop.induct)
  case (3 ty r ps off ss ptrs)
  obtain sz where sz: "spill_sizes ty = Some sz" using "3.prems" by (auto split: option.splits)
  from "3.IH" [OF sz refl] "3.prems" sz show ?case by (simp add: Let_def)
qed auto

lemma thunk_spill_regs: "thunk_of a64 d = Inr t \<Longrightarrow> sp_Reg ` set (th_spills t) \<subseteq> set (side_regs (sd_Params (pl_Go (gf_plan d))))"
  using spill_loop_regs [of _ _ "[]"] by (fastforce simp: thunk_of_def goArgsLayout_def split: sum.splits)

definition thunk_ready :: "abiSet \<Rightarrow> bool \<Rightarrow> goFn \<Rightarrow> bool" where
  "thunk_ready a a64 d \<longleftrightarrow> analyzeSignature a (gf_fn d) = Inr (gf_plan d) \<and> typed_plan (gf_plan d) \<and> names_ok d \<and> thunk_fits a64 d"

lemma mapE_ok: "\<forall>x\<in>set xs. \<exists>y. f x = Inr y \<and> P x y \<Longrightarrow> \<exists>ys. mapE f xs = Inr ys \<and> list_all2 (\<lambda>x y. f x = Inr y \<and> P x y) xs ys"
  by (induction xs) auto

definition made :: "bool \<Rightarrow> nat \<times> goFn \<times> wthunk \<Rightarrow> bits \<Rightarrow> bool" where
  "made a64 = (\<lambda>(i, d, t) b. thunk_of a64 d = Inr t \<and> gc_bits a64 d t = Inr b \<and> bits_fit b \<and> names_ok d \<and> thunk_fits a64 d)"

lemma thunks_made:
  assumes "\<forall>d\<in>set goabi. thunk_ready a a64 d"
  obtains ts bs where "mapE (thunk_of a64) goabi = Inr ts" "list_all2 (made a64) (enumerate 0 (zip goabi ts)) bs"
    "length ts = length goabi" "length bs = length goabi"
proof -
  have one: "\<exists>t. thunk_of a64 d = Inr t \<and> (\<exists>b. gc_bits a64 d t = Inr b \<and> bits_fit b)" if "d \<in> set goabi" for d
  proof -
    have r: "analyzeSignature a (gf_fn d) = Inr (gf_plan d)" "typed_plan (gf_plan d)" "thunk_fits a64 d" using assms that by (auto simp: thunk_ready_def)
    from thunk_map_ok [OF r(1,2), of a64] obtain t nargs nl args locals where t: "thunk_of a64 d = Inr t" "gc_bits a64 d t = Inr (nargs, nl, args, locals)"
      "8 * nargs = th_area t" "8 * nl = th_frame a64 d - 8" "length args = length (bitmap0 nargs)" "length locals = length (bitmap0 nl)" "0 \<le> nargs" "0 \<le> nl" by blast
    moreover have "bits_fit (nargs, nl, args, locals)" using t r(3) by (simp add: bits_fit_def thunk_fits_def)
    ultimately show ?thesis by blast
  qed
  obtain ts where ts: "mapE (thunk_of a64) goabi = Inr ts" "list_all2 (\<lambda>d t. thunk_of a64 d = Inr t \<and> (\<exists>b. gc_bits a64 d t = Inr b \<and> bits_fit b)) goabi ts"
    using mapE_ok [of goabi "thunk_of a64" "\<lambda>d t. \<exists>b. gc_bits a64 d t = Inr b \<and> bits_fit b"] one by blast
  have l: "length ts = length goabi" using list_all2_lengthD [OF ts(2)] by simp
  have "\<exists>b. made a64 (enumerate 0 (zip goabi ts) ! i) b" if "i < length goabi" for i
    using ts(2) that l assms by (fastforce simp: made_def nth_enumerate_eq list_all2_conv_all_nth thunk_ready_def)
  then obtain f where "\<And>i. i < length goabi \<Longrightarrow> made a64 (enumerate 0 (zip goabi ts) ! i) (f i)" by metis
  then have "list_all2 (made a64) (enumerate 0 (zip goabi ts)) (map f [0..<length goabi])" using l by (simp add: list_all2_conv_all_nth)
  then show thesis using that [OF ts(1)] l by simp
qed

lemma list_all2_map2:
  "list_all2 (\<lambda>x y. \<forall>b. (x, b) \<in> set (zip xs bs) \<longrightarrow> P y (g x b)) xs ys \<Longrightarrow> length bs = length xs \<Longrightarrow> list_all2 P ys (map2 g xs bs)"
  unfolding list_all2_conv_all_nth length_map length_zip by (fastforce simp: in_set_zip)

lemma emits_strings:
  assumes "list_all2 (made a64) its bs" "n = length its" "A ''.Lgoc_pcvbase'' = 0" "A ''.Lgoc_gcbase'' = 0"
    "\<And>i d t b. ((i, d, t), b) \<in> set (zip its bs) \<Longrightarrow>
       pcv (word_of_int (A (lbl gw ''q'' i))) = Some [sp_table A gw i (gf_name d) (sp_rows a64 d)] \<and> (word_of_int (A (lbl gw ''q'' i)) + 1 :: u64) \<noteq> 0 \<and>
       gcs (word_of_int (A (lbl gw ''q'' (n + i)))) = Some (call_map A gw i (gf_name d) b) \<and> (word_of_int (A (lbl gw ''q'' (n + i))) + 1 :: u64) \<noteq> 0"
  shows "emits (wrapper_strings a64 its) (\<lambda>F (fs, ws, rs). strings_ok A gw strtab F \<longrightarrow>
     list_all2 (body_reads (step_func strtab pcv gcs inls) append_item A) fs (map2 (thunk_func A a64 n) its bs) \<and>
     list_all2 (body_reads (step_wrapper strtab) append_item A) ws (map (thunk_wrapper \<circ> snd) its) \<and>
     list_all2 (body_reads (step_reloc strtab) append_item A) rs (map (\<lambda>(i, d, t). thunk_reloc A a64 (i, d)) its))"
proof -
  have l: "length bs = length its" using list_all2_lengthD [OF assms(1)] by simp
  have mk: "made a64 x b" if "(x, b) \<in> set (zip its bs)" for x b using assms(1) that by (auto simp: list_all2_iff)
  have mk1: "\<exists>b. (x, b) \<in> set (zip its bs)" if "x \<in> set its" for x using that l by (metis in_set_impl_in_set_zip1)
  have f: "emits (func_body a64 n x) (\<lambda>F y. \<forall>b. (x, b) \<in> set (zip its bs) \<longrightarrow> strings_ok A gw strtab F \<longrightarrow>
      body_reads (step_func strtab pcv gcs inls) append_item A y (thunk_func A a64 n x b))" if "x \<in> set its" for x
  proof -
    obtain i d t where x: "x = (i, d, t)" by (cases x)
    have e: "emits (func_body a64 n x) (\<lambda>F y. strings_ok A gw strtab F \<longrightarrow>
      body_reads (step_func strtab pcv gcs inls) append_item A y (thunk_func A a64 n x b))" if mem: "(x, b) \<in> set (zip its bs)" for b
    proof -
      have m: "nul_free (gf_name d)" "length (th_slots t) < 2 ^ 64" using mk [OF mem] by (auto simp: made_def x names_ok_def thunk_fits_def)
      note q = assms(5) [OF mem [unfolded x]]
      have "fn_pcvOff (thunk_func A a64 n (i, d, t) b) \<noteq> 0" "fn_gcOff (thunk_func A a64 n (i, d, t) b) \<noteq> 0"
        using q by (auto simp: thunk_func_def Let_def)
      from emits_func [OF m assms(3,4) this] q show ?thesis unfolding x by blast
    qed
    show ?thesis using mk1 [OF that] by (intro emits_all e) (auto intro: emits_mono [OF e])
  qed
  have w: "emits (case x of (i, d, t) \<Rightarrow> wrapper_body (d, t)) (\<lambda>F y. strings_ok A gw strtab F \<longrightarrow>
      body_reads (step_wrapper strtab) append_item A y ((thunk_wrapper \<circ> snd) x))" if mem: "x \<in> set its" for x
  proof -
    obtain i d t where x: "x = (i, d, t)" by (cases x)
    obtain b where m: "made a64 (i, d, t) b" using mk1 [OF mem] mk x by blast
    then have th: "thunk_of a64 d = Inr t" "names_ok d" "thunk_fits a64 d" by (auto simp: made_def)
    have "\<forall>s\<in>set (th_spills t). nul_free (sp_Reg s)" using thunk_spill_regs [OF th(1)] th(2) by (auto simp: names_ok_def)
    from emits_wrapper [OF _ this] th show ?thesis by (simp add: x thunk_fits_def names_ok_def)
  qed
  have r: "emits (case x of (i, d, t) \<Rightarrow> reloc_body a64 (i, d)) (\<lambda>F y. strings_ok A gw strtab F \<longrightarrow>
      body_reads (step_reloc strtab) append_item A y (case x of (i, d, t) \<Rightarrow> thunk_reloc A a64 (i, d)))" if mem: "x \<in> set its" for x
  proof -
    obtain i d t where x: "x = (i, d, t)" by (cases x)
    obtain b where m: "made a64 (i, d, t) b" using mk1 [OF mem] mk x by blast
    then show ?thesis using emits_reloc [of d] by (simp add: x made_def names_ok_def)
  qed
  note all = emits_bind [OF emits_mapM [OF f]] emits_bind [OF emits_mapM [OF w]] emits_bind [OF emits_mapM [OF r]]
  show ?thesis
    unfolding wrapper_strings_def assms(2) [symmetric]
  proof (rule all(1), assumption, rule all(2), assumption, rule all(3), assumption, rule emits_return, simp only: prod.case, intro impI conjI)
    fix fs ws rs F
    assume a: "list_all2 (\<lambda>x y. strings_ok A gw strtab F \<longrightarrow> body_reads (step_reloc strtab) append_item A y (case x of (i, d, t) \<Rightarrow> thunk_reloc A a64 (i, d))) its rs"
      "list_all2 (\<lambda>x y. strings_ok A gw strtab F \<longrightarrow> body_reads (step_wrapper strtab) append_item A y ((thunk_wrapper \<circ> snd) x)) its ws"
      "list_all2 (\<lambda>x y. \<forall>b. (x, b) \<in> set (zip its bs) \<longrightarrow> strings_ok A gw strtab F \<longrightarrow>
        body_reads (step_func strtab pcv gcs inls) append_item A y (thunk_func A a64 n x b)) its fs"
      and F: "strings_ok A gw strtab F"
    show "list_all2 (body_reads (step_reloc strtab) append_item A) rs (map (\<lambda>(i, d, t). thunk_reloc A a64 (i, d)) its)"
      using a(1) F by (simp add: list_all2_conv_all_nth)
    show "list_all2 (body_reads (step_wrapper strtab) append_item A) ws (map (thunk_wrapper \<circ> snd) its)"
      using a(2) F by (simp add: list_all2_conv_all_nth)
    show "list_all2 (body_reads (step_func strtab pcv gcs inls) append_item A) fs (map2 (thunk_func A a64 n) its bs)"
      using a(3) F l by (intro list_all2_map2) (simp_all add: list_all2_conv_all_nth)
  qed
qed


text \<open>The sections as \<open>goc-llc\<close>'s text and this text make them: bytes \<open>base nm\<close> in front, every label at its place.\<close>

definition assembled :: "(string \<Rightarrow> int) \<Rightarrow> (string \<Rightarrow> byte list) \<Rightarrow> (string \<times> dir list) list \<Rightarrow> bool" where
  "assembled A base secs \<longleftrightarrow> (\<forall>(nm, ds)\<in>set secs. placed A (int (length (base nm))) ds \<and> length (base nm) + length (asm A ds) < 2 ^ 64) \<and>
     A ''.Lgoc_strtab'' = 0 \<and> A ''.Lgoc_pcvbase'' = 0 \<and> A ''.Lgoc_gcbase'' = 0"

definition sec_asm :: "(string \<Rightarrow> int) \<Rightarrow> (string \<times> dir list) list \<Rightarrow> string \<Rightarrow> byte list" where
  "sec_asm A secs nm = (case map_of secs nm of Some ds \<Rightarrow> asm A ds | None \<Rightarrow> [])"

text \<open>Reading the records of thunks \<open>its\<close> with maps \<open>bs\<close>, whatever was read before.\<close>

definition tables_read :: "(string \<Rightarrow> int) \<Rightarrow> (string \<Rightarrow> byte list) \<Rightarrow> (string \<times> dir list) list \<Rightarrow> bool \<Rightarrow> (nat \<times> goFn \<times> wthunk) list \<Rightarrow> bits list \<Rightarrow> bool" where
  "tables_read A base secs a64 its bs \<longleftrightarrow> (let S = sec_asm A secs; off = (\<lambda>nm. word_of_nat (length (base nm))); strtab = base SecStrtab @ S SecStrtab in
     \<forall>se pacc gacc. \<exists>pcv gcs.
       records SecPCValue step_pcv (S SecPCValue) (off SecPCValue) pacc se = (Inr pcv, se) \<and>
       records SecGCMaps step_gc (S SecGCMaps) (off SecGCMaps) gacc se = (Inr gcs, se) \<and>
       (\<forall>inls o' acc. records SecFuncs (step_func strtab (snd pcv) (snd gcs) inls) (S SecFuncs) o' acc se =
         (Inr (acc @ map2 (thunk_func A a64 (length its)) its bs), se)) \<and>
       (\<forall>o' acc. records SecWrappers (step_wrapper strtab) (S SecWrappers) o' acc se = (Inr (acc @ map (thunk_wrapper \<circ> snd) its), se)) \<and>
       (\<forall>o' acc. records SecRelocs (step_reloc strtab) (S SecRelocs) o' acc se = (Inr (acc @ map (\<lambda>(i, d, t). thunk_reloc A a64 (i, d)) its), se)))"

lemma gc_mapE:
  "list_all2 (made a64) its bs \<Longrightarrow> mapE (\<lambda>(i, d, t). map_sum id (gc_dirs gw i (gf_name d)) (gc_bits a64 d t)) its =
     Inr (map2 (\<lambda>(i, d, t) b. gc_dirs gw i (gf_name d) b) its bs)"
  by (induction rule: list_all2_induct) (auto simp: made_def split: prod.splits)

lemma pcv_reads: "length (asm A (pcv_body a64 i d)) < 2 ^ 64 \<Longrightarrow> body_reads step_pcv (put_at (map table_read)) A (pcv_body a64 i d) [sp_table A gw i (gf_name d) (sp_rows a64 d)]"
  using pcv_ok [of "[sp_table A gw i (gf_name d) (sp_rows a64 d)]"] by (simp add: pcv_body_rows asm_sp_dirs body_reads_def payload_ok_def)

lemma gc_reads: "length (asm A (gc_dirs gw i nm b)) < 2 ^ 64 \<Longrightarrow> bits_fit b \<Longrightarrow> body_reads step_gc (put_at id) A (gc_dirs gw i nm b) (call_map A gw i nm b)"
  using gc_ok [OF _ call_map_fits, of A gw i nm b] by (simp add: asm_gc_dirs body_reads_def payload_ok_def)

lemma rec_list_body: "placed A pos (rec_list w n bs) \<Longrightarrow> b \<in> set bs \<Longrightarrow> length (asm A b) < length (asm A (rec_list w n bs))"
  using asm_rec_list length_recs by fastforce

lemma bodies_read:
  assumes "placed A pos (rec_list w n bs)" "length (asm A (rec_list w n bs)) < 2 ^ 64" "length bs = length xs"
    "\<And>k. k < length bs \<Longrightarrow> length (asm A (bs ! k)) < 2 ^ 64 \<Longrightarrow> body_reads step c A (bs ! k) (xs ! k)"
  shows "list_all2 (body_reads step c A) bs xs"
  unfolding list_all2_conv_all_nth
proof (intro conjI allI impI)
  fix k assume "k < length bs"
  then show "body_reads step c A (bs ! k) (xs ! k)" using rec_list_body [OF assms(1) nth_mem] assms(2) by (intro assms(4)) fastforce+
qed (rule assms(3))

lemma tables_read_made:
  assumes ts: "mapE (thunk_of a64) goabi = Inr ts" and its: "its = enumerate 0 (zip goabi ts)" "length ts = length goabi"
    and mk: "list_all2 (made a64) its bs" and a64: "a64 = (ab_arch a = ''arm64'')"
  shows "\<exists>secs. wrapper_sections a goabi = Inr secs \<and> (\<forall>A base. assembled A base secs \<longrightarrow> tables_read A base secs a64 its bs)"
proof -
  let ?pcvs = "map (\<lambda>(i, d, t). pcv_body a64 i d) its" and ?gcs = "map2 (\<lambda>(i, d, t) b. gc_dirs gw i (gf_name d) b) its bs"
  let ?n = "length goabi"
  have n: "?n = length its" "length bs = length its" using its list_all2_lengthD [OF mk] by simp_all
  have idx: "fst (its ! k) = k" if "k < length its" for k using that unfolding its(1) by (simp add: nth_enumerate_eq)
  obtain fs ws rs strs F where run: "run_state (wrapper_strings a64 its) wstrs0 = ((fs, ws, rs), strs, F)"
    by (cases "run_state (wrapper_strings a64 its) wstrs0") auto
  define secs where "secs = [(SecPCValue, rec_list gw 0 ?pcvs), (SecGCMaps, rec_list gw ?n ?gcs), (SecFuncs, rec_list gw (2 * ?n) fs),
     (SecWrappers, rec_list gw (3 * ?n) ws), (SecRelocs, rec_list gw (4 * ?n) rs), (SecStrtab, str_dirs gw F)]"
  have w: "wrapper_sections a goabi = Inr secs"
    unfolding wrapper_sections_def Let_def a64 [symmetric] ts sum.case its(1) [symmetric] gc_mapE [OF mk] run by (simp add: secs_def)
  have "tables_read A base secs a64 its bs" if as: "assembled A base secs" for A base
  proof -
    have S: "sec_asm A secs SecPCValue = asm A (rec_list gw 0 ?pcvs)" "sec_asm A secs SecGCMaps = asm A (rec_list gw ?n ?gcs)"
      "sec_asm A secs SecFuncs = asm A (rec_list gw (2 * ?n) fs)" "sec_asm A secs SecWrappers = asm A (rec_list gw (3 * ?n) ws)"
      "sec_asm A secs SecRelocs = asm A (rec_list gw (4 * ?n) rs)" "sec_asm A secs SecStrtab = asm A (str_dirs gw F)"
      by (simp_all add: sec_asm_def secs_def)
    have pl: "placed A (int (length (base nm))) ds" "length (base nm) + length (asm A ds) < 2 ^ 64" if "(nm, ds) \<in> set secs" for nm ds
      using as that unfolding assembled_def by blast+
    have mem: "(SecPCValue, rec_list gw 0 ?pcvs) \<in> set secs" "(SecGCMaps, rec_list gw ?n ?gcs) \<in> set secs" "(SecFuncs, rec_list gw (2 * ?n) fs) \<in> set secs"
      "(SecWrappers, rec_list gw (3 * ?n) ws) \<in> set secs" "(SecRelocs, rec_list gw (4 * ?n) rs) \<in> set secs" "(SecStrtab, str_dirs gw F) \<in> set secs"
      by (simp_all add: secs_def)
    have lt: "length (asm A ds) < 2 ^ 64" if "(nm, ds) \<in> set secs" for nm ds using pl(2) [OF that] by simp
    let ?strtab = "base SecStrtab @ asm A (str_dirs gw F)"
    have str: "strings_ok A gw ?strtab F" using pl [OF mem(6)] as by (intro strings_ok) (simp_all add: assembled_def)
    have p: "list_all2 (body_reads step_pcv (put_at (map table_read)) A) ?pcvs (map (\<lambda>(i, d, t). [sp_table A gw i (gf_name d) (sp_rows a64 d)]) its)"
    proof (rule bodies_read [OF pl(1) [OF mem(1)] lt [OF mem(1)]])
      fix k assume k: "k < length ?pcvs" "length (asm A (?pcvs ! k)) < 2 ^ 64"
      then show "body_reads step_pcv (put_at (map table_read)) A (?pcvs ! k) (map (\<lambda>(i, d, t). [sp_table A gw i (gf_name d) (sp_rows a64 d)]) its ! k)"
        by (cases "its ! k") (simp add: pcv_reads)
    qed simp
    have g: "list_all2 (body_reads step_gc (put_at id) A) ?gcs (map2 (\<lambda>(i, d, t) b. call_map A gw i (gf_name d) b) its bs)"
    proof (rule bodies_read [OF pl(1) [OF mem(2)] lt [OF mem(2)]])
      fix k assume k: "k < length ?gcs" "length (asm A (?gcs ! k)) < 2 ^ 64"
      then obtain i d t where x: "its ! k = (i, d, t)" by (cases "its ! k")
      have "bits_fit (bs ! k)" using mk k n x by (auto simp: list_all2_conv_all_nth made_def)
      then show "body_reads step_gc (put_at id) A (?gcs ! k) (map2 (\<lambda>(i, d, t) b. call_map A gw i (gf_name d) b) its bs ! k)"
        using k by (simp add: x gc_reads)
    qed simp
    show ?thesis
      unfolding tables_read_def Let_def S
    proof (intro allI)
      fix se pacc gacc
      let ?ps = "map (\<lambda>(i, d, t). [sp_table A gw i (gf_name d) (sp_rows a64 d)]) its" and ?gs = "map2 (\<lambda>(i, d, t) b. call_map A gw i (gf_name d) b) its bs"
      obtain pcv where pcv: "records SecPCValue step_pcv (asm A (rec_list gw 0 ?pcvs)) (word_of_nat (length (base SecPCValue))) pacc se = (Inr pcv, se)"
        "\<forall>k<length ?ps. snd pcv (word_of_int (A (lbl gw ''q'' (0 + k)))) = Some (map table_read (?ps ! k)) \<and> (word_of_int (A (lbl gw ''q'' (0 + k))) + 1 :: u64) \<noteq> 0"
        using section_at [OF p pl [OF mem(1)], of SecPCValue pacc se] by (elim exE conjE)
      obtain gcs where gcs: "records SecGCMaps step_gc (asm A (rec_list gw ?n ?gcs)) (word_of_nat (length (base SecGCMaps))) gacc se = (Inr gcs, se)"
        "\<forall>k<length ?gs. snd gcs (word_of_int (A (lbl gw ''q'' (?n + k)))) = Some (id (?gs ! k)) \<and> (word_of_int (A (lbl gw ''q'' (?n + k))) + 1 :: u64) \<noteq> 0"
        using section_at [OF g pl [OF mem(2)], of SecGCMaps gacc se] by (elim exE conjE)
      have q: "snd pcv (word_of_int (A (lbl gw ''q'' i))) = Some [sp_table A gw i (gf_name d) (sp_rows a64 d)] \<and> (word_of_int (A (lbl gw ''q'' i)) + 1 :: u64) \<noteq> 0 \<and>
         snd gcs (word_of_int (A (lbl gw ''q'' (?n + i)))) = Some (call_map A gw i (gf_name d) b) \<and> (word_of_int (A (lbl gw ''q'' (?n + i))) + 1 :: u64) \<noteq> 0"
        if "((i, d, t), b) \<in> set (zip its bs)" for i d t b
      proof -
        from that obtain k where k: "k < length its" "its ! k = (i, d, t)" "bs ! k = b" using n by (auto simp: in_set_zip)
        have ik: "i = k" using idx [OF k(1)] k(2) by simp
        show ?thesis using pcv(2) [rule_format, of k] gcs(2) [rule_format, of k] k n(2) by (simp add: ik)
      qed
      have all: "list_all2 (body_reads (step_func ?strtab (snd pcv) (snd gcs) inls) append_item A) fs (map2 (thunk_func A a64 ?n) its bs) \<and>
         list_all2 (body_reads (step_wrapper ?strtab) append_item A) ws (map (thunk_wrapper \<circ> snd) its) \<and>
         list_all2 (body_reads (step_reloc ?strtab) append_item A) rs (map (\<lambda>(i, d, t). thunk_reloc A a64 (i, d)) its)" for inls
      proof -
        have "A ''.Lgoc_pcvbase'' = 0" "A ''.Lgoc_gcbase'' = 0" using as by (simp_all add: assembled_def)
        from emits_run [OF emits_strings [where pcv = "snd pcv" and gcs = "snd gcs" and inls = inls and strtab = ?strtab, OF mk n(1) this] run] q str
        show ?thesis unfolding prod.case by blast
      qed
      note sec = section_appends [OF _ pl(1) [OF mem(3)] lt [OF mem(3)]] section_appends [OF _ pl(1) [OF mem(4)] lt [OF mem(4)]] section_appends [OF _ pl(1) [OF mem(5)] lt [OF mem(5)]]
      show "\<exists>pcv gcs.
       records SecPCValue step_pcv (asm A (rec_list gw 0 ?pcvs)) (word_of_nat (length (base SecPCValue))) pacc se = (Inr pcv, se) \<and>
       records SecGCMaps step_gc (asm A (rec_list gw ?n ?gcs)) (word_of_nat (length (base SecGCMaps))) gacc se = (Inr gcs, se) \<and>
       (\<forall>inls o' acc. records SecFuncs (step_func ?strtab (snd pcv) (snd gcs) inls) (asm A (rec_list gw (2 * ?n) fs)) o' acc se =
         (Inr (acc @ map2 (thunk_func A a64 (length its)) its bs), se)) \<and>
       (\<forall>o' acc. records SecWrappers (step_wrapper ?strtab) (asm A (rec_list gw (3 * ?n) ws)) o' acc se = (Inr (acc @ map (thunk_wrapper \<circ> snd) its), se)) \<and>
       (\<forall>o' acc. records SecRelocs (step_reloc ?strtab) (asm A (rec_list gw (4 * ?n) rs)) o' acc se = (Inr (acc @ map (\<lambda>(i, d, t). thunk_reloc A a64 (i, d)) its), se))"
        unfolding n(1) [symmetric]
        by (intro exI [of _ pcv] exI [of _ gcs] conjI pcv(1) gcs(1) allI sec(1) [OF all [THEN conjunct1]]
            sec(2) [OF all [THEN conjunct2, THEN conjunct1]] sec(3) [OF all [THEN conjunct2, THEN conjunct2]])
    qed
  qed
  then show ?thesis using w by blast
qed

text \<open>C20: For accepted signatures \<open>emitWrapperTables\<close> succeeds. Assembled behind any other records, with every
  label at its place, its text is read by the gocobj reader as exactly the intended tables: for every
  thunk a function with its stack-depth table and stack map attached, its wrapper record with the
  spill slots, and the relocation of its call.\<close>
theorem wrapper_tables_read:
  assumes "\<forall>d\<in>set goabi. thunk_ready a (ab_arch a = ''arm64'') d"
  shows "\<exists>secs ts bs. wrapper_sections a goabi = Inr secs \<and> length bs = length goabi \<and>
    mapE (thunk_of (ab_arch a = ''arm64'')) goabi = Inr ts \<and> list_all2 (\<lambda>(d, t) b. gc_bits (ab_arch a = ''arm64'') d t = Inr b) (zip goabi ts) bs \<and>
    (\<forall>A base. assembled A base secs \<longrightarrow> tables_read A base secs (ab_arch a = ''arm64'') (enumerate 0 (zip goabi ts)) bs)"
proof -
  let ?a64 = "ab_arch a = ''arm64''"
  obtain ts bs where ts: "mapE (thunk_of ?a64) goabi = Inr ts" "list_all2 (made ?a64) (enumerate 0 (zip goabi ts)) bs" "length ts = length goabi" "length bs = length goabi"
    using thunks_made [OF assms] by blast
  obtain secs where "wrapper_sections a goabi = Inr secs" "\<forall>A base. assembled A base secs \<longrightarrow> tables_read A base secs ?a64 (enumerate 0 (zip goabi ts)) bs"
    using tables_read_made [OF ts(1) refl ts(3,2) refl] by blast
  moreover have "list_all2 (\<lambda>(d, t) b. gc_bits ?a64 d t = Inr b) (zip goabi ts) bs"
    using ts(2,3) by (fastforce simp: list_all2_conv_all_nth nth_enumerate_eq made_def)
  ultimately show ?thesis using ts by blast
qed

end
