(* ===== verification/Stack_Depth.thy ===== *)
theory Stack_Depth
  imports Wrapper_Tables Thunks_X86_Correct Thunks_A64_Correct Pcvalue
begin

text \<open>
  The SP_DELTA rows that \<open>emitWrapperTables\<close> writes are true of the code that \<open>emitThunksL\<close> writes: at
  every instruction of a thunk the table gives the distance of the stack pointer from its value on
  entry. The interface \<open>sp_code\<close> says which instructions of a machine move the stack pointer; the
  rows of any code in such a machine are computed from those instructions.
\<close>

section \<open>Rows of code\<close>

locale sp_code =
  fixes step :: "'i \<Rightarrow> 's \<Rightarrow> 's" and sp :: "'s \<Rightarrow> int" and moves_sp :: "'i \<Rightarrow> bool" and size :: "'i \<Rightarrow> nat"
  assumes keeps_sp: "\<not> moves_sp i \<Longrightarrow> sp (step i st) = sp st" and has_size: "moves_sp i \<Longrightarrow> 0 < size i"
begin

definition csize :: "'i list \<Rightarrow> nat" where
  "csize is = sum_list (map size is)"

primrec rows :: "int \<Rightarrow> nat \<Rightarrow> 's \<Rightarrow> 'i list \<Rightarrow> (nat \<times> int) list" where
  "rows e pos st [] = []"
| "rows e pos st (i # is) = (if moves_sp i then [(pos + size i, e - sp (step i st))] else []) @ rows e (pos + size i) (step i st) is"

lemma csize_simps [simp]: "csize [] = 0" "csize (i # is) = size i + csize is" "csize (is @ js) = csize is + csize js"
  by (simp_all add: csize_def)

lemma rows_append: "rows e pos st (is @ js) = rows e pos st is @ rows e (pos + csize is) (fold step is st) js"
  by (induction "is" arbitrary: pos st) (simp_all add: add.assoc)

lemma rows_still: "\<forall>i\<in>set is. \<not> moves_sp i \<Longrightarrow> rows e pos st is = []"
  by (induction "is" arbitrary: pos st) simp_all

lemma sp_still: "\<forall>i\<in>set is. \<not> moves_sp i \<Longrightarrow> sp (fold step is st) = sp st"
  by (induction "is" arbitrary: st) (simp_all add: keeps_sp)

lemma rows_after: "(p, d) \<in> set (rows e pos st is) \<Longrightarrow> pos < p"
proof (induction "is" arbitrary: pos st)
  case (Cons i "is")
  show ?case
  proof (cases "(p, d) \<in> set (rows e (pos + size i) (step i st) is)")
    case True
    then show ?thesis using Cons.IH by fastforce
  next
    case False
    then show ?thesis using Cons.prems has_size [of i] by (auto split: if_splits)
  qed
qed simp

definition row_at :: "int \<Rightarrow> nat \<Rightarrow> (nat \<times> int) list \<Rightarrow> int" where
  "row_at v pc rs = foldl (\<lambda>v (p, d). if p \<le> pc then d else v) v rs"

lemma row_at_later: "\<forall>(p, d)\<in>set rs. pc < p \<Longrightarrow> row_at v pc rs = v"
  by (induction rs arbitrary: v) (auto simp: row_at_def)

lemma rows_depth: "row_at (e - sp st) (pos + csize pre) (rows e pos st (pre @ rest)) = e - sp (fold step pre st)"
proof (induction pre arbitrary: pos st)
  case Nil
  then show ?case using rows_after by (intro row_at_later [THEN trans]) auto
next
  case (Cons i pre)
  have "row_at (e - sp (step i st)) (pos + size i + csize pre) (rows e (pos + size i) (step i st) (pre @ rest)) = e - sp (fold step pre (step i st))"
    by (rule Cons.IH)
  then show ?case using keeps_sp [of i st] by (cases "moves_sp i") (simp_all add: row_at_def add.assoc)
qed

end

section \<open>Labels in code, and the table made of them\<close>

fun text_placed :: "(string \<Rightarrow> int) \<Rightarrow> ('i \<Rightarrow> string option) \<Rightarrow> ('i \<Rightarrow> nat) \<Rightarrow> int \<Rightarrow> 'i list \<Rightarrow> bool" where
  "text_placed A lab sz pos [] \<longleftrightarrow> True"
| "text_placed A lab sz pos (i # is) \<longleftrightarrow> (case lab i of Some l \<Rightarrow> A l = pos | None \<Rightarrow> True) \<and> text_placed A lab sz (pos + int (sz i)) is"

lemma text_placed_append [simp]:
  "text_placed A lab sz pos (is @ js) \<longleftrightarrow> text_placed A lab sz pos is \<and> text_placed A lab sz (pos + int (sum_list (map sz is))) js"
  by (induction "is" arbitrary: pos) (auto simp: add.assoc)

text \<open>A line that ends in a colon defines a label.\<close>

definition line_lab :: "string \<Rightarrow> string option" where
  "line_lab s = (if s \<noteq> [] \<and> last s = CHR '':'' then Some (butlast s) else None)"

lemma line_lab_colon [simp]: "line_lab (s @ '':'') = Some s"
  by (simp add: line_lab_def)

definition row_value :: "(int \<times> int) list \<Rightarrow> int \<Rightarrow> int" where
  "row_value rs pc = foldl (\<lambda>v (p, d). if p \<le> pc then d else v) 0 rs"

lemma sp_table_value:
  assumes "\<forall>(l, v)\<in>set rs. 0 \<le> A (lbl w l i) - A nm \<and> A (lbl w l i) - A nm < 2 ^ 64" "pc < 2 ^ 64"
  shows "val_at (pt_Entries (sp_table A w i nm rs)) (word_of_nat pc) = word_of_int (row_value (map (\<lambda>(l, v). (A (lbl w l i) - A nm, v)) rs) (int pc))"
proof -
  have le: "(word_of_int p :: u64) \<le> word_of_nat pc \<longleftrightarrow> p \<le> int pc" if "0 \<le> p" "p < 2 ^ 64" for p
  proof -
    have "unat (word_of_int p :: u64) = nat p" "unat (word_of_nat pc :: u64) = pc" using that assms(2) by (simp_all add: unsigned_of_int unat_of_nat take_bit_eq_mod)
    then have "word_of_int p \<le> (word_of_nat pc :: u64) \<longleftrightarrow> nat p \<le> pc" by (simp only: word_le_nat_alt)
    then show ?thesis using that(1) by (simp add: nat_le_iff)
  qed
  have "foldl (\<lambda>v e. if pc_PC e \<le> word_of_nat pc then pc_Value e else v) (word_of_int v0)
      (map (\<lambda>(l, v). \<lparr>pc_PC = word_of_int (A (lbl w l i) - A nm), pc_Value = word_of_int v\<rparr>) rs) =
      word_of_int (foldl (\<lambda>v (p, d). if p \<le> int pc then d else v) v0 (map (\<lambda>(l, v). (A (lbl w l i) - A nm, v)) rs))" for v0
    using assms(1)
  proof (induction rs arbitrary: v0)
    case (Cons r rs)
    obtain l v where r: "r = (l, v)" by (cases r)
    have "(word_of_int (A (lbl w l i) - A nm) :: u64) \<le> word_of_nat pc \<longleftrightarrow> A (lbl w l i) - A nm \<le> int pc"
      using Cons.prems r by (intro le) auto
    then show ?case using Cons.IH [of v0] Cons.IH [of v] Cons.prems by (simp add: r)
  qed simp
  from this [of 0] show ?thesis by (simp add: val_at_def sp_table_def row_value_def)
qed

context sp_code
begin

lemma rows_le: "(p, d) \<in> set (rows e pos st is) \<Longrightarrow> p \<le> pos + csize is"
  by (induction "is" arbitrary: pos st) (fastforce split: if_splits)+

lemma row_value_nat: "row_value (map (\<lambda>(p, v). (int p, v)) rs) (int pc) = row_at 0 pc rs"
proof -
  have "foldl (\<lambda>v (p, d). if p \<le> int pc then d else v) v (map (\<lambda>(p, v). (int p, v)) rs) = foldl (\<lambda>v (p, d). if p \<le> pc then d else v) v rs" for v
    by (induction rs arbitrary: v) auto
  then show ?thesis by (simp add: row_value_def row_at_def)
qed

lemma table_depth:
  assumes "map (\<lambda>(p, v). (int p, v)) (rows (sp st) 0 st (pre @ rest)) = map (\<lambda>(l, v). (A (lbl w l i) - A nm, v)) rs" "csize (pre @ rest) < 2 ^ 64"
  shows "val_at (pt_Entries (sp_table A w i nm rs)) (word_of_nat (csize pre)) = word_of_int (sp st - sp (fold step pre st))"
proof -
  have "\<forall>(l, v)\<in>set rs. 0 \<le> A (lbl w l i) - A nm \<and> A (lbl w l i) - A nm < 2 ^ 64"
  proof (intro ballI, clarify)
    fix l v assume "(l, v) \<in> set rs"
    then have "(A (lbl w l i) - A nm, v) \<in> set (map (\<lambda>(p, v). (int p, v)) (rows (sp st) 0 st (pre @ rest)))" unfolding assms(1) by force
    then obtain p where "A (lbl w l i) - A nm = int p" "p \<le> csize (pre @ rest)" using rows_le by fastforce
    then show "0 \<le> A (lbl w l i) - A nm \<and> A (lbl w l i) - A nm < 2 ^ 64" using assms(2) by auto
  qed
  moreover have "csize pre < 2 ^ 64" using assms(2) by simp
  ultimately have "val_at (pt_Entries (sp_table A w i nm rs)) (word_of_nat (csize pre)) = word_of_int (row_at 0 (csize pre) (rows (sp st) 0 st (pre @ rest)))"
    by (simp only: sp_table_value assms(1) [symmetric] row_value_nat)
  then show ?thesis using rows_depth [of "sp st" st 0 pre rest] by simp
qed

end

section \<open>amd64\<close>

fun x_moves_sp :: "xins \<Rightarrow> bool" where
  "x_moves_sp PushBP \<longleftrightarrow> True"
| "x_moves_sp (SubSP n) \<longleftrightarrow> True"
| "x_moves_sp MovSP \<longleftrightarrow> True"
| "x_moves_sp PopBP \<longleftrightarrow> True"
| "x_moves_sp Ret \<longleftrightarrow> True"
| "x_moves_sp _ \<longleftrightarrow> False"

text \<open>Instructions have some positive length; labels and directives have none.\<close>

fun x_size :: "(xins \<Rightarrow> nat) \<Rightarrow> xins \<Rightarrow> nat" where
  "x_size len (Line s) = 0"
| "x_size len i = Suc (len i)"

fun x_lab :: "xins \<Rightarrow> string option" where
  "x_lab (Line s) = line_lab s"
| "x_lab _ = None"

interpretation xd: sp_code exec x_sp x_moves_sp "x_size len" for len
proof
  show "x_sp (exec i st) = x_sp st" if "\<not> x_moves_sp i" for i st
    using that by (cases i) (simp_all add: set_gpr_def set_xmm_def put_mem_def)
  show "0 < x_size len i" if "x_moves_sp i" for i using that by (cases i) simp_all
qed

definition x_plain :: "xins \<Rightarrow> bool" where
  "x_plain i \<longleftrightarrow> \<not> x_moves_sp i \<and> i \<noteq> MovBP"

lemma plain_bp: "\<forall>i\<in>set is. x_plain i \<Longrightarrow> x_bp (run is st) = x_bp st"
proof (induction "is" arbitrary: st)
  case (Cons i "is")
  then show ?case by (cases i) (auto simp: run_def x_plain_def set_gpr_def set_xmm_def put_mem_def)
qed (simp add: run_def)

lemma par_loop_emits: "par_loop tmp emit ms = Some out \<Longrightarrow> \<forall>i\<in>set out. \<exists>x s d. i = emit x s d"
proof (rule par_loop.raw_induct [where P = "\<lambda>tmp emit ms out. \<forall>i\<in>set out. \<exists>x s d. i = emit x s d"])
  fix f tmp emit pending out
  assume "\<And>tmp emit p o'. f tmp emit p = Some o' \<Longrightarrow> \<forall>i\<in>set o'. \<exists>x s d. i = emit x s d"
    and "(case pending of [] \<Rightarrow> Some [] | m0 # _ \<Rightarrow> (case take_ready (map src pending) pending of
             Some (m, rest) \<Rightarrow> Option.bind (f tmp emit rest) (\<lambda>out. Some (emit (att m) (src m) (dst m) # out))
           | None \<Rightarrow> Option.bind (f tmp emit (redirect (src m0) tmp pending)) (\<lambda>out. Some (emit (att m0) (src m0) tmp # out)))) = Some out"
  then show "\<forall>i\<in>set out. \<exists>x s d. i = emit x s d"
    by (fastforce split: list.splits option.splits prod.splits simp: bind_eq_Some_conv)
qed

lemma par_moves_emits: "par_moves tmp emit ms = Some out \<Longrightarrow> \<forall>i\<in>set out. \<exists>x s d. i = emit x s d"
  unfolding par_moves_def by (rule par_loop_emits)

lemma arg_moves_all:
  assumes "arg_moves sa ra im fm args = Some out" "\<And>ty l off i. i \<in> set (sa ty l off) \<Longrightarrow> P i" "\<And>ty off r i. i \<in> set (ra ty off r) \<Longrightarrow> P i"
    "\<And>o'. im args = Some o' \<Longrightarrow> \<forall>i\<in>set o'. P i" "\<And>o'. fm args = Some o' \<Longrightarrow> \<forall>i\<in>set o'. P i"
  shows "\<forall>i\<in>set out. P i"
proof -
  obtain gs xs where g: "im args = Some gs" "fm args = Some xs" and out: "out = stack_code sa args @ gs @ xs @ load_code ra True args @ load_code ra False args"
    using assms(1) by (auto simp: arg_moves_def bind_eq_Some_conv)
  have "P i" if "i \<in> set (stack_code sa args)" for i
    using that assms(2) by (auto simp: stack_code_def split: loc.splits)
  moreover have "P i" if "i \<in> set (load_code ra b args)" for i b
    using that assms(3) by (auto simp: load_code_def split: loc.splits if_splits)
  ultimately show ?thesis using assms(4) [OF g(1)] assms(5) [OF g(2)] unfolding out by auto
qed

lemma x_args_plain: "x_args args = Some out \<Longrightarrow> \<forall>i\<in>set out. x_plain i"
  unfolding x_args_def
  by (rule arg_moves_all)
     (auto simp: emitStackArgument_def emitRegisterArgument_def parallelGPR_def parallelXMM_def x_plain_def Let_def
        split: prod.splits if_splits loc.splits dest!: par_moves_emits)

text \<open>The code of a thunk up to its return instruction, in the pieces that move the stack pointer.\<close>

definition x_out :: "nat \<Rightarrow> int \<Rightarrow> xins list" where
  "x_out i out = (if out > 0 then [SubSP out] @ mark True ''a'' i else [])"

definition x_mid :: "nat \<Rightarrow> goFn \<Rightarrow> xins list \<Rightarrow> xins list" where
  "x_mid i d moves = moves @ mark True ''c'' i @ [Call (gf_impl d)] @ mark True ''r'' i @ map (\<lambda>(s, d). MovQ s d) (pl_ResultMoves (gf_plan d)) @ [Pxor15]"

definition x_body :: "nat \<Rightarrow> goFn \<Rightarrow> xins list \<Rightarrow> xins list" where
  "x_body i d moves = x_header (gf_name d) True @ [PushBP] @ mark True ''p'' i @ [MovBP] @ x_out i (pl_Outgoing (gf_plan d)) @
     x_mid i d moves @ [MovSP] @ mark True ''m'' i @ [PopBP] @ mark True ''o'' i"

lemma x_thunk_body:
  assumes "x_thunk True i d = Some code"
  obtains moves tail where "x_args (plan_args (gf_plan d)) = Some moves" "code = x_body i d moves @ Ret # tail"
  using assms by (auto simp: x_thunk_def x_body_def x_mid_def x_out_def x_prologue_def x_epilogue_def bind_eq_Some_conv)

lemma x_mark_still [simp]: "\<forall>i\<in>set (mark True l n). x_plain i" "run (mark True l n) st = st" "sum_list (map (x_size len) (mark True l n)) = 0"
  "\<forall>i\<in>set (x_header nm True). x_plain i" "run (x_header nm True) st = st" "sum_list (map (x_size len) (x_header nm True)) = 0"
  by (simp_all add: mark_def x_header_def x_plain_def run_def)

lemma x_mid_plain: "x_args args = Some moves \<Longrightarrow> \<forall>i\<in>set (x_mid n d moves). x_plain i"
  using x_args_plain [of args moves] by (auto simp: x_mid_def x_plain_def mark_def)

lemma plain_rows [simp]: "\<forall>i\<in>set is. x_plain i \<Longrightarrow> xd.rows len e pos st is = []"
  by (rule xd.rows_still) (simp add: x_plain_def)

lemma plain_sp: "\<forall>i\<in>set is. x_plain i \<Longrightarrow> x_sp (run is st) = x_sp st"
  unfolding run_def by (rule xd.sp_still) (simp add: x_plain_def)

lemma plain_no_ret: "\<forall>i\<in>set is. x_plain i \<Longrightarrow> Ret \<notin> set is"
  by (auto simp: x_plain_def)

lemma x_body_rows:
  assumes "x_args args = Some moves" "0 \<le> pl_Outgoing (gf_plan d)"
    "text_placed A x_lab (x_size len) p0 (x_body i d moves)"
  shows "A (gf_name d) = p0"
    "map (\<lambda>(p, v). (int p, v)) (xd.rows len (x_sp st) 0 st (x_body i d moves)) = map (\<lambda>(l, v). (A (lbl gw l i) - A (gf_name d), v)) (sp_rows False d)"
proof -
  let ?out = "pl_Outgoing (gf_plan d)"
  have lb: "''.Lgocw_'' @ l @ dec_nat i = lbl gw l i" for l by (simp add: lbl_def)
  have mk: "text_placed A x_lab (x_size len) p (mark True l i) \<longleftrightarrow> A (lbl gw l i) = p" for p l
    using line_lab_colon [of "lbl gw l i"] by (simp add: mark_def lb [symmetric])
  have hd: "text_placed A x_lab (x_size len) p (x_header (gf_name d) True) \<Longrightarrow> A (gf_name d) = p" for p by (simp add: x_header_def)
  note mid = x_mid_plain [OF assms(1), of i d]
  show nm: "A (gf_name d) = p0" using assms(3) by (auto simp: x_body_def dest: hd)
  show "map (\<lambda>(p, v). (int p, v)) (xd.rows len (x_sp st) 0 st (x_body i d moves)) = map (\<lambda>(l, v). (A (lbl gw l i) - A (gf_name d), v)) (sp_rows False d)"
    using assms(3) mid plain_sp [OF mid] plain_bp [OF mid]
    by (cases "?out > 0") (simp_all add: x_body_def x_out_def xd.rows_append xd.csize_def run_def [symmetric] mk nm sp_rows_def th_save_def th_restored_def outArea_def put_mem_def algebra_simps)
qed

text \<open>A prefix of the code that has not returned is a prefix of the body.\<close>

lemma prefix_body:
  assumes "body @ r # tail = pre @ rest" "r \<notin> set pre"
  obtains rest' where "body = pre @ rest'"
  using assms by (auto simp: append_eq_append_conv2 append_eq_Cons_conv Cons_eq_append_conv)

text \<open>C22: The SP_DELTA table written for an amd64 thunk is true at every one of its instructions: at the pc
  after any part of the code, the row in force is the distance of the stack pointer there from its
  value on entry. (A call leaves the stack pointer as it was.)\<close>
theorem thunk_sp_delta:
  assumes "analyzeSignature amd64_abi (gf_fn d) = Inr (gf_plan d)" "x_thunk True i d = Some code"
    "text_placed A x_lab (x_size len) p0 code" "sum_list (map (x_size len) code) < 2 ^ 64"
    "code = pre @ rest" "Ret \<notin> set pre"
  shows "\<exists>t. asm A (pcv_body False i d) = enc_pcv [t] \<and>
    val_at (pt_Entries t) (word_of_nat (sum_list (map (x_size len) pre))) = word_of_int (x_sp st - x_sp (run pre st))"
proof -
  obtain moves tail where mv: "x_args (plan_args (gf_plan d)) = Some moves" "code = x_body i d moves @ Ret # tail"
    using assms(2) by (rule x_thunk_body)
  obtain rest' where body: "x_body i d moves = pre @ rest'"
    using prefix_body [of "x_body i d moves" Ret tail pre rest] mv(2) assms(5,6) by metis
  have out: "0 \<le> pl_Outgoing (gf_plan d)" using analyzeSignature_area [OF assms(1)] alignUp_16 [of "sd_StackArgsSize (pl_SysV (gf_plan d))"] by simp
  have "text_placed A x_lab (x_size len) p0 (x_body i d moves)" using assms(3) by (simp add: mv(2))
  note rows = x_body_rows(2) [OF mv(1) out this, of st]
  have "sum_list (map (x_size len) (x_body i d moves)) < 2 ^ 64" using assms(4) by (simp add: mv(2))
  then have "val_at (pt_Entries (sp_table A gw i (gf_name d) (sp_rows False d))) (word_of_nat (sum_list (map (x_size len) pre))) = word_of_int (x_sp st - x_sp (run pre st))"
    using xd.table_depth [of len st pre rest' A gw i "gf_name d" "sp_rows False d"] rows unfolding body run_def xd.csize_def by blast
  then show ?thesis using pcv_body_rows asm_sp_dirs by metis
qed

section \<open>arm64\<close>

fun a_moves_sp :: "ains \<Rightarrow> bool" where
  "a_moves_sp (ASubSP n) \<longleftrightarrow> True"
| "a_moves_sp AMovSP \<longleftrightarrow> True"
| "a_moves_sp ALdp \<longleftrightarrow> True"
| "a_moves_sp _ \<longleftrightarrow> False"

fun a_size :: "ains \<Rightarrow> nat" where
  "a_size (ALine s) = 0"
| "a_size _ = 4"

fun a_lab :: "ains \<Rightarrow> string option" where
  "a_lab (ALine s) = line_lab s"
| "a_lab _ = None"

interpretation ad: sp_code aexec a_sp a_moves_sp a_size
proof
  show "a_sp (aexec i st) = a_sp st" if "\<not> a_moves_sp i" for i st
    using that by (cases i) (simp_all add: set_x_def set_d_def put_a_def)
  show "0 < a_size i" if "a_moves_sp i" for i using that by (cases i) simp_all
qed

definition a_plain :: "ains \<Rightarrow> bool" where
  "a_plain i \<longleftrightarrow> \<not> a_moves_sp i \<and> i \<noteq> AAddFP \<and> i \<noteq> ARet"

lemma a_plain_fp: "\<forall>i\<in>set is. a_plain i \<Longrightarrow> a_fp (arun is st) = a_fp st"
proof (induction "is" arbitrary: st)
  case (Cons i "is")
  then show ?case by (cases i) (auto simp: arun_def a_plain_def set_x_def set_d_def put_a_def)
qed (simp add: arun_def)

lemma a_args_plain: "a_args args = Some out \<Longrightarrow> \<forall>i\<in>set out. a_plain i"
  unfolding a_args_def
  by (rule arg_moves_all)
     (auto simp: emitArm64StackArgument_def emitArm64RegisterArgument_def parallelArm64GPR_def parallelArm64FPR_def a_plain_def Let_def
        split: prod.splits if_splits loc.splits dest!: par_moves_emits)

definition a_out :: "nat \<Rightarrow> int \<Rightarrow> ains list" where
  "a_out i out = (if out > 0 then [ASubSP (outArea True out)] @ a_mark True ''a'' i @ [AStrLR] else [])"

definition a_mid :: "nat \<Rightarrow> goFn \<Rightarrow> ains list \<Rightarrow> ains list" where
  "a_mid i d moves = moves @ a_mark True ''c'' i @ [ABl (gf_impl d)] @ a_mark True ''r'' i @ map a_result (pl_ResultMoves (gf_plan d))"

definition a_body :: "nat \<Rightarrow> goFn \<Rightarrow> ains list \<Rightarrow> ains list" where
  "a_body i d moves = a_header (gf_name d) True @ [ASubSP 32] @ a_mark True ''p'' i @ [AStp, AAddFP, AStrLR] @ a_out i (pl_Outgoing (gf_plan d)) @
     a_mid i d moves @ [AMovSP] @ a_mark True ''m'' i @ [ALdp] @ a_mark True ''o'' i"

lemma a_thunk_body:
  assumes "a_thunk True i d = Some code"
  obtains moves tail where "a_args (plan_args (gf_plan d)) = Some moves" "code = a_body i d moves @ ARet # tail"
  using assms by (auto simp: a_thunk_def a_body_def a_mid_def a_out_def a_prologue_def a_epilogue_def bind_eq_Some_conv)

lemma a_mark_still [simp]: "\<forall>i\<in>set (a_mark True l n). a_plain i" "arun (a_mark True l n) st = st" "sum_list (map a_size (a_mark True l n)) = 0"
  "\<forall>i\<in>set (a_header nm True). a_plain i" "arun (a_header nm True) st = st" "sum_list (map a_size (a_header nm True)) = 0"
  by (simp_all add: a_mark_def a_header_def a_plain_def arun_def)

lemma a_mid_plain: "a_args args = Some moves \<Longrightarrow> \<forall>i\<in>set (a_mid n d moves). a_plain i"
  using a_args_plain [of args moves] by (auto simp: a_mid_def a_plain_def a_mark_def a_result_def split: if_splits)

lemma a_plain_rows [simp]: "\<forall>i\<in>set is. a_plain i \<Longrightarrow> ad.rows e pos st is = []"
  by (rule ad.rows_still) (simp add: a_plain_def)

lemma a_plain_sp: "\<forall>i\<in>set is. a_plain i \<Longrightarrow> a_sp (arun is st) = a_sp st"
  unfolding arun_def by (rule ad.sp_still) (simp add: a_plain_def)

lemma a_body_rows:
  assumes "a_args args = Some moves" "0 \<le> pl_Outgoing (gf_plan d)"
    "text_placed A a_lab a_size p0 (a_body i d moves)"
  shows "map (\<lambda>(p, v). (int p, v)) (ad.rows (a_sp st) 0 st (a_body i d moves)) = map (\<lambda>(l, v). (A (lbl gw l i) - A (gf_name d), v)) (sp_rows True d)"
proof -
  let ?out = "pl_Outgoing (gf_plan d)"
  have lb: "''.Lgocw_'' @ l @ dec_nat i = lbl gw l i" for l by (simp add: lbl_def)
  have mk: "text_placed A a_lab a_size p (a_mark True l i) \<longleftrightarrow> A (lbl gw l i) = p" for p l
    using line_lab_colon [of "lbl gw l i"] by (simp add: a_mark_def lb [symmetric])
  have hd: "text_placed A a_lab a_size p (a_header (gf_name d) True) \<Longrightarrow> A (gf_name d) = p" for p by (simp add: a_header_def)
  note mid = a_mid_plain [OF assms(1), of i d]
  have nm: "A (gf_name d) = p0" using assms(3) by (auto simp: a_body_def dest: hd)
  show ?thesis
    using assms(3) mid a_plain_sp [OF mid] a_plain_fp [OF mid]
    by (cases "?out > 0") (simp_all add: a_body_def a_out_def ad.rows_append ad.csize_def arun_def [symmetric] mk nm sp_rows_def th_save_def th_restored_def outArea_def a64LRArea_def put_a_def algebra_simps)
qed

text \<open>C23: The SP_DELTA table written for an arm64 thunk is true at every one of its instructions.\<close>
theorem a_thunk_sp_delta:
  assumes "analyzeSignature arm64_abi (gf_fn d) = Inr (gf_plan d)" "a_thunk True i d = Some code"
    "text_placed A a_lab a_size p0 code" "sum_list (map a_size code) < 2 ^ 64" "code = pre @ rest" "ARet \<notin> set pre"
  shows "\<exists>t. asm A (pcv_body True i d) = enc_pcv [t] \<and>
    val_at (pt_Entries t) (word_of_nat (sum_list (map a_size pre))) = word_of_int (a_sp st - a_sp (arun pre st))"
proof -
  obtain moves tail where mv: "a_args (plan_args (gf_plan d)) = Some moves" "code = a_body i d moves @ ARet # tail"
    using assms(2) by (rule a_thunk_body)
  obtain rest' where body: "a_body i d moves = pre @ rest'"
    using prefix_body [of "a_body i d moves" ARet tail pre rest] mv(2) assms(5,6) by metis
  have out: "0 \<le> pl_Outgoing (gf_plan d)" using analyzeSignature_area [OF assms(1)] alignUp_16 [of "sd_StackArgsSize (pl_SysV (gf_plan d))"] by simp
  have "text_placed A a_lab a_size p0 (a_body i d moves)" using assms(3) by (simp add: mv(2))
  note rows = a_body_rows [OF mv(1) out this, of st]
  have "sum_list (map a_size (a_body i d moves)) < 2 ^ 64" using assms(4) by (simp add: mv(2))
  then have "val_at (pt_Entries (sp_table A gw i (gf_name d) (sp_rows True d))) (word_of_nat (sum_list (map a_size pre))) = word_of_int (a_sp st - a_sp (arun pre st))"
    using ad.table_depth [of st pre rest' A gw i "gf_name d" "sp_rows True d"] rows unfolding body arun_def ad.csize_def by blast
  then show ?thesis using pcv_body_rows asm_sp_dirs by metis
qed

section \<open>An example\<close>

definition ptr_func :: llFunc where
  "ptr_func = \<lparr>lf_Name = ''f'', lf_Ret = ''void'', lf_RetAttrs = [], lf_RetABI = [], lf_Params = [''{ ptr, i64, ptr }''],
     lf_ParamAttrs = [[]], lf_ParamABI = [[]], lf_Varargs = False, lf_Internal = False, lf_NonC = False\<rparr>"

definition ptr_fn :: goFn where
  "ptr_fn = \<lparr>gf_fn = ptr_func, gf_plan =
     \<lparr>pl_Go = \<lparr>sd_Params = [(''ptr'', Reg ''rax''), (''i64'', Reg ''rbx''), (''ptr'', Reg ''rcx'')], sd_Results = [], sd_StackArgsSize = 0\<rparr>,
      pl_SysV = \<lparr>sd_Params = [(''ptr'', Stk 0), (''i64'', Stk 8), (''ptr'', Stk 16)], sd_Results = [], sd_StackArgsSize = 24\<rparr>,
      pl_GoSignature = ''func f(struct { F0 unsafe.Pointer; F1 uint64; F2 unsafe.Pointer })'', pl_ResultMoves = [], pl_Outgoing = 32\<rparr>\<rparr>"

lemma ptr_plan: "analyzeSignature amd64_abi (gf_fn ptr_fn) = Inr (gf_plan ptr_fn)"
  by code_simp

lemma ptr_typed: "typed_plan (gf_plan ptr_fn)"
proof -
  have "list_all (\<lambda>p. spill_sizes (fst p) \<noteq> None) (sd_Params (pl_Go (gf_plan ptr_fn)))" by code_simp
  then show ?thesis by (auto simp: list_all_iff typed_plan_def)
qed

theorem thunk_stack_map_witness:
  "\<exists>t nargs nlocals args locals. thunk_of False ptr_fn = Inr t \<and> gc_bits False ptr_fn t = Inr (nargs, nlocals, args, locals) \<and>
     8 * nlocals = 32 \<and> has_word locals 0 \<and> \<not> has_word locals 1 \<and> has_word locals 2 \<and> \<not> has_word args 0"
proof -
  have f: "th_frame False ptr_fn = 40" "frame_ptr False (gf_plan ptr_fn) 0" "\<not> frame_ptr False (gf_plan ptr_fn) 8" "frame_ptr False (gf_plan ptr_fn) 16"
    "stack_ptrs (sd_Params (pl_Go (gf_plan ptr_fn))) = []" by code_simp+
  from thunk_stack_map [OF ptr_plan ptr_typed, of False] obtain t nargs nlocals args locals where
    t: "thunk_of False ptr_fn = Inr t" "gc_bits False ptr_fn t = Inr (nargs, nlocals, args, locals)" "8 * nlocals = th_frame False ptr_fn - 8"
    "\<And>k. has_word args k \<longleftrightarrow> 8 * int k \<in> set (stack_ptrs (sd_Params (pl_Go (gf_plan ptr_fn))))" "\<And>k. has_word locals k \<longleftrightarrow> frame_ptr False (gf_plan ptr_fn) (8 * int k)"
    by blast
  have "8 * nlocals = 32" "has_word locals 0" "\<not> has_word locals 1" "has_word locals 2" "\<not> has_word args 0"
    using t(3) t(4) [of 0] t(5) [of 0] t(5) [of 1] t(5) [of 2] f by simp_all
  then show ?thesis using t(1,2) by blast
qed

text \<open>The labels of its code (every instruction four bytes long) and of its tables.\<close>

definition ptr_secs :: "(string \<times> dir list) list" where
  "ptr_secs = (case wrapper_sections amd64_abi [ptr_fn] of Inr secs \<Rightarrow> secs | Inl _ \<Rightarrow> [])"

definition ptr_labels :: "(string \<times> int) list" where
  "ptr_labels = [(''f'', 0), (''.Lgocw_p0'', 4), (''.Lgocw_a0'', 12), (''.Lgocw_c0'', 24), (''.Lgocw_r0'', 28), (''.Lgocw_m0'', 36),
     (''.Lgocw_o0'', 40), (''.Lgocw_e0'', 44),
     (''.Lgocw_q0'', 0), (''.Lgocw_q0b'', 1), (''.Lgocw_q0e'', 14), (''.Lgocw_q1'', 0), (''.Lgocw_q1b'', 1), (''.Lgocw_q1e'', 8),
     (''.Lgocw_q2'', 0), (''.Lgocw_q2b'', 1), (''.Lgocw_q2e'', 18), (''.Lgocw_q3'', 0), (''.Lgocw_q3b'', 1), (''.Lgocw_q3e'', 19),
     (''.Lgocw_q4'', 0), (''.Lgocw_q4b'', 1), (''.Lgocw_q4e'', 8), (''.Lgocw_s0'', 0), (''.Lgocw_s1'', 2), (''.Lgocw_s2'', 9),
     (''.Lgocw_s3'', 13), (''.Lgocw_s4'', 17)]"

definition lab_fun :: "(string \<times> int) list \<Rightarrow> string \<Rightarrow> int" where
  "lab_fun ls l = (case map_of ls l of Some p \<Rightarrow> p | None \<Rightarrow> 0)"

lemma ptr_assembled: "assembled (lab_fun ptr_labels) (\<lambda>_. []) ptr_secs"
proof -
  have "let A = lab_fun ptr_labels in list_all (\<lambda>(nm, ds). placed A 0 ds \<and> length (asm A ds) < 200) ptr_secs" by code_simp
  then have "\<forall>(nm, ds)\<in>set ptr_secs. placed (lab_fun ptr_labels) 0 ds \<and> length (asm (lab_fun ptr_labels) ds) < 200" unfolding Let_def list_all_iff .
  moreover have "lab_fun ptr_labels ''.Lgoc_strtab'' = 0" "lab_fun ptr_labels ''.Lgoc_pcvbase'' = 0" "lab_fun ptr_labels ''.Lgoc_gcbase'' = 0" by code_simp+
  ultimately show ?thesis unfolding assembled_def by fastforce
qed

lemma ptr_ready: "thunk_ready amd64_abi False ptr_fn"
proof -
  have th: "th_frame False ptr_fn = 40" "case thunk_of False ptr_fn of Inl _ \<Rightarrow> False | Inr t \<Rightarrow> th_area t = 24 \<and> length (th_spills t) = 3 \<and> length (th_slots t) = 2 \<and> th_stackPtrs t = []"
    by code_simp+
  have "names_ok ptr_fn" by code_simp
  moreover have "thunk_fits False ptr_fn" using th by (auto simp: thunk_fits_def split: sum.splits)
  ultimately show ?thesis using ptr_plan ptr_typed by (simp add: thunk_ready_def)
qed

theorem wrapper_tables_read_witness:
  "\<exists>secs ts bs. wrapper_sections amd64_abi [ptr_fn] = Inr secs \<and> assembled (lab_fun ptr_labels) (\<lambda>_. []) secs \<and>
     tables_read (lab_fun ptr_labels) (\<lambda>_. []) secs False (enumerate 0 (zip [ptr_fn] ts)) bs \<and> length bs = 1"
proof -
  have a: "(ab_arch amd64_abi = ''arm64'') = False" by code_simp
  have "\<forall>d\<in>set [ptr_fn]. thunk_ready amd64_abi (ab_arch amd64_abi = ''arm64'') d" unfolding a using ptr_ready by simp
  from wrapper_tables_read [OF this] obtain secs ts bs where w: "wrapper_sections amd64_abi [ptr_fn] = Inr secs" "length bs = length [ptr_fn]"
    "\<forall>A base. assembled A base secs \<longrightarrow> tables_read A base secs False (enumerate 0 (zip [ptr_fn] ts)) bs" unfolding a by blast
  have "ptr_secs = secs" by (simp add: ptr_secs_def w(1))
  then show ?thesis using w ptr_assembled by auto
qed

definition ptr_code :: "xins list" where
  "ptr_code = (case x_thunk True 0 ptr_fn of Some code \<Rightarrow> code | None \<Rightarrow> [])"

theorem thunk_sp_delta_witness:
  "\<exists>t. asm (lab_fun ptr_labels) (pcv_body False 0 ptr_fn) = enc_pcv [t] \<and> val_at (pt_Entries t) (word_of_nat 12) = 40"
proof -
  have c: "x_thunk True 0 ptr_fn = Some ptr_code" 
  proof -
    have "x_thunk True 0 ptr_fn \<noteq> None" by code_simp
    then show ?thesis by (auto simp: ptr_code_def)
  qed
  let ?pre = "take 9 ptr_code"
  have "let A = lab_fun ptr_labels; c = ptr_code in text_placed A x_lab (x_size (\<lambda>_. 3)) 0 c" by code_simp
  then have p: "text_placed (lab_fun ptr_labels) x_lab (x_size (\<lambda>_. 3)) 0 ptr_code" unfolding Let_def .
  have n: "sum_list (map (x_size (\<lambda>_. 3)) ptr_code) < 100" "Ret \<notin> set ?pre" "sum_list (map (x_size (\<lambda>_. 3)) ?pre) = 12"
    "x_sp (example_st) - x_sp (run ?pre example_st) = 40" by code_simp+
  from n(1) have lt: "sum_list (map (x_size (\<lambda>_. 3)) ptr_code) < 2 ^ 64" by simp
  from thunk_sp_delta [OF ptr_plan c p lt append_take_drop_id [symmetric, of ptr_code 9] n(2), of example_st] show ?thesis unfolding n(3,4) by simp
qed

definition a_ptr_fn :: goFn where
  "a_ptr_fn = \<lparr>gf_fn = ptr_func, gf_plan =
     \<lparr>pl_Go = \<lparr>sd_Params = [(''ptr'', Reg ''x0''), (''i64'', Reg ''x1''), (''ptr'', Reg ''x2'')], sd_Results = [], sd_StackArgsSize = 0\<rparr>,
      pl_SysV = \<lparr>sd_Params = [(''ptr'', Stk 0), (''i64'', Stk 8), (''ptr'', Stk 16)], sd_Results = [], sd_StackArgsSize = 24\<rparr>,
      pl_GoSignature = ''func f(struct { F0 unsafe.Pointer; F1 uint64; F2 unsafe.Pointer })'', pl_ResultMoves = [], pl_Outgoing = 32\<rparr>\<rparr>"

definition a_ptr_code :: "ains list" where
  "a_ptr_code = (case a_thunk True 0 a_ptr_fn of Some code \<Rightarrow> code | None \<Rightarrow> [])"

definition a_labels :: "(string \<times> int) list" where
  "a_labels = [(''f'', 0), (''.Lgocw_p0'', 4), (''.Lgocw_a0'', 20), (''.Lgocw_c0'', 36), (''.Lgocw_r0'', 40), (''.Lgocw_m0'', 44),
     (''.Lgocw_o0'', 48), (''.Lgocw_e0'', 52)]"

theorem a_thunk_sp_delta_witness:
  "\<exists>t. asm (lab_fun a_labels) (pcv_body True 0 a_ptr_fn) = enc_pcv [t] \<and> val_at (pt_Entries t) (word_of_nat 20) = 80"
proof -
  have c: "a_thunk True 0 a_ptr_fn = Some a_ptr_code"
  proof -
    have "a_thunk True 0 a_ptr_fn \<noteq> None" by code_simp
    then show ?thesis by (auto simp: a_ptr_code_def)
  qed
  have pl: "analyzeSignature arm64_abi (gf_fn a_ptr_fn) = Inr (gf_plan a_ptr_fn)" by code_simp
  let ?pre = "take 11 a_ptr_code"
  have "let A = lab_fun a_labels; c = a_ptr_code in text_placed A a_lab a_size 0 c" by code_simp
  then have p: "text_placed (lab_fun a_labels) a_lab a_size 0 a_ptr_code" unfolding Let_def .
  have n: "sum_list (map a_size a_ptr_code) < 400" "ARet \<notin> set ?pre" "sum_list (map a_size ?pre) = 20"
    "a_sp a_example_st - a_sp (arun ?pre a_example_st) = 80" by code_simp+
  from n(1) have lt: "sum_list (map a_size a_ptr_code) < 2 ^ 64" by simp
  from a_thunk_sp_delta [OF pl c p lt append_take_drop_id [symmetric, of a_ptr_code 11] n(2), of a_example_st] show ?thesis unfolding n(3,4) by simp
qed

end
