(* ===== verification/Go_Extern.thy ===== *)
theory Go_Extern
  imports Wrapper_Tables "HOL-Library.List_Lexorder" "HOL-Library.Char_ord"
begin

text \<open>
  \<open>internal/lower/go_extern.go\<close>: C functions that are implemented in Go. A stub is called with the C
  ABI, moves the arguments to Go's locations, calls the Go function and moves the results back; its
  \<open>.goc.*\<close> records are written like those of the entry thunks, with the letter \<open>x\<close> in the labels.
  Finding the annotated declarations in the LLVM text uses regular expressions and is not modelled:
  \<open>collectGoExterns\<close> starts from the names with their Go symbols and the parsed declarations.
\<close>

abbreviation (input) gx :: char where "gx \<equiv> CHR ''x''"

section \<open>decodeLLVMCString\<close>

text \<open>The value of a hexadecimal digit, and 0 for any other character.\<close>

definition hex_val :: "char \<Rightarrow> byte" where
  "hex_val c = (let n = of_char c :: nat in
     if 48 \<le> n \<and> n \<le> 57 then word_of_nat (n - 48)
     else if 97 \<le> n \<and> n \<le> 102 then word_of_nat (n - 87)
     else if 65 \<le> n \<and> n \<le> 70 then word_of_nat (n - 55) else 0)"

fun decodeLLVMCString :: "string \<Rightarrow> string" where
  "decodeLLVMCString (c # a # b # s) =
     (if c = CHR 0x5C then
        (let v = push_bit 4 (hex_val a) OR hex_val b in
         (if v \<noteq> 0 then [char_of_byte v] else []) @ decodeLLVMCString s)
      else c # decodeLLVMCString (a # b # s))"
| "decodeLLVMCString (c # s) = c # decodeLLVMCString s"
| "decodeLLVMCString [] = []"

section \<open>Annotated declarations\<close>

record goExtern =
  gx_CName :: string
  gx_GoSym :: string
  gx_Fn :: llFunc
  gx_Plan :: sigPlan
  gx_Spill :: int

datatype extern_result = Extern goExtern | Skipped string | ExternErr string

definition extern_of :: "abiSet \<Rightarrow> (string \<rightharpoonup> llFunc) \<Rightarrow> string \<times> string \<Rightarrow> extern_result" where
  "extern_of a byName = (\<lambda>(cName, goSym). case byName cName of
     None \<Rightarrow> ExternErr (''go_extern: '' @ cName @ '' annotated but not declared'')
   | Some d \<Rightarrow> (case analyzeSignature a d of
       Inl reason \<Rightarrow> Skipped (cName @ '' ('' @ reason @ '')'')
     | Inr plan \<Rightarrow> (case goArgsLayout (pl_Go plan) of
         Inl e \<Rightarrow> ExternErr (''go_extern '' @ cName @ '': '' @ e)
       | Inr (_, _, area) \<Rightarrow> Extern \<lparr>gx_CName = cName, gx_GoSym = goSym, gx_Fn = d, gx_Plan = plan, gx_Spill = (area + 15) AND NOT 15\<rparr>)))"

fun collect_externs :: "abiSet \<Rightarrow> (string \<rightharpoonup> llFunc) \<Rightarrow> (string \<times> string) list \<Rightarrow> string + (goExtern list \<times> string list)" where
  "collect_externs a byName [] = Inr ([], [])"
| "collect_externs a byName (n # ns) = (case extern_of a byName n of
     ExternErr e \<Rightarrow> Inl e
   | Skipped s \<Rightarrow> map_sum id (\<lambda>(xs, ss). (xs, s # ss)) (collect_externs a byName ns)
   | Extern x \<Rightarrow> map_sum id (\<lambda>(xs, ss). (x # xs, ss)) (collect_externs a byName ns))"

text \<open>The annotated names are taken in byte order; of two declarations of one name the later counts.\<close>

definition collectGoExterns :: "(string \<times> string) list \<Rightarrow> llFunc list \<Rightarrow> abiSet \<Rightarrow> string + (goExtern list \<times> string list)" where
  "collectGoExterns m declares a = collect_externs a (map_of (rev (map (\<lambda>d. (lf_Name d, d)) declares))) (sort_key fst m)"

section \<open>Moving the arguments\<close>

definition mustSize :: "string \<Rightarrow> nat" where
  "mustSize ty = (case scalar ty of None \<Rightarrow> 8 | Some i \<Rightarrow> nat (sc_size i))"

text \<open>The arguments of a stub: type, C location, Go location.\<close>

definition extern_args :: "sigPlan \<Rightarrow> arg list" where
  "extern_args pl = map (\<lambda>(ty, g, c). (ty, c, g)) (plan_args pl)"

definition extern_store :: "arg \<Rightarrow> xins list" where
  "extern_store = (\<lambda>(ty, sysvLoc, goLoc). case goLoc of
     Stk dest \<Rightarrow> (case sysvLoc of
         Reg r \<Rightarrow> emitStackArgument ty (Reg r) dest
       | Stk off \<Rightarrow> if fst (scalar_info ty) = Some BFloat
           then (let n = (if ty = ''float'' then 4 else 8) in [LdX n (16 + off) ''xmm15'', StX n ''xmm15'' dest])
           else [LdRaw (mustSize ty) (16 + off), StRaw (mustSize ty) dest])
   | Reg g \<Rightarrow> (case sysvLoc of Stk off \<Rightarrow> emitRegisterArgument ty off g | Reg _ \<Rightarrow> []))"

definition emitSysVToGoMoves :: "sigPlan \<Rightarrow> xins list option" where
  "emitSysVToGoMoves pl = (let args = extern_args pl in
     Option.bind (parallelGPR (filter (\<lambda>m. src m \<noteq> dst m) (bank_moves True (\<lambda>_. ()) args))) (\<lambda>gs.
     Option.bind (parallelXMM (filter (\<lambda>m. src m \<noteq> dst m) (bank_moves False id args))) (\<lambda>xs.
     Some (gs @ xs @ concat (map extern_store args)))))"

section \<open>amd64 stubs\<close>

definition xmark :: "bool \<Rightarrow> string \<Rightarrow> nat \<Rightarrow> xins list" where
  "xmark labels l ti = (if labels then [Line (''.Lgocx_'' @ l @ dec_nat ti @ '':'')] else [])"

definition saved_regs :: "string list" where
  "saved_regs = [''rbx'', ''r12'', ''r13'', ''r14'', ''r15'']"

definition stub_frame :: "int \<Rightarrow> int" where
  "stub_frame spill = (let frame = spill + 40 in if frame mod 16 \<noteq> 0 then (frame + 15) AND NOT 15 else frame)"

definition saves :: "int \<Rightarrow> xins list" where
  "saves off = map (\<lambda>(i, r). Save r (off + 8 * int i)) (enumerate 0 saved_regs)"

definition restores :: "int \<Rightarrow> xins list" where
  "restores off = map (\<lambda>(i, r). Restore (off + 8 * int i) r) (enumerate 0 saved_regs)"

definition stub_pre :: "bool \<Rightarrow> nat \<Rightarrow> goExtern \<Rightarrow> xins list \<Rightarrow> xins list" where
  "stub_pre labels ti x moves = (let frame = stub_frame (gx_Spill x) in
     x_header (lf_Name (gx_Fn x)) labels @ [PushBP] @ xmark labels ''p'' ti @ [MovBP] @
     (if frame > 0 then SubSP frame # xmark labels ''a'' ti else []) @
     saves (gx_Spill x) @ moves @ [LdTLS, Pxor15] @ xmark labels ''c'' ti)"

definition stub_post :: "bool \<Rightarrow> nat \<Rightarrow> goExtern \<Rightarrow> xins list" where
  "stub_post labels ti x = xmark labels ''r'' ti @ map (\<lambda>(s, d). MovQ d s) (pl_ResultMoves (gx_Plan x)) @ restores (gx_Spill x) @
     [MovSP] @ xmark labels ''m'' ti @ [PopBP] @ xmark labels ''o'' ti @ [Ret] @ xmark labels ''e'' ti @
     [Line (tab # ''.size'' @ tab # lf_Name (gx_Fn x) @ '', .-'' @ lf_Name (gx_Fn x))]"

definition x_stub :: "bool \<Rightarrow> nat \<Rightarrow> goExtern \<Rightarrow> xins list option" where
  "x_stub labels ti x = Option.bind (emitSysVToGoMoves (gx_Plan x)) (\<lambda>moves.
     Some (stub_pre labels ti x moves @ [Call (gx_GoSym x @ ''.goabi'')] @ stub_post labels ti x))"

fun x_stubs :: "bool \<Rightarrow> nat \<Rightarrow> goExtern list \<Rightarrow> xins list option" where
  "x_stubs labels ti [] = Some []"
| "x_stubs labels ti (x # xs) = Option.bind (x_stub labels ti x) (\<lambda>t.
     Option.bind (x_stubs labels (ti + 1) xs) (\<lambda>ts. Some (t @ ts)))"

definition arrow :: string where
  "arrow = [CHR 0xE2, CHR 0x86, CHR 0x92]"

section \<open>arm64 stubs\<close>

text \<open>The arm64 stubs only print text.\<close>

definition a_stub :: "bool \<Rightarrow> nat \<Rightarrow> goExtern \<Rightarrow> string list" where
  "a_stub labels ti x = (let nm = lf_Name (gx_Fn x);
       spill = ((if gx_Spill x < 16 then 16 else gx_Spill x) + 15) AND NOT 15;
       lb = (\<lambda>l. if labels then [''.Lgocx_'' @ l @ dec_nat ti @ '':''] else []) in
     (if labels then [tab # ''.section'' @ tab # ''.text.'' @ nm @ '','' @ quote # ''ax'' @ quote # '',%progbits''] else []) @
     [tab # ''.globl'' @ tab # nm, tab # ''.type'' @ tab # nm @ '',%function'', nm @ '':'',
      op2 ''stp'' ''x29'' ''x30, [sp, #-16]!'', op2 ''mov'' ''x29'' ''sp'', op2 ''sub'' ''sp'' (''sp, #'' @ dec_int spill)] @ lb ''a'' @
     [op2 ''mrs'' ''x28'' ''TPIDR_EL0'', op2 ''ldr'' ''x28'' ''[x28, #-8]''] @ lb ''c'' @
     [tab # ''bl'' @ tab # gx_GoSym x @ ''.goabi''] @ lb ''r'' @
     [op2 ''mov'' ''sp'' ''x29'', op2 ''ldp'' ''x29'' ''x30, [sp], #16'', tab # ''ret''] @ lb ''e'' @
     [tab # ''.size'' @ tab # nm @ '', .-'' @ nm])"

definition emitGoExternStubsA64 :: "goExtern list \<Rightarrow> bool \<Rightarrow> string" where
  "emitGoExternStubsA64 xs labels = join [CHR 0x0A] ([''# C '' @ arrow @ '' Go stubs (__go_extern) arm64 '' @ em_dash @ '' generated'', tab # ''.text''] @
     concat (map (\<lambda>(ti, x). a_stub labels ti x) (enumerate 0 xs)) @ [[]])"

text \<open>The amd64 emitter overwrites \<open>Spill\<close> with the frame size, which the tables then use.\<close>

definition emitGoExternStubs :: "abiSet \<Rightarrow> goExtern list \<Rightarrow> bool \<Rightarrow> (string \<times> goExtern list) option" where
  "emitGoExternStubs a xs labels =
     (if ab_arch a = ''arm64'' then Some (emitGoExternStubsA64 xs labels, xs)
      else Option.bind (x_stubs labels 0 xs) (\<lambda>body. Some
        (join [CHR 0x0A] ([''# C '' @ arrow @ '' Go ABIInternal stubs (__go_extern) '' @ em_dash @ '' generated'', tab # ''.text''] @ map xtext body @ [[]]),
         map (\<lambda>x. x\<lparr>gx_Spill := stub_frame (gx_Spill x)\<rparr>) xs)))"

section \<open>Tables\<close>

record xinfo =
  xi_spills :: "argSpill list"
  xi_area :: int

definition info_of :: "goExtern \<Rightarrow> string + xinfo" where
  "info_of x = map_sum id (\<lambda>(spills, _, area). \<lparr>xi_spills = spills, xi_area = area\<rparr>) (goArgsLayout (pl_Go (gx_Plan x)))"

definition x_pcv_body :: "nat \<Rightarrow> goExtern \<Rightarrow> dir list" where
  "x_pcv_body i x = (let nm = gx_CName x in
     [Uleb (Num 1), Byte 1, Uleb (Num (if gx_Spill x > 0 then 5 else 4)), Uleb (Num 0), Sleb 0] @ at_dirs gx i nm ''p'' 8 @
     (if gx_Spill x > 0 then at_dirs gx i nm ''a'' (8 + gx_Spill x) else []) @ at_dirs gx i nm ''m'' 8 @ at_dirs gx i nm ''o'' 0)"

text \<open>The pointer spill slots that lie in the area, then the pointer stack arguments. A negative
  offset would make the source shift by a negative count, which panics.\<close>

definition spill_bits :: "int \<Rightarrow> argSpill list \<Rightarrow> byte list \<Rightarrow> byte list" where
  "spill_bits nargs spills bs = foldl (\<lambda>bs sp. let o' = sp_Off sp - 8 in
     if \<not> sp_Ptr sp \<or> o' < 0 \<or> o' mod 8 \<noteq> 0 \<or> o' div 8 \<ge> nargs then bs else mark_word (nat (o' div 8)) bs) bs spills"

fun stack_bits :: "int \<Rightarrow> int list \<Rightarrow> byte list \<Rightarrow> string + byte list" where
  "stack_bits nargs [] bs = Inr bs"
| "stack_bits nargs (o' # os) bs =
     (if o' mod 8 = 0 \<and> o' div 8 < nargs then if o' < 0 then Inl ''panic'' else stack_bits nargs os (mark_word (nat (o' div 8)) bs)
      else stack_bits nargs os bs)"

definition x_gc_bits :: "goExtern \<Rightarrow> xinfo \<Rightarrow> string + bits" where
  "x_gc_bits x t = (let nargs = xi_area t div 8; nlocals = gx_Spill x div 8 in
     if xi_area t mod 8 \<noteq> 0 then Inl (''go_extern: '' @ gx_CName x @ '': Go argument area '' @ dec_int (xi_area t) @ '' not word aligned'')
     else map_sum id (\<lambda>args. (nargs, nlocals, args, bitmap0 nlocals))
       (stack_bits nargs (stack_ptrs (sd_Params (pl_Go (gx_Plan x)))) (spill_bits nargs (xi_spills t) (bitmap0 nargs))))"

definition x_func_body :: "nat \<Rightarrow> nat \<times> goExtern \<times> xinfo \<Rightarrow> (wstrs, dir list) state" where
  "x_func_body n = (\<lambda>(i, x, t). do { nm \<leftarrow> ref gx (gx_CName x); State_Monad.return
     [Uleb nm, Uleb (Diff (lbl gx ''e'' i) 0 (gx_CName x) 0), Uleb (Num (8 + gx_Spill x)), Uleb (Num (xi_area t)),
      Byte 0, Byte 1, Uleb (Num 12), Byte 0, Uleb (Num 0), Uleb (Num 0),
      Uleb (Diff (lbl gx ''q'' i) 0 ''.Lgoc_pcvbase'' 1), Uleb (Diff (lbl gx ''q'' (n + i)) 0 ''.Lgoc_gcbase'' 1), Uleb (Num 0),
      Uleb (Num 0), Uleb (Num 0)] })"

definition x_wrapper_body :: "goExtern \<times> xinfo \<Rightarrow> (wstrs, dir list) state" where
  "x_wrapper_body = (\<lambda>(x, t). do { nm \<leftarrow> ref gx (gx_CName x); tg \<leftarrow> ref gx (gx_GoSym x @ ''.goabi'');
     sps \<leftarrow> mapM (spill_dirs gx) (xi_spills t);
     State_Monad.return ([Uleb nm, Uleb tg, Byte 2, Byte 1, Uleb (Num (int (length (xi_spills t))))] @ concat sps @ [Uleb (Num 0)]) })"

definition x_reloc_body :: "nat \<times> goExtern \<Rightarrow> (wstrs, dir list) state" where
  "x_reloc_body = (\<lambda>(i, x). do { nm \<leftarrow> ref gx (gx_CName x); tg \<leftarrow> ref gx (gx_GoSym x @ ''.goabi'');
     State_Monad.return [Uleb nm, Uleb (Diff (lbl gx ''r'' i) 4 (gx_CName x) 0), Byte 4, Byte 1, Uleb tg, Sleb (- 4), Byte 0] })"

definition extern_strings :: "(nat \<times> goExtern \<times> xinfo) list \<Rightarrow> (wstrs, dir list list \<times> dir list list \<times> dir list list) state" where
  "extern_strings its = do {
     fs \<leftarrow> mapM (x_func_body (length its)) its;
     ws \<leftarrow> mapM (\<lambda>(i, x, t). x_wrapper_body (x, t)) its;
     rs \<leftarrow> mapM (\<lambda>(i, x, t). x_reloc_body (i, x)) its;
     State_Monad.return (fs, ws, rs) }"

definition extern_sections :: "goExtern list \<Rightarrow> string + (string \<times> dir list) list" where
  "extern_sections xs = (let n = length xs in
     case mapE info_of xs of
       Inl e \<Rightarrow> Inl e
     | Inr ts \<Rightarrow> (let its = enumerate 0 (zip xs ts) in
         case mapE (\<lambda>(i, x, t). map_sum id (gc_dirs gx i (gx_CName x)) (x_gc_bits x t)) its of
           Inl e \<Rightarrow> Inl e
         | Inr gcs \<Rightarrow> (let ((fs, ws, rs), strs) = run_state (extern_strings its) wstrs0 in
             Inr [(SecPCValue, rec_list gx 0 (map (\<lambda>(i, x, t). x_pcv_body i x) its)),
                  (SecGCMaps, rec_list gx n gcs), (SecFuncs, rec_list gx (2 * n) fs),
                  (SecWrappers, rec_list gx (3 * n) ws), (SecRelocs, rec_list gx (4 * n) rs),
                  (SecStrtab, str_dirs gx (snd strs))])))"

definition emitGoExternTablesA64 :: "goExtern list \<Rightarrow> string" where
  "emitGoExternTablesA64 xs = ''# go_extern arm64: tables deferred (QJS host is amd64)'' @ [newline]"

definition emitGoExternTables :: "abiSet \<Rightarrow> goExtern list \<Rightarrow> string + string" where
  "emitGoExternTables a xs =
     (if xs = [] then Inr []
      else if ab_arch a = ''arm64'' then Inr (emitGoExternTablesA64 xs)
      else map_sum id (sections_text (''# .goc.* records of the C '' @ arrow @ '' Go stubs (lower go_extern)'' @ [newline])) (extern_sections xs))"

end
