(* ===== verification/Go_Extern_Correct.thy ===== *)
theory Go_Extern_Correct
  imports Go_Extern Thunks_X86_Correct Stack_Depth
begin

text \<open>
  The amd64 stubs of \<open>go_extern.go\<close>. When Go takes every argument in a register, a stub delivers the
  arguments to Go and the results and the callee-saved registers to C. When Go takes some argument on
  the stack it need not (\<open>Extern_Tables\<close>).
\<close>

section \<open>Arguments of a stub\<close>

lemma sides_extern:
  "g_side (extern_args pl) = c_side (plan_args pl)" "c_side (extern_args pl) = g_side (plan_args pl)"
  by (simp_all add: extern_args_def g_side_def c_side_def comp_def case_prod_unfold)

lemma extern_args_mem: "(ty, c, g) \<in> set (extern_args pl) \<longleftrightarrow> (ty, g, c) \<in> set (plan_args pl)"
  by (force simp: extern_args_def)

lemma extern_args_ok:
  assumes "analyzeSignature amd64_abi d = Inr pl"
  shows "args_ok ''r12'' ''xmm15'' (sd_StackArgsSize (pl_Go pl)) (extern_args pl)"
    "set (side_regs (c_side (extern_args pl))) \<subseteq> set (ab_goInt amd64_abi @ ab_goFloat amd64_abi)"
proof -
  let ?a = amd64_abi
  obtain r where r: "assignParams ?a (lf_Params d) = Inr r" "sd_Params (pl_Go pl) = go_side (ar_Params r)" "sd_Params (pl_SysV pl) = sysv_side (ar_Params r)"
      "sd_StackArgsSize (pl_Go pl) = ar_GoStackSize r" "sd_StackArgsSize (pl_SysV pl) = ar_SysVStackSize r"
    using assms by (rule analyzeSignature_sides)
  note sides = plan_args_sides [OF r(2,3)]
  obtain g c where inv: "assign_inv ?a (ar_Params r) g c" "ar_GoStackSize r = alignUp (cu_stack g) 8" "ar_SysVStackSize r = cu_stack c"
    using r(1) by (rule assignParams_inv)
  have G: "call_layout (ab_goInt ?a) (ab_goFloat ?a) (alignUp (cu_stack g) 8) (go_side (ar_Params r))"
    using inv alignUp_ge [OF pow8_8] alignUp_dvd [OF pow8_8] by (intro amd_go.layout) (auto simp: assign_inv_def)
  have C: "call_layout (ab_sysvInt ?a) (ab_sysvFloat ?a) (ar_SysVStackSize r) (sysv_side (ar_Params r))"
    using inv by (intro amd_c.layout) (auto simp: assign_inv_def)
  show sub: "set (side_regs (c_side (extern_args pl))) \<subseteq> set (ab_goInt ?a @ ab_goFloat ?a)"
    unfolding sides_extern sides using G by (intro side_regs_sub) (simp add: call_layout_def)
  have src: "scalar ty \<noteq> None \<and> go_loc ''r12'' ''xmm15'' l" if mem: "(ty, l) \<in> set (sysv_side (ar_Params r))" for ty l
  proof (cases l)
    case (Reg x)
    have "scalar ty \<noteq> None" "x \<in> set (ab_sysvInt ?a @ ab_sysvFloat ?a)" using bank_locD [of _ _ _ ty l] C mem Reg unfolding call_layout_def by blast+
    then show ?thesis using amd64_scratch(2) unfolding go_loc_def Reg loc.case by blast
  next
    case (Stk off)
    then have "(ty, off) \<in> set (stk_list (sysv_side (ar_Params r)))" using mem by (simp add: stk_list_mem [symmetric])
    then show ?thesis using C slots_okD by (fastforce simp: call_layout_def go_loc_def Stk)
  qed
  have "scalar ty \<noteq> None \<and> go_loc ''r12'' ''xmm15'' l" if "(ty, l, k) \<in> set (extern_args pl)" for ty l k
    using g_side_mem [OF that] src unfolding sides_extern sides by blast
  moreover have "''r12'' \<notin> set (side_regs (c_side (extern_args pl)))" "''xmm15'' \<notin> set (side_regs (c_side (extern_args pl)))"
    using sub amd64_scratch(1) by blast+
  ultimately show "args_ok ''r12'' ''xmm15'' (sd_StackArgsSize (pl_Go pl)) (extern_args pl)"
    using G C unfolding args_ok_def sides_extern sides call_layout_def r(4) inv(2) by auto
qed

section \<open>Loads in argument order\<close>

definition reg_only :: "arg list \<Rightarrow> bool" where
  "reg_only args \<longleftrightarrow> (\<forall>(ty, c, g)\<in>set args. case g of Reg _ \<Rightarrow> True | Stk _ \<Rightarrow> False)"

definition loads_all :: "arg list \<Rightarrow> xst \<Rightarrow> xst \<Rightarrow> bool" where
  "loads_all args st st' \<longleftrightarrow> x_mem st' = x_mem st \<and> x_sp st' = x_sp st \<and> x_bp st' = x_bp st \<and> x_tls st' = x_tls st \<and>
     (\<forall>r. r \<notin> loaded args \<longrightarrow> x_gpr st' r = x_gpr st r \<and> x_xmm st' r = x_xmm st r) \<and>
     (\<forall>ty off r base. (ty, Stk off, Reg r) \<in> set args \<longrightarrow> arg_val base (x_view st') ty (Reg r) = arg_val (x_bp st + 16) (x_view st) ty (Stk off))"

lemma reg_arg_all:
  assumes "scalar ty \<noteq> None"
  shows "loads_all [(ty, Stk off, Reg r)] st (run (emitRegisterArgument ty off r) st)"
  using reg_arg [OF assms, where off = off and r = r and st = st] by (auto simp: loads_all_def loaded_def same_but_def)

lemma arg_val_regs: "x_gpr st' r = x_gpr st r \<Longrightarrow> x_xmm st' r = x_xmm st r \<Longrightarrow> arg_val base (x_view st') ty (Reg r) = arg_val base' (x_view st) ty (Reg r)"
  by (simp add: arg_val_def split: prod.splits)

lemma stores_load:
  assumes "distinct (side_regs (c_side args))" "\<forall>(ty, c, g)\<in>set args. scalar ty \<noteq> None" "reg_only args"
  shows "loads_all args st (run (concat (map extern_store args)) st)"
  using assms
proof (induction args arbitrary: st)
  case Nil
  then show ?case by (simp add: loads_all_def)
next
  case (Cons a args)
  obtain ty c r where a: "a = (ty, c, Reg r)" using Cons.prems(3) by (cases a) (auto simp: reg_only_def split: loc.splits)
  have sc: "scalar ty \<noteq> None" using Cons.prems(2) a by auto
  have ds: "distinct (side_regs (c_side args))" "r \<notin> set (side_regs (c_side args))" using Cons.prems(1) by (auto simp: a)
  have IH: "loads_all args s (run (concat (map extern_store args)) s)" for s using Cons.IH [OF ds(1)] Cons.prems by (simp add: reg_only_def)
  show ?case
  proof (cases c)
    case (Reg s)
    then show ?thesis using IH [of st] by (auto simp: a extern_store_def loads_all_def loaded_def)
  next
    case (Stk off)
    let ?st = "run (emitRegisterArgument ty off r) st" and ?st' = "run (concat (map extern_store (a # args))) st"
    have one: "loads_all [(ty, Stk off, Reg r)] st ?st" by (rule reg_arg_all [OF sc])
    have two: "loads_all args ?st ?st'" using IH [of ?st] by (simp add: a Stk extern_store_def)
    have nl: "r \<notin> loaded args" using ds(2) loaded_c by blast
    have ld: "loaded (a # args) = insert r (loaded args)" "loaded [(ty, Stk off, Reg r)] = {r}" by (auto simp: loaded_def a Stk)
    have "arg_val base (x_view ?st') ty (Reg r) = arg_val (x_bp st + 16) (x_view st) ty (Stk off)" for base
    proof -
      have "arg_val base (x_view ?st') ty (Reg r) = arg_val base (x_view ?st) ty (Reg r)"
        using two nl by (intro arg_val_regs) (simp_all add: loads_all_def)
      then show ?thesis using one by (simp add: loads_all_def)
    qed
    moreover have "arg_val base (x_view ?st') ty' (Reg r') = arg_val (x_bp st + 16) (x_view st) ty' (Stk off')" if "(ty', Stk off', Reg r') \<in> set args" for ty' off' r' base
      using two one that arg_val_mem [of "x_view ?st" "x_view st"] by (simp add: loads_all_def)
    moreover have "x_gpr ?st' q = x_gpr st q \<and> x_xmm ?st' q = x_xmm st q" if "q \<notin> loaded (a # args)" for q
      using one two that unfolding ld loads_all_def by auto
    moreover have "x_mem ?st' = x_mem st" "x_sp ?st' = x_sp st" "x_bp ?st' = x_bp st" "x_tls ?st' = x_tls st" using one two by (simp_all add: loads_all_def)
    ultimately show ?thesis unfolding loads_all_def [of "a # args"] by (auto simp: a Stk)
  qed
qed

lemma extern_moves_ok:
  assumes ok: "args_ok ''r12'' ''xmm15'' area args" and ro: "reg_only args"
    and gs: "\<And>st. regs_moved True ''r12'' args (x_view st) (x_view (run gs st))" and xs: "\<And>st. regs_moved False ''xmm15'' args (x_view st) (x_view (run xs st))"
  shows "let st' = run (gs @ xs @ concat (map extern_store args)) st in
    (\<forall>(ty, c, g)\<in>set args. arg_val 0 (x_view st') ty g = arg_val (x_bp st + 16) (x_view st) ty c) \<and>
    x_mem st' = x_mem st \<and> x_sp st' = x_sp st \<and> x_bp st' = x_bp st \<and> x_tls st' = x_tls st"
proof -
  let ?s1 = "run gs st" let ?s2 = "run xs ?s1" let ?s3 = "run (concat (map extern_store args)) ?s2"
  have ld: "loads_all args ?s2 ?s3" using stores_load [OF args_okD(3,1) [OF ok] ro] .
  have b1: "same_but True (insert ''r12'' (move_dsts True args)) (x_view st) (x_view ?s1)" and b2: "same_but False (insert ''xmm15'' (move_dsts False args)) (x_view ?s1) (x_view ?s2)"
    using gs xs by (simp_all add: regs_moved_def)
  have same: "x_mem ?s3 = x_mem st" "x_sp ?s3 = x_sp st" "x_bp ?s3 = x_bp st" "x_tls ?s3 = x_tls st" "x_mem ?s2 = x_mem st" "x_bp ?s2 = x_bp st"
    using ld b1 b2 by (simp_all add: loads_all_def same_but_def)
  have "arg_val 0 (x_view ?s3) ty g = arg_val (x_bp st + 16) (x_view st) ty c" if mem: "(ty, c, g) \<in> set args" for ty c g
  proof -
    obtain r where g: "g = Reg r" using ro mem by (cases g) (auto simp: reg_only_def)
    show ?thesis
    proof (cases c)
      case (Stk off)
      then show ?thesis using ld mem g same arg_val_mem [of "x_view ?s2" "x_view st"] by (simp add: loads_all_def)
    next
      case (Reg s)
      have mem': "(ty, Reg s, Reg r) \<in> set args" using mem g Reg by simp
      have l3: "arg_val 0 (x_view ?s3) ty (Reg r) = arg_val 0 (x_view ?s2) ty (Reg r)"
        using ld not_loaded [OF ok mem'] by (intro arg_val_regs) (simp_all add: loads_all_def)
      have "arg_val 0 (x_view ?s2) ty (Reg r) = arg_val 0 (x_view st) ty (Reg s)"
      proof (cases "is_int ty")
        case True
        have "arg_val 0 (x_view ?s2) ty (Reg r) = arg_val 0 (x_view ?s1) ty (Reg r)" using True by (intro arg_val_same_but [OF b2]) simp
        then show ?thesis using gs [of st] mem' True unfolding regs_moved_def by metis
      next
        case False
        have "arg_val 0 (x_view ?s1) ty (Reg s) = arg_val 0 (x_view st) ty (Reg s)" using False by (intro arg_val_same_but [OF b1]) simp
        then show ?thesis using xs [of ?s1] mem' False unfolding regs_moved_def by metis
      qed
      then show ?thesis using l3 g Reg arg_val_base by metis
    qed
  qed
  then show ?thesis using same by (auto simp: Let_def)
qed

lemma emitSysVToGoMoves_ok:
  assumes "analyzeSignature amd64_abi d = Inr pl" "reg_only (extern_args pl)"
  shows "\<exists>moves. emitSysVToGoMoves pl = Some moves \<and> (\<forall>st. let st' = run moves st in
    (\<forall>(ty, c, g)\<in>set (extern_args pl). arg_val 0 (x_view st') ty g = arg_val (x_bp st + 16) (x_view st) ty c) \<and>
    x_mem st' = x_mem st \<and> x_sp st' = x_sp st \<and> x_bp st' = x_bp st \<and> x_tls st' = x_tls st)"
proof -
  note ok = extern_args_ok(1) [OF assms(1)]
  obtain gs where gs: "par_moves ''r12'' (\<lambda>_ s d. MovQ s d) (bank_moves True (\<lambda>_. ()) (extern_args pl)) = Some gs" "\<And>st. regs_moved True ''r12'' (extern_args pl) (x_view st) (x_view (run gs st))"
    using gpr.bank_regs_moved [OF ok, of "''r12''"] unfolding run_def by blast
  obtain xs where xs: "par_moves ''xmm15'' MovX (bank_moves False id (extern_args pl)) = Some xs" "\<And>st. regs_moved False ''xmm15'' (extern_args pl) (x_view st) (x_view (run xs st))"
    using xmm.bank_regs_moved [OF ok, of "''xmm15''"] unfolding run_def by blast
  have "emitSysVToGoMoves pl = Some (gs @ xs @ concat (map extern_store (extern_args pl)))"
    using gs(1) xs(1) by (simp add: emitSysVToGoMoves_def Let_def parallelGPR_def parallelXMM_def par_moves_filter)
  then show ?thesis using extern_moves_ok [OF ok assms(2) gs(2) xs(2)] by blast
qed

section \<open>The stub\<close>

lemma fetch_store_disjoint: "a + int n \<le> b \<or> b + int k \<le> a \<Longrightarrow> fetch n a (store k b v m) = fetch n a m"
  by (rule fetch_cong) (auto intro!: store_other)

lemma stub_frame_ok: "16 dvd stub_frame s" "s + 40 \<le> stub_frame s"
proof -
  have not15: "(NOT 15 :: int) = - 16" by simp
  have f: "stub_frame s = (if (s + 40) mod 16 \<noteq> 0 then alignUp (s + 40) 16 else s + 40)"
    by (simp add: stub_frame_def alignUp_def Let_def add.commute)
  show "16 dvd stub_frame s" "s + 40 \<le> stub_frame s" unfolding f using alignUp_16 [of "s + 40"] by (auto simp: dvd_eq_mod_eq_0)
qed

lemma run_xmark [simp]: "run (xmark labels l ti) st = st"
  by (simp add: xmark_def)

lemma saves_ok:
  "let st' = run (saves off) st in x_gpr st' = x_gpr st \<and> x_xmm st' = x_xmm st \<and> x_sp st' = x_sp st \<and> x_bp st' = x_bp st \<and> x_tls st' = x_tls st \<and>
    (\<forall>x. x < x_sp st + off \<or> x_sp st + off + 40 \<le> x \<longrightarrow> x_mem st' x = x_mem st x) \<and>
    (\<forall>i<5. fetch 8 (x_sp st + off + 8 * int i) (x_mem st') = x_gpr st (saved_regs ! i))"
proof -
  have five: "(\<forall>i<5. P i) \<longleftrightarrow> P 0 \<and> P 1 \<and> P 2 \<and> P 3 \<and> P (4 :: nat)" for P
    by (auto simp: numeral_eq_Suc less_Suc_eq)
  show ?thesis
    unfolding Let_def five
    by (simp add: saves_def saved_regs_def put_mem_def store_other fetch_store_same fetch_store_disjoint add.assoc)
qed

lemma restores_ok:
  "let st' = run (restores off) st in x_xmm st' = x_xmm st \<and> x_sp st' = x_sp st \<and> x_bp st' = x_bp st \<and> x_mem st' = x_mem st \<and>
    (\<forall>i<5. x_gpr st' (saved_regs ! i) = fetch 8 (x_sp st + off + 8 * int i) (x_mem st)) \<and>
    (\<forall>r. r \<notin> set saved_regs \<longrightarrow> x_gpr st' r = x_gpr st r)"
proof -
  have five: "(\<forall>i<5. P i) \<longleftrightarrow> P 0 \<and> P 1 \<and> P 2 \<and> P 3 \<and> P (4 :: nat)" for P
    by (auto simp: numeral_eq_Suc less_Suc_eq)
  show ?thesis
    unfolding Let_def five by (simp add: restores_def saved_regs_def set_gpr_def add.assoc)
qed

lemma length_saved_regs: "length saved_regs = 5"
  by (simp add: saved_regs_def)

text \<open>What a stub relies on: the Go function returns with the stack and frame pointers it was called with and writes
  nothing of the stub's frame (up to its saved frame pointer and return address) but its own argument area. It may
  write any other memory.\<close>

definition go_returns :: "int \<Rightarrow> xst \<Rightarrow> xst \<Rightarrow> bool" where
  "go_returns area st st' \<longleftrightarrow> x_sp st' = x_sp st \<and> x_bp st' = x_bp st \<and> (\<forall>x. x_sp st + area \<le> x \<and> x < x_bp st + 16 \<longrightarrow> x_mem st' x = x_mem st x)"

lemma stub_pre_ok:
  assumes "analyzeSignature amd64_abi (gx_Fn x) = Inr (gx_Plan x)" "reg_only (extern_args (gx_Plan x))" "0 \<le> gx_Spill x"
    "\<And>st. let st' = run moves st in
      (\<forall>(ty, c, g)\<in>set (extern_args (gx_Plan x)). arg_val 0 (x_view st') ty g = arg_val (x_bp st + 16) (x_view st) ty c) \<and>
      x_mem st' = x_mem st \<and> x_sp st' = x_sp st \<and> x_bp st' = x_bp st \<and> x_tls st' = x_tls st"
  shows "let st' = run (stub_pre labels ti x moves) st in
    (\<forall>(ty, c, g)\<in>set (extern_args (gx_Plan x)). arg_val 0 (x_view st') ty g = arg_val (x_sp st + 8) (x_view st) ty c) \<and>
    x_sp st' = x_sp st - 8 - stub_frame (gx_Spill x) \<and> x_bp st' = x_sp st - 8 \<and> x_gpr st' ''r14'' = x_tls st \<and> x_xmm st' ''xmm15'' = 0 \<and>
    (\<forall>a\<ge>x_sp st. x_mem st' a = x_mem st a) \<and> fetch 8 (x_sp st - 8) (x_mem st') = word_of_int (x_bp st) \<and>
    (\<forall>i<5. fetch 8 (x_sp st' + gx_Spill x + 8 * int i) (x_mem st') = x_gpr st (saved_regs ! i))"
proof -
  let ?f = "stub_frame (gx_Spill x)"
  note f = stub_frame_ok(2) [of "gx_Spill x"]
  define st1 where "st1 = run ([PushBP, MovBP, SubSP ?f]) st"
  have st1: "x_sp st1 = x_sp st - 8 - ?f" "x_bp st1 = x_sp st - 8" "x_gpr st1 = x_gpr st" "x_xmm st1 = x_xmm st" "x_tls st1 = x_tls st"
    "x_mem st1 = store 8 (x_sp st - 8) (word_of_int (x_bp st)) (x_mem st)" by (simp_all add: st1_def put_mem_def)
  define st2 where "st2 = run (saves (gx_Spill x)) st1"
  note sv = saves_ok [of "gx_Spill x" st1, folded st2_def, unfolded Let_def]
  define st3 where "st3 = run moves st2"
  note mv = assms(4) [of st2, folded st3_def, unfolded Let_def]
  have run: "run (stub_pre labels ti x moves) st = set_xmm ''xmm15'' 0 (set_gpr ''r14'' (x_tls st3) st3)"
    using f assms(3) by (simp add: stub_pre_def Let_def st3_def st2_def st1_def set_gpr_def)
  have hi: "x_mem st2 a = x_mem st1 a" if "x_sp st - 8 \<le> a" for a using sv that f st1(1) by simp
  have up: "x_mem st2 a = x_mem st a" if "x_sp st \<le> a" for a using hi [of a] that by (simp add: st1(6) store_other)
  have src: "arg_val (x_bp st2 + 16) (x_view st2) ty c = arg_val (x_sp st + 8) (x_view st) ty c" if mem: "(ty, c, g) \<in> set (extern_args (gx_Plan x))" for ty c g
  proof (cases c)
    case (Stk off)
    then have "0 \<le> off" using args_okD(7) [OF extern_args_ok(1) [OF assms(1)]] mem by (auto simp: go_loc_def)
    then have "fetch n (x_sp st + 8 + off) (x_mem st2) = fetch n (x_sp st + 8 + off) (x_mem st)" for n by (intro fetch_cong up) simp
    then show ?thesis using sv st1(2) by (simp add: arg_val_def Stk add.commute split: prod.splits)
  qed (use sv st1 in \<open>simp add: arg_val_def split: prod.splits\<close>)
  have dst: "arg_val 0 (x_view (set_xmm ''xmm15'' 0 (set_gpr ''r14'' v st3))) ty g = arg_val 0 (x_view st3) ty g" if mem: "(ty, c, g) \<in> set (extern_args (gx_Plan x))" for ty c g v
  proof -
    obtain r where g: "g = Reg r" using assms(2) mem by (cases g) (auto simp: reg_only_def)
    have "r \<in> set (side_regs (c_side (extern_args (gx_Plan x))))" using side_regs_mem c_side_mem mem g by blast
    then have "r \<in> set (ab_goInt amd64_abi @ ab_goFloat amd64_abi)" using extern_args_ok(2) [OF assms(1)] by blast
    moreover have "''r14'' \<notin> set (ab_goInt amd64_abi @ ab_goFloat amd64_abi)" by code_simp
    ultimately have "r \<noteq> ''r14''" "r \<noteq> ''xmm15''" using amd64_scratch(1) by auto
    then show ?thesis unfolding g by (intro arg_val_regs) (simp_all add: set_gpr_def set_xmm_def)
  qed
  have bp: "fetch 8 (x_sp st - 8) (x_mem st2) = word_of_int (x_bp st)"
  proof -
    have "fetch 8 (x_sp st - 8) (x_mem st2) = fetch 8 (x_sp st - 8) (x_mem st1)" using hi by (intro fetch_cong) simp
    then show ?thesis by (simp only: st1(6) fetch_store_same low_8)
  qed
  have args: "\<forall>(ty, c, g)\<in>set (extern_args (gx_Plan x)). arg_val 0 (x_view (set_xmm ''xmm15'' 0 (set_gpr ''r14'' (x_tls st3) st3))) ty g = arg_val (x_sp st + 8) (x_view st) ty c"
    using mv src dst by fastforce
  show ?thesis
    unfolding Let_def run using args mv sv st1 bp up by (simp add: set_gpr_def set_xmm_def)
qed

lemma go_to_c_moves:
  assumes "set moves \<subseteq> {(''rdx'', ''rbx'')}"
  shows "run (map (\<lambda>(s, d). MovQ d s) moves) st = (if moves = [] then st else set_gpr ''rdx'' (x_gpr st ''rbx'') st)"
  using assms
proof (induction moves arbitrary: st)
  case (Cons m ms)
  then have m: "m = (''rdx'', ''rbx'')" by auto
  show ?case using Cons by (simp add: m) (simp add: set_gpr_def)
qed simp

lemma amd64_result_moves:
  assumes "analyzeSignature amd64_abi d = Inr pl"
  shows "set (pl_ResultMoves pl) \<subseteq> {(''rdx'', ''rbx'')}" "(ty, Reg ''rbx'', Reg ''rdx'') \<in> set (c_results pl) \<Longrightarrow> pl_ResultMoves pl \<noteq> []"
    "(ty, g, c) \<in> set (c_results pl) \<Longrightarrow> scalar ty \<noteq> None \<and> result_pair amd64_abi ty g c"
proof -
  obtain tys where ra: "returnAssignment amd64_abi (lf_Ret d) = Inr (sd_Results (pl_Go pl), sd_Results (pl_SysV pl), tys)"
    and mv: "pl_ResultMoves pl = result_moves (sd_Results (pl_Go pl)) (sd_Results (pl_SysV pl))"
    using assms by (rule analyzeSignature_moves)
  have "{(s, d). (s, d) \<in> result_pairs amd64_abi \<and> s \<noteq> d} = {(''rdx'', ''rbx'')}" by (auto simp: result_pairs_amd64)
  moreover have "set (pl_ResultMoves pl) \<subseteq> {(s, d). (s, d) \<in> result_pairs amd64_abi \<and> s \<noteq> d}"
    using returnAssignment_moves [OF ra] unfolding mv by (fastforce simp: result_moves_def)
  ultimately show "set (pl_ResultMoves pl) \<subseteq> {(''rdx'', ''rbx'')}" by simp
  have zip: "\<exists>ty'. ((ty, g), (ty', c)) \<in> set (zip (sd_Results (pl_Go pl)) (sd_Results (pl_SysV pl)))" if "(ty, g, c) \<in> set (c_results pl)" for ty g c
    using that by (auto simp: c_results_def)
  show "pl_ResultMoves pl \<noteq> []" if mem: "(ty, Reg ''rbx'', Reg ''rdx'') \<in> set (c_results pl)"
  proof -
    obtain ty' where z: "((ty, Reg ''rbx''), (ty', Reg ''rdx'')) \<in> set (zip (sd_Results (pl_Go pl)) (sd_Results (pl_SysV pl)))"
      using zip [OF mem] by blast
    then have "(''rdx'', ''rbx'') \<in> set (zip (map (reg_of \<circ> snd) (sd_Results (pl_SysV pl))) (map (reg_of \<circ> snd) (sd_Results (pl_Go pl))))"
      by (force simp: in_set_zip reg_of_def)
    then have "(''rdx'', ''rbx'') \<in> set (pl_ResultMoves pl)" unfolding mv result_moves_def by simp
    then show ?thesis by auto
  qed
  show "scalar ty \<noteq> None \<and> result_pair amd64_abi ty g c" if mem: "(ty, g, c) \<in> set (c_results pl)"
  proof -
    obtain ty' where z: "((ty, g), (ty', c)) \<in> set (zip (sd_Results (pl_Go pl)) (sd_Results (pl_SysV pl)))"
      using zip [OF mem] by blast
    have "ab_sysvIntResult amd64_abi ! 0 = ab_goInt amd64_abi ! 0" "ab_sysvFloatResult amd64_abi ! 0 = ab_goFloat amd64_abi ! 0" by code_simp+
    from returnAssignment_banks [OF ra z this] show ?thesis by auto
  qed
qed

lemma stub_post_ok:
  assumes "analyzeSignature amd64_abi (gx_Fn x) = Inr (gx_Plan x)"
  shows "let st' = run (stub_post labels ti x) st in
    (\<forall>(ty, g, c)\<in>set (c_results (gx_Plan x)). arg_val 0 (x_view st') ty c = arg_val 0 (x_view st) ty g) \<and>
    (\<forall>i<5. x_gpr st' (saved_regs ! i) = fetch 8 (x_sp st + gx_Spill x + 8 * int i) (x_mem st)) \<and>
    x_sp st' = x_bp st + 16 \<and> x_bp st' = uint (fetch 8 (x_bp st) (x_mem st)) \<and> x_mem st' = x_mem st"
proof -
  let ?mv = "pl_ResultMoves (gx_Plan x)"
  define st1 where "st1 = (if ?mv = [] then st else set_gpr ''rdx'' (x_gpr st ''rbx'') st)"
  define st2 where "st2 = run (restores (gx_Spill x)) st1"
  note rs = restores_ok [of "gx_Spill x" st1, folded st2_def, unfolded Let_def]
  have st1: "x_sp st1 = x_sp st" "x_bp st1 = x_bp st" "x_mem st1 = x_mem st" "x_xmm st1 = x_xmm st" "r \<noteq> ''rdx'' \<Longrightarrow> x_gpr st1 r = x_gpr st r" for r
    by (simp_all add: st1_def set_gpr_def)
  have run: "run (stub_post labels ti x) st = st2\<lparr>x_bp := uint (fetch 8 (x_bp st) (x_mem st)), x_sp := x_bp st + 16\<rparr>"
    using rs st1 by (simp add: stub_post_def go_to_c_moves [OF amd64_result_moves(1) [OF assms]] st1_def [symmetric] st2_def [symmetric])
  have "arg_val 0 (x_view (st2\<lparr>x_bp := b, x_sp := s\<rparr>)) ty c = arg_val 0 (x_view st) ty g" if mem: "(ty, g, c) \<in> set (c_results (gx_Plan x))" for ty g c b s
  proof -
    from amd64_result_moves(3) [OF assms mem] obtain i where i: "scalar ty = Some i" and p: "result_pair amd64_abi ty g c" by auto
    have bk: "bank_of ty = sc_bank i" by (simp add: bank_of_def i)
    have nr: "''rax'' \<notin> set saved_regs" "''rdx'' \<notin> set saved_regs" by code_simp+
    have "?mv \<noteq> []" if "g = Reg ''rbx''" "c = Reg ''rdx''" using amd64_result_moves(2) [OF assms] mem that by blast
    then show ?thesis
      using p bk rs st1(4) nr unfolding amd64_result_pair arg_val_def scalar_info_Some [OF i]
      by (cases "sc_bank i") (auto simp: st1_def set_gpr_def)
  qed
  then show ?thesis unfolding Let_def run using rs st1 by auto
qed

text \<open>C24: For a C declaration implemented in Go whose Go arguments are all in registers, a stub exists. When it
  calls the Go function every argument is at its Go location, the goroutine is in \<open>r14\<close>, \<open>xmm15\<close> is zero,
  the stack pointer is a multiple of 16 below the C caller's and there is room for the spill area; when Go returns, whatever it did to the
  registers, the results are where C expects them, and the callee-saved registers and the stack and
  frame pointers of the C caller are restored.\<close>
theorem stub_correct:
  assumes "analyzeSignature amd64_abi (gx_Fn x) = Inr (gx_Plan x)" "reg_only (extern_args (gx_Plan x))" "0 \<le> gx_Spill x" "0 \<le> x_bp st" "x_bp st < 2 ^ 64"
  shows "\<exists>pre post. x_stub labels ti x = Some (pre @ [Call (gx_GoSym x @ ''.goabi'')] @ post) \<and>
    (\<forall>(ty, c, g)\<in>set (extern_args (gx_Plan x)). arg_val 0 (x_view (run pre st)) ty g = arg_val (x_sp st + 8) (x_view st) ty c) \<and>
    x_gpr (run pre st) ''r14'' = x_tls st \<and> x_xmm (run pre st) ''xmm15'' = 0 \<and>
    16 dvd x_sp st + 8 - x_sp (run pre st) \<and> x_sp (run pre st) + gx_Spill x \<le> x_sp st - 48 \<and> (\<forall>a\<ge>x_sp st. x_mem (run pre st) a = x_mem st a) \<and>
    (\<forall>st'. go_returns (gx_Spill x) (run pre st) st' \<longrightarrow>
       (\<forall>(ty, g, c)\<in>set (c_results (gx_Plan x)). arg_val 0 (x_view (run post st')) ty c = arg_val 0 (x_view st') ty g) \<and>
       (\<forall>r\<in>set saved_regs. x_gpr (run post st') r = x_gpr st r) \<and>
       x_sp (run post st') = x_sp st + 8 \<and> x_bp (run post st') = x_bp st \<and> x_mem (run post st') = x_mem st')"
proof -
  let ?s = "gx_Spill x"
  obtain moves where mv: "emitSysVToGoMoves (gx_Plan x) = Some moves" "\<And>st. let st' = run moves st in
      (\<forall>(ty, c, g)\<in>set (extern_args (gx_Plan x)). arg_val 0 (x_view st') ty g = arg_val (x_bp st + 16) (x_view st) ty c) \<and>
      x_mem st' = x_mem st \<and> x_sp st' = x_sp st \<and> x_bp st' = x_bp st \<and> x_tls st' = x_tls st"
    using emitSysVToGoMoves_ok [OF assms(1,2)] by blast
  let ?pre = "stub_pre labels ti x moves" and ?post = "stub_post labels ti x"
  have th: "x_stub labels ti x = Some (?pre @ [Call (gx_GoSym x @ ''.goabi'')] @ ?post)" by (simp add: x_stub_def mv(1))
  note pre = stub_pre_ok [OF assms(1-3) mv(2), of labels ti st, unfolded Let_def]
  have sp: "x_sp st + 8 - x_sp (run ?pre st) = 16 + stub_frame ?s" using pre by simp
  have al: "16 dvd x_sp st + 8 - x_sp (run ?pre st)" unfolding sp using stub_frame_ok(1) by (simp only: dvd_add dvd_refl)
  have room: "x_sp (run ?pre st) + ?s \<le> x_sp st - 48" using sp stub_frame_ok(2) [of ?s] by simp
  have post: "(\<forall>(ty, g, c)\<in>set (c_results (gx_Plan x)). arg_val 0 (x_view (run ?post st')) ty c = arg_val 0 (x_view st') ty g) \<and>
       (\<forall>r\<in>set saved_regs. x_gpr (run ?post st') r = x_gpr st r) \<and>
       x_sp (run ?post st') = x_sp st + 8 \<and> x_bp (run ?post st') = x_bp st \<and> x_mem (run ?post st') = x_mem st'"
    if ret: "go_returns ?s (run ?pre st) st'" for st'
  proof -
    note po = stub_post_ok [OF assms(1), of labels ti st', unfolded Let_def]
    have bp: "x_bp st' = x_sp st - 8" "x_sp st' = x_sp (run ?pre st)" using ret pre by (simp_all add: go_returns_def)
    have keep: "fetch 8 a (x_mem st') = fetch 8 a (x_mem (run ?pre st))" if "x_sp (run ?pre st) + ?s \<le> a" "a \<le> x_sp st" for a
      using ret that pre by (intro fetch_cong) (simp add: go_returns_def)
    have "uint (fetch 8 (x_bp st') (x_mem st')) = x_bp st" using keep [of "x_bp st'"] pre bp room uint_word_of_int [OF assms(4,5)] by simp
    moreover have "x_gpr (run ?post st') (saved_regs ! i) = x_gpr st (saved_regs ! i)" if "i < 5" for i
    proof -
      have "x_gpr (run ?post st') (saved_regs ! i) = fetch 8 (x_sp (run ?pre st) + ?s + 8 * int i) (x_mem st')" using po that unfolding bp(2) by blast
      also have "\<dots> = fetch 8 (x_sp (run ?pre st) + ?s + 8 * int i) (x_mem (run ?pre st))" using that room by (intro keep) simp_all
      also have "\<dots> = x_gpr st (saved_regs ! i)" using pre that by blast
      finally show ?thesis .
    qed
    then have "\<forall>r\<in>set saved_regs. x_gpr (run ?post st') r = x_gpr st r" using length_saved_regs by (metis in_set_conv_nth)
    ultimately show ?thesis using po bp by simp
  qed
  have facts: "\<forall>(ty, c, g)\<in>set (extern_args (gx_Plan x)). arg_val 0 (x_view (run ?pre st)) ty g = arg_val (x_sp st + 8) (x_view st) ty c"
    "x_gpr (run ?pre st) ''r14'' = x_tls st" "x_xmm (run ?pre st) ''xmm15'' = 0" "\<forall>a\<ge>x_sp st. x_mem (run ?pre st) a = x_mem st a" using pre by blast+
  show ?thesis
    by (intro exI [of _ ?pre] exI [of _ ?post] conjI th al room facts allI impI) (use post in blast)+
qed

end
