(* ===== verification/Extern_Tables.thy ===== *)
theory Extern_Tables
  imports Go_Extern_Correct
begin

text \<open>
  The tables of the stubs of \<open>go_extern.go\<close>, the signatures whose stubs assemble, the names read from LLVM string
  constants, and a signature whose stub overwrites a register argument before it is stored for Go.
\<close>

section \<open>Stack depth\<close>

lemma emitSysVToGoMoves_plain:
  assumes "emitSysVToGoMoves pl = Some out"
  shows "\<forall>i\<in>set out. x_plain i"
proof -
  obtain gs xs where g: "parallelGPR (filter (\<lambda>m. src m \<noteq> dst m) (bank_moves True (\<lambda>_. ()) (extern_args pl))) = Some gs"
      "parallelXMM (filter (\<lambda>m. src m \<noteq> dst m) (bank_moves False id (extern_args pl))) = Some xs"
      "out = gs @ xs @ concat (map extern_store (extern_args pl))"
    using assms by (auto simp: emitSysVToGoMoves_def Let_def bind_eq_Some_conv)
  have "\<forall>i\<in>set gs. x_plain i" "\<forall>i\<in>set xs. x_plain i"
    using g(1,2) by (auto simp: parallelGPR_def parallelXMM_def x_plain_def dest!: par_moves_emits)
  moreover have "x_plain i" if "i \<in> set (extern_store a)" for i a
  proof -
    obtain ty c g where a: "a = (ty, c, g)" by (cases a)
    show ?thesis
      using that by (cases c; cases g; cases "scalar_info ty")
        (auto simp: a extern_store_def emitStackArgument_def emitRegisterArgument_def x_plain_def Let_def split: if_splits)
  qed
  ultimately show ?thesis unfolding g(3) by auto
qed

definition stub_rows :: "goExtern \<Rightarrow> (string \<times> int) list" where
  "stub_rows x = [(''p'', 8)] @ (if gx_Spill x > 0 then [(''a'', 8 + gx_Spill x)] else []) @ [(''m'', 8), (''o'', 0)]"

lemma x_pcv_body_rows: "x_pcv_body i x = sp_dirs gx i (gx_CName x) (stub_rows x)"
  by (simp add: x_pcv_body_def sp_dirs_def stub_rows_def Let_def)

definition s_mid :: "bool \<Rightarrow> nat \<Rightarrow> goExtern \<Rightarrow> xins list \<Rightarrow> xins list" where
  "s_mid labels i x moves = saves (gx_Spill x) @ moves @ [LdTLS, Pxor15] @ xmark labels ''c'' i @ [Call (gx_GoSym x @ ''.goabi'')] @
     xmark labels ''r'' i @ map (\<lambda>(s, d). MovQ d s) (pl_ResultMoves (gx_Plan x)) @ restores (gx_Spill x)"

definition s_body :: "nat \<Rightarrow> goExtern \<Rightarrow> xins list \<Rightarrow> xins list" where
  "s_body i x moves = x_header (lf_Name (gx_Fn x)) True @ [PushBP] @ xmark True ''p'' i @ [MovBP, SubSP (stub_frame (gx_Spill x))] @ xmark True ''a'' i @
     s_mid True i x moves @ [MovSP] @ xmark True ''m'' i @ [PopBP] @ xmark True ''o'' i"

lemma x_stub_body:
  assumes "x_stub True i x = Some code" "0 \<le> gx_Spill x"
  obtains moves tail where "emitSysVToGoMoves (gx_Plan x) = Some moves" "code = s_body i x moves @ Ret # tail"
proof -
  have "stub_frame (gx_Spill x) > 0" using assms(2) stub_frame_ok(2) [of "gx_Spill x"] by simp
  then show thesis using assms(1) that by (auto simp: x_stub_def stub_pre_def stub_post_def s_body_def s_mid_def Let_def bind_eq_Some_conv)
qed

lemma xmark_still [simp]: "\<forall>i\<in>set (xmark True l n). x_plain i" "sum_list (map (x_size len) (xmark True l n)) = 0"
  by (simp_all add: xmark_def x_plain_def)

lemma s_mid_plain: "emitSysVToGoMoves pl = Some moves \<Longrightarrow> \<forall>i\<in>set (s_mid True n x moves). x_plain i"
  using emitSysVToGoMoves_plain [of pl moves] by (auto simp: s_mid_def saves_def restores_def x_plain_def xmark_def)

lemma s_body_rows:
  assumes "emitSysVToGoMoves pl = Some moves" "0 \<le> gx_Spill x" "gx_CName x = lf_Name (gx_Fn x)"
    "text_placed A x_lab (x_size len) p0 (s_body i x moves)"
  shows "map (\<lambda>(p, v). (int p, v)) (xd.rows len (x_sp st) 0 st (s_body i x moves)) =
    map (\<lambda>(l, v). (A (lbl gx l i) - A (gx_CName x), v)) (stub_rows (x\<lparr>gx_Spill := stub_frame (gx_Spill x)\<rparr>))"
proof -
  have fr: "stub_frame (gx_Spill x) > 0" using assms(2) stub_frame_ok(2) [of "gx_Spill x"] by simp
  have lb: "''.Lgocx_'' @ l @ dec_nat i = lbl gx l i" for l by (simp add: lbl_def)
  have mk: "text_placed A x_lab (x_size len) p (xmark True l i) \<longleftrightarrow> A (lbl gx l i) = p" for p l
    using line_lab_colon [of "lbl gx l i"] by (simp add: xmark_def lb [symmetric])
  have hd: "text_placed A x_lab (x_size len) p (x_header nm True) \<Longrightarrow> A nm = p" for p nm by (simp add: x_header_def)
  note mid = s_mid_plain [OF assms(1), of i x]
  have nm: "A (gx_CName x) = p0" using assms(3,4) by (auto simp: s_body_def dest: hd)
  show ?thesis
    using assms(4) mid plain_sp [OF mid] plain_bp [OF mid] fr
    by (simp add: s_body_def xd.rows_append xd.csize_def run_def [symmetric] mk nm stub_rows_def put_mem_def algebra_simps)
qed

text \<open>C25: The SP_DELTA table written for an amd64 stub, from the frame size the emitter of the code recorded, is
  true at every instruction of the stub.\<close>
theorem stub_sp_delta:
  assumes "x_stub True i x = Some code" "0 \<le> gx_Spill x" "gx_CName x = lf_Name (gx_Fn x)"
    "text_placed A x_lab (x_size len) p0 code" "sum_list (map (x_size len) code) < 2 ^ 64" "code = pre @ rest" "Ret \<notin> set pre"
  shows "\<exists>t. asm A (x_pcv_body i (x\<lparr>gx_Spill := stub_frame (gx_Spill x)\<rparr>)) = enc_pcv [t] \<and>
    val_at (pt_Entries t) (word_of_nat (sum_list (map (x_size len) pre))) = word_of_int (x_sp st - x_sp (run pre st))"
proof -
  let ?x = "x\<lparr>gx_Spill := stub_frame (gx_Spill x)\<rparr>"
  obtain moves tail where mv: "emitSysVToGoMoves (gx_Plan x) = Some moves" "code = s_body i x moves @ Ret # tail"
    using assms(1,2) by (rule x_stub_body)
  obtain rest' where body: "s_body i x moves = pre @ rest'"
    using prefix_body [of "s_body i x moves" Ret tail pre rest] mv(2) assms(6,7) by metis
  have "text_placed A x_lab (x_size len) p0 (s_body i x moves)" using assms(4) by (simp add: mv(2))
  note rows = s_body_rows [OF mv(1) assms(2,3) this, of st]
  have "sum_list (map (x_size len) (s_body i x moves)) < 2 ^ 64" using assms(5) by (simp add: mv(2))
  then have "val_at (pt_Entries (sp_table A gx i (gx_CName x) (stub_rows ?x))) (word_of_nat (sum_list (map (x_size len) pre))) = word_of_int (x_sp st - x_sp (run pre st))"
    using xd.table_depth [of len st pre rest' A gx i "gx_CName x" "stub_rows ?x"] rows unfolding body run_def xd.csize_def by blast
  moreover have "asm A (x_pcv_body i ?x) = enc_pcv [sp_table A gx i (gx_CName x) (stub_rows ?x)]" by (simp add: x_pcv_body_rows asm_sp_dirs)
  ultimately show ?thesis by blast
qed

section \<open>Stack maps\<close>

lemma word_in_bitmap: "0 \<le> o' \<Longrightarrow> o' div 8 < n \<Longrightarrow> nat (o' div 8) div 8 < length (bitmap0 n)"
  by (simp add: bitmap0_def)

lemma spill_bits_ok:
  assumes "length bs = length (bitmap0 nargs)" "0 \<le> nargs"
  shows "length (spill_bits nargs sps bs) = length bs \<and> (\<forall>k. has_word (spill_bits nargs sps bs) k \<longleftrightarrow> has_word bs k \<or>
    int k < nargs \<and> (\<exists>sp\<in>set sps. sp_Ptr sp \<and> sp_Off sp = 8 + 8 * int k))"
  using assms
proof (induction sps arbitrary: bs)
  case Nil
  then show ?case by (simp add: spill_bits_def)
next
  case (Cons sp sps)
  let ?o = "sp_Off sp - 8"
  show ?case
  proof (cases "\<not> sp_Ptr sp \<or> ?o < 0 \<or> ?o mod 8 \<noteq> 0 \<or> ?o div 8 \<ge> nargs")
    case True
    then have "spill_bits nargs (sp # sps) bs = spill_bits nargs sps bs" by (simp add: spill_bits_def)
    moreover have "\<not> (int k < nargs \<and> sp_Ptr sp \<and> sp_Off sp = 8 + 8 * int k)" for k using True by auto
    ultimately show ?thesis using Cons.IH [OF Cons.prems] by auto
  next
    case False
    let ?bs = "mark_word (nat (?o div 8)) bs"
    have st: "spill_bits nargs (sp # sps) bs = spill_bits nargs sps ?bs" using False by (simp add: spill_bits_def)
    have in_range: "nat (?o div 8) div 8 < length bs" using False word_in_bitmap [of ?o nargs] Cons.prems by simp
    have "int k < nargs \<and> sp_Ptr sp \<and> sp_Off sp = 8 + 8 * int k \<longleftrightarrow> k = nat (?o div 8)" for k using False by auto
    then show ?thesis unfolding st using Cons.IH [of ?bs] Cons.prems in_range by (auto simp: has_mark)
  qed
qed

lemma stack_bits_ok:
  assumes "\<forall>o'\<in>set os. 0 \<le> o' \<and> 8 dvd o' \<and> o' div 8 < nargs" "length bs = length (bitmap0 nargs)"
  shows "\<exists>bs'. stack_bits nargs os bs = Inr bs' \<and> length bs' = length bs \<and> (\<forall>k. has_word bs' k \<longleftrightarrow> has_word bs k \<or> 8 * int k \<in> set os)"
  using assms
proof (induction nargs os bs rule: stack_bits.induct)
  case (2 nargs o' os bs)
  then have o: "0 \<le> o'" "8 dvd o'" "o' div 8 < nargs" by auto
  then have m: "o' mod 8 = 0" by presburger
  have "nat (o' div 8) div 8 < length bs" using o "2.prems"(2) by (simp add: bitmap0_def)
  moreover have "8 * int k = o' \<longleftrightarrow> k = nat (o' div 8)" for k using o by auto
  ultimately show ?case using "2.IH"(1) m o "2.prems" by (auto simp: has_mark)
qed simp

text \<open>The words of the argument map: the pointer stack arguments of Go, and also the spill slots of the pointer register
  arguments, although the comment in the source says that only the stack arguments are scanned.\<close>

lemma stub_gc_words:
  assumes "analyzeSignature a (gx_Fn x) = Inr (gx_Plan x)" "typed_plan (gx_Plan x)"
  shows "\<exists>t nargs args. info_of x = Inr t \<and> x_gc_bits x t = Inr (nargs, gx_Spill x div 8, args, bitmap0 (gx_Spill x div 8)) \<and>
    8 * nargs = xi_area t \<and> length args = length (bitmap0 nargs) \<and> spills_ok (sd_StackArgsSize (pl_Go (gx_Plan x))) (xi_area t) (xi_spills t) \<and>
    sd_StackArgsSize (pl_Go (gx_Plan x)) \<le> xi_area t \<and>
    (\<forall>k. int k < nargs \<longrightarrow> (has_word args k \<longleftrightarrow> 8 * int k \<in> set (stack_ptrs (sd_Params (pl_Go (gx_Plan x)))) \<or>
      (\<exists>sp\<in>set (xi_spills t). sp_Ptr sp \<and> sp_Off sp = 8 + 8 * int k)))"
proof -
  let ?pl = "gx_Plan x"
  obtain spills area where l: "goArgsLayout (pl_Go ?pl) = Inr (spills, stack_ptrs (sd_Params (pl_Go ?pl)), area)" "8 dvd area" "sd_StackArgsSize (pl_Go ?pl) \<le> area"
    "spills_ok (sd_StackArgsSize (pl_Go ?pl)) area spills"
    using goArgsLayout_total [of "pl_Go ?pl"] assms(2) unfolding typed_plan_def by blast
  define t where t: "t = \<lparr>xi_spills = spills, xi_area = area\<rparr>"
  let ?n = "area div 8"
  have n: "0 \<le> ?n" "8 * ?n = area" "area mod 8 = 0" using l plan_slots(3) [OF assms(1)] by auto
  note sp = spill_bits_ok [of "bitmap0 ?n" ?n spills, OF refl n(1)]
  have ptrs: "\<forall>o'\<in>set (stack_ptrs (sd_Params (pl_Go ?pl))). 0 \<le> o' \<and> 8 dvd o' \<and> o' div 8 < ?n"
    using stack_ptrs_slots [OF plan_slots(1) [OF assms(1)]] l by fastforce
  obtain args where args: "stack_bits ?n (stack_ptrs (sd_Params (pl_Go ?pl))) (spill_bits ?n spills (bitmap0 ?n)) = Inr args" "length args = length (bitmap0 ?n)"
    "\<And>k. has_word args k \<longleftrightarrow> has_word (spill_bits ?n spills (bitmap0 ?n)) k \<or> 8 * int k \<in> set (stack_ptrs (sd_Params (pl_Go ?pl)))"
    using stack_bits_ok [OF ptrs, of "spill_bits ?n spills (bitmap0 ?n)"] sp by auto
  have "info_of x = Inr t" by (simp add: info_of_def l t)
  moreover have "x_gc_bits x t = Inr (?n, gx_Spill x div 8, args, bitmap0 (gx_Spill x div 8))" using args(1) n(3) by (simp add: x_gc_bits_def t Let_def)
  ultimately show ?thesis using n(2) args(2,3) sp l(3,4) by (intro exI [of _ t] exI [of _ ?n] exI [of _ args]) (auto simp: t)
qed

text \<open>C26: The tables of a stub are written without an error for every accepted signature, and at its call the
  collector scans the Go stack arguments exactly: the argument map covers them, a word of the stack argument area is
  marked exactly when it is a pointer argument, and no word of the stub's locals is marked.\<close>
theorem stub_stack_map:
  assumes "analyzeSignature a (gx_Fn x) = Inr (gx_Plan x)" "typed_plan (gx_Plan x)"
  shows "\<exists>t nargs args locals. info_of x = Inr t \<and> x_gc_bits x t = Inr (nargs, gx_Spill x div 8, args, locals) \<and>
    sd_StackArgsSize (pl_Go (gx_Plan x)) \<le> 8 * nargs \<and> length args = length (bitmap0 nargs) \<and>
    (\<forall>k. 8 * int k < sd_StackArgsSize (pl_Go (gx_Plan x)) \<longrightarrow>
      (has_word args k \<longleftrightarrow> 8 * int k \<in> set (stack_ptrs (sd_Params (pl_Go (gx_Plan x)))))) \<and>
    length locals = length (bitmap0 (gx_Spill x div 8)) \<and> (\<forall>k. \<not> has_word locals k)"
proof -
  let ?n = "sd_StackArgsSize (pl_Go (gx_Plan x))"
  obtain t nargs args where t: "info_of x = Inr t" "x_gc_bits x t = Inr (nargs, gx_Spill x div 8, args, bitmap0 (gx_Spill x div 8))"
    "8 * nargs = xi_area t" "length args = length (bitmap0 nargs)" "spills_ok ?n (xi_area t) (xi_spills t)" "?n \<le> xi_area t"
    and w: "\<And>k. int k < nargs \<Longrightarrow> has_word args k \<longleftrightarrow> 8 * int k \<in> set (stack_ptrs (sd_Params (pl_Go (gx_Plan x)))) \<or>
      (\<exists>sp\<in>set (xi_spills t). sp_Ptr sp \<and> sp_Off sp = 8 + 8 * int k)"
    using stub_gc_words [OF assms] by blast
  have "has_word args k \<longleftrightarrow> 8 * int k \<in> set (stack_ptrs (sd_Params (pl_Go (gx_Plan x))))" if "8 * int k < ?n" for k
  proof -
    have "sp_Off sp \<noteq> 8 + 8 * int k" if "sp \<in> set (xi_spills t)" for sp
      using t(5) that \<open>8 * int k < ?n\<close> by (fastforce simp: spills_ok_def)
    then show ?thesis using w [of k] that t(3,6) by auto
  qed
  then show ?thesis using t by (intro exI [of _ t] exI [of _ nargs] exI [of _ args] exI [of _ "bitmap0 (gx_Spill x div 8)"]) simp
qed

section \<open>Instructions that assemble\<close>

lemma extern_banks:
  assumes "analyzeSignature amd64_abi d = Inr pl" "(ty, c, g) \<in> set (extern_args pl)"
  shows "bank_loc (ab_sysvInt amd64_abi) (ab_sysvFloat amd64_abi) ty c" "bank_loc (ab_goInt amd64_abi) (ab_goFloat amd64_abi) ty g"
proof -
  let ?a = amd64_abi
  obtain r where r: "assignParams ?a (lf_Params d) = Inr r" "sd_Params (pl_Go pl) = go_side (ar_Params r)" "sd_Params (pl_SysV pl) = sysv_side (ar_Params r)"
    using assms(1) by (rule analyzeSignature_sides)
  obtain gc cc where inv: "assign_inv ?a (ar_Params r) gc cc" "ar_GoStackSize r = alignUp (cu_stack gc) 8" "ar_SysVStackSize r = cu_stack cc"
    using r(1) by (rule assignParams_inv)
  have G: "call_layout (ab_goInt ?a) (ab_goFloat ?a) (alignUp (cu_stack gc) 8) (go_side (ar_Params r))"
    using inv alignUp_ge [OF pow8_8] alignUp_dvd [OF pow8_8] by (intro amd_go.layout) (auto simp: assign_inv_def)
  have C: "call_layout (ab_sysvInt ?a) (ab_sysvFloat ?a) (ar_SysVStackSize r) (sysv_side (ar_Params r))"
    using inv by (intro amd_c.layout) (auto simp: assign_inv_def)
  have "(ty, c) \<in> set (g_side (extern_args pl))" "(ty, g) \<in> set (c_side (extern_args pl))" using assms(2) by (force simp: g_side_def c_side_def)+
  then have "(ty, c) \<in> set (sysv_side (ar_Params r))" "(ty, g) \<in> set (go_side (ar_Params r))" by (simp_all add: sides_extern plan_args_sides [OF r(2,3)])
  then show "bank_loc (ab_sysvInt ?a) (ab_sysvFloat ?a) ty c" "bank_loc (ab_goInt ?a) (ab_goFloat ?a) ty g" using G C by (auto simp: call_layout_def list_all_iff)
qed

text \<open>An integer narrower than 8 bytes that C passes and Go takes on the stack.\<close>

definition narrow_copy :: "arg \<Rightarrow> bool" where
  "narrow_copy = (\<lambda>(ty, c, g). case (c, g) of (Stk _, Stk _) \<Rightarrow> fst (scalar_info ty) \<noteq> Some BFloat \<and> mustSize ty \<noteq> 8 | _ \<Rightarrow> False)"

lemma int_reg_assembles:
  assumes "r \<in> set (ab_sysvInt amd64_abi @ ab_goInt amd64_abi)" "n \<in> {1, 2, 4, 8}"
  shows "assembles (LdG n off r)" "assembles (StG n r off)"
proof -
  have "list_all (\<lambda>r. list_all (\<lambda>n. moveMnemonic n \<noteq> [] \<and> gprView r n \<noteq> []) [1, 2, 4, 8]) (ab_sysvInt amd64_abi @ ab_goInt amd64_abi)" by code_simp
  then have "moveMnemonic n \<noteq> [] \<and> gprView r n \<noteq> []" using assms unfolding list_all_iff by (metis insert_iff list.set(1,2))
  then show "assembles (LdG n off r)" "assembles (StG n r off)" by simp_all
qed

lemma extern_store_assembles:
  assumes "analyzeSignature amd64_abi d = Inr pl" "a \<in> set (extern_args pl)"
  shows "(\<forall>i\<in>set (extern_store a). assembles i) \<longleftrightarrow> \<not> narrow_copy a"
proof -
  obtain ty c g where a: "a = (ty, c, g)" by (cases a)
  note b = extern_banks [OF assms(1) assms(2) [unfolded a]]
  obtain i where i: "scalar ty = Some i" using b(1) by (auto simp: bank_loc_def split: option.splits)
  have sz: "nat (sc_size i) \<in> {1, 2, 4, 8}" using scalar_size [OF i] by (auto simp: pow8_def)
  have info: "scalar_info ty = (Some (sc_bank i), nat (sc_size i))" "mustSize ty = nat (sc_size i)" by (simp_all add: scalar_info_def mustSize_def i)
  show ?thesis
    using b int_reg_assembles [OF _ sz] unfolding a
    by (cases c; cases g; cases "sc_bank i")
      (auto simp: extern_store_def narrow_copy_def info emitStackArgument_def emitRegisterArgument_def bank_loc_def i Let_def simp del: assembles.simps(1,2))
qed

text \<open>C28: When the stub of an accepted signature assembles. Every instruction of an amd64 stub has an operand size and
  a register name that fit, exactly unless some integer argument narrower than 8 bytes is passed by C on the stack and
  taken by Go on the stack: that one is copied through \<open>%r12\<close> with a sized mnemonic, such as \<open>movl 40(%rbp), %r12\<close>.\<close>
theorem stub_assembles:
  assumes "analyzeSignature amd64_abi (gx_Fn x) = Inr (gx_Plan x)" "x_stub labels ti x = Some code"
  shows "(\<forall>i\<in>set code. assembles i) \<longleftrightarrow> \<not> (\<exists>a\<in>set (extern_args (gx_Plan x)). narrow_copy a)"
proof -
  obtain moves where mv: "emitSysVToGoMoves (gx_Plan x) = Some moves" "code = stub_pre labels ti x moves @ [Call (gx_GoSym x @ ''.goabi'')] @ stub_post labels ti x"
    using assms(2) by (auto simp: x_stub_def bind_eq_Some_conv)
  obtain gs xs where g: "parallelGPR (filter (\<lambda>m. src m \<noteq> dst m) (bank_moves True (\<lambda>_. ()) (extern_args (gx_Plan x)))) = Some gs"
      "parallelXMM (filter (\<lambda>m. src m \<noteq> dst m) (bank_moves False id (extern_args (gx_Plan x)))) = Some xs"
      "moves = gs @ xs @ concat (map extern_store (extern_args (gx_Plan x)))"
    using mv(1) by (auto simp: emitSysVToGoMoves_def Let_def bind_eq_Some_conv)
  have regs: "\<forall>i\<in>set gs. assembles i" "\<forall>i\<in>set xs. assembles i"
    using g(1,2) by (auto simp: parallelGPR_def parallelXMM_def dest!: par_moves_emits)
  have rest: "\<forall>i\<in>set (stub_post labels ti x). assembles i"
    "(\<forall>i\<in>set (stub_pre labels ti x moves). assembles i) \<longleftrightarrow> (\<forall>i\<in>set moves. assembles i)"
    by (auto simp: stub_pre_def stub_post_def x_header_def xmark_def saves_def restores_def Let_def)
  have "(\<forall>i\<in>set code. assembles i) \<longleftrightarrow> (\<forall>i\<in>set moves. assembles i)" using rest by (auto simp: mv(2))
  also have "\<dots> \<longleftrightarrow> (\<forall>a\<in>set (extern_args (gx_Plan x)). \<forall>i\<in>set (extern_store a). assembles i)" using regs by (auto simp: g(3))
  also have "\<dots> \<longleftrightarrow> \<not> (\<exists>a\<in>set (extern_args (gx_Plan x)). narrow_copy a)" using extern_store_assembles [OF assms(1)] by blast
  finally show ?thesis .
qed

section \<open>Escapes\<close>

text \<open>How LLVM prints a character of a string constant, and the terminating NUL.\<close>

definition hexU :: "nat \<Rightarrow> char" where
  "hexU n = (if n < 10 then char_of (48 + n) else char_of (55 + n))"

definition llvm_escape :: "(char \<Rightarrow> bool) \<Rightarrow> string \<Rightarrow> string" where
  "llvm_escape esc s = concat (map (\<lambda>c. if esc c then [CHR 0x5C, hexU (of_char c div 16), hexU (of_char c mod 16)] else [c]) s)"

lemma hexU_val: "n < 16 \<Longrightarrow> hex_val (hexU n) = word_of_nat n"
  by (cases "n < 10") (auto simp: hex_val_def hexU_def Let_def)

lemma decode_plain: "c \<noteq> CHR 0x5C \<Longrightarrow> decodeLLVMCString (c # s) = c # decodeLLVMCString s"
  by (cases "c # s" rule: decodeLLVMCString.cases) auto

lemma bit_word_of_nat: "bit (word_of_nat n :: 'a::len word) k \<longleftrightarrow> k < LENGTH('a) \<and> bit n k"
proof -
  have "bit (word_of_nat n :: 'a word) k \<longleftrightarrow> k < LENGTH('a) \<and> bit (int n) k" by transfer (simp add: bit_take_bit_iff)
  then show ?thesis by (simp add: bit_of_nat_iff_bit)
qed

lemma nibbles: "push_bit 4 (word_of_nat (n div 16)) OR word_of_nat (n mod 16) = (word_of_nat n :: byte)"
proof -
  have "n div 16 = drop_bit 4 n" "n mod 16 = take_bit 4 n" by (simp_all add: drop_bit_eq_div take_bit_eq_mod)
  then show ?thesis by (auto intro!: bit_word_eqI simp: bit_or_iff bit_push_bit_iff bit_word_of_nat bit_drop_bit_eq bit_take_bit_iff)
qed

lemma decode_hex:
  assumes "c \<noteq> CHR 0x00"
  shows "decodeLLVMCString (CHR 0x5C # hexU (of_char c div 16) # hexU (of_char c mod 16) # s) = c # decodeLLVMCString s"
proof -
  have lt: "of_char c div 16 < (16 :: nat)" using nat_of_char_less_256 [of c] by (simp add: less_mult_imp_div_less)
  have b: "push_bit 4 (hex_val (hexU (of_char c div 16))) OR hex_val (hexU (of_char c mod 16)) = byte_of_char c"
    using nibbles [of "of_char c"] lt by (simp add: hexU_val byte_of_char_def)
  have "byte_of_char c \<noteq> byte_of_char (CHR 0x00)" using assms char_of_byte_of_char by metis
  then have "byte_of_char c \<noteq> 0" by (simp add: byte_of_char_def)
  then show ?thesis by (simp add: b)
qed



section \<open>Examples\<close>

definition ptr_extern :: goExtern where
  "ptr_extern = \<lparr>gx_CName = ''f'', gx_GoSym = ''main.F'', gx_Fn = gf_fn ptr_fn, gx_Plan = gf_plan ptr_fn, gx_Spill = 32\<rparr>"

lemma ptr_extern_plan: "analyzeSignature amd64_abi (gx_Fn ptr_extern) = Inr (gx_Plan ptr_extern)"
  using ptr_plan by (simp add: ptr_extern_def)

theorem stub_correct_witness:
  "\<exists>pre post. x_stub True 0 ptr_extern = Some (pre @ [Call ''main.F.goabi''] @ post) \<and>
     arg_val 0 (x_view (run pre example_st)) ''ptr'' (Reg ''rcx'') = arg_val 4096 (x_view example_st) ''ptr'' (Stk 16)"
proof -
  have args: "extern_args (gx_Plan ptr_extern) = [(''ptr'', Stk 0, Reg ''rax''), (''i64'', Stk 8, Reg ''rbx''), (''ptr'', Stk 16, Reg ''rcx'')]" by code_simp
  have ro: "reg_only (extern_args (gx_Plan ptr_extern))" unfolding args by (simp add: reg_only_def)
  have st: "0 \<le> gx_Spill ptr_extern" "0 \<le> x_bp example_st" "x_bp example_st < 2 ^ 64" "x_sp example_st + 8 = 4096" "gx_GoSym ptr_extern @ ''.goabi'' = ''main.F.goabi''"
    by (simp_all add: ptr_extern_def example_st_def)
  from stub_correct [OF ptr_extern_plan ro st(1-3), of True 0] show ?thesis unfolding args st(4,5) by fastforce
qed

definition ptr_stub :: "xins list" where
  "ptr_stub = (case x_stub True 0 ptr_extern of Some code \<Rightarrow> code | None \<Rightarrow> [])"

text \<open>Every instruction is four bytes long.\<close>

definition stub_labels :: "(string \<times> int) list" where
  "stub_labels = [(''f'', 0), (''.Lgocx_p0'', 4), (''.Lgocx_a0'', 12), (''.Lgocx_c0'', 52), (''.Lgocx_r0'', 56), (''.Lgocx_m0'', 80),
     (''.Lgocx_o0'', 84), (''.Lgocx_e0'', 88)]"

theorem stub_sp_delta_witness:
  "\<exists>t. asm (lab_fun stub_labels) (x_pcv_body 0 (ptr_extern\<lparr>gx_Spill := 80\<rparr>)) = enc_pcv [t] \<and> val_at (pt_Entries t) (word_of_nat 12) = 88"
proof -
  have c: "x_stub True 0 ptr_extern = Some ptr_stub"
  proof -
    have "x_stub True 0 ptr_extern \<noteq> None" by code_simp
    then show ?thesis by (auto simp: ptr_stub_def)
  qed
  let ?pre = "take 8 ptr_stub"
  have "let A = lab_fun stub_labels; c = ptr_stub in text_placed A x_lab (x_size (\<lambda>_. 3)) 0 c" by code_simp
  then have p: "text_placed (lab_fun stub_labels) x_lab (x_size (\<lambda>_. 3)) 0 ptr_stub" unfolding Let_def .
  have n: "sum_list (map (x_size (\<lambda>_. 3)) ptr_stub) < 100" "Ret \<notin> set ?pre" "sum_list (map (x_size (\<lambda>_. 3)) ?pre) = 12"
    "x_sp example_st - x_sp (run ?pre example_st) = 88" "stub_frame (gx_Spill ptr_extern) = 80" by code_simp+
  from n(1) have lt: "sum_list (map (x_size (\<lambda>_. 3)) ptr_stub) < 2 ^ 64" by simp
  have x: "0 \<le> gx_Spill ptr_extern" "gx_CName ptr_extern = lf_Name (gx_Fn ptr_extern)" by code_simp+
  from stub_sp_delta [OF c x p lt append_take_drop_id [symmetric, of ptr_stub 8] n(2), of example_st] show ?thesis unfolding n(3,4,5) by simp
qed

definition ext_func :: "string list \<Rightarrow> llFunc" where
  "ext_func ps = \<lparr>lf_Name = ''f'', lf_Ret = ''void'', lf_RetAttrs = [], lf_RetABI = [], lf_Params = ps, lf_ParamAttrs = map (\<lambda>_. []) ps,
     lf_ParamABI = map (\<lambda>_. []) ps, lf_Varargs = False, lf_Internal = False, lf_NonC = False\<rparr>"

definition mixed_extern :: "string \<Rightarrow> goExtern" where
  "mixed_extern ty = (let d = ext_func (replicate 9 ''i64'' @ [ty]) in
     \<lparr>gx_CName = ''f'', gx_GoSym = ''main.F'', gx_Fn = d, gx_Plan = plan_of amd64_abi d, gx_Spill = 80\<rparr>)"

lemma mixed_plan: "ty \<in> {''i32'', ''ptr''} \<Longrightarrow> analyzeSignature amd64_abi (gx_Fn (mixed_extern ty)) = Inr (gx_Plan (mixed_extern ty))"
proof -
  assume ty: "ty \<in> {''i32'', ''ptr''}"
  have "list_all (\<lambda>t. isl (analyzeSignature amd64_abi (ext_func (replicate 9 ''i64'' @ [t]))) = False) [''i32'', ''ptr'']" by code_simp
  then have "isl (analyzeSignature amd64_abi (ext_func (replicate 9 ''i64'' @ [ty]))) = False" using ty by auto
  from plan_of [OF this] show ?thesis by (simp add: mixed_extern_def Let_def)
qed

theorem stub_stack_map_witness:
  "\<exists>t nargs args locals. info_of (mixed_extern ''ptr'') = Inr t \<and> x_gc_bits (mixed_extern ''ptr'') t = Inr (nargs, 10, args, locals) \<and> has_word args 0 \<and> \<not> has_word locals 0"
proof -
  let ?x = "mixed_extern ''ptr''"
  have "list_all (\<lambda>p. spill_sizes (fst p) \<noteq> None) (sd_Params (pl_Go (gx_Plan ?x)))" by code_simp
  then have ty: "typed_plan (gx_Plan ?x)" by (auto simp: typed_plan_def list_all_iff)
  have f: "gx_Spill ?x div 8 = 10" "stack_ptrs (sd_Params (pl_Go (gx_Plan ?x))) = [0]" "sd_StackArgsSize (pl_Go (gx_Plan ?x)) = 8" by code_simp+
  from stub_stack_map [OF mixed_plan ty] obtain t nargs args locals where t: "info_of ?x = Inr t" "x_gc_bits ?x t = Inr (nargs, 10, args, locals)"
    "\<forall>k. 8 * int k < 8 \<longrightarrow> has_word args k = (8 * int k \<in> set [0])" "\<forall>k. \<not> has_word locals k" unfolding f by blast
  from t(3) [rule_format, of 0] t show ?thesis by auto
qed

theorem stub_assembles_witness:
  "\<exists>code. x_stub False 0 (mixed_extern ''i32'') = Some code \<and> \<not> (\<forall>i\<in>set code. assembles i)"
proof -
  obtain code where c: "x_stub False 0 (mixed_extern ''i32'') = Some code"
  proof -
    have "x_stub False 0 (mixed_extern ''i32'') \<noteq> None" by code_simp
    then show thesis using that by blast
  qed
  have "list_ex narrow_copy (extern_args (gx_Plan (mixed_extern ''i32'')))" by code_simp
  then show ?thesis using stub_assembles [OF mixed_plan c] c by (auto simp: list_ex_iff)
qed

section \<open>A stub that is wrong\<close>

definition ext_of :: "string list \<Rightarrow> goExtern" where
  "ext_of ps = (case collectGoExterns [(''f'', ''main.F'')] [ext_func ps] amd64_abi of
     Inr (x # _, _) \<Rightarrow> x | _ \<Rightarrow> \<lparr>gx_CName = [], gx_GoSym = [], gx_Fn = ext_func [], gx_Plan = gf_plan ptr_fn, gx_Spill = 0\<rparr>)"

definition pre_of :: "goExtern \<Rightarrow> xins list" where
  "pre_of x = (case x_stub False 0 x of Some code \<Rightarrow> takeWhile (\<lambda>i. i \<noteq> Call (gx_GoSym x @ ''.goabi'')) code | None \<Rightarrow> [])"

definition pairs_sig :: "string list" where
  "pairs_sig = replicate 5 ''i64'' @ [''{ i64, i64 }'', ''{ i64, i64 }'', ''i64'']"

definition r9_st :: xst where
  "r9_st = example_st\<lparr>x_gpr := (\<lambda>r. if r = ''r9'' then 42 else 0)\<rparr>"

text \<open>In the stub of \<open>f(i64 x 5, {i64, i64}, {i64, i64}, i64)\<close> the last argument arrives in \<open>r9\<close> and Go takes it
  at \<open>0(rsp)\<close>, but \<open>r9\<close> is overwritten by a member of the first structure before it is stored: with 42
  in \<open>r9\<close> and the rest zero, Go is called with 0.\<close>

lemma stub_clobbers_register:
  "(''i64'', Reg ''r9'', Stk 0) \<in> set (extern_args (gx_Plan (ext_of pairs_sig))) \<and>
   arg_val 0 (x_view r9_st) ''i64'' (Reg ''r9'') = 42 \<and>
   (let st = run (pre_of (ext_of pairs_sig)) r9_st in arg_val (x_sp st) (x_view st) ''i64'' (Stk 0) = 0)"
  by code_simp

end
