(* ===== verification/Gometa.thy ===== *)
theory Gometa
  imports Goc_Prelude Ll_Parse
begin

text \<open>
  \<open>internal/gometa/meta.go\<close>: the facts of one Go release that the object writer needs, the check that
  a set of facts is complete, and the choice of the facts for a Go version. Reading JSON belongs to
  the standard library's decoder and is a parameter of \<open>Parse_meta\<close>; the embedded files are a map from
  their names. Go maps are HOL maps; a missing key of a Go map reads as zero, which is \<open>geti\<close>.
\<close>

section \<open>Results with errors\<close>

definition sbind :: "'e + 'a \<Rightarrow> ('a \<Rightarrow> 'e + 'b) \<Rightarrow> 'e + 'b" where
  "sbind m k = (case m of Inl e \<Rightarrow> Inl e | Inr x \<Rightarrow> k x)"

lemma sbind_simps [simp]: "sbind (Inl e) k = Inl e" "sbind (Inr x) k = k x"
  by (simp_all add: sbind_def)

lemma sbind_Inr_iff: "sbind m k = Inr y \<longleftrightarrow> (\<exists>x. m = Inr x \<and> k x = Inr y)"
  by (cases m) auto

lemma sbind_InrE [elim]:
  assumes "sbind m k = Inr y"
  obtains x where "m = Inr x" "k x = Inr y"
  using assms by (auto simp: sbind_Inr_iff)

fun foldE :: "('a \<Rightarrow> 's \<Rightarrow> 'e + 's) \<Rightarrow> 'a list \<Rightarrow> 's \<Rightarrow> 'e + 's" where
  "foldE f [] s = Inr s"
| "foldE f (x # xs) s = sbind (f x s) (foldE f xs)"

lemma foldE_append: "foldE f (xs @ ys) s = sbind (foldE f xs s) (foldE f ys)"
proof (induction xs arbitrary: s)
  case (Cons x xs)
  show ?case by (cases "f x s") (simp_all add: Cons)
qed simp

lemma foldE_inv:
  assumes "foldE f xs s = Inr s'" "P s" "\<And>x s s'. x \<in> set xs \<Longrightarrow> P s \<Longrightarrow> f x s = Inr s' \<Longrightarrow> P s'"
  shows "P s'"
  using assms
proof (induction xs arbitrary: s)
  case (Cons x xs)
  then obtain t where t: "f x s = Inr t" "foldE f xs t = Inr s'" by auto
  have "P t" by (rule Cons.prems(3) [OF _ Cons.prems(2) t(1)]) simp
  show ?case by (rule Cons.IH [OF t(2) \<open>P t\<close>]) (rule Cons.prems(3), auto)
qed simp

section \<open>The facts\<close>

type_synonym facts = "string \<rightharpoonup> int"

definition geti :: "facts \<Rightarrow> string \<Rightarrow> int" where
  "geti m k = (case m k of None \<Rightarrow> 0 | Some v \<Rightarrow> v)"

record Builtin =
  bi_Name :: string
  bi_ABI :: int

record ObjectFacts =
  ob_Magic :: string
  ob_Blocks :: "string list"
  ob_ObjFlags :: facts
  ob_SymFlags :: facts
  ob_SymFlags2 :: facts
  ob_AuxTypes :: facts
  ob_PkgIdx :: facts
  ob_SymABIStatic :: int
  ob_HashSize :: int
  ob_Hash64Size :: int
  ob_Builtins :: "Builtin list"

record WriterFacts =
  wf_ContentHash :: string
  wf_AsmNamedSymsLinkname :: bool
  wf_Align :: string
  wf_TrimInlineHash :: bool
  wf_AsmArgsStackmap :: bool
  wf_TypePrefix :: string
  wf_ItabPrefix :: string
  wf_SortRelocs :: bool
  wf_FuncInfoStartLine :: bool
  wf_InlFileSymRefs :: bool
  wf_FuncFlags :: facts
  wf_FuncIDs :: facts
  wf_RuntimeFuncIDs :: facts

record ABIFacts =
  af_Funcdata :: facts
  af_Pcdata :: facts
  af_StackSmall :: int
  af_StackBig :: int
  af_GOffsets :: facts

record ArchFacts =
  ar_PtrSize :: int
  ar_MinLC :: int
  ar_GReg :: string
  ar_IntArgs :: "string list"
  ar_FloatArgs :: "string list"
  ar_Morestack :: string
  ar_StackCopyAdjustsFP :: bool

record AddrxFlavor =
  ax_MaxFuncs :: int
  ax_Reloc :: string
  ax_Size :: int

record DWARFFacts =
  dw_AbbrevFunction :: int
  dw_FuncDIE :: string
  dw_Lines :: string
  dw_TextAddrx :: "AddrxFlavor list"

record Meta =
  me_Schema :: int
  me_Go :: string
  me_Object :: ObjectFacts
  me_Writer :: WriterFacts
  me_Kinds :: facts
  me_Relocs :: facts
  me_ABI :: ABIFacts
  me_Arch :: "string \<rightharpoonup> ArchFacts"
  me_DWARF :: DWARFFacts

definition Schema :: int where "Schema = 1"

section \<open>check\<close>

definition need :: "string \<Rightarrow> facts \<Rightarrow> string list \<Rightarrow> string list" where
  "need grp hs names = map (\<lambda>n. grp @ ''.'' @ n) (filter (\<lambda>n. hs n = None) names)"

definition check_missing :: "Meta \<Rightarrow> string list" where
  "check_missing m =
     need ''relocs'' (me_Relocs m) [''R_ADDR'', ''R_CALL'', ''R_PCREL'', ''R_CALLARM64'', ''R_ADDRARM64'',
       ''R_ARM64_GOTPCREL'', ''R_ARM64_PCREL'', ''R_ARM64_LDST8'', ''R_ARM64_LDST16'', ''R_ARM64_LDST32'', ''R_ARM64_LDST64'', ''R_ARM64_LDST128''] @
     need ''sym_kinds'' (me_Kinds m) [''Sxxx'', ''STEXT'', ''SRODATA'', ''SDATA'', ''SBSS'', ''SNOPTRDATA'', ''SNOPTRBSS'', ''SDWARFFCN'', ''SDWARFLINES''] @
     need ''object.obj_flags'' (ob_ObjFlags (me_Object m)) [''FromAssembly''] @
     need ''object.sym_flags'' (ob_SymFlags (me_Object m)) [''Dupok'', ''Local'', ''Typelink'', ''Leaf'', ''NoSplit'', ''ReflectMethod'', ''GoType''] @
     need ''object.sym_flags2'' (ob_SymFlags2 (me_Object m)) [''UsedInIface'', ''Itab''] @
     need ''object.aux_types'' (ob_AuxTypes (me_Object m)) [''Gotype'', ''FuncInfo'', ''Funcdata'', ''DwarfInfo'', ''DwarfLoc'',
       ''DwarfRanges'', ''DwarfLines'', ''Pcsp'', ''Pcfile'', ''Pcline'', ''Pcinline'', ''Pcdata''] @
     need ''object.pkg_idx'' (ob_PkgIdx (me_Object m)) [''None'', ''Hashed64'', ''Hashed'', ''Builtin'', ''Self''] @
     need ''abi.funcdata'' (af_Funcdata (me_ABI m)) [''ArgsPointerMaps'', ''LocalsPointerMaps'', ''ArgInfo''] @
     need ''abi.pcdata'' (af_Pcdata (me_ABI m)) [''UnsafePoint'', ''StackMapIndex''] @
     need ''writer.func_flags'' (wf_FuncFlags (me_Writer m)) [''Asm'']"

datatype meta_err = Lacks string "string list" | LacksMagic string | UnknownHash string string | UnknownAlign string string
  | UnknownDIE string string | LacksPrefixes string | UnknownLines string string | LacksArch string string
  | BadJSON string | WrongSchema int | BadVersion string | NoMetadata string string

definition arch_missing :: "Meta \<Rightarrow> string \<Rightarrow> bool" where
  "arch_missing m a = (case me_Arch m a of None \<Rightarrow> True | Some ar \<Rightarrow> ar_MinLC ar = 0 \<or> ar_PtrSize ar = 0)"

definition check :: "Meta \<Rightarrow> meta_err + unit" where
  "check m = (let w = me_Writer m; d = me_DWARF m; go = me_Go m in
     if check_missing m \<noteq> [] then Inl (Lacks go (check_missing m))
     else if ob_Magic (me_Object m) = [] \<or> ob_HashSize (me_Object m) = 0 then Inl (LacksMagic go)
     else if wf_ContentHash w \<notin> set [''notsha256'', ''sha256-prefix01'', ''sha1''] then Inl (UnknownHash go (wf_ContentHash w))
     else if wf_Align w \<notin> set [''heuristic'', ''explicit''] then Inl (UnknownAlign go (wf_Align w))
     else if dw_FuncDIE d \<notin> set [''v0'', ''v1'', ''v2''] then Inl (UnknownDIE go (dw_FuncDIE d))
     else if wf_TypePrefix w = [] \<or> wf_ItabPrefix w = [] then Inl (LacksPrefixes go)
     else if dw_Lines d \<noteq> ''v1'' then Inl (UnknownLines go (dw_Lines d))
     else case find (arch_missing m) [''amd64'', ''arm64''] of Some a \<Rightarrow> Inl (LacksArch go a) | None \<Rightarrow> Inr ())"

section \<open>Choosing a release\<close>

text \<open>\<open>minorRE\<close> is \<open>^go(\d+)\.(\d+)\<close>; the digits are taken greedily.\<close>

definition Minor :: "string \<Rightarrow> string option" where
  "Minor version = (case version of
     CHR ''g'' # CHR ''o'' # s \<Rightarrow> (let maj = takeWhile c_digit s; s' = dropWhile c_digit s in
       case s' of CHR ''.'' # t \<Rightarrow> (let mi = takeWhile c_digit t in
         if maj = [] \<or> mi = [] then None else Some (''go'' @ maj @ ''.'' @ mi))
       | _ \<Rightarrow> None)
   | _ \<Rightarrow> None)"

definition Parse_meta :: "('j \<Rightarrow> meta_err + Meta) \<Rightarrow> 'j \<Rightarrow> meta_err + Meta" where
  "Parse_meta unmarshal b = sbind (unmarshal b) (\<lambda>m.
     if me_Schema m \<noteq> Schema then Inl (WrongSchema (me_Schema m)) else sbind (check m) (\<lambda>_. Inr m))"

definition ForVersion :: "('j \<Rightarrow> meta_err + Meta) \<Rightarrow> (string \<rightharpoonup> 'j) \<Rightarrow> string \<Rightarrow> meta_err + Meta" where
  "ForVersion unmarshal data version = (case Minor version of
     None \<Rightarrow> Inl (BadVersion version)
   | Some mi \<Rightarrow> (case data (''data/'' @ mi @ ''.json'') of
       None \<Rightarrow> Inl (NoMetadata version mi)
     | Some b \<Rightarrow> Parse_meta unmarshal b))"

definition Reloc_num :: "Meta \<Rightarrow> string \<Rightarrow> u16 option" where
  "Reloc_num m name = map_option word_of_int (me_Relocs m name)"

definition Kind_num :: "Meta \<Rightarrow> string \<Rightarrow> u8 option" where
  "Kind_num m name = map_option word_of_int (me_Kinds m name)"

section \<open>What a successful check guarantees\<close>

lemma need_nil: "need g h ns = [] \<longleftrightarrow> (\<forall>n\<in>set ns. h n \<noteq> None)"
  by (auto simp: need_def filter_empty_conv)

lemma check_ok:
  assumes "check m = Inr ()"
  shows "check_missing m = []" "wf_ContentHash (me_Writer m) \<in> {''notsha256'', ''sha256-prefix01'', ''sha1''}"
    "wf_Align (me_Writer m) \<in> {''heuristic'', ''explicit''}" "a \<in> {''amd64'', ''arm64''} \<Longrightarrow> \<exists>ar. me_Arch m a = Some ar \<and> ar_MinLC ar \<noteq> 0 \<and> ar_PtrSize ar \<noteq> 0"
  using assms by (auto simp: check_def Let_def arch_missing_def split: if_splits option.splits)

lemma check_kinds: "check m = Inr () \<Longrightarrow> k \<in> {''Sxxx'', ''STEXT'', ''SRODATA'', ''SDATA'', ''SBSS'', ''SNOPTRDATA'', ''SNOPTRBSS'', ''SDWARFFCN'', ''SDWARFLINES''} \<Longrightarrow> \<exists>v. me_Kinds m k = Some v"
  using check_ok(1) [of m] unfolding check_missing_def append_is_Nil_conv need_nil by auto

lemma ForVersion_checked: "ForVersion u data v = Inr m \<Longrightarrow> me_Schema m = Schema \<and> check m = Inr ()"
  by (auto simp: ForVersion_def Parse_meta_def sbind_Inr_iff split: option.splits if_splits)

end
