(* ===== verification/Goobj_Link.thy ===== *)
theory Goobj_Link
  imports Gometa "HOL-Library.AList"
begin

text \<open>
  \<open>internal/goobj/link.go\<close> and \<open>dwarf.go\<close>: the symbols of a Go object under construction. The Go code
  shares symbols through pointers and updates them in place, so a \<open>Link\<close> holds a store of symbols and a
  pointer is an index into it (\<open>sid\<close>; \<open>None\<close> is nil). Nothing is ever removed from the store. A run-time
  panic of the Go code is the error \<open>Panic\<close>.
\<close>

type_synonym sid = nat
type_synonym i32 = "32 word"

section \<open>Data\<close>

record Reloc =
  rl_Off :: i32
  rl_Siz :: u8
  rl_Type :: string
  rl_Add :: i64
  rl_Sym :: "sid option"

record InlNode =
  in_Parent :: i32
  in_File :: u32
  in_Line :: i32
  in_Func :: "sid option"
  in_ParentPC :: i32

text \<open>The Go maps \<open>UsedFiles\<close> (a set) and \<open>funcdata\<close> are lists of keys and of key-value pairs.\<close>

record FuncInfo =
  fi_Args :: i32
  fi_Locals :: i32
  fi_FuncID :: u8
  fi_FuncFlag :: u8
  fi_StartLine :: i32
  fi_Pcsp :: "sid option"
  fi_Pcfile :: "sid option"
  fi_Pcline :: "sid option"
  fi_Pcinline :: "sid option"
  fi_Pcdata :: "sid option list"
  fi_Funcdata :: "sid option list"
  fi_UsedFiles :: "u32 list"
  fi_InlTree :: "InlNode list"
  fi_funcdata :: "(int \<times> sid option) list"
  fi_pcdataProg :: bool
  fi_dwarfInfo :: "sid option"
  fi_dwarfLines :: "sid option"
  fi_dwarfRanges :: "sid option"
  fi_funcInfoSym :: "sid option"

record Sym =
  sy_Name :: string
  sy_ABI :: u16
  sy_Kind :: string
  sy_P :: "byte list"
  sy_Size :: int
  sy_R :: "Reloc list"
  sy_Dupok :: bool
  sy_NoSplit :: bool
  sy_Local :: bool
  sy_Static :: bool
  sy_ContentAddressable :: bool
  sy_Pcdata :: bool
  sy_Align :: "16 word"
  sy_Func :: "FuncInfo option"
  sy_onList :: bool
  sy_indexed :: bool
  sy_pkgIdx :: i32
  sy_symIdx :: i32

record Link =
  lk_Meta :: Meta
  lk_Arch :: ArchFacts
  lk_Pkgpath :: string
  lk_DwTextCount :: int
  lk_Dwarf5 :: bool
  lk_RegabiWrappers :: bool
  lk_store :: "Sym list"
  lk_hash :: "string \<rightharpoonup> sid"
  lk_funchash :: "string \<rightharpoonup> sid"
  lk_Text :: "sid list"
  lk_Data :: "sid list"
  lk_files :: "string list"
  lk_fileIdx :: "string \<rightharpoonup> nat"
  lk_flushed :: bool
  lk_defs :: "sid list"
  lk_hashed64 :: "sid list"
  lk_hashed :: "sid list"
  lk_nonpkgdefs :: "sid list"
  lk_nonpkgrefs :: "sid list"

datatype link_err = NoArch string | EmptyPkg | Redeclared string | FlushTwice | Panic string
  | NotPcTable string | UndefContent string | NamedContent string | ContentReloc | BadContentHash string
  | NoReloc string | NoKind string | WriteBeforeFlush | BadBlocks

definition ABI0 :: u16 where "ABI0 = 0"
definition ABIInternal :: u16 where "ABIInternal = 1"

text \<open>The zero value of a symbol with a name and an ABI, and of a function.\<close>

definition sym0 :: Sym where
  "sym0 = \<lparr>sy_Name = [], sy_ABI = 0, sy_Kind = [], sy_P = [], sy_Size = 0, sy_R = [], sy_Dupok = False, sy_NoSplit = False, sy_Local = False,
     sy_Static = False, sy_ContentAddressable = False, sy_Pcdata = False, sy_Align = 0, sy_Func = None, sy_onList = False,
     sy_indexed = False, sy_pkgIdx = 0, sy_symIdx = 0\<rparr>"

definition func0 :: FuncInfo where
  "func0 = \<lparr>fi_Args = 0, fi_Locals = 0, fi_FuncID = 0, fi_FuncFlag = 0, fi_StartLine = 0, fi_Pcsp = None, fi_Pcfile = None, fi_Pcline = None,
     fi_Pcinline = None, fi_Pcdata = [], fi_Funcdata = [], fi_UsedFiles = [], fi_InlTree = [], fi_funcdata = [], fi_pcdataProg = False,
     fi_dwarfInfo = None, fi_dwarfLines = None, fi_dwarfRanges = None, fi_funcInfoSym = None\<rparr>"

section \<open>The store\<close>

definition sym_at :: "Link \<Rightarrow> sid \<Rightarrow> Sym" where
  "sym_at l s = lk_store l ! s"

definition upd :: "sid \<Rightarrow> (Sym \<Rightarrow> Sym) \<Rightarrow> Link \<Rightarrow> Link" where
  "upd s f l = l\<lparr>lk_store := (lk_store l)[s := f (lk_store l ! s)]\<rparr>"

definition alloc :: "Sym \<Rightarrow> Link \<Rightarrow> sid \<times> Link" where
  "alloc y l = (length (lk_store l), l\<lparr>lk_store := lk_store l @ [y]\<rparr>)"

definition upd_func :: "sid \<Rightarrow> (FuncInfo \<Rightarrow> FuncInfo) \<Rightarrow> Link \<Rightarrow> link_err + Link" where
  "upd_func s f l = (case sy_Func (sym_at l s) of
     None \<Rightarrow> Inl (Panic ''nil FuncInfo'')
   | Some fi \<Rightarrow> Inr (upd s (\<lambda>y. y\<lparr>sy_Func := Some (f fi)\<rparr>) l))"

section \<open>Names and files\<close>

definition NewLink :: "Meta \<Rightarrow> string \<Rightarrow> string \<Rightarrow> link_err + Link" where
  "NewLink m arch pkgpath = (case me_Arch m arch of
     None \<Rightarrow> Inl (NoArch arch)
   | Some a \<Rightarrow> if pkgpath = [] then Inl EmptyPkg else Inr
       \<lparr>lk_Meta = m, lk_Arch = a, lk_Pkgpath = pkgpath, lk_DwTextCount = 0, lk_Dwarf5 = False, lk_RegabiWrappers = True,
        lk_store = [], lk_hash = Map.empty, lk_funchash = Map.empty, lk_Text = [], lk_Data = [], lk_files = [], lk_fileIdx = Map.empty,
        lk_flushed = False, lk_defs = [], lk_hashed64 = [], lk_hashed = [], lk_nonpkgdefs = [], lk_nonpkgrefs = []\<rparr>)"

definition LookupABI :: "string \<Rightarrow> u16 \<Rightarrow> Link \<Rightarrow> sid \<times> Link" where
  "LookupABI name abi l = (let h = (if abi = ABIInternal then lk_funchash l else lk_hash l) in
     case h name of
       Some s \<Rightarrow> (s, l)
     | None \<Rightarrow> (let (s, l') = alloc (sym0\<lparr>sy_Name := name, sy_ABI := abi\<rparr>) l in
         (s, if abi = ABIInternal then l'\<lparr>lk_funchash := (lk_funchash l')(name \<mapsto> s)\<rparr> else l'\<lparr>lk_hash := (lk_hash l')(name \<mapsto> s)\<rparr>)))"

definition Lookup :: "string \<Rightarrow> Link \<Rightarrow> sid \<times> Link" where
  "Lookup name l = LookupABI name ABI0 l"

definition AddFile :: "string \<Rightarrow> Link \<Rightarrow> nat \<times> Link" where
  "AddFile name l = (case lk_fileIdx l name of
     Some i \<Rightarrow> (i, l)
   | None \<Rightarrow> (let i = length (lk_files l) in
       (i, l\<lparr>lk_fileIdx := (lk_fileIdx l)(name \<mapsto> i), lk_files := lk_files l @ [name]\<rparr>)))"

section \<open>Data symbols\<close>

definition DUPOK :: int where "DUPOK = 1"
definition RODATA :: int where "RODATA = 2"
definition NOPTR :: int where "NOPTR = 4"

definition globl_sym :: "int \<Rightarrow> int \<Rightarrow> Sym \<Rightarrow> Sym" where
  "globl_sym sz flag y = (let k = (if sy_Kind y = [] then ''SBSS'' else sy_Kind y) in
     y\<lparr>sy_onList := True, sy_Size := sz, sy_Dupok := sy_Dupok y \<or> flag AND DUPOK \<noteq> 0,
       sy_Kind := (if flag AND RODATA \<noteq> 0 then ''SRODATA''
         else if flag AND NOPTR \<noteq> 0 then (if k = ''SDATA'' then ''SNOPTRDATA'' else ''SNOPTRBSS'') else k)\<rparr>)"

definition Globl :: "sid \<Rightarrow> int \<Rightarrow> int \<Rightarrow> Link \<Rightarrow> link_err + Link" where
  "Globl s sz flag l = (if sy_onList (sym_at l s) then Inl (Redeclared (sy_Name (sym_at l s)))
     else Inr ((upd s (globl_sym sz flag) l)\<lparr>lk_Data := lk_Data l @ [s]\<rparr>))"

definition prepwrite :: "nat \<Rightarrow> nat \<Rightarrow> Sym \<Rightarrow> Sym" where
  "prepwrite off siz y = (let n = off + siz in
     y\<lparr>sy_Kind := (if sy_Kind y = [] \<or> sy_Kind y = ''SBSS'' then ''SDATA'' else if sy_Kind y = ''SNOPTRBSS'' then ''SNOPTRDATA'' else sy_Kind y),
       sy_P := sy_P y @ replicate (n - length (sy_P y)) 0,
       sy_Size := (if int n > sy_Size y then int n else sy_Size y)\<rparr>)"

definition overwrite :: "nat \<Rightarrow> byte list \<Rightarrow> byte list \<Rightarrow> byte list" where
  "overwrite off bs p = take off p @ bs @ drop (off + length bs) p"

definition WriteInt :: "nat \<Rightarrow> nat \<Rightarrow> i64 \<Rightarrow> Sym \<Rightarrow> link_err + Sym" where
  "WriteInt off siz v y = (let y' = prepwrite off siz y in
     if siz \<in> {1, 2, 4, 8} then Inr (y'\<lparr>sy_P := overwrite off (le_n siz (unat v)) (sy_P y')\<rparr>)
     else Inl (Panic ''WriteInt: bad size''))"

definition WriteBytes :: "nat \<Rightarrow> byte list \<Rightarrow> Sym \<Rightarrow> Sym" where
  "WriteBytes off b y = (if b = [] then y else
     (let y' = prepwrite off (length b) y in y'\<lparr>sy_P := overwrite off b (sy_P y')\<rparr>))"

definition AddRel :: "Reloc \<Rightarrow> Sym \<Rightarrow> Sym" where
  "AddRel r y = y\<lparr>sy_R := sy_R y @ [r]\<rparr>"

section \<open>Functions\<close>

definition TextNoSplit :: int where "TextNoSplit = 1"
definition TextDupok :: int where "TextDupok = 2"

definition has_prefix :: "string \<Rightarrow> string \<Rightarrow> bool" where
  "has_prefix p s \<longleftrightarrow> take (length p) s = p"

definition funcID :: "Link \<Rightarrow> string \<Rightarrow> int" where
  "funcID l name = (let w = me_Writer (lk_Meta l); p = ''runtime.'' in
     case (if has_prefix p name then wf_RuntimeFuncIDs w (drop (length p) name) else None) of
       Some v \<Rightarrow> v
     | None \<Rightarrow> geti (wf_FuncIDs w) ''Normal'')"

definition init_text :: "Link \<Rightarrow> int \<Rightarrow> Sym \<Rightarrow> Sym" where
  "init_text l flag y = y\<lparr>sy_Func := Some (func0\<lparr>fi_StartLine := 1, fi_FuncID := word_of_int (funcID l (sy_Name y)),
       fi_FuncFlag := word_of_int (geti (wf_FuncFlags (me_Writer (lk_Meta l))) ''Asm'')\<rparr>),
     sy_onList := True, sy_Dupok := flag AND TextDupok \<noteq> 0, sy_NoSplit := flag AND TextNoSplit \<noteq> 0, sy_Kind := ''STEXT''\<rparr>"

definition InitText :: "sid \<Rightarrow> int \<Rightarrow> Link \<Rightarrow> link_err + Link" where
  "InitText s flag l = (let y = sym_at l s in
     if sy_Func y \<noteq> None \<or> sy_onList y then Inl (Redeclared (sy_Name y))
     else Inr ((upd s (init_text l flag) l)\<lparr>lk_Text := lk_Text l @ [s]\<rparr>))"

definition Funcdata :: "sid \<Rightarrow> int \<Rightarrow> sid \<Rightarrow> Link \<Rightarrow> link_err + Link" where
  "Funcdata s idx d = upd_func s (\<lambda>fi. fi\<lparr>fi_funcdata := AList.update idx (Some d) (fi_funcdata fi)\<rparr>)"

definition PCDATA :: "sid \<Rightarrow> Link \<Rightarrow> link_err + Link" where
  "PCDATA s = upd_func s (\<lambda>fi. fi\<lparr>fi_pcdataProg := True\<rparr>)"

definition pcsym :: "byte list \<Rightarrow> Link \<Rightarrow> sid \<times> Link" where
  "pcsym p l = alloc (sym0\<lparr>sy_Kind := ''SRODATA'', sy_ContentAddressable := True, sy_Pcdata := True, sy_Align := 1, sy_P := p, sy_Size := int (length p)\<rparr>) l"

definition Pctab :: "byte list \<Rightarrow> Link \<Rightarrow> sid \<times> Link" where
  "Pctab = pcsym"

section \<open>Names in the object\<close>

definition hex_digit :: "nat \<Rightarrow> char" where
  "hex_digit n = ''0123456789abcdef'' ! n"

text \<open>\<open>last_slash\<close> is the number of characters up to and including the last slash.\<close>

definition last_slash :: "string \<Rightarrow> nat" where
  "last_slash s = length s - length (takeWhile (\<lambda>c. c \<noteq> CHR ''/'') (rev s))"

definition esc_char :: "bool \<Rightarrow> char \<Rightarrow> string" where
  "esc_char after_slash c = (let n = of_char c :: nat in
     if n \<le> 32 \<or> (c = CHR ''.'' \<and> after_slash) \<or> c = CHR ''%'' \<or> c = CHR 0x22 \<or> n \<ge> 127
     then [CHR ''%'', hex_digit (n div 16), hex_digit (n mod 16)] else [c])"

definition PathToPrefix :: "string \<Rightarrow> string" where
  "PathToPrefix s = concat (map (\<lambda>(i, c). esc_char (last_slash s \<le> i) c) (enumerate 0 s))"

text \<open>\<open>base64.StdEncoding.EncodedLen(8)\<close> is 12.\<close>

definition TrimInlineHash :: "string \<Rightarrow> string" where
  "TrimInlineHash name = (let a = takeWhile (\<lambda>c. c \<noteq> CHR ''#'') name; b = drop (length a + 1) name; n = 12 in
     if CHR ''#'' \<notin> set name then name
     else if length b < n + 1 \<or> b ! n \<noteq> CHR ''#'' then name else a @ drop (n + 1) b)"

definition sortedFiles :: "u32 list \<Rightarrow> u32 list" where
  "sortedFiles fs = sort (remdups fs)"

section \<open>DWARF\<close>

text \<open>\<open>uleb\<close> of \<open>dwarf.go\<close> on a symbol; the 64-bit value leaves after at most ten groups.\<close>

function uleb_bytes :: "u64 \<Rightarrow> byte list" where
  "uleb_bytes v = (let c = ucast (v AND 0x7f) :: byte; v' = drop_bit 7 v in
     if v' \<noteq> 0 then (c OR 0x80) # uleb_bytes v' else [c])"
  by pat_completeness auto

termination
proof (relation "measure (\<lambda>v. unat v)", goal_cases)
  case (2 v c v')
  have "unat (drop_bit 7 v) = unat v div 128" by (simp add: drop_bit_eq_div unat_div_distrib)
  moreover have "unat v \<noteq> 0" using 2 by (auto simp: unat_eq_zero)
  ultimately show ?case using 2 by simp
qed simp

declare uleb_bytes.simps [simp del]

definition put :: "byte list \<Rightarrow> Sym \<Rightarrow> Sym" where
  "put bs y = (let p = sy_P y @ bs in y\<lparr>sy_P := p, sy_Size := int (length p)\<rparr>)"

definition addrxFlavor :: "Link \<Rightarrow> int \<Rightarrow> link_err + (string \<times> nat)" where
  "addrxFlavor l maxFuncs = (case find (\<lambda>f. maxFuncs \<le> ax_MaxFuncs f) (dw_TextAddrx (me_DWARF (lk_Meta l))) of
     Some f \<Rightarrow> Inr (ax_Reloc f, nat (ax_Size f))
   | None \<Rightarrow> Inl (Panic ''package has too many functions''))"

text \<open>A field of \<open>n\<close> zero bytes with a relocation on it.\<close>

definition put_rel :: "nat \<Rightarrow> string \<Rightarrow> int \<Rightarrow> sid \<Rightarrow> Sym \<Rightarrow> Sym" where
  "put_rel n ty add s y = AddRel \<lparr>rl_Off = word_of_int (sy_Size y), rl_Siz = word_of_nat n, rl_Type = ty, rl_Add = word_of_int add, rl_Sym = Some s\<rparr>
     (prepwrite (nat (sy_Size y)) n y)"

definition dwarf_info :: "Link \<Rightarrow> sid \<Rightarrow> FuncInfo \<Rightarrow> link_err + Sym" where
  "dwarf_info l s fn = (let m = lk_Meta l; y = sym_at l s; ptr = nat (ar_PtrSize (lk_Arch l));
       name = (if wf_TrimInlineHash (me_Writer m) then TrimInlineHash (sy_Name y) else sy_Name y);
       i0 = put (bytes_of name @ [0]) (put (uleb_bytes (word_of_int (dw_AbbrevFunction (me_DWARF m)))) (sym0\<lparr>sy_Kind := ''SDWARFFCN''\<rparr>)) in
     sbind (if dw_FuncDIE (me_DWARF m) = ''v2'' \<and> lk_Dwarf5 l
            then sbind (addrxFlavor l (lk_DwTextCount l * 2)) (\<lambda>(ty, sz). Inr (put (uleb_bytes (word_of_int (sy_Size y))) (put_rel sz ty 0 s i0)))
            else Inr (put_rel ptr ''R_ADDR'' (sy_Size y) s (put_rel ptr ''R_ADDR'' 0 s i0)))
       (\<lambda>i1. let i2 = put [1, 0x9c, 1, 0, 0, 0] i1;
                 i3 = (if dw_FuncDIE (me_DWARF m) \<noteq> ''v0'' then put (uleb_bytes (word_of_int (sint (fi_StartLine fn)))) i2 else i2) in
          Inr (put [if sy_Static y then 0 else 1, 0] i3)))"

definition dwarf_lines :: "Link \<Rightarrow> sid \<Rightarrow> Sym" where
  "dwarf_lines l s = (let ptr = nat (ar_PtrSize (lk_Arch l)) in
     put [0, 1, 1] (put (uleb_bytes (word_of_int (sy_Size (sym_at l s)))) (put [2]
       (put_rel ptr ''R_ADDR'' 0 s (put [2] (put (uleb_bytes (word_of_nat (1 + ptr))) (put [0] (sym0\<lparr>sy_Kind := ''SDWARFLINES''\<rparr>))))))))"

definition dwarf :: "sid \<Rightarrow> Link \<Rightarrow> link_err + Link" where
  "dwarf s l = (case sy_Func (sym_at l s) of
     None \<Rightarrow> Inl (Panic ''nil FuncInfo'')
   | Some fn \<Rightarrow> sbind (dwarf_info l s fn) (\<lambda>info.
       let (i, l1) = alloc info l; (n, l2) = alloc (dwarf_lines l s) l1; (r, l3) = alloc (sym0\<lparr>sy_Kind := ''SDWARFRANGE''\<rparr>) l2 in
       upd_func s (\<lambda>fi. fi\<lparr>fi_dwarfInfo := Some i, fi_dwarfLines := Some n, fi_dwarfRanges := Some r\<rparr>) l3))"

section \<open>Flush\<close>

definition derived :: "sid \<Rightarrow> string \<Rightarrow> Link \<Rightarrow> sid option \<times> Link" where
  "derived s name l = (if sy_Static (sym_at l s) then (None, l) else (let (d, l') = Lookup name l in (Some d, l')))"

definition derive_funcdata :: "sid \<Rightarrow> int \<Rightarrow> string \<Rightarrow> FuncInfo \<times> Link \<Rightarrow> FuncInfo \<times> Link" where
  "derive_funcdata s idx name = (\<lambda>(fn, l). case map_of (fi_funcdata fn) idx of
     Some _ \<Rightarrow> (fn, l)
   | None \<Rightarrow> (let (d, l') = derived s name l in (fn\<lparr>fi_funcdata := AList.update idx d (fi_funcdata fn)\<rparr>, l')))"

definition slots_len :: "(int \<times> sid option) list \<Rightarrow> nat" where
  "slots_len fd = nat (foldl (\<lambda>n (i, _). if i + 1 > n then i + 1 else n) 0 fd)"

definition funcdata_slots :: "(int \<times> sid option) list \<Rightarrow> link_err + sid option list" where
  "funcdata_slots fd = (if \<exists>(i, _)\<in>set fd. i < 0 then Inl (Panic ''index out of range'')
     else Inr (map (\<lambda>k. case map_of fd (int k) of Some d \<Rightarrow> d | None \<Rightarrow> None) [0..<slots_len fd]))"

definition flush_text :: "sid \<Rightarrow> Link \<Rightarrow> link_err + Link" where
  "flush_text s l = (let m = lk_Meta l; y = sym_at l s; fd = af_Funcdata (me_ABI m) in
     case sy_Func y of
       None \<Rightarrow> Inl (Panic ''nil FuncInfo'')
     | Some fn \<Rightarrow>
         (let hasProgs = fi_funcdata fn \<noteq> [] \<or> fi_pcdataProg fn;
              (fn', l') = (if wf_AsmArgsStackmap (me_Writer m) \<and> has_prefix (PathToPrefix (lk_Pkgpath l) @ ''.'') (sy_Name y) \<and> sy_ABI y = ABI0 \<and>
                              sy_Name y \<noteq> ''runtime.addmoduledata''
                 then derive_funcdata s (geti fd ''ArgInfo'') (sy_Name y @ ''.arginfo'' @ dec_nat (unat (sy_ABI y)))
                   (derive_funcdata s (geti fd ''ArgsPointerMaps'') (sy_Name y @ ''.args_stackmap'') (fn, l))
                 else (fn, l)) in
          sbind (funcdata_slots (fi_funcdata fn')) (\<lambda>slots.
          let (pc, l'') = pcsym [0, 0, 0] l' in
          dwarf s (upd s (\<lambda>y. y\<lparr>sy_Func := Some (fn'\<lparr>fi_Funcdata := slots, fi_UsedFiles := (if hasProgs then [0] else []), fi_Pcinline := Some pc\<rparr>)\<rparr>) l''))))"

definition Flush :: "Link \<Rightarrow> link_err + Link" where
  "Flush l = (if lk_flushed l then Inl FlushTwice
     else foldE flush_text (lk_Text l) (l\<lparr>lk_flushed := True\<rparr>))"

end
