(* ===== verification/Sha.thy ===== *)
theory Sha
  imports Goc_Prelude
begin

text \<open>
  SHA-256 and SHA-1 of the Go standard library (\<open>crypto/sha256\<close>, \<open>crypto/sha1\<close>), as \<open>contentHash\<close> of
  \<open>internal/goobj/write.go\<close> uses them: the sum of a byte slice.
\<close>

definition rotr :: "nat \<Rightarrow> u32 \<Rightarrow> u32" where
  "rotr n x = drop_bit n x OR push_bit (32 - n) x"

definition rotl :: "nat \<Rightarrow> u32 \<Rightarrow> u32" where
  "rotl n x = push_bit n x OR drop_bit (32 - n) x"

text \<open>Big-endian words and the padding of a message to blocks of 64 bytes.\<close>

definition be32 :: "u32 \<Rightarrow> byte list" where
  "be32 v = rev (le32 v)"

definition un_be32 :: "byte list \<Rightarrow> u32" where
  "un_be32 bs = un_le32 (rev (take 4 bs))"

definition pad :: "byte list \<Rightarrow> byte list" where
  "pad m = m @ [0x80] @ replicate ((119 - length m mod 64) mod 64) 0 @ rev (le64 (word_of_nat (8 * length m)))"

fun chunks :: "nat \<Rightarrow> 'a list \<Rightarrow> 'a list list" where
  "chunks n [] = []"
| "chunks n (x # xs) = take n (x # xs) # chunks n (drop (n - 1) xs)"

definition block_words :: "byte list \<Rightarrow> u32 list" where
  "block_words b = map un_be32 (chunks 4 b)"

section \<open>SHA-256\<close>

text \<open>The constants are the first 32 bits of the fractional parts of the cube roots of the first 64
  primes, and of the square roots of the first eight; \<open>root_frac k p\<close> finds the bits of the \<open>k\<close>-th root of
  \<open>p\<close> from the top.\<close>

definition primes_to :: "int \<Rightarrow> int list" where
  "primes_to n = filter (\<lambda>p. list_all (\<lambda>q. p mod q \<noteq> 0) [2..p - 1]) [2..n]"

definition root_frac :: "nat \<Rightarrow> int \<Rightarrow> u32" where
  "root_frac k p = word_of_int (foldl (\<lambda>r b. if (r + 2 ^ b) ^ k \<le> p * 2 ^ (32 * k) then r + 2 ^ b else r) 0 (rev [0..<40]))"

definition sha256_K :: "u32 list" where
  "sha256_K = map (root_frac 3) (primes_to 311)"

definition sha256_H0 :: "u32 list" where
  "sha256_H0 = map (root_frac 2) [2, 3, 5, 7, 11, 13, 17, 19]"

text \<open>The message schedule keeps the last sixteen words, oldest first.\<close>

definition sched256 :: "u32 list \<Rightarrow> u32" where
  "sched256 w = (rotr 17 (w ! 14) XOR rotr 19 (w ! 14) XOR drop_bit 10 (w ! 14)) + w ! 9 +
     (rotr 7 (w ! 1) XOR rotr 18 (w ! 1) XOR drop_bit 3 (w ! 1)) + w ! 0"

definition round256 :: "u32 \<Rightarrow> u32 \<Rightarrow> u32 list \<Rightarrow> u32 list" where
  "round256 k w h = (let a = h ! 0; b = h ! 1; c = h ! 2; d = h ! 3; e = h ! 4; f = h ! 5; g = h ! 6; i = h ! 7;
       t1 = i + (rotr 6 e XOR rotr 11 e XOR rotr 25 e) + ((e AND f) XOR (NOT e AND g)) + k + w;
       t2 = (rotr 2 a XOR rotr 13 a XOR rotr 22 a) + ((a AND b) XOR (a AND c) XOR (b AND c)) in
     [t1 + t2, a, b, c, d + t1, e, f, g])"

fun rounds256 :: "u32 list \<Rightarrow> u32 list \<Rightarrow> u32 list \<Rightarrow> u32 list" where
  "rounds256 [] w h = h"
| "rounds256 (k # ks) w h = rounds256 ks (tl w @ [sched256 w]) (round256 k (hd w) h)"

definition block256 :: "u32 list \<Rightarrow> byte list \<Rightarrow> u32 list" where
  "block256 h b = map2 (+) h (rounds256 sha256_K (block_words b) h)"

definition sha256 :: "byte list \<Rightarrow> byte list" where
  "sha256 m = concat (map be32 (foldl block256 sha256_H0 (chunks 64 (pad m))))"

section \<open>SHA-1\<close>

definition sha1_H0 :: "u32 list" where
  "sha1_H0 = [0x67452301, 0xefcdab89, 0x98badcfe, 0x10325476, 0xc3d2e1f0]"

definition sched1 :: "u32 list \<Rightarrow> u32" where
  "sched1 w = rotl 1 (w ! 13 XOR w ! 8 XOR w ! 2 XOR w ! 0)"

definition round1 :: "nat \<Rightarrow> u32 \<Rightarrow> u32 list \<Rightarrow> u32 list" where
  "round1 t w h = (let a = h ! 0; b = h ! 1; c = h ! 2; d = h ! 3; e = h ! 4;
       (f, k) = (if t < 20 then ((b AND c) OR (NOT b AND d), 0x5a827999)
         else if t < 40 then (b XOR c XOR d, 0x6ed9eba1)
         else if t < 60 then ((b AND c) OR (b AND d) OR (c AND d), 0x8f1bbcdc)
         else (b XOR c XOR d, 0xca62c1d6)) in
     [rotl 5 a + f + e + k + w, a, rotl 30 b, c, d])"

fun rounds1 :: "nat list \<Rightarrow> u32 list \<Rightarrow> u32 list \<Rightarrow> u32 list" where
  "rounds1 [] w h = h"
| "rounds1 (t # ts) w h = rounds1 ts (tl w @ [sched1 w]) (round1 t (hd w) h)"

definition block1 :: "u32 list \<Rightarrow> byte list \<Rightarrow> u32 list" where
  "block1 h b = map2 (+) h (rounds1 [0..<80] (block_words b) h)"

definition sha1 :: "byte list \<Rightarrow> byte list" where
  "sha1 m = concat (map be32 (foldl block1 sha1_H0 (chunks 64 (pad m))))"

section \<open>Lengths\<close>

lemma length_be32 [simp]: "length (be32 v) = 4"
  by (simp add: be32_def)

lemma length_words [simp]: "length (concat (map be32 ws)) = 4 * length ws"
  by (induction ws) auto

lemma length_rounds256 [simp]: "length h = 8 \<Longrightarrow> length (rounds256 ks w h) = 8"
  by (induction ks w h rule: rounds256.induct) (auto simp: round256_def Let_def)

lemma length_rounds1 [simp]: "length h = 5 \<Longrightarrow> length (rounds1 ts w h) = 5"
  by (induction ts w h rule: rounds1.induct) (auto simp: round1_def Let_def split: prod.splits)

lemma length_sha256 [simp]: "length (sha256 m) = 32"
proof -
  have "length h = 8 \<Longrightarrow> length (foldl block256 h bs) = 8" for h bs
    by (induction bs arbitrary: h) (auto simp: block256_def)
  then show ?thesis by (simp add: sha256_def sha256_H0_def)
qed

lemma length_sha1 [simp]: "length (sha1 m) = 20"
proof -
  have "length h = 5 \<Longrightarrow> length (foldl block1 h bs) = 5" for h bs
    by (induction bs arbitrary: h) (auto simp: block1_def)
  then show ?thesis by (simp add: sha1_def sha1_H0_def)
qed

end
