(* ===== verification/Goobj_Write.thy ===== *)
theory Goobj_Write
  imports Goobj_Link Sha
begin

text \<open>
  \<open>internal/goobj/write.go\<close>: numbering the symbols of a \<open>Link\<close> and writing the object file. The traversal
  of the source calls a function on every symbol it meets. None of the functions passed to it changes
  what the traversal reads, so here \<open>traverse\<close> first lists the symbols in the order of the calls; it
  returns the link too, because looking up a file's symbol may create it.
\<close>

section \<open>Traversal\<close>

datatype travFlag = travDefs | travRefs | travAux | travPcdata

definition travAll :: "travFlag set" where
  "travAll = {travDefs, travRefs, travAux, travPcdata}"

fun mapL :: "('a \<Rightarrow> Link \<Rightarrow> 'e + ('b list \<times> Link)) \<Rightarrow> 'a list \<Rightarrow> Link \<Rightarrow> 'e + ('b list \<times> Link)" where
  "mapL f [] l = Inr ([], l)"
| "mapL f (x # xs) l = sbind (f x l) (\<lambda>(ys, l'). sbind (mapL f xs l') (\<lambda>(zs, l''). Inr (ys @ zs, l'')))"

definition opts :: "'a option list \<Rightarrow> 'a list" where
  "opts xs = concat (map (\<lambda>x. case x of None \<Rightarrow> [] | Some a \<Rightarrow> [a]) xs)"

definition file_sym :: "u32 \<Rightarrow> Link \<Rightarrow> link_err + (sid list \<times> Link)" where
  "file_sym i l = (if unat i < length (lk_files l)
     then (let (s, l') = Lookup (lk_files l ! unat i) l in Inr ([s], l'))
     else Inl (Panic ''index out of range''))"

definition inl_syms :: "InlNode \<Rightarrow> Link \<Rightarrow> link_err + (sid list \<times> Link)" where
  "inl_syms n l = sbind (if wf_InlFileSymRefs (me_Writer (lk_Meta l)) then file_sym (in_File n) l else Inr ([], l))
     (\<lambda>(fs, l'). Inr (opts [in_Func n] @ fs, l'))"

definition dwarf_syms :: "Link \<Rightarrow> FuncInfo \<Rightarrow> sid list" where
  "dwarf_syms l f = filter (\<lambda>a. sy_Size (sym_at l a) \<noteq> 0) (opts [fi_dwarfRanges f, None, fi_dwarfLines f, fi_dwarfInfo f])"

definition traverseFuncAux :: "travFlag set \<Rightarrow> sid \<Rightarrow> Link \<Rightarrow> link_err + (sid list \<times> Link)" where
  "traverseFuncAux flag s l = (case sy_Func (sym_at l s) of
     None \<Rightarrow> Inl (Panic ''nil FuncInfo'')
   | Some f \<Rightarrow>
       sbind (mapL file_sym (sortedFiles (fi_UsedFiles f)) l) (\<lambda>(fs, l1).
       sbind (mapL inl_syms (fi_InlTree f) l1) (\<lambda>(is, l2).
       Inr (opts (fi_Funcdata f) @ fs @ is @
         concat (map (\<lambda>a. a # (if travRefs \<in> flag then opts (map rl_Sym (sy_R (sym_at l a))) else [])) (dwarf_syms l f)), l2))))"

definition pc_syms :: "FuncInfo \<Rightarrow> sid list" where
  "pc_syms f = opts ([fi_Pcsp f, fi_Pcfile f, fi_Pcline f, fi_Pcinline f] @ fi_Pcdata f)"

definition visit :: "travFlag set \<Rightarrow> sid \<Rightarrow> Link \<Rightarrow> link_err + (sid list \<times> Link)" where
  "visit flag s l = (let y = sym_at l s; text = (sy_Kind y = ''STEXT'') in
     sbind (if travAux \<in> flag \<and> text then traverseFuncAux flag s l else Inr ([], l)) (\<lambda>(as, l').
     sbind (if travPcdata \<in> flag \<and> text then (case sy_Func y of None \<Rightarrow> Inl (Panic ''nil FuncInfo'') | Some f \<Rightarrow> Inr (pc_syms f)) else Inr []) (\<lambda>ps.
     Inr ((if travDefs \<in> flag then [s] else []) @ (if travRefs \<in> flag then opts (map rl_Sym (sy_R y)) else []) @ as @ ps, l'))))"

definition traverse :: "travFlag set \<Rightarrow> Link \<Rightarrow> link_err + (sid list \<times> Link)" where
  "traverse flag l = mapL (visit flag) (lk_Text l @ lk_Data l) l"

section \<open>Numbering\<close>

definition hashSection :: "Sym \<Rightarrow> link_err + u8" where
  "hashSection y = (if sy_Pcdata y then Inr 80 else Inl (NotPcTable (sy_Name y)))"

definition builtinIdx :: "Link \<Rightarrow> string \<Rightarrow> u16 \<Rightarrow> int" where
  "builtinIdx l name abi = (let bs = ob_Builtins (me_Object (lk_Meta l));
       idx = foldl (\<lambda>idx (i, b). if bi_Name b = name then int i else idx) (- 1) (enumerate 0 bs) in
     if idx < 0 then - 1
     else if lk_RegabiWrappers l \<and> bi_ABI (bs ! nat idx) \<noteq> int (unat abi) then - 1 else idx)"

definition pk :: "Link \<Rightarrow> string \<Rightarrow> i32" where
  "pk l k = word_of_int (geti (ob_PkgIdx (me_Object (lk_Meta l))) k)"

definition set_idx :: "sid \<Rightarrow> i32 \<Rightarrow> i32 \<Rightarrow> Link \<Rightarrow> Link" where
  "set_idx s p i = upd s (\<lambda>y. y\<lparr>sy_pkgIdx := p, sy_symIdx := i, sy_indexed := True\<rparr>)"

definition number_def :: "sid \<Rightarrow> Link \<Rightarrow> link_err + Link" where
  "number_def s l = (let y = sym_at l s in
     if sy_ContentAddressable y then sbind (hashSection y) (\<lambda>sec.
       if sy_Size y \<le> 8 \<and> sy_R y = [] \<and> sec = 0
       then Inr ((set_idx s (pk l ''Hashed64'') (word_of_nat (length (lk_hashed64 l))) l)\<lparr>lk_hashed64 := lk_hashed64 l @ [s]\<rparr>)
       else Inr ((set_idx s (pk l ''Hashed'') (word_of_nat (length (lk_hashed l))) l)\<lparr>lk_hashed := lk_hashed l @ [s]\<rparr>))
     else if \<not> sy_Static y
     then Inr ((set_idx s (pk l ''None'') (word_of_nat (length (lk_nonpkgdefs l))) l)\<lparr>lk_nonpkgdefs := lk_nonpkgdefs l @ [s]\<rparr>)
     else Inr ((set_idx s (pk l ''Self'') (word_of_nat (length (lk_defs l))) l)\<lparr>lk_defs := lk_defs l @ [s]\<rparr>))"

definition number_ref :: "sid \<Rightarrow> i32 \<times> Link \<Rightarrow> link_err + (i32 \<times> Link)" where
  "number_ref s = (\<lambda>(nonpkg, l). let y = sym_at l s; i = builtinIdx l (sy_Name y) (sy_ABI y) in
     if sy_indexed y then Inr (nonpkg, l)
     else if i \<ge> 0 then Inr (nonpkg, set_idx s (pk l ''Builtin'') (word_of_int i) l)
     else if sy_ContentAddressable y then Inl (UndefContent (sy_Name y))
     else Inr (nonpkg + 1, (set_idx s (pk l ''None'') nonpkg l)\<lparr>lk_nonpkgrefs := lk_nonpkgrefs l @ [s]\<rparr>))"

definition number :: "Link \<Rightarrow> link_err + Link" where
  "number l =
     sbind (traverse {travDefs, travPcdata} l) (\<lambda>(ds, l1).
     sbind (foldE number_def ds l1) (\<lambda>l2.
     sbind (traverse {travRefs, travAux} l2) (\<lambda>(rs, l3).
     sbind (foldE number_ref rs (word_of_nat (length (lk_nonpkgdefs l3)), l3)) (\<lambda>(_, l4). Inr l4))))"

section \<open>FuncInfo symbols\<close>

definition symRef :: "Link \<Rightarrow> sid option \<Rightarrow> link_err + (u32 \<times> u32)" where
  "symRef l so = (case so of
     None \<Rightarrow> Inr (0, 0)
   | Some s \<Rightarrow> if sy_indexed (sym_at l s) then Inr (sy_pkgIdx (sym_at l s), sy_symIdx (sym_at l s))
       else Inl (Panic (''unindexed symbol reference '' @ sy_Name (sym_at l s))))"

definition ref_bytes :: "Link \<Rightarrow> sid option \<Rightarrow> link_err + byte list" where
  "ref_bytes l so = sbind (symRef l so) (\<lambda>(p, i). Inr (le32 p @ le32 i))"

fun concE :: "('a \<Rightarrow> 'e + 'b list) \<Rightarrow> 'a list \<Rightarrow> 'e + 'b list" where
  "concE f [] = Inr []"
| "concE f (x # xs) = sbind (f x) (\<lambda>ys. sbind (concE f xs) (\<lambda>zs. Inr (ys @ zs)))"

definition inl_bytes :: "Link \<Rightarrow> InlNode \<Rightarrow> link_err + byte list" where
  "inl_bytes l n = sbind (ref_bytes l (in_Func n)) (\<lambda>r.
     Inr (le32 (in_Parent n) @ le32 (in_File n) @ le32 (in_Line n) @ r @ le32 (in_ParentPC n)))"

definition funcInfo_bytes :: "Link \<Rightarrow> FuncInfo \<Rightarrow> link_err + byte list" where
  "funcInfo_bytes l f = (let files = sortedFiles (fi_UsedFiles f) in
     sbind (concE (inl_bytes l) (fi_InlTree f)) (\<lambda>inl. Inr
       (le32 (fi_Args f) @ le32 (fi_Locals f) @ [fi_FuncID f, fi_FuncFlag f, 0, 0] @
        (if wf_FuncInfoStartLine (me_Writer (lk_Meta l)) then le32 (fi_StartLine f) else []) @
        le32 (word_of_nat (length files)) @ concat (map le32 files) @
        le32 (word_of_nat (length (fi_InlTree f))) @ inl)))"

definition funcInfo_step :: "sid \<Rightarrow> sid list \<times> Link \<Rightarrow> link_err + (sid list \<times> Link)" where
  "funcInfo_step s = (\<lambda>(out, l). case sy_Func (sym_at l s) of
     None \<Rightarrow> Inl (Panic ''nil FuncInfo'')
   | Some f \<Rightarrow> sbind (funcInfo_bytes l f) (\<lambda>b.
       let self = pk l ''Self''; idx = (\<lambda>k. word_of_nat (length (lk_defs l) + length out + k));
           (is, l1) = alloc (sym0\<lparr>sy_Kind := ''SDATA'', sy_P := b, sy_Size := int (length b), sy_pkgIdx := self, sy_symIdx := idx 0, sy_indexed := True\<rparr>) l;
           ds = dwarf_syms l f in
       sbind (upd_func s (\<lambda>f. f\<lparr>fi_funcInfoSym := Some is\<rparr>) l1) (\<lambda>l2.
       Inr (out @ is # ds, fold (\<lambda>(k, a). set_idx a self (idx k)) (enumerate 1 ds) l2))))"

definition funcInfoSyms :: "Link \<Rightarrow> link_err + Link" where
  "funcInfoSyms l = sbind (foldE funcInfo_step (lk_Text l) ([], l)) (\<lambda>(out, l'). Inr (l'\<lparr>lk_defs := lk_defs l' @ out\<rparr>))"

section \<open>Records\<close>

text \<open>The string table: the offset of every string added, in the buffer \<open>b\<close>. Offsets are 32-bit.\<close>

definition addString :: "string \<Rightarrow> byte list \<times> (string \<rightharpoonup> u32) \<Rightarrow> byte list \<times> (string \<rightharpoonup> u32)" where
  "addString s = (\<lambda>(b, strs). case strs s of
     Some _ \<Rightarrow> (b, strs)
   | None \<Rightarrow> (b @ bytes_of s, strs(s \<mapsto> word_of_nat (length b))))"

definition stringRef :: "(string \<rightharpoonup> u32) \<Rightarrow> string \<Rightarrow> link_err + byte list" where
  "stringRef strs s = (case strs s of
     None \<Rightarrow> Inl (Panic (''string not added: '' @ s))
   | Some off \<Rightarrow> Inr (le32 (word_of_nat (length s)) @ le32 off))"

definition sym_name :: "Link \<Rightarrow> sid \<Rightarrow> string" where
  "sym_name l s = (if wf_TrimInlineHash (me_Writer (lk_Meta l)) then TrimInlineHash (sy_Name (sym_at l s)) else sy_Name (sym_at l s))"

definition kindName :: "string \<Rightarrow> string" where
  "kindName k = (if k = [] then ''Sxxx'' else k)"

definition sym_flag :: "Link \<Rightarrow> Sym \<Rightarrow> int" where
  "sym_flag l y = (let o' = me_Object (lk_Meta l); tp = wf_TypePrefix (me_Writer (lk_Meta l)); f = geti (ob_SymFlags o') in
     (if sy_Dupok y then f ''Dupok'' else 0) OR (if sy_Local y then f ''Local'' else 0) OR (if sy_NoSplit y then f ''NoSplit'' else 0) OR
     (if has_prefix tp (sy_Name y) \<and> length (sy_Name y) > length tp \<and> sy_Name y ! length tp \<noteq> CHR ''.'' \<and> sy_Kind y = ''SRODATA'' then f ''GoType'' else 0))"

definition sym_flag2 :: "Link \<Rightarrow> Sym \<Rightarrow> int" where
  "sym_flag2 l y = (let w = me_Writer (lk_Meta l); f = geti (ob_SymFlags2 (me_Object (lk_Meta l))); p = lk_Pkgpath l @ ''.'' in
     (if has_prefix (wf_ItabPrefix w) (sy_Name y) \<and> sy_Kind y = ''SRODATA'' then f ''Itab'' else 0) OR
     (if has_prefix p (sy_Name y) \<and> has_prefix ''.dict'' (drop (length p) (sy_Name y)) then f ''Dict'' else 0) OR
     (if (wf_AsmNamedSymsLinkname w \<and> sy_Name y \<noteq> []) \<or> sy_Name y = ''main.main'' then f ''Linkname'' else 0))"

definition sym_align :: "Link \<Rightarrow> Sym \<Rightarrow> string \<Rightarrow> link_err + u32" where
  "sym_align l y name =
     (if wf_Align (me_Writer (lk_Meta l)) = ''explicit'' then Inr (word_of_int (sint (sy_Align y)))
      else if sy_ContentAddressable y \<and> sy_Size y \<noteq> 0 then
        if name \<noteq> [] then Inl (NamedContent name)
        else Inr (if sy_Size y mod 8 = 0 \<and> ar_PtrSize (lk_Arch l) = 8 then 8 else if sy_Size y mod 4 = 0 then 4 else if sy_Size y mod 2 = 0 then 2 else 1)
      else Inr 0)"

definition writeSym :: "(string \<rightharpoonup> u32) \<Rightarrow> Link \<Rightarrow> sid \<Rightarrow> link_err + byte list" where
  "writeSym strs l s = (let y = sym_at l s; name = sym_name l s in
     sbind (sym_align l y name) (\<lambda>align.
     case me_Kinds (lk_Meta l) (kindName (sy_Kind y)) of
       None \<Rightarrow> Inl (NoKind (sy_Kind y))
     | Some kind \<Rightarrow> sbind (stringRef strs name) (\<lambda>ref. Inr
         (ref @ le16 (if sy_Static y then word_of_int (ob_SymABIStatic (me_Object (lk_Meta l))) else sy_ABI y) @
          [word_of_int kind, word_of_int (sym_flag l y), word_of_int (sym_flag2 l y)] @ le32 (word_of_int (sy_Size y)) @ le32 align))))"

definition sorted_relocs :: "Link \<Rightarrow> sid \<Rightarrow> Reloc list" where
  "sorted_relocs l s = (if wf_SortRelocs (me_Writer (lk_Meta l)) then sort_key (\<lambda>r. sint (rl_Off r)) (sy_R (sym_at l s)) else sy_R (sym_at l s))"

definition reloc_bytes :: "Link \<Rightarrow> Reloc \<Rightarrow> link_err + byte list" where
  "reloc_bytes l r = (case me_Relocs (lk_Meta l) (rl_Type r) of
     None \<Rightarrow> Inl (NoReloc (rl_Type r))
   | Some t \<Rightarrow> sbind (ref_bytes l (rl_Sym r)) (\<lambda>ref.
       Inr (le32 (rl_Off r) @ [rl_Siz r] @ le16 (word_of_int t) @ le64 (rl_Add r) @ ref)))"

definition aux :: "Link \<Rightarrow> sid \<Rightarrow> (int \<times> sid option) list" where
  "aux l s = (let at = geti (ob_AuxTypes (me_Object (lk_Meta l)));
       nz = (\<lambda>t a. case a of Some d \<Rightarrow> if sy_Size (sym_at l d) \<noteq> 0 then [(at t, Some d)] else [] | None \<Rightarrow> []) in
     case sy_Func (sym_at l s) of
       None \<Rightarrow> []
     | Some f \<Rightarrow> [(at ''FuncInfo'', fi_funcInfoSym f)] @ map (Pair (at ''Funcdata'')) (fi_Funcdata f) @
         nz ''DwarfInfo'' (fi_dwarfInfo f) @ nz ''DwarfRanges'' (fi_dwarfRanges f) @ nz ''DwarfLines'' (fi_dwarfLines f) @
         nz ''Pcsp'' (fi_Pcsp f) @ nz ''Pcfile'' (fi_Pcfile f) @ nz ''Pcline'' (fi_Pcline f) @ nz ''Pcinline'' (fi_Pcinline f) @
         map (Pair (at ''Pcdata'')) (fi_Pcdata f))"

definition aux_bytes :: "Link \<Rightarrow> int \<times> sid option \<Rightarrow> link_err + byte list" where
  "aux_bytes l = (\<lambda>(t, d). sbind (ref_bytes l d) (\<lambda>r. Inr (word_of_int t # r)))"

text \<open>The content hash: the sums are padded to 32 bytes, as the array of the source is.\<close>

definition contentHash :: "Link \<Rightarrow> sid \<Rightarrow> link_err + byte list" where
  "contentHash l s = (let y = sym_at l s; h = wf_ContentHash (me_Writer (lk_Meta l)); n = ob_HashSize (me_Object (lk_Meta l)) in
     if sy_R y \<noteq> [] then Inl ContentReloc
     else sbind (hashSection y) (\<lambda>sec.
       let inp = le64 (word_of_int (sy_Size y)) @ [sec] @ rev (dropWhile (\<lambda>b. b = 0) (rev (sy_P y))) in
       sbind (if h = ''notsha256'' then Inr (map (\<lambda>b. NOT b) (sha256 inp))
              else if h = ''sha256-prefix01'' then Inr (sha256 (1 # inp))
              else if h = ''sha1'' then Inr (sha1 inp @ replicate 12 0)
              else Inl (BadContentHash h))
         (\<lambda>sum. if n < 0 \<or> n > 32 then Inl (Panic ''slice bounds out of range'') else Inr (take (nat n) sum))))"

definition hash64_bytes :: "Link \<Rightarrow> sid \<Rightarrow> link_err + byte list" where
  "hash64_bytes l s = (let n = ob_Hash64Size (me_Object (lk_Meta l)) in
     if n < 0 \<or> n > 8 then Inl (Panic ''slice bounds out of range'') else Inr (take (nat n) (take 8 (sy_P (sym_at l s) @ replicate 8 0))))"

section \<open>Write\<close>

text \<open>The running offsets of the entries of an index block, with the total at the end.\<close>

fun idx_bytes :: "nat list \<Rightarrow> u32 \<Rightarrow> byte list" where
  "idx_bytes [] n = le32 n"
| "idx_bytes (k # ks) n = le32 n @ idx_bytes ks (n + word_of_nat k)"

definition all_defs :: "Link \<Rightarrow> sid list" where
  "all_defs l = lk_defs l @ lk_hashed64 l @ lk_hashed l @ lk_nonpkgdefs l"

text \<open>The index of a block in the header; as in the source a block the release does not list has index 0.\<close>

definition blk :: "Link \<Rightarrow> string \<Rightarrow> nat" where
  "blk l b = (case map_of (rev (map (\<lambda>(i, n). (n, i)) (enumerate 0 (ob_Blocks (me_Object (lk_Meta l)))))) b of None \<Rightarrow> 0 | Some i \<Rightarrow> i)"

definition header_bytes :: "Link \<Rightarrow> u32 list \<Rightarrow> byte list" where
  "header_bytes l offs = bytes_of (ob_Magic (me_Object (lk_Meta l))) @ replicate 8 0 @
     le32 (word_of_int (geti (ob_ObjFlags (me_Object (lk_Meta l))) ''FromAssembly'')) @ concat (map le32 offs)"

definition added_strings :: "Link \<Rightarrow> sid list \<Rightarrow> string list" where
  "added_strings l ss = [] # map (sym_name l) (filter (\<lambda>s. sy_pkgIdx (sym_at l s) \<noteq> pk l ''Builtin'') ss) @ lk_files l"

definition blocks :: "(string \<rightharpoonup> u32) \<Rightarrow> Link \<Rightarrow> link_err + (string \<times> byte list) list" where
  "blocks strs l = (let ds = all_defs l; syms = concE (writeSym strs l) in
     sbind (stringRef strs []) (\<lambda>pkgs.
     sbind (concE (stringRef strs) (lk_files l)) (\<lambda>files.
     sbind (syms (lk_defs l)) (\<lambda>b1. sbind (syms (lk_hashed64 l)) (\<lambda>b2. sbind (syms (lk_hashed l)) (\<lambda>b3.
     sbind (syms (lk_nonpkgdefs l)) (\<lambda>b4. sbind (syms (lk_nonpkgrefs l)) (\<lambda>b5.
     sbind (concE (hash64_bytes l) (lk_hashed64 l)) (\<lambda>h64.
     sbind (concE (contentHash l) (lk_hashed l)) (\<lambda>hs.
     sbind (concE (\<lambda>s. concE (reloc_bytes l) (sorted_relocs l s)) ds) (\<lambda>rels.
     sbind (concE (\<lambda>s. concE (aux_bytes l) (aux l s)) ds) (\<lambda>auxs. Inr
       [(''Autolib'', []), (''PkgIdx'', pkgs), (''File'', files), (''Symdef'', b1), (''Hashed64def'', b2), (''Hasheddef'', b3),
        (''Nonpkgdef'', b4), (''Nonpkgref'', b5), (''RefFlags'', []), (''Hash64'', h64), (''Hash'', hs),
        (''RelocIdx'', idx_bytes (map (\<lambda>s. length (sy_R (sym_at l s))) ds) 0),
        (''AuxIdx'', idx_bytes (map (\<lambda>s. length (aux l s)) ds) 0),
        (''DataIdx'', idx_bytes (map (\<lambda>s. length (sy_P (sym_at l s))) ds) 0),
        (''Reloc'', rels), (''Aux'', auxs), (''Data'', concat (map (\<lambda>s. sy_P (sym_at l s)) ds)), (''RefName'', []), (''End'', [])]))))))))))))"

text \<open>Each block is marked with the offset at which it starts, then written.\<close>

fun mark_blocks :: "Link \<Rightarrow> (string \<times> byte list) list \<Rightarrow> nat \<Rightarrow> u32 list \<Rightarrow> u32 list" where
  "mark_blocks l [] off offs = offs"
| "mark_blocks l ((b, bs) # rest) off offs = mark_blocks l rest (off + length bs) (offs[blk l b := word_of_nat off])"

definition write_object :: "Link \<Rightarrow> link_err + byte list" where
  "write_object l = (let n = length (ob_Blocks (me_Object (lk_Meta l))) in
     if ''End'' \<notin> set (ob_Blocks (me_Object (lk_Meta l))) \<or> n \<noteq> blk l ''End'' + 1 then Inl BadBlocks
     else sbind (traverse travAll l) (\<lambda>(ss, l').
       let (b, strs) = fold addString (added_strings l' ss) (header_bytes l' (replicate n 0), Map.empty) in
       sbind (blocks strs l') (\<lambda>bl.
         let offs = mark_blocks l' bl (length b) (replicate n 0); head = header_bytes l' offs in
         Inr (head @ drop (length head) b @ concat (map snd bl)))))"

definition Write :: "Link \<Rightarrow> string \<Rightarrow> link_err + byte list" where
  "Write l header = (if \<not> lk_flushed l then Inl WriteBeforeFlush
     else sbind (number l) (\<lambda>l1. sbind (funcInfoSyms l1) (\<lambda>l2. sbind (write_object l2) (\<lambda>b.
       Inr (bytes_of (header @ ''!'') @ [10] @ b)))))"

end
