(* ===== verification/Goobj_Read.thy ===== *)
theory Goobj_Read
  imports Goobj_Write
begin

text \<open>
  \<open>internal/goobj/read.go\<close>, and the symbol resolution of \<open>diffLoad\<close> in \<open>diff.go\<close>: decoding a Go object
  file. Offsets are 32-bit and wrap; a slice out of range, which panics in Go, is \<open>None\<close>.
\<close>

section \<open>Records\<close>

record Reader =
  rd_Meta :: Meta
  rd_Header :: string
  rd_b :: "byte list"
  rd_off :: "string \<rightharpoonup> u32"
  rd_nsym :: "int list"

record RSym =
  rs_Name :: string
  rs_ABI :: u16
  rs_Type :: u8
  rs_Flag :: u8
  rs_Flag2 :: u8
  rs_Siz :: u32
  rs_Align :: u32

type_synonym SymRef = "u32 \<times> u32"

record RReloc =
  rr_Off :: i32
  rr_Siz :: u8
  rr_Type :: u16
  rr_Add :: i64
  rr_Sym :: SymRef

record RAux =
  ra_Type :: u8
  ra_Sym :: SymRef

datatype read_err = NotObject | BadHeader string | BadMeta meta_err | NoMagic string | Truncated

definition symSize :: u32 where "symSize = 21"
definition relocSize :: u32 where "relocSize = 23"
definition auxSize :: u32 where "auxSize = 9"

section \<open>NewReader\<close>

text \<open>\<open>bytes.Index\<close>: the first position at which a sequence occurs.\<close>

fun index_of_sub :: "'a list \<Rightarrow> 'a list \<Rightarrow> nat option" where
  "index_of_sub p [] = (if p = [] then Some 0 else None)"
| "index_of_sub p (x # xs) = (if take (length p) (x # xs) = p then Some 0 else map_option Suc (index_of_sub p xs))"

text \<open>\<open>strings.Fields\<close> on ASCII text.\<close>

definition space_char :: "char \<Rightarrow> bool" where
  "space_char c \<longleftrightarrow> c \<in> {CHR '' '', CHR 0x09, CHR 0x0A, CHR 0x0B, CHR 0x0C, CHR 0x0D}"

fun fields_acc :: "string \<Rightarrow> string \<Rightarrow> string list" where
  "fields_acc cur [] = (if cur = [] then [] else [rev cur])"
| "fields_acc cur (c # s) = (if space_char c then (if cur = [] then [] else [rev cur]) @ fields_acc [] s else fields_acc (c # cur) s)"

definition Fields :: "string \<Rightarrow> string list" where
  "Fields s = fields_acc [] s"

definition get_off :: "Reader \<Rightarrow> string \<Rightarrow> u32" where
  "get_off r name = (case rd_off r name of None \<Rightarrow> 0 | Some o' \<Rightarrow> o')"

definition sym_blocks :: "string list" where
  "sym_blocks = [''Symdef'', ''Hashed64def'', ''Hasheddef'', ''Nonpkgdef'', ''Nonpkgref'']"

definition next_blocks :: "string list" where
  "next_blocks = [''Hashed64def'', ''Hasheddef'', ''Nonpkgdef'', ''Nonpkgref'', ''RefFlags'']"

definition reader_meta :: "(string \<Rightarrow> meta_err + Meta) \<Rightarrow> string \<Rightarrow> Meta option \<Rightarrow> read_err + Meta" where
  "reader_meta forVersion hdr mo = (case mo of
     Some m \<Rightarrow> Inr m
   | None \<Rightarrow> (let f = Fields hdr in
       if length f < 5 then Inl (BadHeader hdr) else (case forVersion (f ! 4) of Inl e \<Rightarrow> Inl (BadMeta e) | Inr m \<Rightarrow> Inr m)))"

fun read_offs :: "byte list \<Rightarrow> string list \<Rightarrow> (string \<rightharpoonup> u32) \<Rightarrow> (string \<rightharpoonup> u32)" where
  "read_offs b [] offs = offs"
| "read_offs b (n # ns) offs = read_offs (drop 4 b) ns (offs(n \<mapsto> un_le32 b))"

definition NewReader :: "(string \<Rightarrow> meta_err + Meta) \<Rightarrow> byte list \<Rightarrow> Meta option \<Rightarrow> read_err + Reader" where
  "NewReader forVersion file mo = (let hdr = string_of (takeWhile (\<lambda>b. b \<noteq> 10) file) in
     if 10 \<notin> set file \<or> \<not> has_prefix ''go object '' (string_of file) then Inl NotObject
     else sbind (reader_meta forVersion hdr mo) (\<lambda>m.
       case index_of_sub (bytes_of (ob_Magic (me_Object m))) file of
         None \<Rightarrow> Inl (NoMagic (ob_Magic (me_Object m)))
       | Some i \<Rightarrow> (let b = drop i file; at = length (ob_Magic (me_Object m)) + 8 + 4 in
           if length b < at + 4 * length (ob_Blocks (me_Object m)) then Inl Truncated
           else (let r = \<lparr>rd_Meta = m, rd_Header = hdr, rd_b = b, rd_off = read_offs (drop at b) (ob_Blocks (me_Object m)) Map.empty, rd_nsym = []\<rparr> in
             Inr (r\<lparr>rd_nsym := map (\<lambda>(k, n). uint (get_off r n - get_off r k) div uint symSize) (zip sym_blocks next_blocks)\<rparr>)))))"

section \<open>Fields of the file\<close>

text \<open>\<open>n\<close> bytes from an offset; Go reads of fixed width panic when fewer are left.\<close>

definition at_off :: "Reader \<Rightarrow> nat \<Rightarrow> nat \<Rightarrow> byte list option" where
  "at_off r o' n = (if o' + n \<le> length (rd_b r) then Some (take n (drop o' (rd_b r))) else None)"

definition r_u32 :: "Reader \<Rightarrow> u32 \<Rightarrow> u32 option" where
  "r_u32 r o' = map_option un_le32 (at_off r (unat o') 4)"

definition r_str :: "Reader \<Rightarrow> u32 \<Rightarrow> string option" where
  "r_str r o' = Option.bind (r_u32 r o') (\<lambda>n. Option.bind (r_u32 r (o' + 4)) (\<lambda>s.
     if s \<le> s + n \<and> unat (s + n) \<le> length (rd_b r) then Some (string_of (take (unat (s + n) - unat s) (drop (unat s) (rd_b r)))) else None))"

definition Flags :: "Reader \<Rightarrow> u32 option" where
  "Flags r = r_u32 r (word_of_nat (length (ob_Magic (me_Object (rd_Meta r))) + 8))"

definition NSym :: "Reader \<Rightarrow> int" where "NSym r = rd_nsym r ! 0"
definition NHashed64def :: "Reader \<Rightarrow> int" where "NHashed64def r = rd_nsym r ! 1"
definition NHasheddef :: "Reader \<Rightarrow> int" where "NHasheddef r = rd_nsym r ! 2"
definition NNonpkgdef :: "Reader \<Rightarrow> int" where "NNonpkgdef r = rd_nsym r ! 3"
definition NNonpkgref :: "Reader \<Rightarrow> int" where "NNonpkgref r = rd_nsym r ! 4"

definition NDef :: "Reader \<Rightarrow> int" where
  "NDef r = rd_nsym r ! 0 + rd_nsym r ! 1 + rd_nsym r ! 2 + rd_nsym r ! 3"

definition Sym_of :: "Reader \<Rightarrow> u32 \<Rightarrow> RSym option" where
  "Sym_of r i = (let o' = get_off r ''Symdef'' + i * symSize in
     Option.bind (r_str r o') (\<lambda>name.
     Option.bind (at_off r (unat (o' + 8)) 2) (\<lambda>abi.
     Option.bind (at_off r (unat (o' + 10)) 1) (\<lambda>ty.
     Option.bind (at_off r (unat (o' + 11)) 1) (\<lambda>fl.
     Option.bind (at_off r (unat (o' + 12)) 1) (\<lambda>fl2.
     Option.bind (r_u32 r (o' + 13)) (\<lambda>siz.
     Option.bind (r_u32 r (o' + 17)) (\<lambda>al.
     Some \<lparr>rs_Name = name, rs_ABI = un_le16 abi, rs_Type = hd ty, rs_Flag = hd fl, rs_Flag2 = hd fl2, rs_Siz = siz, rs_Align = al\<rparr>))))))))"

definition NPkg :: "Reader \<Rightarrow> int" where
  "NPkg r = uint (get_off r ''File'' - get_off r ''PkgIdx'') div 8"

definition Pkg :: "Reader \<Rightarrow> int \<Rightarrow> string option" where
  "Pkg r i = r_str r (get_off r ''PkgIdx'' + word_of_int i * 8)"

text \<open>The loop steps by 8 from \<open>File\<close> to \<open>Symdef\<close>; \<open>Suc\<close> of the block length is enough fuel.\<close>

fun files_loop :: "nat \<Rightarrow> Reader \<Rightarrow> u32 \<Rightarrow> string list option" where
  "files_loop 0 r o' = None"
| "files_loop (Suc k) r o' = (if o' < get_off r ''Symdef''
     then Option.bind (r_str r o') (\<lambda>s. Option.bind (files_loop k r (o' + 8)) (\<lambda>ss. Some (s # ss))) else Some [])"

definition Files :: "Reader \<Rightarrow> string list option" where
  "Files r = files_loop (Suc (length (rd_b r))) r (get_off r ''File'')"

definition span :: "Reader \<Rightarrow> string \<Rightarrow> u32 \<Rightarrow> (u32 \<times> u32) option" where
  "span r b i = (let o' = get_off r b + 4 * i in
     Option.bind (r_u32 r o') (\<lambda>a. Option.bind (r_u32 r (o' + 4)) (\<lambda>e. Some (a, e))))"

fun mapO :: "('a \<Rightarrow> 'b option) \<Rightarrow> 'a list \<Rightarrow> 'b list option" where
  "mapO f [] = Some []"
| "mapO f (x # xs) = Option.bind (f x) (\<lambda>y. Option.bind (mapO f xs) (\<lambda>ys. Some (y # ys)))"

definition reloc_at :: "Reader \<Rightarrow> u32 \<Rightarrow> RReloc option" where
  "reloc_at r k = (let o' = get_off r ''Reloc'' + k * relocSize in
     Option.bind (r_u32 r o') (\<lambda>off.
     Option.bind (at_off r (unat (o' + 4)) 1) (\<lambda>siz.
     Option.bind (at_off r (unat (o' + 5)) 2) (\<lambda>ty.
     Option.bind (at_off r (unat (o' + 7)) 8) (\<lambda>add.
     Option.bind (r_u32 r (o' + 15)) (\<lambda>p.
     Option.bind (r_u32 r (o' + 19)) (\<lambda>i.
     Some \<lparr>rr_Off = off, rr_Siz = hd siz, rr_Type = un_le16 ty, rr_Add = un_le64 add, rr_Sym = (p, i)\<rparr>)))))))"

definition Relocs :: "Reader \<Rightarrow> u32 \<Rightarrow> RReloc list option" where
  "Relocs r i = Option.bind (span r ''RelocIdx'' i) (\<lambda>(a, e). mapO (\<lambda>k. reloc_at r (word_of_nat k)) [unat a..<unat e])"

definition aux_at :: "Reader \<Rightarrow> u32 \<Rightarrow> RAux option" where
  "aux_at r k = (let o' = get_off r ''Aux'' + k * auxSize in
     Option.bind (at_off r (unat o') 1) (\<lambda>ty.
     Option.bind (r_u32 r (o' + 1)) (\<lambda>p.
     Option.bind (r_u32 r (o' + 5)) (\<lambda>i. Some \<lparr>ra_Type = hd ty, ra_Sym = (p, i)\<rparr>))))"

definition Auxs :: "Reader \<Rightarrow> u32 \<Rightarrow> RAux list option" where
  "Auxs r i = Option.bind (span r ''AuxIdx'' i) (\<lambda>(a, e). mapO (\<lambda>k. aux_at r (word_of_nat k)) [unat a..<unat e])"

definition Data_of :: "Reader \<Rightarrow> u32 \<Rightarrow> byte list option" where
  "Data_of r i = Option.bind (span r ''DataIdx'' i) (\<lambda>(a, e). let base = get_off r ''Data''; x = base + a; y = base + e in
     if x \<le> y \<and> unat y \<le> length (rd_b r) then Some (take (unat y - unat x) (drop (unat x) (rd_b r))) else None)"

definition BuiltinName :: "Reader \<Rightarrow> int \<Rightarrow> string \<times> int" where
  "BuiltinName r i = (let bs = ob_Builtins (me_Object (rd_Meta r)) in
     if i < 0 \<or> i \<ge> int (length bs) then (''<builtin '' @ dec_int i @ ''>'', - 1) else (bi_Name (bs ! nat i), bi_ABI (bs ! nat i)))"

section \<open>FuncInfo\<close>

record RInlNode =
  ri_Parent :: i32
  ri_File :: i32
  ri_Line :: i32
  ri_Func :: SymRef
  ri_ParentPC :: i32

record DecodedFuncInfo =
  df_Args :: u32
  df_Locals :: u32
  df_FuncID :: u8
  df_FuncFlag :: u8
  df_StartLine :: i32
  df_File :: "u32 list"
  df_InlTree :: "RInlNode list"

definition inl_at :: "byte list \<Rightarrow> RInlNode" where
  "inl_at b = \<lparr>ri_Parent = un_le32 b, ri_File = un_le32 (drop 4 b), ri_Line = un_le32 (drop 8 b),
     ri_Func = (un_le32 (drop 12 b), un_le32 (drop 16 b)), ri_ParentPC = un_le32 (drop 20 b)\<rparr>"

text \<open>\<open>int(u(o))\<close> is non-negative on a 64-bit host, so the counts are naturals. Every failure of the source
  is the error ``short FuncInfo''.\<close>

definition decodeFuncInfo :: "byte list \<Rightarrow> bool \<Rightarrow> DecodedFuncInfo option" where
  "decodeFuncInfo b startLine = (let o' = (if startLine then 16 else 12) in
     if length b < o' + 4 then None
     else (let n = unat (un_le32 (drop o' b)); o1 = o' + 4 in
       if length b < o1 + 4 * n + 4 then None
       else (let files = map (\<lambda>k. un_le32 (drop (o1 + 4 * k) b)) [0..<n]; o2 = o1 + 4 * n; ni = unat (un_le32 (drop o2 b)); o3 = o2 + 4 in
         if length b < o3 + 24 * ni then None
         else Some \<lparr>df_Args = un_le32 b, df_Locals = un_le32 (drop 4 b), df_FuncID = b ! 8, df_FuncFlag = b ! 9,
           df_StartLine = (if startLine then un_le32 (drop 12 b) else 0), df_File = files,
           df_InlTree = map (\<lambda>k. inl_at (drop (o3 + 24 * k) b)) [0..<ni]\<rparr>)))"

section \<open>Resolving references (diffLoad)\<close>

definition r_pk :: "Reader \<Rightarrow> string \<Rightarrow> u32" where
  "r_pk r k = word_of_int (geti (ob_PkgIdx (me_Object (rd_Meta r))) k)"

text \<open>The number of the symbol a reference names, counting through the symbol blocks; a reference to a
  builtin or to another package has none.\<close>

definition ref_sym :: "Reader \<Rightarrow> SymRef \<Rightarrow> u32 option" where
  "ref_sym r = (\<lambda>(p, i). let nonpkg = word_of_int (NSym r + NHashed64def r + NHasheddef r); ndef = word_of_int (NDef r); nall = ndef + word_of_int (NNonpkgref r) in
     if p = r_pk r ''None'' then (if nonpkg + i < nall then Some (nonpkg + i) else None)
     else if p = r_pk r ''Self'' then (if i < ndef then Some i else None)
     else if p = r_pk r ''Hashed64'' then Some (word_of_int (NSym r) + i)
     else if p = r_pk r ''Hashed'' then Some (word_of_int (NSym r + NHashed64def r) + i)
     else None)"

end
