(* ===== verification/Goobj_Blocks.thy ===== *)
theory Goobj_Blocks
  imports Goobj_Read
begin

text \<open>
  Blocks of fixed-size records: what the reader finds at an offset of a block the writer marked. The
  locale \<open>fixed_record\<close> is the interface between the two: the encoder of a record type whose records
  all have one size, so that a field of a record is found from the index of the record.
\<close>

section \<open>Lists of records\<close>

lemma concE_iff: "concE f xs = Inr ys \<longleftrightarrow> (\<exists>yss. list_all2 (\<lambda>x y. f x = Inr y) xs yss \<and> ys = concat yss)"
proof (induction xs arbitrary: ys)
  case (Cons x xs)
  show ?case
  proof
    assume "concE f (x # xs) = Inr ys"
    then obtain y zs where yz: "f x = Inr y" "concE f xs = Inr zs" "ys = y @ zs" by (auto simp: sbind_Inr_iff)
    then obtain yss where "list_all2 (\<lambda>x y. f x = Inr y) xs yss" "zs = concat yss" using Cons by auto
    then show "\<exists>yss. list_all2 (\<lambda>x y. f x = Inr y) (x # xs) yss \<and> ys = concat yss" using yz by (intro exI [of _ "y # yss"]) simp
  next
    assume "\<exists>yss. list_all2 (\<lambda>x y. f x = Inr y) (x # xs) yss \<and> ys = concat yss"
    then obtain y yss where y: "f x = Inr y" "list_all2 (\<lambda>x y. f x = Inr y) xs yss" "ys = y @ concat yss" by (auto simp: list_all2_Cons1)
    then have "concE f xs = Inr (concat yss)" using Cons by blast
    then show "concE f (x # xs) = Inr ys" using y by simp
  qed
qed auto

definition enc_of :: "('a \<Rightarrow> 'e + byte list) \<Rightarrow> 'a \<Rightarrow> byte list" where
  "enc_of f x = (case f x of Inr b \<Rightarrow> b | Inl _ \<Rightarrow> [])"

lemma concE_enc: "concE f xs = Inr ys \<Longrightarrow> ys = concat (map (enc_of f) xs) \<and> (\<forall>x\<in>set xs. f x = Inr (enc_of f x))"
proof (induction xs arbitrary: ys)
  case (Cons x xs)
  then obtain y zs where "f x = Inr y" "concE f xs = Inr zs" "ys = y @ zs" by (auto simp: sbind_Inr_iff)
  then show ?case using Cons.IH [of zs] by (simp add: enc_of_def)
qed simp

lemma concE_nested: "concE (\<lambda>s. concE f (g s)) xs = concE f (concat (map g xs))"
proof (induction xs)
  case (Cons x xs)
  have app: "concE f (as @ bs) = sbind (concE f as) (\<lambda>ys. sbind (concE f bs) (\<lambda>zs. Inr (ys @ zs)))" for as bs
  proof (induction as)
    case Nil
    show ?case by (cases "concE f bs") simp_all
  next
    case (Cons a as)
    show ?case by (cases "f a"; cases "concE f as"; cases "concE f bs") (simp_all add: Cons)
  qed
  show ?case by (simp add: Cons app)
qed simp

lemma drop_records: "\<forall>y\<in>set ys. length y = k \<Longrightarrow> i \<le> length ys \<Longrightarrow> drop (i * k) (concat ys) = concat (drop i ys)"
proof (induction ys arbitrary: i)
  case (Cons y ys)
  then show ?case by (cases i) (simp_all add: drop_Cons')
qed simp

lemma length_records: "\<forall>y\<in>set ys. length y = k \<Longrightarrow> length (concat ys) = length ys * k"
  by (induction ys) auto

lemma concat_slice:
  assumes "i < length xss"
  shows "map ((!) (concat xss)) [sum_list (map length (take i xss))..<sum_list (map length (take i xss)) + length (xss ! i)] = xss ! i"
proof -
  have "xss = take i xss @ xss ! i # drop (Suc i) xss" using assms by (rule id_take_nth_drop)
  then have c: "concat xss = concat (take i xss) @ xss ! i @ concat (drop (Suc i) xss)" by (metis concat.simps(2) concat_append)
  have n: "length (concat (take i xss)) = sum_list (map length (take i xss))" by (simp add: length_concat)
  show ?thesis unfolding c by (rule nth_equalityI) (simp_all add: nth_append n)
qed

section \<open>Fields of the file\<close>

text \<open>The file is shorter than 4 GiB and the bytes \<open>bs\<close> follow the mark of a block.\<close>

definition holds :: "Reader \<Rightarrow> string \<Rightarrow> byte list \<Rightarrow> bool" where
  "holds r name bs \<longleftrightarrow> length (rd_b r) < 2 ^ 32 \<and> unat (get_off r name) + length bs \<le> length (rd_b r) \<and>
     take (length bs) (drop (unat (get_off r name)) (rd_b r)) = bs"

lemma holds_prefix: "holds r name (as @ bs) \<Longrightarrow> holds r name as"
  by (auto simp: holds_def take_add append_eq_conv_conj)

lemma unat_add_small: "unat (a :: u32) + k < 2 ^ 32 \<Longrightarrow> unat (a + word_of_nat k) = unat a + k"
  by (simp add: unat_word_ariths unat_of_nat)

lemma holds_at:
  assumes "holds r name bs" "k + n \<le> length bs"
  shows "at_off r (unat (get_off r name + word_of_nat k)) n = Some (take n (drop k bs))"
proof -
  let ?o = "unat (get_off r name)"
  have b: "?o + length bs \<le> length (rd_b r)" "length (rd_b r) < 2 ^ 32" "take (length bs) (drop ?o (rd_b r)) = bs" using assms(1) by (auto simp: holds_def)
  have u: "unat (get_off r name + word_of_nat k) = ?o + k" using b assms(2) by (intro unat_add_small) linarith
  have "take n (drop k bs) = take n (drop k (take (length bs) (drop ?o (rd_b r))))" using b(3) by simp
  also have "\<dots> = take n (drop (?o + k) (rd_b r))" using assms(2) by (simp add: drop_take take_take min_absorb1 add.commute)
  finally show ?thesis using b assms(2) by (simp add: at_off_def u)
qed

text \<open>The encoder of a record type: every record it writes has the same size.\<close>

locale fixed_record =
  fixes enc :: "'a \<Rightarrow> 'e + byte list" and k :: nat
  assumes size: "enc x = Inr b \<Longrightarrow> length b = k"
begin

lemma field:
  assumes "holds r name (concat (map (enc_of enc) xs))" "\<forall>x\<in>set xs. enc x = Inr (enc_of enc x)" "i < length xs" "d + n \<le> k"
  shows "at_off r (unat (get_off r name + word_of_nat i * word_of_nat k + word_of_nat d)) n = Some (take n (drop d (enc_of enc (xs ! i))))"
proof -
  have sz: "\<forall>y\<in>set (map (enc_of enc) xs). length y = k" using assms(2) size by auto
  have len: "length (concat (map (enc_of enc) xs)) = length xs * k" using length_records [OF sz] by simp
  have "Suc i * k \<le> length xs * k" using assms(3) by (intro mult_right_mono) simp_all
  then have le: "(i * k + d) + n \<le> length (concat (map (enc_of enc) xs))" using assms(4) len by simp
  have "drop (i * k + d) (concat (map (enc_of enc) xs)) = drop d (drop (i * k) (concat (map (enc_of enc) xs)))" by (simp add: add.commute)
  also have "\<dots> = drop d (concat (drop i (map (enc_of enc) xs)))" using drop_records [OF sz, of i] assms(3) by simp
  also have "\<dots> = drop d (enc_of enc (xs ! i) @ concat (drop (Suc i) (map (enc_of enc) xs)))" using assms(3) by (simp add: Cons_nth_drop_Suc [symmetric])
  finally have dr: "take n (drop (i * k + d) (concat (map (enc_of enc) xs))) = take n (drop d (enc_of enc (xs ! i)))" using assms(3,4) sz by simp
  have w: "get_off r name + word_of_nat i * word_of_nat k + word_of_nat d = get_off r name + word_of_nat (i * k + d)" by simp
  show ?thesis unfolding w holds_at [OF assms(1) le] dr ..
qed

lemma field_u32:
  assumes "holds r name (concat (map (enc_of enc) xs))" "\<forall>x\<in>set xs. enc x = Inr (enc_of enc x)" "i < length xs" "d + 4 \<le> k"
  shows "r_u32 r (get_off r name + word_of_nat i * word_of_nat k + word_of_nat d) = Some (un_le32 (drop d (enc_of enc (xs ! i))))"
  using field [OF assms] by (simp add: r_u32_def un_le32_def)

end

end
