(* ===== verification/Goobj_Marks.thy ===== *)
theory Goobj_Marks
  imports Goobj_Blocks
begin

text \<open>
  The layout of a written object file: the string table, the block offsets in the header, and what
  \<open>NewReader\<close> makes of them. \<open>object_read\<close> states that behind the mark of every block the reader finds that
  block and all later ones.
\<close>

section \<open>Strings\<close>

definition strs_at :: "byte list \<Rightarrow> (string \<rightharpoonup> u32) \<Rightarrow> nat \<Rightarrow> bool" where
  "strs_at b strs h \<longleftrightarrow> (\<forall>s o'. strs s = Some o' \<longrightarrow> h \<le> unat o' \<and> unat o' + length s \<le> length b \<and> take (length s) (drop (unat o') b) = bytes_of s)"

lemma strs_at_append: "strs_at b strs h \<Longrightarrow> strs_at (b @ c) strs h"
  by (fastforce simp: strs_at_def)

lemma addString_ok:
  assumes "addString s (b, strs) = (b', strs')" "strs_at b strs h" "h \<le> length b" "length b' < 2 ^ 32"
  shows "strs_at b' strs' h \<and> (\<exists>e. b' = b @ e) \<and> strs' s \<noteq> None \<and> (\<forall>t. strs t \<noteq> None \<longrightarrow> strs' t \<noteq> None)"
proof (cases "strs s")
  case None
  then have b: "b' = b @ bytes_of s" "strs' = strs(s \<mapsto> word_of_nat (length b))" using assms(1) by (auto simp: addString_def)
  have u: "unat (word_of_nat (length b) :: u32) = length b" using assms(4) b(1) by (simp add: unat_of_nat)
  show ?thesis using strs_at_append [OF assms(2), of "bytes_of s"] assms(3) u unfolding b by (auto simp: strs_at_def)
next
  case (Some o')
  then show ?thesis using assms by (auto simp: addString_def)
qed

lemma addString_grows: "length (fst p) \<le> length (fst (addString s p))"
  by (cases p) (auto simp: addString_def split: option.splits)

lemma fold_addString_grows: "length (fst p) \<le> length (fst (fold addString ss p))"
proof (induction ss arbitrary: p)
  case (Cons s ss)
  then show ?case using addString_grows [of p s] le_trans by fastforce
qed simp

lemma addStrings_ok:
  assumes "fold addString ss (b, strs) = (b', strs')" "strs_at b strs h" "h \<le> length b" "length b' < 2 ^ 32"
  shows "strs_at b' strs' h \<and> (\<exists>e. b' = b @ e) \<and> (\<forall>s\<in>set ss. strs' s \<noteq> None) \<and> (\<forall>t. strs t \<noteq> None \<longrightarrow> strs' t \<noteq> None)"
  using assms
proof (induction ss arbitrary: b strs)
  case (Cons s ss)
  obtain b1 strs1 where a: "addString s (b, strs) = (b1, strs1)" by fastforce
  have rest: "fold addString ss (b1, strs1) = (b', strs')" using Cons.prems(1) a by simp
  have "length b1 \<le> length b'" using fold_addString_grows [of "(b1, strs1)" ss] rest by simp
  then have one: "strs_at b1 strs1 h \<and> (\<exists>e. b1 = b @ e) \<and> strs1 s \<noteq> None \<and> (\<forall>t. strs t \<noteq> None \<longrightarrow> strs1 t \<noteq> None)"
    using Cons.prems a by (intro addString_ok) simp_all
  then have "h \<le> length b1" using Cons.prems(3) by auto
  with Cons.IH [OF rest _ this Cons.prems(4)] one show ?case by auto
qed simp

lemma r_str_ok:
  assumes "strs_at (rd_b r) strs h" "strs s = Some off" "length (rd_b r) < 2 ^ 32" "r_u32 r o' = Some (word_of_nat (length s))" "r_u32 r (o' + 4) = Some off"
  shows "r_str r o' = Some s"
proof -
  have o: "unat off + length s \<le> length (rd_b r)" "take (length s) (drop (unat off) (rd_b r)) = bytes_of s" using assms(1,2) by (auto simp: strs_at_def)
  have u: "unat (off + word_of_nat (length s)) = unat off + length s" using o(1) assms(3) by (intro unat_add_small) linarith
  then have "off \<le> off + word_of_nat (length s)" by (simp add: word_le_nat_alt)
  then show ?thesis using assms(4,5) o u by (simp add: r_str_def)
qed

section \<open>Marks and the header\<close>

definition block_names :: "string list" where
  "block_names = [''Autolib'', ''PkgIdx'', ''File'', ''Symdef'', ''Hashed64def'', ''Hasheddef'', ''Nonpkgdef'', ''Nonpkgref'', ''RefFlags'', ''Hash64'', ''Hash'',
     ''RelocIdx'', ''AuxIdx'', ''DataIdx'', ''Reloc'', ''Aux'', ''Data'', ''RefName'', ''End'']"

definition blocks_ok :: "Meta \<Rightarrow> bool" where
  "blocks_ok m \<longleftrightarrow> distinct (ob_Blocks (me_Object m)) \<and> set block_names \<subseteq> set (ob_Blocks (me_Object m))"

lemma blk_nth:
  assumes "distinct (ob_Blocks (me_Object (lk_Meta l)))" "i < length (ob_Blocks (me_Object (lk_Meta l)))"
  shows "blk l (ob_Blocks (me_Object (lk_Meta l)) ! i) = i"
proof -
  let ?bs = "ob_Blocks (me_Object (lk_Meta l))" let ?ps = "map (\<lambda>(i, n). (n, i)) (enumerate 0 ?bs)"
  have "map fst ?ps = ?bs" by (simp add: comp_def case_prod_unfold)
  then have d: "distinct (map fst (rev ?ps))" using assms(1) by (simp add: rev_map [symmetric])
  have "?ps ! i = (?bs ! i, i)" "i < length ?ps" using assms(2) by (simp_all add: nth_enumerate_eq)
  then have "(?bs ! i, i) \<in> set (rev ?ps)" by (metis nth_mem set_rev)
  then show ?thesis using d by (simp add: blk_def)
qed

lemma blk_ok: "distinct (ob_Blocks (me_Object (lk_Meta l))) \<Longrightarrow> b \<in> set (ob_Blocks (me_Object (lk_Meta l))) \<Longrightarrow> blk l b < length (ob_Blocks (me_Object (lk_Meta l))) \<and> ob_Blocks (me_Object (lk_Meta l)) ! blk l b = b"
  using blk_nth [of l] by (auto simp: in_set_conv_nth)

lemma length_marks [simp]: "length (mark_blocks l bl off offs) = length offs"
  by (induction bl arbitrary: off offs) auto

lemma mark_other: "j \<notin> (\<lambda>(b, _). blk l b) ` set bl \<Longrightarrow> mark_blocks l bl off offs ! j = offs ! j"
  by (induction l bl off offs rule: mark_blocks.induct) auto

lemma mark_at:
  assumes "inj_on (blk l) (fst ` set bl)" "distinct (map fst bl)" "\<forall>b\<in>fst ` set bl. blk l b < length offs" "k < length bl"
  shows "mark_blocks l bl off offs ! blk l (fst (bl ! k)) = word_of_nat (off + sum_list (map (\<lambda>p. length (snd p)) (take k bl)))"
  using assms
proof (induction bl arbitrary: off offs k)
  case (Cons p bl)
  obtain b bs where p: "p = (b, bs)" by fastforce
  show ?case
  proof (cases k)
    case 0
    have "blk l b \<notin> (\<lambda>(b, _). blk l b) ` set bl"
    proof
      assume "blk l b \<in> (\<lambda>(b, _). blk l b) ` set bl"
      then obtain q where q: "q \<in> set bl" "blk l (fst q) = blk l b" by (auto simp: case_prod_unfold)
      then have "fst q = b" using Cons.prems(1) by (auto simp: p inj_on_def)
      then show False using Cons.prems(2) q by (auto simp: p)
    qed
    from mark_other [OF this] show ?thesis using Cons.prems(3) by (simp add: p 0)
  next
    case (Suc k')
    have "mark_blocks l bl (off + length bs) (offs[blk l b := word_of_nat off]) ! blk l (fst (bl ! k')) = word_of_nat (off + length bs + sum_list (map (\<lambda>p. length (snd p)) (take k' bl)))"
      using Cons.prems Suc by (intro Cons.IH) (auto simp: inj_on_def)
    then show ?thesis by (simp add: p Suc add.assoc)
  qed
qed simp

lemma read_offs_at:
  assumes "length offs = length ns" "distinct ns" "i < length ns"
  shows "read_offs (concat (map le32 offs) @ rest) ns m (ns ! i) = Some (offs ! i)"
proof -
  have keep: "n \<notin> set ns \<Longrightarrow> read_offs b ns m n = m n" for b ns m n by (induction ns arbitrary: b m) auto
  show ?thesis
    using assms
  proof (induction ns arbitrary: offs m i)
    case (Cons n ns)
    then obtain v vs where o: "offs = v # vs" by (cases offs) auto
    show ?case using Cons.prems Cons.IH [of vs] keep by (cases i) (auto simp: o)
  qed simp
qed

lemma index_of_sub_skip: "p \<noteq> [] \<Longrightarrow> hd p \<notin> set xs \<Longrightarrow> index_of_sub p (xs @ p @ ys) = Some (length xs)"
proof (induction xs)
  case Nil
  then show ?case by (cases p) auto
next
  case (Cons x xs)
  have "take (length p) (x # xs @ p @ ys) \<noteq> p"
  proof
    assume "take (length p) (x # xs @ p @ ys) = p"
    then have "hd p = x" using Cons.prems(1) by (cases p) auto
    then show False using Cons.prems(2) by simp
  qed
  then show ?case using Cons by simp
qed

section \<open>The file\<close>

lemma blocks_names: "blocks strs l = Inr bl \<Longrightarrow> map fst bl = block_names"
  by (auto simp: blocks_def Let_def sbind_Inr_iff block_names_def)

lemma header_length [simp]: "length (header_bytes l offs) = length (ob_Magic (me_Object (lk_Meta l))) + 12 + 4 * length offs"
proof -
  have "length (concat (map le32 offs)) = 4 * length offs" by (induction offs) auto
  then show ?thesis by (simp add: header_bytes_def)
qed

text \<open>A written object: the strings and, behind the mark of every block, that block and all later ones.\<close>

definition object_read :: "Reader \<Rightarrow> Link \<Rightarrow> (string \<rightharpoonup> u32) \<Rightarrow> (string \<times> byte list) list \<Rightarrow> bool" where
  "object_read r l strs bl \<longleftrightarrow> blocks strs l = Inr bl \<and> length (rd_b r) < 2 ^ 32 \<and> strs_at (rd_b r) strs 0 \<and> rd_Meta r = lk_Meta l \<and>
     (\<forall>k<length bl. holds r (fst (bl ! k)) (concat (map snd (drop k bl))) \<and>
        unat (get_off r (fst (bl ! k))) + length (concat (map snd (drop k bl))) = length (rd_b r)) \<and>
     rd_nsym r = map (\<lambda>(k, n). uint (get_off r n - get_off r k) div uint symSize) (zip sym_blocks next_blocks)"

lemma write_object_marks:
  assumes "traverse travAll l = Inr (ss, l')" "write_object l = Inr b" "lk_Meta l' = lk_Meta l" "blocks_ok (lk_Meta l)" "length b < 2 ^ 32"
  obtains strs bl offs rest where "blocks strs l' = Inr bl" "b = header_bytes l' offs @ rest" "strs_at b strs 0"
    "length offs = length (ob_Blocks (me_Object (lk_Meta l)))"
    "\<And>k. k < length bl \<Longrightarrow> \<exists>o'. offs ! blk l' (fst (bl ! k)) = word_of_nat o' \<and> o' + length (concat (map snd (drop k bl))) = length b \<and> drop o' b = concat (map snd (drop k bl))"
    "\<forall>s\<in>set (added_strings l' ss). strs s \<noteq> None"
proof -
  let ?n = "length (ob_Blocks (me_Object (lk_Meta l)))" let ?h0 = "header_bytes l' (replicate ?n 0)"
  obtain buf strs where st: "fold addString (added_strings l' ss) (?h0, Map.empty) = (buf, strs)" by fastforce
  obtain bl where bl: "blocks strs l' = Inr bl" "b = (let offs = mark_blocks l' bl (length buf) (replicate ?n 0); head = header_bytes l' offs in head @ drop (length head) buf @ concat (map snd bl))"
    using assms(1,2) st by (auto simp: write_object_def Let_def sbind_Inr_iff split: if_splits prod.splits)
  let ?offs = "mark_blocks l' bl (length buf) (replicate ?n 0)" let ?head = "header_bytes l' ?offs"
  have hl: "length ?head = length ?h0" by simp
  have len: "length ?head \<le> length buf" using fold_addString_grows [of "(?h0, Map.empty)" "added_strings l' ss"] st hl by simp
  have b: "b = ?head @ drop (length ?head) buf @ concat (map snd bl)" using bl(2) by (simp add: Let_def)
  have lb: "length b = length buf + length (concat (map snd bl))" using b len by simp
  have "strs_at ?h0 Map.empty (length ?h0)" by (simp add: strs_at_def)
  from addStrings_ok [OF st this le_refl] have sa: "strs_at buf strs (length ?h0)" "\<forall>s\<in>set (added_strings l' ss). strs s \<noteq> None" using lb assms(5) by auto
  have dr: "drop n b = drop n buf @ concat (map snd bl)" if "length ?head \<le> n" "n \<le> length buf" for n
    using that by (simp add: b drop_append)
  have "strs_at b strs 0"
    unfolding strs_at_def
  proof (intro allI impI)
    fix s o' assume "strs s = Some o'"
    then have s: "length ?h0 \<le> unat o'" "unat o' + length s \<le> length buf" "take (length s) (drop (unat o') buf) = bytes_of s" using sa(1) by (auto simp: strs_at_def)
    then have "drop (unat o') b = drop (unat o') buf @ concat (map snd bl)" using hl by (intro dr) linarith+
    then show "0 \<le> unat o' \<and> unat o' + length s \<le> length b \<and> take (length s) (drop (unat o') b) = bytes_of s" using s lb by simp
  qed
  moreover have "\<exists>o'. ?offs ! blk l' (fst (bl ! k)) = word_of_nat o' \<and> o' + length (concat (map snd (drop k bl))) = length b \<and> drop o' b = concat (map snd (drop k bl))" if "k < length bl" for k
  proof -
    have names: "map fst bl = block_names" using bl(1) by (rule blocks_names)
    have sub: "fst ` set bl \<subseteq> set (ob_Blocks (me_Object (lk_Meta l')))" "distinct (ob_Blocks (me_Object (lk_Meta l')))"
      using assms(3,4) arg_cong [OF names, of set] by (simp_all add: blocks_ok_def)
    have "distinct block_names" by code_simp
    then have d: "distinct (map fst bl)" using names by simp
    have inv: "ob_Blocks (me_Object (lk_Meta l')) ! blk l' x = x" if "x \<in> fst ` set bl" for x using blk_ok [OF sub(2) subsetD [OF sub(1) that]] by simp
    have inj: "inj_on (blk l') (fst ` set bl)" by (rule inj_on_inverseI [where g = "(!) (ob_Blocks (me_Object (lk_Meta l')))"]) (rule inv)
    have "\<forall>b\<in>fst ` set bl. blk l' b < length (replicate ?n (0 :: u32))" using blk_ok [OF sub(2)] sub(1) assms(3) by auto
    from mark_at [OF inj d this that] have m: "?offs ! blk l' (fst (bl ! k)) = word_of_nat (length buf + sum_list (map (\<lambda>p. length (snd p)) (take k bl)))" .
    let ?o = "length buf + sum_list (map (\<lambda>p. length (snd p)) (take k bl))"
    have sp: "concat (map snd bl) = concat (map snd (take k bl)) @ concat (map snd (drop k bl))" unfolding concat_append [symmetric] map_append [symmetric] append_take_drop_id ..
    have lt: "length (concat (map snd (take k bl))) = sum_list (map (\<lambda>p. length (snd p)) (take k bl))" by (simp add: length_concat comp_def)
    have "drop ?o b = concat (map snd (drop k bl))" 
    proof -
      have "drop ?o b = drop (sum_list (map (\<lambda>p. length (snd p)) (take k bl))) (drop (length buf) b)" by (simp add: add.commute)
      then show ?thesis unfolding dr [OF len le_refl] using lt by (simp add: sp)
    qed
    moreover have "?o + length (concat (map snd (drop k bl))) = length b" using lb sp lt by simp
    ultimately show ?thesis using m by blast
  qed
  ultimately show thesis using that [OF bl(1) b] sa(2) by simp
qed

text \<open>The header of an object: one line of text before the magic number, whose first byte (NUL) it does not contain.\<close>

definition header_ok :: "Meta \<Rightarrow> string \<Rightarrow> bool" where
  "header_ok m header \<longleftrightarrow> has_prefix ''go object '' header \<and> ob_Magic (me_Object m) \<noteq> [] \<and> hd (ob_Magic (me_Object m)) \<notin> set (header @ [CHR ''!'', CHR 0x0A])"

lemma has_prefix_append: "has_prefix p s \<Longrightarrow> has_prefix p (s @ t)"
  unfolding has_prefix_def by (metis append.assoc append_eq_conv_conj append_take_drop_id)

lemma NewReader_written:
  assumes "b = header_bytes l offs @ rest" "length offs = length (ob_Blocks (me_Object (lk_Meta l)))" "header_ok (lk_Meta l) header"
  obtains r where "NewReader fv (bytes_of (header @ ''!'') @ [10] @ b) (Some (lk_Meta l)) = Inr r" "rd_b r = b" "rd_Meta r = lk_Meta l"
    "\<And>i. distinct (ob_Blocks (me_Object (lk_Meta l))) \<Longrightarrow> i < length offs \<Longrightarrow> get_off r (ob_Blocks (me_Object (lk_Meta l)) ! i) = offs ! i"
    "rd_nsym r = map (\<lambda>(k, n). uint (get_off r n - get_off r k) div uint symSize) (zip sym_blocks next_blocks)"
proof -
  let ?m = "lk_Meta l" let ?file = "bytes_of (header @ ''!'') @ [10] @ b" let ?magic = "bytes_of (ob_Magic (me_Object ?m))"
  let ?at = "length (ob_Magic (me_Object ?m)) + 8 + 4"
  have c: "[10] = bytes_of [CHR 0x0A]" by code_simp
  have f: "?file = bytes_of (header @ [CHR ''!'', CHR 0x0A]) @ b" unfolding c by (simp add: bytes_of_def)
  have bm: "b = ?magic @ drop (length ?magic) b" by (simp add: assms(1) header_bytes_def)
  have mn: "?magic \<noteq> []" "hd ?magic \<notin> set (bytes_of (header @ [CHR ''!'', CHR 0x0A]))"
  proof -
    have inj: "byte_of_char x = byte_of_char y \<Longrightarrow> x = y" for x y by (metis char_of_byte_of_char)
    show "?magic \<noteq> []" using assms(3) by (simp add: header_ok_def bytes_of_def)
    have "hd ?magic = byte_of_char (hd (ob_Magic (me_Object ?m)))" using assms(3) by (simp add: header_ok_def bytes_of_def hd_map)
    then show "hd ?magic \<notin> set (bytes_of (header @ [CHR ''!'', CHR 0x0A]))" using assms(3) inj unfolding header_ok_def bytes_of_def set_map by auto
  qed
  have ix: "index_of_sub ?magic ?file = Some (length (bytes_of (header @ [CHR ''!'', CHR 0x0A])))"
    unfolding f by (subst bm) (rule index_of_sub_skip [OF mn])
  have db: "drop (length (bytes_of (header @ [CHR ''!'', CHR 0x0A]))) ?file = b" unfolding f by (simp only: drop_append drop_all [OF le_refl] append_Nil diff_self_eq_0 drop_0)
  have pre: "has_prefix ''go object '' (string_of ?file)" 
  proof -
    have "string_of ?file = header @ ([CHR ''!'', CHR 0x0A] @ string_of b)" unfolding f by (simp add: string_of_def bytes_of_def comp_def map_idI)
    then show ?thesis using assms(3) by (simp only: header_ok_def has_prefix_append)
  qed
  have tr: "\<not> length b < ?at + 4 * length (ob_Blocks (me_Object ?m))" using assms(2) by (simp add: assms(1))
  have da: "drop ?at b = concat (map le32 offs) @ rest" by (simp add: assms(1) header_bytes_def)
  define r0 where "r0 = \<lparr>rd_Meta = ?m, rd_Header = string_of (takeWhile (\<lambda>b. b \<noteq> 10) ?file), rd_b = b, rd_off = read_offs (drop ?at b) (ob_Blocks (me_Object ?m)) Map.empty, rd_nsym = []\<rparr>"
  define r where "r = r0\<lparr>rd_nsym := map (\<lambda>(k, n). uint (get_off r0 n - get_off r0 k) div uint symSize) (zip sym_blocks next_blocks)\<rparr>"
  have "NewReader fv ?file (Some ?m) = Inr r"
    using pre ix tr unfolding NewReader_def reader_meta_def Let_def by (simp add: db r_def r0_def)
  moreover have g: "get_off r n = get_off r0 n" for n by (simp add: r_def get_off_def)
  moreover have "get_off r (ob_Blocks (me_Object ?m) ! i) = offs ! i" if "distinct (ob_Blocks (me_Object ?m))" "i < length offs" for i
    using read_offs_at [OF assms(2) that(1), of i rest Map.empty] that assms(2)
    by (simp only: g) (simp only: get_off_def r0_def Reader.simps da option.case)
  ultimately show thesis using that [of r] by (simp add: r_def r0_def)
qed

lemma object_reads:
  assumes "traverse travAll l = Inr (ss, l')" "write_object l = Inr b" "lk_Meta l' = lk_Meta l" "blocks_ok (lk_Meta l)" "length b < 2 ^ 32" "header_ok (lk_Meta l) header"
  obtains r strs bl where "NewReader fv (bytes_of (header @ ''!'') @ [10] @ b) (Some (lk_Meta l)) = Inr r" "object_read r l' strs bl" "\<forall>s\<in>set (added_strings l' ss). strs s \<noteq> None"
proof -
  obtain strs bl offs rest where w: "blocks strs l' = Inr bl" "b = header_bytes l' offs @ rest" "strs_at b strs 0" "length offs = length (ob_Blocks (me_Object (lk_Meta l)))"
    "\<And>k. k < length bl \<Longrightarrow> \<exists>o'. offs ! blk l' (fst (bl ! k)) = word_of_nat o' \<and> o' + length (concat (map snd (drop k bl))) = length b \<and> drop o' b = concat (map snd (drop k bl))"
    "\<forall>s\<in>set (added_strings l' ss). strs s \<noteq> None"
    by (rule write_object_marks [OF assms(1-5)]) auto
  obtain r where r: "NewReader fv (bytes_of (header @ ''!'') @ [10] @ b) (Some (lk_Meta l')) = Inr r" "rd_b r = b" "rd_Meta r = lk_Meta l'"
    "\<And>i. distinct (ob_Blocks (me_Object (lk_Meta l'))) \<Longrightarrow> i < length offs \<Longrightarrow> get_off r (ob_Blocks (me_Object (lk_Meta l')) ! i) = offs ! i"
    "rd_nsym r = map (\<lambda>(k, n). uint (get_off r n - get_off r k) div uint symSize) (zip sym_blocks next_blocks)"
    by (rule NewReader_written [of b l' offs rest header fv]) (use w assms in auto)
  have d: "distinct (ob_Blocks (me_Object (lk_Meta l')))" using assms(3,4) by (simp add: blocks_ok_def)
  have "holds r (fst (bl ! k)) (concat (map snd (drop k bl))) \<and> unat (get_off r (fst (bl ! k))) + length (concat (map snd (drop k bl))) = length b" if k: "k < length bl" for k
  proof -
    have "fst (bl ! k) \<in> set block_names" using k blocks_names [OF w(1)] by (metis length_map nth_map nth_mem)
    then have "fst (bl ! k) \<in> set (ob_Blocks (me_Object (lk_Meta l')))" using assms(3,4) by (auto simp: blocks_ok_def)
    from blk_ok [OF d this] have "get_off r (fst (bl ! k)) = offs ! blk l' (fst (bl ! k))" using r(4) [OF d] w(4) assms(3) by metis
    moreover obtain o' where o: "offs ! blk l' (fst (bl ! k)) = word_of_nat o'" "o' + length (concat (map snd (drop k bl))) = length b" "drop o' b = concat (map snd (drop k bl))" using w(5) [OF k] by blast
    moreover have "unat (word_of_nat o' :: u32) = o'" using o(2) assms(5) by (simp add: unat_of_nat)
    ultimately show ?thesis using assms(5) by (simp add: holds_def r(2))
  qed
  then have "object_read r l' strs bl" using w r assms(5) by (simp add: object_read_def)
  then show thesis using that r(1) w(6) assms(3) by simp
qed

end
