(* ===== verification/Goobj_Roundtrip.thy ===== *)
theory Goobj_Roundtrip
  imports Goobj_Marks
begin

text \<open>
  What \<open>goobj.Reader\<close> finds in the file that \<open>Link.Write\<close> wrote: every symbol with its attributes, data,
  relocations and auxiliary symbols.
\<close>

section \<open>The blocks\<close>

abbreviation "E_sym strs l \<equiv> enc_of (writeSym strs l)"
abbreviation "E_rel l \<equiv> enc_of (reloc_bytes l)"
abbreviation "E_aux l \<equiv> enc_of (aux_bytes l)"
abbreviation "E_str strs \<equiv> enc_of (stringRef strs)"

definition all_relocs :: "Link \<Rightarrow> Reloc list" where
  "all_relocs l = concat (map (sorted_relocs l) (all_defs l))"

definition all_auxs :: "Link \<Rightarrow> (int \<times> sid option) list" where
  "all_auxs l = concat (map (aux l) (all_defs l))"

definition all_syms :: "Link \<Rightarrow> sid list" where
  "all_syms l = all_defs l @ lk_nonpkgrefs l"

lemma blocks_list:
  assumes "blocks strs l = Inr bl"
  obtains h64 hs where "bl = [(''Autolib'', []), (''PkgIdx'', E_str strs []), (''File'', concat (map (E_str strs) (lk_files l))),
      (''Symdef'', concat (map (E_sym strs l) (lk_defs l))), (''Hashed64def'', concat (map (E_sym strs l) (lk_hashed64 l))),
      (''Hasheddef'', concat (map (E_sym strs l) (lk_hashed l))), (''Nonpkgdef'', concat (map (E_sym strs l) (lk_nonpkgdefs l))),
      (''Nonpkgref'', concat (map (E_sym strs l) (lk_nonpkgrefs l))), (''RefFlags'', []), (''Hash64'', h64), (''Hash'', hs),
      (''RelocIdx'', idx_bytes (map (\<lambda>s. length (sy_R (sym_at l s))) (all_defs l)) 0),
      (''AuxIdx'', idx_bytes (map (\<lambda>s. length (aux l s)) (all_defs l)) 0),
      (''DataIdx'', idx_bytes (map (\<lambda>s. length (sy_P (sym_at l s))) (all_defs l)) 0),
      (''Reloc'', concat (map (E_rel l) (all_relocs l))), (''Aux'', concat (map (E_aux l) (all_auxs l))),
      (''Data'', concat (map (\<lambda>s. sy_P (sym_at l s)) (all_defs l))), (''RefName'', []), (''End'', [])]"
    "\<forall>s\<in>set (all_syms l). writeSym strs l s = Inr (E_sym strs l s)" "\<forall>r\<in>set (all_relocs l). reloc_bytes l r = Inr (E_rel l r)"
    "\<forall>a\<in>set (all_auxs l). aux_bytes l a = Inr (E_aux l a)" "\<forall>f\<in>set (lk_files l). stringRef strs f = Inr (E_str strs f)"
proof -
  obtain pkgs files b1 b2 b3 b4 b5 h64 hs rels auxs where b: "stringRef strs [] = Inr pkgs" "concE (stringRef strs) (lk_files l) = Inr files"
    "concE (writeSym strs l) (lk_defs l) = Inr b1" "concE (writeSym strs l) (lk_hashed64 l) = Inr b2" "concE (writeSym strs l) (lk_hashed l) = Inr b3"
    "concE (writeSym strs l) (lk_nonpkgdefs l) = Inr b4" "concE (writeSym strs l) (lk_nonpkgrefs l) = Inr b5"
    "concE (reloc_bytes l) (all_relocs l) = Inr rels" "concE (aux_bytes l) (all_auxs l) = Inr auxs"
    and bl: "bl = [(''Autolib'', []), (''PkgIdx'', pkgs), (''File'', files), (''Symdef'', b1), (''Hashed64def'', b2), (''Hasheddef'', b3),
        (''Nonpkgdef'', b4), (''Nonpkgref'', b5), (''RefFlags'', []), (''Hash64'', h64), (''Hash'', hs),
        (''RelocIdx'', idx_bytes (map (\<lambda>s. length (sy_R (sym_at l s))) (all_defs l)) 0),
        (''AuxIdx'', idx_bytes (map (\<lambda>s. length (aux l s)) (all_defs l)) 0),
        (''DataIdx'', idx_bytes (map (\<lambda>s. length (sy_P (sym_at l s))) (all_defs l)) 0),
        (''Reloc'', rels), (''Aux'', auxs), (''Data'', concat (map (\<lambda>s. sy_P (sym_at l s)) (all_defs l))), (''RefName'', []), (''End'', [])]"
    using assms unfolding blocks_def Let_def concE_nested all_relocs_def all_auxs_def by (auto simp: sbind_Inr_iff)
  note e = b(2-) [THEN concE_enc]
  have p: "pkgs = E_str strs []" using b(1) by (simp add: enc_of_def)
  have "\<forall>s\<in>set (all_syms l). writeSym strs l s = Inr (E_sym strs l s)" using e by (auto simp: all_syms_def all_defs_def)
  then show thesis using that [of h64 hs] e p bl by simp
qed

lemma length_writeSym: "writeSym strs l s = Inr b \<Longrightarrow> length b = 21"
  by (auto simp: writeSym_def Let_def sbind_Inr_iff stringRef_def split: option.splits)

lemma length_ref: "ref_bytes l so = Inr b \<Longrightarrow> length b = 8"
  by (auto simp: ref_bytes_def sbind_Inr_iff split: prod.splits)

lemma length_reloc: "reloc_bytes l r = Inr b \<Longrightarrow> length b = 23"
  by (auto simp: reloc_bytes_def sbind_Inr_iff dest: length_ref split: option.splits)

lemma length_aux: "aux_bytes l a = Inr b \<Longrightarrow> length b = 9"
  by (auto simp: aux_bytes_def sbind_Inr_iff dest: length_ref split: prod.splits)

interpretation sym_rec: fixed_record "writeSym strs l" 21 for strs l
  by unfold_locales (rule length_writeSym)

interpretation rel_rec: fixed_record "reloc_bytes l" 23 for l
  by unfold_locales (rule length_reloc)

interpretation aux_rec: fixed_record "aux_bytes l" 9 for l
  by unfold_locales (rule length_aux)

interpretation str_rec: fixed_record "stringRef strs" 8 for strs
  by unfold_locales (auto simp: stringRef_def split: option.splits)

section \<open>Index blocks\<close>

lemma length_idx [simp]: "length (idx_bytes ks n) = 4 * Suc (length ks)"
  by (induction ks n rule: idx_bytes.induct) auto

lemma idx_at: "i \<le> length ks \<Longrightarrow> un_le32 (drop (4 * i) (idx_bytes ks n)) = n + word_of_nat (sum_list (take i ks))"
proof (induction ks n arbitrary: i rule: idx_bytes.induct)
  case (1 n)
  then show ?case using un_le32_le32 [of n "[]"] by simp
next
  case (2 k ks n)
  show ?case
  proof (cases i)
    case (Suc j)
    then show ?thesis using "2.IH" [of j] "2.prems" by (simp add: add.assoc)
  qed simp
qed

lemma span_at:
  assumes "holds r b (idx_bytes ks 0)" "i < length ks"
  shows "span r b (word_of_nat i) = Some (word_of_nat (sum_list (take i ks)), word_of_nat (sum_list (take i ks) + ks ! i))"
proof -
  have u: "r_u32 r (get_off r b + word_of_nat (4 * j)) = Some (word_of_nat (sum_list (take j ks)))" if "j \<le> length ks" for j
    using holds_at [OF assms(1), of "4 * j" 4] that idx_at [OF that, of 0] by (simp add: r_u32_def un_le32_def)
  have w: "get_off r b + 4 * word_of_nat i = get_off r b + word_of_nat (4 * i)" "get_off r b + 4 * word_of_nat i + 4 = get_off r b + word_of_nat (4 * Suc i)"
    by (simp_all add: algebra_simps)
  have "sum_list (take (Suc i) ks) = sum_list (take i ks) + ks ! i" using assms(2) by (simp add: take_Suc_conv_app_nth)
  then show ?thesis using u [of i] u [of "Suc i"] assms(2) unfolding span_def Let_def w(2) unfolding w(1) by simp
qed

lemma mapO_Some: "(\<And>x. x \<in> set xs \<Longrightarrow> f x = Some (g x)) \<Longrightarrow> mapO f xs = Some (map g xs)"
  by (induction xs) auto

section \<open>Decoded records\<close>

definition sym_kind :: "Link \<Rightarrow> sid \<Rightarrow> int" where
  "sym_kind l s = geti (me_Kinds (lk_Meta l)) (kindName (sy_Kind (sym_at l s)))"

definition align_of :: "Link \<Rightarrow> sid \<Rightarrow> u32" where
  "align_of l s = (case sym_align l (sym_at l s) (sym_name l s) of Inr a \<Rightarrow> a | Inl _ \<Rightarrow> 0)"

definition rsym_of :: "Link \<Rightarrow> sid \<Rightarrow> RSym" where
  "rsym_of l s = (let y = sym_at l s in \<lparr>rs_Name = sym_name l s,
     rs_ABI = (if sy_Static y then word_of_int (ob_SymABIStatic (me_Object (lk_Meta l))) else sy_ABI y), rs_Type = word_of_int (sym_kind l s),
     rs_Flag = word_of_int (sym_flag l y), rs_Flag2 = word_of_int (sym_flag2 l y), rs_Siz = word_of_int (sy_Size y), rs_Align = align_of l s\<rparr>)"

definition ref_of :: "Link \<Rightarrow> sid option \<Rightarrow> SymRef" where
  "ref_of l so = (case so of None \<Rightarrow> (0, 0) | Some s \<Rightarrow> (sy_pkgIdx (sym_at l s), sy_symIdx (sym_at l s)))"

definition rreloc_of :: "Link \<Rightarrow> Reloc \<Rightarrow> RReloc" where
  "rreloc_of l x = \<lparr>rr_Off = rl_Off x, rr_Siz = rl_Siz x, rr_Type = word_of_int (geti (me_Relocs (lk_Meta l)) (rl_Type x)), rr_Add = rl_Add x, rr_Sym = ref_of l (rl_Sym x)\<rparr>"

definition raux_of :: "Link \<Rightarrow> int \<times> sid option \<Rightarrow> RAux" where
  "raux_of l a = \<lparr>ra_Type = word_of_int (fst a), ra_Sym = ref_of l (snd a)\<rparr>"

lemma un_le_take: "un_le32 (take 4 b) = un_le32 b" "un_le16 (take 2 b) = un_le16 b" "un_le64 (take 8 b) = un_le64 b"
  by (simp_all add: un_le32_def un_le16_def un_le64_def)

lemma writeSym_bytes:
  assumes "writeSym strs l s = Inr b"
  obtains off where "strs (sym_name l s) = Some off" "b = le32 (word_of_nat (length (sym_name l s))) @ le32 off @ le16 (rs_ABI (rsym_of l s)) @
    [rs_Type (rsym_of l s), rs_Flag (rsym_of l s), rs_Flag2 (rsym_of l s)] @ le32 (rs_Siz (rsym_of l s)) @ le32 (rs_Align (rsym_of l s))"
  using assms by (auto simp: writeSym_def Let_def sbind_Inr_iff stringRef_def rsym_of_def sym_kind_def geti_def align_of_def split: option.splits)

lemma ref_bytes_eq: "ref_bytes l so = Inr b \<Longrightarrow> b = le32 (fst (ref_of l so)) @ le32 (snd (ref_of l so))"
  by (auto simp: ref_bytes_def symRef_def ref_of_def sbind_Inr_iff split: option.splits if_splits)

lemma reloc_bytes_eq: "reloc_bytes l x = Inr b \<Longrightarrow> b = le32 (rr_Off (rreloc_of l x)) @ [rr_Siz (rreloc_of l x)] @ le16 (rr_Type (rreloc_of l x)) @
    le64 (rr_Add (rreloc_of l x)) @ le32 (fst (rr_Sym (rreloc_of l x))) @ le32 (snd (rr_Sym (rreloc_of l x)))"
  by (auto simp: reloc_bytes_def rreloc_of_def geti_def sbind_Inr_iff dest!: ref_bytes_eq split: option.splits)

lemma aux_bytes_eq: "aux_bytes l a = Inr b \<Longrightarrow> b = [ra_Type (raux_of l a)] @ le32 (fst (ra_Sym (raux_of l a))) @ le32 (snd (ra_Sym (raux_of l a)))"
  by (auto simp: aux_bytes_def raux_of_def sbind_Inr_iff dest!: ref_bytes_eq split: prod.splits)

lemma Sym_of_read:
  assumes "holds r ''Symdef'' (concat (map (E_sym strs l) xs))" "\<forall>x\<in>set xs. writeSym strs l x = Inr (E_sym strs l x)" "i < length xs" "strs_at (rd_b r) strs h" "length (rd_b r) < 2 ^ 32"
  shows "Sym_of r (word_of_nat i) = Some (rsym_of l (xs ! i))"
proof -
  let ?s = "xs ! i" let ?o = "get_off r ''Symdef'' + word_of_nat i * 21" let ?y = "rsym_of l ?s"
  obtain off where off: "strs (sym_name l ?s) = Some off" and b: "E_sym strs l ?s = le32 (word_of_nat (length (sym_name l ?s))) @ le32 off @ le16 (rs_ABI ?y) @
    [rs_Type ?y, rs_Flag ?y, rs_Flag2 ?y] @ le32 (rs_Siz ?y) @ le32 (rs_Align ?y)" using assms(2,3) by (meson nth_mem writeSym_bytes)
  have w: "word_of_nat 21 = (21 :: u32)" by simp
  note f = sym_rec.field [OF assms(1-3), unfolded w] and u = sym_rec.field_u32 [OF assms(1-3), unfolded w]
  have "r_str r ?o = Some (sym_name l ?s)" using u [of 0] u [of 4] by (intro r_str_ok [OF assms(4) off assms(5)]) (simp_all add: b)
  moreover have "at_off r (unat (?o + 8)) 2 = Some (le16 (rs_ABI ?y))" "at_off r (unat (?o + 10)) 1 = Some [rs_Type ?y]"
    "at_off r (unat (?o + 11)) 1 = Some [rs_Flag ?y]" "at_off r (unat (?o + 12)) 1 = Some [rs_Flag2 ?y]"
    using f [of 8 2] f [of 10 1] f [of 11 1] f [of 12 1] by (simp_all add: b)
  moreover have "r_u32 r (?o + 13) = Some (rs_Siz ?y)" "r_u32 r (?o + 17) = Some (rs_Align ?y)" using u [of 13] u [of 17] un_le32_le32 [of _ "[]"] by (simp_all add: b)
  moreover have "un_le16 (le16 (rs_ABI ?y)) = rs_ABI ?y" using un_le16_le16 [of _ "[]"] by simp
  moreover have "rs_Name ?y = sym_name l ?s" by (simp add: rsym_of_def Let_def)
  ultimately show ?thesis by (simp add: Sym_of_def symSize_def)
qed

lemma reloc_read:
  assumes "holds r ''Reloc'' (concat (map (E_rel l) xs))" "\<forall>x\<in>set xs. reloc_bytes l x = Inr (E_rel l x)" "i < length xs"
  shows "reloc_at r (word_of_nat i) = Some (rreloc_of l (xs ! i))"
proof -
  let ?x = "rreloc_of l (xs ! i)" let ?o = "get_off r ''Reloc'' + word_of_nat i * 23"
  have b: "E_rel l (xs ! i) = le32 (rr_Off ?x) @ [rr_Siz ?x] @ le16 (rr_Type ?x) @ le64 (rr_Add ?x) @ le32 (fst (rr_Sym ?x)) @ le32 (snd (rr_Sym ?x))"
    using assms(2,3) by (intro reloc_bytes_eq) simp
  have w: "word_of_nat 23 = (23 :: u32)" by simp
  note f = rel_rec.field [OF assms(1-3), unfolded w] and u = rel_rec.field_u32 [OF assms(1-3), unfolded w]
  have "r_u32 r ?o = Some (rr_Off ?x)" "r_u32 r (?o + 15) = Some (fst (rr_Sym ?x))" "r_u32 r (?o + 19) = Some (snd (rr_Sym ?x))"
    using u [of 0] u [of 15] u [of 19] un_le32_le32 [of _ "[]"] by (simp_all add: b)
  moreover have "at_off r (unat (?o + 4)) 1 = Some [rr_Siz ?x]" "at_off r (unat (?o + 5)) 2 = Some (le16 (rr_Type ?x))" "at_off r (unat (?o + 7)) 8 = Some (le64 (rr_Add ?x))"
    using f [of 4 1] f [of 5 2] f [of 7 8] by (simp_all add: b)
  moreover have "un_le16 (le16 (rr_Type ?x)) = rr_Type ?x" "un_le64 (le64 (rr_Add ?x)) = rr_Add ?x" using un_le16_le16 [of _ "[]"] un_le64_le64 [of _ "[]"] by simp_all
  ultimately show ?thesis by (simp add: reloc_at_def relocSize_def)
qed

lemma aux_read:
  assumes "holds r ''Aux'' (concat (map (E_aux l) xs))" "\<forall>x\<in>set xs. aux_bytes l x = Inr (E_aux l x)" "i < length xs"
  shows "aux_at r (word_of_nat i) = Some (raux_of l (xs ! i))"
proof -
  let ?x = "raux_of l (xs ! i)" let ?o = "get_off r ''Aux'' + word_of_nat i * 9"
  have b: "E_aux l (xs ! i) = [ra_Type ?x] @ le32 (fst (ra_Sym ?x)) @ le32 (snd (ra_Sym ?x))" using assms(2,3) by (intro aux_bytes_eq) simp
  have w: "word_of_nat 9 = (9 :: u32)" by simp
  note f = aux_rec.field [OF assms(1-3), unfolded w] and u = aux_rec.field_u32 [OF assms(1-3), unfolded w]
  have "at_off r (unat ?o) 1 = Some [ra_Type ?x]" "r_u32 r (?o + 1) = Some (fst (ra_Sym ?x))" "r_u32 r (?o + 5) = Some (snd (ra_Sym ?x))"
    using f [of 0 1] u [of 1] u [of 5] un_le32_le32 [of _ "[]"] by (simp_all add: b)
  then show ?thesis by (simp add: aux_at_def auxSize_def)
qed

section \<open>The object\<close>

lemma sum_take_le: "sum_list (take i ks) + (if i < length ks then ks ! i else 0) \<le> sum_list (ks :: nat list)"
proof (cases "i < length ks")
  case True
  then have "sum_list ks = sum_list (take i ks) + ks ! i + sum_list (drop (Suc i) ks)"
    by (metis (no_types) add.assoc append_take_drop_id Cons_nth_drop_Suc sum_list.Cons sum_list.append)
  then show ?thesis using True by simp
qed simp

lemma indexed_read:
  assumes "holds r b (idx_bytes (map (\<lambda>s. length (f s)) ds) 0)" "\<And>k. k < length (concat (map f ds)) \<Longrightarrow> g (word_of_nat k :: u32) = Some (dec (concat (map f ds) ! k))"
    "length (concat (map f ds)) < 2 ^ 32" "i < length ds"
  shows "Option.bind (span r b (word_of_nat i)) (\<lambda>(a, e). mapO (\<lambda>k. g (word_of_nat k)) [unat a..<unat e]) = Some (map dec (f (ds ! i)))"
proof -
  let ?ks = "map (\<lambda>s. length (f s)) ds" let ?a = "sum_list (take i ?ks)" let ?xs = "concat (map f ds)"
  have tot: "sum_list ?ks = length ?xs" by (simp add: length_concat comp_def)
  have le: "?a + length (f (ds ! i)) \<le> length ?xs" using sum_take_le [of i ?ks] assms(4) tot by simp
  then have ua: "unat (word_of_nat ?a :: u32) = ?a" "unat (word_of_nat (?a + length (f (ds ! i))) :: u32) = ?a + length (f (ds ! i))"
    using assms(3) by (simp_all only: unat_of_nat) (simp_all add: mod_less)
  have sp: "span r b (word_of_nat i) = Some (word_of_nat ?a, word_of_nat (?a + length (f (ds ! i))))" using span_at [OF assms(1), of i] assms(4) by simp
  have "mapO (\<lambda>k. g (word_of_nat k)) [?a..<?a + length (f (ds ! i))] = Some (map (\<lambda>k. dec (?xs ! k)) [?a..<?a + length (f (ds ! i))])"
    using le by (intro mapO_Some assms(2)) auto
  moreover have "map ((!) ?xs) [?a..<?a + length (f (ds ! i))] = f (ds ! i)"
    using concat_slice [of i "map f ds"] assms(4) by (simp add: take_map comp_def)
  then have "map (\<lambda>k. dec (?xs ! k)) [?a..<?a + length (f (ds ! i))] = map dec (f (ds ! i))" by (metis (no_types, lifting) comp_def map_map map_cong)
  ultimately show ?thesis unfolding sp by (simp only: bind.bind_lunit prod.case ua)
qed

lemma files_read:
  assumes "holds r ''File'' (concat (map (E_str strs) fs))" "\<forall>f\<in>set fs. stringRef strs f = Inr (E_str strs f)" "strs_at (rd_b r) strs h" "length (rd_b r) < 2 ^ 32"
    "get_off r ''Symdef'' = get_off r ''File'' + word_of_nat (8 * length fs)" "j \<le> length fs" "length fs - j < fuel"
  shows "files_loop fuel r (get_off r ''File'' + word_of_nat (8 * j)) = Some (drop j fs)"
  using assms(6,7)
proof (induction fuel arbitrary: j)
  case (Suc fuel)
  let ?o = "\<lambda>j. get_off r ''File'' + word_of_nat (8 * j)"
  have "\<forall>y\<in>set (map (E_str strs) fs). length y = 8" using assms(2) str_rec.size by auto
  then have len: "length (concat (map (E_str strs) fs)) = 8 * length fs" using length_records by fastforce
  have u: "unat (?o j) = unat (get_off r ''File'') + 8 * j" if "j \<le> length fs" for j
    using assms(1) that len by (intro unat_add_small) (simp add: holds_def)
  show ?case
  proof (cases "j < length fs")
    case True
    have f: "stringRef strs (fs ! j) = Inr (E_str strs (fs ! j))" using assms(2) True by simp
    then obtain off where off: "strs (fs ! j) = Some off" "E_str strs (fs ! j) = le32 (word_of_nat (length (fs ! j))) @ le32 off"
      by (auto simp: stringRef_def split: option.splits)
    have w: "?o j = get_off r ''File'' + word_of_nat j * word_of_nat 8" by (simp add: mult.commute)
    have "r_u32 r (?o j) = Some (word_of_nat (length (fs ! j)))" "r_u32 r (?o j + 4) = Some off"
      using str_rec.field_u32 [OF assms(1,2) True, of 0] str_rec.field_u32 [OF assms(1,2) True, of 4] un_le32_le32 [of off "[]"] unfolding w off(2) by simp_all
    then have "r_str r (?o j) = Some (fs ! j)" by (rule r_str_ok [OF assms(3) off(1) assms(4)])
    moreover have "files_loop fuel r (?o j + 8) = Some (drop (Suc j) fs)" using Suc.IH [of "Suc j"] Suc.prems True by (simp add: algebra_simps)
    moreover have "?o j < get_off r ''Symdef''" unfolding assms(5) word_less_nat_alt using True by (simp only: u Suc.prems(1) le_refl)
    ultimately show ?thesis using True by (simp add: Cons_nth_drop_Suc)
  next
    case False
    then show ?thesis using Suc.prems(1) assms(5) by simp
  qed
qed simp

text \<open>What the reader of an object returns.\<close>

definition reads_link :: "Reader \<Rightarrow> Link \<Rightarrow> bool" where
  "reads_link r l \<longleftrightarrow>
     (\<forall>i<length (all_syms l). Sym_of r (word_of_nat i) = Some (rsym_of l (all_syms l ! i))) \<and>
     (\<forall>i<length (all_defs l). let s = all_defs l ! i in
        Data_of r (word_of_nat i) = Some (sy_P (sym_at l s)) \<and>
        Relocs r (word_of_nat i) = Some (map (rreloc_of l) (sorted_relocs l s)) \<and>
        Auxs r (word_of_nat i) = Some (map (raux_of l) (aux l s))) \<and>
     NSym r = int (length (lk_defs l)) \<and> NHashed64def r = int (length (lk_hashed64 l)) \<and> NHasheddef r = int (length (lk_hashed l)) \<and>
     NNonpkgdef r = int (length (lk_nonpkgdefs l)) \<and> NNonpkgref r = int (length (lk_nonpkgrefs l)) \<and>
     Files r = Some (lk_files l) \<and> rd_Meta r = lk_Meta l \<and> length (all_syms l) < 2 ^ 32"

lemma data_read:
  assumes "holds r ''DataIdx'' (idx_bytes (map (\<lambda>s. length (f s)) ds) 0)" "holds r ''Data'' (concat (map f ds))" "i < length ds"
  shows "Data_of r (word_of_nat i) = Some (f (ds ! i))"
proof -
  let ?ks = "map (\<lambda>s. length (f s)) ds" let ?a = "sum_list (take i ?ks)" let ?n = "length (f (ds ! i))" let ?b = "get_off r ''Data''"
  have le: "?a + ?n \<le> length (concat (map f ds))" using sum_take_le [of i ?ks] assms(3) by (simp add: length_concat comp_def)
  have h: "unat ?b + length (concat (map f ds)) \<le> length (rd_b r)" "length (rd_b r) < 2 ^ 32" "take (length (concat (map f ds))) (drop (unat ?b) (rd_b r)) = concat (map f ds)"
    using assms(2) by (auto simp: holds_def)
  have u: "unat (?b + word_of_nat ?a) = unat ?b + ?a" "unat (?b + word_of_nat (?a + ?n)) = unat ?b + (?a + ?n)"
    using h le by (intro unat_add_small; linarith)+
  have "map f ds = take i (map f ds) @ f (ds ! i) # drop (Suc i) (map f ds)" using assms(3) id_take_nth_drop [of i "map f ds"] by simp
  then have "concat (map f ds) = concat (take i (map f ds)) @ f (ds ! i) @ concat (drop (Suc i) (map f ds))" by (metis concat.simps(2) concat_append)
  moreover have "length (concat (take i (map f ds))) = ?a" by (simp add: length_concat take_map comp_def)
  ultimately have "take ?n (drop ?a (concat (map f ds))) = f (ds ! i)" by (metis append_eq_conv_conj)
  moreover have "take ?n (drop ?a (concat (map f ds))) = take ?n (drop (unat ?b + ?a) (rd_b r))"
  proof -
    have "take ?n (drop ?a (concat (map f ds))) = take ?n (drop ?a (take (length (concat (map f ds))) (drop (unat ?b) (rd_b r))))" using h(3) by simp
    also have "\<dots> = take ?n (drop (unat ?b + ?a) (rd_b r))" using le by (simp add: drop_take take_take min_absorb1 add.commute)
    finally show ?thesis .
  qed
  moreover have "?b + word_of_nat ?a \<le> ?b + word_of_nat (?a + ?n)" unfolding word_le_nat_alt u by simp
  moreover have "span r ''DataIdx'' (word_of_nat i) = Some (word_of_nat ?a, word_of_nat (?a + ?n))" using span_at [OF assms(1), of i] assms(3) by simp
  moreover have "unat ?b + (?a + ?n) \<le> length (rd_b r)" using h le by linarith
  ultimately show ?thesis unfolding Data_of_def Let_def by (simp only: bind.bind_lunit prod.case u) simp
qed

lemma unat_u32: "n < 2 ^ 32 \<Longrightarrow> unat (word_of_nat n :: u32) = n"
  by (simp add: unat_of_nat)

lemma nsym_read:
  assumes "unat (a :: u32) + n * 21 + rest = tot" "unat b + rest = tot" "tot < 2 ^ 32"
  shows "uint (b - a) div uint symSize = int n"
proof -
  have "unat b = unat a + n * 21" using assms by simp
  then have "b = a + word_of_nat (n * 21)" using assms(1,3) by (intro word_unat_eq_iff [THEN iffD2]) (simp only: unat_add_small)
  then have "b - a = word_of_nat (n * 21)" by simp
  moreover have "unat (word_of_nat (n * 21) :: u32) = n * 21" using assms by (intro unat_u32) simp
  ultimately have "uint (b - a) = int (n * 21)" by (metis uint_nat)
  then show ?thesis by (simp add: symSize_def)
qed

lemma object_reads_link:
  assumes "object_read r l strs bl"
  shows "reads_link r l"
proof -
  have o: "blocks strs l = Inr bl" "length (rd_b r) < 2 ^ 32" "strs_at (rd_b r) strs 0" "rd_Meta r = lk_Meta l"
    "rd_nsym r = map (\<lambda>(k, n). uint (get_off r n - get_off r k) div uint symSize) (zip sym_blocks next_blocks)"
    and h: "\<And>k. k < length bl \<Longrightarrow> holds r (fst (bl ! k)) (concat (map snd (drop k bl)))"
    and off: "\<And>k. k < length bl \<Longrightarrow> unat (get_off r (fst (bl ! k))) + length (concat (map snd (drop k bl))) = length (rd_b r)"
    using assms by (auto simp: object_read_def)
  obtain h64 hs where bl: "bl = [(''Autolib'', []), (''PkgIdx'', E_str strs []), (''File'', concat (map (E_str strs) (lk_files l))),
      (''Symdef'', concat (map (E_sym strs l) (lk_defs l))), (''Hashed64def'', concat (map (E_sym strs l) (lk_hashed64 l))),
      (''Hasheddef'', concat (map (E_sym strs l) (lk_hashed l))), (''Nonpkgdef'', concat (map (E_sym strs l) (lk_nonpkgdefs l))),
      (''Nonpkgref'', concat (map (E_sym strs l) (lk_nonpkgrefs l))), (''RefFlags'', []), (''Hash64'', h64), (''Hash'', hs),
      (''RelocIdx'', idx_bytes (map (\<lambda>s. length (sy_R (sym_at l s))) (all_defs l)) 0),
      (''AuxIdx'', idx_bytes (map (\<lambda>s. length (aux l s)) (all_defs l)) 0),
      (''DataIdx'', idx_bytes (map (\<lambda>s. length (sy_P (sym_at l s))) (all_defs l)) 0),
      (''Reloc'', concat (map (E_rel l) (all_relocs l))), (''Aux'', concat (map (E_aux l) (all_auxs l))),
      (''Data'', concat (map (\<lambda>s. sy_P (sym_at l s)) (all_defs l))), (''RefName'', []), (''End'', [])]"
    and ok: "\<forall>s\<in>set (all_syms l). writeSym strs l s = Inr (E_sym strs l s)" "\<forall>r\<in>set (all_relocs l). reloc_bytes l r = Inr (E_rel l r)"
    "\<forall>a\<in>set (all_auxs l). aux_bytes l a = Inr (E_aux l a)" "\<forall>f\<in>set (lk_files l). stringRef strs f = Inr (E_str strs f)"
    using blocks_list [OF o(1)] by blast
  have size: "length (concat (map (E_sym strs l) xs)) = length xs * 21" if "set xs \<subseteq> set (all_syms l)" for xs
    using length_records [of "map (E_sym strs l) xs" 21] that ok(1) sym_rec.size by fastforce
  have sub: "set (lk_defs l) \<subseteq> set (all_syms l)" "set (lk_hashed64 l) \<subseteq> set (all_syms l)" "set (lk_hashed l) \<subseteq> set (all_syms l)"
    "set (lk_nonpkgdefs l) \<subseteq> set (all_syms l)" "set (lk_nonpkgrefs l) \<subseteq> set (all_syms l)" by (auto simp: all_syms_def all_defs_def)
  have S: "holds r ''Symdef'' (concat (map (E_sym strs l) (all_syms l)))"
  proof -
    have "concat (map snd (drop 3 bl)) = concat (map (E_sym strs l) (all_syms l)) @ concat (map snd (drop 8 bl))" "fst (bl ! 3) = ''Symdef''" "3 < length bl"
      by (simp_all add: bl all_syms_def all_defs_def)
    with h [of 3] show ?thesis by (metis holds_prefix)
  qed
  have own: "holds r (fst (bl ! k)) (snd (bl ! k))" if "k < length bl" for k
  proof -
    have "drop k bl = bl ! k # drop (Suc k) bl" using that by (simp only: Cons_nth_drop_Suc)
    then have "holds r (fst (bl ! k)) (snd (bl ! k) @ concat (map snd (drop (Suc k) bl)))" using h [OF that] by (simp only: list.map concat.simps)
    then show ?thesis by (rule holds_prefix)
  qed
  have ns: "length (all_syms l) < 2 ^ 32" using S size [of "all_syms l"] o(2) by (simp add: holds_def)
  have syms: "Sym_of r (word_of_nat i) = Some (rsym_of l (all_syms l ! i))" if "i < length (all_syms l)" for i
    by (rule Sym_of_read [OF S ok(1) that o(3,2)])
  have R: "holds r ''Reloc'' (concat (map (E_rel l) (all_relocs l)))" "holds r ''RelocIdx'' (idx_bytes (map (\<lambda>s. length (sorted_relocs l s)) (all_defs l)) 0)"
  proof -
    show "holds r ''Reloc'' (concat (map (E_rel l) (all_relocs l)))" using own [of 14] by (simp add: bl)
    have "map (\<lambda>s. length (sorted_relocs l s)) (all_defs l) = map (\<lambda>s. length (sy_R (sym_at l s))) (all_defs l)" by (simp add: sorted_relocs_def)
    moreover have "holds r ''RelocIdx'' (idx_bytes (map (\<lambda>s. length (sy_R (sym_at l s))) (all_defs l)) 0)" using own [of 11] by (simp add: bl)
    ultimately show "holds r ''RelocIdx'' (idx_bytes (map (\<lambda>s. length (sorted_relocs l s)) (all_defs l)) 0)" by (simp only:)
  qed
  have A: "holds r ''Aux'' (concat (map (E_aux l) (all_auxs l)))" "holds r ''AuxIdx'' (idx_bytes (map (\<lambda>s. length (aux l s)) (all_defs l)) 0)"
    using own [of 15] own [of 12] by (simp_all add: bl)
  have D: "holds r ''Data'' (concat (map (\<lambda>s. sy_P (sym_at l s)) (all_defs l)))" "holds r ''DataIdx'' (idx_bytes (map (\<lambda>s. length (sy_P (sym_at l s))) (all_defs l)) 0)"
    using own [of 16] own [of 13] by (simp_all add: bl)
  have F: "holds r ''File'' (concat (map (E_str strs) (lk_files l)))" using own [of 2] by (simp add: bl)
  have small: "length (all_relocs l) < 2 ^ 32" "length (all_auxs l) < 2 ^ 32"
    using R(1) A(1) o(2) length_records [of "map (E_rel l) (all_relocs l)" 23] length_records [of "map (E_aux l) (all_auxs l)" 9] ok(2,3) rel_rec.size aux_rec.size
    by (fastforce simp: holds_def)+
  have rels: "Relocs r (word_of_nat i) = Some (map (rreloc_of l) (sorted_relocs l (all_defs l ! i)))" if "i < length (all_defs l)" for i
    unfolding Relocs_def
    by (rule indexed_read [OF R(2), where dec = "rreloc_of l"]) (use reloc_read [OF R(1) ok(2)] small that in \<open>simp_all add: all_relocs_def\<close>)
  have auxs: "Auxs r (word_of_nat i) = Some (map (raux_of l) (aux l (all_defs l ! i)))" if "i < length (all_defs l)" for i
    unfolding Auxs_def
    by (rule indexed_read [OF A(2), where dec = "raux_of l"]) (use aux_read [OF A(1) ok(3)] small that in \<open>simp_all add: all_auxs_def\<close>)
  have n: "uint (get_off r (fst (bl ! Suc k)) - get_off r (fst (bl ! k))) div uint symSize = int (length xs)"
    if "k < 18" "snd (bl ! k) = concat (map (E_sym strs l) xs)" "set xs \<subseteq> set (all_syms l)" for k xs
  proof (rule nsym_read [OF _ off [of "Suc k"] o(2)])
    have lb: "length bl = 19" by (simp add: bl)
    then have "drop k bl = bl ! k # drop (Suc k) bl" using that(1) by (simp add: Cons_nth_drop_Suc)
    then show "unat (get_off r (fst (bl ! k))) + length xs * 21 + length (concat (map snd (drop (Suc k) bl))) = length (rd_b r)"
      using off [of k] that size [OF that(3)] lb by simp
    show "Suc k < length bl" using lb that(1) by simp
  qed
  have fl: "Files r = Some (lk_files l)"
  proof -
    have len: "length (concat (map (E_str strs) (lk_files l))) = 8 * length (lk_files l)" using length_records [of "map (E_str strs) (lk_files l)" 8] ok(4) str_rec.size by fastforce
    have us: "unat (get_off r ''Symdef'') = unat (get_off r ''File'') + 8 * length (lk_files l)" using off [of 2] off [of 3] len by (simp add: bl)
    have "unat (get_off r ''Symdef'') < 2 ^ 32" using unat_lt_exp [of "get_off r ''Symdef''"] by simp
    then have "get_off r ''Symdef'' = get_off r ''File'' + word_of_nat (8 * length (lk_files l))"
      using us by (intro word_unat_eq_iff [THEN iffD2]) (simp only: unat_add_small)
    moreover have "length (lk_files l) < Suc (length (rd_b r))" using F len by (simp add: holds_def)
    ultimately show ?thesis using files_read [OF F ok(4) o(3,2), of 0] by (simp add: Files_def del: files_loop.simps)
  qed
  have counts: "NSym r = int (length (lk_defs l))" "NHashed64def r = int (length (lk_hashed64 l))" "NHasheddef r = int (length (lk_hashed l))"
    "NNonpkgdef r = int (length (lk_nonpkgdefs l))" "NNonpkgref r = int (length (lk_nonpkgrefs l))"
    using n [of 3] n [of 4] n [of 5] n [of 6] n [of 7] sub
    by (simp_all add: bl o(5) sym_blocks_def next_blocks_def NSym_def NHashed64def_def NHasheddef_def NNonpkgdef_def NNonpkgref_def)
  show ?thesis
    unfolding reads_link_def Let_def using syms rels auxs data_read [OF D(2,1)] counts fl o(4) ns by blast
qed

end
