(* ===== verification/Goobj_Number.thy ===== *)
theory Goobj_Number
  imports Goobj_Roundtrip
begin

text \<open>
  Numbering: after \<open>number\<close> and \<open>funcInfoSyms\<close> the package and symbol index of every symbol name its
  position in the lists the writer emits, and the symbols are otherwise unchanged. With the blocks
  this gives the round trip of an object file: the reader finds every symbol, and the references of
  its relocations lead to the symbols they were made for.
\<close>

section \<open>What numbering keeps\<close>

definition core :: "Sym \<Rightarrow> Sym" where
  "core y = y\<lparr>sy_indexed := False, sy_pkgIdx := 0, sy_symIdx := 0, sy_Func := map_option (\<lambda>f. f\<lparr>fi_funcInfoSym := None\<rparr>) (sy_Func y)\<rparr>"

definition keeps :: "Link \<Rightarrow> Link \<Rightarrow> bool" where
  "keeps l l' \<longleftrightarrow> length (lk_store l) \<le> length (lk_store l') \<and> (\<forall>s<length (lk_store l). core (sym_at l' s) = core (sym_at l s)) \<and>
     lk_Meta l' = lk_Meta l \<and> lk_Arch l' = lk_Arch l \<and> lk_Pkgpath l' = lk_Pkgpath l \<and> lk_RegabiWrappers l' = lk_RegabiWrappers l \<and> lk_Text l' = lk_Text l \<and> lk_Data l' = lk_Data l \<and> lk_files l' = lk_files l \<and>
     set (all_defs l) \<subseteq> set (all_defs l')"

lemma keeps_refl [simp]: "keeps l l"
  by (simp add: keeps_def)

lemma keeps_trans: "keeps l l' \<Longrightarrow> keeps l' l'' \<Longrightarrow> keeps l l''"
  by (auto simp: keeps_def)

lemma core_fields:
  assumes "core y' = core y"
  shows "sy_Name y' = sy_Name y" "sy_ABI y' = sy_ABI y" "sy_Kind y' = sy_Kind y" "sy_P y' = sy_P y" "sy_Size y' = sy_Size y" "sy_R y' = sy_R y"
    "sy_Dupok y' = sy_Dupok y" "sy_NoSplit y' = sy_NoSplit y" "sy_Local y' = sy_Local y" "sy_Static y' = sy_Static y" "sy_ContentAddressable y' = sy_ContentAddressable y" "sy_Align y' = sy_Align y"
  using assms by (cases y; cases y'; simp add: core_def)+

text \<open>Looking names up only adds symbols.\<close>

definition extends :: "Link \<Rightarrow> Link \<Rightarrow> bool" where
  "extends l l' \<longleftrightarrow> (\<exists>ys h. l' = l\<lparr>lk_store := lk_store l @ ys, lk_hash := h\<rparr> \<and> (\<forall>y\<in>set ys. \<not> sy_indexed y))"

lemma extends_refl [simp]: "extends l l"
  unfolding extends_def by (intro exI [of _ "[]"] exI [of _ "lk_hash l"]) simp

lemma extends_trans: "extends l l' \<Longrightarrow> extends l' l'' \<Longrightarrow> extends l l''"
  unfolding extends_def by (elim exE conjE) (rename_tac ys zs h h', rule_tac x = "ys @ zs" in exI, auto)

lemma Lookup_extends: "Lookup name l = (s, l') \<Longrightarrow> extends l l'"
proof (cases "lk_hash l name")
  case None
  assume "Lookup name l = (s, l')"
  then have "l' = l\<lparr>lk_store := lk_store l @ [sym0\<lparr>sy_Name := name, sy_ABI := ABI0\<rparr>], lk_hash := (lk_hash l)(name \<mapsto> s)\<rparr>"
    using None by (auto simp: Lookup_def LookupABI_def alloc_def ABI0_def ABIInternal_def)
  moreover have "\<not> sy_indexed (sym0\<lparr>sy_Name := name, sy_ABI := ABI0\<rparr>)" by (simp add: sym0_def)
  ultimately show ?thesis unfolding extends_def by (intro exI [of _ "[sym0\<lparr>sy_Name := name, sy_ABI := ABI0\<rparr>]"] exI [of _ "(lk_hash l)(name \<mapsto> s)"]) simp
qed (auto simp: Lookup_def LookupABI_def ABI0_def ABIInternal_def)

lemma mapL_extends:
  assumes "mapL f xs l = Inr (ys, l')" "\<And>x l ys l'. x \<in> set xs \<Longrightarrow> f x l = Inr (ys, l') \<Longrightarrow> extends l l'"
  shows "extends l l'"
  using assms
proof (induction xs arbitrary: l ys)
  case (Cons x xs)
  then obtain as l1 bs where "f x l = Inr (as, l1)" "mapL f xs l1 = Inr (bs, l')" by (auto simp: sbind_Inr_iff)
  then show ?case using Cons.IH [of l1 bs] Cons.prems(2) extends_trans by (metis list.set_intros)
qed simp

lemma file_sym_extends: "file_sym i l = Inr (ys, l') \<Longrightarrow> extends l l'"
  by (auto simp: file_sym_def dest: Lookup_extends split: if_splits prod.splits)

lemma inl_syms_extends: "inl_syms n l = Inr (ys, l') \<Longrightarrow> extends l l'"
  by (auto simp: inl_syms_def sbind_Inr_iff dest: file_sym_extends split: if_splits)

lemma aux_extends:
  assumes "traverseFuncAux flag s l = Inr (ys, l')"
  shows "extends l l'"
proof -
  obtain f where f: "sy_Func (sym_at l s) = Some f" using assms by (cases "sy_Func (sym_at l s)") (auto simp: traverseFuncAux_def)
  then obtain fs l1 ns where m: "mapL file_sym (sortedFiles (fi_UsedFiles f)) l = Inr (fs, l1)" "mapL inl_syms (fi_InlTree f) l1 = Inr (ns, l')"
    using assms by (auto simp: traverseFuncAux_def sbind_Inr_iff)
  show ?thesis by (rule extends_trans [OF mapL_extends [OF m(1) file_sym_extends] mapL_extends [OF m(2) inl_syms_extends]])
qed

lemma visit_extends: "visit flag s l = Inr (ys, l') \<Longrightarrow> extends l l'"
  by (auto simp: visit_def Let_def sbind_Inr_iff dest: aux_extends split: if_splits)

lemma traverse_extends: "traverse flag l = Inr (ys, l') \<Longrightarrow> extends l l'"
  unfolding traverse_def by (erule mapL_extends) (rule visit_extends)

lemma extends_keeps: "extends l l' \<Longrightarrow> keeps l l'"
  by (auto simp: extends_def keeps_def sym_at_def nth_append all_defs_def)

section \<open>Indices are positions\<close>

definition non_pkg :: "Link \<Rightarrow> sid list" where
  "non_pkg l = lk_nonpkgdefs l @ lk_nonpkgrefs l"

definition is_at :: "sid \<Rightarrow> i32 \<Rightarrow> sid list \<Rightarrow> bool" where
  "is_at s i xs \<longleftrightarrow> (\<exists>n<length xs. xs ! n = s \<and> i = word_of_nat n)"

definition idx_ok :: "Link \<Rightarrow> sid \<Rightarrow> bool" where
  "idx_ok l s \<longleftrightarrow> (let p = sy_pkgIdx (sym_at l s); i = sy_symIdx (sym_at l s) in
     p = pk l ''None'' \<and> is_at s i (non_pkg l) \<or> p = pk l ''Hashed64'' \<and> is_at s i (lk_hashed64 l) \<or> p = pk l ''Hashed'' \<and> is_at s i (lk_hashed l) \<or>
     p = pk l ''Self'' \<and> is_at s i (lk_defs l) \<or>
     p = pk l ''Builtin'' \<and> (\<exists>k. builtinIdx l (sy_Name (sym_at l s)) (sy_ABI (sym_at l s)) = int k \<and> i = word_of_nat k))"

definition numbered :: "Link \<Rightarrow> bool" where
  "numbered l \<longleftrightarrow> (\<forall>s<length (lk_store l). sy_indexed (sym_at l s) \<longrightarrow> idx_ok l s)"

lemma is_at_append: "is_at s i xs \<Longrightarrow> is_at s i (xs @ ys)"
  by (auto simp: is_at_def nth_append)

lemma is_at_last: "is_at s (word_of_nat (length xs)) (xs @ [s])"
  unfolding is_at_def by (intro exI [of _ "length xs"]) simp

lemma sym_at_set_idx: "s < length (lk_store l) \<Longrightarrow> sym_at (set_idx s p i l) t = (if t = s then (sym_at l s)\<lparr>sy_pkgIdx := p, sy_symIdx := i, sy_indexed := True\<rparr> else sym_at l t)"
  by (simp add: set_idx_def upd_def sym_at_def)

lemma set_idx_out: "\<not> s < length (lk_store l) \<Longrightarrow> set_idx s p i l = l"
  by (simp add: set_idx_def upd_def list_update_beyond)

lemma length_set_idx [simp]: "length (lk_store (set_idx s p i l)) = length (lk_store l)"
  by (simp add: set_idx_def upd_def)

lemma set_idx_fields [simp]: "lk_Meta (set_idx s p i l) = lk_Meta l" "lk_Arch (set_idx s p i l) = lk_Arch l" "lk_Pkgpath (set_idx s p i l) = lk_Pkgpath l"
  "lk_RegabiWrappers (set_idx s p i l) = lk_RegabiWrappers l" "lk_Text (set_idx s p i l) = lk_Text l" "lk_Data (set_idx s p i l) = lk_Data l" "lk_files (set_idx s p i l) = lk_files l"
  "lk_defs (set_idx s p i l) = lk_defs l" "lk_hashed64 (set_idx s p i l) = lk_hashed64 l" "lk_hashed (set_idx s p i l) = lk_hashed l"
  "lk_nonpkgdefs (set_idx s p i l) = lk_nonpkgdefs l" "lk_nonpkgrefs (set_idx s p i l) = lk_nonpkgrefs l" "lk_flushed (set_idx s p i l) = lk_flushed l"
  by (simp_all add: set_idx_def upd_def)

lemma core_set_idx [simp]: "core (y\<lparr>sy_pkgIdx := p, sy_symIdx := i, sy_indexed := True\<rparr>) = core y"
  by (simp add: core_def)

text \<open>One step: a symbol gets an index that is its position in lists that only grow.\<close>

definition grows :: "Link \<Rightarrow> Link \<Rightarrow> bool" where
  "grows l l' \<longleftrightarrow> (\<forall>t i. (is_at t i (non_pkg l) \<longrightarrow> is_at t i (non_pkg l')) \<and> (is_at t i (lk_hashed64 l) \<longrightarrow> is_at t i (lk_hashed64 l')) \<and>
     (is_at t i (lk_hashed l) \<longrightarrow> is_at t i (lk_hashed l')) \<and> (is_at t i (lk_defs l) \<longrightarrow> is_at t i (lk_defs l')))"

lemma builtinIdx_cong: "lk_Meta l' = lk_Meta l \<Longrightarrow> lk_RegabiWrappers l' = lk_RegabiWrappers l \<Longrightarrow> builtinIdx l' = builtinIdx l"
  by (simp add: fun_eq_iff builtinIdx_def Let_def)

lemma idx_ok_grows:
  assumes "idx_ok l t" "grows l l'" "sym_at l' t = sym_at l t" "lk_Meta l' = lk_Meta l" "lk_RegabiWrappers l' = lk_RegabiWrappers l"
  shows "idx_ok l' t"
proof -
  have "pk l' = pk l" "builtinIdx l' = builtinIdx l" unfolding fun_eq_iff pk_def builtinIdx_def assms(4,5) by simp_all
  then show ?thesis using assms(1,2) unfolding idx_ok_def Let_def assms(3) grows_def by metis
qed

lemma numbered_extends:
  assumes "numbered l" "extends l l'"
  shows "numbered l'"
proof -
  obtain ys h where l': "l' = l\<lparr>lk_store := lk_store l @ ys, lk_hash := h\<rparr>" "\<forall>y\<in>set ys. \<not> sy_indexed y" using assms(2) by (auto simp: extends_def)
  have "idx_ok l' t" if t: "t < length (lk_store l')" "sy_indexed (sym_at l' t)" for t
  proof (cases "t < length (lk_store l)")
    case True
    then have eq: "sym_at l' t = sym_at l t" by (simp add: l'(1) sym_at_def nth_append)
    have ok: "idx_ok l t" using assms(1) t(2) True unfolding eq numbered_def by blast
    have "grows l l'" by (simp add: l'(1) grows_def non_pkg_def)
    from idx_ok_grows [OF ok this eq] show ?thesis by (simp add: l'(1))
  next
    case False
    then have "sym_at l' t \<in> set ys" using t(1) by (simp add: l'(1) sym_at_def nth_append)
    then show ?thesis using t(2) l'(2) by simp
  qed
  then show ?thesis by (simp add: numbered_def)
qed

definition pos_ok :: "Link \<Rightarrow> sid \<Rightarrow> i32 \<Rightarrow> i32 \<Rightarrow> bool" where
  "pos_ok l s p i \<longleftrightarrow> p = pk l ''None'' \<and> is_at s i (non_pkg l) \<or> p = pk l ''Hashed64'' \<and> is_at s i (lk_hashed64 l) \<or>
     p = pk l ''Hashed'' \<and> is_at s i (lk_hashed l) \<or> p = pk l ''Self'' \<and> is_at s i (lk_defs l)"

definition same_link :: "Link \<Rightarrow> Link \<Rightarrow> bool" where
  "same_link l l' \<longleftrightarrow> lk_Meta l' = lk_Meta l \<and> lk_Arch l' = lk_Arch l \<and> lk_Pkgpath l' = lk_Pkgpath l \<and> lk_RegabiWrappers l' = lk_RegabiWrappers l \<and>
     lk_Text l' = lk_Text l \<and> lk_Data l' = lk_Data l \<and> lk_files l' = lk_files l \<and> set (all_defs l) \<subseteq> set (all_defs l')"

lemma step_ok:
  assumes "numbered l" "lk_store l' = lk_store (set_idx s p i l)" "grows l l'" "same_link l l'"
    "pos_ok l' s p i \<or> p = pk l' ''Builtin'' \<and> (\<exists>k. builtinIdx l' (sy_Name (sym_at l s)) (sy_ABI (sym_at l s)) = int k \<and> i = word_of_nat k)"
  shows "numbered l' \<and> keeps l l'"
proof
  have y: "sym_at l' t = (if t = s then (sym_at l s)\<lparr>sy_pkgIdx := p, sy_symIdx := i, sy_indexed := True\<rparr> else sym_at l t)" if "t < length (lk_store l)" for t
  proof (cases "s < length (lk_store l)")
    case True
    then show ?thesis using sym_at_set_idx [OF True, of p i t] assms(2) by (simp add: sym_at_def)
  next
    case False
    then show ?thesis using set_idx_out [OF False, of p i] assms(2) that by (auto simp: sym_at_def)
  qed
  have n: "length (lk_store l') = length (lk_store l)" using assms(2) by simp
  have m: "lk_Meta l' = lk_Meta l" "lk_RegabiWrappers l' = lk_RegabiWrappers l" using assms(4) by (simp_all add: same_link_def)
  have "idx_ok l' t" if t: "t < length (lk_store l')" "sy_indexed (sym_at l' t)" for t
  proof (cases "t = s")
    case True
    then show ?thesis using assms(5) t(1) y [of s] n by (auto simp: idx_ok_def pos_ok_def)
  next
    case False
    then have eq: "sym_at l' t = sym_at l t" using y [of t] t(1) n by simp
    have "idx_ok l t" using assms(1) t n unfolding eq numbered_def by simp
    from idx_ok_grows [OF this assms(3) eq m] show ?thesis .
  qed
  then show "numbered l'" by (simp add: numbered_def)
  have "core (sym_at l' t) = core (sym_at l t)" if "t < length (lk_store l)" for t using y [OF that] by simp
  then show "keeps l l'" using assms(4) n by (simp add: keeps_def same_link_def)
qed

lemma number_def_ok:
  assumes "number_def s l = Inr l'" "numbered l" "lk_nonpkgrefs l = []"
  shows "numbered l' \<and> keeps l l' \<and> lk_nonpkgrefs l' = [] \<and> s \<in> set (all_defs l')"
proof -
  consider (h64) "l' = (set_idx s (pk l ''Hashed64'') (word_of_nat (length (lk_hashed64 l))) l)\<lparr>lk_hashed64 := lk_hashed64 l @ [s]\<rparr>"
    | (h) "l' = (set_idx s (pk l ''Hashed'') (word_of_nat (length (lk_hashed l))) l)\<lparr>lk_hashed := lk_hashed l @ [s]\<rparr>"
    | (n) "l' = (set_idx s (pk l ''None'') (word_of_nat (length (lk_nonpkgdefs l))) l)\<lparr>lk_nonpkgdefs := lk_nonpkgdefs l @ [s]\<rparr>"
    | (d) "l' = (set_idx s (pk l ''Self'') (word_of_nat (length (lk_defs l))) l)\<lparr>lk_defs := lk_defs l @ [s]\<rparr>"
    using assms(1) by (auto simp: number_def_def Let_def sbind_Inr_iff split: if_splits)
  then have "\<exists>p i. lk_store l' = lk_store (set_idx s p i l) \<and> grows l l' \<and> same_link l l' \<and> pos_ok l' s p i \<and> lk_nonpkgrefs l' = [] \<and> s \<in> set (all_defs l')"
  proof cases
    case h64
    then show ?thesis using assms(3) is_at_last [of s "lk_hashed64 l"]
      by (intro exI [of _ "pk l ''Hashed64''"] exI [of _ "word_of_nat (length (lk_hashed64 l))"]) (auto simp: grows_def same_link_def pos_ok_def pk_def non_pkg_def all_defs_def is_at_append)
  next
    case h
    then show ?thesis using assms(3) is_at_last [of s "lk_hashed l"]
      by (intro exI [of _ "pk l ''Hashed''"] exI [of _ "word_of_nat (length (lk_hashed l))"]) (auto simp: grows_def same_link_def pos_ok_def pk_def non_pkg_def all_defs_def is_at_append)
  next
    case n
    then show ?thesis using assms(3) is_at_last [of s "lk_nonpkgdefs l"]
      by (intro exI [of _ "pk l ''None''"] exI [of _ "word_of_nat (length (lk_nonpkgdefs l))"]) (auto simp: grows_def same_link_def pos_ok_def pk_def non_pkg_def all_defs_def is_at_append)
  next
    case d
    then show ?thesis using assms(3) is_at_last [of s "lk_defs l"]
      by (intro exI [of _ "pk l ''Self''"] exI [of _ "word_of_nat (length (lk_defs l))"]) (auto simp: grows_def same_link_def pos_ok_def pk_def non_pkg_def all_defs_def is_at_append)
  qed
  then show ?thesis using step_ok [OF assms(2)] by blast
qed

lemma number_ref_ok:
  assumes "number_ref s (n, l) = Inr (n', l')" "numbered l" "n = word_of_nat (length (non_pkg l))"
  shows "numbered l' \<and> keeps l l' \<and> n' = word_of_nat (length (non_pkg l'))"
proof -
  let ?i = "builtinIdx l (sy_Name (sym_at l s)) (sy_ABI (sym_at l s))"
  consider (same) "l' = l" "n' = n" | (b) "?i \<ge> 0" "l' = set_idx s (pk l ''Builtin'') (word_of_int ?i) l" "n' = n"
    | (r) "l' = (set_idx s (pk l ''None'') n l)\<lparr>lk_nonpkgrefs := lk_nonpkgrefs l @ [s]\<rparr>" "n' = n + 1"
  proof -
    have "Inr (n', l') = (if sy_indexed (sym_at l s) then Inr (n, l) else if ?i \<ge> 0 then Inr (n, set_idx s (pk l ''Builtin'') (word_of_int ?i) l)
        else if sy_ContentAddressable (sym_at l s) then Inl (UndefContent (sy_Name (sym_at l s)))
        else Inr (n + 1, (set_idx s (pk l ''None'') n l)\<lparr>lk_nonpkgrefs := lk_nonpkgrefs l @ [s]\<rparr>))"
      using assms(1) unfolding number_ref_def Let_def prod.case by (rule sym)
    then show thesis using that by (simp split: if_splits)
  qed
  then show ?thesis
  proof cases
    case same
    then show ?thesis using assms by simp
  next
    case b
    have bi: "builtinIdx l' = builtinIdx l" unfolding fun_eq_iff builtinIdx_def b(2) set_idx_fields by simp
    have "grows l l'" "same_link l l'" "pk l' = pk l" by (simp_all add: b(2) grows_def same_link_def non_pkg_def all_defs_def pk_def fun_eq_iff)
    moreover have "\<exists>k. builtinIdx l' (sy_Name (sym_at l s)) (sy_ABI (sym_at l s)) = int k \<and> word_of_int ?i = word_of_nat k"
      unfolding bi using b(1) by (intro exI [of _ "nat ?i"]) simp
    ultimately have "numbered l' \<and> keeps l l'" using step_ok [OF assms(2), of l' s "pk l ''Builtin''" "word_of_int ?i"] b(2) by metis
    then show ?thesis using assms(3) b by (simp add: non_pkg_def)
  next
    case r
    have np: "non_pkg l' = non_pkg l @ [s]" by (simp add: r(1) non_pkg_def)
    have "grows l l'" "same_link l l'" "pk l' = pk l" using np by (simp_all add: r(1) grows_def same_link_def all_defs_def pk_def fun_eq_iff is_at_append)
    moreover have "is_at s n (non_pkg l')" unfolding np assms(3) by (rule is_at_last)
    ultimately have "numbered l' \<and> keeps l l'" using step_ok [OF assms(2), of l' s "pk l ''None''" n] r(1) by (simp add: pos_ok_def)
    then show ?thesis using assms(3) r by (simp add: non_pkg_def)
  qed
qed

section \<open>number\<close>

definition fresh :: "Link \<Rightarrow> bool" where
  "fresh l \<longleftrightarrow> (\<forall>y\<in>set (lk_store l). \<not> sy_indexed y) \<and> lk_defs l = [] \<and> lk_hashed64 l = [] \<and> lk_hashed l = [] \<and> lk_nonpkgdefs l = [] \<and> lk_nonpkgrefs l = []"

lemma fresh_numbered: "fresh l \<Longrightarrow> numbered l"
  by (simp add: fresh_def numbered_def sym_at_def)

lemma mapL_visits:
  assumes "mapL (visit flag) xs l = Inr (ys, l')" "travDefs \<in> flag"
  shows "set xs \<subseteq> set ys"
  using assms(1)
proof (induction xs arbitrary: l ys)
  case (Cons x xs)
  then obtain as l1 bs where v: "visit flag x l = Inr (as, l1)" "mapL (visit flag) xs l1 = Inr (bs, l')" "ys = as @ bs" by (auto simp: sbind_Inr_iff)
  have "x \<in> set as" using v(1) assms(2) by (auto simp: visit_def Let_def sbind_Inr_iff split: if_splits option.splits)
  then show ?case using Cons.IH [OF v(2)] v(3) by auto
qed simp

lemma number_defs_ok:
  assumes "foldE number_def ds l = Inr l'" "numbered l" "lk_nonpkgrefs l = []"
  shows "numbered l' \<and> keeps l l' \<and> lk_nonpkgrefs l' = [] \<and> set ds \<subseteq> set (all_defs l')"
  using assms
proof (induction ds arbitrary: l)
  case (Cons d ds)
  then obtain l1 where l1: "number_def d l = Inr l1" "foldE number_def ds l1 = Inr l'" by (auto simp: sbind_Inr_iff)
  note one = number_def_ok [OF l1(1) Cons.prems(2,3)]
  then have two: "numbered l' \<and> keeps l1 l' \<and> lk_nonpkgrefs l' = [] \<and> set ds \<subseteq> set (all_defs l')" using Cons.IH [OF l1(2)] by blast
  then have "set (all_defs l1) \<subseteq> set (all_defs l')" by (simp add: keeps_def)
  then show ?case using one two keeps_trans by auto
qed simp

lemma number_refs_ok:
  assumes "foldE number_ref rs (n, l) = Inr (n', l')" "numbered l" "n = word_of_nat (length (non_pkg l))"
  shows "numbered l' \<and> keeps l l'"
  using assms
proof (induction rs arbitrary: n l)
  case (Cons r rs)
  then obtain n1 l1 where l1: "number_ref r (n, l) = Inr (n1, l1)" "foldE number_ref rs (n1, l1) = Inr (n', l')" by (auto simp: sbind_Inr_iff)
  note one = number_ref_ok [OF l1(1) Cons.prems(2,3)]
  then show ?case using Cons.IH [OF l1(2)] keeps_trans by blast
qed simp

lemma number_ok:
  assumes "number l = Inr l'" "fresh l"
  shows "numbered l' \<and> keeps l l' \<and> set (lk_Text l @ lk_Data l) \<subseteq> set (all_defs l')"
proof -
  obtain ds l1 l2 rs l3 n where t: "traverse {travDefs, travPcdata} l = Inr (ds, l1)" "foldE number_def ds l1 = Inr l2" "traverse {travRefs, travAux} l2 = Inr (rs, l3)"
      "foldE number_ref rs (word_of_nat (length (lk_nonpkgdefs l3)), l3) = Inr (n, l')"
    using assms(1) by (auto simp: number_def sbind_Inr_iff)
  have e1: "extends l l1" and e3: "extends l2 l3" using traverse_extends t(1,3) by blast+
  have "lk_nonpkgrefs l1 = []" using e1 assms(2) by (auto simp: extends_def fresh_def)
  note d = number_defs_ok [OF t(2) numbered_extends [OF fresh_numbered [OF assms(2)] e1] this]
  have n3: "numbered l3" "lk_nonpkgrefs l3 = []" using numbered_extends [OF _ e3] d e3 by (auto simp: extends_def)
  have "word_of_nat (length (lk_nonpkgdefs l3)) = word_of_nat (length (non_pkg l3))" using n3(2) by (simp add: non_pkg_def)
  note r = number_refs_ok [OF t(4) n3(1) this]
  have k: "keeps l l1" "keeps l1 l2" "keeps l2 l3" "keeps l3 l'" using extends_keeps e1 e3 d r by blast+
  have "set (lk_Text l @ lk_Data l) \<subseteq> set ds" using mapL_visits t(1) unfolding traverse_def by blast
  also have "\<dots> \<subseteq> set (all_defs l2)" using d by blast
  also have "\<dots> \<subseteq> set (all_defs l')" using k(3,4) by (auto simp: keeps_def)
  finally have "set (lk_Text l @ lk_Data l) \<subseteq> set (all_defs l')" .
  moreover have "keeps l l'" using k keeps_trans by blast
  ultimately show ?thesis using r by blast
qed

section \<open>funcInfoSyms\<close>

definition with_defs :: "Link \<Rightarrow> sid list \<Rightarrow> Link" where
  "with_defs l D = l\<lparr>lk_defs := D\<rparr>"

lemma with_defs_simps [simp]: "lk_store (with_defs l D) = lk_store l" "lk_defs (with_defs l D) = D" "sym_at (with_defs l D) = sym_at l" "lk_Meta (with_defs l D) = lk_Meta l"
  "lk_Arch (with_defs l D) = lk_Arch l" "lk_Pkgpath (with_defs l D) = lk_Pkgpath l" "lk_RegabiWrappers (with_defs l D) = lk_RegabiWrappers l" "lk_Text (with_defs l D) = lk_Text l"
  "lk_Data (with_defs l D) = lk_Data l" "lk_files (with_defs l D) = lk_files l" "lk_hashed64 (with_defs l D) = lk_hashed64 l" "lk_hashed (with_defs l D) = lk_hashed l"
  "lk_nonpkgdefs (with_defs l D) = lk_nonpkgdefs l" "lk_nonpkgrefs (with_defs l D) = lk_nonpkgrefs l" "pk (with_defs l D) = pk l"
  by (simp_all add: with_defs_def fun_eq_iff sym_at_def pk_def)

lemma set_idx_with_defs: "lk_store (set_idx a p i l) = lk_store (set_idx a p i (with_defs l D))"
  by (simp add: set_idx_def upd_def)

lemma set_idxs_ok:
  assumes "numbered (with_defs l D)" "length D = base + k"
  shows "let l' = fold (\<lambda>(k, a). set_idx a (pk l ''Self'') (word_of_nat (base + k))) (enumerate k ds) l in
    numbered (with_defs l' (D @ ds)) \<and> keeps (with_defs l D) (with_defs l' (D @ ds)) \<and> lk_defs l' = lk_defs l"
  using assms
proof (induction ds arbitrary: l D k)
  case (Cons a ds)
  define l1 where "l1 = set_idx a (pk l ''Self'') (word_of_nat (base + k)) l"
  have pk: "pk l1 = pk l" by (simp add: l1_def pk_def fun_eq_iff)
  have g: "grows (with_defs l D) (with_defs l1 (D @ [a]))" "same_link (with_defs l D) (with_defs l1 (D @ [a]))"
    by (auto simp: grows_def same_link_def non_pkg_def all_defs_def l1_def is_at_append)
  have "pos_ok (with_defs l1 (D @ [a])) a (pk l ''Self'') (word_of_nat (base + k))" using is_at_last [of a D] Cons.prems(2) by (simp add: pos_ok_def pk)
  then have one: "numbered (with_defs l1 (D @ [a])) \<and> keeps (with_defs l D) (with_defs l1 (D @ [a]))"
    using step_ok [OF Cons.prems(1) _ g] set_idx_with_defs [of a _ _ l D] by (simp add: l1_def)
  have "length (D @ [a]) = base + Suc k" using Cons.prems(2) by simp
  note two = Cons.IH [OF conjunct1 [OF one] this, unfolded Let_def pk]
  define l2 where "l2 = fold (\<lambda>(k, a). set_idx a (pk l ''Self'') (word_of_nat (base + k))) (enumerate (Suc k) ds) l1"
  have f: "fold (\<lambda>(k, a). set_idx a (pk l ''Self'') (word_of_nat (base + k))) (enumerate k (a # ds)) l = l2" by (simp add: l2_def l1_def)
  have t: "numbered (with_defs l2 (D @ a # ds))" "keeps (with_defs l1 (D @ [a])) (with_defs l2 (D @ a # ds))" "lk_defs l2 = lk_defs l1" using two by (simp_all add: l2_def)
  show ?case unfolding Let_def f using t keeps_trans [OF conjunct2 [OF one] t(2)] by (simp add: l1_def)
qed simp

lemma numbered_alloc:
  assumes "numbered (with_defs l D)" "alloc y l = (s, l1)" "sy_indexed y" "sy_pkgIdx y = pk l ''Self''" "sy_symIdx y = word_of_nat (length D)"
  shows "numbered (with_defs l1 (D @ [s])) \<and> keeps (with_defs l D) (with_defs l1 (D @ [s]))"
proof -
  have l1: "l1 = l\<lparr>lk_store := lk_store l @ [y]\<rparr>" "s = length (lk_store l)" using assms(2) by (simp_all add: alloc_def)
  have old: "sym_at (with_defs l1 (D @ [s])) t = sym_at (with_defs l D) t" if "t < length (lk_store l)" for t using that by (simp add: l1 sym_at_def nth_append)
  have g: "grows (with_defs l D) (with_defs l1 (D @ [s]))" by (auto simp: grows_def non_pkg_def l1 is_at_append)
  have "idx_ok (with_defs l1 (D @ [s])) t" if t: "t < length (lk_store l1)" "sy_indexed (sym_at l1 t)" for t
  proof (cases "t < length (lk_store l)")
    case True
    have "idx_ok (with_defs l D) t" using assms(1) t(2) old [OF True] True by (simp add: numbered_def)
    from idx_ok_grows [OF this g old [OF True]] show ?thesis by (simp add: l1)
  next
    case False
    then have "t = s" "sym_at l1 s = y" using t(1) by (simp_all add: l1 sym_at_def)
    then show ?thesis using assms(4,5) is_at_last [of s D] by (simp add: idx_ok_def Let_def pk_def l1(1))
  qed
  moreover have "keeps (with_defs l D) (with_defs l1 (D @ [s]))" using old by (auto simp: keeps_def l1(1) all_defs_def)
  ultimately show ?thesis by (simp add: numbered_def)
qed

lemma upd_func_ok:
  assumes "upd_func s (\<lambda>f. f\<lparr>fi_funcInfoSym := v\<rparr>) l = Inr l'" "numbered (with_defs l D)"
  shows "numbered (with_defs l' D) \<and> keeps (with_defs l D) (with_defs l' D) \<and> lk_defs l' = lk_defs l \<and> pk l' = pk l"
proof -
  obtain fi where fi: "sy_Func (sym_at l s) = Some fi" and l': "l' = upd s (\<lambda>y. y\<lparr>sy_Func := Some (fi\<lparr>fi_funcInfoSym := v\<rparr>)\<rparr>) l"
    using assms(1) by (auto simp: upd_func_def split: option.splits)
  have y: "sym_at l' t = (if t = s then (sym_at l s)\<lparr>sy_Func := Some (fi\<lparr>fi_funcInfoSym := v\<rparr>)\<rparr> else sym_at l t)" if "t < length (lk_store l)" for t
    using that by (auto simp: l' upd_def sym_at_def)
  have n: "length (lk_store l') = length (lk_store l)" by (simp add: l' upd_def)
  have fields: "sy_indexed (sym_at l' t) = sy_indexed (sym_at l t)" "sy_pkgIdx (sym_at l' t) = sy_pkgIdx (sym_at l t)" "sy_symIdx (sym_at l' t) = sy_symIdx (sym_at l t)"
    "sy_Name (sym_at l' t) = sy_Name (sym_at l t)" "sy_ABI (sym_at l' t) = sy_ABI (sym_at l t)" "core (sym_at l' t) = core (sym_at l t)" if "t < length (lk_store l)" for t
    using y [OF that] fi by (simp_all add: core_def)
  have bi: "builtinIdx (with_defs l' D) = builtinIdx (with_defs l D)" by (rule builtinIdx_cong) (simp_all add: l' upd_def)
  have same: "pk l' = pk l" "non_pkg (with_defs l' D) = non_pkg (with_defs l D)" "lk_hashed64 l' = lk_hashed64 l" "lk_hashed l' = lk_hashed l"
    by (simp_all add: l' upd_def pk_def fun_eq_iff non_pkg_def)
  have "idx_ok (with_defs l' D) t = idx_ok (with_defs l D) t" if "t < length (lk_store l)" for t
    unfolding idx_ok_def Let_def with_defs_simps fields [OF that] same bi ..
  then have "numbered (with_defs l' D)" using assms(2) n fields by (simp add: numbered_def)
  moreover have "same_link (with_defs l D) (with_defs l' D)" by (simp add: same_link_def all_defs_def l' upd_def)
  then have "keeps (with_defs l D) (with_defs l' D)" using fields(6) n by (simp add: keeps_def same_link_def)
  ultimately show ?thesis using same by (simp add: l' upd_def)
qed

lemma funcInfo_step_ok:
  assumes "funcInfo_step s (out, l) = Inr (out', l')" "numbered (with_defs l (lk_defs l @ out))"
  shows "numbered (with_defs l' (lk_defs l' @ out')) \<and> keeps (with_defs l (lk_defs l @ out)) (with_defs l' (lk_defs l' @ out'))"
proof -
  let ?D = "lk_defs l @ out" let ?self = "pk l ''Self''" let ?base = "length (lk_defs l) + length out"
  obtain f b where f: "sy_Func (sym_at l s) = Some f" "funcInfo_bytes l f = Inr b" using assms(1) by (auto simp: funcInfo_step_def sbind_Inr_iff split: option.splits)
  define y where "y = sym0\<lparr>sy_Kind := ''SDATA'', sy_P := b, sy_Size := int (length b), sy_pkgIdx := ?self, sy_symIdx := word_of_nat (?base + 0), sy_indexed := True\<rparr>"
  obtain i l1 where al: "alloc y l = (i, l1)" by fastforce
  define ds where "ds = dwarf_syms l f"
  obtain l2 where u: "upd_func s (\<lambda>f. f\<lparr>fi_funcInfoSym := Some i\<rparr>) l1 = Inr l2" and out: "out' = out @ i # ds"
    and l': "l' = fold (\<lambda>(k, a). set_idx a ?self (word_of_nat (?base + k))) (enumerate 1 ds) l2"
    using assms(1) f al by (auto simp: funcInfo_step_def Let_def sbind_Inr_iff y_def ds_def)
  have "sy_indexed y" "sy_pkgIdx y = ?self" "sy_symIdx y = word_of_nat (length ?D)" by (simp_all add: y_def)
  note a = numbered_alloc [OF assms(2) al this]
  note b = upd_func_ok [OF u conjunct1 [OF a]]
  have d1: "lk_defs l1 = lk_defs l" "pk l1 = pk l" using al by (auto simp: alloc_def pk_def fun_eq_iff)
  have "length (?D @ [i]) = ?base + 1" by simp
  note c = set_idxs_ok [OF conjunct1 [OF b] this, of ds, unfolded Let_def]
  have pk2: "pk l2 ''Self'' = ?self" using b d1 by simp
  have e: "l' = fold (\<lambda>(k, a). set_idx a (pk l2 ''Self'') (word_of_nat (?base + k))) (enumerate 1 ds) l2" unfolding pk2 by (rule l')
  have c': "numbered (with_defs l' ((?D @ [i]) @ ds))" "keeps (with_defs l2 (?D @ [i])) (with_defs l' ((?D @ [i]) @ ds))" "lk_defs l' = lk_defs l2" using c unfolding e by blast+
  have D: "lk_defs l' @ out' = (?D @ [i]) @ ds" using c'(3) b d1 out by simp
  show ?thesis unfolding D using c' a b keeps_trans by blast
qed

lemma funcInfoSyms_ok:
  assumes "funcInfoSyms l = Inr l'" "numbered l"
  shows "numbered l' \<and> keeps l l'"
proof -
  obtain out l1 where f: "foldE funcInfo_step (lk_Text l) ([], l) = Inr (out, l1)" "l' = with_defs l1 (lk_defs l1 @ out)"
    using assms(1) by (auto simp: funcInfoSyms_def sbind_Inr_iff with_defs_def)
  let ?P = "\<lambda>(out, k). numbered (with_defs k (lk_defs k @ out)) \<and> keeps l (with_defs k (lk_defs k @ out))"
  have w: "with_defs l (lk_defs l @ []) = l" by (simp add: with_defs_def)
  have "?P (out, l1)"
  proof (rule foldE_inv [OF f(1)])
    show "?P ([], l)" using assms(2) by (simp only: prod.case w keeps_refl)
  next
    fix x st st' assume "?P st" "funcInfo_step x st = Inr st'"
    then show "?P st'" using funcInfo_step_ok keeps_trans by (cases st; cases st') fastforce
  qed
  then show ?thesis by (simp add: f(2))
qed

end
