(* ===== verification/Go124.thy ===== *)
theory Go124
  imports Gometa
begin

text \<open>
  An excerpt of \<open>internal/gometa/data/go1.24.json\<close>: the facts of the Go 1.24 release, with every fact that
  \<open>check\<close> asks for; of the tables of relocations, builtins and function identifiers only some rows. The
  examples of the object writer use it. The tables are functions of their own, so that evaluation unfolds
  them only at a key.
\<close>

definition go124_objFlags :: facts where
  "go124_objFlags k = map_of [(''FromAssembly'', 4), (''Shared'', 1), (''Std'', 16), (''Unlinkable'', 8)] k"

definition go124_symFlags :: facts where
  "go124_symFlags k = map_of [(''Dupok'', 1), (''GoType'', 64), (''Leaf'', 8), (''Local'', 2), (''NoSplit'', 16), (''ReflectMethod'', 32),
       (''Typelink'', 4)] k"

definition go124_symFlags2 :: facts where
  "go124_symFlags2 k = map_of [(''ABIWrapper'', 32), (''Dict'', 4), (''Itab'', 2), (''Linkname'', 16), (''PkgInit'', 8), (''UsedInIface'', 1),
       (''WasmExport'', 64)] k"

definition go124_auxTypes :: facts where
  "go124_auxTypes k = map_of [(''DwarfInfo'', 3), (''DwarfLines'', 6), (''DwarfLoc'', 4), (''DwarfRanges'', 5), (''FuncInfo'', 1), (''Funcdata'', 2),
       (''Gotype'', 0), (''Pcdata'', 11), (''Pcfile'', 8), (''Pcinline'', 10), (''Pcline'', 9), (''Pcsp'', 7), (''SehUnwindInfo'', 14), (''Size'',
       9), (''WasmImport'', 12), (''WasmType'', 13)] k"

definition go124_pkgIdx :: facts where
  "go124_pkgIdx k = map_of [(''Builtin'', 2147483644), (''Hashed'', 2147483645), (''Hashed64'', 2147483646), (''None'', 2147483647), (''Self'',
       2147483643)] k"

definition go124_funcFlags :: facts where
  "go124_funcFlags k = map_of [(''Asm'', 4), (''SPWrite'', 2), (''TopFrame'', 1)] k"

definition go124_funcIDs :: facts where
  "go124_funcIDs k = map_of [(''Normal'', 0), (''Wrapper'', 22), (''abort'', 1)] k"

definition go124_runtimeFuncIDs :: facts where
  "go124_runtimeFuncIDs k = map_of [(''abort'', 1), (''main'', 18)] k"

definition go124_kinds :: facts where
  "go124_kinds k = map_of [(''SBSS'', 9), (''SDATA'', 7), (''SDWARFFCN'', 14), (''SDWARFLINES'', 20), (''SDWARFRANGE'', 18), (''SNOPTRBSS'', 10),
       (''SNOPTRDATA'', 5), (''SRODATA'', 3), (''STEXT'', 1), (''Sxxx'', 0)] k"

definition go124_relocs :: facts where
  "go124_relocs k = map_of [(''R_ADDR'', 1), (''R_ADDRARM64'', 3), (''R_ARM64_GOTPCREL'', 35), (''R_ARM64_LDST128'', 46), (''R_ARM64_LDST16'', 43),
       (''R_ARM64_LDST32'', 44), (''R_ARM64_LDST64'', 45), (''R_ARM64_LDST8'', 42), (''R_ARM64_PCREL'', 37), (''R_CALL'', 7), (''R_CALLARM64'', 9),
       (''R_PCREL'', 14)] k"

definition go124_funcdata :: facts where
  "go124_funcdata k = map_of [(''ArgInfo'', 5), (''ArgLiveInfo'', 6), (''ArgsPointerMaps'', 0), (''InlTree'', 3),
       (''LocalsPointerMaps'', 1), (''OpenCodedDeferInfo'', 4), (''StackObjects'', 2), (''WrapInfo'', 7)] k"

definition go124_pcdata :: facts where
  "go124_pcdata k = map_of [(''ArgLiveIndex'', 3), (''InlTreeIndex'', 2), (''StackMapIndex'', 1), (''UnsafePoint'', 0)] k"

definition go124_gOffsets :: facts where
  "go124_gOffsets k = map_of [(''stack_hi'', 8), (''stack_lo'', 0), (''stackguard0'', 16)] k"

definition go124_arch :: "string \<rightharpoonup> ArchFacts" where
  "go124_arch k = map_of [(''amd64'', \<lparr>ar_PtrSize = 8, ar_MinLC = 1, ar_GReg = ''R14'', ar_IntArgs = [''AX'', ''BX'', ''CX'', ''DI'', ''SI'',
       ''R8'', ''R9'', ''R10'', ''R11''],
       ar_FloatArgs = [''X0'', ''X1'', ''X2'', ''X3'', ''X4'', ''X5'', ''X6'', ''X7'', ''X8'', ''X9'', ''X10'', ''X11'', ''X12'', ''X13'', ''X14''],
       ar_Morestack = ''runtime.morestack_noctxt'', ar_StackCopyAdjustsFP = True\<rparr>), (''arm64'', \<lparr>ar_PtrSize = 8, ar_MinLC = 4,
       ar_GReg = ''R28'', ar_IntArgs = [''R0'', ''R1'', ''R2'', ''R3'', ''R4'', ''R5'', ''R6'', ''R7'', ''R8'', ''R9'', ''R10'', ''R11'', ''R12'',
       ''R13'', ''R14'', ''R15''],
       ar_FloatArgs = [''F0'', ''F1'', ''F2'', ''F3'', ''F4'', ''F5'', ''F6'', ''F7'', ''F8'', ''F9'', ''F10'', ''F11'', ''F12'', ''F13'', ''F14'',
       ''F15''],
       ar_Morestack = ''runtime.morestack_noctxt'', ar_StackCopyAdjustsFP = True\<rparr>)] k"

definition go124_object :: ObjectFacts where
  "go124_object = \<lparr>ob_Magic = (CHR 0x00 # ''go120ld''), ob_Blocks = [''Autolib'', ''PkgIdx'', ''File'', ''Symdef'', ''Hashed64def'',
       ''Hasheddef'', ''Nonpkgdef'', ''Nonpkgref'', ''RefFlags'', ''Hash64'', ''Hash'', ''RelocIdx'', ''AuxIdx'', ''DataIdx'', ''Reloc'', ''Aux'',
       ''Data'', ''RefName'', ''End''],
     ob_ObjFlags = go124_objFlags,
     ob_SymFlags = go124_symFlags,
     ob_SymFlags2 = go124_symFlags2,
     ob_AuxTypes = go124_auxTypes,
     ob_PkgIdx = go124_pkgIdx,
     ob_SymABIStatic = - 1, ob_HashSize = 16, ob_Hash64Size = 8,
     ob_Builtins = [\<lparr>bi_Name = ''runtime.newobject'', bi_ABI = 1\<rparr>, \<lparr>bi_Name = ''runtime.mallocgc'', bi_ABI = 1\<rparr>,
       \<lparr>bi_Name = ''runtime.panicdivide'', bi_ABI = 1\<rparr>]\<rparr>"

definition go124_writer :: WriterFacts where
  "go124_writer = \<lparr>wf_ContentHash = ''sha256-prefix01'', wf_AsmNamedSymsLinkname = True, wf_Align = ''heuristic'', wf_TrimInlineHash = False,
     wf_AsmArgsStackmap = True, wf_TypePrefix = ''type:'', wf_ItabPrefix = ''go:itab.'', wf_SortRelocs = True, wf_FuncInfoStartLine = True,
       wf_InlFileSymRefs = False,
     wf_FuncFlags = go124_funcFlags,
     wf_FuncIDs = go124_funcIDs,
     wf_RuntimeFuncIDs = go124_runtimeFuncIDs\<rparr>"

definition go124 :: Meta where
  "go124 = \<lparr>me_Schema = 1, me_Go = ''go1.24'', me_Object = go124_object, me_Writer = go124_writer,
     me_Kinds = go124_kinds,
     me_Relocs = go124_relocs,
     me_ABI = \<lparr>af_Funcdata = go124_funcdata,
       af_Pcdata = go124_pcdata, af_StackSmall = 128,
       af_StackBig = 4096,
       af_GOffsets = go124_gOffsets\<rparr>,
     me_Arch = go124_arch,
     me_DWARF = \<lparr>dw_AbbrevFunction = 3, dw_FuncDIE = ''v1'', dw_Lines = ''v1'', dw_TextAddrx = []\<rparr>\<rparr>"

lemma go124_checks: "check go124 = Inr ()"
  by code_simp

end
