(* ===== verification/Goobj_Object.thy ===== *)
theory Goobj_Object
  imports Goobj_Number Go124
begin

text \<open>
  The round trip of a Go object file: what \<open>Link.Write\<close> writes, \<open>goobj.Reader\<close> reads back, with the
  references of the relocations resolved the way \<open>diffLoad\<close> resolves them.
\<close>

section \<open>References\<close>

text \<open>The special package indices of a release differ.\<close>

definition pkgs_ok :: "Meta \<Rightarrow> bool" where
  "pkgs_ok m \<longleftrightarrow> distinct (map (\<lambda>k. word_of_int (geti (ob_PkgIdx (me_Object m)) k) :: u32) [''None'', ''Self'', ''Hashed64'', ''Hashed'', ''Builtin''])"

lemma builtin_named:
  assumes "builtinIdx l name abi = int k"
  shows "k < length (ob_Builtins (me_Object (lk_Meta l))) \<and> bi_Name (ob_Builtins (me_Object (lk_Meta l)) ! k) = name"
proof -
  let ?bs = "ob_Builtins (me_Object (lk_Meta l))"
  have f: "foldl (\<lambda>idx (i, b). if bi_Name b = name then int i else idx) d (enumerate n bs) = d \<or>
      (\<exists>j<length bs. foldl (\<lambda>idx (i, b). if bi_Name b = name then int i else idx) d (enumerate n bs) = int (n + j) \<and> bi_Name (bs ! j) = name)" for d n bs
  proof (induction bs arbitrary: d n)
    case (Cons b bs)
    show ?case
      using Cons [of "if bi_Name b = name then int n else d" "Suc n"] by (cases "bi_Name b = name") (fastforce simp: nth_Cons')+
  qed simp
  have "foldl (\<lambda>idx (i, b). if bi_Name b = name then int i else idx) (- 1) (enumerate 0 ?bs) = int k" using assms by (auto simp: builtinIdx_def Let_def split: if_splits)
  then show ?thesis using f [of "- 1" 0 ?bs] by auto
qed

lemma ref_resolves:
  assumes "reads_link r l" "numbered l" "pkgs_ok (lk_Meta l)" "t < length (lk_store l)" "sy_indexed (sym_at l t)"
  shows "(\<exists>j. ref_sym r (ref_of l (Some t)) = Some j \<and> Sym_of r j = Some (rsym_of l t)) \<or>
    (\<exists>k. fst (ref_of l (Some t)) = pk l ''Builtin'' \<and> snd (ref_of l (Some t)) = word_of_nat k \<and> fst (BuiltinName r (int k)) = sy_Name (sym_at l t))"
proof -
  let ?p = "sy_pkgIdx (sym_at l t)" let ?i = "sy_symIdx (sym_at l t)"
  let ?n = "length (lk_defs l)" and ?h64 = "length (lk_hashed64 l)" and ?h = "length (lk_hashed l)" and ?nd = "length (lk_nonpkgdefs l)" and ?nr = "length (lk_nonpkgrefs l)"
  have r: "NSym r = int ?n" "NHashed64def r = int ?h64" "NHasheddef r = int ?h" "NNonpkgdef r = int ?nd" "NNonpkgref r = int ?nr" "rd_Meta r = lk_Meta l"
    "length (all_syms l) < 2 ^ 32" and S: "\<And>i. i < length (all_syms l) \<Longrightarrow> Sym_of r (word_of_nat i) = Some (rsym_of l (all_syms l ! i))"
    using assms(1) by (auto simp: reads_link_def)
  have nd: "NDef r = int (?n + ?h64 + ?h + ?nd)" using r by (simp add: NDef_def NSym_def NHashed64def_def NHasheddef_def NNonpkgdef_def)
  have tot: "length (all_syms l) = ?n + ?h64 + ?h + ?nd + ?nr" by (simp add: all_syms_def all_defs_def)
  have pk: "r_pk r = pk l" using r(6) by (simp add: r_pk_def pk_def fun_eq_iff)
  have ds: "distinct (map (pk l) [''None'', ''Self'', ''Hashed64'', ''Hashed'', ''Builtin''])" using assms(3) by (simp add: pkgs_ok_def pk_def)
  have found: "\<exists>j. ref_sym r (ref_of l (Some t)) = Some j \<and> Sym_of r j = Some (rsym_of l t)"
    if "ref_sym r (?p, ?i) = Some (word_of_nat k)" "k < length (all_syms l)" "all_syms l ! k = t" for k
    using that S [of k] by (auto simp: ref_of_def)
  have lt: "word_of_nat a < (word_of_nat b :: u32)" if "a < b" "b \<le> length (all_syms l)" for a b
    using that r(7) by (simp only: word_less_nat_alt unat_u32)
  from assms(2,4,5) have "idx_ok l t" by (simp add: numbered_def)
  then consider (n) k where "?p = pk l ''None''" "k < length (non_pkg l)" "non_pkg l ! k = t" "?i = word_of_nat k"
    | (h64) k where "?p = pk l ''Hashed64''" "k < ?h64" "lk_hashed64 l ! k = t" "?i = word_of_nat k"
    | (h) k where "?p = pk l ''Hashed''" "k < ?h" "lk_hashed l ! k = t" "?i = word_of_nat k"
    | (s) k where "?p = pk l ''Self''" "k < ?n" "lk_defs l ! k = t" "?i = word_of_nat k"
    | (b) k where "?p = pk l ''Builtin''" "builtinIdx l (sy_Name (sym_at l t)) (sy_ABI (sym_at l t)) = int k" "?i = word_of_nat k"
    by (auto simp: idx_ok_def Let_def is_at_def)
  then show ?thesis
  proof cases
    case n
    let ?k = "?n + ?h64 + ?h + k"
    have k: "?k < length (all_syms l)" using n(2) tot by (simp add: non_pkg_def)
    have "all_syms l = (lk_defs l @ lk_hashed64 l @ lk_hashed l) @ non_pkg l" by (simp add: all_syms_def all_defs_def non_pkg_def)
    then have "all_syms l ! ?k = t" using n(3) by (simp add: nth_append)
    moreover have w: "word_of_int (NSym r + NHashed64def r + NHasheddef r) + ?i = word_of_nat ?k" "word_of_int (NDef r) + word_of_int (NNonpkgref r) = (word_of_nat (length (all_syms l)) :: u32)"
      unfolding r nd n(4) tot by simp_all
    have "ref_sym r (?p, ?i) = Some (word_of_nat ?k)" unfolding ref_sym_def Let_def prod.case w pk n(1) using lt [OF k le_refl] by simp
    ultimately show ?thesis using found k by blast
  next
    case h64
    let ?k = "?n + k"
    have k: "?k < length (all_syms l)" "all_syms l ! ?k = t" using h64(2,3) tot by (simp_all add: all_syms_def all_defs_def nth_append)
    have "ref_sym r (?p, ?i) = Some (word_of_nat ?k)" unfolding ref_sym_def Let_def prod.case pk h64(1,4) using ds r by auto
    then show ?thesis using found k by blast
  next
    case h
    let ?k = "?n + ?h64 + k"
    have k: "?k < length (all_syms l)" "all_syms l ! ?k = t" using h(2,3) tot by (simp_all add: all_syms_def all_defs_def nth_append)
    have "ref_sym r (?p, ?i) = Some (word_of_nat ?k)" unfolding ref_sym_def Let_def prod.case pk h(1,4) using ds r by auto
    then show ?thesis using found k by blast
  next
    case s
    have k: "k < length (all_syms l)" "all_syms l ! k = t" using s(2,3) tot by (simp_all add: all_syms_def all_defs_def nth_append)
    have "word_of_nat k < (word_of_int (NDef r) :: u32)" unfolding nd using lt [of k "?n + ?h64 + ?h + ?nd"] s(2) tot by simp
    then have "ref_sym r (?p, ?i) = Some (word_of_nat k)" unfolding ref_sym_def Let_def prod.case pk s(1,4) using ds by auto
    then show ?thesis using found k by blast
  next
    case b
    then show ?thesis using builtin_named [OF b(2)] r(6) by (auto simp: ref_of_def BuiltinName_def Let_def)
  qed
qed

section \<open>Write, then read\<close>

lemma keeps_syms:
  assumes "keeps l l'" "s < length (lk_store l)"
  shows "rsym_of l' s = rsym_of l s" "sorted_relocs l' s = sorted_relocs l s" "sy_P (sym_at l' s) = sy_P (sym_at l s)" "sy_Name (sym_at l' s) = sy_Name (sym_at l s)"
proof -
  have c: "core (sym_at l' s) = core (sym_at l s)" and m: "lk_Meta l' = lk_Meta l" "lk_Arch l' = lk_Arch l" "lk_Pkgpath l' = lk_Pkgpath l" using assms by (auto simp: keeps_def)
  note f = core_fields [OF c]
  show "sorted_relocs l' s = sorted_relocs l s" "sy_P (sym_at l' s) = sy_P (sym_at l s)" "sy_Name (sym_at l' s) = sy_Name (sym_at l s)" using f m by (simp_all add: sorted_relocs_def)
  have "sym_flag l' (sym_at l' s) = sym_flag l (sym_at l s)" "sym_flag2 l' (sym_at l' s) = sym_flag2 l (sym_at l s)" "sym_name l' s = sym_name l s" "sym_kind l' s = sym_kind l s"
    using f m by (simp_all add: sym_flag_def sym_flag2_def sym_name_def sym_kind_def)
  moreover have "align_of l' s = align_of l s" using f m calculation(3) by (simp add: align_of_def sym_align_def)
  ultimately show "rsym_of l' s = rsym_of l s" using f m by (simp add: rsym_of_def Let_def)
qed

text \<open>A relocation is read back when its fields are, and its reference leads to the record of its target
  or, for a builtin, to the builtin of that name.\<close>

definition reloc_reads :: "Link \<Rightarrow> Reader \<Rightarrow> Reloc \<Rightarrow> RReloc \<Rightarrow> bool" where
  "reloc_reads l r x y \<longleftrightarrow> rr_Off y = rl_Off x \<and> rr_Siz y = rl_Siz x \<and> rr_Add y = rl_Add x \<and> (\<exists>n. me_Relocs (lk_Meta l) (rl_Type x) = Some n \<and> rr_Type y = word_of_int n) \<and>
     (case rl_Sym x of None \<Rightarrow> rr_Sym y = (0, 0) | Some t \<Rightarrow>
        (\<exists>j. ref_sym r (rr_Sym y) = Some j \<and> Sym_of r j = Some (rsym_of l t)) \<or>
        (\<exists>k. rr_Sym y = (pk l ''Builtin'', word_of_nat k) \<and> fst (BuiltinName r (int k)) = sy_Name (sym_at l t)))"

lemma object_read_bytes:
  assumes "object_read r l strs bl" "x \<in> set (all_relocs l)"
  shows "\<exists>b. reloc_bytes l x = Inr b"
  using blocks_list [of strs l bl] assms unfolding object_read_def by metis

lemma reloc_reads_ok:
  assumes "reads_link r l'" "numbered l'" "pkgs_ok (lk_Meta l)" "keeps l l'" "reloc_bytes l' x = Inr b" "\<forall>t. rl_Sym x = Some t \<longrightarrow> t < length (lk_store l)"
  shows "reloc_reads l r x (rreloc_of l' x)"
proof -
  have m: "lk_Meta l' = lk_Meta l" "length (lk_store l) \<le> length (lk_store l')" using assms(4) by (simp_all add: keeps_def)
  then have pk: "pk l' = pk l" by (simp add: pk_def fun_eq_iff)
  obtain n where n: "me_Relocs (lk_Meta l) (rl_Type x) = Some n" "\<exists>v. ref_bytes l' (rl_Sym x) = Inr v" using assms(5) m by (auto simp: reloc_bytes_def sbind_Inr_iff split: option.splits)
  have "case rl_Sym x of None \<Rightarrow> ref_of l' (rl_Sym x) = (0, 0) | Some t \<Rightarrow>
        (\<exists>j. ref_sym r (ref_of l' (rl_Sym x)) = Some j \<and> Sym_of r j = Some (rsym_of l t)) \<or>
        (\<exists>k. ref_of l' (rl_Sym x) = (pk l ''Builtin'', word_of_nat k) \<and> fst (BuiltinName r (int k)) = sy_Name (sym_at l t))"
  proof (cases "rl_Sym x")
    case (Some t)
    have t: "t < length (lk_store l)" "sy_indexed (sym_at l' t)" using assms(6) Some n(2) by (auto simp: ref_bytes_def symRef_def sbind_Inr_iff split: if_splits)
    from ref_resolves [OF assms(1,2) _ _ t(2)] have "(\<exists>j. ref_sym r (ref_of l' (Some t)) = Some j \<and> Sym_of r j = Some (rsym_of l' t)) \<or>
      (\<exists>k. fst (ref_of l' (Some t)) = pk l' ''Builtin'' \<and> snd (ref_of l' (Some t)) = word_of_nat k \<and> fst (BuiltinName r (int k)) = sy_Name (sym_at l' t))" using assms(3) m t by simp
    then show ?thesis unfolding Some option.case pk keeps_syms [OF assms(4) t(1)] by (metis prod.collapse)
  qed (simp add: ref_of_def)
  then show ?thesis using n(1) m by (cases "rl_Sym x") (simp_all add: reloc_reads_def rreloc_of_def geti_def)
qed

lemma write_reads:
  assumes "Write l header = Inr file" "fresh l" "blocks_ok (lk_Meta l)" "pkgs_ok (lk_Meta l)" "header_ok (lk_Meta l) header" "length file < 2 ^ 32"
    "s \<in> set (lk_Text l @ lk_Data l)" "s < length (lk_store l)" "\<forall>x\<in>set (sy_R (sym_at l s)). \<forall>t. rl_Sym x = Some t \<longrightarrow> t < length (lk_store l)"
  shows "\<exists>r i rs. NewReader fv file (Some (lk_Meta l)) = Inr r \<and> Sym_of r i = Some (rsym_of l s) \<and> Data_of r i = Some (sy_P (sym_at l s)) \<and>
    Relocs r i = Some rs \<and> list_all2 (reloc_reads l r) (sorted_relocs l s) rs \<and> Files r = Some (lk_files l)"
proof -
  obtain l1 l2 b where w: "number l = Inr l1" "funcInfoSyms l1 = Inr l2" "write_object l2 = Inr b" "file = bytes_of (header @ ''!'') @ [10] @ b"
    using assms(1) by (auto simp: Write_def sbind_Inr_iff split: if_splits)
  obtain ss l3 where t: "traverse travAll l2 = Inr (ss, l3)" using w(3) by (auto simp: write_object_def Let_def sbind_Inr_iff split: if_splits)
  note n1 = number_ok [OF w(1) assms(2)]
  note n2 = funcInfoSyms_ok [OF w(2) conjunct1 [OF n1]]
  have e: "extends l2 l3" using t by (rule traverse_extends)
  have n3: "numbered l3" using numbered_extends n2 e by blast
  have k23: "keeps l2 l3" using extends_keeps e by blast
  have k: "keeps l l2" "keeps l l3" using n1 n2 k23 keeps_trans by blast+
  have m: "lk_Meta l2 = lk_Meta l" "lk_Meta l3 = lk_Meta l" "lk_files l3 = lk_files l" using k by (simp_all add: keeps_def)
  have lb: "length b < 2 ^ 32" using assms(6) w(4) by simp
  obtain r strs bl where r: "NewReader fv file (Some (lk_Meta l)) = Inr r" "object_read r l3 strs bl"
    by (rule object_reads [OF t w(3) _ _ lb, of header fv]) (use m assms(3,5) w(4) in auto)
  note rl = object_reads_link [OF r(2)]
  have "s \<in> set (all_defs l3)" using assms(7) n1 n2 k23 by (auto simp: keeps_def)
  then obtain i where i: "i < length (all_defs l3)" "all_defs l3 ! i = s" by (metis in_set_conv_nth)
  have y: "Sym_of r (word_of_nat i) = Some (rsym_of l s)" "Data_of r (word_of_nat i) = Some (sy_P (sym_at l s))" "Relocs r (word_of_nat i) = Some (map (rreloc_of l3) (sorted_relocs l s))"
    using rl i keeps_syms [OF k(2) assms(8)] by (auto simp: reads_link_def all_syms_def nth_append Let_def)
  have "reloc_reads l r x (rreloc_of l3 x)" if x: "x \<in> set (sorted_relocs l s)" for x
  proof -
    have "s \<in> set (all_defs l3)" using i by auto
    then have "x \<in> set (all_relocs l3)" using x keeps_syms(2) [OF k(2) assms(8)] by (auto simp: all_relocs_def intro!: bexI [of _ s])
    then obtain bs where bs: "reloc_bytes l3 x = Inr bs" using object_read_bytes [OF r(2)] by blast
    have "x \<in> set (sy_R (sym_at l s))" using x by (simp add: sorted_relocs_def split: if_splits)
    then show ?thesis using assms(9) by (intro reloc_reads_ok [OF rl n3 assms(4) k(2) bs]) blast
  qed
  then have "list_all2 (reloc_reads l r) (sorted_relocs l s) (map (rreloc_of l3) (sorted_relocs l s))" by (simp add: list_all2_conv_all_nth)
  moreover have "Files r = Some (lk_files l)" using rl m by (simp add: reads_link_def)
  ultimately show ?thesis using r(1) y by blast
qed

text \<open>C3: An object file that \<open>Write\<close> produced is read back: for every function and data symbol of the
  package the reader finds, at some index, the record with its name, ABI, kind, flags, size and
  alignment, its bytes and its relocations, in the order of their offsets where the release sorts
  them; the reference of every relocation resolves to the record of the symbol it was made for, or to
  the builtin of that name. The file table is read back too. The file must be shorter than 4 GiB.\<close>
theorem Write_Reader:
  assumes "Write l header = Inr file" "fresh l" "blocks_ok (lk_Meta l)" "pkgs_ok (lk_Meta l)" "header_ok (lk_Meta l) header" "length file < 2 ^ 32"
    "s \<in> set (lk_Text l @ lk_Data l)" "s < length (lk_store l)" "\<forall>x\<in>set (sy_R (sym_at l s)). \<forall>t. rl_Sym x = Some t \<longrightarrow> t < length (lk_store l)"
  shows "\<exists>r i rs. NewReader fv file (Some (lk_Meta l)) = Inr r \<and> Sym_of r i = Some (rsym_of l s) \<and> Data_of r i = Some (sy_P (sym_at l s)) \<and>
    Relocs r i = Some rs \<and> list_all2 (reloc_reads l r) (sorted_relocs l s) rs \<and> Files r = Some (lk_files l)"
  using assms by (rule write_reads)

section \<open>An example\<close>

text \<open>The words are split by shifts when they are evaluated.\<close>

lemma le_n_step: "8 < LENGTH('a) \<Longrightarrow> le_n (Suc n) (unat (v :: 'a::len word)) = ucast v # le_n n (unat (drop_bit 8 v))"
  by (simp add: unat_drop_bit_eq flip: drop_bit_eq_div [of 8, simplified])

lemma le_n_step32: "le_n (Suc n) (unat (v :: u32)) = ucast v # le_n n (unat (drop_bit 8 v))"
  by (rule le_n_step) simp

lemma le_n_step64: "le_n (Suc n) (unat (v :: u64)) = ucast v # le_n n (unat (drop_bit 8 v))"
  by (rule le_n_step) simp

lemma le32_code [code]: "le32 v = map (\<lambda>k. ucast (drop_bit k v)) [0, 8, 16, 24]"
proof -
  have "le32 v = le_n (Suc (Suc (Suc (Suc 0)))) (unat v)" unfolding le32_def by (simp only: eval_nat_numeral BitM.simps)
  then show ?thesis by (simp only: le_n_step32 le_n.simps(1) drop_bit_drop_bit list.map) simp
qed

lemma le64_code [code]: "le64 v = map (\<lambda>k. ucast (drop_bit k v)) [0, 8, 16, 24, 32, 40, 48, 56]"
proof -
  have "le64 v = le_n (Suc (Suc (Suc (Suc (Suc (Suc (Suc (Suc 0)))))))) (unat v)" unfolding le64_def by (simp only: eval_nat_numeral BitM.simps)
  then show ?thesis by (simp only: le_n_step64 le_n.simps(1) drop_bit_drop_bit list.map) simp
qed

text \<open>A package with a table that points at itself and at a builtin.\<close>

definition ex_link :: "link_err + Link" where
  "ex_link = sbind (NewLink go124 ''amd64'' ''main'') (\<lambda>l0.
     let (f, l1) = LookupABI ''runtime.mallocgc'' ABIInternal l0; (t, l2) = Lookup ''main.tab'' l1; (_, l3) = AddFile ''f.c'' l2 in
     sbind (Globl t 16 RODATA l3) (\<lambda>l4.
     Flush (upd t (\<lambda>y. AddRel \<lparr>rl_Off = 8, rl_Siz = 8, rl_Type = ''R_ADDR'', rl_Add = 2, rl_Sym = Some f\<rparr> (AddRel \<lparr>rl_Off = 0, rl_Siz = 8, rl_Type = ''R_ADDR'', rl_Add = 3, rl_Sym = Some t\<rparr> (WriteBytes 0 [1, 2, 3] y))) l4)))"

definition ex_hdr :: string where
  "ex_hdr = ''go object linux amd64 go1.24 X:''"
definition ex_side :: "Link \<Rightarrow> bool" where
  "ex_side l \<longleftrightarrow> fresh l \<and> lk_Meta l = go124 \<and> 1 \<in> set (lk_Text l @ lk_Data l) \<and> 1 < length (lk_store l) \<and>
     (\<forall>x\<in>set (sy_R (sym_at l 1)). \<forall>t. rl_Sym x = Some t \<longrightarrow> t < length (lk_store l))"

lemma ex_link_side: "case ex_link of Inl _ \<Rightarrow> False | Inr l \<Rightarrow> ex_side l"
  by (simp add: ex_link_def NewLink_def go124_def go124_arch_def ex_side_def fresh_def LookupABI_def Lookup_def AddFile_def alloc_def Let_def Globl_def Flush_def upd_def sym_at_def
    globl_sym_def WriteBytes_def prepwrite_def AddRel_def sym0_def)

lemma ex_meta: "blocks_ok go124" "pkgs_ok go124" "header_ok go124 ex_hdr"
  by code_simp+

lemma ex_file: "case ex_link of Inl _ \<Rightarrow> False | Inr l \<Rightarrow> (case Write l ex_hdr of Inl _ \<Rightarrow> False | Inr b \<Rightarrow> length b < 3000)"
  by code_simp

theorem Write_Reader_witness:
  "case ex_link of Inl _ \<Rightarrow> False | Inr l \<Rightarrow> \<exists>file r i rs. Write l ex_hdr = Inr file \<and> NewReader (\<lambda>v. Inl (BadVersion v)) file (Some go124) = Inr r \<and>
    Sym_of r i = Some (rsym_of l 1) \<and> Data_of r i = Some (sy_P (sym_at l 1)) \<and>
    Relocs r i = Some rs \<and> list_all2 (reloc_reads l r) (sorted_relocs l 1) rs \<and> Files r = Some (lk_files l)"
proof (cases ex_link)
  case (Inr l)
  obtain b where b: "Write l ex_hdr = Inr b" "length b < 3000" using ex_file unfolding Inr by (auto split: sum.splits)
  have e: "ex_side l" using ex_link_side unfolding Inr by simp
  show ?thesis using Write_Reader [of l ex_hdr b 1 "\<lambda>v. Inl (BadVersion v)"] b e ex_meta unfolding Inr sum.case ex_side_def by auto
next
  case (Inl e)
  show ?thesis using ex_file unfolding Inl by simp
qed

end
