(* ===== verification/Goobj_Inv.thy ===== *)
theory Goobj_Inv
  imports Goobj_Object
begin

text \<open>
  The invariant of a link under construction: no reference dangles, the symbol tables find symbols by
  the name and ABI they were made for, what is on a list is marked so, and nothing is numbered yet.
  Every operation of \<open>link.go\<close> keeps it, and leaves the contents of the other listed symbols alone.
\<close>

section \<open>The invariant\<close>

definition func_refs :: "FuncInfo \<Rightarrow> sid list" where
  "func_refs f = opts ([fi_Pcsp f, fi_Pcfile f, fi_Pcline f, fi_Pcinline f, fi_dwarfInfo f, fi_dwarfLines f, fi_dwarfRanges f, fi_funcInfoSym f] @
     fi_Pcdata f @ fi_Funcdata f @ map InlNode.in_Func (fi_InlTree f) @ map snd (fi_funcdata f))"

definition sym_refs :: "Sym \<Rightarrow> sid list" where
  "sym_refs y = opts (map rl_Sym (sy_R y)) @ (case sy_Func y of None \<Rightarrow> [] | Some f \<Rightarrow> func_refs f)"

definition sym_wf :: "nat \<Rightarrow> Sym \<Rightarrow> bool" where
  "sym_wf n y \<longleftrightarrow> \<not> sy_indexed y \<and> (\<forall>s\<in>set (sym_refs y). s < n)"

definition tables_ok :: "Link \<Rightarrow> bool" where
  "tables_ok l \<longleftrightarrow> (\<forall>n s. lk_hash l n = Some s \<longrightarrow> s < length (lk_store l) \<and> sy_Name (sym_at l s) = n \<and> sy_ABI (sym_at l s) \<noteq> ABIInternal) \<and>
     (\<forall>n s. lk_funchash l n = Some s \<longrightarrow> s < length (lk_store l) \<and> sy_Name (sym_at l s) = n \<and> sy_ABI (sym_at l s) = ABIInternal)"

definition lists_ok :: "Link \<Rightarrow> bool" where
  "lists_ok l \<longleftrightarrow> (\<forall>s\<in>set (lk_Text l @ lk_Data l). s < length (lk_store l) \<and> sy_onList (sym_at l s)) \<and> distinct (lk_Text l @ lk_Data l)"

definition unnumbered :: "Link \<Rightarrow> bool" where
  "unnumbered l \<longleftrightarrow> lk_defs l = [] \<and> lk_hashed64 l = [] \<and> lk_hashed l = [] \<and> lk_nonpkgdefs l = [] \<and> lk_nonpkgrefs l = []"

definition link_wf :: "Link \<Rightarrow> bool" where
  "link_wf l \<longleftrightarrow> (\<forall>s<length (lk_store l). sym_wf (length (lk_store l)) (sym_at l s)) \<and> tables_ok l \<and> lists_ok l \<and> unnumbered l"

text \<open>Two versions of a symbol: the identity never changes, the contents of a listed symbol do only when
  an operation is meant for it.\<close>

definition same_id :: "Sym \<Rightarrow> Sym \<Rightarrow> bool" where
  "same_id y y' \<longleftrightarrow> sy_Name y' = sy_Name y \<and> sy_ABI y' = sy_ABI y \<and> sy_Static y' = sy_Static y \<and> sy_Local y' = sy_Local y \<and>
     sy_ContentAddressable y' = sy_ContentAddressable y \<and> (sy_onList y \<longrightarrow> sy_onList y')"

definition same_data :: "Sym \<Rightarrow> Sym \<Rightarrow> bool" where
  "same_data y y' \<longleftrightarrow> sy_P y' = sy_P y \<and> sy_R y' = sy_R y \<and> sy_Kind y' = sy_Kind y \<and> sy_Size y' = sy_Size y \<and> sy_NoSplit y' = sy_NoSplit y \<and>
     sy_Dupok y' = sy_Dupok y \<and> sy_Align y' = sy_Align y"

definition frame :: "sid set \<Rightarrow> Link \<Rightarrow> Link \<Rightarrow> bool" where
  "frame S l l' \<longleftrightarrow> length (lk_store l) \<le> length (lk_store l') \<and>
     (\<forall>s<length (lk_store l). same_id (sym_at l s) (sym_at l' s) \<and> (sy_onList (sym_at l s) \<and> s \<notin> S \<longrightarrow> same_data (sym_at l s) (sym_at l' s))) \<and>
     lk_Meta l' = lk_Meta l \<and> lk_Arch l' = lk_Arch l \<and> lk_Pkgpath l' = lk_Pkgpath l \<and> lk_files l' = lk_files l \<and>
     set (lk_Text l) \<subseteq> set (lk_Text l') \<and> set (lk_Data l) \<subseteq> set (lk_Data l')"

lemma same_refl [simp]: "same_id y y" "same_data y y"
  by (simp_all add: same_id_def same_data_def)

lemma frame_refl [simp]: "frame S l l"
  by (simp add: frame_def)

lemma same_trans: "same_id y y' \<Longrightarrow> same_id y' y'' \<Longrightarrow> same_id y y''" "same_data y y' \<Longrightarrow> same_data y' y'' \<Longrightarrow> same_data y y''"
  by (simp_all add: same_id_def same_data_def)

lemma frame_trans:
  assumes "frame S l l'" "frame T l' l''" "S \<subseteq> U" "T \<subseteq> U"
  shows "frame U l l''"
proof -
  have "same_id (sym_at l s) (sym_at l'' s) \<and> (sy_onList (sym_at l s) \<and> s \<notin> U \<longrightarrow> same_data (sym_at l s) (sym_at l'' s))" if s: "s < length (lk_store l)" for s
  proof -
    have 1: "same_id (sym_at l s) (sym_at l' s)" "sy_onList (sym_at l s) \<Longrightarrow> s \<notin> U \<Longrightarrow> same_data (sym_at l s) (sym_at l' s)" using assms(1,3) s by (auto simp: frame_def)
    have s': "s < length (lk_store l')" using assms(1) s by (simp add: frame_def)
    have 2: "same_id (sym_at l' s) (sym_at l'' s)" "sy_onList (sym_at l' s) \<Longrightarrow> s \<notin> U \<Longrightarrow> same_data (sym_at l' s) (sym_at l'' s)" using assms(2,4) s' by (auto simp: frame_def)
    have "sy_onList (sym_at l s) \<Longrightarrow> sy_onList (sym_at l' s)" using 1(1) by (simp add: same_id_def)
    then show ?thesis using 1 2 same_trans by blast
  qed
  moreover have "length (lk_store l) \<le> length (lk_store l'')" using assms(1,2) by (simp add: frame_def)
  moreover have "lk_Meta l'' = lk_Meta l \<and> lk_Arch l'' = lk_Arch l \<and> lk_Pkgpath l'' = lk_Pkgpath l \<and> lk_files l'' = lk_files l \<and> set (lk_Text l) \<subseteq> set (lk_Text l'') \<and> set (lk_Data l) \<subseteq> set (lk_Data l'')"
    using assms(1,2) unfolding frame_def by (metis subset_trans)
  ultimately show ?thesis by (simp add: frame_def)
qed

lemma frame_trans1: "frame S l l' \<Longrightarrow> frame S l' l'' \<Longrightarrow> frame S l l''"
  by (rule frame_trans) auto

lemma frame_trans3: "frame S a b \<Longrightarrow> frame S b c \<Longrightarrow> frame S c d \<Longrightarrow> frame S d e \<Longrightarrow> frame S a e"
  using frame_trans1 by blast

lemma frame_mono: "frame S l l' \<Longrightarrow> S \<subseteq> T \<Longrightarrow> frame T l l'"
  by (auto simp: frame_def)

lemma link_wf_fresh: "link_wf l \<Longrightarrow> fresh l"
  by (auto simp: link_wf_def fresh_def unnumbered_def sym_wf_def sym_at_def all_set_conv_all_nth)

section \<open>Storing and allocating\<close>

lemma sym_at_upd: "s < length (lk_store l) \<Longrightarrow> sym_at (upd s f l) t = (if t = s then f (sym_at l s) else sym_at l t)"
  by (simp add: upd_def sym_at_def)

lemma upd_fields [simp]: "length (lk_store (upd s f l)) = length (lk_store l)" "lk_hash (upd s f l) = lk_hash l" "lk_funchash (upd s f l) = lk_funchash l"
  "lk_Text (upd s f l) = lk_Text l" "lk_Data (upd s f l) = lk_Data l" "lk_files (upd s f l) = lk_files l" "lk_Meta (upd s f l) = lk_Meta l"
  "lk_Arch (upd s f l) = lk_Arch l" "lk_Pkgpath (upd s f l) = lk_Pkgpath l" "unnumbered (upd s f l) = unnumbered l" "lk_flushed (upd s f l) = lk_flushed l"
  by (simp_all add: upd_def unnumbered_def)

lemma upd_wf:
  assumes "link_wf l" "s < length (lk_store l)" "same_id (sym_at l s) (f (sym_at l s))" "sym_wf (length (lk_store l)) (f (sym_at l s))"
  shows "link_wf (upd s f l)"
  using assms by (auto simp: link_wf_def tables_ok_def lists_ok_def sym_at_upd same_id_def)

lemma upd_frame:
  assumes "s < length (lk_store l)" "same_id (sym_at l s) (f (sym_at l s))" "sy_onList (sym_at l s) \<Longrightarrow> s \<notin> S \<Longrightarrow> same_data (sym_at l s) (f (sym_at l s))"
  shows "frame S l (upd s f l)"
  using assms by (auto simp: frame_def sym_at_upd)

lemma alloc_eq: "alloc y l = (s, l') \<Longrightarrow> s = length (lk_store l) \<and> l' = l\<lparr>lk_store := lk_store l @ [y]\<rparr>"
  by (auto simp: alloc_def)

lemma sym_wf_mono: "sym_wf n y \<Longrightarrow> n \<le> m \<Longrightarrow> sym_wf m y"
  by (auto simp: sym_wf_def)

lemma sym_at_alloc: "sym_at (l\<lparr>lk_store := lk_store l @ [y]\<rparr>) t = (if t < length (lk_store l) then sym_at l t else [y] ! (t - length (lk_store l)))"
  by (simp add: sym_at_def nth_append)

lemma alloc_ok:
  assumes "alloc y l = (s, l')" "link_wf l" "sym_wf (Suc (length (lk_store l))) y"
  shows "link_wf l' \<and> frame S l l' \<and> s < length (lk_store l') \<and> sym_at l' s = y"
  using assms(2,3) alloc_eq [OF assms(1)]
  by (auto simp: link_wf_def tables_ok_def lists_ok_def unnumbered_def frame_def sym_at_alloc less_Suc_eq intro: sym_wf_mono)

section \<open>The symbol table\<close>

lemma LookupABI_new:
  assumes "(if abi = ABIInternal then lk_funchash l else lk_hash l) name = None"
  shows "LookupABI name abi l = (length (lk_store l), (if abi = ABIInternal then lk_funchash_update else lk_hash_update) (\<lambda>h. h(name \<mapsto> length (lk_store l)))
    (l\<lparr>lk_store := lk_store l @ [sym0\<lparr>sy_Name := name, sy_ABI := abi\<rparr>]\<rparr>))"
  using assms by (auto simp: LookupABI_def alloc_def)

lemma LookupABI_ok:
  assumes "LookupABI name abi l = (s, l')" "link_wf l"
  shows "link_wf l' \<and> frame S l l' \<and> s < length (lk_store l') \<and> sy_Name (sym_at l' s) = name \<and> (abi \<in> {ABI0, ABIInternal} \<longrightarrow> (abi = ABIInternal \<longleftrightarrow> sy_ABI (sym_at l' s) = ABIInternal))"
proof (cases "(if abi = ABIInternal then lk_funchash l else lk_hash l) name")
  case None
  let ?y = "sym0\<lparr>sy_Name := name, sy_ABI := abi\<rparr>"
  let ?l = "l\<lparr>lk_store := lk_store l @ [?y]\<rparr>"
  have y: "sym_wf n ?y" for n by (simp add: sym_wf_def sym_refs_def opts_def sym0_def)
  have a: "link_wf ?l \<and> frame S l ?l \<and> sym_at ?l (length (lk_store l)) = ?y" using alloc_ok [OF _ assms(2) y, of "length (lk_store l)" ?l] by (simp add: alloc_def)
  have e: "s = length (lk_store l)" "l' = (if abi = ABIInternal then lk_funchash_update else lk_hash_update) (\<lambda>h. h(name \<mapsto> s)) ?l"
    using assms(1) LookupABI_new [OF None] by auto
  then show ?thesis using a
    by (cases "abi = ABIInternal") (auto simp: link_wf_def tables_ok_def lists_ok_def unnumbered_def frame_def sym_at_def sym0_def)
next
  case (Some t)
  then have "s = t" "l' = l" using assms(1) by (auto simp: LookupABI_def split: if_splits)
  then show ?thesis using Some assms(2) by (auto simp: link_wf_def tables_ok_def split: if_splits)
qed

fun look_all :: "('k \<Rightarrow> 'l \<Rightarrow> 's \<times> 'l) \<Rightarrow> 'k list \<Rightarrow> 'l \<Rightarrow> 's list \<times> 'l" where
  "look_all look [] l = ([], l)"
| "look_all look (k # ks) l = (let (s, l1) = look k l; (ss, l2) = look_all look ks l1 in (s # ss, l2))"

text \<open>What the rest of the program relies on: a symbol is found again under its key, and different keys
  have different symbols, however many lookups come between.\<close>

locale symbol_table =
  fixes look :: "'k \<Rightarrow> 'l \<Rightarrow> 's \<times> 'l" and inv :: "'l \<Rightarrow> bool" and valid :: "'l \<Rightarrow> 's \<Rightarrow> bool" and key :: "'l \<Rightarrow> 's \<Rightarrow> 'k"
  assumes look_inv: "inv l \<Longrightarrow> look k l = (s, l') \<Longrightarrow> inv l' \<and> valid l' s \<and> key l' s = k"
    and look_keeps: "inv l \<Longrightarrow> look k l = (s, l') \<Longrightarrow> valid l t \<Longrightarrow> valid l' t \<and> key l' t = key l t"
    and look_again: "inv l \<Longrightarrow> look k l = (s, l') \<Longrightarrow> look k l' = (s, l')"
    and look_stays: "inv l \<Longrightarrow> look k l = (s, l) \<Longrightarrow> look k' l = (t, l') \<Longrightarrow> look k l' = (s, l')"
begin

lemma look_all_keeps:
  assumes "look_all look ks l = (ss, l')" "inv l" "valid l t"
  shows "valid l' t \<and> key l' t = key l t"
  using assms
proof (induction ks arbitrary: l ss)
  case (Cons k ks)
  obtain s l1 ss' where a: "look k l = (s, l1)" "look_all look ks l1 = (ss', l')" using Cons.prems(1) by (auto split: prod.splits)
  have "valid l1 t \<and> key l1 t = key l t" "inv l1" using look_keeps look_inv Cons.prems(2,3) a(1) by blast+
  then show ?case using Cons.IH [OF a(2)] by simp
qed simp

lemma look_all_inv: "look_all look ks l = (ss, l') \<Longrightarrow> inv l \<Longrightarrow> inv l' \<and> map (key l') ss = ks"
proof (induction ks arbitrary: l ss)
  case (Cons k ks)
  obtain s l1 ss' where a: "look k l = (s, l1)" "look_all look ks l1 = (ss', l')" "ss = s # ss'" using Cons.prems(1) by (auto split: prod.splits)
  have 1: "inv l1 \<and> valid l1 s \<and> key l1 s = k" using look_inv Cons.prems(2) a(1) by blast
  show ?case using Cons.IH [OF a(2)] look_all_keeps [OF a(2)] 1 a(3) by simp
qed simp

lemma look_all_stays: "look_all look ks l = (ss, l') \<Longrightarrow> inv l \<Longrightarrow> look k l = (s, l) \<Longrightarrow> look k l' = (s, l')"
proof (induction ks arbitrary: l ss)
  case (Cons k' ks)
  obtain s' l1 ss' where a: "look k' l = (s', l1)" "look_all look ks l1 = (ss', l')" using Cons.prems(1) by (auto split: prod.splits)
  show ?case using Cons.IH [OF a(2)] look_stays [OF Cons.prems(2,3) a(1)] look_inv [OF Cons.prems(2) a(1)] by blast
qed simp

lemma look_all_found:
  assumes "look_all look ks l = (ss, l')" "inv l" "i < length ks"
  shows "look (ks ! i) l' = (ss ! i, l')"
  using assms
proof (induction ks arbitrary: l ss i)
  case (Cons k ks)
  obtain s l1 ss' where a: "look k l = (s, l1)" "look_all look ks l1 = (ss', l')" "ss = s # ss'" using Cons.prems(1) by (auto split: prod.splits)
  have 1: "inv l1" using look_inv Cons.prems(2) a(1) by blast
  have "look k l' = (s, l')" by (rule look_all_stays [OF a(2) 1 look_again [OF Cons.prems(2) a(1)]])
  then show ?case using Cons.IH [OF a(2) 1] Cons.prems(3) a(3) by (cases i) auto
qed simp

lemma look_all_identity:
  assumes "look_all look ks l = (ss, l')" "inv l" "i < length ks" "j < length ks"
  shows "ss ! i = ss ! j \<longleftrightarrow> ks ! i = ks ! j"
proof
  have m: "map (key l') ss = ks" using look_all_inv assms(1,2) by blast
  then have len: "length ss = length ks" by (metis length_map)
  assume "ss ! i = ss ! j"
  then show "ks ! i = ks ! j" using m assms(3,4) len by (metis nth_map)
next
  assume "ks ! i = ks ! j"
  then show "ss ! i = ss ! j" using look_all_found [OF assms(1,2,3)] look_all_found [OF assms(1,2,4)] by simp
qed

end

definition look_key :: "string \<times> bool \<Rightarrow> Link \<Rightarrow> sid \<times> Link" where
  "look_key = (\<lambda>(name, internal). LookupABI name (if internal then ABIInternal else ABI0))"

lemma look_key_frame:
  assumes "link_wf l" "look_key k l = (s, l')"
  shows "link_wf l' \<and> frame {} l l' \<and> s < length (lk_store l') \<and> (sy_Name (sym_at l' s), sy_ABI (sym_at l' s) = ABIInternal) = k"
proof -
  obtain n b where k: "k = (n, b)" by fastforce
  have "ABI0 \<noteq> ABIInternal" by (simp add: ABI0_def ABIInternal_def)
  then show ?thesis using LookupABI_ok [OF assms(2) [unfolded k look_key_def prod.case] assms(1), of "{}"] k by (cases b) auto
qed

definition in_table :: "Link \<Rightarrow> string \<times> bool \<Rightarrow> sid option" where
  "in_table l = (\<lambda>(name, internal). if internal then lk_funchash l name else lk_hash l name)"

lemma look_key_eq: "look_key k l = (case in_table l k of Some s \<Rightarrow> (s, l) | None \<Rightarrow> (length (lk_store l),
    (if snd k then lk_funchash_update else lk_hash_update) (\<lambda>h. h(fst k \<mapsto> length (lk_store l)))
      (l\<lparr>lk_store := lk_store l @ [sym0\<lparr>sy_Name := fst k, sy_ABI := (if snd k then ABIInternal else ABI0)\<rparr>]\<rparr>)))"
  by (cases k) (simp add: look_key_def LookupABI_def in_table_def alloc_def ABI0_def ABIInternal_def split: option.splits)

lemma look_key_hash:
  assumes "look_key k l = (s, l')"
  shows "in_table l' k = Some s" "in_table l j = Some t \<Longrightarrow> in_table l' j = Some t"
proof -
  show "in_table l' k = Some s"
    using assms unfolding look_key_eq by (cases "in_table l k"; cases k) (auto simp: in_table_def)
  show "in_table l j = Some t \<Longrightarrow> in_table l' j = Some t"
    using assms unfolding look_key_eq by (cases "in_table l k"; cases k; cases j) (auto simp: in_table_def split: if_splits)
qed

lemma in_table_look: "in_table l k = Some s \<Longrightarrow> look_key k l = (s, l)"
  by (simp add: look_key_eq)

interpretation links: symbol_table look_key link_wf "\<lambda>l s. s < length (lk_store l)" "\<lambda>l s. (sy_Name (sym_at l s), sy_ABI (sym_at l s) = ABIInternal)"
proof
  fix l k s l' assume a: "link_wf l" "look_key k l = (s, l')"
  show "link_wf l' \<and> s < length (lk_store l') \<and> (sy_Name (sym_at l' s), sy_ABI (sym_at l' s) = ABIInternal) = k" using look_key_frame [OF a] by blast
  show "t < length (lk_store l) \<Longrightarrow> t < length (lk_store l') \<and> (sy_Name (sym_at l' t), sy_ABI (sym_at l' t) = ABIInternal) = (sy_Name (sym_at l t), sy_ABI (sym_at l t) = ABIInternal)" for t
    using look_key_frame [OF a] by (auto simp: frame_def same_id_def)
  show "look_key k l' = (s, l')" using look_key_hash(1) [OF a(2)] by (rule in_table_look)
next
  fix l k s k' t l' assume a: "link_wf l" "look_key k l = (s, l)" "look_key k' l = (t, l')"
  show "look_key k l' = (s, l')" using look_key_hash(2) [OF a(3) look_key_hash(1) [OF a(2)]] by (rule in_table_look)
qed

text \<open>C6: Whatever names are looked up in between, \<open>LookupABI\<close> returns one symbol for each name and ABI: two
  of the symbols that a sequence of lookups returns are the same exactly when name and ABI are.\<close>
theorem LookupABI_identity:
  assumes "link_wf l" "look_all look_key ks l = (ss, l')" "i < length ks" "j < length ks"
  shows "ss ! i = ss ! j \<longleftrightarrow> ks ! i = ks ! j"
  using assms(2,1,3,4) by (rule links.look_all_identity)

lemma NewLink_ok: "NewLink m arch pkg = Inr l \<Longrightarrow> link_wf l \<and> lk_Meta l = m \<and> lk_store l = []"
  by (auto simp: NewLink_def link_wf_def tables_ok_def lists_ok_def unnumbered_def split: option.splits if_splits)

theorem LookupABI_identity_witness:
  "\<exists>l ss l'. NewLink go124 ''amd64'' ''main'' = Inr l \<and> look_all look_key [(''f'', False), (''f'', True), (''f'', False)] l = (ss, l') \<and>
     ss ! 0 = ss ! 2 \<and> ss ! 0 \<noteq> ss ! 1"
proof -
  obtain l where l: "NewLink go124 ''amd64'' ''main'' = Inr l" by (simp add: NewLink_def go124_def go124_arch_def)
  obtain ss l' where k: "look_all look_key [(''f'', False), (''f'', True), (''f'', False)] l = (ss, l')" by fastforce
  have w: "link_wf l" using NewLink_ok l by blast
  show ?thesis using l k LookupABI_identity [OF w k, of 0 2] LookupABI_identity [OF w k, of 0 1] by auto
qed

section \<open>Data symbols\<close>

lemma Globl_ok:
  assumes "Globl s sz flag l = Inr l'" "link_wf l" "s < length (lk_store l)"
  shows "link_wf l' \<and> frame S l l' \<and> \<not> sy_onList (sym_at l s) \<and> sym_at l' s = globl_sym sz flag (sym_at l s) \<and> s \<in> set (lk_Data l')"
proof -
  have n: "\<not> sy_onList (sym_at l s)" "l' = (upd s (globl_sym sz flag) l)\<lparr>lk_Data := lk_Data l @ [s]\<rparr>" using assms(1) by (auto simp: Globl_def split: if_splits)
  let ?l = "upd s (globl_sym sz flag) l"
  have g: "same_id (sym_at l s) (globl_sym sz flag (sym_at l s))" "sym_wf (length (lk_store l)) (sym_at l s) \<Longrightarrow> sym_wf (length (lk_store l)) (globl_sym sz flag (sym_at l s))" "sy_onList (globl_sym sz flag (sym_at l s))"
    by (simp_all add: globl_sym_def Let_def same_id_def sym_wf_def sym_refs_def)
  have w: "link_wf ?l" "frame S l ?l" using upd_wf [of l s "globl_sym sz flag"] upd_frame [of s l "globl_sym sz flag"] g n(1) assms(2,3) by (auto simp: link_wf_def)
  moreover have "s \<notin> set (lk_Text l @ lk_Data l)" using n(1) assms(2) by (auto simp: link_wf_def lists_ok_def)
  moreover have "sym_at l' t = sym_at ?l t" for t using n(2) by (simp add: sym_at_def)
  ultimately show ?thesis using n assms(3) g(3) by (auto simp: link_wf_def tables_ok_def lists_ok_def unnumbered_def frame_def sym_at_upd)
qed

lemma contents_wf:
  assumes "same_id y y'" "sy_R y' = sy_R y" "sy_Func y' = sy_Func y" "sy_indexed y' = sy_indexed y"
  shows "sym_wf n y \<longleftrightarrow> sym_wf n y'"
  using assms by (simp add: sym_wf_def sym_refs_def)

lemma WriteBytes_same: "same_id y (WriteBytes off b y)" "sy_R (WriteBytes off b y) = sy_R y" "sy_Func (WriteBytes off b y) = sy_Func y" "sy_indexed (WriteBytes off b y) = sy_indexed y" "sy_onList (WriteBytes off b y) = sy_onList y"
  by (simp_all add: WriteBytes_def prepwrite_def Let_def same_id_def)

lemma WriteInt_same: "WriteInt off siz v y = Inr y' \<Longrightarrow> same_id y y' \<and> sy_R y' = sy_R y \<and> sy_Func y' = sy_Func y \<and> sy_indexed y' = sy_indexed y \<and> sy_onList y' = sy_onList y"
  by (auto simp: WriteInt_def prepwrite_def Let_def same_id_def split: if_splits)

lemma AddRel_wf: "sym_wf n y \<Longrightarrow> (\<forall>t. rl_Sym r = Some t \<longrightarrow> t < n) \<Longrightarrow> sym_wf n (AddRel r y)"
  by (auto simp: sym_wf_def sym_refs_def AddRel_def opts_def split: option.splits)

lemma AddRel_same: "same_id y (AddRel r y)"
  by (simp add: same_id_def AddRel_def)

section \<open>Functions\<close>

lemma upd_func_wf:
  assumes "upd_func s f l = Inr l'" "link_wf l" "s < length (lk_store l)" "\<And>fi. set (func_refs fi) \<subseteq> {..<length (lk_store l)} \<Longrightarrow> set (func_refs (f fi)) \<subseteq> {..<length (lk_store l)}"
  shows "link_wf l' \<and> frame S l l'"
proof -
  obtain fi where fi: "sy_Func (sym_at l s) = Some fi" "l' = upd s (\<lambda>y. y\<lparr>sy_Func := Some (f fi)\<rparr>) l" using assms(1) by (auto simp: upd_func_def split: option.splits)
  have w: "sym_wf (length (lk_store l)) (sym_at l s)" using assms(2,3) by (simp add: link_wf_def)
  then have "set (func_refs fi) \<subseteq> {..<length (lk_store l)}" using fi(1) by (auto simp: sym_wf_def sym_refs_def)
  from assms(4) [OF this] have "sym_wf (length (lk_store l)) ((sym_at l s)\<lparr>sy_Func := Some (f fi)\<rparr>)" using w by (auto simp: sym_wf_def sym_refs_def)
  then show ?thesis unfolding fi(2) using assms(2,3) by (auto intro!: upd_wf upd_frame simp: same_id_def same_data_def)
qed

lemma opts_simps [simp]: "opts [] = []" "opts (None # xs) = opts xs" "opts (Some a # xs) = a # opts xs"
  by (simp_all add: opts_def)

lemma opts_append [simp]: "opts (xs @ ys) = opts xs @ opts ys"
  by (simp add: opts_def)

lemma set_opts: "set (opts xs) = {a. Some a \<in> set xs}"
  by (induction xs) (auto simp: opts_def split: option.splits)

lemma opts_update: "set (map snd (AList.update k v al)) \<subseteq> insert v (set (map snd al))"
  by (induction al) auto

lemma InitText_ok:
  assumes "InitText s flag l = Inr l'" "link_wf l" "s < length (lk_store l)"
  shows "link_wf l' \<and> frame S l l' \<and> \<not> sy_onList (sym_at l s) \<and> sy_Kind (sym_at l' s) = ''STEXT'' \<and> s \<in> set (lk_Text l')"
proof -
  have n: "\<not> sy_onList (sym_at l s)" "l' = (upd s (init_text l flag) l)\<lparr>lk_Text := lk_Text l @ [s]\<rparr>" "sy_Func (sym_at l s) = None" using assms(1) by (auto simp: InitText_def Let_def split: if_splits)
  let ?l = "upd s (init_text l flag) l"
  have g: "same_id (sym_at l s) (init_text l flag (sym_at l s))" "sym_wf (length (lk_store l)) (sym_at l s) \<Longrightarrow> sym_wf (length (lk_store l)) (init_text l flag (sym_at l s))" "sy_onList (init_text l flag (sym_at l s))"
    using n(3) by (simp_all add: init_text_def same_id_def sym_wf_def sym_refs_def func_refs_def func0_def)
  have w: "link_wf ?l" "frame S l ?l" using upd_wf [of l s "init_text l flag"] upd_frame [of s l "init_text l flag"] g n(1) assms(2,3) by (auto simp: link_wf_def)
  moreover have "s \<notin> set (lk_Text l @ lk_Data l)" using n(1) assms(2) by (auto simp: link_wf_def lists_ok_def)
  moreover have "sym_at l' t = sym_at ?l t" for t using n(2) by (simp add: sym_at_def)
  moreover have "sy_Kind (init_text l flag (sym_at l s)) = ''STEXT''" by (simp add: init_text_def)
  ultimately show ?thesis using n assms(3) g(3) by (auto simp: link_wf_def tables_ok_def lists_ok_def unnumbered_def frame_def sym_at_upd)
qed

lemma Funcdata_ok: "Funcdata s idx d l = Inr l' \<Longrightarrow> link_wf l \<Longrightarrow> s < length (lk_store l) \<Longrightarrow> d < length (lk_store l) \<Longrightarrow> link_wf l' \<and> frame S l l'"
proof -
  assume a: "Funcdata s idx d l = Inr l'" "link_wf l" "s < length (lk_store l)" and d: "d < length (lk_store l)"
  have "set (func_refs (fi\<lparr>fi_funcdata := AList.update idx (Some d) (fi_funcdata fi)\<rparr>)) \<subseteq> insert d (set (func_refs fi))" for fi
    using opts_update [of idx "Some d" "fi_funcdata fi"] unfolding func_refs_def opts_append set_append set_opts by auto
  then show "link_wf l' \<and> frame S l l'" using d by (intro upd_func_wf [OF a(1) [unfolded Funcdata_def] a(2,3)]) fastforce
qed

lemma PCDATA_ok: "PCDATA s l = Inr l' \<Longrightarrow> link_wf l \<Longrightarrow> s < length (lk_store l) \<Longrightarrow> link_wf l' \<and> frame S l l'"
  unfolding PCDATA_def by (erule upd_func_wf) (auto simp: func_refs_def)

lemma pcsym_ok:
  assumes "pcsym p l = (s, l')" "link_wf l"
  shows "link_wf l' \<and> frame S l l' \<and> s < length (lk_store l')"
  using alloc_ok [OF assms(1) [unfolded pcsym_def] assms(2)] by (simp add: sym_wf_def sym_refs_def sym0_def)

section \<open>Files and Flush\<close>

lemma AddFile_ok:
  assumes "AddFile name l = (i, l')" "link_wf l"
  shows "link_wf l' \<and> lk_store l' = lk_store l \<and> lk_Text l' = lk_Text l \<and> lk_Data l' = lk_Data l \<and> lk_Meta l' = lk_Meta l"
proof (cases "lk_fileIdx l name")
  case None
  then have "l' = l\<lparr>lk_fileIdx := (lk_fileIdx l)(name \<mapsto> length (lk_files l)), lk_files := lk_files l @ [name]\<rparr>" using assms(1) by (auto simp: AddFile_def Let_def)
  then show ?thesis using assms(2) by (simp add: link_wf_def tables_ok_def lists_ok_def unnumbered_def sym_at_def)
qed (use assms in \<open>simp add: AddFile_def\<close>)

lemma put_refs [simp]: "sym_refs (put b y) = sym_refs y" "sy_indexed (put b y) = sy_indexed y"
  by (simp_all add: put_def Let_def sym_refs_def)

lemma put_rel_refs [simp]: "sym_wf m (put_rel n ty add s y) \<longleftrightarrow> sym_wf m y \<and> s < m"
  by (auto simp: put_rel_def AddRel_def prepwrite_def Let_def sym_wf_def sym_refs_def)

lemma put_wf [simp]: "sym_wf m (put b y) \<longleftrightarrow> sym_wf m y"
  by (simp add: sym_wf_def)

lemma sym0_wf [simp]: "sym_wf m (sym0\<lparr>sy_Kind := k\<rparr>)"
  by (simp add: sym_wf_def sym_refs_def sym0_def)

lemma dwarf_wf:
  assumes "dwarf s l = Inr l'" "link_wf l" "s < length (lk_store l)"
  shows "link_wf l' \<and> frame S l l'"
proof -
  obtain fn info where fn: "sy_Func (sym_at l s) = Some fn" "dwarf_info l s fn = Inr info" using assms(1) by (auto simp: dwarf_def sbind_Inr_iff split: option.splits)
  obtain i l1 n l2 r l3 where a: "alloc info l = (i, l1)" "alloc (dwarf_lines l s) l1 = (n, l2)" "alloc (sym0\<lparr>sy_Kind := ''SDWARFRANGE''\<rparr>) l2 = (r, l3)" by (meson surj_pair)
  have u: "upd_func s (\<lambda>fi. fi\<lparr>fi_dwarfInfo := Some i, fi_dwarfLines := Some n, fi_dwarfRanges := Some r\<rparr>) l3 = Inr l'" using assms(1) fn a by (simp add: dwarf_def)
  have "sym_wf m info" if "s < m" for m using fn(2) that by (auto simp: dwarf_info_def Let_def sbind_Inr_iff split: if_splits)
  then have 1: "link_wf l1 \<and> frame S l l1 \<and> i < length (lk_store l1)" using alloc_ok [OF a(1) assms(2)] assms(3) by simp
  then have len: "length (lk_store l) \<le> length (lk_store l1)" by (simp add: frame_def)
  have "sym_wf m (dwarf_lines l s)" if "s < m" for m using that by (simp add: dwarf_lines_def Let_def)
  then have 2: "link_wf l2 \<and> frame S l1 l2 \<and> n < length (lk_store l2)" using alloc_ok [OF a(2)] 1 assms(3) len by simp
  have 3: "link_wf l3 \<and> frame S l2 l3 \<and> r < length (lk_store l3)" using alloc_ok [OF a(3)] 2 by simp
  have len2: "length (lk_store l1) \<le> length (lk_store l2)" "length (lk_store l2) \<le> length (lk_store l3)" using 2 3 by (simp_all add: frame_def)
  have "link_wf l' \<and> frame S l3 l'"
    by (rule upd_func_wf [OF u]) (use 1 2 3 len len2 assms(3) in \<open>auto simp: func_refs_def set_opts\<close>)
  then show ?thesis using frame_trans3 1 2 3 by blast
qed

lemma derive_ok:
  assumes "derive_funcdata s idx name (fn, l) = (fn', l')" "link_wf l" "set (func_refs fn) \<subseteq> {..<length (lk_store l)}"
  shows "link_wf l' \<and> frame S l l' \<and> set (func_refs fn') \<subseteq> {..<length (lk_store l')}"
proof (cases "map_of (fi_funcdata fn) idx")
  case None
  obtain d where d: "derived s name l = (d, l')" "fn' = fn\<lparr>fi_funcdata := AList.update idx d (fi_funcdata fn)\<rparr>" using assms(1) None by (auto simp: derive_funcdata_def split: prod.splits)
  have w: "link_wf l' \<and> frame S l l' \<and> (\<forall>t. d = Some t \<longrightarrow> t < length (lk_store l'))"
    using d(1) assms(2) by (auto simp: derived_def Lookup_def split: if_splits prod.splits dest: LookupABI_ok)
  have "set (func_refs fn') \<subseteq> {t. d = Some t} \<union> set (func_refs fn)"
    unfolding d(2) using opts_update [of idx d "fi_funcdata fn"] unfolding func_refs_def opts_append set_append set_opts by auto
  moreover have "length (lk_store l) \<le> length (lk_store l')" using w by (simp add: frame_def)
  ultimately show ?thesis using w assms(3) by fastforce
qed (use assms in \<open>auto simp: derive_funcdata_def\<close>)

lemma slots_refs: "funcdata_slots fd = Inr slots \<Longrightarrow> Some a \<in> set slots \<Longrightarrow> Some a \<in> snd ` set fd"
  by (auto simp: funcdata_slots_def split: if_splits option.splits dest!: map_of_SomeD) force

lemma flush_text_ok:
  assumes "flush_text s l = Inr l'" "link_wf l" "s < length (lk_store l)"
  shows "link_wf l' \<and> frame S l l'"
proof -
  obtain fn where fn: "sy_Func (sym_at l s) = Some fn" using assms(1) by (auto simp: flush_text_def Let_def split: option.splits)
  let ?fd = "af_Funcdata (me_ABI (lk_Meta l))" let ?y = "sym_at l s"
  let ?c = "wf_AsmArgsStackmap (me_Writer (lk_Meta l)) \<and> has_prefix (PathToPrefix (lk_Pkgpath l) @ ''.'') (sy_Name ?y) \<and> sy_ABI ?y = ABI0 \<and> sy_Name ?y \<noteq> ''runtime.addmoduledata''"
  let ?a = "derive_funcdata s (geti ?fd ''ArgsPointerMaps'') (sy_Name ?y @ ''.args_stackmap'') (fn, l)"
  obtain fn' l1 where d: "(if ?c then derive_funcdata s (geti ?fd ''ArgInfo'') (sy_Name ?y @ ''.arginfo'' @ dec_nat (unat (sy_ABI ?y))) ?a else (fn, l)) = (fn', l1)" by fastforce
  obtain pc l2 where pc: "pcsym [0, 0, 0] l1 = (pc, l2)" by fastforce
  obtain slots where p: "funcdata_slots (fi_funcdata fn') = Inr slots"
      "dwarf s (upd s (\<lambda>y. y\<lparr>sy_Func := Some (fn'\<lparr>fi_Funcdata := slots, fi_UsedFiles := (if fi_funcdata fn \<noteq> [] \<or> fi_pcdataProg fn then [0] else []), fi_Pcinline := Some pc\<rparr>)\<rparr>) l2) = Inr l'"
    using assms(1) fn d pc by (auto simp: flush_text_def Let_def sbind_Inr_iff)
  have r0: "set (func_refs fn) \<subseteq> {..<length (lk_store l)}" using assms(2,3) fn by (auto simp: link_wf_def sym_wf_def sym_refs_def)
  have 1: "link_wf l1 \<and> frame S l l1 \<and> set (func_refs fn') \<subseteq> {..<length (lk_store l1)}"
  proof (cases ?c)
    case True
    obtain fa la where a: "?a = (fa, la)" by fastforce
    note a1 = derive_ok [OF a assms(2) r0]
    have "derive_funcdata s (geti ?fd ''ArgInfo'') (sy_Name ?y @ ''.arginfo'' @ dec_nat (unat (sy_ABI ?y))) (fa, la) = (fn', l1)" using d True a by simp
    from derive_ok [OF this] show ?thesis using a1 frame_trans1 by blast
  qed (use d assms r0 in auto)
  have 2: "link_wf l2 \<and> frame S l1 l2 \<and> pc < length (lk_store l2)" using pcsym_ok [OF pc] 1 by blast
  have len: "length (lk_store l) \<le> length (lk_store l1)" "length (lk_store l1) \<le> length (lk_store l2)" using 1 2 by (simp_all add: frame_def)
  have s2: "s < length (lk_store l2)" "sym_wf (length (lk_store l2)) (sym_at l2 s)" using 2 len assms(3) by (auto simp: link_wf_def)
  let ?f = "fn'\<lparr>fi_Funcdata := slots, fi_UsedFiles := (if fi_funcdata fn \<noteq> [] \<or> fi_pcdataProg fn then [0] else []), fi_Pcinline := Some pc\<rparr>"
  let ?l = "upd s (\<lambda>y. y\<lparr>sy_Func := Some ?f\<rparr>) l2"
  have "a \<in> set (func_refs fn')" if "Some a \<in> set slots" for a using slots_refs [OF p(1) that] by (auto simp: func_refs_def set_opts)
  moreover have "set (func_refs ?f) \<subseteq> insert pc ({a. Some a \<in> set slots} \<union> set (func_refs fn'))" by (auto simp: func_refs_def set_opts)
  moreover have "set (func_refs fn') \<subseteq> {..<length (lk_store l2)}" using 1 len by fastforce
  ultimately have "set (func_refs ?f) \<subseteq> {..<length (lk_store l2)}" using 2 by blast
  then have "sym_wf (length (lk_store l2)) ((sym_at l2 s)\<lparr>sy_Func := Some ?f\<rparr>)" using s2(2) by (auto simp: sym_wf_def sym_refs_def)
  then have 3: "link_wf ?l" "frame S l2 ?l" using 2 s2(1) by (auto intro!: upd_wf upd_frame simp: same_id_def same_data_def)
  have "link_wf l' \<and> frame S ?l l'" using dwarf_wf [OF p(2) 3(1)] s2(1) by simp
  then show ?thesis using frame_trans3 1 2 3 by blast
qed

lemma Flush_ok:
  assumes "Flush l = Inr l'" "link_wf l"
  shows "link_wf l' \<and> frame S l l'"
proof -
  have f: "foldE flush_text (lk_Text l) (l\<lparr>lk_flushed := True\<rparr>) = Inr l'" using assms(1) by (simp add: Flush_def split: if_splits)
  have 0: "link_wf (l\<lparr>lk_flushed := True\<rparr>) \<and> frame S l (l\<lparr>lk_flushed := True\<rparr>)"
    using assms(2) by (simp add: link_wf_def tables_ok_def lists_ok_def unnumbered_def frame_def sym_at_def)
  have t: "s < length (lk_store l)" if "s \<in> set (lk_Text l)" for s using assms(2) that by (auto simp: link_wf_def lists_ok_def)
  show ?thesis
  proof (rule foldE_inv [where P = "\<lambda>k. link_wf k \<and> frame S l k", OF f 0])
    fix s k k' assume s: "s \<in> set (lk_Text l)" and k: "link_wf k \<and> frame S l k" and r: "flush_text s k = Inr k'"
    have "s < length (lk_store k)" using t [OF s] k by (simp add: frame_def)
    from flush_text_ok [OF r _ this] show "link_wf k' \<and> frame S l k'" using k frame_trans1 by blast
  qed
qed

end
