(* ===== verification/Convert.thy ===== *)
theory Convert
  imports Goobj_Read Gocobj_Read Pcvalue
begin

text \<open>
  \<open>internal/convert\<close>: turning a gocobj file into the symbols of a Go object. \<open>convert.go\<close> decides the Go
  side of every name and the target of every ELF relocation, \<open>relocmap.go\<close> maps relocation types and
  selects the ABI profile, \<open>data.go\<close> copies data sections and recovers jump tables, \<open>arm64.go\<close> and
  \<open>write.go\<close> fill in the functions.

  What \<open>newConverter\<close> computes and nobody changes is a \<open>converter\<close>; what \<open>write\<close> changes is a \<open>cstate\<close>:
  the link, the symbols of the functions (the field \<open>sym\<close> of every \<open>fn\<close>, which \<open>write\<close> sets before anything
  reads it), the symbols of named data and of sections, and the GOT slots. Errors that end the program
  through \<open>fatalf\<close> and run-time panics are errors too.
\<close>

section \<open>Strings\<close>

definition has_suffix :: "string \<Rightarrow> string \<Rightarrow> bool" where
  "has_suffix p s \<longleftrightarrow> length p \<le> length s \<and> drop (length s - length p) s = p"

definition trim_suffix :: "string \<Rightarrow> string \<Rightarrow> string" where
  "trim_suffix p s = (if has_suffix p s then take (length s - length p) s else s)"

definition trim_prefix :: "string \<Rightarrow> string \<Rightarrow> string" where
  "trim_prefix p s = (if has_prefix p s then drop (length p) s else s)"

text \<open>\<open>path.Base\<close>\<close>

definition path_Base :: "string \<Rightarrow> string" where
  "path_Base s = (if s = [] then ''.'' else
     let t = rev (dropWhile (\<lambda>c. c = CHR ''/'') (rev s)); b = rev (takeWhile (\<lambda>c. c \<noteq> CHR ''/'') (rev t)) in
     if b = [] then ''/'' else b)"

text \<open>The number of bytes of the first UTF-8 character, as \<open>utf8.DecodeRune\<close> counts them; a byte that
  starts no well-formed character counts alone.\<close>

definition in_rng :: "nat \<Rightarrow> nat \<Rightarrow> nat list \<Rightarrow> nat \<Rightarrow> bool" where
  "in_rng lo hi b i \<longleftrightarrow> i < length b \<and> lo \<le> b ! i \<and> b ! i \<le> hi"

definition rune_len :: "string \<Rightarrow> nat" where
  "rune_len s = (let b = map of_char s :: nat list; c = b ! 0; ct = in_rng 0x80 0xBF b in
     if 0xC2 \<le> c \<and> c \<le> 0xDF \<and> ct 1 then 2
     else if c = 0xE0 \<and> in_rng 0xA0 0xBF b 1 \<and> ct 2 \<or> c = 0xED \<and> in_rng 0x80 0x9F b 1 \<and> ct 2 \<or> 0xE1 \<le> c \<and> c \<le> 0xEF \<and> c \<noteq> 0xED \<and> ct 1 \<and> ct 2 then 3
     else if c = 0xF0 \<and> in_rng 0x90 0xBF b 1 \<and> ct 2 \<and> ct 3 \<or> c = 0xF4 \<and> in_rng 0x80 0x8F b 1 \<and> ct 2 \<and> ct 3 \<or>
       0xF1 \<le> c \<and> c \<le> 0xF3 \<and> ct 1 \<and> ct 2 \<and> ct 3 then 4
     else 1)"

definition tu_char :: "char \<Rightarrow> bool" where
  "tu_char c \<longleftrightarrow> (let n = of_char c :: nat in 65 \<le> n \<and> n \<le> 90 \<or> 97 \<le> n \<and> n \<le> 122 \<or> 48 \<le> n \<and> n \<le> 57 \<or> n = 95)"

text \<open>\<open>tuCharRE.ReplaceAllString(s, "_")\<close> replaces characters, not bytes.\<close>

function tu_replace :: "string \<Rightarrow> string" where
  "tu_replace [] = []"
| "tu_replace (c # s) = (if tu_char c then c # tu_replace s else CHR ''_'' # tu_replace (drop (rune_len (c # s) - 1) s))"
  by pat_completeness auto
termination by (relation "measure length") auto

definition tu_suffix :: "string \<Rightarrow> string" where
  "tu_suffix s = (case find (\<lambda>p. has_suffix p s) [''.c'', ''.goc'', ''.ll'', ''.bc''] of None \<Rightarrow> s | Some p \<Rightarrow> trim_suffix p s)"

definition tuTag :: "gfile \<Rightarrow> string" where
  "tuTag f = (case gf_Files f of
     [] \<Rightarrow> ''tu''
   | s # _ \<Rightarrow> if s = [] then ''tu'' else tu_suffix (tu_replace (path_Base s)))"

definition sanitize :: "string \<Rightarrow> string" where
  "sanitize = map (\<lambda>c. if c = CHR ''_'' \<or> c = CHR ''.'' \<or> c = CHR ''$'' \<or> tu_char c then c else CHR ''_'')"

section \<open>Errors, relocations, functions\<close>

datatype conv_err = BadArch string | BadMachine u16 | NoSymtab | NoElfFunc string | SizeExceeds string u64 u64 | NoData nat
  | LinkErr link_err | NoOwner nat int | TwoOwners nat u64 | NoBase nat u64 | NegTarget nat u64 | OtherFunction nat u64
  | UnresolvedData nat u64 string | BadDataType u32 nat u64 | Unresolved string u64 string | BadTextType u32 string u64
  | CallAddend string u64 i64 | AddendRange string u64 i64 | NotOnInsn string int | NoLow12 string int | BadLow12 string int u32
  | PairDiffers string int | GoPanic string | NoArchFacts string | NoFPAdjust string | NoProfile string

record rela =
  re_Off :: u64
  re_Type :: u32
  re_Sym :: u32
  re_Add :: i64

record fn =
  fx_id :: nat
  fx_tab :: func
  fx_sec :: nat
  fx_off :: u64
  fx_name :: string
  fx_abi :: u16

record converter =
  cv_pkg :: string
  cv_tu :: string
  cv_arm64 :: bool
  cv_libcallImpl :: "string list"
  cv_f :: gfile
  cv_ef :: elf_file
  cv_syms :: "elf_symbol list"
  cv_fns :: "fn list"
  cv_abiByGoSym :: "string \<rightharpoonup> u16"
  cv_goName :: "string \<rightharpoonup> string"

record cstate =
  cs_ctxt :: Link
  cs_sym :: "sid list"
  cs_dataSym :: "nat \<rightharpoonup> sid"
  cs_secSym :: "nat \<rightharpoonup> sid"
  cs_gotSyms :: "string \<rightharpoonup> sid"

definition link_op :: "(Link \<Rightarrow> link_err + Link) \<Rightarrow> cstate \<Rightarrow> conv_err + cstate" where
  "link_op f st = (case f (cs_ctxt st) of Inl e \<Rightarrow> Inl (LinkErr e) | Inr l \<Rightarrow> Inr (st\<lparr>cs_ctxt := l\<rparr>))"

definition on_sym :: "sid \<Rightarrow> (Sym \<Rightarrow> Sym) \<Rightarrow> cstate \<Rightarrow> cstate" where
  "on_sym s f st = st\<lparr>cs_ctxt := upd s f (cs_ctxt st)\<rparr>"

definition on_func :: "sid \<Rightarrow> (FuncInfo \<Rightarrow> FuncInfo) \<Rightarrow> cstate \<Rightarrow> conv_err + cstate" where
  "on_func s f = link_op (upd_func s f)"

definition look :: "string \<Rightarrow> u16 \<Rightarrow> cstate \<Rightarrow> sid \<times> cstate" where
  "look name abi st = (let (s, l) = LookupABI name abi (cs_ctxt st) in (s, st\<lparr>cs_ctxt := l\<rparr>))"

definition fn_sym :: "cstate \<Rightarrow> fn \<Rightarrow> sid" where
  "fn_sym st x = cs_sym st ! fx_id x"

section \<open>newConverter\<close>

definition libcallSet :: "string \<Rightarrow> string list" where
  "libcallSet names = (if names \<noteq> [] then Fields names
     else [''memcpy'', ''memmove'', ''memset'', ''memcmp'', ''bcmp'', ''strlen'', ''strcpy'', ''strcmp'', ''vsnprintf'', ''snprintf''])"

definition elf_funcs :: "elf_file \<Rightarrow> elf_symbol list \<Rightarrow> string \<rightharpoonup> elf_symbol" where
  "elf_funcs ef syms = map_of (rev (map (\<lambda>s. (elf_symbol.sy_Name s, s))
     (filter (\<lambda>s. ST_TYPE (sy_Info s) = STT_FUNC \<and> sy_Section s \<noteq> SHN_UNDEF \<and> sy_Section s < length (ef_Sections ef)) syms)))"

definition go_name :: "string \<Rightarrow> string \<Rightarrow> func \<Rightarrow> string" where
  "go_name pkg tu t = (if fn_Kind t = 0 \<and> fn_Flags t AND FuncInternal \<noteq> 0 then pkg @ ''.'' @ tu @ ''.'' @ fn_Name t else pkg @ ''.'' @ fn_Name t)"

definition fn_abi :: "func \<Rightarrow> u16" where
  "fn_abi t = (if fn_Kind t = 0 \<and> fn_ABI t = 0 then Goobj_Link.ABI0 else Goobj_Link.ABIInternal)"

definition make_fn :: "(string \<rightharpoonup> elf_symbol) \<Rightarrow> nat \<times> func \<Rightarrow> conv_err + fn" where
  "make_fn elfFn = (\<lambda>(i, t). case elfFn (fn_Name t) of
     None \<Rightarrow> Inl (NoElfFunc (fn_Name t))
   | Some s \<Rightarrow> if fn_TextSize t > elf_symbol.sy_Size s then Inl (SizeExceeds (fn_Name t) (fn_TextSize t) (elf_symbol.sy_Size s))
       else Inr \<lparr>fx_id = i, fx_tab = t, fx_sec = sy_Section s, fx_off = sy_Value s, fx_name = fn_Name t, fx_abi = fn_abi t\<rparr>)"

definition newConverter :: "elf_file \<Rightarrow> gfile \<Rightarrow> string \<Rightarrow> string \<Rightarrow> string \<Rightarrow> conv_err + converter" where
  "newConverter ef f pkg goarch libcalls =
     (if goarch \<noteq> ''amd64'' \<and> goarch \<noteq> ''arm64'' then Inl (BadArch goarch)
      else if ef_Machine ef \<noteq> (if goarch = ''amd64'' then EM_X86_64 else EM_AARCH64) then Inl (BadMachine (ef_Machine ef))
      else case ef_Symtab ef of
        Syms syms \<Rightarrow> sbind (foldE (\<lambda>p fns. sbind (make_fn (elf_funcs ef syms) p) (\<lambda>x. Inr (fns @ [x]))) (enumerate 0 (gf_Funcs f)) []) (\<lambda>fns.
          let gn = (\<lambda>x. go_name pkg (tuTag f) (fx_tab x)) in
          Inr \<lparr>cv_pkg = pkg, cv_tu = tuTag f, cv_arm64 = (goarch = ''arm64''), cv_libcallImpl = libcallSet libcalls, cv_f = f, cv_ef = ef,
             cv_syms = syms, cv_fns = fns, cv_abiByGoSym = map_of (rev (map (\<lambda>x. (gn x, fx_abi x)) fns)),
             cv_goName = map_of (rev (map (\<lambda>x. (fx_name x, gn x)) fns))\<rparr>)
      | _ \<Rightarrow> Inl NoSymtab)"

text \<open>\<open>bySec\<close>: the functions of a section by offset. The source's sort may order functions at the same offset either way; here they keep the order of the tables.\<close>

definition bySec :: "converter \<Rightarrow> nat \<Rightarrow> fn list" where
  "bySec c sec = sort_key fx_off (filter (\<lambda>x. fx_sec x = sec) (cv_fns c))"

definition textSecs :: "converter \<Rightarrow> nat list" where
  "textSecs c = sort (remdups (map fx_sec (cv_fns c)))"

definition symabis :: "converter \<Rightarrow> string" where
  "symabis c = concat (map (\<lambda>x. ''def '' @ (case cv_goName c (fx_name x) of None \<Rightarrow> [] | Some g \<Rightarrow> g) @ '' '' @
     (if fx_abi x = Goobj_Link.ABI0 then ''ABI0'' else ''ABIInternal'') @ [CHR 0x0A]) (cv_fns c))"

definition relas :: "converter \<Rightarrow> nat \<Rightarrow> conv_err + rela list" where
  "relas c sec = (case elf_Section (cv_ef c) (''.rela'' @ es_Name (ef_Sections (cv_ef c) ! sec)) of
     None \<Rightarrow> Inr []
   | Some rs \<Rightarrow> (case es_Data rs of
       None \<Rightarrow> Inl (NoData sec)
     | Some d \<Rightarrow> Inr (map (\<lambda>(off, info, add). \<lparr>re_Off = off, re_Type = ucast info, re_Sym = ucast (drop_bit 32 info), re_Add = add\<rparr>) (rela_entries d))))"

definition isText :: "converter \<Rightarrow> nat \<Rightarrow> bool" where
  "isText c sec \<longleftrightarrow> sec > 0 \<and> sec < length (ef_Sections (cv_ef c)) \<and> es_Flags (ef_Sections (cv_ef c) ! sec) AND SHF_EXECINSTR \<noteq> 0"

section \<open>Names\<close>

text \<open>The symbol of the C body of a libcall, when the object defines it.\<close>

definition impl_of :: "converter \<Rightarrow> string \<Rightarrow> string option" where
  "impl_of c name = (if has_prefix (cv_pkg c @ ''.'') name
     then (let base = trim_prefix (cv_pkg c @ ''.'') name; impl = cv_pkg c @ ''.'' @ base @ ''.impl'' in
       if base \<in> set (cv_libcallImpl c) \<and> cv_abiByGoSym c impl = Some Goobj_Link.ABI0 then Some impl else None)
     else None)"

definition in_fn :: "u64 \<Rightarrow> fn \<Rightarrow> bool" where
  "in_fn addr x \<longleftrightarrow> fx_off x \<le> addr \<and> addr < fx_off x + fn_TextSize (fx_tab x)"

definition resolveText :: "converter \<Rightarrow> nat \<Rightarrow> u64 \<Rightarrow> cstate \<Rightarrow> (sid option \<times> i64) \<times> cstate" where
  "resolveText c sec addr st = (case find (in_fn addr) (bySec c sec) of
     Some x \<Rightarrow> (case (if addr = fx_off x then impl_of c (Sym.sy_Name (sym_at (cs_ctxt st) (fn_sym st x))) else None) of
         Some impl \<Rightarrow> (let (s, st') = look impl Goobj_Link.ABI0 st in ((Some s, 0), st'))
       | None \<Rightarrow> ((Some (fn_sym st x), addr - fx_off x), st))
   | None \<Rightarrow> (case find (\<lambda>x. fx_off x > addr) (bySec c sec) of
       Some x \<Rightarrow> ((Some (fn_sym st x), - (fx_off x - addr)), st)
     | None \<Rightarrow> ((None, 0), st)))"

text \<open>The Go name and ABI that a C name stands for.\<close>

definition cname :: "converter \<Rightarrow> string \<Rightarrow> string \<times> u16" where
  "cname c name0 = (let name1 = trim_suffix ''@plt'' name0; pkg = cv_pkg c @ ''.'' in
     if has_suffix ''.goabi'' name1 then (trim_suffix ''.goabi'' name1, Goobj_Link.ABIInternal)
     else if name1 \<in> set (cv_libcallImpl c) then (pkg @ name1 @ ''.impl'', Goobj_Link.ABI0)
     else (let name = (case cv_goName c name1 of Some g \<Rightarrow> g | None \<Rightarrow> name1) in
       case cv_abiByGoSym c name of
         Some ab \<Rightarrow> (name, ab)
       | None \<Rightarrow>
           if name = ''llvm.trap'' \<or> name = ''llvm.trap.impl'' then (''runtime.abort'', Goobj_Link.ABI0)
           else if name = [] \<or> has_prefix pkg name then (name, Goobj_Link.ABI0)
           else (let base = trim_suffix ''.impl'' name; suffix = (if has_suffix ''.impl'' name then ''.impl'' else []) in
             if CHR ''.'' \<in> set base then (name, Goobj_Link.ABI0)
             else if suffix = ''.impl'' \<or> base \<in> set (cv_libcallImpl c) then (pkg @ base @ ''.impl'', Goobj_Link.ABI0)
             else (pkg @ base @ suffix, Goobj_Link.ABI0))))"

definition resolveCName :: "converter \<Rightarrow> string \<Rightarrow> cstate \<Rightarrow> sid \<times> cstate" where
  "resolveCName c name st = (let (n, abi) = cname c name in look n abi st)"

abbreviation (input) R_X86_64_64 :: u32 where "R_X86_64_64 \<equiv> 1"
abbreviation (input) R_X86_64_PC32 :: u32 where "R_X86_64_PC32 \<equiv> 2"
abbreviation (input) R_X86_64_PLT32 :: u32 where "R_X86_64_PLT32 \<equiv> 4"
abbreviation (input) R_X86_64_GOTPCREL :: u32 where "R_X86_64_GOTPCREL \<equiv> 9"
abbreviation (input) R_X86_64_32 :: u32 where "R_X86_64_32 \<equiv> 10"
abbreviation (input) R_X86_64_32S :: u32 where "R_X86_64_32S \<equiv> 11"
abbreviation (input) R_X86_64_GOTPCRELX :: u32 where "R_X86_64_GOTPCRELX \<equiv> 41"
abbreviation (input) R_X86_64_REX_GOTPCRELX :: u32 where "R_X86_64_REX_GOTPCRELX \<equiv> 42"

definition pcRelELF :: "u32 \<Rightarrow> bool" where
  "pcRelELF t \<longleftrightarrow> t \<in> set [R_X86_64_PC32, R_X86_64_PLT32, R_X86_64_GOTPCREL, R_X86_64_GOTPCRELX, R_X86_64_REX_GOTPCRELX]"

definition resolveTarget :: "converter \<Rightarrow> rela \<Rightarrow> cstate \<Rightarrow> (sid option \<times> i64 \<times> string) \<times> cstate" where
  "resolveTarget c r st = (let abs = (if \<not> cv_arm64 c \<and> pcRelELF (re_Type r) then re_Add r + 4 else re_Add r); k = unat (re_Sym r) - 1 in
     if re_Sym r = 0 \<or> k \<ge> length (cv_syms c) then ((None, 0, []), st)
     else (let es = cv_syms c ! k; sec = sy_Section es; nm = elf_symbol.sy_Name es in
       if sec = SHN_UNDEF then (let (s, st') = resolveCName c nm st in ((Some s, abs, nm), st'))
       else if isText c sec then (let addr = sy_Value es + abs in
         if sint addr < 0 then ((None, 0, nm), st)
         else (let ((ts, delta), st') = resolveText c sec addr st in ((ts, delta, nm), st')))
       else case cs_dataSym st k of
         Some ls \<Rightarrow> ((Some ls, abs, nm), st)
       | None \<Rightarrow> (case cs_secSym st sec of
           Some ls \<Rightarrow> ((Some ls, sy_Value es + abs, nm), st)
         | None \<Rightarrow> ((None, 0, nm), st))))"

definition set_kind :: "string \<Rightarrow> Sym \<Rightarrow> Sym" where
  "set_kind k y = y\<lparr>sy_Kind := k\<rparr>"

definition sym_op :: "sid \<Rightarrow> (Sym \<Rightarrow> link_err + Sym) \<Rightarrow> cstate \<Rightarrow> conv_err + cstate" where
  "sym_op s f st = (case f (sym_at (cs_ctxt st) s) of Inl e \<Rightarrow> Inl (LinkErr e) | Inr y \<Rightarrow> Inr (on_sym s (\<lambda>_. y) st))"

definition gotSlot :: "converter \<Rightarrow> sid \<Rightarrow> i64 \<Rightarrow> cstate \<Rightarrow> conv_err + (sid \<times> cstate)" where
  "gotSlot c target add st = (let nm = Sym.sy_Name (sym_at (cs_ctxt st) target); key = nm @ ''+'' @ dec_int (sint add) in
     case cs_gotSyms st key of
       Some ls \<Rightarrow> Inr (ls, st)
     | None \<Rightarrow> (let (ls, st1) = look (''goc.got.'' @ cv_tu c @ ''.'' @ sanitize nm) Goobj_Link.ABI0 st in
         sbind (link_op (Globl ls 8 NOPTR) (on_sym ls (set_kind ''SDATA'') st1)) (\<lambda>st2.
         sbind (sym_op ls (WriteInt 0 8 0) st2) (\<lambda>st3.
         Inr (ls, (on_sym ls (AddRel \<lparr>rl_Off = 0, rl_Siz = 8, rl_Type = ''R_ADDR'', rl_Add = add, rl_Sym = Some target\<rparr>) st3)
           \<lparr>cs_gotSyms := (cs_gotSyms st3)(key \<mapsto> ls)\<rparr>)))))"

section \<open>Relocation types (relocmap.go)\<close>

abbreviation (input) R_AARCH64_ABS64 :: u32 where "R_AARCH64_ABS64 \<equiv> 257"
abbreviation (input) R_AARCH64_ABS32 :: u32 where "R_AARCH64_ABS32 \<equiv> 258"
abbreviation (input) R_AARCH64_ADR_PREL_PG_HI21 :: u32 where "R_AARCH64_ADR_PREL_PG_HI21 \<equiv> 275"
abbreviation (input) R_AARCH64_ADD_ABS_LO12_NC :: u32 where "R_AARCH64_ADD_ABS_LO12_NC \<equiv> 277"
abbreviation (input) R_AARCH64_LDST8_ABS_LO12_NC :: u32 where "R_AARCH64_LDST8_ABS_LO12_NC \<equiv> 278"
abbreviation (input) R_AARCH64_JUMP26 :: u32 where "R_AARCH64_JUMP26 \<equiv> 282"
abbreviation (input) R_AARCH64_CALL26 :: u32 where "R_AARCH64_CALL26 \<equiv> 283"
abbreviation (input) R_AARCH64_LDST16_ABS_LO12_NC :: u32 where "R_AARCH64_LDST16_ABS_LO12_NC \<equiv> 284"
abbreviation (input) R_AARCH64_LDST32_ABS_LO12_NC :: u32 where "R_AARCH64_LDST32_ABS_LO12_NC \<equiv> 285"
abbreviation (input) R_AARCH64_LDST64_ABS_LO12_NC :: u32 where "R_AARCH64_LDST64_ABS_LO12_NC \<equiv> 286"
abbreviation (input) R_AARCH64_LDST128_ABS_LO12_NC :: u32 where "R_AARCH64_LDST128_ABS_LO12_NC \<equiv> 299"
abbreviation (input) R_AARCH64_ADR_GOT_PAGE :: u32 where "R_AARCH64_ADR_GOT_PAGE \<equiv> 311"
abbreviation (input) R_AARCH64_LD64_GOT_LO12_NC :: u32 where "R_AARCH64_LD64_GOT_LO12_NC \<equiv> 312"

definition X86Text :: "u32 \<rightharpoonup> string" where
  "X86Text = map_of [(R_X86_64_PC32, ''R_PCREL''), (R_X86_64_PLT32, ''R_PCREL''), (R_X86_64_32, ''R_ADDR''), (R_X86_64_32S, ''R_ADDR'')]"

definition X86Call :: string where "X86Call = ''R_CALL''"

definition X86Data :: "u32 \<rightharpoonup> string \<times> u8" where
  "X86Data = map_of [(R_X86_64_64, ''R_ADDR'', 8), (R_X86_64_32, ''R_ADDR'', 4), (R_X86_64_32S, ''R_ADDR'', 4),
     (R_X86_64_PC32, ''R_PCREL'', 4), (R_X86_64_PLT32, ''R_PCREL'', 4)]"

definition A64Call :: string where "A64Call = ''R_CALLARM64''"
definition A64Page :: string where "A64Page = ''R_ARM64_PCREL''"

definition A64PagePair :: "u32 \<rightharpoonup> string" where
  "A64PagePair = map_of [(R_AARCH64_ADD_ABS_LO12_NC, ''R_ADDRARM64''), (R_AARCH64_LDST8_ABS_LO12_NC, ''R_ARM64_PCREL_LDST8''),
     (R_AARCH64_LDST16_ABS_LO12_NC, ''R_ARM64_PCREL_LDST16''), (R_AARCH64_LDST32_ABS_LO12_NC, ''R_ARM64_PCREL_LDST32''),
     (R_AARCH64_LDST64_ABS_LO12_NC, ''R_ARM64_PCREL_LDST64'')]"

definition A64Lo12 :: "u32 \<rightharpoonup> string" where
  "A64Lo12 = map_of [(R_AARCH64_ADD_ABS_LO12_NC, ''R_ARM64_PCREL''), (R_AARCH64_LDST8_ABS_LO12_NC, ''R_ARM64_LDST8''),
     (R_AARCH64_LDST16_ABS_LO12_NC, ''R_ARM64_LDST16''), (R_AARCH64_LDST32_ABS_LO12_NC, ''R_ARM64_LDST32''),
     (R_AARCH64_LDST64_ABS_LO12_NC, ''R_ARM64_LDST64''), (R_AARCH64_LDST128_ABS_LO12_NC, ''R_ARM64_LDST128'')]"

definition A64GOTPair :: string where "A64GOTPair = ''R_ARM64_GOTPCREL''"

definition A64Data :: "u32 \<rightharpoonup> string \<times> u8" where
  "A64Data = map_of [(R_AARCH64_ABS64, ''R_ADDR'', 8), (R_AARCH64_ABS32, ''R_ADDR'', 4)]"

section \<open>The ABI profile of a release\<close>

definition int_reg :: "string \<Rightarrow> string \<Rightarrow> conv_err + string" where
  "int_reg goarch r = (if goarch = ''amd64'' then (case r of [] \<Rightarrow> Inl (GoPanic ''index out of range'') | ch # _ \<Rightarrow> Inr (if ch \<noteq> CHR ''R'' then CHR ''R'' # r else r))
     else Inr r)"

definition better :: "profile \<Rightarrow> profile option \<Rightarrow> profile \<Rightarrow> profile option" where
  "better got best p = (if SameFacts p got \<and> (case best of None \<Rightarrow> True | Some b \<Rightarrow> has_prefix ''goabi'' (pr_Name p) \<and> \<not> has_prefix ''goabi'' (pr_Name b))
     then Some p else best)"

definition profileFor :: "Meta \<Rightarrow> string \<Rightarrow> conv_err + profile" where
  "profileFor m goarch = (case me_Arch m goarch of
     None \<Rightarrow> Inl (NoArchFacts goarch)
   | Some a \<Rightarrow> if \<not> ar_StackCopyAdjustsFP a then Inl (NoFPAdjust goarch)
       else sbind (foldE (\<lambda>r rs. sbind (int_reg goarch r) (\<lambda>r'. Inr (rs @ [r']))) (ar_IntArgs a) []) (\<lambda>regs.
         let got = \<lparr>pr_Name = [], pr_Arch = goarch, pr_PtrSize = nat (ar_PtrSize a), pr_GReg = ar_GReg a,
               pr_StackGuard0Off = nat (geti (af_GOffsets (me_ABI m)) ''stackguard0''), pr_StackSmall = nat (af_StackSmall (me_ABI m)),
               pr_StackBig = nat (af_StackBig (me_ABI m)), pr_Morestack = ar_Morestack a, pr_IntRegs = regs, pr_FPRegs = ar_FloatArgs a\<rparr> in
         case foldl (better got) None profiles of None \<Rightarrow> Inl (NoProfile goarch) | Some p \<Rightarrow> Inr p))"

end
