(* ===== verification/Convert_Emit.thy ===== *)
theory Convert_Emit
  imports Convert
begin

text \<open>
  The converter's writers: \<open>emitData\<close> (\<open>data.go\<close>), \<open>arm64TextRelocs\<close> (\<open>arm64.go\<close>) and \<open>write\<close>
  (\<open>write.go\<close>), up to the link that \<open>goobj\<close> writes out.
\<close>

section \<open>Data sections\<close>

definition isDataSection :: "string \<Rightarrow> bool" where
  "isDataSection name \<longleftrightarrow> list_ex (\<lambda>p. has_prefix p name) [''.rodata'', ''.data'', ''.bss'', ''.sdata'', ''.sbss'', ''.tdata'', ''.tbss'']"

type_synonym name_ranges = "nat \<Rightarrow> (u64 \<times> u64 \<times> sid) list"

definition skip_global :: "converter \<Rightarrow> elf_symbol \<Rightarrow> bool" where
  "skip_global c es \<longleftrightarrow> (let secs = ef_Sections (cv_ef c); sec = sy_Section es; ty = ST_TYPE (sy_Info es); b = ST_BIND (sy_Info es) in
     sec = SHN_UNDEF \<or> sec \<ge> SHN_LORESERVE \<or> sec \<ge> length secs \<or> elf_symbol.sy_Size es = 0 \<or> elf_symbol.sy_Name es = [] \<or> isText c sec \<or>
     (ty \<noteq> STT_OBJECT \<and> ty \<noteq> STT_NOTYPE) \<or> (b \<noteq> STB_GLOBAL \<and> b \<noteq> STB_WEAK) \<or> es_Flags (secs ! sec) AND SHF_ALLOC = 0)"

text \<open>Declaring a data symbol with contents: the kind is set first, as in the source.\<close>

definition declare_data :: "sid \<Rightarrow> string option \<Rightarrow> int \<Rightarrow> int \<Rightarrow> byte list \<Rightarrow> cstate \<Rightarrow> conv_err + cstate" where
  "declare_data ls kind sz flag b st = sbind (link_op (Globl ls sz flag) (case kind of None \<Rightarrow> st | Some k \<Rightarrow> on_sym ls (set_kind k) st))
     (\<lambda>st'. Inr (on_sym ls (WriteBytes 0 b) st'))"

definition named_data :: "sid \<Rightarrow> elf_section \<Rightarrow> elf_symbol \<Rightarrow> cstate \<Rightarrow> conv_err + (bool \<times> cstate)" where
  "named_data ls sc es st =
     (if es_Type sc = SHT_NOBITS then sbind (link_op (Globl ls (sint (elf_symbol.sy_Size es)) NOPTR) st) (\<lambda>st'. Inr (True, st'))
      else case es_Data sc of
        None \<Rightarrow> Inl (NoData (sy_Section es))
      | Some b \<Rightarrow> if unat (sy_Value es + elf_symbol.sy_Size es) > length b then Inr (False, st)
          else case go_slice b (sy_Value es) (sy_Value es + elf_symbol.sy_Size es) of
            None \<Rightarrow> Inl (GoPanic ''slice bounds out of range'')
          | Some v \<Rightarrow> sbind (declare_data ls (Some ''SDATA'') (sint (elf_symbol.sy_Size es)) NOPTR v st) (\<lambda>st'. Inr (True, st')))"

definition emit_global :: "converter \<Rightarrow> nat \<times> elf_symbol \<Rightarrow> name_ranges \<times> cstate \<Rightarrow> conv_err + (name_ranges \<times> cstate)" where
  "emit_global c = (\<lambda>(i, es) (ranges, st). if skip_global c es then Inr (ranges, st)
     else (let sec = sy_Section es; (ls, st1) = look (cv_pkg c @ ''.'' @ elf_symbol.sy_Name es) Goobj_Link.ABI0 st in
       sbind (named_data ls (ef_Sections (cv_ef c) ! sec) es st1) (\<lambda>(done, st2).
         Inr (if done then (ranges(sec := ranges sec @ [(sy_Value es, sy_Value es + elf_symbol.sy_Size es, ls)]), st2\<lparr>cs_dataSym := (cs_dataSym st2)(i \<mapsto> ls)\<rparr>)
              else (ranges, st2)))))"

definition skip_section :: "converter \<Rightarrow> nat \<Rightarrow> elf_section \<Rightarrow> bool" where
  "skip_section c i sc \<longleftrightarrow> es_Flags sc AND SHF_ALLOC = 0 \<or> isText c i \<or> es_Size sc = 0 \<or>
     (es_Type sc \<noteq> SHT_PROGBITS \<and> es_Type sc \<noteq> SHT_NOBITS) \<or> \<not> isDataSection (es_Name sc)"

definition emit_section :: "converter \<Rightarrow> nat \<times> elf_section \<Rightarrow> cstate \<Rightarrow> conv_err + cstate" where
  "emit_section c = (\<lambda>(i, sc) st. if skip_section c i sc then Inr st
     else (let (ls, st1) = look (''goc.data.'' @ cv_tu c @ ''.'' @ sanitize (es_Name sc)) Goobj_Link.ABI0 st in
       sbind (if es_Type sc = SHT_NOBITS then link_op (Globl ls (sint (es_Size sc)) NOPTR) st1
              else case es_Data sc of
                None \<Rightarrow> Inl (NoData i)
              | Some b \<Rightarrow> if es_Flags sc AND SHF_WRITE \<noteq> 0 then declare_data ls (Some ''SDATA'') (int (length b)) NOPTR b st1
                  else declare_data ls None (int (length b)) (RODATA OR DUPOK) b st1)
         (\<lambda>st2. Inr (st2\<lparr>cs_secSym := (cs_secSym st2)(i \<mapsto> ls)\<rparr>))))"

section \<open>Jump tables\<close>

record tableBase =
  tb_sec :: nat
  tb_off :: u64
  tb_owner :: sid

fun code_rels :: "converter \<Rightarrow> nat list \<Rightarrow> conv_err + (nat \<times> rela) list" where
  "code_rels c [] = Inr []"
| "code_rels c (sec # secs) = sbind (relas c sec) (\<lambda>rs. sbind (code_rels c secs) (\<lambda>rest. Inr (map (Pair sec) rs @ rest)))"

definition text_pc32 :: "converter \<Rightarrow> rela \<Rightarrow> bool" where
  "text_pc32 c r \<longleftrightarrow> \<not> cv_arm64 c \<and> re_Type r = R_X86_64_PC32 \<and> re_Sym r > 0 \<and> unat (re_Sym r) - 1 < length (cv_syms c) \<and>
     isText c (sy_Section (cv_syms c ! (unat (re_Sym r) - 1)))"

text \<open>The offset in section \<open>i\<close> that a PC-relative code reference names, if a jump table starts there.\<close>

definition table_at :: "converter \<Rightarrow> nat \<Rightarrow> (u64 \<Rightarrow> bool) \<Rightarrow> rela \<Rightarrow> u64 option" where
  "table_at c i pcTextAt r = (let k = unat (re_Sym r) - 1 in
     if cv_arm64 c \<or> re_Type r \<noteq> R_X86_64_PC32 \<or> re_Sym r = 0 \<or> k \<ge> length (cv_syms c) then None
     else (let es = cv_syms c ! k; base = sy_Value es + re_Add r + 4 in
       if sy_Section es \<noteq> i \<or> sint base < 0 \<or> \<not> pcTextAt base then None else Some base))"

definition find_table :: "converter \<Rightarrow> nat \<Rightarrow> (u64 \<Rightarrow> bool) \<Rightarrow> nat \<times> rela \<Rightarrow> tableBase list \<times> cstate \<Rightarrow> conv_err + (tableBase list \<times> cstate)" where
  "find_table c i pcTextAt = (\<lambda>(sec, r) (tables, st). case table_at c i pcTextAt r of
     None \<Rightarrow> Inr (tables, st)
   | Some base \<Rightarrow> (let ((owner, _), st') = resolveText c sec (re_Off r) st in
       case owner of
         None \<Rightarrow> Inl (NoOwner i (sint base))
       | Some ow \<Rightarrow> Inr (tables @ [\<lparr>tb_sec = sec, tb_off = base, tb_owner = ow\<rparr>], st')))"

fun two_owners :: "tableBase list \<Rightarrow> u64 option" where
  "two_owners (a # b # ts) = (if tb_off a = tb_off b \<and> tb_owner a \<noteq> tb_owner b then Some (tb_off b) else two_owners (b # ts))"
| "two_owners ts = None"

text \<open>The table an entry belongs to: the last one that starts at or before it. The tables are sorted, so
  \<open>sort.Search\<close> finds the number of them.\<close>

definition table_of :: "tableBase list \<Rightarrow> u64 \<Rightarrow> tableBase option" where
  "table_of tables off = (let ts = takeWhile (\<lambda>t. \<not> tb_off t > off) tables in if ts = [] then None else Some (last ts))"

definition entry_target :: "converter \<Rightarrow> nat \<Rightarrow> tableBase list \<Rightarrow> rela \<Rightarrow> cstate \<Rightarrow> conv_err + ((sid option \<times> i64 \<times> string) \<times> cstate)" where
  "entry_target c i tables r st = (case table_of tables (re_Off r) of
     None \<Rightarrow> Inl (NoBase i (re_Off r))
   | Some t \<Rightarrow> if re_Sym r = 0 \<or> unat (re_Sym r) - 1 \<ge> length (cv_syms c) then Inl (GoPanic ''index out of range'')
       else (let idx = re_Off r - tb_off t; es = cv_syms c ! (unat (re_Sym r) - 1); actual = sy_Value es + re_Add r - idx in
       if sint actual < 0 then Inl (NegTarget i (re_Off r))
       else (let ((target, delta), st') = resolveText c (sy_Section es) actual st in
         if target \<noteq> Some (tb_owner t) then Inl (OtherFunction i (re_Off r))
         else Inr ((target, delta + idx + 4, Sym.sy_Name (sym_at (cs_ctxt st') (tb_owner t))), st'))))"

section \<open>Relocations of data\<close>

definition pad_data :: "Sym \<Rightarrow> Sym" where
  "pad_data y = ((\<lambda>y. case WriteInt (length (sy_P y)) 1 0 y of Inr y' \<Rightarrow> y' | Inl _ \<Rightarrow> y) ^^ (nat (Sym.sy_Size y) - length (sy_P y))) y"

definition host_of :: "name_ranges \<Rightarrow> nat \<Rightarrow> sid \<Rightarrow> u64 \<Rightarrow> sid \<times> u64" where
  "host_of ranges i ls off = (case find (\<lambda>(lo, hi, _). lo \<le> off \<and> off < hi) (ranges i) of
     None \<Rightarrow> (ls, off) | Some (lo, _, s) \<Rightarrow> (s, off - lo))"

definition data_target :: "converter \<Rightarrow> nat \<Rightarrow> sid \<Rightarrow> (u64 \<Rightarrow> bool) \<Rightarrow> tableBase list \<Rightarrow> rela \<Rightarrow> cstate \<Rightarrow> conv_err + ((sid option \<times> i64 \<times> string) \<times> cstate)" where
  "data_target c i ls pcTextAt tables r st =
     (if pcTextAt (re_Off r) then entry_target c i tables r st
      else if re_Sym r = 0 then Inr ((Some ls, re_Add r, es_Name (ef_Sections (cv_ef c) ! i)), st)
      else Inr (resolveTarget c r st))"

definition data_reloc :: "converter \<Rightarrow> name_ranges \<Rightarrow> nat \<Rightarrow> sid \<Rightarrow> (u64 \<Rightarrow> bool) \<Rightarrow> tableBase list \<Rightarrow> rela \<Rightarrow> cstate \<Rightarrow> conv_err + cstate" where
  "data_reloc c ranges i ls pcTextAt tables r st = sbind (data_target c i ls pcTextAt tables r st) (\<lambda>((target, add, ename), st').
     case target of
       None \<Rightarrow> Inl (UnresolvedData i (re_Off r) ename)
     | Some t \<Rightarrow> (case (if cv_arm64 c then A64Data (re_Type r) else X86Data (re_Type r)) of
         None \<Rightarrow> Inl (BadDataType (re_Type r) i (re_Off r))
       | Some (typ, siz) \<Rightarrow> (let (host, off) = host_of ranges i ls (re_Off r) in
           Inr (on_sym host (AddRel \<lparr>rl_Off = ucast off, rl_Siz = siz, rl_Type = typ, rl_Add = add, rl_Sym = Some t\<rparr>) st'))))"

definition section_relocs :: "converter \<Rightarrow> name_ranges \<Rightarrow> (nat \<times> rela) list \<Rightarrow> nat \<Rightarrow> cstate \<Rightarrow> conv_err + cstate" where
  "section_relocs c ranges codeRels i st = (case cs_secSym st i of
     None \<Rightarrow> Inr st
   | Some ls \<Rightarrow> sbind (relas c i) (\<lambda>rs. if rs = [] then Inr st else
       (let pcTextAt = (\<lambda>off. off \<in> set (map re_Off (filter (text_pc32 c) rs))) in
        sbind (foldE (find_table c i pcTextAt) codeRels ([], on_sym ls pad_data st)) (\<lambda>(ts, st1).
        let tables = sort_key tb_off ts in
        case two_owners tables of
          Some off \<Rightarrow> Inl (TwoOwners i off)
        | None \<Rightarrow> foldE (data_reloc c ranges i ls pcTextAt tables) rs st1))))"

definition emitData :: "converter \<Rightarrow> cstate \<Rightarrow> conv_err + cstate" where
  "emitData c st =
     sbind (foldE (emit_global c) (enumerate 0 (cv_syms c)) (\<lambda>_. [], st)) (\<lambda>(ranges, st1).
     sbind (foldE (emit_section c) (enumerate 0 (ef_Sections (cv_ef c))) st1) (\<lambda>st2.
     sbind (code_rels c (textSecs c)) (\<lambda>codeRels.
     foldE (section_relocs c ranges codeRels) [0..<length (ef_Sections (cv_ef c))] st2)))"

section \<open>arm64 text\<close>

definition insnAt :: "byte list \<Rightarrow> nat \<Rightarrow> u32" where
  "insnAt b off = un_le32 (drop off b)"

definition putInsnAt :: "byte list \<Rightarrow> nat \<Rightarrow> u32 \<Rightarrow> byte list" where
  "putInsnAt b off w = overwrite off (le32 w) b"

definition clear_bits :: "u32 \<Rightarrow> nat \<Rightarrow> byte list \<Rightarrow> byte list" where
  "clear_bits m off b = putInsnAt b off (insnAt b off AND NOT m)"

text \<open>\<open>arm64ClearPagePair\<close>; both instructions must lie in the code, otherwise the source panics.\<close>

definition arm64ClearPagePair :: "byte list \<Rightarrow> nat \<Rightarrow> byte list option" where
  "arm64ClearPagePair code off = (if off + 8 > length code then None else
     (let code' = clear_bits 0x60FFFFE0 off code; w1 = insnAt code' (off + 4) AND NOT 0x003FFC00;
          w1' = (if drop_bit 24 w1 = 0x91 then w1 AND NOT (push_bit 22 1) else w1) in
      Some (putInsnAt code' (off + 4) w1')))"

definition set_P :: "byte list \<Rightarrow> Sym \<Rightarrow> Sym" where
  "set_P p y = y\<lparr>sy_P := p\<rparr>"

definition a64_lo12 :: "u32 \<Rightarrow> bool" where
  "a64_lo12 t \<longleftrightarrow> t \<in> set [R_AARCH64_ADD_ABS_LO12_NC, R_AARCH64_LDST8_ABS_LO12_NC, R_AARCH64_LDST16_ABS_LO12_NC,
     R_AARCH64_LDST32_ABS_LO12_NC, R_AARCH64_LDST64_ABS_LO12_NC, R_AARCH64_LDST128_ABS_LO12_NC]"

text \<open>One ADRP pair: the type of the relocation that covers both halves. \<open>next\<close> is the relocation on the following instruction.\<close>

definition page_pair :: "string \<Rightarrow> nat \<Rightarrow> rela \<Rightarrow> rela option \<Rightarrow> (u32 \<rightharpoonup> string) \<Rightarrow> byte list \<Rightarrow> conv_err + (string \<times> byte list)" where
  "page_pair nm off r nxt want p = (case nxt of
     None \<Rightarrow> Inl (NoLow12 nm (int off))
   | Some n \<Rightarrow> (case want (re_Type n) of
       None \<Rightarrow> Inl (BadLow12 nm (int off) (re_Type n))
     | Some typ \<Rightarrow> if re_Sym n \<noteq> re_Sym r \<or> re_Add n \<noteq> re_Add r then Inl (PairDiffers nm (int off))
         else (case arm64ClearPagePair p off of None \<Rightarrow> Inl (GoPanic ''index out of range'') | Some p' \<Rightarrow> Inr (typ, p'))))"

text \<open>What one relocation does to the code of the function: the new bytes, the relocation's type and
  width, its addend, and whether the next relocation is used up.\<close>

definition arm64_step :: "string \<Rightarrow> nat \<Rightarrow> rela \<Rightarrow> rela option \<Rightarrow> i64 \<Rightarrow> byte list \<Rightarrow> conv_err + (byte list \<times> string \<times> u8 \<times> i64 \<times> bool)" where
  "arm64_step nm off r nxt add p = (let t = re_Type r in
     if t = R_AARCH64_CALL26 \<or> t = R_AARCH64_JUMP26 then
       (if add \<noteq> 0 then Inl (CallAddend nm (word_of_nat off) add) else Inr (clear_bits 0x03ffffff off p, A64Call, 4, 0, False))
     else if t = R_AARCH64_ADR_PREL_PG_HI21 then
       (let nxt' = (case nxt of None \<Rightarrow> None | Some n \<Rightarrow> if A64PagePair (re_Type n) = None then None else Some n) in
        case nxt' of
          None \<Rightarrow> Inr (clear_bits 0x60FFFFE0 off p, A64Page, 4, add, False)
        | Some n \<Rightarrow> if re_Sym n \<noteq> re_Sym r \<or> re_Add n \<noteq> re_Add r then Inr (clear_bits 0x60FFFFE0 off p, A64Page, 4, add, False)
            else sbind (page_pair nm off r nxt' A64PagePair p) (\<lambda>(typ, p'). Inr (p', typ, 8, add, True)))
     else if t = R_AARCH64_ADR_GOT_PAGE then
       sbind (page_pair nm off r nxt (\<lambda>u. if u = R_AARCH64_LD64_GOT_LO12_NC then Some A64GOTPair else None) p) (\<lambda>(_, p'). Inr (p', A64GOTPair, 8, add, True))
     else if a64_lo12 t then
       (let w = insnAt p off AND NOT 0x003FFC00; w' = (if t = R_AARCH64_ADD_ABS_LO12_NC then w AND NOT (push_bit 22 1) else w) in
        Inr (putInsnAt p off w', (case A64Lo12 t of Some ty \<Rightarrow> ty | None \<Rightarrow> []), 4, add, False))
     else if t = R_AARCH64_ABS64 \<or> t = R_AARCH64_ABS32 then
       (case A64Data t of Some (ty, siz) \<Rightarrow> Inr (p, ty, siz, add, False) | None \<Rightarrow> Inr (p, [], 0, add, False))
     else Inl (BadTextType t nm (word_of_nat off)))"

fun arm64_relocs :: "converter \<Rightarrow> fn \<Rightarrow> bool \<Rightarrow> rela list \<Rightarrow> cstate \<Rightarrow> conv_err + cstate" where
  "arm64_relocs c x used [] st = Inr st"
| "arm64_relocs c x used (r # rs) st = (if used then arm64_relocs c x False rs st
     else (let s = fn_sym st x; y = sym_at (cs_ctxt st) s; nm = Sym.sy_Name y; off = unat (re_Off r - fx_off x) in
       if off mod 4 \<noteq> 0 \<or> off + 4 > length (sy_P y) then Inl (NotOnInsn nm (int off))
       else (let ((target, add, ename), st1) = resolveTarget c r st in
         case target of
           None \<Rightarrow> Inl (Unresolved nm (word_of_nat off) ename)
         | Some t \<Rightarrow>
             sbind (arm64_step nm off r (case rs of [] \<Rightarrow> None | n # _ \<Rightarrow> if re_Off n = re_Off r + 4 then Some n else None) add (sy_P (sym_at (cs_ctxt st1) s)))
             (\<lambda>(p, typ, siz, add', used').
               arm64_relocs c x used' rs (on_sym s (\<lambda>y. AddRel \<lparr>rl_Off = word_of_nat off, rl_Siz = siz, rl_Type = typ, rl_Add = add', rl_Sym = Some t\<rparr> (set_P p y)) st1)))))"

definition arm64TextRelocs :: "converter \<Rightarrow> fn \<Rightarrow> rela list \<Rightarrow> cstate \<Rightarrow> conv_err + cstate" where
  "arm64TextRelocs c x rs = arm64_relocs c x False (sort_key re_Off (filter (\<lambda>r. in_fn (re_Off r) x) rs))"

section \<open>write\<close>

text \<open>\<open>strings.Split(s, ",")\<close>\<close>

fun split_comma :: "string \<Rightarrow> string \<Rightarrow> string list" where
  "split_comma cur [] = [rev cur]"
| "split_comma cur (ch # s) = (if ch = CHR '','' then rev cur # split_comma [] s else split_comma (ch # cur) s)"

definition headerExperiments :: "string \<Rightarrow> string list" where
  "headerExperiments h = concat (map (\<lambda>f. if length f > 2 \<and> take 2 f = ''X:'' then split_comma [] (drop 2 f) else []) (Fields h))"

text \<open>The file table: the index of every file of the tables; \<open>AddFile\<close> gives a repeated name its first index.\<close>

fun add_files :: "string list \<Rightarrow> Link \<Rightarrow> nat list \<times> Link" where
  "add_files [] l = ([], l)"
| "add_files (f # fs) l = (let (i, l1) = AddFile f l; (is, l2) = add_files fs l1 in (i # is, l2))"

definition file_names :: "gfile \<Rightarrow> string list" where
  "file_names f = (case gf_Files f of [] \<Rightarrow> [''goc''] | s # ss \<Rightarrow> (if s = [] then ''goc'' else s) # ss)"

definition goFile :: "nat list \<Rightarrow> i64 \<Rightarrow> i64" where
  "goFile fileIdx i = (if sint i < 0 \<or> sint i \<ge> int (length fileIdx) then 0 else word_of_nat (fileIdx ! nat (sint i)))"

fun look_fns :: "converter \<Rightarrow> fn list \<Rightarrow> Link \<Rightarrow> sid list \<times> Link" where
  "look_fns c [] l = ([], l)"
| "look_fns c (x # xs) l = (let (s, l1) = LookupABI (case cv_goName c (fx_name x) of Some g \<Rightarrow> g | None \<Rightarrow> []) (fx_abi x) l; (ss, l2) = look_fns c xs l1 in (s # ss, l2))"

definition pctab :: "int \<Rightarrow> pcentry list \<Rightarrow> cstate \<Rightarrow> sid \<times> cstate" where
  "pctab sz ents st = (let l = cs_ctxt st; (s, l') = Pctab (pcbytes (ar_MinLC (lk_Arch l)) sz ents) l in (s, st\<lparr>cs_ctxt := l'\<rparr>))"

definition inlSym :: "converter \<Rightarrow> string \<Rightarrow> cstate \<Rightarrow> sid \<times> cstate" where
  "inlSym c name st = (case cv_goName c name of
     Some gn \<Rightarrow> look gn (case cv_abiByGoSym c gn of Some a \<Rightarrow> a | None \<Rightarrow> Goobj_Link.ABI0) st
   | None \<Rightarrow> look (cv_pkg c @ ''.'' @ cv_tu c @ ''.'' @ name) Goobj_Link.ABI0 st)"

text \<open>One stack map blob of a function.\<close>

definition emit_blob :: "sid \<Rightarrow> int \<times> string \<times> byte list \<Rightarrow> cstate \<Rightarrow> conv_err + cstate" where
  "emit_blob s = (\<lambda>(kind, name, blob) st. let (ms, st1) = look name Goobj_Link.ABI0 st in
     sbind (declare_data ms None (int (length blob)) (RODATA OR DUPOK) blob st1) (\<lambda>st2. link_op (Funcdata s kind ms) st2))"

definition fn_blobs :: "Meta \<Rightarrow> string \<Rightarrow> func \<Rightarrow> (int \<times> string \<times> byte list) list" where
  "fn_blobs m nm t = (let fd = geti (af_Funcdata (me_ABI m)) in case fn_GC t of
     None \<Rightarrow> []
   | Some g \<Rightarrow> (let (args, locals, _) = stackmaps g in
       [(fd ''ArgsPointerMaps'', ''gclocals.goc.'' @ nm @ ''.args'', args), (fd ''LocalsPointerMaps'', ''gclocals.goc.'' @ nm @ ''.locals'', locals)]))"

definition init_fn :: "converter \<Rightarrow> fn \<Rightarrow> cstate \<Rightarrow> conv_err + cstate" where
  "init_fn c x st = (let t = fx_tab x; s = fn_sym st x; nm = Sym.sy_Name (sym_at (cs_ctxt st) s) in
     sbind (link_op (InitText s (if fn_Flags t AND FuncNosplit \<noteq> 0 then TextNoSplit else 0)) st) (\<lambda>st1.
     sbind (foldE (emit_blob s) (fn_blobs (lk_Meta (cs_ctxt st)) nm t) st1) (link_op (PCDATA s))))"

text \<open>Stubs for the functions that are inlined everywhere, with the line each starts at.\<close>

definition add_stub :: "converter \<Rightarrow> inlnode \<Rightarrow> (sid \<times> u64) list \<times> cstate \<Rightarrow> conv_err + ((sid \<times> u64) list \<times> cstate)" where
  "add_stub c n = (\<lambda>(stubs, st). if cv_goName c (inlnode.in_Func n) \<noteq> None then Inr (stubs, st)
     else (let (ls, st1) = inlSym c (inlnode.in_Func n) st in
       if sy_Func (sym_at (cs_ctxt st1) ls) \<noteq> None then Inr (stubs, st1)
       else sbind (link_op (InitText ls (TextNoSplit OR TextDupok)) st1) (\<lambda>st2. Inr (stubs @ [(ls, in_StartLine n)], st2))))"

definition inl_nodes :: "fn \<Rightarrow> inlnode list" where
  "inl_nodes x = (case fn_Inl (fx_tab x) of None \<Rightarrow> [] | Some ns \<Rightarrow> ns)"

text \<open>Empty pc tables for the unset slots of \<open>Pcdata\<close>.\<close>

fun fill_pcdata :: "sid option list \<Rightarrow> cstate \<Rightarrow> sid option list \<times> cstate" where
  "fill_pcdata [] st = ([], st)"
| "fill_pcdata (d # ds) st = (case d of
     Some s \<Rightarrow> (let (ds', st') = fill_pcdata ds st in (Some s # ds', st'))
   | None \<Rightarrow> (let (s, st1) = pctab 0 [] st; (ds', st') = fill_pcdata ds st1 in (Some s # ds', st')))"

definition row :: "i64 \<Rightarrow> pcentry list" where
  "row v = [\<lparr>pc_PC = 0, pc_Value = v\<rparr>]"

definition set_code :: "byte list \<Rightarrow> Sym \<Rightarrow> Sym" where
  "set_code p y = y\<lparr>sy_P := p, Sym.sy_Size := int (length p)\<rparr>"

definition pcStackMap :: "cstate \<Rightarrow> int" where
  "pcStackMap st = geti (af_Pcdata (me_ABI (lk_Meta (cs_ctxt st)))) ''StackMapIndex''"

definition emit_stub :: "converter \<Rightarrow> sid \<times> u64 \<Rightarrow> cstate \<Rightarrow> conv_err + cstate" where
  "emit_stub c = (\<lambda>(s, line) st. let p = (if cv_arm64 c then [0, 0, 0x20, 0xd4] else [0xcc]); sz = int (length p) in
     if pcStackMap st + 1 < 0 then Inl (GoPanic ''makeslice: len out of range'')
     else (let (ds, st1) = fill_pcdata (replicate (nat (pcStackMap st + 1)) None) (on_sym s (set_code p) st);
               (sp, st2) = pctab sz (row 0) st1; (fl, st3) = pctab sz (row 0) st2; (ln, st4) = pctab sz (row line) st3 in
       on_func s (\<lambda>fi. fi\<lparr>fi_StartLine := ucast line, fi_Pcdata := ds, fi_Pcsp := Some sp, fi_Pcfile := Some fl, fi_Pcline := Some ln, fi_UsedFiles := [0]\<rparr>) st4))"

definition callAt :: "converter \<Rightarrow> string \<Rightarrow> u64 \<Rightarrow> bool" where
  "callAt c name off \<longleftrightarrow> list_ex (\<lambda>r. rl_Kind r = RCall \<and> rl_Func r = name \<and> rl_Offset r = off) (gf_Relocs (cv_f c))"

definition gotType :: "u32 \<Rightarrow> bool" where
  "gotType ty \<longleftrightarrow> ty = R_X86_64_GOTPCREL \<or> ty = R_X86_64_GOTPCRELX \<or> ty = R_X86_64_REX_GOTPCRELX"

text \<open>One amd64 relocation of a function.\<close>

definition x86_reloc :: "converter \<Rightarrow> fn \<Rightarrow> rela \<Rightarrow> cstate \<Rightarrow> conv_err + cstate" where
  "x86_reloc c x r st = (if \<not> in_fn (re_Off r) x then Inr st
     else (let s = fn_sym st x; off = re_Off r - fx_off x; nm = Sym.sy_Name (sym_at (cs_ctxt st) s); ((target, goAdd, ename), st1) = resolveTarget c r st in
       case target of
         None \<Rightarrow> Inl (Unresolved nm off ename)
       | Some t \<Rightarrow>
           sbind (if gotType (re_Type r) then sbind (gotSlot c t goAdd st1) (\<lambda>(g, st2). Inr (g, 0, R_X86_64_PC32, st2)) else Inr (t, goAdd, re_Type r, st1))
           (\<lambda>(t', add, ty, st2). case X86Text ty of
              None \<Rightarrow> Inl (BadTextType (re_Type r) nm off)
            | Some typ \<Rightarrow> (let call = (ty = R_X86_64_PLT32 \<or> ty = R_X86_64_PC32) \<and> callAt c (fx_name x) off in
                if call \<and> add \<noteq> 0 then Inl (CallAddend nm off add)
                else if sint (re_Add r) < - (2 ^ 31) \<or> sint (re_Add r) > 2 ^ 31 - 1 then Inl (AddendRange nm off (re_Add r))
                else Inr (on_sym s (AddRel \<lparr>rl_Off = ucast off, rl_Siz = 4, rl_Type = (if call then X86Call else typ), rl_Add = add, rl_Sym = Some t'\<rparr>) st2)))))"

definition set_pcdata :: "int \<Rightarrow> sid \<Rightarrow> sid option list \<Rightarrow> conv_err + sid option list" where
  "set_pcdata i s ds = (if 0 \<le> i \<and> nat i < length ds then Inr (ds[nat i := Some s]) else Inl (GoPanic ''index out of range''))"

text \<open>The inlining tree.\<close>

fun inl_tree :: "converter \<Rightarrow> nat list \<Rightarrow> inlnode list \<Rightarrow> cstate \<Rightarrow> conv_err + (InlNode list \<times> cstate)" where
  "inl_tree c fileIdx [] st = Inr ([], st)"
| "inl_tree c fileIdx (n # ns) st = (let k = min (sint (inlnode.in_File n)) (int (length fileIdx) - 1) in
     if k < 0 then Inl (GoPanic ''index out of range'')
     else (let (f, st1) = inlSym c (inlnode.in_Func n) st in
       sbind (inl_tree c fileIdx ns st1) (\<lambda>(ns', st2).
         Inr (InlNode.make (ucast (inlnode.in_Parent n)) (word_of_nat (fileIdx ! nat k)) (ucast (inlnode.in_Line n)) (Some f) (ucast (inlnode.in_ParentPC n)) # ns', st2))))"

text \<open>Real files and lines, when the function has both tables.\<close>

definition line_tables :: "converter \<Rightarrow> nat list \<Rightarrow> fn \<Rightarrow> sid \<Rightarrow> int \<Rightarrow> cstate \<Rightarrow> conv_err + cstate" where
  "line_tables c fileIdx x s sz st = (let t = fx_tab x; ft = pcTable t PCFile; lt = pcTable t PCLine in
     if ft = [] \<or> lt = [] then Inr st
     else (let gf = map (\<lambda>e. \<lparr>pc_PC = pc_PC e, pc_Value = goFile fileIdx (pc_Value e)\<rparr>) ft; (fl, st1) = pctab sz gf st; (ln, st2) = pctab sz lt st1 in
       sbind (inl_tree c fileIdx (inl_nodes x) st2) (\<lambda>(tree, st3).
       sbind (on_func s (\<lambda>fi. fi\<lparr>fi_UsedFiles := remdups (map (\<lambda>e. ucast (pc_Value e)) gf), fi_Pcfile := Some fl, fi_Pcline := Some ln, fi_InlTree := tree\<rparr>) st3) (\<lambda>st4.
       let it = pcTable t PCInlIndex in
       if it = [] \<or> inl_nodes x = [] then Inr st4
       else (let (pi, st5) = pctab sz it st4 in on_func s (\<lambda>fi. fi\<lparr>fi_Pcinline := Some pi\<rparr>) st5)))))"

definition func_tables :: "converter \<Rightarrow> nat list \<Rightarrow> fn \<Rightarrow> cstate \<Rightarrow> conv_err + cstate" where
  "func_tables c fileIdx x st = (let t = fx_tab x; s = fn_sym st x; y = sym_at (cs_ctxt st) s; sz = Sym.sy_Size y; need' = nat (pcStackMap st + 1);
       pcUnsafe = geti (af_Pcdata (me_ABI (lk_Meta (cs_ctxt st)))) ''UnsafePoint'' in
     case sy_Func y of
       None \<Rightarrow> Inl (GoPanic ''nil FuncInfo'')
     | Some fi \<Rightarrow>
         (let (ds, st1) = fill_pcdata (fi_Pcdata fi @ replicate (need' - length (fi_Pcdata fi)) None)
                (on_sym s (\<lambda>y. y\<lparr>sy_NoSplit := (fn_Flags t AND FuncNosplit \<noteq> 0)\<rparr>) st);
              spt = pcTable t PCSPDelta; (sp, st2) = pctab sz (if spt \<noteq> [] then spt else row (fn_FrameSize t)) st1; up = pcTable t PCUnsafePoint in
          sbind (if up \<noteq> [] then (let (u, st3) = pctab sz up st2 in sbind (set_pcdata pcUnsafe u ds) (\<lambda>ds'. Inr (ds', st3))) else Inr (ds, st2)) (\<lambda>(ds1, st3).
          let (sm, st4) = pctab sz (case fn_GC t of None \<Rightarrow> [] | Some g \<Rightarrow> snd (snd (stackmaps g))) st3 in
          sbind (set_pcdata (pcStackMap st) sm ds1) (\<lambda>ds2.
          let (fl, st5) = pctab sz (row 1) st4; (ln, st6) = pctab sz (row 1) st5 in
          sbind (on_func s (\<lambda>fi. fi\<lparr>fi_Locals := ucast (fn_FrameSize t), fi_Args := ucast (fn_ArgSize t), fi_Pcdata := ds2, fi_Pcsp := Some sp,
              fi_Pcfile := Some fl, fi_Pcline := Some ln, fi_StartLine := (if fn_StartLine t \<noteq> 0 then ucast (fn_StartLine t) else fi_StartLine fi)\<rparr>) st6) (\<lambda>st7.
          line_tables c fileIdx x s sz st7)))))"

definition emit_fn :: "converter \<Rightarrow> nat list \<Rightarrow> rela list \<Rightarrow> byte list \<Rightarrow> fn \<Rightarrow> cstate \<Rightarrow> conv_err + cstate" where
  "emit_fn c fileIdx rs d x st = (case go_slice d (fx_off x) (fx_off x + fn_TextSize (fx_tab x)) of
     None \<Rightarrow> Inl (GoPanic ''slice bounds out of range'')
   | Some p \<Rightarrow> (let st1 = on_sym (fn_sym st x) (\<lambda>y. (set_code p y)\<lparr>sy_R := []\<rparr>) st in
       sbind (if cv_arm64 c then arm64TextRelocs c x rs st1 else foldE (x86_reloc c x) rs st1) (func_tables c fileIdx x)))"

definition emit_text :: "converter \<Rightarrow> nat list \<Rightarrow> nat \<Rightarrow> cstate \<Rightarrow> conv_err + cstate" where
  "emit_text c fileIdx sec st = sbind (relas c sec) (\<lambda>rs. case es_Data (ef_Sections (cv_ef c) ! sec) of
     None \<Rightarrow> Inl (NoData sec)
   | Some d \<Rightarrow> foldE (emit_fn c fileIdx rs d) (bySec c sec) st)"

text \<open>Everything up to the link that is written.\<close>

definition convert_link :: "converter \<Rightarrow> Meta \<Rightarrow> string \<Rightarrow> conv_err + cstate" where
  "convert_link c meta header = (case NewLink meta (if cv_arm64 c then ''arm64'' else ''amd64'') (cv_pkg c) of
     Inl e \<Rightarrow> Inl (LinkErr e)
   | Inr l0 \<Rightarrow> (let exps = headerExperiments header;
         l1 = l0\<lparr>lk_Dwarf5 := (''dwarf5'' \<in> set exps), lk_RegabiWrappers := (''regabiwrappers'' \<in> set exps)\<rparr>;
         (fileIdx, l2) = add_files (file_names (cv_f c)) l1; (syms, l3) = look_fns c (cv_fns c) l2;
         n = length (cv_fns c) + length (remdups (map fx_name (cv_fns c)));
         st0 = \<lparr>cs_ctxt = l3\<lparr>lk_DwTextCount := int n\<rparr>, cs_sym = syms, cs_dataSym = Map.empty, cs_secSym = Map.empty, cs_gotSyms = Map.empty\<rparr> in
       sbind (emitData c st0) (\<lambda>st1.
       sbind (foldE (init_fn c) (cv_fns c) st1) (\<lambda>st2.
       sbind (foldE (add_stub c) (concat (map inl_nodes (cv_fns c))) ([], st2)) (\<lambda>(stubs, st3).
       sbind (link_op Flush st3) (\<lambda>st4.
       sbind (foldE (emit_stub c) stubs st4) (\<lambda>st5.
       foldE (emit_text c fileIdx) (textSecs c) st5)))))))"

definition cv_write :: "converter \<Rightarrow> Meta \<Rightarrow> string \<Rightarrow> conv_err + byte list" where
  "cv_write c meta header = sbind (convert_link c meta header) (\<lambda>st. case Write (cs_ctxt st) header of Inl e \<Rightarrow> Inl (LinkErr e) | Inr b \<Rightarrow> Inr b)"

end
