(* ===== verification/Convert_Wf.thy ===== *)
theory Convert_Wf
  imports Goobj_Inv Convert_Emit
begin

text \<open>
  The converter keeps the invariant of the link: every symbol it hands around exists, and it changes
  the contents of a listed symbol only when it is that symbol's turn.
\<close>

section \<open>The converter's state\<close>

definition nsyms :: "cstate \<Rightarrow> nat" where
  "nsyms st = length (lk_store (cs_ctxt st))"

definition cs_wf :: "cstate \<Rightarrow> bool" where
  "cs_wf st \<longleftrightarrow> link_wf (cs_ctxt st) \<and> (\<forall>s\<in>set (cs_sym st). s < nsyms st) \<and> (\<forall>i s. cs_dataSym st i = Some s \<longrightarrow> s < nsyms st) \<and>
     (\<forall>i s. cs_secSym st i = Some s \<longrightarrow> s < nsyms st) \<and> (\<forall>k s. cs_gotSyms st k = Some s \<longrightarrow> s < nsyms st)"

definition steps :: "sid set \<Rightarrow> cstate \<Rightarrow> cstate \<Rightarrow> bool" where
  "steps S st st' \<longleftrightarrow> cs_wf st' \<and> frame S (cs_ctxt st) (cs_ctxt st') \<and> cs_sym st' = cs_sym st"

lemma steps_refl: "cs_wf st \<Longrightarrow> steps S st st"
  by (simp add: steps_def)

lemma steps_trans: "steps S st st' \<Longrightarrow> steps S st' st'' \<Longrightarrow> steps S st st''"
  unfolding steps_def using frame_trans1 by metis

lemma steps_mono: "steps S st st' \<Longrightarrow> S \<subseteq> T \<Longrightarrow> steps T st st'"
  unfolding steps_def using frame_mono by blast

lemma steps_wf: "steps S st st' \<Longrightarrow> cs_wf st'"
  by (simp add: steps_def)

lemma steps_len: "steps S st st' \<Longrightarrow> s < nsyms st \<Longrightarrow> s < nsyms st'"
  by (simp add: steps_def nsyms_def frame_def)

lemma steps_foldE:
  assumes "foldE f xs st = Inr st'" "cs_wf st" "\<And>x a b. x \<in> set xs \<Longrightarrow> steps S st a \<Longrightarrow> f x a = Inr b \<Longrightarrow> steps S a b"
  shows "steps S st st'"
  by (rule foldE_inv [where P = "steps S st", OF assms(1) steps_refl [OF assms(2)]]) (blast intro: steps_trans assms(3))

lemma ctxt_steps:
  assumes "cs_wf st" "link_wf l'" "frame S (cs_ctxt st) l'"
  shows "steps S st (st\<lparr>cs_ctxt := l'\<rparr>)"
proof -
  have "length (lk_store (cs_ctxt st)) \<le> length (lk_store l')" using assms(3) by (simp add: frame_def)
  then show ?thesis using assms by (auto simp: steps_def cs_wf_def nsyms_def) (meson less_le_trans)+
qed

lemma on_sym_steps:
  assumes "cs_wf st" "s < nsyms st" "same_id (sym_at (cs_ctxt st) s) (f (sym_at (cs_ctxt st) s))" "sym_wf (nsyms st) (sym_at (cs_ctxt st) s) \<Longrightarrow> sym_wf (nsyms st) (f (sym_at (cs_ctxt st) s))"
    "sy_onList (sym_at (cs_ctxt st) s) \<Longrightarrow> s \<notin> S \<Longrightarrow> same_data (sym_at (cs_ctxt st) s) (f (sym_at (cs_ctxt st) s))"
  shows "steps S st (on_sym s f st)"
  unfolding on_sym_def using assms by (intro ctxt_steps upd_wf upd_frame) (auto simp: cs_wf_def nsyms_def link_wf_def)

lemma look_steps:
  assumes "look name abi st = (s, st')" "cs_wf st"
  shows "steps S st st' \<and> s < nsyms st' \<and> cs_dataSym st' = cs_dataSym st \<and> cs_secSym st' = cs_secSym st"
proof -
  obtain l' where l: "LookupABI name abi (cs_ctxt st) = (s, l')" "st' = st\<lparr>cs_ctxt := l'\<rparr>" using assms(1) by (auto simp: look_def split: prod.splits)
  show ?thesis unfolding l(2) using LookupABI_ok [OF l(1)] assms(2) by (auto intro!: ctxt_steps simp: cs_wf_def nsyms_def)
qed

lemma link_op_steps:
  assumes "link_op f st = Inr st'" "cs_wf st" "\<And>l'. f (cs_ctxt st) = Inr l' \<Longrightarrow> link_wf l' \<and> frame S (cs_ctxt st) l'"
  shows "steps S st st'"
  using assms by (auto simp: link_op_def intro!: ctxt_steps split: sum.splits)

lemma on_func_steps:
  assumes "on_func s f st = Inr st'" "cs_wf st" "s < nsyms st" "\<And>fi. set (func_refs fi) \<subseteq> {..<nsyms st} \<Longrightarrow> set (func_refs (f fi)) \<subseteq> {..<nsyms st}"
  shows "steps S st st'"
  using assms(1) unfolding on_func_def
proof (rule link_op_steps [OF _ assms(2)])
  fix l' assume "upd_func s f (cs_ctxt st) = Inr l'"
  then show "link_wf l' \<and> frame S (cs_ctxt st) l'" using upd_func_wf assms(2-4) by (simp add: cs_wf_def nsyms_def)
qed

lemma pctab_steps:
  assumes "pctab sz ents st = (s, st')" "cs_wf st"
  shows "steps S st st' \<and> s < nsyms st'"
proof -
  obtain l' where l: "pcsym (pcbytes (ar_MinLC (lk_Arch (cs_ctxt st))) sz ents) (cs_ctxt st) = (s, l')" "st' = st\<lparr>cs_ctxt := l'\<rparr>" using assms(1) by (auto simp: pctab_def Pctab_def Let_def split: prod.splits)
  show ?thesis unfolding l(2) using pcsym_ok [OF l(1)] assms(2) by (auto intro!: ctxt_steps simp: cs_wf_def nsyms_def)
qed

lemma fn_sym_steps: "steps S st st' \<Longrightarrow> fn_sym st' x = fn_sym st x"
  by (simp add: steps_def fn_sym_def)

section \<open>Resolving names\<close>

definition fns_ok :: "converter \<Rightarrow> cstate \<Rightarrow> bool" where
  "fns_ok c st \<longleftrightarrow> (\<forall>x\<in>set (cv_fns c). fx_id x < length (cs_sym st))"

lemma fns_ok_steps: "steps S st st' \<Longrightarrow> fns_ok c st \<Longrightarrow> fns_ok c st'"
  by (simp add: steps_def fns_ok_def)

lemma fn_sym_valid: "cs_wf st \<Longrightarrow> fns_ok c st \<Longrightarrow> x \<in> set (cv_fns c) \<Longrightarrow> fn_sym st x < nsyms st"
  by (simp add: fns_ok_def fn_sym_def cs_wf_def)

lemma bySec_mem: "x \<in> set (bySec c sec) \<Longrightarrow> x \<in> set (cv_fns c) \<and> fx_sec x = sec"
  by (simp add: bySec_def)

lemma find_mem: "find P xs = Some x \<Longrightarrow> x \<in> set xs \<and> P x"
  by (auto simp: find_Some_iff)

lemma resolveText_steps:
  assumes "resolveText c sec addr st = ((t, d), st')" "cs_wf st" "fns_ok c st"
  shows "steps S st st' \<and> (\<forall>s. t = Some s \<longrightarrow> s < nsyms st')"
proof -
  have f: "fn_sym st x < nsyms st" if "x \<in> set (bySec c sec)" for x using fn_sym_valid [OF assms(2,3)] bySec_mem [OF that] by simp
  show ?thesis
    using assms(1,2) f look_steps [of _ _ st] unfolding resolveText_def
    by (auto simp: steps_refl split: option.splits prod.splits dest!: find_mem)
qed

lemma resolveTarget_steps:
  assumes "resolveTarget c r st = ((t, a, nm), st')" "cs_wf st" "fns_ok c st"
  shows "steps S st st' \<and> (\<forall>s. t = Some s \<longrightarrow> s < nsyms st')"
proof -
  have d: "cs_dataSym st i = Some s \<Longrightarrow> s < nsyms st" "cs_secSym st i = Some s \<Longrightarrow> s < nsyms st" for i s using assms(2) by (auto simp: cs_wf_def)
  show ?thesis
    using assms(1,2) d look_steps [of _ _ st] resolveText_steps [OF _ assms(2,3)] unfolding resolveTarget_def resolveCName_def Let_def
    by (auto simp: steps_refl split: option.splits prod.splits if_splits)
qed

lemma declare_steps:
  assumes "link_op (Globl ls sz flag) (on_sym ls (set_kind k) st) = Inr st'" "cs_wf st" "ls < nsyms st"
  shows "steps S st st' \<and> \<not> sy_onList (sym_at (cs_ctxt st) ls) \<and> ls < nsyms st'"
proof -
  have n: "\<not> sy_onList (sym_at (cs_ctxt st) ls)" using assms(1,3) by (auto simp: link_op_def Globl_def on_sym_def nsyms_def sym_at_upd set_kind_def split: sum.splits if_splits)
  have 1: "steps S st (on_sym ls (set_kind k) st)"
    using assms(2,3) n by (intro on_sym_steps) (auto simp: same_id_def set_kind_def sym_wf_def sym_refs_def)
  have l: "ls < nsyms (on_sym ls (set_kind k) st)" using assms(3) by (simp add: nsyms_def on_sym_def)
  have "steps S (on_sym ls (set_kind k) st) st'"
    by (rule link_op_steps [OF assms(1) steps_wf [OF 1]]) (use Globl_ok steps_wf [OF 1] l in \<open>auto simp: cs_wf_def nsyms_def\<close>)
  then show ?thesis using 1 n steps_trans steps_len l by blast
qed

text \<open>A symbol that was not listed before may be written.\<close>

lemma steps_unlisted:
  assumes "steps S st st1" "\<not> sy_onList (sym_at (cs_ctxt st1) s)" "steps (insert s S) st1 st2"
  shows "steps S st st2"
proof -
  have "frame (insert s S) (cs_ctxt st) (cs_ctxt st2)" using assms(1,3) frame_trans [of S _ _ "insert s S" _ "insert s S"] by (auto simp: steps_def)
  moreover have "\<not> sy_onList (sym_at (cs_ctxt st) s)" if "s < length (lk_store (cs_ctxt st))" using assms(1,2) that by (auto simp: steps_def frame_def same_id_def)
  ultimately have "frame S (cs_ctxt st) (cs_ctxt st2)" by (auto simp: frame_def)
  then show ?thesis using assms by (simp add: steps_def)
qed

lemma WriteBytes_wf: "sym_wf n y \<Longrightarrow> sym_wf n (WriteBytes off b y)"
  using contents_wf [of y "WriteBytes off b y" n] WriteBytes_same by blast

lemma write_steps: "cs_wf st \<Longrightarrow> ls < nsyms st \<Longrightarrow> steps (insert ls S) st (on_sym ls (WriteBytes off b) st)"
  by (intro on_sym_steps) (use WriteBytes_same WriteBytes_wf in auto)

lemma addrel_steps: "cs_wf st \<Longrightarrow> s < nsyms st \<Longrightarrow> (\<forall>t. rl_Sym r = Some t \<longrightarrow> t < nsyms st) \<Longrightarrow> steps (insert s S) st (on_sym s (AddRel r) st)"
  by (intro on_sym_steps) (use AddRel_same AddRel_wf in auto)

lemma sym_op_steps:
  assumes "sym_op s (WriteInt off siz v) st = Inr st'" "cs_wf st" "s < nsyms st"
  shows "steps (insert s S) st st'"
proof -
  obtain y where y: "WriteInt off siz v (sym_at (cs_ctxt st) s) = Inr y" "st' = on_sym s (\<lambda>_. y) st" using assms(1) by (auto simp: sym_op_def split: sum.splits)
  show ?thesis unfolding y(2) using WriteInt_same [OF y(1)] contents_wf assms(2,3) by (intro on_sym_steps) auto
qed

lemma declare_data_steps:
  assumes "declare_data ls k sz flag b st = Inr st'" "cs_wf st" "ls < nsyms st"
  shows "steps S st st' \<and> ls < nsyms st' \<and> cs_dataSym st' = cs_dataSym st \<and> cs_secSym st' = cs_secSym st"
proof -
  let ?k = "case k of None \<Rightarrow> sy_Kind (sym_at (cs_ctxt st) ls) | Some x \<Rightarrow> x"
  have e: "(case k of None \<Rightarrow> st | Some x \<Rightarrow> on_sym ls (set_kind x) st) = on_sym ls (set_kind ?k) st"
    by (cases k) (simp_all add: on_sym_def upd_def set_kind_def sym_at_def)
  obtain st1 where g: "link_op (Globl ls sz flag) (on_sym ls (set_kind ?k) st) = Inr st1" "st' = on_sym ls (WriteBytes 0 b) st1"
    using assms(1) unfolding declare_data_def e by (auto simp: sbind_Inr_iff)
  have 1: "steps S st st1" "\<not> sy_onList (sym_at (cs_ctxt st) ls)" "ls < nsyms st1" using declare_steps [OF g(1) assms(2,3)] by blast+
  have 2: "steps (insert ls S) st1 st'" unfolding g(2) by (rule write_steps [OF steps_wf [OF 1(1)] 1(3)])
  have "steps (insert ls S) st st'" by (rule steps_trans [OF steps_mono [OF 1(1)] 2]) auto
  then have "steps S st st'" by (rule steps_unlisted [OF steps_refl [OF assms(2)] 1(2)])
  moreover have "cs_dataSym st' = cs_dataSym st \<and> cs_secSym st' = cs_secSym st" using g by (auto simp: link_op_def on_sym_def split: sum.splits)
  ultimately show ?thesis using steps_len assms(3) by blast
qed

lemma sym_tables:
  assumes "steps S st st'" "s < nsyms st'"
  shows "steps S st (st'\<lparr>cs_dataSym := (cs_dataSym st')(i \<mapsto> s)\<rparr>)" "steps S st (st'\<lparr>cs_secSym := (cs_secSym st')(i \<mapsto> s)\<rparr>)" "steps S st (st'\<lparr>cs_gotSyms := (cs_gotSyms st')(k \<mapsto> s)\<rparr>)"
  using assms by (auto simp: steps_def cs_wf_def nsyms_def)

lemma gotSlot_steps:
  assumes "gotSlot c t add st = Inr (g, st')" "cs_wf st" "t < nsyms st"
  shows "steps S st st' \<and> g < nsyms st'"
proof (cases "cs_gotSyms st (Sym.sy_Name (sym_at (cs_ctxt st) t) @ ''+'' @ dec_int (sint add))")
  case None
  let ?nm = "Sym.sy_Name (sym_at (cs_ctxt st) t)"
  obtain ls st1 where k: "look (''goc.got.'' @ cv_tu c @ ''.'' @ sanitize ?nm) Goobj_Link.ABI0 st = (ls, st1)" by fastforce
  obtain st2 st3 where s: "link_op (Globl ls 8 NOPTR) (on_sym ls (set_kind ''SDATA'') st1) = Inr st2" "sym_op ls (WriteInt 0 8 0) st2 = Inr st3" "g = ls"
      "st' = (on_sym ls (AddRel \<lparr>rl_Off = 0, rl_Siz = 8, rl_Type = ''R_ADDR'', rl_Add = add, rl_Sym = Some t\<rparr>) st3)\<lparr>cs_gotSyms := (cs_gotSyms st3)(?nm @ ''+'' @ dec_int (sint add) \<mapsto> ls)\<rparr>"
    using assms(1) None k by (auto simp: gotSlot_def Let_def sbind_Inr_iff)
  have 1: "steps S st st1" "ls < nsyms st1" using look_steps [OF k assms(2)] by blast+
  have 2: "steps S st1 st2" "\<not> sy_onList (sym_at (cs_ctxt st1) ls)" "ls < nsyms st2" using declare_steps [OF s(1) steps_wf [OF 1(1)] 1(2)] by blast+
  have 3: "steps (insert ls S) st2 st3" by (rule sym_op_steps [OF s(2) steps_wf [OF 2(1)] 2(3)])
  have v: "ls < nsyms st3" "t < nsyms st3" using steps_len 1 2 3 assms(3) by blast+
  let ?st4 = "on_sym ls (AddRel \<lparr>rl_Off = 0, rl_Siz = 8, rl_Type = ''R_ADDR'', rl_Add = add, rl_Sym = Some t\<rparr>) st3"
  have 4: "steps (insert ls S) st3 ?st4" using steps_wf [OF 3] v by (intro addrel_steps) auto
  have "steps (insert ls S) st1 ?st4" using steps_mono [OF 2(1), of "insert ls S"] 3 4 steps_trans by blast
  then have "steps S st ?st4" by (rule steps_unlisted [OF 1(1) 2(2)])
  moreover have "ls < nsyms ?st4" using v by (simp add: on_sym_def nsyms_def)
  moreover have "cs_gotSyms ?st4 = cs_gotSyms st3" by (simp add: on_sym_def)
  ultimately show ?thesis unfolding s(3,4) using sym_tables(3) [of S st ?st4 ls] by (simp add: nsyms_def on_sym_def)
qed (use assms in \<open>auto simp: gotSlot_def Let_def steps_refl cs_wf_def\<close>)

section \<open>Data\<close>

lemma named_data_steps:
  assumes "named_data ls sc es st = Inr (d, st')" "cs_wf st" "ls < nsyms st"
  shows "steps S st st' \<and> ls < nsyms st'"
proof -
  have g: "steps S st k \<and> ls < nsyms k" if "link_op (Globl ls sz fl) st = Inr k" for sz fl k
  proof -
    have "steps S st k" by (rule link_op_steps [OF that assms(2)]) (use Globl_ok assms in \<open>auto simp: cs_wf_def nsyms_def\<close>)
    then show ?thesis using steps_len assms(3) by blast
  qed
  show ?thesis using assms g declare_data_steps [OF _ assms(2,3)] unfolding named_data_def
    by (auto simp: sbind_Inr_iff steps_refl split: if_splits option.splits)
qed

definition ranges_ok :: "name_ranges \<Rightarrow> cstate \<Rightarrow> bool" where
  "ranges_ok ranges st \<longleftrightarrow> (\<forall>i. \<forall>(lo, hi, s)\<in>set (ranges i). s < nsyms st)"

lemma ranges_ok_steps: "ranges_ok ranges st \<Longrightarrow> steps S st st' \<Longrightarrow> ranges_ok ranges st'"
  unfolding ranges_ok_def using steps_len by fastforce

lemma emit_global_steps:
  assumes "emit_global c (i, es) (ranges, st) = Inr (ranges', st')" "cs_wf st" "ranges_ok ranges st"
  shows "steps {} st st' \<and> ranges_ok ranges' st'"
proof (cases "skip_global c es")
  case False
  obtain ls st1 where k: "look (cv_pkg c @ ''.'' @ elf_symbol.sy_Name es) Goobj_Link.ABI0 st = (ls, st1)" by fastforce
  obtain d st2 where n: "named_data ls (ef_Sections (cv_ef c) ! sy_Section es) es st1 = Inr (d, st2)"
      "(ranges', st') = (if d then (ranges(sy_Section es := ranges (sy_Section es) @ [(sy_Value es, sy_Value es + elf_symbol.sy_Size es, ls)]), st2\<lparr>cs_dataSym := (cs_dataSym st2)(i \<mapsto> ls)\<rparr>) else (ranges, st2))"
    using assms(1) False k by (auto simp: emit_global_def Let_def sbind_Inr_iff)
  have 1: "steps {} st st1" "ls < nsyms st1" using look_steps [OF k assms(2)] by blast+
  have 2: "steps {} st1 st2" "ls < nsyms st2" using named_data_steps [OF n(1) steps_wf [OF 1(1)] 1(2)] by blast+
  have 3: "steps {} st st2" by (rule steps_trans [OF 1(1) 2(1)])
  have "ranges_ok ranges st2" using ranges_ok_steps [OF assms(3) 3] .
  then show ?thesis using n(2) 2(2) 3 sym_tables(1) [OF 3 2(2)] by (cases d) (auto simp: ranges_ok_def nsyms_def split: if_splits)
qed (use assms in \<open>auto simp: emit_global_def steps_refl\<close>)

lemma emit_section_steps:
  assumes "emit_section c (i, sc) st = Inr st'" "cs_wf st"
  shows "steps {} st st'"
proof (cases "skip_section c i sc")
  case False
  obtain ls st1 where k: "look (''goc.data.'' @ cv_tu c @ ''.'' @ sanitize (es_Name sc)) Goobj_Link.ABI0 st = (ls, st1)" by fastforce
  have 1: "steps {} st st1" "ls < nsyms st1" using look_steps [OF k assms(2)] by blast+
  obtain st2 where 2: "(if es_Type sc = SHT_NOBITS then link_op (Globl ls (sint (es_Size sc)) NOPTR) st1
              else case es_Data sc of None \<Rightarrow> Inl (NoData i)
              | Some b \<Rightarrow> if es_Flags sc AND SHF_WRITE \<noteq> 0 then declare_data ls (Some ''SDATA'') (int (length b)) NOPTR b st1
                  else declare_data ls None (int (length b)) (RODATA OR DUPOK) b st1) = Inr st2" "st' = st2\<lparr>cs_secSym := (cs_secSym st2)(i \<mapsto> ls)\<rparr>"
    using assms(1) False k by (auto simp: emit_section_def Let_def sbind_Inr_iff)
  have w: "cs_wf st1" using 1 steps_wf by blast
  have g: "steps {} st1 k" if "link_op (Globl ls sz fl) st1 = Inr k" for sz fl k
    by (rule link_op_steps [OF that w]) (use Globl_ok w 1(2) in \<open>auto simp: cs_wf_def nsyms_def\<close>)
  have 3: "steps {} st1 st2" using 2(1) g declare_data_steps [OF _ w 1(2)] by (auto split: if_splits option.splits)
  show ?thesis unfolding 2(2) using sym_tables(2) steps_trans [OF 1(1) 3] steps_len [OF 3 1(2)] by blast
qed (use assms in \<open>auto simp: emit_section_def steps_refl\<close>)

lemma find_table_steps:
  assumes "find_table c i at p (ts, st) = Inr (ts', st')" "cs_wf st" "fns_ok c st"
  shows "steps S st st'"
  using assms resolveText_steps [OF _ assms(2,3)] by (cases p) (auto simp: find_table_def Let_def steps_refl split: option.splits prod.splits)

lemma find_tables_steps:
  assumes "foldE (find_table c i at) rs (ts, st) = Inr (ts', st')" "cs_wf st" "fns_ok c st"
  shows "steps S st st'"
proof -
  have "(\<lambda>(ts, k). steps S st k) (ts', st')"
  proof (rule foldE_inv [OF assms(1), where P = "\<lambda>(ts, k). steps S st k"])
    fix x p p' assume p: "case p of (ts, k) \<Rightarrow> steps S st k" "find_table c i at x p = Inr p'"
    obtain t k t' k' where [simp]: "p = (t, k)" "p' = (t', k')" by fastforce
    have "steps S st k" using p by simp
    then show "case p' of (ts, k) \<Rightarrow> steps S st k" using find_table_steps [OF p(2) [simplified]] steps_trans steps_wf fns_ok_steps assms(3) by auto
  qed (use assms steps_refl in auto)
  then show ?thesis by simp
qed

lemma data_target_steps:
  assumes "data_target c i ls at ts r st = Inr ((t, a, nm), st')" "cs_wf st" "fns_ok c st" "ls < nsyms st"
  shows "steps S st st' \<and> (\<forall>s. t = Some s \<longrightarrow> s < nsyms st')"
proof (cases "at (re_Off r)")
  case True
  then have "entry_target c i ts r st = Inr ((t, a, nm), st')" using assms(1) by (simp add: data_target_def)
  then show ?thesis using resolveText_steps [OF _ assms(2,3), of _ _ _ _ st' S] by (auto simp: entry_target_def Let_def split: option.splits if_splits prod.splits)
next
  case False
  then show ?thesis using assms resolveTarget_steps [OF _ assms(2,3), of r t a nm st'] by (auto simp: data_target_def steps_refl split: if_splits)
qed

lemma data_reloc_steps:
  assumes "data_reloc c ranges i ls at ts r st = Inr st'" "cs_wf st" "fns_ok c st" "ls < nsyms st" "ranges_ok ranges st"
  shows "steps UNIV st st'"
proof -
  obtain host off where h: "host_of ranges i ls (re_Off r) = (host, off)" by fastforce
  obtain q where q: "data_target c i ls at ts r st = Inr q" using assms(1) by (auto simp: data_reloc_def sbind_Inr_iff)
  obtain t' a nm st1 where q': "q = ((t', a, nm), st1)" by (metis surj_pair)
  obtain t where t: "t' = Some t" using assms(1) q q' by (cases t') (auto simp: data_reloc_def)
  note d = q [unfolded q' t]
  let ?d = "if cv_arm64 c then A64Data (re_Type r) else X86Data (re_Type r)"
  obtain ty siz where x: "?d = Some (ty, siz)" using assms(1) d by (cases ?d) (auto simp: data_reloc_def)
  have st': "st' = on_sym host (AddRel \<lparr>rl_Off = ucast off, rl_Siz = siz, rl_Type = ty, rl_Add = a, rl_Sym = Some t\<rparr>) st1" using assms(1) d x h unfolding data_reloc_def by simp
  have 1: "steps UNIV st st1" "t < nsyms st1" using data_target_steps [OF d assms(2-4)] by blast+
  have "host < nsyms st" using h assms(4,5) by (auto simp: host_of_def ranges_ok_def split: option.splits prod.splits dest!: find_mem)
  then have "host < nsyms st1" using steps_len 1(1) by blast
  then have "steps UNIV st1 st'" unfolding st' using addrel_steps [OF steps_wf [OF 1(1)], of host _ UNIV] 1(2) by simp
  then show ?thesis using steps_trans 1(1) by blast
qed

lemma pad_data_same: "same_id y (pad_data y) \<and> sy_R (pad_data y) = sy_R y \<and> sy_Func (pad_data y) = sy_Func y \<and> sy_indexed (pad_data y) = sy_indexed y"
proof -
  let ?f = "\<lambda>y. case WriteInt (length (sy_P y)) 1 0 y of Inr y' \<Rightarrow> y' | Inl _ \<Rightarrow> y"
  have 1: "same_id y (?f y) \<and> sy_R (?f y) = sy_R y \<and> sy_Func (?f y) = sy_Func y \<and> sy_indexed (?f y) = sy_indexed y" for y
    by (auto split: sum.splits dest: WriteInt_same)
  have "same_id y ((?f ^^ n) y) \<and> sy_R ((?f ^^ n) y) = sy_R y \<and> sy_Func ((?f ^^ n) y) = sy_Func y \<and> sy_indexed ((?f ^^ n) y) = sy_indexed y" for n
    by (induction n) (use 1 same_trans(1) in \<open>simp_all, blast\<close>)
  then show ?thesis unfolding pad_data_def .
qed

lemma section_relocs_steps:
  assumes "section_relocs c ranges codeRels i st = Inr st'" "cs_wf st" "fns_ok c st" "ranges_ok ranges st"
  shows "steps UNIV st st'"
proof (cases "cs_secSym st i")
  case (Some ls)
  have ls: "ls < nsyms st" using Some assms(2) by (simp add: cs_wf_def)
  obtain rs where rs: "relas c i = Inr rs" using assms(1) Some by (auto simp: section_relocs_def sbind_Inr_iff)
  show ?thesis
  proof (cases "rs = []")
    case False
    let ?at = "\<lambda>off. off \<in> set (map re_Off (filter (text_pc32 c) rs))" let ?st = "on_sym ls pad_data st"
    obtain ts st1 where t: "foldE (find_table c i ?at) codeRels ([], ?st) = Inr (ts, st1)" "foldE (data_reloc c ranges i ls ?at (sort_key tb_off ts)) rs st1 = Inr st'"
      using assms(1) Some rs False by (auto simp: section_relocs_def sbind_Inr_iff Let_def split: option.splits)
    have 0: "steps UNIV st ?st" using pad_data_same contents_wf assms(2) ls by (intro on_sym_steps) auto
    have 1: "steps UNIV ?st st1" by (rule find_tables_steps [OF t(1) steps_wf [OF 0] fns_ok_steps [OF 0 assms(3)]])
    have 01: "steps UNIV st st1" by (rule steps_trans [OF 0 1])
    have 2: "steps UNIV st1 st'"
    proof (rule steps_foldE [OF t(2) steps_wf [OF 1]])
      fix x a b assume a: "steps UNIV st1 a" "data_reloc c ranges i ls ?at (sort_key tb_off ts) x a = Inr b"
      have "steps UNIV st a" by (rule steps_trans [OF 01 a(1)])
      then show "steps UNIV a b" using data_reloc_steps [OF a(2)] steps_wf fns_ok_steps assms(3) steps_len ls ranges_ok_steps [OF assms(4)] by blast
    qed
    show ?thesis by (rule steps_trans [OF 01 2])
  qed (use assms Some rs in \<open>auto simp: section_relocs_def steps_refl\<close>)
qed (use assms in \<open>auto simp: section_relocs_def steps_refl\<close>)

lemma emitData_steps:
  assumes "emitData c st = Inr st'" "cs_wf st" "fns_ok c st"
  shows "steps UNIV st st'"
proof -
  obtain ranges st1 st2 crs where e: "foldE (emit_global c) (enumerate 0 (cv_syms c)) (\<lambda>_. [], st) = Inr (ranges, st1)" "foldE (emit_section c) (enumerate 0 (ef_Sections (cv_ef c))) st1 = Inr st2"
      "foldE (section_relocs c ranges crs) [0..<length (ef_Sections (cv_ef c))] st2 = Inr st'"
    using assms(1) by (auto simp: emitData_def sbind_Inr_iff)
  have "(\<lambda>(r, k). steps {} st k \<and> ranges_ok r k) (ranges, st1)"
  proof (rule foldE_inv [OF e(1), where P = "\<lambda>(r, k). steps {} st k \<and> ranges_ok r k"])
    fix x p p' assume p: "case p of (r, k) \<Rightarrow> steps {} st k \<and> ranges_ok r k" "emit_global c x p = Inr p'"
    obtain i es t k t' k' where [simp]: "x = (i, es)" "p = (t, k)" "p' = (t', k')" by (cases x; cases p; cases p') auto
    show "case p' of (r, k) \<Rightarrow> steps {} st k \<and> ranges_ok r k" using emit_global_steps [of c i es t k t' k'] p steps_wf steps_trans by auto
  qed (use assms steps_refl in \<open>auto simp: ranges_ok_def\<close>)
  then have 1: "steps {} st st1" "ranges_ok ranges st1" by auto
  have 2: "steps {} st1 st2"
    by (rule steps_foldE [OF e(2) steps_wf [OF 1(1)]]) (use emit_section_steps steps_wf in \<open>metis surj_pair\<close>)
  have 12: "steps UNIV st st2" using steps_mono [OF steps_trans [OF 1(1) 2]] by simp
  have 3: "steps UNIV st2 st'"
    by (rule steps_foldE [OF e(3) steps_wf [OF 2]])
      (use section_relocs_steps steps_wf fns_ok_steps [OF 12 assms(3)] fns_ok_steps ranges_ok_steps [OF 1(2) 2] ranges_ok_steps in blast)
  show ?thesis by (rule steps_trans [OF 12 3])
qed

end
