(* ===== verification/Convert_Text.thy ===== *)
theory Convert_Text
  imports Convert_Wf
begin

text \<open>
  The functions of the converted object: every function of the tables becomes a text symbol of its own,
  with the machine code of the ELF file.
\<close>

section \<open>Declaring the functions\<close>

definition listed :: "cstate \<Rightarrow> sid \<Rightarrow> bool" where
  "listed st s \<longleftrightarrow> s < nsyms st \<and> sy_onList (sym_at (cs_ctxt st) s)"

definition is_text :: "cstate \<Rightarrow> sid \<Rightarrow> bool" where
  "is_text st s \<longleftrightarrow> listed st s \<and> sy_Kind (sym_at (cs_ctxt st) s) = ''STEXT'' \<and> s \<in> set (lk_Text (cs_ctxt st))"

lemma listed_steps: "steps S st st' \<Longrightarrow> listed st s \<Longrightarrow> listed st' s"
  by (auto simp: steps_def frame_def listed_def nsyms_def same_id_def)

lemma text_steps: "steps S st st' \<Longrightarrow> is_text st s \<Longrightarrow> s \<notin> S \<Longrightarrow> is_text st' s"
  using listed_steps [of S st st' s] by (auto simp: is_text_def steps_def frame_def listed_def nsyms_def same_data_def)

lemma steps_data: "steps S st st' \<Longrightarrow> listed st s \<Longrightarrow> s \<notin> S \<Longrightarrow> same_data (sym_at (cs_ctxt st) s) (sym_at (cs_ctxt st') s)"
  by (simp add: steps_def frame_def listed_def nsyms_def)

lemma steps_id: "steps S st st' \<Longrightarrow> s < nsyms st \<Longrightarrow> same_id (sym_at (cs_ctxt st) s) (sym_at (cs_ctxt st') s)"
  by (simp add: steps_def frame_def nsyms_def)

lemma emit_blob_steps:
  assumes "emit_blob s (k, nm, b) st = Inr st'" "cs_wf st" "s < nsyms st"
  shows "steps S st st'"
proof -
  obtain ms st1 where l: "look nm Goobj_Link.ABI0 st = (ms, st1)" by fastforce
  obtain st2 where d: "declare_data ms None (int (length b)) (RODATA OR DUPOK) b st1 = Inr st2" "link_op (Funcdata s k ms) st2 = Inr st'"
    using assms(1) l by (auto simp: emit_blob_def Let_def sbind_Inr_iff)
  have 1: "steps S st st1" "ms < nsyms st1" using look_steps [OF l assms(2)] by blast+
  have 2: "steps S st1 st2" "ms < nsyms st2" using declare_data_steps [OF d(1) steps_wf [OF 1(1)] 1(2)] by blast+
  have s: "s < nsyms st2" using steps_len 1(1) 2(1) assms(3) by blast
  have "steps S st2 st'"
    by (rule link_op_steps [OF d(2) steps_wf [OF 2(1)]]) (use Funcdata_ok steps_wf [OF 2(1)] s 2(2) in \<open>auto simp: cs_wf_def nsyms_def\<close>)
  then show ?thesis using 1(1) 2(1) steps_trans by blast
qed

lemma init_fn_steps:
  assumes "init_fn c x st = Inr st'" "cs_wf st" "fn_sym st x < nsyms st"
  shows "steps S st st' \<and> \<not> sy_onList (sym_at (cs_ctxt st) (fn_sym st x)) \<and> is_text st' (fn_sym st x)"
proof -
  let ?s = "fn_sym st x"
  let ?b = "fn_blobs (lk_Meta (cs_ctxt st)) (Sym.sy_Name (sym_at (cs_ctxt st) ?s)) (fx_tab x)"
  obtain st1 st2 where i: "link_op (InitText ?s (if fn_Flags (fx_tab x) AND FuncNosplit \<noteq> 0 then TextNoSplit else 0)) st = Inr st1"
      "foldE (emit_blob ?s) ?b st1 = Inr st2" "link_op (PCDATA ?s) st2 = Inr st'"
    using assms(1) unfolding init_fn_def Let_def by (auto simp: sbind_Inr_iff)
  obtain l1 where l1: "InitText ?s (if fn_Flags (fx_tab x) AND FuncNosplit \<noteq> 0 then TextNoSplit else 0) (cs_ctxt st) = Inr l1" "st1 = st\<lparr>cs_ctxt := l1\<rparr>"
    using i(1) by (auto simp: link_op_def split: sum.splits)
  have 0: "link_wf l1 \<and> frame T (cs_ctxt st) l1 \<and> \<not> sy_onList (sym_at (cs_ctxt st) ?s) \<and> sy_Kind (sym_at l1 ?s) = ''STEXT'' \<and> ?s \<in> set (lk_Text l1)" for T
    using InitText_ok [OF l1(1)] assms(2,3) by (auto simp: cs_wf_def nsyms_def)
  have 1: "steps T st st1" for T unfolding l1(2) using 0 assms(2) by (intro ctxt_steps) auto
  have s: "?s < nsyms st1" using steps_len [OF 1 assms(3)] .
  have t: "is_text st1 ?s" using 0 s l1(2) by (auto simp: is_text_def listed_def nsyms_def link_wf_def lists_ok_def)
  have 2: "steps T st1 st2" for T
  proof (rule steps_foldE [OF i(2) steps_wf [OF 1]])
    fix b a a' assume a: "steps T st1 a" "emit_blob ?s b a = Inr a'"
    obtain k nm v where b: "b = (k, nm, v)" by (cases b) auto
    show "steps T a a'" by (rule emit_blob_steps [OF a(2) [unfolded b] steps_wf [OF a(1)] steps_len [OF a(1) s]])
  qed
  have s2: "?s < nsyms st2" using steps_len [OF 2 s] .
  have 3: "steps T st2 st'" for T
    by (rule link_op_steps [OF i(3) steps_wf [OF 2]]) (use PCDATA_ok steps_wf [OF 2] s2 in \<open>auto simp: cs_wf_def nsyms_def\<close>)
  have "is_text st' ?s" using text_steps [OF 3 text_steps [OF 2 t]] by blast
  then show ?thesis using steps_trans [OF 1 steps_trans [OF 2 3]] 0 by blast
qed

lemma init_fns_steps:
  assumes "foldE (init_fn c) xs st = Inr st'" "cs_wf st" "\<forall>x\<in>set xs. fn_sym st x < nsyms st"
  shows "steps {} st st' \<and> (\<forall>x\<in>set xs. \<not> sy_onList (sym_at (cs_ctxt st) (fn_sym st x)) \<and> is_text st' (fn_sym st x)) \<and> distinct (map (fn_sym st) xs)"
  using assms
proof (induction xs arbitrary: st)
  case (Cons x xs)
  obtain st1 where a: "init_fn c x st = Inr st1" "foldE (init_fn c) xs st1 = Inr st'" using Cons.prems(1) by auto
  have 1: "steps S st st1" "\<not> sy_onList (sym_at (cs_ctxt st) (fn_sym st x))" "is_text st1 (fn_sym st x)" for S using init_fn_steps [OF a(1) Cons.prems(2)] Cons.prems(3) by auto
  have f: "fn_sym st1 y = fn_sym st y" for y using fn_sym_steps [OF 1(1)] .
  have "\<forall>y\<in>set xs. fn_sym st1 y < nsyms st1" using Cons.prems(3) steps_len [OF 1(1)] f by auto
  from Cons.IH [OF a(2) steps_wf [OF 1(1)] this]
  have 2: "steps {} st1 st'" "\<And>y. y \<in> set xs \<Longrightarrow> \<not> sy_onList (sym_at (cs_ctxt st1) (fn_sym st y)) \<and> is_text st' (fn_sym st y)" "distinct (map (fn_sym st) xs)" using f by (auto cong: map_cong)
  have n: "\<not> sy_onList (sym_at (cs_ctxt st) (fn_sym st y))" if "y \<in> set xs" for y
    using listed_steps [OF 1(1), of "fn_sym st y"] 2(2) [OF that] Cons.prems(3) that by (auto simp: listed_def)
  have "fn_sym st x \<notin> fn_sym st ` set xs" using 1(3) 2(2) by (auto simp: is_text_def listed_def)
  then show ?case using 1 2 n steps_trans [OF 1(1) 2(1)] text_steps [OF 2(1) 1(3)] by auto
qed (simp add: steps_refl)

section \<open>Stubs\<close>

lemma inlSym_steps: "inlSym c nm st = (s, st') \<Longrightarrow> cs_wf st \<Longrightarrow> steps S st st' \<and> s < nsyms st'"
  using look_steps [of _ _ st s st' S] by (auto simp: inlSym_def split: option.splits)

lemma add_stub_steps:
  assumes "add_stub c n (ss, st) = Inr (ss', st')" "cs_wf st"
  shows "steps S st st' \<and> (\<forall>p\<in>set ss'. p \<in> set ss \<or> (\<not> (listed st (fst p)) \<and> fst p < nsyms st'))"
proof (cases "cv_goName c (inlnode.in_Func n)")
  case None
  obtain ls st1 where k: "inlSym c (inlnode.in_Func n) st = (ls, st1)" by fastforce
  have 1: "steps S st st1" "ls < nsyms st1" using inlSym_steps [OF k assms(2)] by blast+
  show ?thesis
  proof (cases "sy_Func (sym_at (cs_ctxt st1) ls)")
    case N: None
    obtain st2 where t: "link_op (InitText ls (TextNoSplit OR TextDupok)) st1 = Inr st2" "ss' = ss @ [(ls, in_StartLine n)]" "st' = st2"
      using assms(1) None N k by (auto simp: add_stub_def Let_def sbind_Inr_iff)
    have "\<not> sy_onList (sym_at (cs_ctxt st1) ls)" using t(1) by (auto simp: link_op_def InitText_def Let_def split: sum.splits if_splits)
    then have n: "\<not> listed st ls" using listed_steps [OF 1(1)] by (auto simp: listed_def)
    have 2: "steps S st1 st2"
      by (rule link_op_steps [OF t(1) steps_wf [OF 1(1)]]) (use InitText_ok steps_wf [OF 1(1)] 1(2) in \<open>auto simp: cs_wf_def nsyms_def\<close>)
    show ?thesis using t(2,3) n steps_trans [OF 1(1) 2] steps_len [OF 2 1(2)] by auto
  qed (use assms None k 1 in \<open>auto simp: add_stub_def Let_def\<close>)
qed (use assms in \<open>auto simp: add_stub_def steps_refl\<close>)

lemma add_stubs_steps:
  assumes "foldE (add_stub c) ns ([], st) = Inr (ss, st')" "cs_wf st"
  shows "steps {} st st' \<and> (\<forall>p\<in>set ss. \<not> listed st (fst p) \<and> fst p < nsyms st')"
proof -
  have "(\<lambda>(r, k). steps {} st k \<and> (\<forall>p\<in>set r. \<not> listed st (fst p) \<and> fst p < nsyms k)) (ss, st')"
  proof (rule foldE_inv [OF assms(1), where P = "\<lambda>(r, k). steps {} st k \<and> (\<forall>p\<in>set r. \<not> listed st (fst p) \<and> fst p < nsyms k)"])
    fix x p p' assume p: "case p of (r, k) \<Rightarrow> steps {} st k \<and> (\<forall>p\<in>set r. \<not> listed st (fst p) \<and> fst p < nsyms k)" "add_stub c x p = Inr p'"
    obtain r k where e1: "p = (r, k)" by (cases p)
    obtain r' k' where e2: "p' = (r', k')" by (cases p')
    note e = e1 e2
    have k: "steps {} st k" "\<forall>p\<in>set r. \<not> listed st (fst p) \<and> fst p < nsyms k" using p(1) unfolding e1 prod.case by blast+
    note a = add_stub_steps [OF p(2) [unfolded e] steps_wf [OF k(1)], of "{}"]
    have "\<not> listed st (fst p) \<and> fst p < nsyms k'" if "p \<in> set r'" for p using a k(2) that listed_steps [OF k(1), of "fst p"] steps_len [of "{}" k k' "fst p"] by blast
    then show "case p' of (r, k) \<Rightarrow> steps {} st k \<and> (\<forall>p\<in>set r. \<not> listed st (fst p) \<and> fst p < nsyms k)"
      unfolding e prod.case using a steps_trans [OF k(1)] by blast
  qed (use assms(2) steps_refl in auto)
  then show ?thesis by simp
qed

lemma fill_pcdata_steps:
  assumes "fill_pcdata ds st = (ds', st')" "cs_wf st" "\<forall>s. Some s \<in> set ds \<longrightarrow> s < nsyms st"
  shows "steps S st st' \<and> (\<forall>s. Some s \<in> set ds' \<longrightarrow> s < nsyms st')"
  using assms
proof (induction ds arbitrary: st ds')
  case (Cons d ds)
  show ?case
  proof (cases d)
    case None
    obtain s st1 where p: "pctab 0 [] st = (s, st1)" by fastforce
    obtain ds1 where f: "fill_pcdata ds st1 = (ds1, st')" "ds' = Some s # ds1" using Cons.prems(1) None p by (auto split: prod.splits)
    have 1: "steps S st st1" "s < nsyms st1" using pctab_steps [OF p Cons.prems(2)] by blast+
    have "\<forall>s. Some s \<in> set ds \<longrightarrow> s < nsyms st1" using Cons.prems(3) steps_len [OF 1(1)] by simp
    then have i: "steps S st1 st'" "\<forall>s. Some s \<in> set ds1 \<longrightarrow> s < nsyms st'" using Cons.IH [OF f(1) steps_wf [OF 1(1)]] by blast+
    show ?thesis using f(2) i(2) steps_trans [OF 1(1) i(1)] steps_len [OF i(1) 1(2)] by auto
  next
    case (Some s)
    obtain ds1 where f: "fill_pcdata ds st = (ds1, st')" "ds' = Some s # ds1" using Cons.prems(1) Some by (auto split: prod.splits)
    have "\<forall>s. Some s \<in> set ds \<longrightarrow> s < nsyms st" using Cons.prems(3) by simp
    then have i: "steps S st st'" "\<forall>s. Some s \<in> set ds1 \<longrightarrow> s < nsyms st'" using Cons.IH [OF f(1) Cons.prems(2)] by blast+
    have "s < nsyms st" using Cons.prems(3) Some by simp
    then show ?thesis using f(2) i steps_len [OF i(1)] by auto
  qed
qed (simp add: steps_refl)

lemma func_refs_mono: "a \<le> b \<Longrightarrow> set (func_refs fi) \<subseteq> {..<a} \<Longrightarrow> set (func_refs fi) \<subseteq> {..<b}"
  by auto

lemma set_code_steps: "cs_wf st \<Longrightarrow> s < nsyms st \<Longrightarrow> steps (insert s S) st (on_sym s (set_code p) st)"
  by (intro on_sym_steps) (auto simp: same_id_def set_code_def sym_wf_def sym_refs_def)

lemma emit_stub_steps:
  assumes "emit_stub c (s, line) st = Inr st'" "cs_wf st" "s < nsyms st"
  shows "steps {s} st st'"
proof -
  let ?p = "if cv_arm64 c then [0, 0, 0x20, 0xd4] else [0xcc]" let ?st = "on_sym s (set_code ?p) st"
  obtain ds st1 where d: "fill_pcdata (replicate (nat (pcStackMap st + 1)) None) ?st = (ds, st1)" by fastforce
  obtain sp st2 where p: "pctab (int (length ?p)) (row 0) st1 = (sp, st2)" by fastforce
  obtain fl st3 where q: "pctab (int (length ?p)) (row 0) st2 = (fl, st3)" by fastforce
  obtain ln st4 where r: "pctab (int (length ?p)) (row line) st3 = (ln, st4)" by fastforce
  have f: "on_func s (\<lambda>fi. fi\<lparr>fi_StartLine := ucast line, fi_Pcdata := ds, fi_Pcsp := Some sp, fi_Pcfile := Some fl, fi_Pcline := Some ln, fi_UsedFiles := [0]\<rparr>) st4 = Inr st'"
    using assms(1) d p q r unfolding emit_stub_def Let_def by (simp split: if_splits)
  have 0: "steps {s} st ?st" using set_code_steps [OF assms(2,3), of "{}"] .
  have 1: "steps {s} ?st st1" "\<forall>t. Some t \<in> set ds \<longrightarrow> t < nsyms st1" using fill_pcdata_steps [OF d steps_wf [OF 0], of "{s}"] by auto
  have 2: "steps {s} st1 st2" "sp < nsyms st2" using pctab_steps [OF p steps_wf [OF 1(1)]] by blast+
  have 3: "steps {s} st2 st3" "fl < nsyms st3" using pctab_steps [OF q steps_wf [OF 2(1)]] by blast+
  have 4: "steps {s} st3 st4" "ln < nsyms st4" using pctab_steps [OF r steps_wf [OF 3(1)]] by blast+
  note t = steps_trans [OF 2(1) steps_trans [OF 3(1) 4(1)]]
  have v: "sp < nsyms st4" "fl < nsyms st4" "\<forall>t. Some t \<in> set ds \<longrightarrow> t < nsyms st4" "s < nsyms st4"
    using steps_len [OF steps_trans [OF 3(1) 4(1)] 2(2)] steps_len [OF 4(1) 3(2)] 1(2) steps_len [OF t] steps_len [OF steps_trans [OF 0 steps_trans [OF 1(1) t]] assms(3)] by blast+
  have "steps {s} st4 st'" by (rule on_func_steps [OF f steps_wf [OF 4(1)] v(4)]) (use v 4(2) in \<open>auto simp: func_refs_def set_opts\<close>)
  then show ?thesis using steps_trans [OF 0 steps_trans [OF 1(1) steps_trans [OF t]]] by blast
qed

section \<open>Code\<close>

definition same_P :: "sid \<Rightarrow> cstate \<Rightarrow> cstate \<Rightarrow> bool" where
  "same_P s st st' \<longleftrightarrow> sy_P (sym_at (cs_ctxt st') s) = sy_P (sym_at (cs_ctxt st) s) \<and> Sym.sy_Size (sym_at (cs_ctxt st') s) = Sym.sy_Size (sym_at (cs_ctxt st) s) \<and>
     sy_Kind (sym_at (cs_ctxt st') s) = sy_Kind (sym_at (cs_ctxt st) s)"

lemma same_P_trans: "same_P s a b \<Longrightarrow> same_P s b c \<Longrightarrow> same_P s a c"
  by (simp add: same_P_def)

lemma steps_P: "steps {} st st' \<Longrightarrow> listed st s \<Longrightarrow> same_P s st st'"
  using steps_data [of "{}" st st' s] by (simp add: same_P_def same_data_def)

lemma x86_reloc_steps:
  assumes "x86_reloc c x r st = Inr st'" "cs_wf st" "fns_ok c st" "x \<in> set (cv_fns c)" "listed st (fn_sym st x)"
  shows "steps {fn_sym st x} st st' \<and> same_P (fn_sym st x) st st'"
proof (cases "in_fn (re_Off r) x")
  case True
  let ?s = "fn_sym st x"
  obtain t' a nm st1 where q: "resolveTarget c r st = ((t', a, nm), st1)" by (metis surj_pair)
  obtain t where t: "t' = Some t" using assms(1) True q by (cases t') (auto simp: x86_reloc_def Let_def)
  have 1: "steps {} st st1" "t < nsyms st1" using resolveTarget_steps [OF q assms(2,3)] t by blast+
  let ?g = "if gotType (re_Type r) then sbind (gotSlot c t a st1) (\<lambda>(g, st2). Inr (g, 0, R_X86_64_PC32, st2)) else Inr (t, a, re_Type r, st1)"
  obtain t2 add ty st2 where g: "?g = Inr (t2, add, ty, st2)" using assms(1) True q t by (cases ?g) (auto simp: x86_reloc_def Let_def)
  have 2: "steps {} st1 st2" "t2 < nsyms st2" using g gotSlot_steps [OF _ steps_wf [OF 1(1)] 1(2)] 1 steps_refl [OF steps_wf [OF 1(1)]] by (auto simp: sbind_Inr_iff split: if_splits)
  obtain rt where e: "st' = on_sym ?s (AddRel \<lparr>rl_Off = ucast (re_Off r - fx_off x), rl_Siz = 4, rl_Type = rt, rl_Add = add, rl_Sym = Some t2\<rparr>) st2"
    using assms(1) True q t g by (auto simp: x86_reloc_def Let_def split: option.splits if_splits)
  have 12: "steps {} st st2" by (rule steps_trans [OF 1(1) 2(1)])
  have l: "listed st2 ?s" using listed_steps [OF 12 assms(5)] .
  have 3: "steps {?s} st2 st'" unfolding e using addrel_steps [OF steps_wf [OF 2(1)], of ?s _ "{}"] l 2(2) by (simp add: listed_def)
  have "same_P ?s st2 st'" using l unfolding e by (simp add: same_P_def on_sym_def sym_at_upd listed_def nsyms_def AddRel_def)
  then show ?thesis using steps_trans [OF steps_mono [OF 12] 3] same_P_trans [OF steps_P [OF 12 assms(5)]] by blast
qed (use assms in \<open>auto simp: x86_reloc_def steps_refl same_P_def\<close>)

lemma x86_relocs_steps:
  assumes "foldE (x86_reloc c x) rs st = Inr st'" "cs_wf st" "fns_ok c st" "x \<in> set (cv_fns c)" "listed st (fn_sym st x)"
  shows "steps {fn_sym st x} st st' \<and> same_P (fn_sym st x) st st'"
proof (rule foldE_inv [OF assms(1), where P = "\<lambda>k. steps {fn_sym st x} st k \<and> same_P (fn_sym st x) st k"])
  fix r a b assume a: "steps {fn_sym st x} st a \<and> same_P (fn_sym st x) st a" "x86_reloc c x r a = Inr b"
  have f: "fn_sym a x = fn_sym st x" using a fn_sym_steps by blast
  have "steps {fn_sym st x} a b \<and> same_P (fn_sym st x) a b"
    using x86_reloc_steps [OF a(2) _ _ assms(4)] a(1) f steps_wf fns_ok_steps [OF _ assms(3)] listed_steps [OF _ assms(5)] by metis
  then show "steps {fn_sym st x} st b \<and> same_P (fn_sym st x) st b" using a(1) steps_trans same_P_trans by blast
qed (use assms(2) steps_refl in \<open>auto simp: same_P_def\<close>)

lemma arm64_relocs_steps:
  assumes "arm64_relocs c x used rs st = Inr st'" "cs_wf st" "fns_ok c st" "x \<in> set (cv_fns c)" "listed st (fn_sym st x)"
  shows "steps {fn_sym st x} st st' \<and> sy_Kind (sym_at (cs_ctxt st') (fn_sym st x)) = sy_Kind (sym_at (cs_ctxt st) (fn_sym st x))"
  using assms
proof (induction rs arbitrary: used st)
  case (Cons r rs)
  let ?s = "fn_sym st x"
  show ?case
  proof (cases used)
    case True
    then show ?thesis using Cons.IH [of False st] Cons.prems by simp
  next
    case False
    let ?y = "sym_at (cs_ctxt st) ?s" let ?off = "unat (re_Off r - fx_off x)"
    have o: "\<not> (?off mod 4 \<noteq> 0 \<or> ?off + 4 > length (sy_P ?y))" using Cons.prems(1) False by (auto simp: Let_def split: if_splits)
    obtain t' a nm st1 where q: "resolveTarget c r st = ((t', a, nm), st1)" by (metis surj_pair)
    obtain t where t: "t' = Some t" using Cons.prems(1) False o q by (cases t') (auto simp: Let_def)
    have 1: "steps {} st st1" "t < nsyms st1" using resolveTarget_steps [OF q Cons.prems(2,3)] t by blast+
    let ?n = "case rs of [] \<Rightarrow> None | n # _ \<Rightarrow> if re_Off n = re_Off r + 4 then Some n else None"
    let ?a = "arm64_step (Sym.sy_Name ?y) ?off r ?n a (sy_P (sym_at (cs_ctxt st1) ?s))"
    obtain p ty siz ad u where e: "?a = Inr (p, ty, siz, ad, u)" using Cons.prems(1) False o q t by (cases ?a) (auto simp: Let_def)
    let ?st2 = "on_sym ?s (\<lambda>y. AddRel \<lparr>rl_Off = word_of_nat ?off, rl_Siz = siz, rl_Type = ty, rl_Add = ad, rl_Sym = Some t\<rparr> (set_P p y)) st1"
    have n: "arm64_relocs c x u rs ?st2 = Inr st'" using Cons.prems(1) False o q t e by (simp add: Let_def)
    have l: "listed st1 ?s" using listed_steps [OF 1(1) Cons.prems(5)] .
    have 2: "steps {?s} st1 ?st2" using l 1(2) steps_wf [OF 1(1)]
      by (intro on_sym_steps) (auto simp: listed_def same_id_def AddRel_def set_P_def sym_wf_def sym_refs_def)
    have f: "fn_sym ?st2 x = ?s" using fn_sym_steps [OF 1(1)] fn_sym_steps [OF 2] by simp
    have 12: "steps {?s} st ?st2" using steps_trans [OF steps_mono [OF 1(1)] 2] by simp
    have k: "sy_Kind (sym_at (cs_ctxt ?st2) ?s) = sy_Kind ?y"
      using l steps_P [OF 1(1) Cons.prems(5)] by (simp add: same_P_def on_sym_def sym_at_upd listed_def nsyms_def AddRel_def set_P_def)
    have "steps {?s} ?st2 st' \<and> sy_Kind (sym_at (cs_ctxt st') ?s) = sy_Kind (sym_at (cs_ctxt ?st2) ?s)"
      using Cons.IH [OF n steps_wf [OF 2] fns_ok_steps [OF 12 Cons.prems(3)] Cons.prems(4)] listed_steps [OF 12 Cons.prems(5)] f by simp
    then show ?thesis using steps_trans [OF 12] k by auto
  qed
qed (simp add: steps_refl)

section \<open>Tables of a function\<close>

lemma inl_tree_steps:
  assumes "inl_tree c fi ns st = Inr (tree, st')" "cs_wf st"
  shows "steps S st st' \<and> (\<forall>n\<in>set tree. \<forall>s. InlNode.in_Func n = Some s \<longrightarrow> s < nsyms st')"
  using assms
proof (induction ns arbitrary: st tree)
  case (Cons n ns)
  obtain f st1 where k: "inlSym c (inlnode.in_Func n) st = (f, st1)" by fastforce
  obtain tr y where t: "inl_tree c fi ns st1 = Inr (tr, st')" "tree = y # tr" "InlNode.in_Func y = Some f"
    using Cons.prems(1) k by (auto simp: Let_def sbind_Inr_iff InlNode.make_def split: if_splits)
  have 1: "steps S st st1" "f < nsyms st1" using inlSym_steps [OF k Cons.prems(2)] by blast+
  have 2: "steps S st1 st'" "\<forall>n\<in>set tr. \<forall>s. InlNode.in_Func n = Some s \<longrightarrow> s < nsyms st'" using Cons.IH [OF t(1) steps_wf [OF 1(1)]] by blast+
  show ?case using t(2,3) 2(2) steps_trans [OF 1(1) 2(1)] steps_len [OF 2(1) 1(2)] by auto
qed (simp add: steps_refl)

lemma line_tables_steps:
  assumes "line_tables c fi x s sz st = Inr st'" "cs_wf st" "s < nsyms st"
  shows "steps {} st st'"
proof -
  let ?t = "fx_tab x"
  show ?thesis
  proof (cases "pcTable ?t PCFile = [] \<or> pcTable ?t PCLine = []")
    case False
    let ?gf = "map (\<lambda>e. \<lparr>pc_PC = pc_PC e, pc_Value = goFile fi (pc_Value e)\<rparr>) (pcTable ?t PCFile)"
    obtain fl st1 where p: "pctab sz ?gf st = (fl, st1)" by fastforce
    obtain ln st2 where q: "pctab sz (pcTable ?t PCLine) st1 = (ln, st2)" by fastforce
    obtain tree st3 st4 where t: "inl_tree c fi (inl_nodes x) st2 = Inr (tree, st3)"
        "on_func s (\<lambda>f. f\<lparr>fi_UsedFiles := remdups (map (\<lambda>e. ucast (pc_Value e)) ?gf), fi_Pcfile := Some fl, fi_Pcline := Some ln, fi_InlTree := tree\<rparr>) st3 = Inr st4"
        "(if pcTable ?t PCInlIndex = [] \<or> inl_nodes x = [] then Inr st4
          else (let (pi, st5) = pctab sz (pcTable ?t PCInlIndex) st4 in on_func s (\<lambda>f. f\<lparr>fi_Pcinline := Some pi\<rparr>) st5)) = Inr st'"
      using assms(1) False p q unfolding line_tables_def Let_def by (auto simp: sbind_Inr_iff)
    have 1: "steps {} st st1" "fl < nsyms st1" using pctab_steps [OF p assms(2)] by blast+
    have 2: "steps {} st1 st2" "ln < nsyms st2" using pctab_steps [OF q steps_wf [OF 1(1)]] by blast+
    have 3: "steps {} st2 st3" "\<forall>n\<in>set tree. \<forall>s. InlNode.in_Func n = Some s \<longrightarrow> s < nsyms st3" using inl_tree_steps [OF t(1) steps_wf [OF 2(1)]] by blast+
    have v: "fl < nsyms st3" "ln < nsyms st3" "s < nsyms st3" using steps_len 1 2 3 assms(3) by blast+
    have 4: "steps {} st3 st4" by (rule on_func_steps [OF t(2) steps_wf [OF 3(1)] v(3)]) (use v 3(2) in \<open>auto simp: func_refs_def set_opts\<close>)
    have 5: "steps {} st4 st'"
    proof (cases "pcTable ?t PCInlIndex = [] \<or> inl_nodes x = []")
      case False
      obtain pi st5 where r: "pctab sz (pcTable ?t PCInlIndex) st4 = (pi, st5)" by fastforce
      have 6: "steps {} st4 st5" "pi < nsyms st5" using pctab_steps [OF r steps_wf [OF 4]] by blast+
      have s: "s < nsyms st5" using steps_len v(3) 4 6(1) by blast
      have "on_func s (\<lambda>f. f\<lparr>fi_Pcinline := Some pi\<rparr>) st5 = Inr st'" using t(3) False r by simp
      then have "steps {} st5 st'" by (rule on_func_steps [OF _ steps_wf [OF 6(1)] s]) (use 6(2) in \<open>auto simp: func_refs_def set_opts\<close>)
      then show ?thesis using steps_trans [OF 6(1)] by blast
    qed (use t(3) steps_refl [OF steps_wf [OF 4]] in auto)
    show ?thesis using steps_trans [OF 1(1) steps_trans [OF 2(1) steps_trans [OF 3(1) steps_trans [OF 4 5]]]] .
  qed (use assms in \<open>auto simp: line_tables_def Let_def steps_refl\<close>)
qed

lemma set_pcdata_refs: "set_pcdata i s ds = Inr ds' \<Longrightarrow> Some t \<in> set ds' \<Longrightarrow> t = s \<or> Some t \<in> set ds"
  by (auto simp: set_pcdata_def split: if_splits dest!: set_update_subset_insert [THEN subsetD])

lemma nosplit_steps: "cs_wf st \<Longrightarrow> s < nsyms st \<Longrightarrow> steps {s} st (on_sym s (\<lambda>y. y\<lparr>sy_NoSplit := b\<rparr>) st)"
  by (intro on_sym_steps) (auto simp: same_id_def sym_wf_def sym_refs_def)

lemma func_refs_valid: "cs_wf st \<Longrightarrow> s < nsyms st \<Longrightarrow> sy_Func (sym_at (cs_ctxt st) s) = Some fi \<Longrightarrow> t \<in> set (func_refs fi) \<Longrightarrow> t < nsyms st"
  by (auto simp: cs_wf_def link_wf_def sym_wf_def sym_refs_def nsyms_def)

lemma func_tables_steps:
  assumes "func_tables c fx x st = Inr st'" "cs_wf st" "listed st (fn_sym st x)"
  shows "steps {fn_sym st x} st st' \<and> same_P (fn_sym st x) st st' \<and> sy_NoSplit (sym_at (cs_ctxt st') (fn_sym st x)) = (fn_Flags (fx_tab x) AND FuncNosplit \<noteq> 0)"
proof -
  let ?s = "fn_sym st x" let ?t = "fx_tab x" let ?y = "sym_at (cs_ctxt st) ?s" let ?sz = "Sym.sy_Size ?y"
  obtain fi where fi: "sy_Func ?y = Some fi" using assms(1) by (auto simp: func_tables_def Let_def split: option.splits)
  let ?ds0 = "fi_Pcdata fi @ replicate (nat (pcStackMap st + 1) - length (fi_Pcdata fi)) None"
  let ?st0 = "on_sym ?s (\<lambda>y. y\<lparr>sy_NoSplit := (fn_Flags ?t AND FuncNosplit \<noteq> 0)\<rparr>) st"
  have s: "?s < nsyms st" using assms(3) by (simp add: listed_def)
  have 0: "steps {?s} st ?st0" by (rule nosplit_steps [OF assms(2) s])
  have l0: "listed ?st0 ?s" by (rule listed_steps [OF 0 assms(3)])
  obtain ds st1 where f: "fill_pcdata ?ds0 ?st0 = (ds, st1)" by fastforce
  have "\<forall>t. Some t \<in> set ?ds0 \<longrightarrow> t < nsyms ?st0" using func_refs_valid [OF assms(2) s fi] steps_len [OF 0] by (auto simp: func_refs_def set_opts)
  then have 1: "steps {} ?st0 st1" "\<forall>t. Some t \<in> set ds \<longrightarrow> t < nsyms st1" using fill_pcdata_steps [OF f steps_wf [OF 0]] by blast+
  obtain sp st2 where p: "pctab ?sz (if pcTable ?t PCSPDelta \<noteq> [] then pcTable ?t PCSPDelta else row (fn_FrameSize ?t)) st1 = (sp, st2)" by fastforce
  have 2: "steps {} st1 st2" "sp < nsyms st2" using pctab_steps [OF p steps_wf [OF 1(1)]] by blast+
  let ?u = "if pcTable ?t PCUnsafePoint \<noteq> [] then (let (u, st3) = pctab ?sz (pcTable ?t PCUnsafePoint) st2 in
      sbind (set_pcdata (geti (af_Pcdata (me_ABI (lk_Meta (cs_ctxt st)))) ''UnsafePoint'') u ds) (\<lambda>ds'. Inr (ds', st3))) else Inr (ds, st2)"
  obtain ds1 st3 where u: "?u = Inr (ds1, st3)" using assms(1) fi f p by (cases ?u) (auto simp: func_tables_def Let_def)
  have 3: "steps {} st2 st3" "\<forall>t. Some t \<in> set ds1 \<longrightarrow> t < nsyms st3"
  proof -
    obtain v k where v: "pctab ?sz (pcTable ?t PCUnsafePoint) st2 = (v, k)" by fastforce
    have k: "steps {} st2 k" "v < nsyms k" using pctab_steps [OF v steps_wf [OF 2(1)]] by blast+
    have d: "\<forall>t. Some t \<in> set ds \<longrightarrow> t < nsyms st2 \<and> t < nsyms k" using 1(2) steps_len [OF 2(1)] steps_len [OF k(1)] by blast
    show "steps {} st2 st3" using u v k steps_refl [OF steps_wf [OF 2(1)]] by (auto simp: sbind_Inr_iff split: if_splits)
    show "\<forall>t. Some t \<in> set ds1 \<longrightarrow> t < nsyms st3" using u v k d set_pcdata_refs by (fastforce simp: sbind_Inr_iff split: if_splits)
  qed
  obtain sm st4 where m: "pctab ?sz (case fn_GC ?t of None \<Rightarrow> [] | Some g \<Rightarrow> snd (snd (stackmaps g))) st3 = (sm, st4)" by fastforce
  have 4: "steps {} st3 st4" "sm < nsyms st4" using pctab_steps [OF m steps_wf [OF 3(1)]] by blast+
  obtain ds2 where d2: "set_pcdata (pcStackMap st) sm ds1 = Inr ds2" using assms(1) fi f p u m by (cases "set_pcdata (pcStackMap st) sm ds1") (auto simp: func_tables_def Let_def)
  obtain fl st5 where q: "pctab ?sz (row 1) st4 = (fl, st5)" by fastforce
  obtain ln st6 where r: "pctab ?sz (row 1) st5 = (ln, st6)" by fastforce
  have 5: "steps {} st4 st5" "fl < nsyms st5" using pctab_steps [OF q steps_wf [OF 4(1)]] by blast+
  have 6: "steps {} st5 st6" "ln < nsyms st6" using pctab_steps [OF r steps_wf [OF 5(1)]] by blast+
  obtain st7 where e: "on_func ?s (\<lambda>fi. fi\<lparr>fi_Locals := ucast (fn_FrameSize ?t), fi_Args := ucast (fn_ArgSize ?t), fi_Pcdata := ds2, fi_Pcsp := Some sp,
       fi_Pcfile := Some fl, fi_Pcline := Some ln, fi_StartLine := (if fn_StartLine ?t \<noteq> 0 then ucast (fn_StartLine ?t) else fi_StartLine fi)\<rparr>) st6 = Inr st7"
      "line_tables c fx x ?s ?sz st7 = Inr st'"
    using assms(1) fi f p u m d2 q r unfolding func_tables_def Let_def by (auto simp: sbind_Inr_iff)
  have 456: "steps {} st3 st6" using steps_trans [OF 4(1) steps_trans [OF 5(1) 6(1)]] .
  have 16: "steps {} ?st0 st6" using steps_trans [OF 1(1) steps_trans [OF 2(1) steps_trans [OF 3(1) 456]]] .
  have v: "sp < nsyms st6" "fl < nsyms st6" "\<forall>t. Some t \<in> set ds2 \<longrightarrow> t < nsyms st6" "?s < nsyms st6"
  proof -
    show "sp < nsyms st6" using steps_len [OF steps_trans [OF 3(1) 456] 2(2)] .
    show "fl < nsyms st6" using steps_len [OF 6(1) 5(2)] .
    show "\<forall>t. Some t \<in> set ds2 \<longrightarrow> t < nsyms st6"
      using set_pcdata_refs [OF d2] 3(2) steps_len [OF 456] steps_len [OF steps_trans [OF 5(1) 6(1)] 4(2)] by blast
    show "?s < nsyms st6" using listed_steps [OF 16 l0] by (simp add: listed_def)
  qed
  have 7: "steps {} st6 st7" by (rule on_func_steps [OF e(1) steps_wf [OF 6(1)] v(4)]) (use v 6(2) in \<open>auto simp: func_refs_def set_opts\<close>)
  have 8: "steps {} st7 st'" by (rule line_tables_steps [OF e(2) steps_wf [OF 7] steps_len [OF 7 v(4)]])
  have t: "steps {} ?st0 st'" using steps_trans [OF 16 steps_trans [OF 7 8]] .
  have y0: "sym_at (cs_ctxt ?st0) ?s = ?y\<lparr>sy_NoSplit := (fn_Flags ?t AND FuncNosplit \<noteq> 0)\<rparr>" using s by (simp add: on_sym_def sym_at_upd nsyms_def)
  have "same_data (sym_at (cs_ctxt ?st0) ?s) (sym_at (cs_ctxt st') ?s)" using steps_data [OF t l0] by simp
  then show ?thesis unfolding y0 using steps_trans [OF 0 steps_mono [OF t]] by (simp add: same_P_def same_data_def)
qed

end
