(* ===== verification/Convert_Object.thy ===== *)
theory Convert_Object
  imports Convert_Text
begin

text \<open>
  The converter as a whole: the link it builds satisfies the invariant, every function of the tables is a
  text symbol of its own with the machine code of the ELF file, and after \<open>Write\<close> the object reader
  finds it.
\<close>

section \<open>One function\<close>

definition code_of :: "byte list \<Rightarrow> fn \<Rightarrow> byte list option" where
  "code_of d x = go_slice d (fx_off x) (fx_off x + fn_TextSize (fx_tab x))"

lemma emit_fn_steps:
  assumes "emit_fn c fi rs d x st = Inr st'" "cs_wf st" "fns_ok c st" "x \<in> set (cv_fns c)" "is_text st (fn_sym st x)"
  shows "steps {fn_sym st x} st st' \<and> is_text st' (fn_sym st x) \<and>
    (\<not> cv_arm64 c \<longrightarrow> code_of d x = Some (sy_P (sym_at (cs_ctxt st') (fn_sym st x))) \<and> Sym.sy_Size (sym_at (cs_ctxt st') (fn_sym st x)) = int (length (sy_P (sym_at (cs_ctxt st') (fn_sym st x))))) \<and>
    sy_NoSplit (sym_at (cs_ctxt st') (fn_sym st x)) = (fn_Flags (fx_tab x) AND FuncNosplit \<noteq> 0)"
proof -
  let ?s = "fn_sym st x"
  obtain p where p: "code_of d x = Some p" using assms(1) by (auto simp: emit_fn_def code_of_def split: option.splits)
  let ?st1 = "on_sym ?s (\<lambda>y. (set_code p y)\<lparr>sy_R := []\<rparr>) st"
  obtain st2 where e: "(if cv_arm64 c then arm64TextRelocs c x rs ?st1 else foldE (x86_reloc c x) rs ?st1) = Inr st2" "func_tables c fi x st2 = Inr st'"
    using assms(1) p by (auto simp: emit_fn_def code_of_def Let_def sbind_Inr_iff)
  have s: "?s < nsyms st" "listed st ?s" using assms(5) by (simp_all add: is_text_def listed_def)
  have 1: "steps {?s} st ?st1" using assms(2) s by (intro on_sym_steps) (auto simp: same_id_def set_code_def sym_wf_def sym_refs_def)
  have f1: "fn_sym ?st1 x = ?s" using fn_sym_steps [OF 1] .
  have l1: "listed ?st1 ?s" using listed_steps [OF 1 s(2)] .
  have y1: "sy_P (sym_at (cs_ctxt ?st1) ?s) = p" "Sym.sy_Size (sym_at (cs_ctxt ?st1) ?s) = int (length p)" "sy_Kind (sym_at (cs_ctxt ?st1) ?s) = ''STEXT''"
    using s assms(5) by (simp_all add: on_sym_def sym_at_upd nsyms_def set_code_def is_text_def)
  have 2: "steps {?s} ?st1 st2" "sy_Kind (sym_at (cs_ctxt st2) ?s) = ''STEXT''" "\<not> cv_arm64 c \<Longrightarrow> same_P ?s ?st1 st2"
  proof -
    have a: "steps {?s} ?st1 st2 \<and> sy_Kind (sym_at (cs_ctxt st2) ?s) = ''STEXT''" if "cv_arm64 c"
      using e(1) that arm64_relocs_steps [OF _ steps_wf [OF 1] fns_ok_steps [OF 1 assms(3)] assms(4)] l1 f1 y1(3) by (simp add: arm64TextRelocs_def)
    have b: "steps {?s} ?st1 st2 \<and> same_P ?s ?st1 st2" if "\<not> cv_arm64 c"
      using e(1) that x86_relocs_steps [OF _ steps_wf [OF 1] fns_ok_steps [OF 1 assms(3)] assms(4)] l1 f1 by simp
    show "steps {?s} ?st1 st2" "sy_Kind (sym_at (cs_ctxt st2) ?s) = ''STEXT''" "\<not> cv_arm64 c \<Longrightarrow> same_P ?s ?st1 st2"
      using a b y1(3) by (auto simp: same_P_def)
  qed
  have f2: "fn_sym st2 x = ?s" using fn_sym_steps [OF 2(1)] f1 by simp
  have l2: "listed st2 ?s" using listed_steps [OF 2(1) l1] .
  have 3: "steps {?s} st2 st'" "same_P ?s st2 st'" "sy_NoSplit (sym_at (cs_ctxt st') ?s) = (fn_Flags (fx_tab x) AND FuncNosplit \<noteq> 0)"
    using func_tables_steps [OF e(2) steps_wf [OF 2(1)]] l2 f2 by simp_all
  have t: "steps {?s} st st'" using steps_trans [OF 1 steps_trans [OF 2(1) 3(1)]] .
  have "set (lk_Text (cs_ctxt st)) \<subseteq> set (lk_Text (cs_ctxt st'))" using t by (simp add: steps_def frame_def)
  then have "is_text st' ?s" using listed_steps [OF t s(2)] 2(2) 3(2) assms(5) by (auto simp: is_text_def same_P_def)
  then show ?thesis using t 3 2(3) y1 p by (auto simp: same_P_def)
qed

section \<open>All functions\<close>

definition converted :: "converter \<Rightarrow> cstate \<Rightarrow> fn \<Rightarrow> bool" where
  "converted c st x \<longleftrightarrow> (let y = sym_at (cs_ctxt st) (fn_sym st x) in
     is_text st (fn_sym st x) \<and> sy_NoSplit y = (fn_Flags (fx_tab x) AND FuncNosplit \<noteq> 0) \<and>
     (\<not> cv_arm64 c \<longrightarrow> (\<exists>d. es_Data (ef_Sections (cv_ef c) ! fx_sec x) = Some d \<and> code_of d x = Some (sy_P y)) \<and> Sym.sy_Size y = int (length (sy_P y))))"

lemma converted_steps:
  assumes "steps S st st'" "converted c st x" "fn_sym st x \<notin> S"
  shows "converted c st' x"
proof -
  have t: "is_text st (fn_sym st x)" using assms(2) by (simp add: converted_def Let_def)
  then have "same_data (sym_at (cs_ctxt st) (fn_sym st x)) (sym_at (cs_ctxt st') (fn_sym st x))" using steps_data [OF assms(1) _ assms(3)] by (simp add: is_text_def)
  then show ?thesis using assms(2) text_steps [OF assms(1) t assms(3)] fn_sym_steps [OF assms(1)] unfolding converted_def Let_def same_data_def by simp
qed

lemma emit_fns_steps:
  assumes "foldE (emit_fn c fi rs d) xs st = Inr st'" "cs_wf st" "fns_ok c st" "distinct (map (fn_sym st) xs)" "es_Data (ef_Sections (cv_ef c) ! sec) = Some d"
    "\<forall>x\<in>set xs. x \<in> set (cv_fns c) \<and> fx_sec x = sec \<and> is_text st (fn_sym st x)"
  shows "steps (fn_sym st ` set xs) st st' \<and> (\<forall>x\<in>set xs. converted c st' x)"
  using assms
proof (induction xs arbitrary: st)
  case (Cons x xs)
  obtain st1 where a: "emit_fn c fi rs d x st = Inr st1" "foldE (emit_fn c fi rs d) xs st1 = Inr st'" using Cons.prems(1) by auto
  have e: "steps {fn_sym st x} st st1 \<and> is_text st1 (fn_sym st x) \<and>
    (\<not> cv_arm64 c \<longrightarrow> code_of d x = Some (sy_P (sym_at (cs_ctxt st1) (fn_sym st x))) \<and> Sym.sy_Size (sym_at (cs_ctxt st1) (fn_sym st x)) = int (length (sy_P (sym_at (cs_ctxt st1) (fn_sym st x))))) \<and>
    sy_NoSplit (sym_at (cs_ctxt st1) (fn_sym st x)) = (fn_Flags (fx_tab x) AND FuncNosplit \<noteq> 0)"
    using emit_fn_steps [OF a(1) Cons.prems(2,3)] Cons.prems(6) by simp
  then have 1: "steps {fn_sym st x} st st1" by blast
  have f: "fn_sym st1 y = fn_sym st y" for y using fn_sym_steps [OF 1] .
  have c1: "converted c st1 x" using e Cons.prems(5,6) f unfolding converted_def Let_def by auto
  have n: "fn_sym st x \<notin> fn_sym st ` set xs" "distinct (map (fn_sym st) xs)" using Cons.prems(4) by auto
  have "fn_sym st y \<noteq> fn_sym st x" if "y \<in> set xs" for y using n(1) that by (metis imageI)
  then have t: "\<forall>y\<in>set xs. y \<in> set (cv_fns c) \<and> fx_sec y = sec \<and> is_text st1 (fn_sym st1 y)" using Cons.prems(6) text_steps [OF 1] f by simp
  have d: "distinct (map (fn_sym st1) xs)" using n(2) f by (simp cong: map_cong)
  have 2: "steps (fn_sym st ` set xs) st1 st'" "\<forall>y\<in>set xs. converted c st' y"
    using Cons.IH [OF a(2) steps_wf [OF 1] fns_ok_steps [OF 1 Cons.prems(3)] d Cons.prems(5) t] f by (simp_all cong: image_cong)
  have "steps (fn_sym st ` set (x # xs)) st st'" by (rule steps_trans [OF steps_mono [OF 1] steps_mono [OF 2(1)]]) auto
  moreover have "converted c st' x" using converted_steps [OF 2(1) c1] f n(1) by simp
  ultimately show ?case using 2(2) by simp
qed (simp add: steps_refl)

lemma emit_text_steps:
  assumes "emit_text c fi sec st = Inr st'" "cs_wf st" "fns_ok c st" "distinct (map (fn_sym st) (cv_fns c))" "\<forall>x\<in>set (cv_fns c). is_text st (fn_sym st x)"
  shows "steps {fn_sym st x |x. x \<in> set (cv_fns c) \<and> fx_sec x = sec} st st' \<and> (\<forall>x\<in>set (cv_fns c). fx_sec x = sec \<longrightarrow> converted c st' x)"
proof -
  obtain rs d where e: "relas c sec = Inr rs" "es_Data (ef_Sections (cv_ef c) ! sec) = Some d" "foldE (emit_fn c fi rs d) (bySec c sec) st = Inr st'"
    using assms(1) by (auto simp: emit_text_def sbind_Inr_iff split: option.splits)
  have m: "set (bySec c sec) = {x \<in> set (cv_fns c). fx_sec x = sec}" by (auto simp: bySec_def)
  have "inj_on (fn_sym st) (set (cv_fns c))" "distinct (cv_fns c)" using assms(4) by (auto simp: distinct_map)
  then have d: "distinct (map (fn_sym st) (bySec c sec))" by (auto simp: bySec_def distinct_map inj_on_def)
  have i: "fn_sym st ` set (bySec c sec) = {fn_sym st x |x. x \<in> set (cv_fns c) \<and> fx_sec x = sec}" using m by auto
  show ?thesis using emit_fns_steps [OF e(3) assms(2,3) d e(2)] assms(5) m unfolding i by simp
qed

lemma emit_texts_steps:
  assumes "foldE (emit_text c fi) secs st = Inr st'" "cs_wf st" "fns_ok c st" "distinct (map (fn_sym st) (cv_fns c))" "\<forall>x\<in>set (cv_fns c). is_text st (fn_sym st x)" "distinct secs"
  shows "steps {fn_sym st x |x. x \<in> set (cv_fns c) \<and> fx_sec x \<in> set secs} st st' \<and> (\<forall>x\<in>set (cv_fns c). fx_sec x \<in> set secs \<longrightarrow> converted c st' x)"
  using assms
proof (induction secs arbitrary: st)
  case (Cons sec secs)
  obtain st1 where a: "emit_text c fi sec st = Inr st1" "foldE (emit_text c fi) secs st1 = Inr st'" using Cons.prems(1) by auto
  let ?S = "{fn_sym st x |x. x \<in> set (cv_fns c) \<and> fx_sec x = sec}" and ?T = "{fn_sym st x |x. x \<in> set (cv_fns c) \<and> fx_sec x \<in> set secs}"
  have 1: "steps ?S st st1" "\<forall>x\<in>set (cv_fns c). fx_sec x = sec \<longrightarrow> converted c st1 x" using emit_text_steps [OF a(1) Cons.prems(2-5)] by blast+
  have f: "fn_sym st1 y = fn_sym st y" for y using fn_sym_steps [OF 1(1)] .
  have inj: "fn_sym st x = fn_sym st y \<Longrightarrow> x = y" if "x \<in> set (cv_fns c)" "y \<in> set (cv_fns c)" for x y using Cons.prems(4) that by (auto simp: distinct_map inj_on_def)
  have "is_text st1 (fn_sym st1 x)" if x: "x \<in> set (cv_fns c)" for x
  proof (cases "fx_sec x = sec")
    case False
    then have "fn_sym st x \<notin> ?S" using inj x by auto
    then show ?thesis using text_steps [OF 1(1)] Cons.prems(5) x f by simp
  qed (use 1(2) x in \<open>simp add: converted_def Let_def\<close>)
  then have 2: "steps ?T st1 st'" "\<forall>x\<in>set (cv_fns c). fx_sec x \<in> set secs \<longrightarrow> converted c st' x"
    using Cons.IH [OF a(2) steps_wf [OF 1(1)] fns_ok_steps [OF 1(1) Cons.prems(3)]] Cons.prems(4,6) f by (simp_all cong: map_cong)
  have "converted c st' x" if "x \<in> set (cv_fns c)" "fx_sec x = sec" for x
  proof -
    have "fn_sym st1 x \<notin> ?T" using inj that Cons.prems(6) f by auto
    then show ?thesis using converted_steps [OF 2(1)] 1(2) that by blast
  qed
  moreover have "steps {fn_sym st x |x. x \<in> set (cv_fns c) \<and> fx_sec x \<in> set (sec # secs)} st st'"
    by (rule steps_trans [OF steps_mono [OF 1(1)] steps_mono [OF 2(1)]]) auto
  ultimately show ?case using 2(2) by auto
qed (simp add: steps_refl)


section \<open>The whole link\<close>

lemma add_files_ok:
  assumes "add_files fs l = (is, l')" "link_wf l"
  shows "link_wf l' \<and> lk_store l' = lk_store l \<and> lk_Meta l' = lk_Meta l"
  using assms
proof (induction fs arbitrary: l "is")
  case (Cons f fs)
  obtain i l1 "is'" where a: "AddFile f l = (i, l1)" "add_files fs l1 = (is', l')" using Cons.prems(1) by (auto split: prod.splits)
  show ?case using AddFile_ok [OF a(1) Cons.prems(2)] Cons.IH [OF a(2)] by simp
qed simp

definition fn_goName :: "converter \<Rightarrow> fn \<Rightarrow> string" where
  "fn_goName c x = (case cv_goName c (fx_name x) of Some g \<Rightarrow> g | None \<Rightarrow> [])"

definition fn_named :: "converter \<Rightarrow> Link \<Rightarrow> fn \<Rightarrow> sid \<Rightarrow> bool" where
  "fn_named c l x s \<longleftrightarrow> s < length (lk_store l) \<and> Sym.sy_Name (sym_at l s) = fn_goName c x \<and>
     (fx_abi x \<in> {Goobj_Link.ABI0, Goobj_Link.ABIInternal} \<longrightarrow> (fx_abi x = Goobj_Link.ABIInternal \<longleftrightarrow> sy_ABI (sym_at l s) = Goobj_Link.ABIInternal))"

lemma fn_named_frame: "frame S l l' \<Longrightarrow> fn_named c l x s \<Longrightarrow> fn_named c l' x s"
  unfolding frame_def fn_named_def same_id_def by (metis order_less_le_trans)

lemma look_fns_ok:
  assumes "look_fns c xs l = (ss, l')" "link_wf l"
  shows "link_wf l' \<and> frame S l l' \<and> list_all2 (fn_named c l') xs ss"
  using assms
proof (induction xs arbitrary: l ss)
  case (Cons x xs)
  obtain s l1 ss' where a: "LookupABI (fn_goName c x) (fx_abi x) l = (s, l1)" "look_fns c xs l1 = (ss', l')" "ss = s # ss'"
    using Cons.prems(1) by (auto simp: fn_goName_def split: prod.splits)
  have 1: "link_wf l1" "frame S l l1" "fn_named c l1 x s" using LookupABI_ok [OF a(1) Cons.prems(2), of S] by (simp_all add: fn_named_def)
  have 2: "link_wf l'" "frame S l1 l'" "list_all2 (fn_named c l') xs ss'" using Cons.IH [OF a(2) 1(1)] by blast+
  show ?case using 2 a(3) fn_named_frame [OF 2(2) 1(3)] frame_trans1 [OF 1(2) 2(2)] by simp
qed simp

text \<open>The functions know their positions.\<close>

definition ids_ok :: "converter \<Rightarrow> bool" where
  "ids_ok c \<longleftrightarrow> map fx_id (cv_fns c) = [0..<length (cv_fns c)]"

lemma emit_stubs_steps:
  assumes "foldE (emit_stub c) ss st = Inr st'" "cs_wf st" "\<forall>p\<in>set ss. fst p < nsyms st"
  shows "steps (fst ` set ss) st st'"
proof (rule steps_foldE [OF assms(1,2)])
  fix x a b assume a: "x \<in> set ss" "steps (fst ` set ss) st a" "emit_stub c x a = Inr b"
  have "fst x < nsyms a" using steps_len [OF a(2)] assms(3) a(1) by blast
  then have "steps {fst x} a b" using emit_stub_steps [of c "fst x" "snd x" a b] a(3) steps_wf [OF a(2)] by simp
  then show "steps (fst ` set ss) a b" by (rule steps_mono) (use a(1) in auto)
qed

lemma fns_named:
  assumes "list_all2 (fn_named c l) (cv_fns c) ss" "ids_ok c" "x \<in> set (cv_fns c)"
  shows "fx_id x < length ss" "fn_named c l x (ss ! fx_id x)"
proof -
  obtain i where i: "i < length (cv_fns c)" "x = cv_fns c ! i" using assms(3) by (metis in_set_conv_nth)
  have "map fx_id (cv_fns c) ! i = i" using assms(2) i(1) by (simp add: ids_ok_def)
  then have "fx_id x = i" using i by simp
  then show "fx_id x < length ss" "fn_named c l x (ss ! fx_id x)" using assms(1) i by (auto simp: list_all2_conv_all_nth)
qed

lemma convert_link_ok:
  assumes "convert_link c meta header = Inr st" "ids_ok c"
  shows "link_wf (cs_ctxt st) \<and> lk_Meta (cs_ctxt st) = meta \<and> distinct (map (fn_sym st) (cv_fns c)) \<and> (\<forall>x\<in>set (cv_fns c). converted c st x \<and> fn_named c (cs_ctxt st) x (fn_sym st x))"
proof -
  obtain l0 where l0: "NewLink meta (if cv_arm64 c then ''arm64'' else ''amd64'') (cv_pkg c) = Inr l0" using assms(1) by (auto simp: convert_link_def split: sum.splits)
  let ?e = "headerExperiments header"
  let ?l1 = "l0\<lparr>lk_Dwarf5 := (''dwarf5'' \<in> set ?e), lk_RegabiWrappers := (''regabiwrappers'' \<in> set ?e)\<rparr>"
  obtain fi l2 where l2: "add_files (file_names (cv_f c)) ?l1 = (fi, l2)" by fastforce
  obtain ss l3 where l3: "look_fns c (cv_fns c) l2 = (ss, l3)" by fastforce
  define st0 where "st0 = \<lparr>cs_ctxt = l3\<lparr>lk_DwTextCount := int (length (cv_fns c) + length (remdups (map fx_name (cv_fns c))))\<rparr>, cs_sym = ss,
    cs_dataSym = Map.empty, cs_secSym = Map.empty, cs_gotSyms = Map.empty\<rparr>"
  obtain st1 st2 stubs st3 st4 st5 where e: "emitData c st0 = Inr st1" "foldE (init_fn c) (cv_fns c) st1 = Inr st2"
      "foldE (add_stub c) (concat (map inl_nodes (cv_fns c))) ([], st2) = Inr (stubs, st3)" "link_op Flush st3 = Inr st4"
      "foldE (emit_stub c) stubs st4 = Inr st5" "foldE (emit_text c fi) (textSecs c) st5 = Inr st"
    using assms(1) l0 l2 l3 unfolding convert_link_def st0_def Let_def by (auto simp: sbind_Inr_iff)
  have "link_wf ?l1 = link_wf l0" by (simp add: link_wf_def tables_ok_def lists_ok_def unnumbered_def sym_at_def)
  then have w1: "link_wf ?l1" "lk_Meta ?l1 = meta" using NewLink_ok [OF l0] by simp_all
  have w2: "link_wf l2" "lk_Meta l2 = meta" using add_files_ok [OF l2 w1(1)] w1(2) by simp_all
  have w3: "link_wf l3" "frame {} l2 l3" "list_all2 (fn_named c l3) (cv_fns c) ss" using look_fns_ok [OF l3 w2(1)] by blast+
  note n = fns_named [OF w3(3) assms(2)]
  have s0: "\<forall>s\<in>set ss. s < length (lk_store l3)" using w3(3) by (auto simp: list_all2_conv_all_nth in_set_conv_nth fn_named_def)
  have c0: "cs_wf st0" "fns_ok c st0" using w3(1) s0 n(1)
    by (auto simp: st0_def cs_wf_def fns_ok_def nsyms_def link_wf_def tables_ok_def lists_ok_def unnumbered_def sym_at_def)
  have 1: "steps UNIV st0 st1" by (rule emitData_steps [OF e(1) c0])
  have f1: "\<forall>x\<in>set (cv_fns c). fn_sym st1 x < nsyms st1" using fn_sym_valid [OF steps_wf [OF 1] fns_ok_steps [OF 1 c0(2)]] by blast
  have 2: "steps {} st1 st2" "\<forall>x\<in>set (cv_fns c). is_text st2 (fn_sym st1 x)" "distinct (map (fn_sym st1) (cv_fns c))"
    using init_fns_steps [OF e(2) steps_wf [OF 1] f1] by blast+
  have 3: "steps {} st2 st3" "\<forall>p\<in>set stubs. \<not> listed st2 (fst p) \<and> fst p < nsyms st3" using add_stubs_steps [OF e(3) steps_wf [OF 2(1)]] by blast+
  have 4: "steps {} st3 st4" by (rule link_op_steps [OF e(4) steps_wf [OF 3(1)]]) (use Flush_ok steps_wf [OF 3(1)] in \<open>auto simp: cs_wf_def\<close>)
  have 24: "steps {} st2 st4" by (rule steps_trans [OF 3(1) 4])
  have 5: "steps (fst ` set stubs) st4 st5" by (rule emit_stubs_steps [OF e(5) steps_wf [OF 4]]) (use 3(2) steps_len [OF 4] in blast)
  have 14: "steps {} st1 st4" by (rule steps_trans [OF 2(1) 24])
  have 15: "steps UNIV st0 st5" by (rule steps_trans [OF 1 steps_trans [OF steps_mono [OF 14] steps_mono [OF 5]]]) simp_all
  have f: "fn_sym st5 x = fn_sym st1 x" for x using fn_sym_steps [OF 15] fn_sym_steps [OF 1] by simp
  have t: "\<forall>x\<in>set (cv_fns c). is_text st5 (fn_sym st5 x)"
  proof
    fix x assume x: "x \<in> set (cv_fns c)"
    have "listed st2 (fn_sym st1 x)" using 2(2) x by (simp add: is_text_def)
    then have "fn_sym st1 x \<notin> fst ` set stubs" using 3(2) by (metis imageE)
    then show "is_text st5 (fn_sym st5 x)" using text_steps [OF 5 text_steps [OF 24]] 2(2) x f by simp
  qed
  have 6: "steps {fn_sym st5 x |x. x \<in> set (cv_fns c) \<and> fx_sec x \<in> set (textSecs c)} st5 st" "\<forall>x\<in>set (cv_fns c). fx_sec x \<in> set (textSecs c) \<longrightarrow> converted c st x"
    using emit_texts_steps [OF e(6) steps_wf [OF 15] fns_ok_steps [OF 15 c0(2)] _ t] 2(3) f by (simp_all add: textSecs_def cong: map_cong)
  have z: "steps UNIV st0 st" by (rule steps_trans [OF 15 steps_mono [OF 6(1)]]) simp
  have "fn_named c (cs_ctxt st) x (fn_sym st x)" if "x \<in> set (cv_fns c)" for x
  proof -
    have "fn_named c (cs_ctxt st0) x (fn_sym st0 x)" using n(2) [OF that] by (simp add: st0_def fn_sym_def fn_named_def sym_at_def)
    moreover have "frame UNIV (cs_ctxt st0) (cs_ctxt st)" using z by (simp add: steps_def)
    ultimately show ?thesis using fn_sym_steps [OF z] fn_named_frame by simp
  qed
  moreover have "lk_Meta (cs_ctxt st) = meta" using z w3(2) w2(2) by (simp add: steps_def frame_def st0_def)
  moreover have "distinct (map (fn_sym st) (cv_fns c))" using 2(3) fn_sym_steps [OF 6(1)] f by (simp cong: map_cong)
  ultimately show ?thesis using steps_wf [OF z] 6(2) by (simp add: cs_wf_def textSecs_def)
qed


section \<open>What newConverter prepares\<close>

lemma make_fns:
  assumes "foldE (\<lambda>p fns. sbind (make_fn m p) (\<lambda>x. Inr (fns @ [x]))) (enumerate k ts) acc = Inr fns"
  shows "\<exists>xs. fns = acc @ xs \<and> list_all2 (\<lambda>p x. make_fn m p = Inr x) (enumerate k ts) xs"
  using assms
proof (induction ts arbitrary: k acc)
  case (Cons t ts)
  obtain x where x: "make_fn m (k, t) = Inr x" "foldE (\<lambda>p fns. sbind (make_fn m p) (\<lambda>x. Inr (fns @ [x]))) (enumerate (Suc k) ts) (acc @ [x]) = Inr fns"
    using Cons.prems by (auto simp: sbind_Inr_iff)
  obtain xs where "fns = (acc @ [x]) @ xs" "list_all2 (\<lambda>p x. make_fn m p = Inr x) (enumerate (Suc k) ts) xs" using Cons.IH [OF x(2)] by blast
  then show ?case using x(1) by (intro exI [of _ "x # xs"]) simp
qed simp

definition fn_in_elf :: "elf_file \<Rightarrow> elf_symbol list \<Rightarrow> fn \<Rightarrow> bool" where
  "fn_in_elf ef syms x \<longleftrightarrow> fx_name x = fn_Name (fx_tab x) \<and> fx_abi x = fn_abi (fx_tab x) \<and>
     (\<exists>es. elf_funcs ef syms (fn_Name (fx_tab x)) = Some es \<and> fx_sec x = sy_Section es \<and> fx_off x = sy_Value es \<and> fn_TextSize (fx_tab x) \<le> elf_symbol.sy_Size es)"

lemma make_fn_ok: "make_fn (elf_funcs ef syms) (i, t) = Inr x \<Longrightarrow> fx_id x = i \<and> fx_tab x = t \<and> fn_in_elf ef syms x"
  by (auto simp: make_fn_def fn_in_elf_def not_less split: option.splits if_splits)

lemma newConverter_ok:
  assumes "newConverter ef f pkg goarch libcalls = Inr c"
  shows "ids_ok c \<and> map fx_tab (cv_fns c) = gf_Funcs f \<and> cv_ef c = ef \<and> cv_arm64 c = (goarch = ''arm64'') \<and> (\<forall>x\<in>set (cv_fns c). fn_in_elf ef (cv_syms c) x) \<and>
    cv_goName c = map_of (rev (map (\<lambda>x. (fx_name x, go_name pkg (tuTag f) (fx_tab x))) (cv_fns c)))"
proof -
  obtain syms fns where s: "foldE (\<lambda>p fns. sbind (make_fn (elf_funcs ef syms) p) (\<lambda>x. Inr (fns @ [x]))) (enumerate 0 (gf_Funcs f)) [] = Inr fns"
      "cv_fns c = fns" "cv_syms c = syms" "cv_ef c = ef" "cv_arm64 c = (goarch = ''arm64'')"
      "cv_goName c = map_of (rev (map (\<lambda>x. (fx_name x, go_name pkg (tuTag f) (fx_tab x))) fns))"
    using assms by (auto simp: newConverter_def Let_def sbind_Inr_iff split: if_splits elf_symtab.splits)
  have l: "list_all2 (\<lambda>p x. make_fn (elf_funcs ef syms) p = Inr x) (enumerate 0 (gf_Funcs f)) fns" using make_fns [OF s(1)] by auto
  then have n: "length fns = length (gf_Funcs f)" by (auto dest: list_all2_lengthD)
  have m: "fx_id (fns ! i) = i \<and> fx_tab (fns ! i) = gf_Funcs f ! i \<and> fn_in_elf ef syms (fns ! i)" if "i < length fns" for i
    using l that n make_fn_ok [of ef syms i "gf_Funcs f ! i"] by (auto simp: list_all2_conv_all_nth nth_enumerate_eq)
  have "map fx_id fns = [0..<length fns]" "map fx_tab fns = gf_Funcs f" using m n by (auto intro!: nth_equalityI)
  moreover have "\<forall>x\<in>set fns. fn_in_elf ef syms x" using m by (auto simp: in_set_conv_nth)
  ultimately show ?thesis using s by (simp add: ids_ok_def)
qed

lemma fn_goName_distinct:
  assumes "newConverter ef f pkg goarch libcalls = Inr c" "distinct (map fn_Name (gf_Funcs f))" "x \<in> set (cv_fns c)"
  shows "fn_goName c x = go_name pkg (tuTag f) (fx_tab x)"
proof -
  note n = newConverter_ok [OF assms(1)]
  have e: "\<forall>y\<in>set (cv_fns c). fx_name y = fn_Name (fx_tab y)" "map fx_tab (cv_fns c) = gf_Funcs f" using n by (simp_all add: fn_in_elf_def)
  have "map fx_name (cv_fns c) = map fn_Name (map fx_tab (cv_fns c))" using e(1) by simp
  then have "distinct (map fx_name (cv_fns c))" using assms(2) e(2) by simp
  then have "cv_goName c (fx_name x) = Some (go_name pkg (tuTag f) (fx_tab x))"
    using n assms(3) by (subst n [THEN conjunct2, THEN conjunct2, THEN conjunct2, THEN conjunct2, THEN conjunct2]) (auto simp: map_of_eq_Some_iff rev_map [symmetric] o_def comp_def)
  then show ?thesis by (simp add: fn_goName_def)
qed

section \<open>The object file\<close>

definition written_name :: "Meta \<Rightarrow> string \<Rightarrow> string" where
  "written_name meta n = (if wf_TrimInlineHash (me_Writer meta) then TrimInlineHash n else n)"

lemma cv_write_Inr: "cv_write c meta header = Inr file \<Longrightarrow> \<exists>st. convert_link c meta header = Inr st \<and> Write (cs_ctxt st) header = Inr file"
  by (cases "convert_link c meta header") (auto simp: cv_write_def split: sum.split_asm)

text \<open>C5: The converter keeps the symbol table consistent on both architectures: when \<open>write\<close> has filled
  the link, every symbol in it refers to symbols of the link, the name tables lead to symbols of that
  name and ABI, no symbol is listed twice and nothing is numbered yet; every function of the tables has
  a text symbol of its own under its Go name and ABI, marked as its NOSPLIT flag says.\<close>
theorem convert_link_wf:
  assumes "newConverter ef f pkg goarch libcalls = Inr c" "convert_link c meta header = Inr st" "distinct (map fn_Name (gf_Funcs f))"
  shows "link_wf (cs_ctxt st) \<and> distinct (map (fn_sym st) (cv_fns c)) \<and> map fx_tab (cv_fns c) = gf_Funcs f \<and>
    (\<forall>x\<in>set (cv_fns c). let y = sym_at (cs_ctxt st) (fn_sym st x) in fn_sym st x \<in> set (lk_Text (cs_ctxt st)) \<and> sy_Kind y = ''STEXT'' \<and>
      Sym.sy_Name y = go_name pkg (tuTag f) (fx_tab x) \<and> (sy_ABI y = Goobj_Link.ABIInternal \<longleftrightarrow> fn_abi (fx_tab x) = Goobj_Link.ABIInternal) \<and>
      sy_NoSplit y = (fn_Flags (fx_tab x) AND FuncNosplit \<noteq> 0))"
proof -
  note n = newConverter_ok [OF assms(1)]
  note k = convert_link_ok [OF assms(2) n [THEN conjunct1]]
  have "fx_abi x = fn_abi (fx_tab x)" "fx_abi x \<in> {Goobj_Link.ABI0, Goobj_Link.ABIInternal}" if "x \<in> set (cv_fns c)" for x
    using n that by (auto simp: fn_in_elf_def fn_abi_def)
  then show ?thesis using k n fn_goName_distinct [OF assms(1,3)] by (simp add: converted_def fn_named_def is_text_def Let_def)
qed

text \<open>C4: An amd64 object that the converter wrote is read back with every function of the tables: under
  its Go name, as a text symbol, with exactly the bytes that the ELF file holds for it, at their length.
  The names of the functions must differ and the file must be shorter than 4 GiB.\<close>
theorem convert_read:
  assumes "newConverter ef f pkg ''amd64'' libcalls = Inr c" "cv_write c meta header = Inr file" "distinct (map fn_Name (gf_Funcs f))"
    "blocks_ok meta" "pkgs_ok meta" "header_ok meta header" "length file < 2 ^ 32" "t \<in> set (gf_Funcs f)"
  shows "\<exists>es d p r i y. elf_funcs ef (cv_syms c) (fn_Name t) = Some es \<and> es_Data (ef_Sections ef ! sy_Section es) = Some d \<and>
    go_slice d (sy_Value es) (sy_Value es + fn_TextSize t) = Some p \<and> NewReader fv file (Some meta) = Inr r \<and> Sym_of r i = Some y \<and> Data_of r i = Some p \<and>
    rs_Name y = written_name meta (go_name pkg (tuTag f) t) \<and> rs_Type y = word_of_int (geti (me_Kinds meta) (kindName ''STEXT'')) \<and> rs_Siz y = word_of_nat (length p)"
proof -
  note n = newConverter_ok [OF assms(1)]
  obtain st where st: "convert_link c meta header = Inr st" "Write (cs_ctxt st) header = Inr file" using cv_write_Inr [OF assms(2)] by blast
  note k = convert_link_ok [OF st(1) n [THEN conjunct1]]
  have "t \<in> fx_tab ` set (cv_fns c)" using n assms(8) by (metis set_map)
  then obtain x where x: "x \<in> set (cv_fns c)" "fx_tab x = t" by blast
  let ?s = "fn_sym st x" let ?y = "sym_at (cs_ctxt st) ?s"
  have m: "lk_Meta (cs_ctxt st) = meta" "link_wf (cs_ctxt st)" "\<not> cv_arm64 c" "cv_ef c = ef" using k n by auto
  have c: "converted c st x" "fn_named c (cs_ctxt st) x ?s" using k x(1) by blast+
  obtain d where d: "es_Data (ef_Sections ef ! fx_sec x) = Some d" "code_of d x = Some (sy_P ?y)" "Sym.sy_Size ?y = int (length (sy_P ?y))"
    using c(1) m(3,4) by (auto simp: converted_def Let_def)
  obtain es where es: "elf_funcs ef (cv_syms c) (fn_Name t) = Some es" "fx_sec x = sy_Section es" "fx_off x = sy_Value es"
    using n x by (auto simp: fn_in_elf_def)
  have s: "?s < length (lk_store (cs_ctxt st))" "?s \<in> set (lk_Text (cs_ctxt st))" "sy_Kind ?y = ''STEXT''" using c(1) by (auto simp: converted_def Let_def is_text_def listed_def nsyms_def)
  have "sym_wf (length (lk_store (cs_ctxt st))) ?y" using m(2) s(1) by (simp add: link_wf_def)
  then have "\<forall>r\<in>set (sy_R ?y). \<forall>t. rl_Sym r = Some t \<longrightarrow> t < length (lk_store (cs_ctxt st))"
    by (force simp: sym_wf_def sym_refs_def set_opts)
  then obtain r i where r: "NewReader fv file (Some meta) = Inr r" "Sym_of r i = Some (rsym_of (cs_ctxt st) ?s)" "Data_of r i = Some (sy_P ?y)"
    using write_reads [OF st(2) link_wf_fresh [OF m(2)], of ?s fv] assms(4-7) s m(1) by auto
  have "rs_Name (rsym_of (cs_ctxt st) ?s) = written_name meta (go_name pkg (tuTag f) t)"
    using c(2) fn_goName_distinct [OF assms(1,3) x(1)] x(2) m(1) by (simp add: rsym_of_def Let_def sym_name_def written_name_def fn_named_def)
  moreover have "rs_Type (rsym_of (cs_ctxt st) ?s) = word_of_int (geti (me_Kinds meta) (kindName ''STEXT''))" "rs_Siz (rsym_of (cs_ctxt st) ?s) = word_of_nat (length (sy_P ?y))"
    using s(3) d(3) m(1) by (simp_all add: rsym_of_def Let_def sym_kind_def)
  ultimately show ?thesis using es d(1,2) r x(2) by (auto simp: code_of_def)
qed

end
