(* ===== verification/Convert_Example.thy ===== *)
theory Convert_Example
  imports Convert_Object
begin

text \<open>
  A function that calls itself, through the whole converter: the ELF file, the tables, the object file
  that \<open>write\<close> produces and what the reader finds in it.
\<close>

section \<open>Equations for evaluation\<close>

text \<open>Little-endian numbers are added up as integers. The state is matched, so that nothing is evaluated
  before the state is known. Only the length of a content hash matters here.\<close>

fun un_le_int :: "byte list \<Rightarrow> int" where
  "un_le_int [] = 0"
| "un_le_int (b # bs) = uint b + 256 * un_le_int bs"

lemma un_le_int: "int (un_le bs) = un_le_int bs"
  by (induction bs) simp_all

lemma un_le_code [code]: "un_le16 bs = word_of_int (un_le_int (take 2 bs))" "un_le32 bs = word_of_int (un_le_int (take 4 bs))" "un_le64 bs = word_of_int (un_le_int (take 8 bs))"
  by (simp_all add: un_le16_def un_le32_def un_le64_def flip: un_le_int)

lemma sbind_case [code_unfold]: "sbind m f = (case m of Inl e \<Rightarrow> Inl e | Inr x \<Rightarrow> f x)"
  by (cases m) simp_all

lemma pctab_code [code]: "pctab sz ents \<lparr>cs_ctxt = l, cs_sym = a, cs_dataSym = b, cs_secSym = d, cs_gotSyms = g\<rparr> =
    (let (s, l') = Pctab (pcbytes (ar_MinLC (lk_Arch l)) sz ents) l in (s, \<lparr>cs_ctxt = l', cs_sym = a, cs_dataSym = b, cs_secSym = d, cs_gotSyms = g\<rparr>))"
  by (simp add: pctab_def Let_def)

lemma skip_global_code [code]: "skip_global c es \<longleftrightarrow> (let secs = ef_Sections (cv_ef c); sec = sy_Section es; ty = ST_TYPE (sy_Info es); b = ST_BIND (sy_Info es) in
     sec = SHN_UNDEF \<or> int sec \<ge> 0xff00 \<or> sec \<ge> length secs \<or> elf_symbol.sy_Size es = 0 \<or> elf_symbol.sy_Name es = [] \<or> isText c sec \<or>
     (ty \<noteq> STT_OBJECT \<and> ty \<noteq> STT_NOTYPE) \<or> (b \<noteq> STB_GLOBAL \<and> b \<noteq> STB_WEAK) \<or> es_Flags (secs ! sec) AND SHF_ALLOC = 0)"
  by (simp add: skip_global_def Let_def)

definition sha_byte :: "byte list \<Rightarrow> nat \<Rightarrow> byte" where
  [code del]: "sha_byte m i = sha256 m ! i"

lemma sha256_code [code]: "sha256 m = map (sha_byte m) [0..<32]"
  by (rule nth_equalityI) (simp_all add: sha_byte_def)

section \<open>The example\<close>

definition cex_func :: func where
  "cex_func = wrap_func\<lparr>fn_Name := ''f'', fn_TextSize := 6\<rparr>"

definition cex_file :: gfile where
  "cex_file = wrap_file\<lparr>gf_Files := [''f.c''], gf_Funcs := [cex_func],
     gf_Relocs := [\<lparr>rl_Func = ''f'', rl_Offset = 1, rl_Width = 4, rl_Kind = RCall, rl_Target = ''f'', rl_Addend = - 4, rl_Flags = 0\<rparr>]\<rparr>"

definition cex_elf :: elf_file where
  "cex_elf = \<lparr>ef_Machine = EM_X86_64, ef_Sections =
     [\<lparr>es_Name = [], es_Type = 0, es_Flags = 0, es_Size = 0, es_Data = Some []\<rparr>,
      \<lparr>es_Name = ''.text'', es_Type = SHT_PROGBITS, es_Flags = SHF_ALLOC OR SHF_EXECINSTR, es_Size = 6, es_Data = Some [0xE8, 0, 0, 0, 0, 0xC3]\<rparr>,
      \<lparr>es_Name = ''.rela.text'', es_Type = 4, es_Flags = 0, es_Size = 24, es_Data = Some (le64 1 @ le64 0x100000004 @ le64 (- 4))\<rparr>],
     ef_Symtab = Syms [\<lparr>elf_symbol.sy_Name = ''f'', sy_Info = 0x12, sy_Section = 1, sy_Value = 0, elf_symbol.sy_Size = 6\<rparr>]\<rparr>"

definition cex_ok :: "conv_err + converter \<Rightarrow> bool" where
  "cex_ok k = (case k of Inl _ \<Rightarrow> False | Inr c \<Rightarrow> (case cv_write c go124 ex_hdr of Inl _ \<Rightarrow> False | Inr b \<Rightarrow> length b < 5000))"

lemma cex_written: "cex_ok (newConverter cex_elf cex_file ''main'' ''amd64'' [])"
  by code_simp

lemma cex_obtain:
  obtains c b where "newConverter cex_elf cex_file ''main'' ''amd64'' [] = Inr c" "cv_write c go124 ex_hdr = Inr b" "length b < 5000"
  using cex_written by (auto simp: cex_ok_def split: sum.splits)

lemma cex_name: "go_name ''main'' (tuTag cex_file) cex_func = ''main.f''" "gf_Funcs cex_file = [cex_func]"
  by (simp_all add: go_name_def cex_func_def cex_file_def wrap_func_def)

theorem convert_link_wf_witness:
  "\<exists>c st. newConverter cex_elf cex_file ''main'' ''amd64'' [] = Inr c \<and> convert_link c go124 ex_hdr = Inr st \<and> link_wf (cs_ctxt st) \<and>
    (\<exists>s\<in>set (lk_Text (cs_ctxt st)). Sym.sy_Name (sym_at (cs_ctxt st) s) = ''main.f'')"
proof -
  obtain c b where c: "newConverter cex_elf cex_file ''main'' ''amd64'' [] = Inr c" "cv_write c go124 ex_hdr = Inr b" by (rule cex_obtain)
  obtain st where st: "convert_link c go124 ex_hdr = Inr st" using cv_write_Inr [OF c(2)] by blast
  have w: "link_wf (cs_ctxt st)" "map fx_tab (cv_fns c) = [cex_func]" "\<forall>x\<in>set (cv_fns c). fn_sym st x \<in> set (lk_Text (cs_ctxt st)) \<and>
      Sym.sy_Name (sym_at (cs_ctxt st) (fn_sym st x)) = go_name ''main'' (tuTag cex_file) (fx_tab x)"
    using convert_link_wf [OF c(1) st] by (simp_all add: cex_name Let_def)
  then obtain x where "x \<in> set (cv_fns c)" "fx_tab x = cex_func" by (metis list.set_intros(1) list.simps(9) list.exhaust list.simps(8) not_Cons_self2 list.inject)
  then show ?thesis using c(1) st w cex_name by metis
qed

theorem convert_read_witness:
  "\<exists>c file r i y. newConverter cex_elf cex_file ''main'' ''amd64'' [] = Inr c \<and> cv_write c go124 ex_hdr = Inr file \<and>
    NewReader (\<lambda>v. Inl (BadVersion v)) file (Some go124) = Inr r \<and> Sym_of r i = Some y \<and> rs_Name y = ''main.f'' \<and> rs_Siz y = 6 \<and> Data_of r i = Some [0xE8, 0, 0, 0, 0, 0xC3]"
proof -
  obtain c b where c: "newConverter cex_elf cex_file ''main'' ''amd64'' [] = Inr c" "cv_write c go124 ex_hdr = Inr b" "length b < 5000" by (rule cex_obtain)
  have "cv_syms c = [\<lparr>elf_symbol.sy_Name = ''f'', sy_Info = 0x12, sy_Section = 1, sy_Value = 0, elf_symbol.sy_Size = 6\<rparr>]"
    using c(1) by (auto simp: newConverter_def cex_elf_def Let_def sbind_Inr_iff split: if_splits)
  then have e: "elf_funcs cex_elf (cv_syms c) (fn_Name cex_func) = Some \<lparr>elf_symbol.sy_Name = ''f'', sy_Info = 0x12, sy_Section = 1, sy_Value = 0, elf_symbol.sy_Size = 6\<rparr>"
    by (simp add: elf_funcs_def cex_elf_def cex_func_def ST_TYPE_def)
  have s: "es_Data (ef_Sections cex_elf ! 1) = Some [0xE8, 0, 0, 0, 0, 0xC3]" "go_slice [0xE8, 0, 0, 0, 0, 0xC3] 0 (0 + fn_TextSize cex_func) = Some [0xE8, 0, 0, 0, 0, 0xC3]"
    by (simp_all add: cex_elf_def go_slice_def cex_func_def)
  have "written_name go124 ''main.f'' = ''main.f''" by (simp add: written_name_def go124_def go124_writer_def)
  then show ?thesis using convert_read [OF c(1,2), of cex_func "\<lambda>v. Inl (BadVersion v)"] c e s ex_meta by (auto simp: cex_name)
qed

end
