(* ===== verification/Goobj_Diff.thy ===== *)
theory Goobj_Diff
  imports Goobj_Read Table_Asm "HOL-Library.List_Lexorder" "HOL-Library.Char_ord"
begin

text \<open>
  The comparison of two loaded objects, \<open>diffCompare\<close> of \<open>internal/goobj/diff.go\<close>. The maps of an object are
  association lists with distinct keys. \<open>diffLoad\<close>, which fills them from a \<open>Reader\<close>, is not modelled here: the
  resolution of its references is in \<open>Goobj_Read\<close>, the decoding of its pc tables in \<open>Pcvalue\<close>.
\<close>

section \<open>Loaded objects\<close>

record diffReloc =
  dr_Off :: i32
  dr_Siz :: u8
  dr_Type :: string
  dr_Target :: string
  dr_Add :: i64

record diffSym =
  ds_Name :: string
  ds_ABI :: u16
  ds_Type :: string
  ds_Flag :: string
  ds_Flag2 :: string
  ds_Siz :: u32
  ds_Align :: u32
  ds_Data :: "byte list"
  ds_Relocs :: "diffReloc list"
  ds_Aux :: "(string \<times> string) list"

record diffObject =
  do_Header :: string
  do_Syms :: "(string \<times> diffSym) list"

section \<open>Rendering\<close>

text \<open>\<open>fmt.Sprint\<close> of a relocation and of a slice of them.\<close>

definition show_reloc :: "diffReloc \<Rightarrow> string" where
  "show_reloc r = ''{'' @ dec_int (sint (dr_Off r)) @ '' '' @ dec_nat (unat (dr_Siz r)) @ '' '' @ dr_Type r @ '' '' @ dr_Target r @ '' '' @ dec_int (sint (dr_Add r)) @ ''}''"

definition Sprint :: "diffReloc list \<Rightarrow> string" where
  "Sprint rs = ''['' @ join '' '' (map show_reloc rs) @ '']''"

definition diffClip :: "string \<Rightarrow> string" where
  "diffClip s = (if length s > 200 then take 200 s @ ''...'' else s)"

text \<open>The first number at which the two lists differ.\<close>

definition reloc_text :: "diffReloc list \<Rightarrow> nat \<Rightarrow> string" where
  "reloc_text rs i = (if i < length rs then show_reloc (rs ! i) else ''-'')"

definition diffFirstReloc :: "diffReloc list \<Rightarrow> diffReloc list \<Rightarrow> string" where
  "diffFirstReloc a b = (case find (\<lambda>i. reloc_text a i \<noteq> reloc_text b i) [0..<max (length a) (length b)] of
     None \<Rightarrow> []
   | Some i \<Rightarrow> ''#'' @ dec_nat i @ '' '' @ reloc_text a i @ '' vs '' @ reloc_text b i @ '' (counts '' @ dec_nat (length a) @ ''/'' @ dec_nat (length b) @ '')'')"

section \<open>Comparing\<close>

text \<open>The keys of two maps, sorted.\<close>

definition diffUnionKeys :: "(string \<times> 'a) list \<Rightarrow> (string \<times> 'b) list \<Rightarrow> string list" where
  "diffUnionKeys a b = sort (remdups (map fst a @ map fst b))"

text \<open>Indexing a map of strings gives the empty string for a key it does not have.\<close>

definition aux_value :: "diffSym \<Rightarrow> string \<Rightarrow> string" where
  "aux_value y k = (case map_of (ds_Aux y) k of Some v \<Rightarrow> v | None \<Rightarrow> [])"

definition attrs :: "diffSym \<Rightarrow> string \<times> string \<times> string \<times> u32 \<times> u32" where
  "attrs y = (ds_Type y, ds_Flag y, ds_Flag2 y, ds_Siz y, ds_Align y)"

definition attrs_line :: "string \<Rightarrow> diffSym \<Rightarrow> diffSym \<Rightarrow> string" where
  "attrs_line k x y = k @ '': attrs type='' @ ds_Type x @ ''/'' @ ds_Type y @ '' flag=['' @ ds_Flag x @ '']/['' @ ds_Flag y @ ''] flag2=['' @ ds_Flag2 x @ '']/['' @ ds_Flag2 y @
     ''] size='' @ dec_nat (unat (ds_Siz x)) @ ''/'' @ dec_nat (unat (ds_Siz y)) @ '' align='' @ dec_nat (unat (ds_Align x)) @ ''/'' @ dec_nat (unat (ds_Align y))"

definition data_line :: "string \<Rightarrow> diffSym \<Rightarrow> diffSym \<Rightarrow> string" where
  "data_line k x y = k @ '': data differs ('' @ dec_nat (length (filter (\<lambda>(a, b). a \<noteq> b) (zip (ds_Data x) (ds_Data y)))) @ '' bytes, len '' @
     dec_nat (length (ds_Data x)) @ ''/'' @ dec_nat (length (ds_Data y)) @ '')''"

definition compare_syms :: "string \<Rightarrow> diffSym \<Rightarrow> diffSym \<Rightarrow> string list" where
  "compare_syms k x y =
     (if attrs x \<noteq> attrs y then [attrs_line k x y] else []) @
     (if ds_Data x \<noteq> ds_Data y then [data_line k x y] else []) @
     (if Sprint (ds_Relocs x) \<noteq> Sprint (ds_Relocs y) then [k @ '': relocs differ: '' @ diffFirstReloc (ds_Relocs x) (ds_Relocs y)] else []) @
     concat (map (\<lambda>ak. if aux_value x ak \<noteq> aux_value y ak
       then [k @ '': '' @ ak @ '' differs:'' @ [CHR 0x0A] @ ''  A '' @ diffClip (aux_value x ak) @ [CHR 0x0A] @ ''  B '' @ diffClip (aux_value y ak)] else []) (diffUnionKeys (ds_Aux x) (ds_Aux y)))"

definition compare_key :: "diffObject \<Rightarrow> diffObject \<Rightarrow> string \<Rightarrow> string list" where
  "compare_key a b k = (case map_of (do_Syms a) k of
     None \<Rightarrow> [''only in B: '' @ k]
   | Some x \<Rightarrow> (case map_of (do_Syms b) k of None \<Rightarrow> [''only in A: '' @ k] | Some y \<Rightarrow> compare_syms k x y))"

definition diffCompare :: "diffObject \<Rightarrow> diffObject \<Rightarrow> string list" where
  "diffCompare a b = (if do_Header a \<noteq> do_Header b then [''header: '' @ go_quote (do_Header a) @ '' vs '' @ go_quote (do_Header b)] else []) @
     concat (map (compare_key a b) (diffUnionKeys (do_Syms a) (do_Syms b)))"

section \<open>Rendering loses nothing\<close>

lemma split_first: "c \<notin> set a \<Longrightarrow> c \<notin> set b \<Longrightarrow> a @ c # x = b @ c # y \<longleftrightarrow> a = b \<and> x = y"
  by (induction a arbitrary: b) (case_tac b; auto)+

lemma split_last: "c \<notin> set x \<Longrightarrow> c \<notin> set y \<Longrightarrow> a @ c # x = b @ c # y \<longleftrightarrow> a = b \<and> x = y"
  using split_first [of c "rev x" "rev y" "rev a" "rev b"] rev_is_rev_conv [of "a @ c # x" "b @ c # y"] by auto

definition digit_char :: "char \<Rightarrow> bool" where
  "digit_char c \<longleftrightarrow> 48 \<le> (of_char c :: nat) \<and> (of_char c :: nat) \<le> 57"

lemma of_char_digit [simp]: "n < 10 \<Longrightarrow> of_char (char_of (48 + n) :: char) = 48 + n" for n :: nat
  by simp

lemma dec_nat_digits: "c \<in> set (dec_nat n) \<Longrightarrow> digit_char c"
proof (induction n rule: dec_nat.induct)
  case (1 n)
  then show ?case
    by (subst (asm) (2) dec_nat.simps) (auto simp: digit_char_def split: if_splits)
qed

lemma dec_nat_not_Nil [simp]: "dec_nat n \<noteq> []" "[] \<noteq> dec_nat n"
  by (subst dec_nat.simps, simp)+

lemma char_digit_inj: "m < 10 \<Longrightarrow> n < 10 \<Longrightarrow> (char_of (48 + m) :: char) = char_of (48 + n) \<longleftrightarrow> m = n" for m n :: nat
  by (metis of_char_digit add_left_cancel)

lemma dec_nat_inj [simp]: "dec_nat m = dec_nat n \<longleftrightarrow> m = n"
proof
  show "dec_nat m = dec_nat n \<Longrightarrow> m = n"
  proof (induction m arbitrary: n rule: dec_nat.induct)
    case (1 m)
    note eq = 1(2) [unfolded dec_nat.simps [of m] dec_nat.simps [of n]]
    show ?case
    proof (cases "m < 10 \<or> n < 10")
      case True
      then show ?thesis using eq by (auto simp: char_digit_inj split: if_splits)
    next
      case False
      then have "dec_nat (m div 10) = dec_nat (n div 10)" "m mod 10 = n mod 10"
        using eq by (auto simp: char_digit_inj)
      then have "m div 10 = n div 10" using 1(1) False by blast
      then show ?thesis using \<open>m mod 10 = n mod 10\<close> by (metis div_mult_mod_eq)
    qed
  qed
qed simp

lemma dec_nat_minus: "CHR 0x2D \<notin> set (dec_nat n)"
  using dec_nat_digits by (force simp: digit_char_def)

lemma dec_int_inj [simp]: "dec_int i = dec_int j \<longleftrightarrow> i = j"
proof -
  have "CHR 0x2D # x \<noteq> dec_nat n" for x n
    using dec_nat_minus [of n] by (metis list.set_intros(1))
  then show ?thesis by (auto simp: dec_int_def dest: sym)
qed

lemma dec_int_chars: "c \<in> set (dec_int i) \<Longrightarrow> digit_char c \<or> c = CHR 0x2D"
  using dec_nat_digits by (auto simp: dec_int_def split: if_splits)

lemma dec_plain [simp]:
  "CHR '' '' \<notin> set (dec_nat n)" "CHR ''}'' \<notin> set (dec_nat n)" "CHR '' '' \<notin> set (dec_int i)" "CHR ''}'' \<notin> set (dec_int i)"
  using dec_nat_digits [of _ n] dec_int_chars [of _ i] by (force simp: digit_char_def)+

text \<open>Names that \<open>fmt.Sprint\<close> renders unambiguously: no space in a relocation's type, no brace in its names.\<close>

definition plain_reloc :: "diffReloc \<Rightarrow> bool" where
  "plain_reloc r \<longleftrightarrow> CHR '' '' \<notin> set (dr_Type r) \<and> CHR ''}'' \<notin> set (dr_Type r) \<and> CHR ''}'' \<notin> set (dr_Target r)"

definition reloc_inner :: "diffReloc \<Rightarrow> string" where
  "reloc_inner r = dec_int (sint (dr_Off r)) @ CHR '' '' # dec_nat (unat (dr_Siz r)) @ CHR '' '' # dr_Type r @ CHR '' '' # dr_Target r @ CHR '' '' # dec_int (sint (dr_Add r))"

lemma show_reloc_inner: "show_reloc r = CHR ''{'' # reloc_inner r @ [CHR ''}'']"
  by (simp add: show_reloc_def reloc_inner_def)

lemma reloc_inner_brace: "plain_reloc r \<Longrightarrow> CHR ''}'' \<notin> set (reloc_inner r)"
  by (simp add: plain_reloc_def reloc_inner_def)

lemma reloc_inner_inj:
  assumes "plain_reloc r" "plain_reloc q"
  shows "reloc_inner r = reloc_inner q \<longleftrightarrow> r = q"
proof
  assume "reloc_inner r = reloc_inner q"
  then have "dec_int (sint (dr_Off r)) = dec_int (sint (dr_Off q))" "dec_nat (unat (dr_Siz r)) = dec_nat (unat (dr_Siz q))"
    "dr_Type r = dr_Type q" "dr_Target r = dr_Target q" "dec_int (sint (dr_Add r)) = dec_int (sint (dr_Add q))"
    using assms by (simp_all add: reloc_inner_def plain_reloc_def split_first split_last)
  then show "r = q" by (intro diffReloc.equality) (simp_all add: signed_word_eqI unsigned_word_eqI)
qed simp

lemma Sprint_Cons: "join '' '' (map show_reloc (r # rs)) = CHR ''{'' # reloc_inner r @ CHR ''}'' # (if rs = [] then [] else CHR '' '' # join '' '' (map show_reloc rs))"
  by (cases rs) (simp_all add: show_reloc_inner)

lemma join_relocs_inj:
  "list_all plain_reloc rs \<Longrightarrow> list_all plain_reloc qs \<Longrightarrow> join '' '' (map show_reloc rs) = join '' '' (map show_reloc qs) \<longleftrightarrow> rs = qs"
proof (induction rs arbitrary: qs)
  case Nil
  then show ?case by (cases qs) (simp_all add: Sprint_Cons del: list.map(2))
next
  case (Cons r rs)
  show ?case
  proof (cases qs)
    case Nil
    then show ?thesis by (simp add: Sprint_Cons del: list.map(2))
  next
    case [simp]: (Cons q qs')
    show ?thesis using Cons.prems Cons.IH [of qs']
      by (auto simp: Sprint_Cons split_first reloc_inner_brace reloc_inner_inj simp del: list.map)
  qed
qed

lemma Sprint_inj: "list_all plain_reloc rs \<Longrightarrow> list_all plain_reloc qs \<Longrightarrow> Sprint rs = Sprint qs \<longleftrightarrow> rs = qs"
  by (simp add: Sprint_def join_relocs_inj)

section \<open>No difference means equal objects\<close>

text \<open>What two loaded objects have to agree on; the auxiliary tables agree as maps, so that a table only one symbol has is a
  difference. An object is plain when its relocations are rendered unambiguously and none of its auxiliary tables is the
  empty string, which is what the comparison takes a missing table for.\<close>

definition same_sym :: "diffSym \<Rightarrow> diffSym \<Rightarrow> bool" where
  "same_sym x y \<longleftrightarrow> attrs x = attrs y \<and> ds_Data x = ds_Data y \<and> ds_Relocs x = ds_Relocs y \<and> map_of (ds_Aux x) = map_of (ds_Aux y)"

definition plain_sym :: "diffSym \<Rightarrow> bool" where
  "plain_sym y \<longleftrightarrow> list_all plain_reloc (ds_Relocs y) \<and> list_all (\<lambda>(k, v). v \<noteq> []) (ds_Aux y)"

definition plain_object :: "diffObject \<Rightarrow> bool" where
  "plain_object o' \<longleftrightarrow> list_all (\<lambda>(k, y). plain_sym y) (do_Syms o')"

lemma set_diffUnionKeys [simp]: "set (diffUnionKeys a b) = dom (map_of a) \<union> dom (map_of b)"
  by (simp add: diffUnionKeys_def dom_map_of_conv_image_fst)

lemma aux_values_eq: "(\<forall>k\<in>set (diffUnionKeys (ds_Aux x) (ds_Aux y)). aux_value x k = aux_value y k) \<longleftrightarrow> aux_value x = aux_value y"
  by (fastforce simp: fun_eq_iff aux_value_def split: option.splits)

lemma aux_value_Some: "plain_sym z \<Longrightarrow> map_of (ds_Aux z) k = (if aux_value z k = [] then None else Some (aux_value z k))"
  by (auto simp: aux_value_def plain_sym_def list_all_iff split: option.splits dest!: map_of_SomeD)

lemma aux_value_map:
  assumes "plain_sym x" "plain_sym y"
  shows "aux_value x = aux_value y \<longleftrightarrow> map_of (ds_Aux x) = map_of (ds_Aux y)"
proof
  assume "aux_value x = aux_value y"
  then show "map_of (ds_Aux x) = map_of (ds_Aux y)" by (intro ext) (simp only: aux_value_Some [OF assms(1)] aux_value_Some [OF assms(2)])
next
  assume "map_of (ds_Aux x) = map_of (ds_Aux y)"
  then show "aux_value x = aux_value y" by (intro ext) (simp add: aux_value_def)
qed

lemma compare_syms_Nil:
  assumes "plain_sym x" "plain_sym y"
  shows "compare_syms k x y = [] \<longleftrightarrow> same_sym x y"
  using assms by (auto simp: compare_syms_def same_sym_def plain_sym_def Sprint_inj aux_value_map [OF assms, symmetric] simp flip: aux_values_eq)

lemma plain_objectD: "plain_object o' \<Longrightarrow> map_of (do_Syms o') k = Some y \<Longrightarrow> plain_sym y"
  by (auto simp: plain_object_def list_all_iff dest!: map_of_SomeD)

lemma compare_key_Nil:
  assumes "plain_object a" "plain_object b" "k \<in> set (diffUnionKeys (do_Syms a) (do_Syms b))"
  shows "compare_key a b k = [] \<longleftrightarrow> rel_option same_sym (map_of (do_Syms a) k) (map_of (do_Syms b) k)"
  using assms by (auto simp: compare_key_def compare_syms_Nil plain_objectD split: option.splits)

text \<open>C37: \<open>Diff\<close> reports no line for two loaded objects exactly when they have the same header and the same symbol keys,
  and under each key the same kind, flags, size and alignment, the same bytes, the same relocations and the same
  auxiliary tables. The comparison goes through the printed form of the relocations and takes a missing table for an
  empty one, so this is for objects in which no relocation type has a space, no name of a relocation has a closing
  brace, and no auxiliary table is the empty string.\<close>

theorem diffCompare_exact:
  assumes "plain_object a" "plain_object b"
  shows "diffCompare a b = [] \<longleftrightarrow>
    do_Header a = do_Header b \<and> (\<forall>k. rel_option same_sym (map_of (do_Syms a) k) (map_of (do_Syms b) k))"
proof -
  have "(\<forall>k\<in>set (diffUnionKeys (do_Syms a) (do_Syms b)). rel_option same_sym (map_of (do_Syms a) k) (map_of (do_Syms b) k)) \<longleftrightarrow>
      (\<forall>k. rel_option same_sym (map_of (do_Syms a) k) (map_of (do_Syms b) k))"
    by (auto simp: option_rel_Some1 option_rel_Some2)
  then show ?thesis using compare_key_Nil [OF assms] by (simp add: diffCompare_def)
qed

text \<open>Two objects with one function each, that differ in the addend of a relocation.\<close>

definition dx_sym :: "i64 \<Rightarrow> diffSym" where
  "dx_sym d = \<lparr>ds_Name = ''f'', ds_ABI = 1, ds_Type = ''STEXT'', ds_Flag = ''Local'', ds_Flag2 = [], ds_Siz = 5, ds_Align = 16, ds_Data = [232, 0, 0, 0, 0],
     ds_Relocs = [\<lparr>dr_Off = 1, dr_Siz = 4, dr_Type = ''R_CALL'', dr_Target = ''g'', dr_Add = d\<rparr>], ds_Aux = [(''pcsp'', ''[0,5)=8'')]\<rparr>"

definition dx_object :: "i64 \<Rightarrow> diffObject" where
  "dx_object d = \<lparr>do_Header = ''go object linux amd64'', do_Syms = [(''f<1>'', dx_sym d)]\<rparr>"

theorem diffCompare_exact_witness:
  "diffCompare (dx_object 0) (dx_object 0) = [] \<and> diffCompare (dx_object 0) (dx_object (- 4)) = [''f<1>: relocs differ: #0 {1 4 R_CALL g 0} vs {1 4 R_CALL g -4} (counts 1/1)'']"
proof -
  have plain: "plain_object (dx_object d)" for d
    by (simp add: plain_object_def plain_sym_def dx_object_def dx_sym_def plain_reloc_def)
  have "diffCompare (dx_object 0) (dx_object 0) = []"
    using diffCompare_exact [OF plain plain, of 0 0] by (auto simp: rel_option_iff same_sym_def split: option.splits)
  moreover have "diffCompare (dx_object 0) (dx_object (- 4)) = [''f<1>: relocs differ: #0 {1 4 R_CALL g 0} vs {1 4 R_CALL g -4} (counts 1/1)'']"
    by code_simp
  ultimately show ?thesis ..
qed

end
