(* ===== verification/Goc_Flags.thy ===== *)
theory Goc_Flags
  imports Goobj_Read Gocobj_Format
begin

text \<open>
  The command line of \<open>goc\<close> (\<open>cmd/goc/flags.go\<close>, and the argument loops of \<open>gocmd.go\<close> and \<open>main.go\<close>): the
  compile switches, their defaults and the line that \<open>goc go\<close> prints of them. The directory that
  \<open>os.MkdirTemp\<close> makes is a parameter; what the commands do with the settings is not modelled here.
  \<open>strings.Fields\<close> splits at the ASCII spaces.
\<close>

section \<open>Settings\<close>

record Options =
  op_Src :: string
  op_Out :: string
  op_OptLevel :: int
  op_DefaultPtrColor :: string
  op_FastStackAlloca :: bool
  op_ColorReport :: bool
  op_Arch :: string
  op_KeepTmp :: string
  op_OptExtra :: "string list"
  op_LLCExtra :: "string list"
  op_Pkg :: string
  op_IRRenames :: string
  op_LibcallImpl :: string
  op_ABI0 :: bool
  op_ClangArgs :: "string list"

definition options0 :: Options where
  "options0 = \<lparr>op_Src = [], op_Out = [], op_OptLevel = 0, op_DefaultPtrColor = [], op_FastStackAlloca = False, op_ColorReport = False, op_Arch = [],
     op_KeepTmp = [], op_OptExtra = [], op_LLCExtra = [], op_Pkg = [], op_IRRenames = [], op_LibcallImpl = [], op_ABI0 = False, op_ClangArgs = []\<rparr>"

record settings =
  se_o :: Options
  se_seen :: "string set"

definition newSettings :: settings where
  "newSettings = \<lparr>se_o = options0, se_seen = {}\<rparr>"

definition set_o :: "(Options \<Rightarrow> Options) \<Rightarrow> settings \<Rightarrow> settings" where
  "set_o f s = s\<lparr>se_o := f (se_o s)\<rparr>"

definition see :: "string \<Rightarrow> settings \<Rightarrow> settings" where
  "see k s = s\<lparr>se_seen := insert k (se_seen s)\<rparr>"

section \<open>consume\<close>

definition starts :: "string \<Rightarrow> string \<Rightarrow> bool" where
  "starts p a \<longleftrightarrow> take (length p) a = p"

text \<open>\<open>value\<close>: a switch with its value in the next argument, which may not be empty, or behind \<open>=\<close>. The
  first argument of the list is \<open>args[i]\<close>.\<close>

definition flag_value :: "string \<Rightarrow> string list \<Rightarrow> (string + string \<times> nat) option" where
  "flag_value name args = (let a = hd args in
     if a = name then Some (case tl args of v # _ \<Rightarrow> if v = [] then Inl (a @ '' needs a value'') else Inr (v, 2) | [] \<Rightarrow> Inl (a @ '' needs a value''))
     else if starts (name @ ''='') a then Some (Inr (drop (length name + 1) a, 1))
     else None)"

definition value_flags :: "string list" where
  "value_flags = [''--default-ptr-color'', ''--arch'', ''--keep-tmp'', ''--opt-extra'', ''--llc-extra'', ''--pkg'', ''--ir-renames'', ''--libcall-impl'']"

definition set_value :: "string \<Rightarrow> string \<Rightarrow> settings \<Rightarrow> string + settings" where
  "set_value name v s =
     (if name = ''--default-ptr-color'' then if v = [] then Inl ''--default-ptr-color needs a value''
        else Inr (see ''default-ptr-color'' (set_o (op_DefaultPtrColor_update (\<lambda>_. v)) s))
      else if name = ''--arch'' then if v \<noteq> ''amd64'' \<and> v \<noteq> ''arm64'' then Inl ''--arch wants amd64 or arm64'' else Inr (set_o (op_Arch_update (\<lambda>_. v)) s)
      else if name = ''--keep-tmp'' then if v = [] then Inl ''--keep-tmp needs a directory'' else Inr (set_o (op_KeepTmp_update (\<lambda>_. v)) s)
      else if name = ''--opt-extra'' then Inr (set_o (op_OptExtra_update (\<lambda>_. Fields v)) s)
      else if name = ''--llc-extra'' then Inr (set_o (op_LLCExtra_update (\<lambda>_. Fields v)) s)
      else if name = ''--pkg'' then if v = [] then Inl ''--pkg needs a package path'' else Inr (see ''pkg'' (set_o (op_Pkg_update (\<lambda>_. v)) s))
      else if name = ''--ir-renames'' then Inr (set_o (op_IRRenames_update (\<lambda>_. v)) s)
      else Inr (set_o (op_LibcallImpl_update (\<lambda>_. v)) s))"

fun consume_value :: "string list \<Rightarrow> settings \<Rightarrow> string list \<Rightarrow> string + nat \<times> settings" where
  "consume_value [] s args = Inr (0, s)"
| "consume_value (name # names) s args = (case flag_value name args of
     None \<Rightarrow> consume_value names s args
   | Some (Inl e) \<Rightarrow> Inl e
   | Some (Inr (v, n)) \<Rightarrow> map_sum id (Pair n) (set_value name v s))"

definition consume :: "string + string \<Rightarrow> settings \<Rightarrow> string list \<Rightarrow> string + nat \<times> settings" where
  "consume mkdirTemp s args = (let a = hd args in
     if a = ''-O0'' \<or> a = ''-O1'' \<or> a = ''-O2'' \<or> a = ''-O3'' then Inr (1, see ''opt'' (set_o (op_OptLevel_update (\<lambda>_. of_char (a ! 2) - 48)) s))
     else if a = ''--no-default-ptr-color'' then Inr (1, see ''default-ptr-color'' (set_o (op_DefaultPtrColor_update (\<lambda>_. [])) s))
     else if a = ''--fast-stack-alloca'' \<or> a = ''--no-fast-stack-alloca''
     then Inr (1, see ''fast-stack-alloca'' (set_o (op_FastStackAlloca_update (\<lambda>_. a = ''--fast-stack-alloca'')) s))
     else if a = ''--color-report'' \<or> a = ''--no-color-report'' then Inr (1, set_o (op_ColorReport_update (\<lambda>_. a = ''--color-report'')) s)
     else if a = ''--abi0'' then Inr (1, set_o (op_ABI0_update (\<lambda>_. True)) s)
     else if a = ''--keep-tmp'' then map_sum id (\<lambda>d. (1, set_o (op_KeepTmp_update (\<lambda>_. d)) s)) mkdirTemp
     else consume_value value_flags s args)"

definition productDefaults :: "settings \<Rightarrow> settings" where
  "productDefaults s = (let s1 = (if ''opt'' \<in> se_seen s then s else set_o (op_OptLevel_update (\<lambda>_. 3)) s);
       s2 = (if ''default-ptr-color'' \<in> se_seen s then s1 else set_o (op_DefaultPtrColor_update (\<lambda>_. ''cptr'')) s1) in
     if ''fast-stack-alloca'' \<in> se_seen s then s2 else set_o (op_FastStackAlloca_update (\<lambda>_. True)) s2)"

text \<open>The words of \<open>String\<close>, before they are joined.\<close>

definition str_flag :: "string \<Rightarrow> string \<Rightarrow> string list" where
  "str_flag name v = (if v = [] then [] else [name, v])"

definition setting_words :: "settings \<Rightarrow> string list" where
  "setting_words s = (let o' = se_o s in [''-O'' @ dec_int (op_OptLevel o')] @
     (if op_DefaultPtrColor o' \<noteq> [] then [''--default-ptr-color'', op_DefaultPtrColor o']
      else if ''default-ptr-color'' \<in> se_seen s then [''--no-default-ptr-color''] else []) @
     [if op_FastStackAlloca o' then ''--fast-stack-alloca'' else ''--no-fast-stack-alloca''] @
     (if op_ColorReport o' then [''--color-report''] else []) @
     str_flag ''--arch'' (op_Arch o') @
     (if op_OptExtra o' = [] then [] else [''--opt-extra'', join '' '' (op_OptExtra o')]) @
     (if op_LLCExtra o' = [] then [] else [''--llc-extra'', join '' '' (op_LLCExtra o')]) @
     str_flag ''--ir-renames'' (op_IRRenames o') @ str_flag ''--libcall-impl'' (op_LibcallImpl o') @
     (if op_KeepTmp o' = [] then [] else [''--keep-tmp='' @ op_KeepTmp o']) @
     str_flag ''--pkg'' (op_Pkg o'))"

definition settings_String :: "settings \<Rightarrow> string" where
  "settings_String s = join '' '' (setting_words s)"

section \<open>The argument loops\<close>

datatype cli = CliErr string | CliHelp | CliMissing | CliGo settings string string string | CliSettings settings

text \<open>\<open>cmdGo\<close>: the directory, \<open>-o\<close>, \<open>--objdir\<close> and what follows \<open>--\<close>.\<close>

function go_loop :: "string + string \<Rightarrow> settings \<Rightarrow> string \<Rightarrow> string \<Rightarrow> string \<Rightarrow> string list \<Rightarrow> cli" where
  "go_loop mk s dir out objdir [] = CliGo s dir out objdir"
| "go_loop mk s dir out objdir (a # rest) = (case consume mk s (a # rest) of
     Inl e \<Rightarrow> CliErr e
   | Inr (n, s') \<Rightarrow>
       if n > 0 then go_loop mk s' dir out objdir (drop n (a # rest))
       else if a = ''-h'' \<or> a = ''--help'' then CliHelp
       else if a = ''-o'' then (case rest of [] \<Rightarrow> CliErr ''-o needs a path'' | v # r \<Rightarrow> go_loop mk s' dir v objdir r)
       else if starts ''--objdir='' a then go_loop mk s' dir out (drop 9 a) rest
       else if a = ''--objdir'' then (case rest of [] \<Rightarrow> CliErr ''--objdir needs a directory'' | v # r \<Rightarrow> go_loop mk s' dir out v r)
       else if a = ''--'' then CliGo (set_o (op_ClangArgs_update (\<lambda>_. rest)) s') dir out objdir
       else if starts ''-'' a then CliErr (''unknown flag: '' @ a @ '' (clang arguments go after --)'')
       else go_loop mk s' a out objdir rest)"
  by pat_completeness auto
termination by (relation "measure (\<lambda>(_, _, _, _, _, args). length args)") auto

definition cmdGo_args :: "string + string \<Rightarrow> string list \<Rightarrow> cli" where
  "cmdGo_args mk args = (case go_loop mk newSettings ''.'' [] [] args of CliGo s dir out objdir \<Rightarrow> CliGo (productDefaults s) dir out objdir | r \<Rightarrow> r)"

text \<open>\<open>cmdBuild\<close>: the first plain argument is the source, everything unknown goes to clang.\<close>

function build_loop :: "string + string \<Rightarrow> settings \<Rightarrow> string list \<Rightarrow> cli" where
  "build_loop mk s [] = (if op_Src (se_o s) = [] then CliMissing else CliSettings s)"
| "build_loop mk s (a # rest) = (case consume mk s (a # rest) of
     Inl e \<Rightarrow> CliErr e
   | Inr (n, s') \<Rightarrow>
       if n > 0 then build_loop mk s' (drop n (a # rest))
       else if a = ''-o'' then (case rest of [] \<Rightarrow> CliErr ''-o needs a path'' | v # r \<Rightarrow> build_loop mk (set_o (op_Out_update (\<lambda>_. v)) s') r)
       else if a = ''--'' then build_loop mk (set_o (op_ClangArgs_update (\<lambda>c. c @ rest)) s') []
       else if a = ''-h'' \<or> a = ''--help'' then CliHelp
       else if starts ''-'' a \<or> op_Src (se_o s') \<noteq> [] then build_loop mk (set_o (op_ClangArgs_update (\<lambda>c. c @ [a])) s') rest
       else build_loop mk (set_o (op_Src_update (\<lambda>_. a)) s') rest)"
  by pat_completeness auto
termination by (relation "measure (\<lambda>(_, _, args). length args)") auto

definition cmdBuild_args :: "string + string \<Rightarrow> string list \<Rightarrow> cli" where
  "cmdBuild_args mk args = (if args = [] then CliMissing else build_loop mk newSettings args)"

text \<open>\<open>cmdCheck\<close> takes switches only.\<close>

function check_loop :: "string + string \<Rightarrow> settings \<Rightarrow> string list \<Rightarrow> cli" where
  "check_loop mk s [] = CliSettings (productDefaults s)"
| "check_loop mk s (a # rest) = (case consume mk s (a # rest) of
     Inl e \<Rightarrow> CliErr e
   | Inr (n, s') \<Rightarrow>
       if n = 0 then if a = ''-h'' \<or> a = ''--help'' then CliHelp else CliErr (''takes switches only (got '' @ a @ '')'')
       else check_loop mk s' (drop n (a # rest)))"
  by pat_completeness auto
termination by (relation "measure (\<lambda>(_, _, args). length args)") auto


section \<open>What every command line leaves\<close>

definition words_ok :: "string list \<Rightarrow> bool" where
  "words_ok ws \<longleftrightarrow> (\<forall>w\<in>set ws. w \<noteq> [] \<and> (\<forall>c\<in>set w. \<not> space_char c))"

definition settings_wf :: "settings \<Rightarrow> bool" where
  "settings_wf s \<longleftrightarrow> op_OptLevel (se_o s) \<in> {0, 1, 2, 3} \<and> op_Arch (se_o s) \<in> {[], ''amd64'', ''arm64''} \<and> words_ok (op_OptExtra (se_o s)) \<and> words_ok (op_LLCExtra (se_o s)) \<and>
     op_Src (se_o s) = [] \<and> op_Out (se_o s) = []"

lemma fields_acc_ok: "(\<forall>c\<in>set cur. \<not> space_char c) \<Longrightarrow> words_ok (fields_acc cur s)"
proof (induction cur s rule: fields_acc.induct)
  case (2 cur c s)
  then show ?case by (cases "space_char c") (simp_all add: words_ok_def)
qed (simp add: words_ok_def)

lemma Fields_ok [simp]: "words_ok (Fields s)"
  by (simp add: Fields_def fields_acc_ok)

lemma fields_acc_word: "(\<forall>c\<in>set w. \<not> space_char c) \<Longrightarrow> fields_acc cur (w @ s) = fields_acc (rev w @ cur) s"
  by (induction w arbitrary: cur) auto

lemma Fields_join: "words_ok ws \<Longrightarrow> Fields (join '' '' ws) = ws"
proof (induction ws rule: induct_list012)
  case (2 x)
  then show ?case using fields_acc_word [of x "[]" "[]"] by (simp add: Fields_def words_ok_def)
next
  case (3 x y zs)
  have "space_char (CHR '' '')" by (simp add: space_char_def)
  moreover have "fields_acc [] (x @ '' '' @ join '' '' (y # zs)) = fields_acc (rev x) ('' '' @ join '' '' (y # zs))" using 3 fields_acc_word [of x "[]"] by (simp add: words_ok_def)
  moreover have "Fields (join '' '' (y # zs)) = y # zs" using 3 by (simp add: words_ok_def)
  ultimately show ?case using 3 by (simp add: Fields_def words_ok_def)
qed (simp add: Fields_def)

lemma wf_upd [simp]:
  "settings_wf (see k s) = settings_wf s" "settings_wf (set_o (op_DefaultPtrColor_update f) s) = settings_wf s" "settings_wf (set_o (op_KeepTmp_update f) s) = settings_wf s"
  "settings_wf (set_o (op_Pkg_update f) s) = settings_wf s" "settings_wf (set_o (op_IRRenames_update f) s) = settings_wf s" "settings_wf (set_o (op_LibcallImpl_update f) s) = settings_wf s"
  "settings_wf (set_o (op_FastStackAlloca_update g) s) = settings_wf s" "settings_wf (set_o (op_ColorReport_update g) s) = settings_wf s" "settings_wf (set_o (op_ABI0_update g) s) = settings_wf s"
  "settings_wf (set_o (op_ClangArgs_update h) s) = settings_wf s"
  "settings_wf s \<Longrightarrow> settings_wf (set_o (op_OptExtra_update (\<lambda>_. Fields v)) s)" "settings_wf s \<Longrightarrow> settings_wf (set_o (op_LLCExtra_update (\<lambda>_. Fields v)) s)"
  "settings_wf s \<Longrightarrow> v = ''amd64'' \<or> v = ''arm64'' \<Longrightarrow> settings_wf (set_o (op_Arch_update (\<lambda>_. v)) s)"
  "settings_wf s \<Longrightarrow> 0 \<le> i \<Longrightarrow> i \<le> 3 \<Longrightarrow> settings_wf (set_o (op_OptLevel_update (\<lambda>_. i)) s)"
  by (simp_all add: settings_wf_def set_o_def see_def) presburger

lemma set_value_wf:
  assumes "set_value name v s = Inr s'" "settings_wf s"
  shows "settings_wf s'"
proof -
  have "case set_value name v s of Inl _ \<Rightarrow> True | Inr s' \<Rightarrow> settings_wf s'" unfolding set_value_def using assms(2) by simp
  then show ?thesis using assms(1) by simp
qed

lemma consume_value_wf: "consume_value names s args = Inr (n, s') \<Longrightarrow> settings_wf s \<Longrightarrow> settings_wf s'"
proof (induction names)
  case (Cons name names)
  show ?case
  proof (cases "flag_value name args")
    case (Some r)
    then show ?thesis using Cons.prems set_value_wf by (cases r) (auto simp: map_sum_def split: sum.splits)
  qed (use Cons in simp)
qed simp

lemma opt_level: "a = ''-O0'' \<or> a = ''-O1'' \<or> a = ''-O2'' \<or> a = ''-O3'' \<Longrightarrow> 0 \<le> (of_char (a ! 2) - 48 :: int) \<and> (of_char (a ! 2) - 48 :: int) \<le> 3"
  by auto

lemma consume_wf:
  assumes "consume mk s args = Inr (n, s')" "settings_wf s"
  shows "settings_wf s'"
proof -
  have "case consume mk s args of Inl _ \<Rightarrow> True | Inr (_, s') \<Rightarrow> settings_wf s'"
    unfolding consume_def Let_def using assms(2) opt_level [of "hd args"] consume_value_wf [of value_flags s args]
    by (cases mk) (simp_all split: sum.splits prod.splits)
  then show ?thesis using assms(1) by simp
qed

lemma go_loop_wf: "go_loop mk s dir out objdir args = CliGo s' d o' b \<Longrightarrow> settings_wf s \<Longrightarrow> settings_wf s'"
proof (induction mk s dir out objdir args rule: go_loop.induct)
  case (2 mk s dir out objdir a rest)
  obtain n s1 where c: "consume mk s (a # rest) = Inr (n, s1)" using "2.prems"(1) by (auto split: sum.splits)
  have w: "settings_wf s1" using consume_wf [OF c "2.prems"(2)] .
  show ?case using "2.IH" [OF c refl] "2.prems"(1) c w by (auto simp del: go_loop.simps(2) simp: go_loop.simps(2) [of mk s] split: if_splits list.splits)
qed simp

section \<open>Reading the printed switches\<close>

lemma go_opt:
  assumes "k \<in> {0, 1, 2, 3}"
  shows "go_loop mk s d o' b ((''-O'' @ dec_int k) # rest) = go_loop mk (see ''opt'' (set_o (op_OptLevel_update (\<lambda>_. k)) s)) d o' b rest"
proof -
  have "dec_int 0 = ''0''" "dec_int 1 = ''1''" "dec_int 2 = ''2''" "dec_int 3 = ''3''" by code_simp+
  then show ?thesis using assms by (auto simp: consume_def)
qed

lemma go_switch:
  "go_loop mk s d o' b (''--no-default-ptr-color'' # rest) = go_loop mk (see ''default-ptr-color'' (set_o (op_DefaultPtrColor_update (\<lambda>_. [])) s)) d o' b rest"
  "go_loop mk s d o' b (''--fast-stack-alloca'' # rest) = go_loop mk (see ''fast-stack-alloca'' (set_o (op_FastStackAlloca_update (\<lambda>_. True)) s)) d o' b rest"
  "go_loop mk s d o' b (''--no-fast-stack-alloca'' # rest) = go_loop mk (see ''fast-stack-alloca'' (set_o (op_FastStackAlloca_update (\<lambda>_. False)) s)) d o' b rest"
  "go_loop mk s d o' b (''--color-report'' # rest) = go_loop mk (set_o (op_ColorReport_update (\<lambda>_. True)) s) d o' b rest"
  "dir \<noteq> [] \<Longrightarrow> go_loop mk s d o' b ((''--keep-tmp='' @ dir) # rest) = go_loop mk (set_o (op_KeepTmp_update (\<lambda>_. dir)) s) d o' b rest"
  by (simp_all add: consume_def value_flags_def flag_value_def starts_def set_value_def Let_def)

lemma flag_value_next: "v \<noteq> [] \<Longrightarrow> flag_value name (name # v # rest) = Some (Inr (v, 2))"
  by (simp add: flag_value_def)

lemma flag_value_other: "a \<noteq> name \<Longrightarrow> \<not> starts (name @ ''='') a \<Longrightarrow> flag_value name (a # rest) = None"
  by (simp add: flag_value_def)

lemma consume_next:
  assumes "name \<in> set value_flags" "name \<noteq> ''--keep-tmp''" "v \<noteq> []"
  shows "consume mk s (name # v # rest) = map_sum id (Pair 2) (set_value name v s)"
proof -
  have "name = ''--default-ptr-color'' \<or> name = ''--arch'' \<or> name = ''--opt-extra'' \<or> name = ''--llc-extra'' \<or> name = ''--pkg'' \<or> name = ''--ir-renames'' \<or> name = ''--libcall-impl''"
    using assms(1,2) by (simp add: value_flags_def)
  then show ?thesis
    by (elim disjE) (simp_all add: consume_def value_flags_def flag_value_next [OF assms(3)] flag_value_other starts_def)
qed

lemma go_value:
  assumes "name \<in> set value_flags" "name \<noteq> ''--keep-tmp''" "v \<noteq> []" "set_value name v s = Inr s'"
  shows "go_loop mk s d o' b (name # v # rest) = go_loop mk s' d o' b rest"
  by (simp add: consume_next [OF assms(1-3)] assms(4))

lemma go_str:
  assumes "name \<in> {''--arch'', ''--pkg'', ''--ir-renames'', ''--libcall-impl''}" "v \<noteq> [] \<Longrightarrow> set_value name v s = Inr s'" "v = [] \<Longrightarrow> s' = s"
  shows "go_loop mk s d o' b (str_flag name v @ rest) = go_loop mk s' d o' b rest"
proof (cases "v = []")
  case False
  have "name \<in> set value_flags" "name \<noteq> ''--keep-tmp''" using assms(1) by (auto simp: value_flags_def)
  then show ?thesis using go_value assms(2) False by (simp add: str_flag_def)
qed (use assms(3) in \<open>simp add: str_flag_def\<close>)

lemma go_extra:
  assumes "words_ok ws" "name = ''--opt-extra'' \<and> f = op_OptExtra_update \<or> name = ''--llc-extra'' \<and> f = op_LLCExtra_update"
  shows "go_loop mk s d o' b ((if ws = [] then [] else [name, join '' '' ws]) @ rest) = go_loop mk (if ws = [] then s else set_o (f (\<lambda>_. ws)) s) d o' b rest"
proof (cases ws)
  case (Cons w ws')
  have n: "join '' '' ws \<noteq> []" using assms(1) unfolding Cons words_ok_def by (cases ws') auto
  have v: "name \<in> set value_flags" "name \<noteq> ''--keep-tmp''" "set_value name (join '' '' ws) s = Inr (set_o (f (\<lambda>_. ws)) s)"
    using assms(2) by (elim disjE conjE; simp add: value_flags_def set_value_def Fields_join [OF assms(1)])+
  show ?thesis using go_value [OF v(1,2) n v(3)] Cons by simp
qed simp

text \<open>The settings that the printed words leave.\<close>

definition reparsed :: "settings \<Rightarrow> settings" where
  "reparsed s = \<lparr>se_o = (se_o s)\<lparr>op_Src := [], op_Out := [], op_ABI0 := False, op_ClangArgs := []\<rparr>,
     se_seen = {''opt'', ''default-ptr-color'', ''fast-stack-alloca''} \<union> (if op_Pkg (se_o s) = [] then {} else {''pkg''})\<rparr>"

lemma go_words:
  assumes "settings_wf s" "op_DefaultPtrColor (se_o s) = [] \<Longrightarrow> ''default-ptr-color'' \<in> se_seen s"
  shows "go_loop mk newSettings d o' b (setting_words s) = CliGo (reparsed s) d o' b"
proof -
  let ?o = "se_o s"
  have w: "op_OptLevel ?o \<in> {0, 1, 2, 3}" "op_Arch ?o \<in> {[], ''amd64'', ''arm64''}" "words_ok (op_OptExtra ?o)" "words_ok (op_LLCExtra ?o)" using assms(1) by (simp_all add: settings_wf_def)
  let ?s1 = "see ''opt'' (set_o (op_OptLevel_update (\<lambda>_. op_OptLevel ?o)) newSettings)"
  let ?s2 = "see ''default-ptr-color'' (set_o (op_DefaultPtrColor_update (\<lambda>_. op_DefaultPtrColor ?o)) ?s1)"
  let ?s3 = "see ''fast-stack-alloca'' (set_o (op_FastStackAlloca_update (\<lambda>_. op_FastStackAlloca ?o)) ?s2)"
  let ?s4 = "set_o (op_ColorReport_update (\<lambda>_. op_ColorReport ?o)) ?s3"
  let ?s5 = "set_o (op_Arch_update (\<lambda>_. op_Arch ?o)) ?s4"
  let ?s6 = "if op_OptExtra ?o = [] then ?s5 else set_o (op_OptExtra_update (\<lambda>_. op_OptExtra ?o)) ?s5"
  let ?s7 = "if op_LLCExtra ?o = [] then ?s6 else set_o (op_LLCExtra_update (\<lambda>_. op_LLCExtra ?o)) ?s6"
  let ?s8 = "set_o (op_IRRenames_update (\<lambda>_. op_IRRenames ?o)) ?s7"
  let ?s9 = "set_o (op_LibcallImpl_update (\<lambda>_. op_LibcallImpl ?o)) ?s8"
  let ?s10 = "set_o (op_KeepTmp_update (\<lambda>_. op_KeepTmp ?o)) ?s9"
  let ?s11 = "if op_Pkg ?o = [] then ?s10 else see ''pkg'' (set_o (op_Pkg_update (\<lambda>_. op_Pkg ?o)) ?s10)"
  have 1: "go_loop mk newSettings d o' b ([''-O'' @ dec_int (op_OptLevel ?o)] @ r) = go_loop mk ?s1 d o' b r" for r using go_opt [OF w(1)] by simp
  have 2: "go_loop mk ?s1 d o' b ((if op_DefaultPtrColor ?o \<noteq> [] then [''--default-ptr-color'', op_DefaultPtrColor ?o]
      else if ''default-ptr-color'' \<in> se_seen s then [''--no-default-ptr-color''] else []) @ r) = go_loop mk ?s2 d o' b r" for r
    using assms(2) go_switch(1) go_value [of "''--default-ptr-color''" "op_DefaultPtrColor ?o" ?s1 ?s2] by (simp add: value_flags_def set_value_def)
  have 3: "go_loop mk ?s2 d o' b ([if op_FastStackAlloca ?o then ''--fast-stack-alloca'' else ''--no-fast-stack-alloca''] @ r) = go_loop mk ?s3 d o' b r" for r
    using go_switch(2,3) by simp
  have 4: "go_loop mk ?s3 d o' b ((if op_ColorReport ?o then [''--color-report''] else []) @ r) = go_loop mk ?s4 d o' b r" for r
    using go_switch(4) by (simp add: newSettings_def options0_def set_o_def see_def)
  have 5: "go_loop mk ?s4 d o' b (str_flag ''--arch'' (op_Arch ?o) @ r) = go_loop mk ?s5 d o' b r" for r
    by (rule go_str) (use w(2) in \<open>auto simp: set_value_def newSettings_def options0_def set_o_def see_def\<close>)
  have 6: "go_loop mk ?s5 d o' b ((if op_OptExtra ?o = [] then [] else [''--opt-extra'', join '' '' (op_OptExtra ?o)]) @ r) = go_loop mk ?s6 d o' b r" for r
    by (rule go_extra [OF w(3)]) simp
  have 7: "go_loop mk ?s6 d o' b ((if op_LLCExtra ?o = [] then [] else [''--llc-extra'', join '' '' (op_LLCExtra ?o)]) @ r) = go_loop mk ?s7 d o' b r" for r
    by (rule go_extra [OF w(4)]) simp
  have 8: "go_loop mk ?s7 d o' b (str_flag ''--ir-renames'' (op_IRRenames ?o) @ r) = go_loop mk ?s8 d o' b r" for r
    by (rule go_str) (auto simp: set_value_def newSettings_def options0_def set_o_def see_def)
  have 9: "go_loop mk ?s8 d o' b (str_flag ''--libcall-impl'' (op_LibcallImpl ?o) @ r) = go_loop mk ?s9 d o' b r" for r
    by (rule go_str) (auto simp: set_value_def newSettings_def options0_def set_o_def see_def)
  have 10: "go_loop mk ?s9 d o' b ((if op_KeepTmp ?o = [] then [] else [''--keep-tmp='' @ op_KeepTmp ?o]) @ r) = go_loop mk ?s10 d o' b r" for r
    using go_switch(5) by (simp add: newSettings_def options0_def set_o_def see_def)
  have 11: "go_loop mk ?s10 d o' b (str_flag ''--pkg'' (op_Pkg ?o) @ r) = go_loop mk ?s11 d o' b r" for r
    by (rule go_str) (auto simp: set_value_def)
  have "go_loop mk newSettings d o' b (setting_words s) = go_loop mk ?s11 d o' b []"
    unfolding setting_words_def Let_def 1 2 3 4 5 6 7 8 9 10 using 11 [of "[]"] by simp
  also have "\<dots> = CliGo (reparsed s) d o' b" using assms(1) by (simp add: reparsed_def newSettings_def options0_def set_o_def see_def settings_wf_def insert_commute)
  finally show ?thesis .
qed

section \<open>Properties\<close>

lemma defaults_wf: "settings_wf s \<Longrightarrow> settings_wf (productDefaults s)"
  by (simp add: productDefaults_def Let_def)

lemma defaults_color: "op_DefaultPtrColor (se_o (productDefaults s)) = [] \<Longrightarrow> ''default-ptr-color'' \<in> se_seen (productDefaults s)"
  by (auto simp: productDefaults_def Let_def set_o_def split: if_splits)

lemma defaults_reparsed: "productDefaults (reparsed s) = reparsed s"
  by (simp add: productDefaults_def reparsed_def)

text \<open>Settings in which every value is a single word: no value holds white space, and there is at most one extra flag for
  \<open>opt\<close> and one for \<open>goc-llc\<close>. \<open>String\<close> does not quote.\<close>

definition single_words :: "settings \<Rightarrow> bool" where
  "single_words s \<longleftrightarrow> length (op_OptExtra (se_o s)) \<le> 1 \<and> length (op_LLCExtra (se_o s)) \<le> 1 \<and>
     (\<forall>v\<in>{op_DefaultPtrColor (se_o s), op_IRRenames (se_o s), op_LibcallImpl (se_o s), op_KeepTmp (se_o s), op_Pkg (se_o s)}. \<forall>c\<in>set v. \<not> space_char c)"

lemma words_ok_append [simp]: "words_ok (a @ b) \<longleftrightarrow> words_ok a \<and> words_ok b" "words_ok []" "words_ok (x # y # xs) \<longleftrightarrow> words_ok [x] \<and> words_ok (y # xs)"
  by (auto simp: words_ok_def)

lemma one_join: "words_ok ws \<Longrightarrow> length ws \<le> 1 \<Longrightarrow> ws \<noteq> [] \<Longrightarrow> words_ok [join '' '' ws]"
  by (cases ws) simp_all

lemma setting_words_ok:
  assumes "settings_wf s" "single_words s"
  shows "words_ok (setting_words s)"
proof -
  let ?o = "se_o s"
  have lits: "words_ok [''--default-ptr-color'']" "words_ok [''--no-default-ptr-color'']" "words_ok [''--fast-stack-alloca'']" "words_ok [''--no-fast-stack-alloca'']"
    "words_ok [''--color-report'']" "words_ok [''--arch'']" "words_ok [''--opt-extra'']" "words_ok [''--llc-extra'']" "words_ok [''--ir-renames'']" "words_ok [''--libcall-impl'']"
    "words_ok [''--pkg'']" by (simp_all add: words_ok_def space_char_def)
  have lvl: "words_ok [''-O'' @ dec_int (op_OptLevel ?o)]"
  proof -
    have "list_all (\<lambda>n. words_ok [''-O'' @ dec_int n]) [0, 1, 2, 3]" by code_simp
    then show ?thesis using assms(1) unfolding list_all_iff settings_wf_def by auto
  qed
  have "words_ok [''amd64'']" "words_ok [''arm64'']" by (simp_all add: words_ok_def space_char_def)
  then have arch: "words_ok (str_flag ''--arch'' (op_Arch ?o))"
    using assms(1) lits(6) unfolding settings_wf_def by (elim conjE insertE emptyE) (simp_all add: str_flag_def)
  have val: "words_ok [v]" if "v \<in> {op_DefaultPtrColor ?o, op_IRRenames ?o, op_LibcallImpl ?o, op_KeepTmp ?o, op_Pkg ?o}" "v \<noteq> []" for v
    using assms(2) that unfolding single_words_def words_ok_def by auto
  then have vals: "words_ok (str_flag ''--ir-renames'' (op_IRRenames ?o))" "words_ok (str_flag ''--libcall-impl'' (op_LibcallImpl ?o))" "words_ok (str_flag ''--pkg'' (op_Pkg ?o))"
    "op_DefaultPtrColor ?o \<noteq> [] \<Longrightarrow> words_ok [op_DefaultPtrColor ?o]" using lits by (auto simp: str_flag_def)
  have "\<forall>c\<in>set (op_KeepTmp ?o). \<not> space_char c" using assms(2) by (simp add: single_words_def)
  then have tmp: "words_ok [''--keep-tmp='' @ op_KeepTmp ?o]" by (simp add: words_ok_def) (simp add: space_char_def)
  have ex: "op_OptExtra ?o \<noteq> [] \<Longrightarrow> words_ok [join '' '' (op_OptExtra ?o)]" "op_LLCExtra ?o \<noteq> [] \<Longrightarrow> words_ok [join '' '' (op_LLCExtra ?o)]"
    using assms one_join unfolding settings_wf_def single_words_def by blast+
  show ?thesis unfolding setting_words_def Let_def words_ok_append(1) using lits lvl arch vals tmp ex by (intro conjI) (simp_all split: if_split)
qed



end
