(* ===== verification/Pipeline.thy ===== *)
theory Pipeline
  imports Goc_Flags
begin

text \<open>
  \<open>internal/pipeline\<close>: the compile of one C file, as the sequence of steps it takes. Running a tool, a file
  operation, and a call of the lowering or of the converter is an \<open>event\<close>; what comes of an event is decided
  by the world, a parameter that sees the events so far. \<open>builder.run\<close>, \<open>frontend\<close> and \<open>backend\<close> are
  programs over events that stop at the first error; messages to the terminal are left out, and so is the
  environment of the tools, which is the same for all of them (\<open>tools_Env\<close> in \<open>Toolexec\<close>).
\<close>

section \<open>Events\<close>

record Tools =
  t_Root :: string
  t_Include :: string
  t_Clang :: string
  t_LibDir :: string
  t_Opt :: string
  t_MC :: string
  t_LLC :: string
  t_Passes :: string

datatype event = ReadFile string | WriteFile string string | MkdirAll string | MkdirTemp | RemoveAll string | Stat string
  | Run string "string list" | Output string "string list" | FixIR string string | RenameIR string string
  | WriteGoABI "string list" string | FirstFnName string | AlignASM string | ObjectHasMagic string | Profile string | ConvertMain "string list"
  | Executable | EvalSymlinks string | Abs string | Glob string | RunIn string "string list" string "string list" | OutputIn string "string list" string "string list"
  | Start string "string list" | Exec string "string list" | OpenAppend string | Append string string

text \<open>What comes of an event that does not fail: nothing, a text, what is known of a file (directory or not,
  size, mode), a list of paths, or the exit status of a program.\<close>

datatype outcome = Done | Text string | Info bool nat u32 | Paths "string list" | Status nat

fun text_of :: "outcome \<Rightarrow> string" where
  "text_of (Text s) = s"
| "text_of _ = []"

type_synonym world = "event list \<Rightarrow> event \<Rightarrow> string + outcome"
type_synonym 'a io = "event list \<Rightarrow> (string + 'a) \<times> event list"

definition io_return :: "'a \<Rightarrow> 'a io" where
  "io_return x tr = (Inr x, tr)"

definition io_fail :: "string \<Rightarrow> 'a io" where
  "io_fail e tr = (Inl e, tr)"

definition io_bind :: "'a io \<Rightarrow> ('a \<Rightarrow> 'b io) \<Rightarrow> 'b io" where
  "io_bind m f tr = (case m tr of (Inl e, tr') \<Rightarrow> (Inl e, tr') | (Inr x, tr') \<Rightarrow> f x tr')"

definition io_then :: "unit io \<Rightarrow> 'b io \<Rightarrow> 'b io" where
  "io_then m k = io_bind m (\<lambda>_. k)"

definition perform :: "world \<Rightarrow> event \<Rightarrow> outcome io" where
  "perform w e tr = (w tr e, tr @ [e])"

definition step :: "world \<Rightarrow> event \<Rightarrow> unit io" where
  "step w e = io_bind (perform w e) (\<lambda>_. io_return ())"

text \<open>A step whose error is not looked at, with its outcome if there is one.\<close>

definition attempt :: "world \<Rightarrow> event \<Rightarrow> outcome option io" where
  "attempt w e tr = (Inr (case w tr e of Inl _ \<Rightarrow> None | Inr x \<Rightarrow> Some x), tr @ [e])"

definition fail_as :: "(string \<Rightarrow> string) \<Rightarrow> 'a io \<Rightarrow> 'a io" where
  "fail_as f m tr = (case m tr of (Inl e, tr') \<Rightarrow> (Inl (f e), tr') | r \<Rightarrow> r)"

section \<open>Paths\<close>

fun split_path :: "string \<Rightarrow> string \<Rightarrow> string list" where
  "split_path cur [] = [rev cur]"
| "split_path cur (c # s) = (if c = CHR ''/'' then rev cur # split_path [] s else split_path (c # cur) s)"

fun clean_parts :: "bool \<Rightarrow> string list \<Rightarrow> string list \<Rightarrow> string list" where
  "clean_parts rooted st [] = rev st"
| "clean_parts rooted st (c # cs) =
     (if c = [] \<or> c = ''.'' then clean_parts rooted st cs
      else if c = ''..'' then (if st \<noteq> [] \<and> hd st \<noteq> ''..'' then clean_parts rooted (tl st) cs else if rooted then clean_parts rooted st cs else clean_parts rooted (c # st) cs)
      else clean_parts rooted (c # st) cs)"

definition Clean :: "string \<Rightarrow> string" where
  "Clean p = (let rooted = starts ''/'' p; r = join ''/'' (clean_parts rooted [] (split_path [] p)) in
     if rooted then CHR ''/'' # r else if r = [] then ''.'' else r)"

definition path :: "string \<Rightarrow> string \<Rightarrow> string" where
  "path tmp name = Clean (if tmp = [] then name else tmp @ ''/'' @ name)"

definition cut_suffix :: "string \<Rightarrow> string \<Rightarrow> string option" where
  "cut_suffix p s = (if length p \<le> length s \<and> drop (length s - length p) s = p then Some (take (length s - length p) s) else None)"

definition Side :: "string \<Rightarrow> string" where
  "Side out = (case cut_suffix ''.goobj'' out of Some s \<Rightarrow> s | None \<Rightarrow> (case cut_suffix ''.o'' out of Some s \<Rightarrow> s | None \<Rightarrow> out))"

definition default_out :: "string \<Rightarrow> string" where
  "default_out src = (case cut_suffix ''.c'' src of Some s \<Rightarrow> s @ ''.goobj'' | None \<Rightarrow>
     (case cut_suffix ''.goc'' src of Some s \<Rightarrow> s @ ''.goobj'' | None \<Rightarrow> src @ ''.goobj''))"

section \<open>Tools\<close>

definition base_name :: "string \<Rightarrow> string" where
  "base_name s = (if s = [] then ''.'' else
     let t = rev (dropWhile (\<lambda>c. c = CHR ''/'') (rev s)); b = rev (takeWhile (\<lambda>c. c \<noteq> CHR ''/'') (rev t)) in
     if b = [] then ''/'' else b)"

definition tool :: "world \<Rightarrow> string \<Rightarrow> string list \<Rightarrow> unit io" where
  "tool w bin args = fail_as (\<lambda>e. base_name bin @ '': '' @ e) (step w (Run bin args))"

definition opt_args :: "Tools \<Rightarrow> string \<Rightarrow> string list \<Rightarrow> string \<Rightarrow> string \<Rightarrow> string list" where
  "opt_args t passes extra inp out = [''-load-pass-plugin='' @ t_Passes t, ''-passes='' @ passes] @ extra @ [''-S'', inp, ''-o'', out]"

definition opt :: "world \<Rightarrow> Tools \<Rightarrow> string \<Rightarrow> string list \<Rightarrow> string \<Rightarrow> string \<Rightarrow> unit io" where
  "opt w t passes extra inp out = tool w (t_Opt t) (opt_args t passes extra inp out)"

definition copyFile :: "world \<Rightarrow> string \<Rightarrow> string \<Rightarrow> unit io" where
  "copyFile w src dst = io_bind (perform w (ReadFile src)) (\<lambda>b. step w (WriteFile dst (text_of b)))"

section \<open>frontend\<close>

definition clang_args :: "Tools \<Rightarrow> Options \<Rightarrow> bool \<Rightarrow> string \<Rightarrow> string list" where
  "clang_args t o' sysinc out =
     [''-mno-red-zone'', ''-fno-stack-protector'', ''-fno-asynchronous-unwind-tables'', ''-I'', t_Include t, ''-emit-llvm'', ''-S'', ''-O'' @ dec_int (op_OptLevel o')] @
     [if op_ColorReport o' then ''-g'' else ''-gline-tables-only''] @
     (if op_OptLevel o' = 0 then [''-Xclang'', ''-disable-O0-optnone'']
      else [''-fwrapv'', ''-fno-strict-aliasing'', ''-fno-omit-frame-pointer'', ''-mno-omit-leaf-frame-pointer'', ''-fno-optimize-sibling-calls'', ''-Xclang'', ''-disable-llvm-passes'']) @
     (if op_Arch o' = ''arm64'' then [''-target'', ''aarch64-unknown-linux-gnu'', ''-ffixed-x28'', ''-fno-pic''] @ (if sysinc then [''-isystem'', ''/usr/aarch64-linux-gnu/include''] else []) else []) @
     op_ClangArgs o' @ [''-o'', out, op_Src o']"

definition has_sysinc :: "world \<Rightarrow> Options \<Rightarrow> bool io" where
  "has_sysinc w o' = (if op_Arch o' = ''arm64''
     then io_bind (attempt w (Stat ''/usr/aarch64-linux-gnu/include'')) (\<lambda>r. io_return (case r of Some (Info d _ _) \<Rightarrow> d | _ \<Rightarrow> False))
     else io_return False)"

definition clang_step :: "world \<Rightarrow> Tools \<Rightarrow> Options \<Rightarrow> string \<Rightarrow> unit io" where
  "clang_step w t o' tmp = io_bind (has_sysinc w o') (\<lambda>si.
     fail_as (\<lambda>_. ''Clang Sema/frontend failed for '' @ op_Src o') (tool w (t_Clang t) (clang_args t o' si (path tmp ''a.ll''))))"

definition color_passes :: "Options \<Rightarrow> string" where
  "color_passes o' = (if op_ColorReport o' then ''print<goc-color>,goc-color-escape'' else ''goc-color-escape'')"

definition color_args :: "Options \<Rightarrow> string list" where
  "color_args o' = (if op_DefaultPtrColor o' \<noteq> [] then [''-default-ptr-color='' @ op_DefaultPtrColor o'] else [])"

definition color_step :: "world \<Rightarrow> Tools \<Rightarrow> Options \<Rightarrow> string \<Rightarrow> string io" where
  "color_step w t o' tmp = io_then
     (fail_as (\<lambda>_. ''pointer-color/escape analysis failed for '' @ op_Src o') (opt w t (color_passes o') (color_args o') (path tmp ''a.ll'') (path tmp ''a.color.ll'')))
     (if op_ColorReport o'
      then io_then (fail_as (\<lambda>_. ''failed to strip debug info after color report for '' @ op_Src o')
             (tool w (t_Opt t) [''--strip-debug'', ''-S'', path tmp ''a.color.ll'', ''-o'', path tmp ''a.color.nodbg.ll''])) (io_return (path tmp ''a.color.nodbg.ll''))
      else io_return (path tmp ''a.color.ll''))"

definition inline_step :: "world \<Rightarrow> Tools \<Rightarrow> Options \<Rightarrow> string \<Rightarrow> string \<Rightarrow> unit io" where
  "inline_step w t o' tmp body = opt w t ''goc-uptr-inline'' (if op_FastStackAlloca o' then [''-goc-fast-stack-alloca''] else []) body (path tmp ''a.gate.ll'')"

text \<open>\<open>strings.ReplaceAll(s, p, "")\<close> for a \<open>p\<close> that is not empty.\<close>

function drop_all :: "string \<Rightarrow> string \<Rightarrow> string" where
  "drop_all p [] = []"
| "drop_all p (c # s) = (if p \<noteq> [] \<and> starts p (c # s) then drop_all p (drop (length p - 1) s) else c # drop_all p s)"
  by pat_completeness auto
termination by (relation "measure (\<lambda>(p, s). length s)") auto

definition trim_newlines :: "string \<Rightarrow> string" where
  "trim_newlines s = rev (dropWhile (\<lambda>c. c = CHR 0x0A) (rev s))"

definition opt_pipe :: "string \<Rightarrow> string" where
  "opt_pipe out = drop_all '',globalopt'' (drop_all '',argpromotion'' (trim_newlines out)) @ '',function(goc-name-blocks)''"

definition print_args :: "Options \<Rightarrow> string list" where
  "print_args o' = [''-passes=default<O'' @ dec_int (op_OptLevel o') @ ''>'', ''-print-pipeline-passes'', ''-disable-output'', ''/dev/null'']"

definition optimize_steps :: "world \<Rightarrow> Tools \<Rightarrow> Options \<Rightarrow> string \<Rightarrow> unit io" where
  "optimize_steps w t o' tmp =
     io_bind (fail_as (\<lambda>e. ''opt -print-pipeline-passes: '' @ e) (perform w (Output (t_Opt t) (print_args o')))) (\<lambda>out.
     io_then (opt w t (opt_pipe (text_of out)) (op_OptExtra o') (path tmp ''a.gate.ll'') (path tmp ''a.opt.ll''))
     (io_then (opt w t ''goc-stackmap'' [] (path tmp ''a.opt.ll'') (path tmp ''a.sm.ll''))
     (opt w t ''goc-reanchor'' [] (path tmp ''a.sm.ll'') (path tmp ''a.reanchor.ll''))))"

definition frontend :: "world \<Rightarrow> Tools \<Rightarrow> Options \<Rightarrow> string \<Rightarrow> (string \<times> bool) io" where
  "frontend w t o' tmp =
     io_then (clang_step w t o' tmp) (io_bind (color_step w t o' tmp) (\<lambda>body.
     io_then (inline_step w t o' tmp body)
     (if op_OptLevel o' = 0 then io_return (path tmp ''a.gate.ll'', False)
      else io_then (optimize_steps w t o' tmp) (io_return (path tmp ''a.reanchor.ll'', True)))))"

section \<open>backend\<close>

fun sublist_at :: "string \<Rightarrow> string \<Rightarrow> bool" where
  "sublist_at p [] = (p = [])"
| "sublist_at p (c # s) = (starts p (c # s) \<or> sublist_at p s)"

text \<open>The magic constant of the tests, in the IR.\<close>

definition has_magic :: "string \<Rightarrow> bool" where
  "has_magic s \<longleftrightarrow> sublist_at ''28C0DE42'' s \<or> sublist_at ''0x28c0de42'' s \<or> sublist_at ''683728450'' s"

definition llcArgs :: "int \<Rightarrow> string \<Rightarrow> string list" where
  "llcArgs lvl arch = (let o' = ''-O'' @ dec_int lvl in
     if arch = ''arm64'' then [o', ''-relocation-model=static'', ''-mtriple=aarch64-unknown-linux-gnu'', ''-mattr=+reserve-x28'', ''-aarch64-enable-compress-jump-tables=false'',
       ''-frame-pointer=all'', ''-enable-shrink-wrap=false'', ''-disable-tail-calls'', ''-enable-tail-merge=false'', ''-tail-dup-pred-size=1000'', ''-tail-dup-succ-size=1000'']
     else [o', ''-relocation-model=pic'', ''-march=x86-64'', ''-frame-pointer=all'', ''-enable-shrink-wrap=false'', ''-disable-tail-calls'',
       ''-no-x86-call-frame-opt'', ''-enable-tail-merge=false'', ''-tail-dup-pred-size=1000'', ''-tail-dup-succ-size=1000''])"

definition lower_steps :: "world \<Rightarrow> Options \<Rightarrow> string \<Rightarrow> string \<Rightarrow> (bool \<times> nat) io" where
  "lower_steps w o' tmp inp = (let ll = path tmp ''body.ll''; goabi = path tmp ''goabi.json'' in
     io_then (copyFile w inp ll) (io_then (step w (FixIR ll (op_Arch o'))) (io_bind (perform w (ReadFile ll)) (\<lambda>src.
     io_then (if op_IRRenames o' \<noteq> [] then step w (RenameIR ll (op_IRRenames o')) else io_return ())
     (io_then (step w (WriteGoABI [ll, path tmp ''body.impl.ll'', path tmp ''thunks.s'', goabi, path tmp ''thunks.goc.s''] (op_Arch o')))
     (io_then (copyFile w (path tmp ''body.impl.ll'') ll) (io_bind (attempt w (ReadFile goabi)) (\<lambda>js.
     io_return (has_magic (text_of src), if op_ABI0 o' \<or> sublist_at [CHR 0x22, CHR ''n'', CHR ''a'', CHR ''m'', CHR ''e'', CHR 0x22] (case js of Some r \<Rightarrow> text_of r | None \<Rightarrow> []) then 0 else 1)))))))))"

text \<open>At -O0 the stack maps are recorded here.\<close>

definition stackmap_steps :: "world \<Rightarrow> Tools \<Rightarrow> string \<Rightarrow> bool \<Rightarrow> string io" where
  "stackmap_steps w t tmp prepared = (if prepared then io_return (path tmp ''body.ll'')
     else io_then (opt w t ''goc-stackmap'' [] (path tmp ''body.ll'') (path tmp ''body.sm.ll''))
       (io_bind (fail_as (\<lambda>_. ''empty stackmap IR'') (perform w (Stat (path tmp ''body.sm.ll'')))) (\<lambda>st.
        if (case st of Info _ n _ \<Rightarrow> n = 0 | _ \<Rightarrow> False) then io_fail ''empty stackmap IR'' else io_return (path tmp ''body.sm.ll''))))"

definition llc_args :: "Options \<Rightarrow> nat \<Rightarrow> string \<Rightarrow> string \<Rightarrow> string \<Rightarrow> string list" where
  "llc_args o' symABI profile tmp ll = llcArgs (op_OptLevel o') (op_Arch o') @ op_LLCExtra o' @
     [''-function-sections'', ''-goc-sym-abi='' @ dec_nat symABI, ''-goc-profile='' @ profile, ''-goc-tables'', path tmp ''body.goc.s'', ''-filetype=asm'', ''-o'', path tmp ''body.s'', ll]"

definition asm_parts :: "string list" where
  "asm_parts = [''body.s'', ''thunks.s'', ''body.goc.s'', ''thunks.goc.s'']"

fun read_all :: "world \<Rightarrow> string list \<Rightarrow> string io" where
  "read_all w [] = io_return []"
| "read_all w (f # fs) = io_bind (perform w (ReadFile f)) (\<lambda>c. io_bind (read_all w fs) (\<lambda>cs. io_return (text_of c @ cs)))"

definition triple :: "string \<Rightarrow> string" where
  "triple arch = (if arch = ''arm64'' then ''aarch64-unknown-linux-gnu'' else ''x86_64-unknown-linux-gnu'')"

definition assemble_steps :: "world \<Rightarrow> Tools \<Rightarrow> Options \<Rightarrow> string \<Rightarrow> unit io" where
  "assemble_steps w t o' tmp =
     io_then (if op_Arch o' = ''arm64'' then io_return () else step w (AlignASM (path tmp ''body.s'')))
     (io_bind (read_all w (map (path tmp) asm_parts)) (\<lambda>asm.
     io_then (step w (WriteFile (path tmp ''body.thunks.s'') asm))
     (tool w (t_MC t) [''-filetype=obj'', ''-triple='' @ triple (op_Arch o'), ''-o'', path tmp ''body.llc.o'', path tmp ''body.thunks.s''])))"

definition convert_args :: "Options \<Rightarrow> string \<Rightarrow> string list" where
  "convert_args o' elf = [''-in'', elf, ''-o'', op_Out o', ''-p'', op_Pkg o', ''-symabis'', Side (op_Out o') @ ''.symabis'', ''-goarch'', op_Arch o'] @
     (if op_LibcallImpl o' \<noteq> [] then [''-libcall-impl'', op_LibcallImpl o'] else [])"

definition finish_steps :: "world \<Rightarrow> Options \<Rightarrow> string \<Rightarrow> bool \<Rightarrow> string \<Rightarrow> unit io" where
  "finish_steps w o' tmp magic ll = (let elf = path tmp ''body.llc.o'' in
     io_then (fail_as (\<lambda>_. ''convert '' @ elf @ '' failed'') (step w (ConvertMain (convert_args o' elf))))
     (io_then (if magic then step w (ObjectHasMagic (op_Out o')) else io_return ())
     (io_then (copyFile w elf (Side (op_Out o') @ ''.gocobj'')) (copyFile w ll (Side (op_Out o') @ ''.ll'')))))"

definition backend :: "world \<Rightarrow> Tools \<Rightarrow> Options \<Rightarrow> string \<Rightarrow> string \<Rightarrow> bool \<Rightarrow> unit io" where
  "backend w t o' tmp inp prepared =
     io_bind (lower_steps w o' tmp inp) (\<lambda>(magic, symABI).
     io_bind (stackmap_steps w t tmp prepared) (\<lambda>ll.
     io_bind (perform w (Profile (op_Arch o'))) (\<lambda>profile.
     io_then (tool w (t_LLC t) (llc_args o' symABI (text_of profile) tmp ll))
     (io_then (assemble_steps w t o' tmp) (finish_steps w o' tmp magic ll)))))"

section \<open>run\<close>

fun skip_spaces :: "string \<Rightarrow> string" where
  "skip_spaces [] = []"
| "skip_spaces (c # s) = (if space_char c then skip_spaces s else c # s)"

text \<open>The pattern \<open>amd64Host\<close>: an FS access of inline assembly, or the word syscall in quotes.\<close>

definition host_at :: "string \<Rightarrow> bool" where
  "host_at s \<longleftrightarrow> starts ([CHR 0x22] @ ''syscall'' @ [CHR 0x22]) s \<or>
     (starts ''movq'' s \<and> drop 4 s \<noteq> [] \<and> space_char (hd (drop 4 s)) \<and> starts ''%%fs:-8'' (skip_spaces (drop 4 s)))"

fun amd64Host :: "string \<Rightarrow> bool" where
  "amd64Host [] = False"
| "amd64Host (c # s) = (host_at (c # s) \<or> amd64Host s)"

definition check_host :: "world \<Rightarrow> Options \<Rightarrow> unit io" where
  "check_host w o' = (if op_Arch o' = ''arm64''
     then io_bind (perform w (ReadFile (op_Src o'))) (\<lambda>src. if amd64Host (text_of src)
       then io_fail (op_Src o' @ '' is a linux/amd64 host (movq %%fs:-8 or syscall) and is not ported to arm64'') else io_return ())
     else io_return ())"

text \<open>The name of the first function, of the lowered IR or of what clang wrote.\<close>

definition first_fn :: "world \<Rightarrow> string \<Rightarrow> string \<Rightarrow> string io" where
  "first_fn w tmp body = io_bind (attempt w (FirstFnName body)) (\<lambda>n. let nm = (case n of Some r \<Rightarrow> text_of r | None \<Rightarrow> []) in
     if nm \<noteq> [] then io_return nm
     else io_bind (attempt w (FirstFnName (path tmp ''a.ll''))) (\<lambda>n. io_return (case n of Some r \<Rightarrow> text_of r | None \<Rightarrow> [])))"

definition compile :: "world \<Rightarrow> Tools \<Rightarrow> Options \<Rightarrow> string \<Rightarrow> unit io" where
  "compile w t o' tmp = io_bind (frontend w t o' tmp) (\<lambda>(body, prepared).
     io_bind (first_fn w tmp body) (\<lambda>nm.
     if nm = [] then io_fail (''no defined function in '' @ op_Src o' @ ''; refusing a non-goobj LLVM object'')
     else fail_as (\<lambda>e. e @ [CHR 0x0A] @ ''goc build: real-body lower failed; no object emitted'') (backend w t o' tmp body prepared)))"

text \<open>The work directory is removed on every way out, unless it is kept.\<close>

definition with_tmp :: "world \<Rightarrow> Options \<Rightarrow> (string \<Rightarrow> unit io) \<Rightarrow> unit io" where
  "with_tmp w o' k = (if op_KeepTmp o' \<noteq> [] then io_then (step w (MkdirAll (op_KeepTmp o'))) (k (op_KeepTmp o'))
     else io_bind (perform w MkdirTemp) (\<lambda>d tr. let (r, tr') = k (text_of d) tr in (r, tr' @ [RemoveAll (text_of d)])))"

definition defaults :: "Options \<Rightarrow> Options" where
  "defaults o' = (let a = (if op_Arch o' = [] then o'\<lparr>op_Arch := ''amd64''\<rparr> else o') in if op_Pkg a = [] then a\<lparr>op_Pkg := ''main''\<rparr> else a)"

definition builder_run :: "world \<Rightarrow> Tools \<Rightarrow> Options \<Rightarrow> unit io" where
  "builder_run w t o0 = (if op_Arch o0 \<noteq> ''amd64'' \<and> op_Arch o0 \<noteq> ''arm64'' then io_fail (''arch '' @ op_Arch o0 @ '' (want amd64 or arm64)'')
     else if op_OptLevel o0 < 0 \<or> op_OptLevel o0 > 3 then io_fail (''-O'' @ dec_int (op_OptLevel o0) @ '': want 0, 1, 2 or 3'')
     else (let o' = (if op_Out o0 = [] then o0\<lparr>op_Out := default_out (op_Src o0)\<rparr> else o0) in
       io_then (check_host w o') (with_tmp w o' (compile w t o'))))"

definition Build :: "world \<Rightarrow> Tools \<Rightarrow> Options \<Rightarrow> unit io" where
  "Build w t o' = builder_run w t (defaults o')"

end
