(* ===== verification/Pipeline_Order.thy ===== *)
theory Pipeline_Order
  imports Pipeline
begin

text \<open>
  What holds of every compile, whatever the tools do: it stops at the first step that fails and cleans up,
  it fails only when its last step did or found what it refuses, and the stack maps are recorded once, after all inlining.
\<close>

section \<open>Programs that stop at an error\<close>

text \<open>Steps whose failure the program does not look at, or which are part of the way out.\<close>

definition tolerated :: "event \<Rightarrow> bool" where
  "tolerated e \<longleftrightarrow> (case e of FirstFnName _ \<Rightarrow> True | RemoveAll _ \<Rightarrow> True | Stat p \<Rightarrow> p = ''/usr/aarch64-linux-gnu/include'' | ReadFile p \<Rightarrow> (\<exists>tmp. p = path tmp ''goabi.json'') | _ \<Rightarrow> False)"

definition failed :: "world \<Rightarrow> event list \<Rightarrow> nat \<Rightarrow> bool" where
  "failed w tr i \<longleftrightarrow> \<not> tolerated (tr ! i) \<and> (\<exists>e. w (take i tr) (tr ! i) = Inl e)"

text \<open>A program adds events; a step that fails is its last one, and makes it fail.\<close>

definition stops :: "world \<Rightarrow> 'a io \<Rightarrow> bool" where
  "stops w m \<longleftrightarrow> (\<forall>tr r tr'. m tr = (r, tr') \<longrightarrow> take (length tr) tr' = tr \<and> length tr \<le> length tr' \<and>
     (\<forall>i. length tr \<le> i \<longrightarrow> i < length tr' \<longrightarrow> failed w tr' i \<longrightarrow> Suc i = length tr' \<and> (\<exists>e. r = Inl e)))"

lemma failed_take: "i < n \<Longrightarrow> n \<le> length tr \<Longrightarrow> failed w (take n tr) i \<longleftrightarrow> failed w tr i"
  by (simp add: failed_def min_def)

lemma stops_return [intro]: "stops w (io_return x)"
  by (auto simp: stops_def io_return_def)

lemma stops_fail [intro]: "stops w (io_fail e)"
  by (auto simp: stops_def io_fail_def)

lemma stops_perform [intro]: "stops w (perform w e)"
  by (auto simp: stops_def perform_def failed_def nth_append less_Suc_eq)

lemma stops_attempt [intro]: "tolerated e \<Longrightarrow> stops w (attempt w e)"
  by (auto simp: stops_def attempt_def failed_def nth_append less_Suc_eq)

lemma stops_fail_as [intro]: "stops w m \<Longrightarrow> stops w (fail_as f m)"
  unfolding stops_def fail_as_def by (fastforce split: prod.splits sum.splits)

lemma stops_bind [intro]:
  assumes "stops w m" "\<And>x. stops w (f x)"
  shows "stops w (io_bind m f)"
  unfolding stops_def
proof (intro allI impI)
  fix tr r tr' assume b: "io_bind m f tr = (r, tr')"
  obtain r1 t1 where m: "m tr = (r1, t1)" by fastforce
  have 1: "take (length tr) t1 = tr" "length tr \<le> length t1" "\<And>i. length tr \<le> i \<Longrightarrow> i < length t1 \<Longrightarrow> failed w t1 i \<Longrightarrow> Suc i = length t1 \<and> (\<exists>e. r1 = Inl e)"
    using assms(1) m unfolding stops_def by blast+
  show "take (length tr) tr' = tr \<and> length tr \<le> length tr' \<and> (\<forall>i. length tr \<le> i \<longrightarrow> i < length tr' \<longrightarrow> failed w tr' i \<longrightarrow> Suc i = length tr' \<and> (\<exists>e. r = Inl e))"
  proof (cases r1)
    case (Inl e)
    then show ?thesis using b m 1 by (auto simp: io_bind_def)
  next
    case (Inr x)
    then have f: "f x t1 = (r, tr')" using b m by (simp add: io_bind_def)
    have 2: "take (length t1) tr' = t1" "length t1 \<le> length tr'" "\<And>i. length t1 \<le> i \<Longrightarrow> i < length tr' \<Longrightarrow> failed w tr' i \<Longrightarrow> Suc i = length tr' \<and> (\<exists>e. r = Inl e)"
      using assms(2) f unfolding stops_def by blast+
    have "take (length tr) tr' = tr" using 1(1,2) 2(1) by (metis min.absorb1 take_take)
    moreover have "Suc i = length tr' \<and> (\<exists>e. r = Inl e)" if i: "length tr \<le> i" "i < length tr'" "failed w tr' i" for i
    proof (cases "i < length t1")
      case True
      then have "failed w t1 i" using failed_take [OF True 2(2)] i(3) 2(1) by metis
      then show ?thesis using 1(3) [OF i(1) True] Inr by simp
    qed (use 2(3) [of i] i in simp)
    ultimately show ?thesis using 1(2) 2(2) by auto
  qed
qed

lemma stops_then [intro]: "stops w m \<Longrightarrow> stops w k \<Longrightarrow> stops w (io_then m k)"
  unfolding io_then_def by (rule stops_bind)

lemma stops_step [intro]: "stops w (step w e)"
  unfolding step_def by (intro stops_bind stops_perform stops_return)

lemma stops_tool [intro]: "stops w (tool w b args)"
  unfolding tool_def by (intro stops_fail_as stops_step)

lemma stops_opt [intro]: "stops w (opt w t p x i o')"
  unfolding opt_def by (rule stops_tool)

lemma stops_copy [intro]: "stops w (copyFile w a b)"
  unfolding copyFile_def by (intro stops_bind stops_perform stops_step)

lemma stops_read [intro]: "stops w (read_all w fs)"
  by (induction fs) auto

lemma stops_if [intro]: "(b \<Longrightarrow> stops w m) \<Longrightarrow> (\<not> b \<Longrightarrow> stops w k) \<Longrightarrow> stops w (if b then m else k)"
  by simp

lemma tolerated_simps [simp]: "tolerated (FirstFnName p)" "tolerated (Stat ''/usr/aarch64-linux-gnu/include'')" "tolerated (ReadFile (path tmp ''goabi.json''))"
  "tolerated (RemoveAll p)"
  by (auto simp: tolerated_def)

lemmas stops_rules = stops_bind stops_then stops_if stops_return stops_fail stops_perform stops_attempt stops_fail_as stops_step stops_tool stops_opt stops_copy stops_read

lemma stops_frontend: "stops w (frontend w t o' tmp)"
  unfolding frontend_def clang_step_def has_sysinc_def color_step_def inline_step_def optimize_steps_def by (intro stops_rules tolerated_simps)

lemma stops_lower: "stops w (lower_steps w o' tmp inp)"
  unfolding lower_steps_def Let_def by (intro stops_rules tolerated_simps)

lemma stops_case_pair: "(\<And>a b. stops w (f a b)) \<Longrightarrow> stops w (case p of (a, b) \<Rightarrow> f a b)"
  by (cases p) simp

lemma stops_backend: "stops w (backend w t o' tmp inp prepared)"
  unfolding backend_def stackmap_steps_def assemble_steps_def finish_steps_def Let_def by (intro stops_rules stops_lower stops_case_pair)

lemma stops_compile: "stops w (compile w t o' tmp)"
  unfolding compile_def first_fn_def Let_def by (intro stops_rules stops_frontend stops_backend stops_case_pair tolerated_simps)

lemma stops_host: "stops w (check_host w o')"
  unfolding check_host_def by (intro stops_rules)

section \<open>The way out\<close>

text \<open>The compile without the removal of the work directory.\<close>

definition inner_run :: "world \<Rightarrow> Tools \<Rightarrow> Options \<Rightarrow> unit io" where
  "inner_run w t o' = io_then (check_host w o')
     (if op_KeepTmp o' \<noteq> [] then io_then (step w (MkdirAll (op_KeepTmp o'))) (compile w t o' (op_KeepTmp o'))
      else io_bind (perform w MkdirTemp) (\<lambda>d. compile w t o' (text_of d)))"

lemma stops_inner: "stops w (inner_run w t o')"
  unfolding inner_run_def by (intro stops_rules stops_host stops_compile)

lemma with_tmp_inner:
  assumes "io_then (check_host w o') (with_tmp w o' (compile w t o')) tr = (r, tr'')"
  shows "\<exists>tr'. inner_run w t o' tr = (r, tr') \<and> (tr'' = tr' \<or> (\<exists>d. tr'' = tr' @ [RemoveAll d]))"
  using assms by (auto simp: io_then_def io_bind_def inner_run_def with_tmp_def perform_def Let_def split: prod.splits sum.splits if_splits)

text \<open>The options with the output name filled in.\<close>

definition final_options :: "Options \<Rightarrow> Options" where
  "final_options o0 = (let o1 = defaults o0 in if op_Out o1 = [] then o1\<lparr>op_Out := default_out (op_Src o1)\<rparr> else o1)"

definition options_ok :: "Options \<Rightarrow> bool" where
  "options_ok o' \<longleftrightarrow> op_Arch o' \<in> {[], ''amd64'', ''arm64''} \<and> 0 \<le> op_OptLevel o' \<and> op_OptLevel o' \<le> 3"

lemma Build_cases:
  "Build w t o' tr = (if options_ok o' then io_then (check_host w (final_options o')) (with_tmp w (final_options o') (compile w t (final_options o'))) tr
     else (Inl (if op_Arch o' \<in> {[], ''amd64'', ''arm64''} then ''-O'' @ dec_int (op_OptLevel o') @ '': want 0, 1, 2 or 3'' else ''arch '' @ op_Arch o' @ '' (want amd64 or arm64)''), tr))"
proof -
  have "op_OptLevel (defaults o') = op_OptLevel o'" "op_Arch (defaults o') = (if op_Arch o' = [] then ''amd64'' else op_Arch o')" by (simp_all add: defaults_def Let_def)
  then show ?thesis by (auto simp: Build_def builder_run_def options_ok_def final_options_def io_fail_def Let_def)
qed

text \<open>C30: Whatever the tools do, the compile stops at the first step that fails: it reports an error, and
  after that step it does nothing but remove its work directory. Only three questions may fail without
  consequence: the name of the first function, whether the arm64 headers are installed, and whether any
  thunk was written.\<close>
theorem Build_stops:
  assumes "Build w t o' [] = (r, tr)" "i < length tr" "\<not> tolerated (tr ! i)" "w (take i tr) (tr ! i) = Inl e"
  shows "(\<exists>m. r = Inl m) \<and> (\<forall>j. i < j \<longrightarrow> j < length tr \<longrightarrow> (\<exists>d. tr ! j = RemoveAll d))"
proof -
  have "options_ok o'" using assms(1,2) by (auto simp: Build_cases split: if_splits)
  then have "io_then (check_host w (final_options o')) (with_tmp w (final_options o') (compile w t (final_options o'))) [] = (r, tr)" using assms(1) by (simp add: Build_cases)
  then obtain tr' where k: "inner_run w t (final_options o') [] = (r, tr')" "tr = tr' \<or> (\<exists>d. tr = tr' @ [RemoveAll d])" using with_tmp_inner by blast
  have i: "i < length tr'" using k(2) assms(2,3) by (auto simp: nth_append less_Suc_eq)
  have n: "tr ! i = tr' ! i" "take i tr = take i tr'" using k(2) i by (auto simp: nth_append)
  have "failed w tr' i" using assms(3,4) n by (auto simp: failed_def)
  then have "Suc i = length tr'" "\<exists>m. r = Inl m" using stops_inner k(1) i unfolding stops_def by fastforce+
  then show ?thesis using k(2) by (auto simp: nth_append)
qed

definition no_clang :: world where
  "no_clang tr e = (case e of Run _ _ \<Rightarrow> Inl ''exit status 1'' | MkdirTemp \<Rightarrow> Inr (Text ''/t'') | _ \<Rightarrow> Inr Done)"

definition ex_tools :: Tools where
  "ex_tools = \<lparr>t_Root = ''/g'', t_Include = ''/g/include'', t_Clang = ''/g/bin/clang'', t_LibDir = ''/g/lib'', t_Opt = ''/g/bin/opt'', t_MC = ''/g/bin/llvm-mc'',
     t_LLC = ''/g/passes/goc-llc'', t_Passes = ''/g/passes/libGocPasses.so''\<rparr>"

theorem Build_stops_witness:
  "\<exists>r tr. Build no_clang ex_tools (options0\<lparr>op_Src := ''a.c''\<rparr>) [] = (r, tr) \<and> length tr = 3 \<and> no_clang (take 1 tr) (tr ! 1) = Inl ''exit status 1'' \<and>
     (\<exists>m. r = Inl m) \<and> (\<exists>d. tr ! 2 = RemoveAll d)"
proof -
  let ?b = "Build no_clang ex_tools (options0\<lparr>op_Src := ''a.c''\<rparr>) []"
  have b: "length (snd ?b) = 3" "case snd ?b ! 1 of Run _ _ \<Rightarrow> True | _ \<Rightarrow> False" by code_simp+
  then have f: "\<not> tolerated (snd ?b ! 1)" "no_clang (take 1 (snd ?b)) (snd ?b ! 1) = Inl ''exit status 1''" by (auto simp: tolerated_def no_clang_def split: event.splits)
  from Build_stops [of no_clang ex_tools "options0\<lparr>op_Src := ''a.c''\<rparr>" "fst ?b" "snd ?b" 1, OF _ _ f]
  show ?thesis using b(1) f(2) by (intro exI [of _ "fst ?b"] exI [of _ "snd ?b"]) simp
qed

section \<open>The order of the passes\<close>

text \<open>The IR passes that a list of events runs.\<close>

definition pass_of :: "event \<Rightarrow> string option" where
  "pass_of e = (case e of Run _ (_ # p # _) \<Rightarrow> if starts ''-passes='' p then Some (drop 8 p) else None | _ \<Rightarrow> None)"

definition passes :: "event list \<Rightarrow> string list" where
  "passes es = List.map_filter pass_of es"

lemma passes_append [simp]: "passes (a @ b) = passes a @ passes b" "passes [] = []"
  by (simp_all add: passes_def List.map_filter_def)

lemma passes_one [simp]: "passes [e] = (case pass_of e of None \<Rightarrow> [] | Some p \<Rightarrow> [p])"
  by (cases "pass_of e") (simp_all add: passes_def List.map_filter_def)

lemma passes_Cons: "passes (e # es) = passes [e] @ passes es"
  using passes_append(1) [of "[e]" es] by simp

text \<open>When the program succeeds, what its result and its events satisfy.\<close>

definition yields :: "'a io \<Rightarrow> ('a \<Rightarrow> event list \<Rightarrow> bool) \<Rightarrow> bool" where
  "yields m Q \<longleftrightarrow> (\<forall>tr x tr'. m tr = (Inr x, tr') \<longrightarrow> (\<exists>es. tr' = tr @ es \<and> Q x es))"

lemma yields_bind: "yields m Q \<Longrightarrow> (\<And>x. yields (f x) (\<lambda>y es'. \<forall>es. Q x es \<longrightarrow> R y (es @ es'))) \<Longrightarrow> yields (io_bind m f) R"
  unfolding yields_def io_bind_def by (fastforce split: prod.splits sum.splits)

lemma yields_then: "yields m (\<lambda>_. Q) \<Longrightarrow> yields k (\<lambda>y es'. \<forall>es. Q es \<longrightarrow> R y (es @ es')) \<Longrightarrow> yields (io_then m k) R"
  unfolding io_then_def by (rule yields_bind)

lemma yields_return: "Q x [] \<Longrightarrow> yields (io_return x) Q"
  by (simp add: yields_def io_return_def)

lemma yields_fail: "yields (io_fail e) Q"
  by (simp add: yields_def io_fail_def)

lemma yields_perform: "(\<And>x. Q x [e]) \<Longrightarrow> yields (perform w e) Q"
  by (auto simp: yields_def perform_def)

lemma yields_attempt: "(\<And>x. Q x [e]) \<Longrightarrow> yields (attempt w e) Q"
  by (auto simp: yields_def attempt_def)

lemma yields_fail_as: "yields m Q \<Longrightarrow> yields (fail_as f m) Q"
  unfolding yields_def fail_as_def by (fastforce split: prod.splits sum.splits)

lemma yields_mono: "yields m Q \<Longrightarrow> (\<And>x es. Q x es \<Longrightarrow> R x es) \<Longrightarrow> yields m R"
  unfolding yields_def by blast

lemma yields_if: "(b \<Longrightarrow> yields m Q) \<Longrightarrow> (\<not> b \<Longrightarrow> yields k Q) \<Longrightarrow> yields (if b then m else k) Q"
  by simp

lemma yields_step: "Q () [e] \<Longrightarrow> yields (step w e) Q"
  unfolding step_def by (intro yields_bind [OF yields_perform [where Q = "\<lambda>_ es. es = [e]"]] yields_return) auto

lemma yields_tool: "Q () [Run b args] \<Longrightarrow> yields (tool w b args) Q"
  unfolding tool_def by (intro yields_fail_as yields_step)

text \<open>A view of the events picks out those a statement is about; reading and writing files is not among them.
  The programs whose successful runs show nothing are closed under the combinators.\<close>

locale event_view =
  fixes view :: "event \<Rightarrow> 'v option"
  assumes files: "view (ReadFile p) = None" "view (WriteFile p x) = None"
begin

abbreviation mute :: "'a io \<Rightarrow> bool" where
  "mute m \<equiv> yields m (\<lambda>_ es. List.map_filter view es = [])"

lemma view_append: "List.map_filter view (a @ b) = List.map_filter view a @ List.map_filter view b"
  by (simp add: List.map_filter_def)

lemma view_Nil: "List.map_filter view [] = []"
  by (simp add: List.map_filter_def)

lemma view_one: "List.map_filter view [e] = (case view e of None \<Rightarrow> [] | Some v \<Rightarrow> [v])"
  by (simp add: List.map_filter_def split: option.split)

lemma mute_bind: "mute m \<Longrightarrow> (\<And>x. mute (f x)) \<Longrightarrow> mute (io_bind m f)"
  by (rule yields_bind) (auto simp: view_append intro: yields_mono)

lemma mute_then: "mute m \<Longrightarrow> mute k \<Longrightarrow> mute (io_then m k)"
  unfolding io_then_def by (rule mute_bind)

lemma mute_event: "view e = None \<Longrightarrow> mute (perform w e)" "view e = None \<Longrightarrow> mute (attempt w e)" "view e = None \<Longrightarrow> mute (step w e)" "mute (io_return x)" "mute (io_fail m)"
  by (auto simp: view_one view_Nil intro: yields_perform yields_attempt yields_step yields_return yields_fail)

lemma mute_tool: "view (Run b args) = None \<Longrightarrow> mute (tool w b args)"
  unfolding tool_def by (intro yields_fail_as mute_event)

lemma mute_copy: "mute (copyFile w a b)"
  unfolding copyFile_def by (intro mute_bind mute_event files)

lemma mute_read: "mute (read_all w fs)"
  by (induction fs) (auto intro!: mute_bind mute_event files)

lemma shows_then: "yields m (\<lambda>_ es. List.map_filter view es = ps) \<Longrightarrow> yields k (\<lambda>_ es. List.map_filter view es = qs) \<Longrightarrow> yields (io_then m k) (\<lambda>_ es. List.map_filter view es = ps @ qs)"
  by (rule yields_then) (auto simp: view_append intro: yields_mono)

end

interpretation pass: event_view pass_of
  by unfold_locales (simp_all add: pass_of_def)

text \<open>The programs that run no pass, and those that run one.\<close>

abbreviation quiet :: "'a io \<Rightarrow> bool" where
  "quiet m \<equiv> yields m (\<lambda>_ es. passes es = [])"

lemmas quiet_bind = pass.mute_bind [folded passes_def]
lemmas quiet_then = pass.mute_then [folded passes_def]
lemmas quiet_perform = pass.mute_event(1-4) [folded passes_def]
lemmas quiet_copy = pass.mute_copy [folded passes_def]
lemmas quiet_read = pass.mute_read [folded passes_def]

lemma pass_opt: "passes [Run b (opt_args t p x i o')] = [p]"
  by (simp add: pass_of_def opt_args_def starts_def)

lemma yields_opt: "Q () [Run (t_Opt t) (opt_args t p x i o')] \<Longrightarrow> yields (opt w t p x i o') Q"
  unfolding opt_def by (rule yields_tool)

lemma clang_passes: "quiet (clang_step w t o' tmp)"
proof -
  have q: "quiet (has_sysinc w o')" unfolding has_sysinc_def by (intro yields_if quiet_bind quiet_perform) (simp add: pass_of_def)
  have "quiet (tool w b (clang_args t o' si out))" for b si out by (rule yields_tool) (simp add: pass_of_def clang_args_def starts_def)
  then show ?thesis unfolding clang_step_def by (intro quiet_bind q yields_fail_as)
qed

lemma color_run: "yields (color_step w t o' tmp) (\<lambda>_ es. passes es = [color_passes o'])"
proof -
  let ?k = "if op_ColorReport o' then io_then (fail_as (\<lambda>_. ''failed to strip debug info after color report for '' @ op_Src o')
      (tool w (t_Opt t) [''--strip-debug'', ''-S'', path tmp ''a.color.ll'', ''-o'', path tmp ''a.color.nodbg.ll''])) (io_return (path tmp ''a.color.nodbg.ll'')) else io_return (path tmp ''a.color.ll'')"
  have "quiet ?k" by (intro yields_if quiet_then quiet_perform yields_fail_as yields_tool) (simp add: pass_of_def starts_def)
  then have "yields ?k (\<lambda>y es'. \<forall>es. passes es = [color_passes o'] \<longrightarrow> passes (es @ es') = [color_passes o'])" by (rule yields_mono) simp
  then show ?thesis unfolding color_step_def by (intro yields_then [where Q = "\<lambda>es. passes es = [color_passes o']"] yields_fail_as yields_opt pass_opt)
qed

lemma optimize_passes: "yields (optimize_steps w t o' tmp) (\<lambda>_ es. \<exists>pipe. passes es = [opt_pipe pipe, ''goc-stackmap'', ''goc-reanchor''])"
proof -
  have three: "yields (io_then (opt w t p x i o1) (io_then (opt w t q y i2 o2) (opt w t r z i3 o3))) (\<lambda>_ es. passes es = [p, q, r])" for p q r x y z i i2 i3 o1 o2 o3
    by (intro yields_then [where Q = "\<lambda>es. passes es = [p]"] yields_opt pass_opt yields_then [where Q = "\<lambda>es. passes es = [q]"])
      (auto simp: pass_opt simp del: passes_one)
  show ?thesis unfolding optimize_steps_def
    by (rule yields_bind [where Q = "\<lambda>_ es. passes es = []"], intro yields_fail_as yields_perform, simp add: pass_of_def, rule yields_mono [OF three]) auto
qed

text \<open>What \<open>frontend\<close> ran, and whether the stack maps are recorded.\<close>

definition front_passes :: "Options \<Rightarrow> string list \<Rightarrow> bool" where
  "front_passes o' ps \<longleftrightarrow> (if op_OptLevel o' = 0 then ps = [color_passes o', ''goc-uptr-inline'']
     else (\<exists>pipe. ps = [color_passes o', ''goc-uptr-inline'', opt_pipe pipe, ''goc-stackmap'', ''goc-reanchor'']))"

lemma frontend_passes: "yields (frontend w t o' tmp) (\<lambda>(_, prepared) es. prepared = (op_OptLevel o' \<noteq> 0) \<and> front_passes o' (passes es))"
proof -
  let ?k = "if op_OptLevel o' = 0 then io_return (path tmp ''a.gate.ll'', False) else io_then (optimize_steps w t o' tmp) (io_return (path tmp ''a.reanchor.ll'', True))"
  let ?Q = "\<lambda>(_, prepared) es. prepared = (op_OptLevel o' \<noteq> 0) \<and> front_passes o' ([color_passes o', ''goc-uptr-inline''] @ passes es)"
  have k: "yields ?k ?Q"
    by (rule yields_if, rule yields_return, simp add: front_passes_def, rule yields_then [where Q = "\<lambda>es. \<exists>pipe. passes es = [opt_pipe pipe, ''goc-stackmap'', ''goc-reanchor'']"],
        rule optimize_passes, rule yields_return) (auto simp: front_passes_def)
  have i: "yields (io_then (inline_step w t o' tmp body) ?k) (\<lambda>y es. \<forall>es0. passes es0 = [color_passes o'] \<longrightarrow> (case y of (_, prepared) \<Rightarrow> prepared = (op_OptLevel o' \<noteq> 0) \<and> front_passes o' (passes (es0 @ es))))" for body
    unfolding inline_step_def by (rule yields_then [where Q = "\<lambda>es. passes es = [''goc-uptr-inline'']"], rule yields_opt, rule pass_opt, rule yields_mono [OF k]) auto
  have "yields (io_bind (color_step w t o' tmp) (\<lambda>body. io_then (inline_step w t o' tmp body) ?k)) (\<lambda>(_, prepared) es. prepared = (op_OptLevel o' \<noteq> 0) \<and> front_passes o' (passes es))"
    by (rule yields_bind [OF color_run]) (rule yields_mono [OF i], auto)
  then show ?thesis unfolding frontend_def by (rule yields_then [OF clang_passes, OF yields_mono]) auto
qed

lemma lower_passes: "quiet (lower_steps w o' tmp inp)"
  unfolding lower_steps_def Let_def by (intro quiet_then quiet_bind quiet_copy quiet_perform yields_if) (simp_all add: pass_of_def)

lemma rest_passes: "quiet (assemble_steps w t o' tmp)" "quiet (finish_steps w o' tmp magic ll)"
proof -
  have "quiet (tool w b [''-filetype=obj'', ''-triple='' @ x, y, z, u])" for b x y z u by (rule yields_tool) (simp add: pass_of_def starts_def)
  then show "quiet (assemble_steps w t o' tmp)" unfolding assemble_steps_def by (intro quiet_then quiet_bind quiet_read quiet_perform yields_if) (simp_all add: pass_of_def)
  show "quiet (finish_steps w o' tmp magic ll)" unfolding finish_steps_def Let_def by (intro quiet_then quiet_copy quiet_perform yields_if yields_fail_as) (simp_all add: pass_of_def)
qed

lemma stackmap_passes: "yields (stackmap_steps w t tmp prepared) (\<lambda>_ es. passes es = (if prepared then [] else [''goc-stackmap'']))"
proof -
  have q: "quiet (io_bind (fail_as (\<lambda>_. ''empty stackmap IR'') (perform w (Stat p))) (\<lambda>st. if b st then io_fail ''empty stackmap IR'' else io_return p))" for p b
    by (intro quiet_bind yields_fail_as quiet_perform yields_if yields_fail) (simp add: pass_of_def)
  show ?thesis unfolding stackmap_steps_def
    by (rule yields_if, rule yields_return, simp, rule yields_then [where Q = "\<lambda>es. passes es = [''goc-stackmap'']"], rule yields_opt, rule pass_opt, rule yields_mono [OF q]) simp
qed

definition before_llc :: "Tools \<Rightarrow> string list \<Rightarrow> event list \<Rightarrow> bool" where
  "before_llc t ps es \<longleftrightarrow> (\<exists>pre args post. es = pre @ Run (t_LLC t) args # post \<and> passes pre = ps \<and> passes post = [])"

lemma before_llc_front: "before_llc t ps b \<Longrightarrow> before_llc t (passes a @ ps) (a @ b)"
  unfolding before_llc_def by (metis append.assoc passes_append(1))

lemma before_llc_quiet: "before_llc t ps b \<Longrightarrow> passes a = [] \<Longrightarrow> before_llc t ps (a @ b)" "before_llc t [] b \<Longrightarrow> passes a = ps \<Longrightarrow> before_llc t ps (a @ b)"
  using before_llc_front [of t _ b a] by fastforce+

lemma llc_first: "passes es = [] \<Longrightarrow> before_llc t [] ([Run (t_LLC t) args] @ es)"
  unfolding before_llc_def by (intro exI [of _ "[]"] exI [of _ args] exI [of _ es]) simp

lemma backend_passes: "yields (backend w t o' tmp inp prepared) (\<lambda>_ es. before_llc t (if prepared then [] else [''goc-stackmap'']) es)"
proof -
  let ?ps = "if prepared then [] else [''goc-stackmap'']"
  have r: "quiet (io_then (assemble_steps w t o' tmp) (finish_steps w o' tmp magic ll))" for magic ll by (intro quiet_then rest_passes)
  have l: "yields (io_then (tool w (t_LLC t) args) (io_then (assemble_steps w t o' tmp) (finish_steps w o' tmp magic ll))) (\<lambda>_ es. before_llc t [] es)" for args magic ll
    by (rule yields_then [where Q = "\<lambda>es. es = [Run (t_LLC t) args]"], rule yields_tool, simp, rule yields_mono [OF r]) (use llc_first in blast)
  have p: "yields (io_bind (perform w (Profile x)) (\<lambda>p. io_then (tool w (t_LLC t) (f p)) (io_then (assemble_steps w t o' tmp) (finish_steps w o' tmp magic ll)))) (\<lambda>_ es. before_llc t [] es)" for x f magic ll
    by (rule yields_bind [where Q = "\<lambda>_ es. passes es = []"], rule quiet_perform, simp add: pass_of_def, rule yields_mono [OF l]) (use before_llc_quiet(1) in blast)
  have s: "yields (io_bind (stackmap_steps w t tmp prepared) (\<lambda>ll. io_bind (perform w (Profile x)) (\<lambda>p. io_then (tool w (t_LLC t) (f ll p)) (io_then (assemble_steps w t o' tmp) (finish_steps w o' tmp magic ll))))) (\<lambda>_ es. before_llc t ?ps es)" for x f magic
    by (rule yields_bind [OF stackmap_passes], rule yields_mono [OF p]) (use before_llc_quiet(2) in blast)
  show ?thesis unfolding backend_def
    by (rule yields_bind [OF lower_passes], clarsimp split del: if_split, rule yields_mono [OF s]) (use before_llc_quiet(1) in blast)
qed

text \<open>All passes of a compile.\<close>

definition all_passes :: "Options \<Rightarrow> string list \<Rightarrow> bool" where
  "all_passes o' ps \<longleftrightarrow> (if op_OptLevel o' = 0 then ps = [color_passes o', ''goc-uptr-inline'', ''goc-stackmap'']
     else (\<exists>pipe. ps = [color_passes o', ''goc-uptr-inline'', opt_pipe pipe, ''goc-stackmap'', ''goc-reanchor'']))"

lemma compile_passes: "yields (compile w t o' tmp) (\<lambda>_ es. \<exists>ps. all_passes o' ps \<and> before_llc t ps es)"
proof -
  have n: "quiet (first_fn w tmp body)" for body unfolding first_fn_def Let_def by (intro quiet_bind quiet_perform yields_if) (simp_all add: pass_of_def)
  let ?R = "\<lambda>prepared es. before_llc t (if prepared then [] else [''goc-stackmap'']) es"
  have b: "yields (io_bind (first_fn w tmp body) (\<lambda>nm. if nm = [] then io_fail x else fail_as f (backend w t o' tmp body prepared))) (\<lambda>_. ?R prepared)" for body prepared x f
  proof (rule yields_bind [OF n], rule yields_if, rule yields_fail, rule yields_fail_as, rule yields_mono [OF backend_passes], intro allI impI)
    fix es es' assume "?R prepared es'" "passes es = []"
    then show "?R prepared (es @ es')" using before_llc_front [of t _ es' es] by simp
  qed
  have e: "\<exists>ps. all_passes o' ps \<and> before_llc t ps (es @ es')" if "prepared = (op_OptLevel o' \<noteq> 0)" "front_passes o' (passes es)" "?R prepared es'" for prepared es es'
    using before_llc_front [OF that(3), of es] that(1,2) by (auto simp: all_passes_def front_passes_def split: if_splits)
  show ?thesis unfolding compile_def
    by (rule yields_bind [OF frontend_passes], clarsimp simp del: not_None_eq, rule yields_mono [OF b]) (use e in \<open>auto split: prod.splits\<close>)
qed

text \<open>C29: A compile that succeeds runs the IR passes in one order: pointer colors, the inline bodies, then at
  -O1 and above the optimizer's pipeline, the stack maps and the re-anchoring, at -O0 the stack maps on
  the lowered IR. So the stack maps are recorded exactly once, nothing inlines after them, and every pass
  is run before \<open>goc-llc\<close> compiles the IR.\<close>
theorem Build_pass_order:
  assumes "Build w t o' [] = (Inr (), tr)"
  shows "\<exists>pre args post pipe. tr = pre @ Run (t_LLC t) args # post \<and> passes post = [] \<and> passes pre = [color_passes o', ''goc-uptr-inline''] @
    (if op_OptLevel o' = 0 then [''goc-stackmap''] else [opt_pipe pipe, ''goc-stackmap'', ''goc-reanchor''])"
proof -
  let ?o = "final_options o'"
  have ok: "io_then (check_host w ?o) (with_tmp w ?o (compile w t ?o)) [] = (Inr (), tr)" using assms by (auto simp: Build_cases split: if_splits)
  then obtain tr' where k: "inner_run w t ?o [] = (Inr (), tr')" "tr = tr' \<or> (\<exists>d. tr = tr' @ [RemoveAll d])" using with_tmp_inner by blast
  have h: "quiet (check_host w ?o)" unfolding check_host_def by (intro yields_if quiet_bind quiet_perform yields_fail) (simp add: pass_of_def)
  let ?R = "\<lambda>es. \<exists>ps. all_passes ?o ps \<and> before_llc t ps es"
  have f: "?R (es @ es')" if "passes es = []" "?R es'" for es es' using that before_llc_front [of t _ es' es] by fastforce
  let ?k = "if op_KeepTmp ?o \<noteq> [] then io_then (step w (MkdirAll (op_KeepTmp ?o))) (compile w t ?o (op_KeepTmp ?o)) else io_bind (perform w MkdirTemp) (\<lambda>d. compile w t ?o (text_of d))"
  have "yields ?k (\<lambda>_. ?R)"
    by (rule yields_if, rule yields_then [where Q = "\<lambda>es. passes es = []"], rule quiet_perform, simp add: pass_of_def, rule yields_mono [OF compile_passes], use f in blast,
        rule yields_bind [where Q = "\<lambda>_ es. passes es = []"], rule quiet_perform, simp add: pass_of_def, rule yields_mono [OF compile_passes], use f in blast)
  then have "yields (inner_run w t ?o) (\<lambda>_. ?R)" unfolding inner_run_def by (rule yields_then [OF h, OF yields_mono]) (use f in blast)
  then have "?R tr'" using k(1) unfolding yields_def by fastforce
  then have "?R tr" using k(2) unfolding before_llc_def by (fastforce simp: pass_of_def)
  moreover have "op_OptLevel ?o = op_OptLevel o'" "color_passes ?o = color_passes o'" by (simp_all add: final_options_def defaults_def color_passes_def Let_def)
  ultimately show ?thesis unfolding all_passes_def before_llc_def by (auto split: if_splits)
qed

definition all_well :: world where
  "all_well tr e = (case e of FirstFnName _ \<Rightarrow> Inr (Text ''f'') | Stat _ \<Rightarrow> Inr (Info False 1 0) | MkdirTemp \<Rightarrow> Inr (Text ''/t'') | Output _ _ \<Rightarrow> Inr (Text ''inline,argpromotion,gvn'') | _ \<Rightarrow> Inr Done)"

lemma all_well_runs: "fst (Build all_well ex_tools (options0\<lparr>op_Src := ''a.c'', op_OptLevel := 2\<rparr>) []) = Inr ()"
  by code_simp

theorem Build_pass_order_witness:
  "\<exists>tr pre args post. Build all_well ex_tools (options0\<lparr>op_Src := ''a.c'', op_OptLevel := 2\<rparr>) [] = (Inr (), tr) \<and> tr = pre @ Run ''/g/passes/goc-llc'' args # post \<and> passes post = [] \<and>
     (\<exists>pipe. passes pre = [''goc-color-escape'', ''goc-uptr-inline'', opt_pipe pipe, ''goc-stackmap'', ''goc-reanchor''])"
proof -
  let ?o = "options0\<lparr>op_Src := ''a.c'', op_OptLevel := 2\<rparr>"
  obtain tr where tr: "Build all_well ex_tools ?o [] = (Inr (), tr)" using all_well_runs by (metis prod.collapse)
  have "color_passes ?o = ''goc-color-escape''" "t_LLC ex_tools = ''/g/passes/goc-llc''" by (simp_all add: color_passes_def options0_def ex_tools_def)
  then show ?thesis using Build_pass_order [OF tr] tr by auto
qed

section \<open>What an error is about\<close>

text \<open>A step that justifies an error: it failed, or the compile refuses what it found. It refuses a source of the other
  architecture's host, IR in which no function is found, and stack maps that are empty.\<close>

definition at_fault :: "world \<Rightarrow> Options \<Rightarrow> event list \<Rightarrow> event \<Rightarrow> bool" where
  "at_fault w o' tr e \<longleftrightarrow> (case e of
     RemoveAll _ \<Rightarrow> False
   | FirstFnName _ \<Rightarrow> (case w tr e of Inl _ \<Rightarrow> True | Inr x \<Rightarrow> text_of x = [])
   | Stat _ \<Rightarrow> (case w tr e of Inl _ \<Rightarrow> True | Inr x \<Rightarrow> (case x of Info _ n _ \<Rightarrow> n = 0 | _ \<Rightarrow> False))
   | ReadFile p \<Rightarrow> (case w tr e of Inl _ \<Rightarrow> True | Inr x \<Rightarrow> op_Arch o' = ''arm64'' \<and> p = op_Src o' \<and> amd64Host (text_of x))
   | _ \<Rightarrow> isl (w tr e))"

text \<open>A program that fails only right after such a step.\<close>

definition blames :: "world \<Rightarrow> Options \<Rightarrow> 'a io \<Rightarrow> bool" where
  "blames w o' m \<longleftrightarrow> (\<forall>tr e tr'. m tr = (Inl e, tr') \<longrightarrow> tr' \<noteq> [] \<and> at_fault w o' (butlast tr') (last tr'))"

lemma blames_return: "blames w o' (io_return x)"
  by (simp add: blames_def io_return_def)

lemma blames_perform: "(\<forall>d. e \<noteq> RemoveAll d) \<Longrightarrow> blames w o' (perform w e)"
  by (auto simp: blames_def perform_def at_fault_def split: event.splits)

lemma blames_attempt: "blames w o' (attempt w e)"
  by (simp add: blames_def attempt_def)

lemma blames_fail_as: "blames w o' m \<Longrightarrow> blames w o' (fail_as f m)"
  unfolding blames_def fail_as_def by (fastforce split: prod.splits sum.splits)

lemma blames_bind: "blames w o' m \<Longrightarrow> (\<And>x. blames w o' (f x)) \<Longrightarrow> blames w o' (io_bind m f)"
  unfolding blames_def io_bind_def by (fastforce split: prod.splits sum.splits)

lemma blames_then: "blames w o' m \<Longrightarrow> blames w o' k \<Longrightarrow> blames w o' (io_then m k)"
  unfolding io_then_def by (rule blames_bind)

lemma blames_if: "(b \<Longrightarrow> blames w o' m) \<Longrightarrow> (\<not> b \<Longrightarrow> blames w o' k) \<Longrightarrow> blames w o' (if b then m else k)"
  by simp

lemma blames_pair: "(\<And>a b. blames w o' (f a b)) \<Longrightarrow> blames w o' (case p of (a, b) \<Rightarrow> f a b)"
  by (cases p) simp

lemma blames_step: "(\<forall>d. e \<noteq> RemoveAll d) \<Longrightarrow> blames w o' (step w e)"
  unfolding step_def by (intro blames_bind blames_perform blames_return)

lemma blames_tool: "blames w o' (tool w b args)" "blames w o' (opt w t p x i o1)"
  unfolding opt_def tool_def by (intro blames_fail_as blames_step; simp)+

lemma blames_copy: "blames w o' (copyFile w a b)"
  unfolding copyFile_def by (intro blames_bind blames_perform blames_step) simp_all

lemma blames_read: "blames w o' (read_all w fs)"
  by (induction fs) (auto intro!: blames_bind blames_perform blames_return)

lemmas blames_rules = blames_bind blames_then blames_if blames_return blames_perform blames_attempt blames_fail_as blames_step blames_tool blames_copy
  blames_read blames_pair

text \<open>The three refusals.\<close>

lemma blames_host: "blames w o' (check_host w o')"
  by (auto simp: blames_def check_host_def io_bind_def perform_def io_return_def io_fail_def at_fault_def split: sum.splits if_splits)

lemma blames_stackmap: "blames w o' (stackmap_steps w t tmp prepared)"
proof -
  have "blames w o' (io_bind (fail_as f (perform w (Stat p))) (\<lambda>st. if (case st of Info _ n _ \<Rightarrow> n = 0 | _ \<Rightarrow> False) then io_fail e else io_return x))" for f p e x
    by (auto simp: blames_def io_bind_def fail_as_def perform_def io_return_def io_fail_def at_fault_def split: sum.splits if_splits)
  then show ?thesis unfolding stackmap_steps_def by (intro blames_if blames_return blames_then blames_tool)
qed

lemma blames_first_fn:
  assumes "\<And>nm. blames w o' (k nm)"
  shows "blames w o' (io_bind (first_fn w tmp body) (\<lambda>nm. if nm = [] then io_fail e else k nm))"
proof -
  have "blames w o' (io_bind (attempt w (FirstFnName p)) (\<lambda>n. (\<lambda>nm. if nm = [] then io_fail e else k nm) (case n of Some r \<Rightarrow> text_of r | None \<Rightarrow> [])))" for p
    using assms by (auto simp: blames_def io_bind_def attempt_def io_fail_def at_fault_def split: sum.splits if_splits)
  note second = this [unfolded blames_def, rule_format]
  show ?thesis
    unfolding blames_def
  proof (intro allI impI)
    fix tr m tr' assume r: "io_bind (first_fn w tmp body) (\<lambda>nm. if nm = [] then io_fail e else k nm) tr = (Inl m, tr')"
    show "tr' \<noteq> [] \<and> at_fault w o' (butlast tr') (last tr')"
    proof (cases "case w tr (FirstFnName body) of Inl _ \<Rightarrow> True | Inr x \<Rightarrow> text_of x = []")
      case True
      then have "io_bind (attempt w (FirstFnName (path tmp ''a.ll''))) (\<lambda>n. (\<lambda>nm. if nm = [] then io_fail e else k nm) (case n of Some r \<Rightarrow> text_of r | None \<Rightarrow> []))
          (tr @ [FirstFnName body]) = (Inl m, tr')"
        using r by (auto simp: first_fn_def io_bind_def attempt_def io_return_def Let_def split: sum.splits)
      then show ?thesis by (rule second)
    next
      case False
      then obtain x where x: "w tr (FirstFnName body) = Inr x" "text_of x \<noteq> []" by (auto split: sum.splits)
      then have "k (text_of x) (tr @ [FirstFnName body]) = (Inl m, tr')"
        using r by (simp add: first_fn_def io_bind_def attempt_def io_return_def Let_def)
      then show ?thesis using assms unfolding blames_def by blast
    qed
  qed
qed

lemma blames_frontend: "blames w o' (frontend w t o1 tmp)"
  unfolding frontend_def clang_step_def has_sysinc_def color_step_def inline_step_def optimize_steps_def by (intro blames_rules; simp)

lemma blames_backend: "blames w o' (backend w t o1 tmp inp prepared)"
  unfolding backend_def lower_steps_def assemble_steps_def finish_steps_def Let_def by (intro blames_rules blames_stackmap; simp)

lemma blames_inner: "blames w o' (inner_run w t o')"
proof -
  have "blames w o' (compile w t o' tmp)" for tmp
    unfolding compile_def by (intro blames_bind blames_frontend blames_pair blames_first_fn blames_fail_as blames_backend)
  then show ?thesis unfolding inner_run_def by (intro blames_then blames_bind blames_if blames_host blames_step blames_perform; simp)
qed

text \<open>A program whose success ends with a file written.\<close>

definition ends_written :: "world \<Rightarrow> 'a io \<Rightarrow> bool" where
  "ends_written w m \<longleftrightarrow> (\<forall>tr x tr'. m tr = (Inr x, tr') \<longrightarrow> (\<exists>t0 p c y. tr' = t0 @ [WriteFile p c] \<and> w t0 (WriteFile p c) = Inr y))"

lemma ends_bind: "(\<And>x. ends_written w (f x)) \<Longrightarrow> ends_written w (io_bind m f)" "ends_written w k \<Longrightarrow> ends_written w (io_then n k)"
  unfolding ends_written_def io_then_def io_bind_def by (fastforce split: prod.splits sum.splits)+

lemma ends_fail: "ends_written w (io_fail e)"
  by (simp add: ends_written_def io_fail_def)

lemma ends_fail_as: "ends_written w m \<Longrightarrow> ends_written w (fail_as f m)"
  unfolding ends_written_def fail_as_def by (fastforce split: prod.splits sum.splits)

lemma ends_copy: "ends_written w (copyFile w a b)"
  by (auto simp: ends_written_def copyFile_def io_bind_def step_def perform_def io_return_def split: sum.splits)

lemma ends_if: "ends_written w m \<Longrightarrow> ends_written w k \<Longrightarrow> ends_written w (if b then m else k)"
  by simp

lemma ends_pair: "(\<And>a b. ends_written w (f a b)) \<Longrightarrow> ends_written w (case p of (a, b) \<Rightarrow> f a b)"
  by (cases p) simp

lemma ends_inner: "ends_written w (inner_run w t o')"
proof -
  have "ends_written w (compile w t o' tmp)" for tmp
    unfolding compile_def backend_def finish_steps_def Let_def by (intro ends_bind ends_pair ends_if ends_fail ends_fail_as ends_copy)
  then show ?thesis unfolding inner_run_def by (intro ends_bind ends_if)
qed

text \<open>C31: When a compile fails. Whatever the tools do, options that name an unknown architecture or level are refused
  before any step. Otherwise the compile takes steps, the last of them before the removal of its work directory decides,
  and it reports an error exactly when that step failed or found what the compile refuses: an arm64 source with amd64
  host code, no name of a defined function, or an empty stack map file. So no error is invented and none is dropped.\<close>
theorem Build_fails_iff:
  assumes "Build w t o' [] = (r, tr)"
  shows "(\<not> options_ok o' \<longrightarrow> isl r \<and> tr = []) \<and>
    (options_ok o' \<longrightarrow> (\<exists>es. es \<noteq> [] \<and> (tr = es \<or> (\<exists>d. tr = es @ [RemoveAll d])) \<and> (\<forall>d. last es \<noteq> RemoveAll d) \<and>
       (isl r \<longleftrightarrow> at_fault w (final_options o') (butlast es) (last es))))"
proof (cases "options_ok o'")
  case True
  let ?o = "final_options o'"
  have "io_then (check_host w ?o) (with_tmp w ?o (compile w t ?o)) [] = (r, tr)" using True assms by (simp add: Build_cases)
  then obtain es where k: "inner_run w t ?o [] = (r, es)" "tr = es \<or> (\<exists>d. tr = es @ [RemoveAll d])" using with_tmp_inner by blast
  have "es \<noteq> [] \<and> (\<forall>d. last es \<noteq> RemoveAll d) \<and> (isl r \<longleftrightarrow> at_fault w ?o (butlast es) (last es))"
  proof (cases r)
    case (Inl m)
    then have "es \<noteq> [] \<and> at_fault w ?o (butlast es) (last es)" using blames_inner k(1) unfolding blames_def by blast
    then show ?thesis using Inl by (auto simp: at_fault_def)
  next
    case (Inr u)
    then obtain t0 p c y where "es = t0 @ [WriteFile p c]" "w t0 (WriteFile p c) = Inr y" using ends_inner k(1) unfolding ends_written_def by blast
    then show ?thesis using Inr by (simp add: at_fault_def)
  qed
  then show ?thesis using True k(2) by blast
next
  case False
  then show ?thesis using assms by (auto simp: Build_cases)
qed

theorem Build_fails_iff_witness:
  "isl (fst (Build all_well ex_tools (options0\<lparr>op_Src := ''a.c'', op_OptLevel := 4\<rparr>) [])) \<and> isl (fst (Build no_clang ex_tools (options0\<lparr>op_Src := ''a.c''\<rparr>) [])) \<and>
   (\<exists>es. es \<noteq> [] \<and> at_fault no_clang (final_options (options0\<lparr>op_Src := ''a.c''\<rparr>)) (butlast es) (last es))"
proof -
  let ?b = "Build no_clang ex_tools (options0\<lparr>op_Src := ''a.c''\<rparr>) []"
  have "\<not> options_ok (options0\<lparr>op_Src := ''a.c'', op_OptLevel := 4\<rparr>)" "options_ok (options0\<lparr>op_Src := ''a.c''\<rparr>)" by (simp_all add: options_ok_def options0_def)
  moreover have "isl (fst ?b)" by code_simp
  ultimately show ?thesis
    using Build_fails_iff [of all_well ex_tools "options0\<lparr>op_Src := ''a.c'', op_OptLevel := 4\<rparr>"] Build_fails_iff [of no_clang ex_tools "options0\<lparr>op_Src := ''a.c''\<rparr>" "fst ?b" "snd ?b"]
    by (metis prod.collapse)
qed

section \<open>The command line and the compile\<close>

lemma options_upd [simp]:
  "options_ok (se_o (see k s)) = options_ok (se_o s)" "options_ok (se_o (set_o (op_DefaultPtrColor_update f) s)) = options_ok (se_o s)" "options_ok (se_o (set_o (op_KeepTmp_update f) s)) = options_ok (se_o s)"
  "options_ok (se_o (set_o (op_Pkg_update f) s)) = options_ok (se_o s)" "options_ok (se_o (set_o (op_IRRenames_update f) s)) = options_ok (se_o s)" "options_ok (se_o (set_o (op_LibcallImpl_update f) s)) = options_ok (se_o s)"
  "options_ok (se_o (set_o (op_FastStackAlloca_update g) s)) = options_ok (se_o s)" "options_ok (se_o (set_o (op_ColorReport_update g) s)) = options_ok (se_o s)" "options_ok (se_o (set_o (op_ABI0_update g) s)) = options_ok (se_o s)"
  "options_ok (se_o (set_o (op_ClangArgs_update h) s)) = options_ok (se_o s)" "options_ok (se_o (set_o (op_OptExtra_update h) s)) = options_ok (se_o s)" "options_ok (se_o (set_o (op_LLCExtra_update h) s)) = options_ok (se_o s)"
  "options_ok (se_o (set_o (op_Src_update f) s)) = options_ok (se_o s)" "options_ok (se_o (set_o (op_Out_update f) s)) = options_ok (se_o s)"
  "options_ok (se_o s) \<Longrightarrow> v = ''amd64'' \<or> v = ''arm64'' \<Longrightarrow> options_ok (se_o (set_o (op_Arch_update (\<lambda>_. v)) s))"
  "options_ok (se_o s) \<Longrightarrow> 0 \<le> i \<Longrightarrow> i \<le> 3 \<Longrightarrow> options_ok (se_o (set_o (op_OptLevel_update (\<lambda>_. i)) s))"
  by (auto simp: options_ok_def set_o_def see_def)

lemma map_sum_Inr_iff: "map_sum id f x = Inr y \<longleftrightarrow> (\<exists>z. x = Inr z \<and> y = f z)"
  by (cases x) auto

lemma consume_value_options: "options_ok (se_o s) \<Longrightarrow> case consume_value names s args of Inl _ \<Rightarrow> True | Inr (_, s') \<Rightarrow> options_ok (se_o s')"
proof (induction names)
  case (Cons name names)
  have "case set_value name v s of Inl _ \<Rightarrow> True | Inr s' \<Rightarrow> options_ok (se_o s')" for v unfolding set_value_def using Cons.prems by simp
  then have "options_ok (se_o s')" if "set_value name v s = Inr s'" for v s' using that by (metis old.sum.simps(6))
  then show ?case using Cons by (auto simp: map_sum_Inr_iff split: option.splits sum.splits)
qed simp

lemma consume_options: "options_ok (se_o s) \<Longrightarrow> case consume mk s args of Inl _ \<Rightarrow> True | Inr (_, s') \<Rightarrow> options_ok (se_o s')"
  unfolding consume_def Let_def using opt_level [of "hd args"] consume_value_options [of s value_flags args] by (cases mk) simp_all

lemma build_loop_options: "build_loop mk s args = CliSettings s' \<Longrightarrow> options_ok (se_o s) \<Longrightarrow> options_ok (se_o s')"
proof (induction mk s args rule: build_loop.induct)
  case (2 mk s a rest)
  obtain n s1 where c: "consume mk s (a # rest) = Inr (n, s1)" using "2.prems"(1) by (auto split: sum.splits)
  have w: "options_ok (se_o s1)" using consume_options [OF "2.prems"(2), of mk "a # rest"] c by simp
  show ?case using "2.IH" [OF c refl] "2.prems"(1) c w by (auto simp del: build_loop.simps(2) simp: build_loop.simps(2) [of mk s] split: if_splits list.splits)
qed (simp split: if_splits)

text \<open>C32: The switches are typed: the options that \<open>goc build\<close> takes from any accepted command line name a known
  architecture (or none) and a level from 0 to 3, so the checks at the start of the compile always pass
  and the first thing the compile does is to look at the source or to make its work directory.\<close>
theorem cmdBuild_typed:
  assumes "cmdBuild_args mk args = CliSettings s"
  shows "options_ok (se_o s) \<and> Build w t (se_o s) tr = io_then (check_host w (final_options (se_o s))) (with_tmp w (final_options (se_o s)) (compile w t (final_options (se_o s)))) tr"
proof -
  have "options_ok (se_o newSettings)" by (simp add: options_ok_def newSettings_def options0_def)
  then have "options_ok (se_o s)" using assms build_loop_options by (auto simp: cmdBuild_args_def split: if_splits)
  then show ?thesis by (simp add: Build_cases)
qed

theorem cmdBuild_typed_witness:
  "\<exists>s. cmdBuild_args (Inl ''no'') [''-O2'', ''a.c'', ''--arch'', ''arm64'', ''-Wall''] = CliSettings s \<and> op_OptLevel (se_o s) = 2 \<and> op_Arch (se_o s) = ''arm64'' \<and> options_ok (se_o s)"
proof -
  have "case cmdBuild_args (Inl ''no'') [''-O2'', ''a.c'', ''--arch'', ''arm64'', ''-Wall''] of CliSettings s \<Rightarrow> op_OptLevel (se_o s) = 2 \<and> op_Arch (se_o s) = ''arm64'' | _ \<Rightarrow> False" by code_simp
  then obtain s where "cmdBuild_args (Inl ''no'') [''-O2'', ''a.c'', ''--arch'', ''arm64'', ''-Wall''] = CliSettings s" "op_OptLevel (se_o s) = 2" "op_Arch (se_o s) = ''arm64''" by (auto split: cli.splits)
  then show ?thesis using cmdBuild_typed by blast
qed

end
