(* ===== verification/Toolexec.thy ===== *)
theory Toolexec
  imports Pipeline Table_Asm
begin

text \<open>
  The \<open>go build -toolexec\<close> hook: the flag that \<open>goc go\<close> passes (\<open>ToolexecFlag\<close> of \<open>gocmd.go\<close>) and what the hook
  does with the arguments it is called with (\<open>toolexec.go\<close>). \<open>toolchain.Env\<close>, which every tool runs under, is
  here too. Splitting the flag is the work of the go command, a parameter.
\<close>

section \<open>The flag\<close>

definition bad_char :: "char \<Rightarrow> bool" where
  "bad_char c \<longleftrightarrow> c \<in> {CHR '' '', CHR 0x09, CHR 0x0A, CHR 0x27, CHR 0x22}"

definition hook_words :: "string \<Rightarrow> string \<Rightarrow> string list \<Rightarrow> string list" where
  "hook_words exe pkg objs = [exe, ''toolexec'', ''-pkg'', pkg] @ objs"

definition ToolexecFlag :: "string \<Rightarrow> string \<Rightarrow> string list \<Rightarrow> string + string" where
  "ToolexecFlag exe pkg objs = (case find (list_ex bad_char) (hook_words exe pkg objs) of
     Some w \<Rightarrow> Inl (''path '' @ go_quote w @ '' has a space or quote; go build -toolexec cannot pass it'')
   | None \<Rightarrow> Inr (join '' '' (hook_words exe pkg objs @ [''--''])))"

section \<open>The hook\<close>

fun argAfter :: "string list \<Rightarrow> string \<Rightarrow> string" where
  "argAfter (a # b # rest) flag = (if a = flag then b else argAfter (b # rest) flag)"
| "argAfter _ flag = []"

definition hasArg :: "string list \<Rightarrow> string \<Rightarrow> bool" where
  "hasArg args a \<longleftrightarrow> a \<in> set args"

text \<open>The objects before \<open>--\<close>, and what follows it.\<close>

function hook_loop :: "string \<Rightarrow> string list \<Rightarrow> string list \<Rightarrow> string \<times> string list \<times> string list" where
  "hook_loop pkg objs [] = (pkg, objs, [])"
| "hook_loop pkg objs (a # rest) = (if a = ''--'' then (pkg, objs, rest)
     else if a = ''-pkg'' \<and> rest \<noteq> [] then hook_loop (hd rest) objs (tl rest)
     else hook_loop pkg (objs @ [a]) rest)"
  by pat_completeness auto
termination by (relation "measure (\<lambda>(_, _, args). length args)") auto

datatype hook = HookUsage | HookExec string "string list" | HookRun string "string list" | HookSymabis string "string list" string "string list" | HookPack string "string list" string "string list"

definition cmdToolexec :: "string list \<Rightarrow> hook" where
  "cmdToolexec args = (case hook_loop ''main'' [] args of
     (pkg, objs, []) \<Rightarrow> HookUsage
   | (pkg, objs, tl' # targs) \<Rightarrow>
       (let base = (case cut_suffix ''.exe'' (base_name tl') of Some b \<Rightarrow> b | None \<Rightarrow> base_name tl') in
        if (base \<noteq> ''asm'' \<and> base \<noteq> ''compile'') \<or> argAfter targs ''-p'' \<noteq> pkg then HookExec tl' targs
        else if base = ''asm'' \<and> hasArg targs ''-gensymabis'' then HookSymabis tl' targs (argAfter targs ''-o'') objs
        else if base = ''compile'' then HookPack tl' targs (argAfter targs ''-o'') objs
        else HookRun tl' targs))"

text \<open>The files that \<open>appendSymabis\<close> reads, and the archive members that \<open>packObjects\<close> adds.\<close>

definition symabis_files :: "string list \<Rightarrow> string list" where
  "symabis_files objs = map (\<lambda>o'. Side o' @ ''.symabis'') objs"

definition member_name :: "string \<Rightarrow> string" where
  "member_name obj = (case cut_suffix ''.goobj'' (base_name obj) of Some b \<Rightarrow> b @ ''.o'' | None \<Rightarrow> base_name obj)"

section \<open>The environment of the tools\<close>

fun split_colon :: "string \<Rightarrow> string \<Rightarrow> string list" where
  "split_colon cur [] = [rev cur]"
| "split_colon cur (c # s) = (if c = CHR '':'' then rev cur # split_colon [] s else split_colon (c # cur) s)"

definition ld_prefix :: string where
  "ld_prefix = ''LD_LIBRARY_PATH=''"

definition tools_Env :: "bool \<Rightarrow> string \<Rightarrow> string list \<Rightarrow> string list" where
  "tools_Env isDir libDir env = (if \<not> isDir then env
     else (let out = filter (\<lambda>kv. \<not> starts ld_prefix kv) env;
               cur = (case rev (filter (starts ld_prefix) env) of [] \<Rightarrow> [] | kv # _ \<Rightarrow> drop (length ld_prefix) kv) in
       if libDir \<in> set (split_colon [] cur) then out @ [ld_prefix @ cur]
       else if cur = [] then out @ [ld_prefix @ libDir]
       else out @ [ld_prefix @ libDir @ '':'' @ cur]))"

section \<open>Properties\<close>

lemma hook_loop_objs: "''--'' \<notin> set os \<Longrightarrow> ''-pkg'' \<notin> set os \<Longrightarrow> hook_loop pkg objs (os @ ''--'' # rest) = (pkg, objs @ os, rest)"
  by (induction os arbitrary: objs) auto

text \<open>C35: The hook gets what \<open>goc go\<close> meant: when \<open>ToolexecFlag\<close> accepts the program, the package and the
  objects, and the go command splits the flag at its spaces and adds a tool with its arguments, the hook
  runs \<open>compile\<close> for that package and packs exactly those objects into its archive, and after \<open>asm\<close> it adds
  the symbol tables of the same objects. The paths may not be empty, look like the hook's own switches, or
  hold a white space that \<open>ToolexecFlag\<close> does not look for.\<close>
theorem toolexec_objects:
  assumes "ToolexecFlag exe pkg objs = Inr flag" "''--'' \<notin> set objs" "''-pkg'' \<notin> set objs" "\<forall>x\<in>set (hook_words exe pkg objs). x \<noteq> [] \<and> \<not> list_ex space_char x"
    and "\<And>ws. \<forall>x\<in>set ws. x \<noteq> [] \<and> \<not> list_ex space_char x \<and> \<not> list_ex bad_char x \<Longrightarrow> split (join '' '' ws) = ws"
    and "argAfter targs ''-p'' = pkg"
  shows "split flag = [exe, ''toolexec''] @ drop 2 (split flag) \<and>
    (base_name tl' = ''compile'' \<longrightarrow> cmdToolexec (drop 2 (split flag) @ tl' # targs) = HookPack tl' targs (argAfter targs ''-o'') objs) \<and>
    (base_name tl' = ''asm'' \<and> hasArg targs ''-gensymabis'' \<longrightarrow> cmdToolexec (drop 2 (split flag) @ tl' # targs) = HookSymabis tl' targs (argAfter targs ''-o'') objs)"
proof -
  have f: "flag = join '' '' (hook_words exe pkg objs @ [''--''])" "\<forall>x\<in>set (hook_words exe pkg objs). \<not> list_ex bad_char x"
    using assms(1) by (auto simp: ToolexecFlag_def find_None_iff split: option.splits)
  have "\<not> list_ex bad_char ''--''" "\<not> list_ex space_char ''--''" by (simp_all add: bad_char_def space_char_def)
  then have s: "split flag = hook_words exe pkg objs @ [''--'']" unfolding f(1) using assms(5) [of "hook_words exe pkg objs @ [''--'']"] f(2) assms(4) by auto
  have "hook_loop ''main'' [] (drop 2 (split flag) @ tl' # targs) = (pkg, objs, tl' # targs)" using hook_loop_objs [OF assms(2,3), of pkg "[]" "tl' # targs"] by (simp add: s hook_words_def)
  then show ?thesis using assms(6) by (simp add: cmdToolexec_def cut_suffix_def) (simp add: s hook_words_def)
qed

lemma Fields_splits: "\<forall>x\<in>set ws. x \<noteq> [] \<and> \<not> list_ex space_char x \<and> \<not> list_ex bad_char x \<Longrightarrow> Fields (join '' '' ws) = ws"
  by (rule Fields_join) (auto simp: words_ok_def list_ex_iff)

theorem toolexec_objects_witness:
  "\<exists>flag. ToolexecFlag ''/g/bin/goc'' ''main'' [''/t/a.goobj''] = Inr flag \<and>
     cmdToolexec (drop 2 (Fields flag) @ [''/go/compile'', ''-o'', ''/t/p.a'', ''-p'', ''main'']) = HookPack ''/go/compile'' [''-o'', ''/t/p.a'', ''-p'', ''main''] ''/t/p.a'' [''/t/a.goobj'']"
proof -
  have t: "\<not> isl (ToolexecFlag ''/g/bin/goc'' ''main'' [''/t/a.goobj''])" "\<forall>x\<in>set (hook_words ''/g/bin/goc'' ''main'' [''/t/a.goobj'']). x \<noteq> [] \<and> \<not> list_ex space_char x"
    "base_name ''/go/compile'' = ''compile''" by code_simp+
  obtain flag where f: "ToolexecFlag ''/g/bin/goc'' ''main'' [''/t/a.goobj''] = Inr flag" using t(1) by (cases "ToolexecFlag ''/g/bin/goc'' ''main'' [''/t/a.goobj'']") auto
  show ?thesis using toolexec_objects [OF f _ _ t(2) Fields_splits, of "[''-o'', ''/t/p.a'', ''-p'', ''main'']" "''/go/compile''"] t(3) f by auto
qed

end
