(* ===== verification/Goc_Go.thy ===== *)
theory Goc_Go
  imports Pipeline_Order Toolexec "HOL-Library.List_Lexorder" "HOL-Library.Char_ord"
begin

text \<open>
  \<open>goc go\<close>: finding the tools (\<open>internal/toolchain\<close>), compiling every C file of a package and starting the go command
  with the hook (\<open>goBuild\<close> of \<open>cmd/goc/gocmd.go\<close>), and what the hook does when the go command calls it
  (\<open>appendSymabis\<close>, \<open>packObjects\<close>). Programs over the events of \<open>Pipeline\<close>; \<open>env\<close> is the environment of the process.
\<close>

unbundle bit_operations_syntax

section \<open>Paths\<close>

text \<open>\<open>filepath.Join\<close> and \<open>filepath.Dir\<close>.\<close>

definition Join_path :: "string list \<Rightarrow> string" where
  "Join_path es = (case dropWhile (\<lambda>e. e = []) es of [] \<Rightarrow> [] | es' \<Rightarrow> Clean (join ''/'' es'))"

definition Dir :: "string \<Rightarrow> string" where
  "Dir p = Clean (rev (dropWhile (\<lambda>c. c \<noteq> CHR ''/'') (rev p)))"

section \<open>The tools of a tree\<close>

definition exec_bits :: u32 where "exec_bits = 0x49"

definition isExec :: "world \<Rightarrow> string \<Rightarrow> bool io" where
  "isExec w p = io_bind (attempt w (Stat p)) (\<lambda>r. io_return (case r of Some (Info d _ m) \<Rightarrow> \<not> d \<and> m AND exec_bits \<noteq> 0 | _ \<Rightarrow> False))"

definition IsRelease :: "world \<Rightarrow> string \<Rightarrow> bool io" where
  "IsRelease w root = io_bind (attempt w (Stat (Join_path [root, ''passes'', ''goc-llc'']))) (\<lambda>r. io_return (r \<noteq> None))"

definition Root :: "world \<Rightarrow> string io" where
  "Root w = io_bind (perform w Executable) (\<lambda>e. io_bind (perform w (EvalSymlinks (text_of e))) (\<lambda>p. io_return (Dir (Dir (text_of p)))))"

definition clang_paths :: "string \<Rightarrow> string list" where
  "clang_paths root = [Join_path [root, ''bin'', ''clang''], Join_path [root, ''third_party'', ''llvm-19.1.7-clang-build'', ''bin'', ''clang'']]"

fun first_exec :: "world \<Rightarrow> string list \<Rightarrow> string io" where
  "first_exec w [] = io_return []"
| "first_exec w (c # cs) = io_bind (isExec w c) (\<lambda>b. if b then io_return c else first_exec w cs)"

definition no_clang_msg :: string where
  "no_clang_msg = ''no patched clang next to goc.'' @ [CHR 0x0A] @ ''Download a release: https://github.com/LoyieKing/goc/releases'' @ [CHR 0x0A] @ ''Or build the package: docs/build-from-source.md''"

definition Locate :: "world \<Rightarrow> string \<Rightarrow> Tools io" where
  "Locate w root = io_bind (first_exec w (clang_paths root)) (\<lambda>clang. if clang = [] then io_fail no_clang_msg
     else io_bind (perform w (EvalSymlinks clang)) (\<lambda>real. let bin = Dir (text_of real) in
       io_bind (IsRelease w root) (\<lambda>rel. let sub = (if rel then [root, ''passes''] else [root, ''build'', ''llvm'']) in
       io_return \<lparr>t_Root = root, t_Include = Join_path [root, ''include''], t_Clang = clang, t_LibDir = Join_path [Dir bin, ''lib''], t_Opt = Join_path [bin, ''opt''],
         t_MC = Join_path [bin, ''llvm-mc''], t_LLC = Join_path (sub @ [''goc-llc'']), t_Passes = Join_path (sub @ [''libGocPasses.so''])\<rparr>)))"

definition required :: "Tools \<Rightarrow> (string \<times> string \<times> string) list" where
  "required t = [(t_Opt t, ''opt'', ''See docs/build-from-source.md.''), (t_MC t, ''llvm-mc'', ''See docs/build-from-source.md.''), (t_LLC t, ''goc-llc'', ''Run scripts/build-passes.sh.'')]"

fun require_all :: "world \<Rightarrow> (string \<times> string \<times> string) list \<Rightarrow> unit io" where
  "require_all w [] = io_return ()"
| "require_all w ((p, what, fix) # cs) = io_bind (isExec w p) (\<lambda>b. if b then require_all w cs else io_fail (what @ '' missing ('' @ p @ ''). '' @ fix))"

text \<open>\<open>Env\<close> looks whether the library directory is there.\<close>

definition Env :: "world \<Rightarrow> Tools \<Rightarrow> string list \<Rightarrow> string list io" where
  "Env w t env = io_bind (attempt w (Stat (t_LibDir t))) (\<lambda>r. io_return (tools_Env (case r of Some (Info d _ _) \<Rightarrow> d | _ \<Rightarrow> False) (t_LibDir t) env))"

fun split_lines :: "string \<Rightarrow> string \<Rightarrow> string list" where
  "split_lines cur [] = [rev cur]"
| "split_lines cur (c # s) = (if c = CHR 0x0A then rev cur # split_lines [] s else split_lines (c # cur) s)"

definition missing_libs :: "string \<Rightarrow> string list" where
  "missing_libs out = sort (map (\<lambda>l. hd (Fields l)) (filter (sublist_at ''not found'') (split_lines [] out)))"

definition Require :: "world \<Rightarrow> string list \<Rightarrow> string \<Rightarrow> Tools io" where
  "Require w env root = io_bind (Locate w root) (\<lambda>t. io_then (require_all w (required t))
     (io_then (fail_as (\<lambda>_. ''libGocPasses.so missing ('' @ t_Passes t @ ''). Run scripts/build-passes.sh.'') (step w (Stat (t_Passes t))))
     (io_bind (Env w t env) (\<lambda>e. io_bind (attempt w (OutputIn [] e ''ldd'' [t_LLC t])) (\<lambda>r.
       let ls = (case r of Some out \<Rightarrow> missing_libs (text_of out) | None \<Rightarrow> []) in
       if ls \<noteq> [] then io_fail (''LLVM libraries not loaded ('' @ join '' '' ls @ ''). The clang lib dir is on LD_LIBRARY_PATH; libLLVM does not match these passes.'')
       else io_return t)))))"

definition tools :: "world \<Rightarrow> string list \<Rightarrow> Tools io" where
  "tools w env = io_bind (Root w) (Require w env)"

section \<open>goBuild\<close>

definition trim_space :: "string \<Rightarrow> string" where
  "trim_space s = rev (dropWhile space_char (rev (dropWhile space_char s)))"

definition go_env :: "string list \<Rightarrow> string \<Rightarrow> string list" where
  "go_env env arch = env @ [''CGO_ENABLED=0'', ''GOFLAGS='', ''GOTOOLCHAIN=local'', ''GOPROXY=off'', ''GOSUMDB=off'', ''GOOS=linux'', ''GOARCH='' @ arch]"

definition go_list :: "world \<Rightarrow> string list \<Rightarrow> string \<Rightarrow> string \<Rightarrow> string io" where
  "go_list w env dir f = fail_as (\<lambda>e. ''go list: '' @ e) (io_bind (perform w (OutputIn dir env ''go'' [''list'', ''-f'', f, ''.''])) (\<lambda>b. io_return (trim_space (text_of b))))"

text \<open>The package prefix of the C symbols, unless \<open>--pkg\<close> gave one.\<close>

definition with_pkg :: "settings \<Rightarrow> string \<Rightarrow> string \<Rightarrow> Options" where
  "with_pkg s name importPath = (if ''pkg'' \<in> se_seen s then se_o s else (se_o s)\<lparr>op_Pkg := (if name = ''main'' then ''main'' else importPath)\<rparr>)"

definition markerAsm :: string where
  "markerAsm = ''// Code generated by goc go. Do not edit.'' @ [CHR 0x0A] @ ''// Present so Go accepts bodyless declarations of the C functions.'' @ [CHR 0x0A] @
     ''// The function bodies are the packed goc goobj, not this TEXT.'' @ [CHR 0x0A] @ ''#include '' @ [CHR 0x22] @ ''textflag.h'' @ [CHR 0x22, CHR 0x0A, CHR 0x0A] @
     ''TEXT '' @ [CHR 0xC2, CHR 0xB7] @ ''gocMarker(SB), NOSPLIT|NOFRAME, $0-0'' @ [CHR 0x0A, CHR 0x09] @ ''RET'' @ [CHR 0x0A]"

definition marker_step :: "world \<Rightarrow> string list \<Rightarrow> string \<Rightarrow> string \<Rightarrow> unit io" where
  "marker_step w env dir arch = io_bind (go_list w env dir ''{{len .SFiles}}'') (\<lambda>nasm.
     if nasm = ''0'' then step w (WriteFile (Join_path [dir, ''goc_marker_'' @ arch @ ''.s'']) markerAsm) else io_return ())"

definition hex_text :: "byte list \<Rightarrow> string" where
  "hex_text bs = concat (map (\<lambda>b. [Table_Asm.hex_digit (unat b div 16), Table_Asm.hex_digit (unat b mod 16)]) bs)"

definition cache_dir :: "Tools \<Rightarrow> string \<Rightarrow> string \<Rightarrow> string" where
  "cache_dir t dir objdir = (if objdir = [] then Join_path [t_Root t, ''build'', ''goc-go'', take 16 (hex_text (sha256 (bytes_of dir)))] else objdir)"

definition obj_path :: "string \<Rightarrow> string \<Rightarrow> string" where
  "obj_path cache src = Join_path [cache, (case cut_suffix ''.c'' (base_name src) of Some b \<Rightarrow> b | None \<Rightarrow> base_name src) @ ''.goobj'']"

fun compile_all :: "world \<Rightarrow> Tools \<Rightarrow> Options \<Rightarrow> string \<Rightarrow> string list \<Rightarrow> string list io" where
  "compile_all w t o' cache [] = io_return []"
| "compile_all w t o' cache (src # srcs) = io_then (Build w t (o'\<lparr>op_Src := src, op_Out := obj_path cache src\<rparr>))
     (io_bind (compile_all w t o' cache srcs) (\<lambda>objs. io_return (obj_path cache src # objs)))"

text \<open>The binary of package main; another package has none.\<close>

definition out_path :: "world \<Rightarrow> string \<Rightarrow> string \<Rightarrow> string \<Rightarrow> string \<Rightarrow> string io" where
  "out_path w name importPath dir out = (if name = ''main''
     then io_bind (if out = [] then io_return (Join_path [dir, base_name dir]) else io_bind (perform w (Abs out)) (\<lambda>p. io_return (text_of p)))
       (\<lambda>p. io_then (step w (MkdirAll (Dir p))) (io_return p))
     else if out \<noteq> [] then io_fail (''-o is for package main; '' @ importPath @ '' is package '' @ name) else io_return [])"

definition hook_flag :: "world \<Rightarrow> string \<Rightarrow> string list \<Rightarrow> string io" where
  "hook_flag w pkg objs = io_bind (perform w Executable) (\<lambda>exe. case ToolexecFlag (text_of exe) pkg objs of Inl e \<Rightarrow> io_fail e | Inr f \<Rightarrow> io_return f)"

definition link_step :: "world \<Rightarrow> string list \<Rightarrow> string \<Rightarrow> string \<Rightarrow> string \<Rightarrow> unit io" where
  "link_step w env dir flag out = fail_as (\<lambda>e. ''go build: '' @ e)
     (step w (RunIn dir env ''go'' ([''build'', ''-a'', ''-toolexec'', flag] @ (if out \<noteq> [] then [''-o'', out] else []) @ [''.''])))"

definition sources :: "world \<Rightarrow> string \<Rightarrow> string list io" where
  "sources w dir = io_bind (attempt w (Glob (Join_path [dir, ''*.c'']))) (\<lambda>r. let srcs = (case r of Some (Paths fs) \<Rightarrow> fs | _ \<Rightarrow> []) in
     if srcs = [] then io_fail (''no .c files in '' @ dir) else io_return (sort srcs))"

definition is_dir :: "world \<Rightarrow> string \<Rightarrow> bool io" where
  "is_dir w p = io_bind (attempt w (Stat p)) (\<lambda>r. io_return (case r of Some (Info d _ _) \<Rightarrow> d | _ \<Rightarrow> False))"

text \<open>The objects, the output path, the hook, and the go command.\<close>

definition compile_link :: "world \<Rightarrow> string list \<Rightarrow> Tools \<Rightarrow> Options \<Rightarrow> string \<Rightarrow> string list \<Rightarrow> string \<Rightarrow> string \<Rightarrow> string \<Rightarrow> string \<Rightarrow> unit io" where
  "compile_link w genv t o' cache srcs name importPath dir out0 = io_bind (compile_all w t o' cache srcs) (\<lambda>objs.
     io_bind (out_path w name importPath dir out0) (\<lambda>out.
     io_bind (hook_flag w (op_Pkg o') objs) (\<lambda>flag. link_step w genv dir flag out)))"

definition goBuild :: "world \<Rightarrow> string list \<Rightarrow> settings \<Rightarrow> string \<Rightarrow> string \<Rightarrow> string \<Rightarrow> unit io" where
  "goBuild w env s dir0 out0 objdir = io_bind (is_dir w dir0) (\<lambda>d. if \<not> d then io_fail (''not a directory: '' @ dir0)
     else io_bind (perform w (Abs dir0)) (\<lambda>p. let dir = text_of p; arch = (if op_Arch (se_o s) = [] then ''amd64'' else op_Arch (se_o s)); genv = go_env env arch in
       io_bind (tools w env) (\<lambda>t. io_bind (go_list w genv dir ''{{.Name}}'') (\<lambda>name. io_bind (go_list w genv dir ''{{.ImportPath}}'') (\<lambda>importPath.
       let o' = with_pkg s name importPath in
       io_bind (sources w dir) (\<lambda>srcs. io_then (marker_step w genv dir arch)
       (let cache = cache_dir t dir objdir in
       io_then (step w (MkdirAll cache)) (compile_link w genv t o' cache srcs name importPath dir out0))))))))"

section \<open>The hook at work\<close>

fun append_files :: "world \<Rightarrow> string \<Rightarrow> string list \<Rightarrow> unit io" where
  "append_files w out [] = io_return ()"
| "append_files w out (sa # sas) = io_bind (attempt w (ReadFile sa)) (\<lambda>r. case r of None \<Rightarrow> append_files w out sas
     | Some b \<Rightarrow> io_then (step w (Append out (text_of b))) (append_files w out sas))"

definition appendSymabis :: "world \<Rightarrow> string \<Rightarrow> string list \<Rightarrow> unit io" where
  "appendSymabis w out objs = (if out = [] then io_return ()
     else io_bind (attempt w (Stat out)) (\<lambda>r. if r = None then io_return () else io_then (step w (OpenAppend out)) (append_files w out (symabis_files objs))))"

text \<open>The pack program beside the tool, or the go command's.\<close>

definition pack_command :: "world \<Rightarrow> string list \<Rightarrow> string \<Rightarrow> (string list \<times> string list) io" where
  "pack_command w env tl' = (let p = Join_path [Dir tl', ''pack''] in
     io_bind (attempt w (Stat p)) (\<lambda>r. io_return (if (case r of Some (Info _ _ m) \<Rightarrow> m AND exec_bits \<noteq> 0 | _ \<Rightarrow> False) then ([p], env)
       else ([''go'', ''tool'', ''pack''], env @ [''GOFLAGS='', ''GOTOOLCHAIN=local'']))))"

fun pack_files :: "world \<Rightarrow> string list \<Rightarrow> string list \<Rightarrow> string \<Rightarrow> string \<Rightarrow> string list \<Rightarrow> unit io" where
  "pack_files w env pack stage archive [] = io_return ()"
| "pack_files w env pack stage archive (obj # objs) = io_bind (attempt w (ReadFile obj)) (\<lambda>r. case r of None \<Rightarrow> pack_files w env pack stage archive objs
     | Some b \<Rightarrow> (let member = Join_path [stage, member_name obj] in
         io_then (step w (WriteFile member (text_of b)))
         (io_then (fail_as (\<lambda>e. ''pack '' @ archive @ '': '' @ e) (step w (RunIn [] env (hd pack) (tl pack @ [''r'', archive, member]))))
         (pack_files w env pack stage archive objs))))"

definition packObjects :: "world \<Rightarrow> string list \<Rightarrow> string \<Rightarrow> string \<Rightarrow> string list \<Rightarrow> unit io" where
  "packObjects w env tl' archive objs = (if objs = [] \<or> cut_suffix ''.a'' archive = None then io_return ()
     else io_bind (attempt w (Stat archive)) (\<lambda>r. if r = None then io_return ()
       else io_bind (pack_command w env tl') (\<lambda>(pack, penv). io_bind (perform w MkdirTemp) (\<lambda>d tr.
         let (res, tr') = pack_files w penv pack (text_of d) archive objs tr in (res, tr' @ [RemoveAll (text_of d)])))))"

text \<open>The exit status of the hook; \<^term>\<open>None\<close> when the process became the tool.\<close>

definition exit_code :: "unit io \<Rightarrow> nat option io" where
  "exit_code m tr = (case m tr of (Inl _, tr') \<Rightarrow> (Inr (Some 1), tr') | (Inr _, tr') \<Rightarrow> (Inr (Some 0), tr'))"

definition run_tool :: "world \<Rightarrow> string \<Rightarrow> string list \<Rightarrow> unit io \<Rightarrow> nat option io" where
  "run_tool w tl' targs k = io_bind (attempt w (Start tl' targs)) (\<lambda>r. case r of None \<Rightarrow> io_return (Some 1)
     | Some (Status n) \<Rightarrow> if n \<noteq> 0 then io_return (Some n) else exit_code k
     | Some _ \<Rightarrow> exit_code k)"

fun run_hook :: "world \<Rightarrow> string list \<Rightarrow> hook \<Rightarrow> nat option io" where
  "run_hook w env HookUsage = io_return (Some 2)"
| "run_hook w env (HookExec tl' targs) = io_bind (attempt w (Exec tl' targs)) (\<lambda>r. io_return (if r = None then Some 1 else None))"
| "run_hook w env (HookRun tl' targs) = run_tool w tl' targs (io_return ())"
| "run_hook w env (HookSymabis tl' targs out objs) = run_tool w tl' targs (appendSymabis w out objs)"
| "run_hook w env (HookPack tl' targs archive objs) = run_tool w tl' targs (packObjects w env tl' archive objs)"

end
