(* ===== verification/Goc_Go_Correct.thy ===== *)
theory Goc_Go_Correct
  imports Goc_Go
begin

text \<open>
  What a successful \<open>goc go\<close> did: it made one object for every C file of the package, and the go command was told
  to pack exactly these; and what the hook packs when it is called.
\<close>

section \<open>The objects of a run\<close>

text \<open>What is seen of a compile: the source that clang reads (its last argument; only clang is started with
  \<open>-mno-red-zone\<close> first), and the object and the package of a call of the converter.\<close>

datatype mark = Source string | Object string string

definition out_of :: "event \<Rightarrow> mark option" where
  "out_of e = (case e of ConvertMain (_ # _ # _ # out # _ # pkg # _) \<Rightarrow> Some (Object out pkg)
     | Run _ (a # as) \<Rightarrow> if a = ''-mno-red-zone'' then Some (Source (last as)) else None | _ \<Rightarrow> None)"

definition made :: "event list \<Rightarrow> mark list" where
  "made es = List.map_filter out_of es"

text \<open>The marks of the compile of one file.\<close>

definition file_marks :: "Options \<Rightarrow> mark list" where
  "file_marks o' = [Source (op_Src o'), Object (op_Out o') (op_Pkg o')]"

interpretation conv: event_view out_of
  by unfold_locales (simp_all add: out_of_def)

lemma out_of_None [simp]:
  "out_of (Output b args) = None" "out_of (Stat p) = None" "out_of (MkdirAll p) = None" "out_of MkdirTemp = None" "out_of (RemoveAll p) = None"
  "out_of (FixIR a b) = None" "out_of (RenameIR a b) = None" "out_of (WriteGoABI ps b) = None" "out_of (FirstFnName p) = None" "out_of (AlignASM p) = None"
  "out_of (ObjectHasMagic p) = None" "out_of (Profile p) = None" "out_of Executable = None" "out_of (EvalSymlinks p) = None" "out_of (Abs p) = None" "out_of (Glob p) = None"
  "out_of (RunIn d env b args) = None" "out_of (OutputIn d env b args) = None" "out_of (ReadFile p) = None" "out_of (WriteFile p b) = None"
  by (simp_all add: out_of_def)

lemma out_of_Run: "out_of (Run b (a # as)) = (if a = ''-mno-red-zone'' then Some (Source (last as)) else None)"
  by (simp add: out_of_def)

lemmas mute_rules = conv.mute_bind conv.mute_then conv.mute_event conv.mute_tool conv.mute_copy conv.mute_read yields_if yields_fail_as

lemma mute_opt: "conv.mute (opt w t p x i o')"
  unfolding opt_def by (intro mute_rules) (simp add: opt_args_def out_of_Run)

lemma mute_case_pair: "(\<And>a b. yields (f a b) Q) \<Longrightarrow> yields (case p of (a, b) \<Rightarrow> f a b) Q"
  by (cases p) simp

lemma mute_lower: "conv.mute (lower_steps w o' tmp inp)"
  unfolding lower_steps_def Let_def by (intro mute_rules) simp_all

lemma mute_stackmap: "conv.mute (stackmap_steps w t tmp prepared)"
  unfolding stackmap_steps_def by (intro mute_rules mute_opt) simp_all

lemma mute_assemble: "conv.mute (assemble_steps w t o' tmp)"
  unfolding assemble_steps_def by (intro mute_rules) (simp_all add: out_of_Run)

lemma mute_first_fn: "conv.mute (first_fn w tmp body)"
  unfolding first_fn_def Let_def by (intro mute_rules) simp_all

text \<open>A program that is mute first shows what the rest shows.\<close>

abbreviation makes :: "'a io \<Rightarrow> mark list \<Rightarrow> bool" where
  "makes m os \<equiv> yields m (\<lambda>_ es. List.map_filter out_of es = os)"

lemma makes_bind: "conv.mute m \<Longrightarrow> (\<And>x. makes (f x) os) \<Longrightarrow> makes (io_bind m f) os"
  by (rule yields_bind) (auto simp: conv.view_append intro: yields_mono)

lemma makes_then: "conv.mute m \<Longrightarrow> makes k os \<Longrightarrow> makes (io_then m k) os"
  unfolding io_then_def by (rule makes_bind)

lemma makes_both: "makes m ps \<Longrightarrow> (\<And>x. makes (f x) qs) \<Longrightarrow> makes (io_bind m f) (ps @ qs)"
  by (rule yields_bind) (auto simp: conv.view_append intro: yields_mono)

lemma clang_makes: "makes (clang_step w t o' tmp) [Source (op_Src o')]"
proof -
  have s: "conv.mute (has_sysinc w o')" unfolding has_sysinc_def by (intro mute_rules) simp_all
  have "makes (tool w b (clang_args t o' si out)) [Source (op_Src o')]" for b si out
    by (rule yields_tool) (simp add: conv.view_one clang_args_def out_of_Run)
  then show ?thesis unfolding clang_step_def by (intro makes_bind s yields_fail_as)
qed

lemma frontend_makes: "makes (frontend w t o' tmp) [Source (op_Src o')]"
proof -
  have "conv.mute (io_bind (color_step w t o' tmp) (\<lambda>body. io_then (inline_step w t o' tmp body)
      (if op_OptLevel o' = 0 then io_return (path tmp ''a.gate.ll'', False) else io_then (optimize_steps w t o' tmp) (io_return (path tmp ''a.reanchor.ll'', True)))))"
    unfolding color_step_def inline_step_def optimize_steps_def by (intro mute_rules mute_opt) (simp_all add: out_of_Run)
  then show ?thesis using conv.shows_then [OF clang_makes] unfolding frontend_def by fastforce
qed

lemma finish_makes: "makes (finish_steps w o' tmp magic ll) [Object (op_Out o') (op_Pkg o')]"
proof -
  have c: "makes (fail_as f (step w (ConvertMain (convert_args o' elf)))) [Object (op_Out o') (op_Pkg o')]" for f elf
    by (intro yields_fail_as yields_step) (simp add: conv.view_one out_of_def convert_args_def)
  have r: "conv.mute (io_then (if magic then step w (ObjectHasMagic (op_Out o')) else io_return ()) (io_then (copyFile w a b) (copyFile w ll d)))" for a b d
    by (intro mute_rules) simp
  show ?thesis using conv.shows_then [OF c r] unfolding finish_steps_def Let_def by simp
qed

lemma llc_unseen: "out_of (Run b (llc_args o' symABI profile tmp ll)) = None"
  by (simp add: llc_args_def llcArgs_def Let_def out_of_Run)

lemma backend_makes: "makes (backend w t o' tmp inp prepared) [Object (op_Out o') (op_Pkg o')]"
  unfolding backend_def
  by (intro makes_bind makes_then mute_case_pair mute_lower mute_stackmap mute_assemble conv.mute_event conv.mute_tool finish_makes llc_unseen) simp_all

lemma compile_makes: "makes (compile w t o' tmp) (file_marks o')"
proof -
  have "makes (compile w t o' tmp) ([Source (op_Src o')] @ [Object (op_Out o') (op_Pkg o')])"
    unfolding compile_def
    by (intro makes_both makes_bind mute_case_pair frontend_makes mute_first_fn yields_if yields_fail yields_fail_as backend_makes)
  then show ?thesis by (simp add: file_marks_def)
qed

lemma inner_makes: "makes (inner_run w t o') (file_marks o')"
  unfolding inner_run_def check_host_def by (intro makes_then makes_bind yields_if compile_makes mute_rules) simp_all

lemma Build_makes: "makes (Build w t o') (file_marks (final_options o'))"
  unfolding yields_def
proof (intro allI impI)
  fix tr x tr' assume "Build w t o' tr = (Inr x, tr')"
  then have "io_then (check_host w (final_options o')) (with_tmp w (final_options o') (compile w t (final_options o'))) tr = (Inr x, tr')" by (auto simp: Build_cases split: if_splits)
  then obtain tr1 where k: "inner_run w t (final_options o') tr = (Inr x, tr1)" "tr' = tr1 \<or> (\<exists>d. tr' = tr1 @ [RemoveAll d])" using with_tmp_inner by blast
  then obtain es where "tr1 = tr @ es" "List.map_filter out_of es = file_marks (final_options o')" using inner_makes [of w t "final_options o'"] unfolding yields_def by blast
  then show "\<exists>es. tr' = tr @ es \<and> List.map_filter out_of es = file_marks (final_options o')" using k(2) by (auto simp: conv.view_append conv.view_one)
qed

lemma Clean_not_Nil: "Clean p \<noteq> []"
  by (simp add: Clean_def Let_def)

lemma obj_path_not_Nil [simp]: "obj_path cache src \<noteq> []"
  unfolding obj_path_def Join_path_def using Clean_not_Nil by (auto split: list.split)

text \<open>The options of the compile of one file of a package, and the marks of all of them.\<close>

definition file_options :: "Options \<Rightarrow> string \<Rightarrow> string \<Rightarrow> Options" where
  "file_options o' cache src = o'\<lparr>op_Src := src, op_Out := obj_path cache src\<rparr>"

definition package_marks :: "string \<Rightarrow> string \<Rightarrow> string list \<Rightarrow> mark list" where
  "package_marks pkg cache srcs = concat (map (\<lambda>src. [Source src, Object (obj_path cache src) (if pkg = [] then ''main'' else pkg)]) srcs)"

lemma file_options_marks:
  "file_marks (final_options (file_options o' cache src)) = [Source src, Object (obj_path cache src) (if op_Pkg o' = [] then ''main'' else op_Pkg o')]"
  by (simp add: file_marks_def file_options_def final_options_def defaults_def Let_def)

lemma compile_all_makes: "yields (compile_all w t o' cache srcs) (\<lambda>objs es. objs = map (obj_path cache) srcs \<and> List.map_filter out_of es = package_marks (op_Pkg o') cache srcs)"
proof (induction srcs)
  case Nil
  show ?case by (simp add: yields_return conv.view_Nil package_marks_def)
next
  case (Cons src srcs)
  have b: "makes (Build w t (file_options o' cache src)) (package_marks (op_Pkg o') cache [src])"
    using Build_makes [of w t "file_options o' cache src"] by (simp add: file_options_marks package_marks_def)
  have r: "yields (io_bind (compile_all w t o' cache srcs) (\<lambda>objs. io_return (obj_path cache src # objs)))
      (\<lambda>objs es. objs = obj_path cache src # map (obj_path cache) srcs \<and> List.map_filter out_of es = package_marks (op_Pkg o') cache srcs)"
    by (rule yields_bind [OF Cons.IH]) (auto intro!: yields_return)
  show ?case unfolding compile_all.simps file_options_def [symmetric]
    by (rule yields_then [OF b], rule yields_mono [OF r]) (auto simp: conv.view_append package_marks_def)
qed

section \<open>The steps before and after\<close>

lemma mute_exec: "conv.mute (isExec w p)"
  unfolding isExec_def by (intro mute_rules) simp

lemma mute_first_exec: "conv.mute (first_exec w cs)"
  by (induction cs) (auto intro!: mute_rules mute_exec)

lemma mute_require_all: "conv.mute (require_all w cs)"
  by (induction cs) (auto intro!: mute_rules mute_exec)

lemma mute_tools: "conv.mute (tools w env)"
  unfolding tools_def Root_def Require_def Locate_def IsRelease_def Env_def Let_def
  by (intro mute_rules mute_first_exec mute_require_all) simp_all

lemma mute_go_list: "conv.mute (go_list w env dir f)"
  unfolding go_list_def by (intro mute_rules) simp

lemma mute_marker: "conv.mute (marker_step w env dir arch)"
  unfolding marker_step_def by (intro mute_rules mute_go_list) simp

lemma mute_out_path: "conv.mute (out_path w name importPath dir out)"
  unfolding out_path_def by (intro mute_rules) simp_all

lemma mute_sources: "conv.mute (sources w dir)"
  unfolding sources_def Let_def by (intro mute_rules) simp

lemma mute_is_dir: "conv.mute (is_dir w p)"
  unfolding is_dir_def by (intro mute_rules) simp

section \<open>A successful goc go\<close>

lemma io_bindE:
  assumes "io_bind m f tr = (Inr x, tr')"
  obtains y tr1 where "m tr = (Inr y, tr1)" "f y tr1 = (Inr x, tr')"
  using assms by (auto simp: io_bind_def split: prod.splits sum.splits)

lemma io_thenE:
  assumes "io_then m k tr = (Inr x, tr')"
  obtains tr1 where "m tr = (Inr (), tr1)" "k tr1 = (Inr x, tr')"
  using assms unfolding io_then_def by (rule io_bindE) auto

lemma io_ifE:
  assumes "(if b then io_fail e else m) tr = (Inr x, tr')"
  obtains "\<not> b" "m tr = (Inr x, tr')"
  using assms by (auto simp: io_fail_def split: if_splits)

text \<open>Nothing was made between two points of a run.\<close>

definition unmade :: "event list \<Rightarrow> event list \<Rightarrow> bool" where
  "unmade tr tr' \<longleftrightarrow> (\<exists>es. tr' = tr @ es \<and> made es = [])"

lemma mute_unmade: "conv.mute m \<Longrightarrow> m tr = (Inr x, tr') \<Longrightarrow> unmade tr tr'"
  unfolding yields_def unmade_def made_def by blast

lemma made_append: "made (a @ b) = made a @ made b"
  by (simp add: made_def conv.view_append)

lemma unmade_trans [trans]: "unmade a b \<Longrightarrow> unmade b c \<Longrightarrow> unmade a c"
  unfolding unmade_def using made_append by fastforce

lemma unmade_made: "unmade a b \<Longrightarrow> made b = made a"
  unfolding unmade_def using made_append by fastforce

text \<open>The question for the C files of a directory, and its answer, in a run.\<close>

definition listed_at :: "world \<Rightarrow> string \<Rightarrow> string list \<Rightarrow> event list \<Rightarrow> bool" where
  "listed_at w dir fs tr \<longleftrightarrow> (\<exists>pre post. tr = pre @ Glob (Join_path [dir, ''*.c'']) # post \<and> w pre (Glob (Join_path [dir, ''*.c''])) = Inr (Paths fs))"

lemma listed_unmade: "listed_at w dir fs tr \<Longrightarrow> unmade tr tr' \<Longrightarrow> listed_at w dir fs tr'"
  unfolding listed_at_def unmade_def by fastforce

lemma listed_append: "listed_at w dir fs tr \<Longrightarrow> listed_at w dir fs (tr @ es)"
  unfolding listed_at_def by fastforce

lemma sources_listed:
  assumes "sources w dir tr = (Inr srcs, tr')"
  obtains fs where "srcs = sort fs" "fs \<noteq> []" "listed_at w dir fs tr'"
proof -
  let ?g = "Glob (Join_path [dir, ''*.c''])"
  obtain fs where fs: "w tr ?g = Inr (Paths fs)" "fs \<noteq> []" "srcs = sort fs" "tr' = tr @ [?g]"
    using assms by (auto simp: sources_def Let_def attempt_def io_bind_def io_fail_def io_return_def split: if_splits sum.splits outcome.splits)
  then show ?thesis using that unfolding listed_at_def by blast
qed

lemma hook_flag_Inr: "hook_flag w pkg objs tr = (Inr flag, tr') \<Longrightarrow> (\<exists>exe. ToolexecFlag exe pkg objs = Inr flag) \<and> unmade tr tr'"
  by (auto simp: hook_flag_def io_bind_def perform_def io_fail_def io_return_def unmade_def made_def conv.view_one split: sum.splits)

lemma link_step_Inr: "link_step w env dir flag out tr = (Inr x, tr') \<Longrightarrow> \<exists>rest. tr' = tr @ [RunIn dir env ''go'' ([''build'', ''-a'', ''-toolexec'', flag] @ rest)]"
  by (auto simp: link_step_def fail_as_def step_def io_bind_def perform_def io_return_def split: prod.splits sum.splits)

lemma goBuild_end:
  assumes "compile_link w genv t o' cache srcs name importPath dir out0 tr = (Inr x, tr')"
  obtains es exe flag rest where "tr' = tr @ es @ [RunIn dir genv ''go'' ([''build'', ''-a'', ''-toolexec'', flag] @ rest)]" "made es = package_marks (op_Pkg o') cache srcs"
    "ToolexecFlag exe (op_Pkg o') (map (obj_path cache) srcs) = Inr flag"
proof -
  obtain objs tr1 out tr2 flag tr3 where r: "compile_all w t o' cache srcs tr = (Inr objs, tr1)" "out_path w name importPath dir out0 tr1 = (Inr out, tr2)"
    "hook_flag w (op_Pkg o') objs tr2 = (Inr flag, tr3)" "link_step w genv dir flag out tr3 = (Inr x, tr')"
    using assms unfolding compile_link_def by (elim io_bindE) blast
  obtain es where es: "tr1 = tr @ es" "objs = map (obj_path cache) srcs" "made es = package_marks (op_Pkg o') cache srcs" using r(1) compile_all_makes [of w t o' cache srcs] unfolding yields_def made_def by blast
  have "unmade tr1 tr3" using mute_unmade [OF mute_out_path r(2)] hook_flag_Inr [OF r(3)] unmade_trans by blast
  then obtain es' where es': "tr3 = tr1 @ es'" "made es' = []" by (auto simp: unmade_def)
  obtain exe where "ToolexecFlag exe (op_Pkg o') objs = Inr flag" using hook_flag_Inr [OF r(3)] by blast
  moreover obtain rest where "tr' = tr3 @ [RunIn dir genv ''go'' ([''build'', ''-a'', ''-toolexec'', flag] @ rest)]" using link_step_Inr [OF r(4)] by blast
  ultimately show ?thesis using that [of "es @ es'" flag rest exe] es es' by (simp add: made_append)
qed

text \<open>C33: A \<open>goc go\<close> that succeeds has compiled every C file that the directory was found to have, in sorted order:
  clang read the file and the converter then wrote the object at its path below the cache, under the package prefix, and
  nothing else was compiled or converted. Its last step is \<open>go build\<close> in that directory, with a hook flag for the same
  package and exactly these objects. So nothing is linked before everything is compiled.\<close>
theorem goBuild_objects:
  assumes "goBuild w env s dir0 out0 objdir [] = (Inr (), tr)"
  shows "\<exists>pre dir genv exe pkg flag rest cache fs. tr = pre @ [RunIn dir genv ''go'' ([''build'', ''-a'', ''-toolexec'', flag] @ rest)] \<and>
    listed_at w dir fs pre \<and> fs \<noteq> [] \<and> made pre = package_marks pkg cache (sort fs) \<and> ToolexecFlag exe pkg (map (obj_path cache) (sort fs)) = Inr flag"
proof -
  let ?arch = "if op_Arch (se_o s) = [] then ''amd64'' else op_Arch (se_o s)"
  obtain d tr1 p tr2 t tr3 name tr4 importPath tr5 srcs tr6 tr7 tr8 where r:
    "is_dir w dir0 [] = (Inr d, tr1)" "perform w (Abs dir0) tr1 = (Inr p, tr2)" "tools w env tr2 = (Inr t, tr3)"
    "go_list w (go_env env ?arch) (text_of p) ''{{.Name}}'' tr3 = (Inr name, tr4)" "go_list w (go_env env ?arch) (text_of p) ''{{.ImportPath}}'' tr4 = (Inr importPath, tr5)"
    "sources w (text_of p) tr5 = (Inr srcs, tr6)" "marker_step w (go_env env ?arch) (text_of p) ?arch tr6 = (Inr (), tr7)" "step w (MkdirAll (cache_dir t (text_of p) objdir)) tr7 = (Inr (), tr8)"
    "compile_link w (go_env env ?arch) t (with_pkg s name importPath) (cache_dir t (text_of p) objdir) srcs name importPath (text_of p) out0 tr8 = (Inr (), tr)"
    using assms unfolding goBuild_def Let_def by (elim io_bindE io_thenE io_ifE) blast
  have "unmade [] tr5"
    using mute_unmade [OF mute_is_dir r(1)] mute_unmade [OF conv.mute_event(1) r(2)] mute_unmade [OF mute_tools r(3)] mute_unmade [OF mute_go_list r(4)] mute_unmade [OF mute_go_list r(5)] by simp (meson unmade_trans)
  then have c5: "made tr5 = []" using unmade_made [of "[]" tr5] by (simp add: made_def conv.view_Nil)
  obtain fs where fs: "srcs = sort fs" "fs \<noteq> []" "listed_at w (text_of p) fs tr6" using sources_listed [OF r(6)] .
  have e: "unmade tr6 tr8" using mute_unmade [OF mute_marker r(7)] mute_unmade [OF conv.mute_event(3) r(8)] by (auto intro: unmade_trans)
  have c8: "made tr8 = []" using unmade_made [OF mute_unmade [OF mute_sources r(6)]] unmade_made [OF e] c5 by simp
  obtain es exe flag rest where g: "tr = tr8 @ es @ [RunIn (text_of p) (go_env env ?arch) ''go'' ([''build'', ''-a'', ''-toolexec'', flag] @ rest)]"
    "made es = package_marks (op_Pkg (with_pkg s name importPath)) (cache_dir t (text_of p) objdir) srcs" "ToolexecFlag exe (op_Pkg (with_pkg s name importPath)) (map (obj_path (cache_dir t (text_of p) objdir)) srcs) = Inr flag"
    using goBuild_end [OF r(9)] .
  have "listed_at w (text_of p) fs (tr8 @ es)" using fs(3) e listed_unmade listed_append by blast
  moreover have "made (tr8 @ es) = package_marks (op_Pkg (with_pkg s name importPath)) (cache_dir t (text_of p) objdir) (sort fs)" using c8 g(2) fs(1) by (simp add: made_append)
  ultimately show ?thesis using g(1,3) fs(1,2) by (intro exI [of _ "tr8 @ es"]) fastforce
qed

text \<open>A package with two C files, and tools that do their work.\<close>

definition go_world :: world where
  "go_world tr e = (case e of Stat p \<Rightarrow> Inr (Info (p = ''.'') 1 (if p = ''.'' then 0 else 0x1ED)) | Abs p \<Rightarrow> Inr (Text ''/p'') | Executable \<Rightarrow> Inr (Text ''/g/bin/goc'')
     | EvalSymlinks p \<Rightarrow> Inr (Text p) | Glob p \<Rightarrow> Inr (Paths [''/p/b.c'', ''/p/a.c'']) | MkdirTemp \<Rightarrow> Inr (Text ''/t'') | FirstFnName p \<Rightarrow> Inr (Text ''f'')
     | Output b args \<Rightarrow> Inr (Text ''inline'') | OutputIn d env b args \<Rightarrow> Inr (Text (if b = ''go'' then ''main'' else [])) | _ \<Rightarrow> Inr Done)"

lemma go_world_runs: "fst (goBuild go_world [] newSettings ''.'' [] ''/o'' []) = Inr ()"
  "made (snd (goBuild go_world [] newSettings ''.'' [] ''/o'' [])) = [Source ''/p/a.c'', Object ''/o/a.goobj'' ''main'', Source ''/p/b.c'', Object ''/o/b.goobj'' ''main'']"
  by code_simp+

theorem goBuild_objects_witness:
  "\<exists>tr pre dir genv exe pkg flag rest cache fs. goBuild go_world [] newSettings ''.'' [] ''/o'' [] = (Inr (), tr) \<and>
    made tr = [Source ''/p/a.c'', Object ''/o/a.goobj'' ''main'', Source ''/p/b.c'', Object ''/o/b.goobj'' ''main''] \<and>
    tr = pre @ [RunIn dir genv ''go'' ([''build'', ''-a'', ''-toolexec'', flag] @ rest)] \<and> listed_at go_world dir fs pre \<and> fs \<noteq> [] \<and>
    made pre = package_marks pkg cache (sort fs) \<and> ToolexecFlag exe pkg (map (obj_path cache) (sort fs)) = Inr flag"
proof -
  obtain tr where tr: "goBuild go_world [] newSettings ''.'' [] ''/o'' [] = (Inr (), tr)" using go_world_runs(1) by (metis prod.collapse)
  then have "made tr = [Source ''/p/a.c'', Object ''/o/a.goobj'' ''main'', Source ''/p/b.c'', Object ''/o/b.goobj'' ''main'']" using go_world_runs(2) by simp
  then show ?thesis using goBuild_objects [OF tr] tr by metis
qed

section \<open>What the hook packs\<close>

text \<open>The archive and the member file of a call of \<open>pack r\<close>, and what a list of events packs: the archive, the member
  file, and what was last written to that file before.\<close>

definition pack_of :: "event \<Rightarrow> (string \<times> string) option" where
  "pack_of e = (case e of RunIn [] _ _ args \<Rightarrow> (case rev args of m # a # r # _ \<Rightarrow> if r = ''r'' then Some (a, m) else None | _ \<Rightarrow> None) | _ \<Rightarrow> None)"

fun packed :: "(string \<rightharpoonup> string) \<Rightarrow> event list \<Rightarrow> (string \<times> string \<times> string option) list" where
  "packed files [] = []"
| "packed files (e # es) = (case e of WriteFile p b \<Rightarrow> packed (files(p \<mapsto> b)) es
     | _ \<Rightarrow> (case pack_of e of None \<Rightarrow> packed files es | Some (a, m) \<Rightarrow> (a, m, files m) # packed files es))"

lemma packed_append_skip: "\<forall>e\<in>set es'. pack_of e = None \<and> (\<forall>p b. e \<noteq> WriteFile p b) \<Longrightarrow> packed files (es @ es') = packed files es"
proof (induction es arbitrary: files)
  case Nil
  then show ?case by (induction es') (auto split: event.splits)
qed (auto split: event.splits option.splits)

text \<open>The text of a file that can be read, while a program runs that does not change it.\<close>

definition reads :: "world \<Rightarrow> string \<Rightarrow> string option \<Rightarrow> bool" where
  "reads w p c \<longleftrightarrow> (\<forall>pre. (case w pre (ReadFile p) of Inl _ \<Rightarrow> None | Inr x \<Rightarrow> Some (text_of x)) = c)"

definition members :: "string \<Rightarrow> string \<Rightarrow> (string \<Rightarrow> string option) \<Rightarrow> string list \<Rightarrow> (string \<times> string \<times> string option) list" where
  "members archive stage content objs = map (\<lambda>obj. (archive, Join_path [stage, member_name obj], content obj)) (filter (\<lambda>obj. content obj \<noteq> None) objs)"

lemma pack_files_packs:
  assumes "pack_files w env pack stage archive objs tr = (Inr (), tr')" "\<forall>obj\<in>set objs. reads w obj (content obj)"
  shows "\<exists>es. tr' = tr @ es \<and> (\<forall>files. packed files es = members archive stage content objs)"
  using assms
proof (induction objs arbitrary: tr)
  case Nil
  then show ?case by (simp add: io_return_def members_def)
next
  case (Cons obj objs)
  let ?m = "Join_path [stage, member_name obj]"
  have c: "(case w tr (ReadFile obj) of Inl _ \<Rightarrow> None | Inr x \<Rightarrow> Some (text_of x)) = content obj" using Cons.prems(2) by (simp add: reads_def)
  have rest: "\<exists>es. tr' = t1 @ es \<and> (\<forall>files. packed files es = members archive stage content objs)"
    if "pack_files w env pack stage archive objs t1 = (Inr (), tr')" for t1 using Cons.IH [OF that] Cons.prems(2) by simp
  show ?case
  proof (cases "w tr (ReadFile obj)")
    case (Inl e)
    then have n: "content obj = None" "pack_files w env pack stage archive objs (tr @ [ReadFile obj]) = (Inr (), tr')"
      using c Cons.prems(1) by (simp_all add: io_bind_def attempt_def)
    from rest [OF n(2)] obtain es where "tr' = tr @ ReadFile obj # es" "\<And>files. packed files es = members archive stage content objs" by auto
    then show ?thesis using n(1) by (intro exI [of _ "ReadFile obj # es"]) (simp add: members_def pack_of_def)
  next
    case (Inr x)
    let ?e = "[ReadFile obj, WriteFile ?m (text_of x), RunIn [] env (hd pack) (tl pack @ [''r'', archive, ?m])]"
    have n: "content obj = Some (text_of x)" "pack_files w env pack stage archive objs (tr @ ?e) = (Inr (), tr')"
      using c Cons.prems(1) Inr
      by (auto simp: io_bind_def io_then_def attempt_def step_def perform_def fail_as_def io_return_def Let_def split: sum.splits)
    from rest [OF n(2)] obtain es where "tr' = tr @ ?e @ es" "\<And>files. packed files es = members archive stage content objs" by auto
    then show ?thesis using n(1) by (intro exI [of _ "?e @ es"]) (simp add: members_def pack_of_def)
  qed
qed

lemma exit_code_0: "exit_code m tr = (Inr (Some 0), tr') \<Longrightarrow> m tr = (Inr (), tr')"
  by (auto simp: exit_code_def split: prod.splits sum.splits)

lemma run_tool_0: "run_tool w tl' targs k tr = (Inr (Some 0), tr') \<Longrightarrow> k (tr @ [Start tl' targs]) = (Inr (), tr')"
  by (auto simp: run_tool_def attempt_def io_bind_def io_return_def split: sum.splits outcome.splits if_splits option.splits intro: exit_code_0)

lemma packObjects_packs:
  assumes "packObjects w env tl' archive objs tr = (Inr (), tr')" "\<forall>obj\<in>set objs. reads w obj (content obj)" "\<forall>pre. isl (w pre (Stat archive)) = (\<not> exists)"
  shows "\<exists>stage es. tr' = tr @ es \<and> packed Map.empty es = (if exists \<and> cut_suffix ''.a'' archive \<noteq> None then members archive stage content objs else [])"
proof (cases "objs = [] \<or> cut_suffix ''.a'' archive = None")
  case True
  then show ?thesis using assms(1) by (auto simp: packObjects_def io_return_def members_def)
next
  case False
  show ?thesis
  proof (cases "w tr (Stat archive)")
    case (Inl e)
    then have "\<not> exists" using assms(3) by (metis sum.disc(1))
    then show ?thesis using assms(1) False Inl by (auto simp: packObjects_def io_bind_def attempt_def io_return_def pack_of_def)
  next
    case (Inr x)
    then have ex: "exists" using assms(3) by (metis sum.disc(2))
    let ?p = "Stat (Join_path [Dir tl', ''pack''])"
    obtain pack penv d tr1 where r: "pack_files w penv pack (text_of d) archive objs (tr @ [Stat archive, ?p, MkdirTemp]) = (Inr (), tr1)" "tr' = tr1 @ [RemoveAll (text_of d)]"
      using assms(1) False Inr by (auto simp: packObjects_def pack_command_def Let_def io_bind_def io_return_def perform_def attempt_def split: prod.splits sum.splits if_splits)
    then obtain es where es: "tr1 = (tr @ [Stat archive, ?p, MkdirTemp]) @ es" "\<And>files. packed files es = members archive (text_of d) content objs"
      using pack_files_packs [OF r(1) assms(2)] by blast
    have "packed Map.empty (es @ [RemoveAll (text_of d)]) = members archive (text_of d) content objs"
      by (subst packed_append_skip) (simp_all add: pack_of_def es(2))
    then show ?thesis using r(2) es(1) ex False
      by (intro exI [of _ "text_of d"] exI [of _ "[Stat archive, ?p, MkdirTemp] @ es @ [RemoveAll (text_of d)]"]) (simp add: pack_of_def)
  qed
qed

text \<open>C34: What the hook packs. When the hook runs \<open>compile\<close> for the package and ends with status 0, in a world where the
  objects and the archive's existence do not change meanwhile, the compiler ran first. Then, if the archive exists and
  its name ends in \<open>.a\<close>, exactly the objects that can be read were packed into it, in the order of the flag, each under
  its member name from a file that was written before with the bytes of the object; otherwise nothing was packed.
  Objects that cannot be read are left out without an error.\<close>
theorem hook_packs:
  assumes "run_hook w env (HookPack tl' targs archive objs) [] = (Inr (Some 0), tr)"
    "\<forall>obj\<in>set objs. reads w obj (content obj)" "\<forall>pre. isl (w pre (Stat archive)) = (\<not> exists)"
  shows "\<exists>stage es. tr = Start tl' targs # es \<and>
    packed Map.empty es = (if exists \<and> cut_suffix ''.a'' archive \<noteq> None then members archive stage content objs else [])"
  using packObjects_packs [OF run_tool_0 assms(2,3)] assms(1) by fastforce

text \<open>A world with one of two objects.\<close>

definition hook_world :: world where
  "hook_world tr e = (case e of ReadFile p \<Rightarrow> if p = ''/o/a.goobj'' then Inr (Text ''obj'') else Inl ''no file'' | MkdirTemp \<Rightarrow> Inr (Text ''/s'') | _ \<Rightarrow> Inr Done)"

theorem hook_packs_witness:
  "\<exists>tr stage es. run_hook hook_world [] (HookPack ''/go/compile'' [''-p'', ''main''] ''/t/p.a'' [''/o/b.goobj'', ''/o/a.goobj'']) [] = (Inr (Some 0), tr) \<and>
     tr = Start ''/go/compile'' [''-p'', ''main''] # es \<and> packed Map.empty es = [(''/t/p.a'', Join_path [stage, ''a.o''], Some ''obj'')]"
proof -
  let ?objs = "[''/o/b.goobj'', ''/o/a.goobj'']" and ?c = "\<lambda>p. if p = ''/o/a.goobj'' then Some ''obj'' else None"
  let ?r = "run_hook hook_world [] (HookPack ''/go/compile'' [''-p'', ''main''] ''/t/p.a'' ?objs) []"
  have r: "fst ?r = Inr (Some 0)" "cut_suffix ''.a'' ''/t/p.a'' \<noteq> None" "member_name ''/o/a.goobj'' = ''a.o''" by code_simp+
  then obtain tr where tr: "?r = (Inr (Some 0), tr)" by (metis prod.collapse)
  have w: "\<forall>obj\<in>set ?objs. reads hook_world obj (?c obj)" "\<forall>pre. isl (hook_world pre (Stat ''/t/p.a'')) = (\<not> True)" by (simp_all add: hook_world_def reads_def)
  show ?thesis using hook_packs [OF tr w] tr r(2,3) by (auto simp: members_def)
qed

end
